(* ===== verification/Prelude.thy ===== *)
theory Prelude
  imports
    Complex_Main
    "HOL-Library.Word"
    "HOL-Library.Log_Nat"
    "HOL-Library.Product_Lexorder"
begin

text \<open>
  Shared vocabulary of the development: the names of the C integer types, the hint
  collections the component theories fill, the generic lemmas on words and lists, and
  the locale of a state machine with an invariant, which every component that is
  stepped in a loop (control engine, blink encoder, address claim, schedulers)
  interprets on its own step function.
\<close>

unbundle bit_operations_syntax

section \<open>C integer types\<close>

type_synonym u8 = "8 word"
type_synonym u16 = "16 word"
type_synonym u32 = "32 word"
type_synonym u64 = "64 word"

text \<open>
  An \<open>int8_t\<close> is its bit pattern; where the code compares or converts it, the model
  reads it with \<open>sint\<close>.
\<close>

type_synonym i8 = "8 word"

text \<open>A C string, without its NUL; \<open>None\<close> is a null pointer.\<close>

type_synonym cstr = "u8 list option"

definition text_bytes :: "string \<Rightarrow> u8 list" where
  "text_bytes s = map of_char s"

lemma unat_char: "unat (of_char c :: u8) = of_char c"
proof -
  have "unat (of_nat (of_char c) :: u8) = of_char c"
    using nat_of_char_less_256 [of c] by (simp only: unat_of_nat take_bit_eq_mod) simp
  then show ?thesis by (simp only: of_nat_of_char)
qed

lemma unat_char_inj: "inj (of_char :: char \<Rightarrow> u8)"
  by (rule injI) (metis unat_char char_of_char)

lemma text_bytes_inj [simp]: "text_bytes s = text_bytes t \<longleftrightarrow> s = t"
  unfolding text_bytes_def by (rule inj_map_eq_map [OF unat_char_inj])

lemma text_bytes_c_string: "list_all (\<lambda>c. c \<noteq> CHR 0x00) s \<Longrightarrow> takeWhile (\<lambda>c. c \<noteq> 0) (text_bytes s) = text_bytes s"
proof -
  have "(of_char c = (0 :: u8)) = (c = CHR 0x00)" for c
  proof -
    have "(of_char c = (0 :: u8)) = (unat (of_char c :: u8) = of_char (CHR 0x00))" by (simp add: unat_eq_0)
    then show ?thesis by (simp only: unat_char of_char_eq_iff)
  qed
  then show "list_all (\<lambda>c. c \<noteq> CHR 0x00) s \<Longrightarrow> takeWhile (\<lambda>c. c \<noteq> 0) (text_bytes s) = text_bytes s"
    by (induction s) (simp_all add: text_bytes_def)
qed

named_theorems fp_simps "evaluation of the IEEE operations at their special values"
named_theorems fp_intros "introduction rules for float ranges"
named_theorems step_defs "unfolding of the phases of a step function"
named_theorems wire_simps "lengths and round trips of wire fields"

section \<open>Words\<close>

text \<open>The wrap-around safe time comparisons of the code: signed difference and elapsed time.\<close>

lemma word_sub_self_le [simp]: "(0 :: 'a::len word) \<le> x"
  by simp

lemma unat_sub_elapsed:
  fixes now start :: "'a::len word"
  shows "unat (start + of_nat n - start) = n mod 2 ^ LENGTH('a)"
  by (simp add: unat_of_nat take_bit_eq_mod)

lemma unat_lt2p: "unat (x :: 'a::len word) < 2 ^ LENGTH('a)"
  by (rule unsigned_less)

lemma unat_add_le: "unat (a + b) \<le> unat a + unat (b :: 'a::len word)"
  by (simp add: unat_word_ariths mod_less_eq_dividend)

lemma unat_ucast_u16: "unat (ucast (t :: u16) :: u32) = unat t"
proof -
  have "unat t < 2 ^ 16" using unsigned_less [of t, where 'a = nat] by simp
  then have "unat t < 2 ^ 32" by simp
  then show ?thesis by (simp add: unsigned_ucast_eq take_bit_nat_eq_self)
qed

lemma sint_u32:
  fixes w :: u32
  shows "sint w = (if uint w < 2 ^ 31 then uint w else uint w - 2 ^ 32)"
proof (cases "uint w < 2 ^ 31")
  case True
  then show ?thesis
    by (simp add: sint_uint signed_take_bit_int_eq_self_iff order_trans [OF _ uint_ge_0])
next
  case False
  have u: "uint w < 2 ^ 32" using uint_lt2p [of w] by simp
  have "signed_take_bit 31 (uint w) = signed_take_bit 31 (uint w - 2 ^ 32)"
    by (simp add: signed_take_bit_eq_iff_take_bit_eq take_bit_eq_mod)
  also have "\<dots> = uint w - 2 ^ 32"
    using False u by (simp add: signed_take_bit_int_eq_self_iff)
  finally show ?thesis using False by (simp add: sint_uint)
qed

lemma uint_less_iff_u32: "uint (w :: u32) < 2 ^ 31 \<longleftrightarrow> unat w < 2 ^ 31"
proof -
  have "int (unat w) < int (2 ^ 31) \<longleftrightarrow> unat w < 2 ^ 31" by (rule of_nat_less_iff)
  then show ?thesis by simp
qed

lemma sint_u32_nonneg: "0 \<le> sint (w :: u32) \<longleftrightarrow> unat w < 2 ^ 31"
proof -
  have "uint w < 2 ^ 32" using uint_lt2p [of w] by simp
  then show ?thesis unfolding sint_u32 uint_less_iff_u32 [symmetric] by simp
qed

section \<open>State machines with an invariant\<close>

text \<open>
  A component that is stepped by its caller forever. The client of the locale gets the
  invariant of every run; \<open>ok\<close> is what the caller promises of each event.
\<close>

locale machine =
  fixes step :: "'s \<Rightarrow> 'e \<Rightarrow> 's"
    and ok :: "'e \<Rightarrow> bool"
    and inv :: "'s \<Rightarrow> bool"
  assumes inv_step: "inv s \<Longrightarrow> ok e \<Longrightarrow> inv (step s e)"
begin

lemma inv_run: "inv s \<Longrightarrow> list_all ok es \<Longrightarrow> inv (foldl step s es)"
  by (induction es arbitrary: s) (auto intro: inv_step)

lemma inv_prefix: "inv s \<Longrightarrow> list_all ok (es @ fs) \<Longrightarrow> inv (foldl step s es)"
  by (simp add: inv_run)

end

end
