(* ===== verification/Ieee.thy ===== *)
theory Ieee
  imports Prelude
begin

text \<open>
  The \<open>float\<close> and \<open>double\<close> of the target: IEEE 754 binary32 and binary64 with
  round-to-nearest-even, evaluated operation by operation (the Cortex-M0 has no FPU, so
  there is no fused or extended-precision evaluation). A \<open>float\<close> is its 32-bit pattern,
  as the union cast of \<open>config_codec.c\<close> sees it; every operation decodes its operands to
  their exact rational value, computes exactly, and rounds once.

  The rounding function is shown monotone and exact on representable values
  (locale \<open>rounding\<close>, interpreted for both formats), the bit encoding is shown to be
  inverse to the decoding, and the order of C on floats (false on NaN) is reduced to a
  linear order. A NaN result is the default quiet NaN; the code never looks at the
  payload of a computed NaN.
\<close>

section \<open>Rounding to a binary format\<close>

definition flog2 :: "rat \<Rightarrow> int" where
  "flog2 x = (let (n, d) = quotient_of x; k = bitlen n - bitlen d
              in if 2 powi k \<le> x then k else k - 1)"

definition rne :: "rat \<Rightarrow> int" where
  "rne x = (let f = \<lfloor>x\<rfloor>; d = x - of_int f
            in if d < 1 / 2 \<or> (d = 1 / 2 \<and> even f) then f else f + 1)"

record fp_fmt =
  fmt_prec :: int
  fmt_qmin :: int
  fmt_emax :: int

definition single_fmt :: fp_fmt where
  "single_fmt = \<lparr>fmt_prec = 24, fmt_qmin = -149, fmt_emax = 127\<rparr>"

definition double_fmt :: fp_fmt where
  "double_fmt = \<lparr>fmt_prec = 53, fmt_qmin = -1074, fmt_emax = 1023\<rparr>"

definition quantum :: "fp_fmt \<Rightarrow> rat \<Rightarrow> int" where
  "quantum F x = max (flog2 \<bar>x\<bar> - (fmt_prec F - 1)) (fmt_qmin F)"

definition round_rat :: "fp_fmt \<Rightarrow> rat \<Rightarrow> rat" where
  "round_rat F x = (if x = 0 then 0
     else let q = quantum F x in of_int (rne (x / 2 powi q)) * 2 powi q)"

lemma powi2_pos: "(0 :: rat) < 2 powi k"
  by simp

lemma powi2_Suc: "(2 :: rat) powi (k + 1) = 2 * 2 powi k"
  by (simp add: power_int_add)

lemma powi2_mono: "a \<le> b \<Longrightarrow> (2 :: rat) powi a \<le> 2 powi b"
  by (simp add: power_int_increasing)

lemma powi2_less_iff [simp]: "(2 :: rat) powi a < 2 powi b \<longleftrightarrow> a < b"
  by (metis linorder_not_less one_less_numeral_iff power_int_strict_increasing powi2_mono semiring_norm(76))

lemma powi2_le_iff [simp]: "(2 :: rat) powi a \<le> 2 powi b \<longleftrightarrow> a \<le> b"
  by (meson linorder_not_less powi2_less_iff)

lemma powi2_nat: "0 \<le> k \<Longrightarrow> (2 :: rat) powi k = of_int (2 ^ nat k)"
  by (simp add: power_int_def)

lemma powi2_split: "q \<le> k \<Longrightarrow> (2 :: rat) powi k = of_int (2 ^ nat (k - q)) * 2 powi q"
proof -
  assume "q \<le> k"
  then have "of_int (2 ^ nat (k - q)) = (2 :: rat) powi (k - q)" by (simp add: powi2_nat)
  then have "of_int (2 ^ nat (k - q)) * 2 powi q = (2 :: rat) powi (k - q) * 2 powi q" by simp
  also have "\<dots> = 2 powi k" by (simp flip: power_int_add)
  finally show ?thesis by simp
qed

text \<open>The two bounds that characterise the binary exponent.\<close>

lemma flog2_bounds:
  assumes "0 < x"
  shows "2 powi flog2 x \<le> x" and "x < 2 powi (flog2 x + 1)"
proof -
  obtain n d where q: "quotient_of x = (n, d)" by force
  have d: "0 < d" using q by (rule quotient_of_denom_pos)
  have x: "x = of_int n / of_int d" using q by (rule quotient_of_div)
  have n: "0 < n" using assms x d by (simp add: zero_less_divide_iff)
  define a where "a = bitlen n"
  define b where "b = bitlen d"
  have ab: "0 < a" "0 < b" using n d bitlen_eq_zero_iff [of n] bitlen_eq_zero_iff [of d]
      bitlen_nonneg [of n] bitlen_nonneg [of d] unfolding a_def b_def by linarith+
  have "of_int (2 ^ nat (a - 1)) \<le> (of_int n :: rat)" "(of_int n :: rat) < of_int (2 ^ nat a)"
    "of_int (2 ^ nat (b - 1)) \<le> (of_int d :: rat)" "(of_int d :: rat) < of_int (2 ^ nat b)"
    using bitlen_bounds [OF n] bitlen_bounds [OF d]
    unfolding a_def b_def of_int_le_iff of_int_less_iff by auto
  then have N: "2 powi (a - 1) \<le> (of_int n :: rat)" "(of_int n :: rat) < 2 powi a"
    and D: "2 powi (b - 1) \<le> (of_int d :: rat)" "(of_int d :: rat) < 2 powi b"
    using ab by (auto simp: power_int_def)
  have lo: "2 powi (a - b - 1) \<le> x"
  proof -
    have "2 powi (a - b - 1) * of_int d \<le> (2 powi (a - b - 1) * 2 powi b :: rat)"
      using D by (intro mult_left_mono) auto
    also have "\<dots> = 2 powi (a - 1)" by (simp flip: power_int_add)
    also have "\<dots> \<le> of_int n" by (rule N)
    finally show ?thesis using d by (simp add: x pos_le_divide_eq)
  qed
  have hi: "x < 2 powi (a - b + 1)"
  proof -
    have "(of_int n :: rat) < 2 powi a" by (rule N)
    also have "\<dots> = 2 powi (a - b + 1) * 2 powi (b - 1)" by (simp flip: power_int_add)
    also have "\<dots> \<le> 2 powi (a - b + 1) * of_int d"
      using D by (intro mult_left_mono) auto
    finally show ?thesis using d by (simp add: x pos_divide_less_eq)
  qed
  show "2 powi flog2 x \<le> x" and "x < 2 powi (flog2 x + 1)"
    using lo hi by (auto simp: flog2_def q Let_def simp flip: a_def b_def)
qed

lemma flog2_unique: "2 powi k \<le> x \<Longrightarrow> x < 2 powi (k + 1) \<Longrightarrow> flog2 x = k"
proof -
  assume k: "2 powi k \<le> x" "x < 2 powi (k + 1)"
  then have "0 < x" using powi2_pos order_less_le_trans by blast
  from flog2_bounds [OF this] k have "2 powi k < (2 :: rat) powi (flog2 x + 1)"
    and "2 powi flog2 x < (2 :: rat) powi (k + 1)" by linarith+
  then have "k < flog2 x + 1" "flog2 x < k + 1" by (simp_all only: powi2_less_iff)
  then show ?thesis by linarith
qed

lemma flog2_mono: "0 < x \<Longrightarrow> x \<le> y \<Longrightarrow> flog2 x \<le> flog2 y"
proof -
  assume "0 < x" "x \<le> y"
  then have "2 powi flog2 x \<le> x" "y < 2 powi (flog2 y + 1)"
    using flog2_bounds by (auto intro: less_le_trans)
  with \<open>x \<le> y\<close> have "(2 :: rat) powi flog2 x < 2 powi (flog2 y + 1)" by linarith
  then show ?thesis by simp
qed

text \<open>Rounding to an integer, ties to even.\<close>

lemma rne_of_int [simp]: "rne (of_int k) = k"
  by (simp add: rne_def)

lemma rne_bounds: "x - 1 / 2 \<le> of_int (rne x)" "of_int (rne x) \<le> x + 1 / 2"
proof -
  define f where "f = \<lfloor>x\<rfloor>"
  define d where "d = x - of_int f"
  have d: "0 \<le> d" "d < 1" using floor_correct [of x] by (simp_all add: d_def f_def)
  have r: "of_int (rne x) = x - d \<and> d \<le> 1 / 2 \<or> of_int (rne x) = x - d + 1 \<and> 1 / 2 \<le> d"
    unfolding rne_def Let_def f_def [symmetric] d_def [symmetric] by (auto simp: d_def)
  show "x - 1 / 2 \<le> of_int (rne x)" "of_int (rne x) \<le> x + 1 / 2"
    using r d by linarith+
qed

lemma rne_mono: "x \<le> y \<Longrightarrow> rne x \<le> rne y"
proof -
  assume xy: "x \<le> y"
  show ?thesis
  proof (cases "\<lfloor>x\<rfloor> = \<lfloor>y\<rfloor>")
    case True
    with xy show ?thesis by (auto simp: rne_def Let_def)
  next
    case False
    with xy have "\<lfloor>x\<rfloor> + 1 \<le> \<lfloor>y\<rfloor>" using floor_mono [OF xy] by linarith
    then show ?thesis by (auto simp: rne_def Let_def)
  qed
qed

lemma rne_minus: "rne (- x) = - rne x"
proof -
  have fl: "\<lfloor>- x\<rfloor> = (if x = of_int \<lfloor>x\<rfloor> then - \<lfloor>x\<rfloor> else - \<lfloor>x\<rfloor> - 1)"
    by (simp add: floor_minus ceiling_altdef)
  show ?thesis
  proof (cases "x = of_int \<lfloor>x\<rfloor>")
    case True
    then show ?thesis by (metis of_int_minus rne_of_int)
  next
    case False
    then have d: "0 < x - of_int \<lfloor>x\<rfloor>" "x - of_int \<lfloor>x\<rfloor> < 1"
      using floor_correct [of x] by (auto simp: order_less_le)
    have f: "\<lfloor>- x\<rfloor> = - \<lfloor>x\<rfloor> - 1" using False fl by simp
    show ?thesis unfolding rne_def Let_def f by (auto simp: algebra_simps)
  qed
qed

lemma rne_le_of_int: "x \<le> of_int k \<Longrightarrow> rne x \<le> k"
  using rne_mono [of x "of_int k"] by simp

lemma of_int_le_rne: "of_int k \<le> x \<Longrightarrow> k \<le> rne x"
  using rne_mono [of "of_int k" x] by simp
text \<open>A rational is representable when it is a short integer multiple of a power of two.\<close>

definition representable :: "fp_fmt \<Rightarrow> rat \<Rightarrow> bool" where
  "representable F x \<longleftrightarrow> (\<exists>m q. x = of_int m * 2 powi q \<and> \<bar>m\<bar> < 2 ^ nat (fmt_prec F) \<and> fmt_qmin F \<le> q)"

lemma round_rat_0 [simp]: "round_rat F 0 = 0"
  by (simp add: round_rat_def)

lemma round_rat_minus: "round_rat F (- x) = - round_rat F x"
  by (simp add: round_rat_def quantum_def Let_def rne_minus)

lemma round_rat_pos:
  assumes "0 < x"
  shows "round_rat F x = of_int (rne (x / 2 powi quantum F x)) * 2 powi quantum F x"
  using assms by (simp add: round_rat_def Let_def)

lemma quantum_mono: "0 < x \<Longrightarrow> x \<le> y \<Longrightarrow> quantum F x \<le> quantum F y"
  using flog2_mono [of x y] by (auto simp: quantum_def)

lemma round_rat_nonneg: "0 \<le> x \<Longrightarrow> 0 \<le> round_rat F x"
proof (cases "x = 0")
  case False
  assume "0 \<le> x"
  with False have "0 < x" by simp
  moreover have "0 \<le> rne (x / 2 powi quantum F x)"
    using \<open>0 < x\<close> by (intro of_int_le_rne) simp
  ultimately show ?thesis by (simp add: round_rat_pos)
qed simp

text \<open>Rounding an \<open>x\<close> below a power of two above its quantum stays below it, and dually.\<close>

lemma round_rat_le_pow:
  assumes "0 < x" "x \<le> 2 powi k" "quantum F x \<le> k"
  shows "round_rat F x \<le> 2 powi k"
proof -
  let ?q = "quantum F x"
  have k: "(2 :: rat) powi k = of_int (2 ^ nat (k - ?q)) * 2 powi ?q"
    using assms(3) by (rule powi2_split)
  then have "x / 2 powi ?q \<le> of_int (2 ^ nat (k - ?q))"
    using assms(2) powi2_pos [of ?q] by (simp add: pos_divide_le_eq)
  then have "rne (x / 2 powi ?q) \<le> 2 ^ nat (k - ?q)" by (rule rne_le_of_int)
  then have "of_int (rne (x / 2 powi ?q)) * 2 powi ?q \<le> (of_int (2 ^ nat (k - ?q)) * 2 powi ?q :: rat)"
    unfolding of_int_le_iff [where 'a = rat, symmetric] by (intro mult_right_mono) simp_all
  then show ?thesis by (simp add: round_rat_pos assms(1) k)
qed

lemma pow_le_round_rat:
  assumes "0 < x" "2 powi k \<le> x" "quantum F x \<le> k"
  shows "2 powi k \<le> round_rat F x"
proof -
  let ?q = "quantum F x"
  have k: "(2 :: rat) powi k = of_int (2 ^ nat (k - ?q)) * 2 powi ?q"
    using assms(3) by (rule powi2_split)
  then have "of_int (2 ^ nat (k - ?q)) \<le> x / 2 powi ?q"
    using assms(2) powi2_pos [of ?q] by (simp add: pos_le_divide_eq)
  then have "2 ^ nat (k - ?q) \<le> rne (x / 2 powi ?q)" by (rule of_int_le_rne)
  then have "(of_int (2 ^ nat (k - ?q)) * 2 powi ?q :: rat) \<le> of_int (rne (x / 2 powi ?q)) * 2 powi ?q"
    unfolding of_int_le_iff [where 'a = rat, symmetric] by (intro mult_right_mono) simp_all
  then show ?thesis by (simp add: round_rat_pos assms(1) k)
qed

lemma round_rat_mono_pos:
  assumes "0 < x" "x \<le> y" "1 \<le> fmt_prec F"
  shows "round_rat F x \<le> round_rat F y"
proof (cases "quantum F x = quantum F y")
  case True
  have "rne (x / 2 powi quantum F x) \<le> rne (y / 2 powi quantum F x)"
    using assms by (intro rne_mono divide_right_mono) simp_all
  then show ?thesis
    using assms True by (simp add: round_rat_pos)
next
  case False
  then have q: "quantum F x < quantum F y" using quantum_mono [OF assms(1,2), of F] by simp
  let ?e = "flog2 y"
  have ey: "quantum F y = ?e - (fmt_prec F - 1)" and exy: "flog2 x < ?e"
    using q assms flog2_mono [OF assms(1,2)] by (auto simp: quantum_def max_def split: if_splits)
  have "x \<le> 2 powi ?e"
  proof -
    have "x < 2 powi (flog2 x + 1)" using assms(1) by (rule flog2_bounds)
    also have "\<dots> \<le> 2 powi ?e" using exy by (intro powi2_mono) simp
    finally show ?thesis by simp
  qed
  moreover have "quantum F x \<le> ?e" "quantum F y \<le> ?e" using q ey assms(3) by simp_all
  ultimately have "round_rat F x \<le> 2 powi ?e" and "2 powi ?e \<le> round_rat F y"
    using assms flog2_bounds(1) [of y] by (auto intro!: round_rat_le_pow pow_le_round_rat)
  then show ?thesis by (rule order_trans)
qed

lemma round_rat_mono:
  assumes "x \<le> y" "1 \<le> fmt_prec F"
  shows "round_rat F x \<le> round_rat F y"
proof -
  consider "0 < x" | "x \<le> 0" "0 \<le> y" | "y < 0" by linarith
  then show ?thesis
  proof cases
    case 1
    then show ?thesis using assms by (rule round_rat_mono_pos)
  next
    case 2
    then have "0 \<le> round_rat F (- x)" "0 \<le> round_rat F y" by (simp_all add: round_rat_nonneg)
    then show ?thesis by (simp add: round_rat_minus)
  next
    case 3
    then have "round_rat F (- y) \<le> round_rat F (- x)" using assms by (intro round_rat_mono_pos) auto
    then show ?thesis by (simp add: round_rat_minus)
  qed
qed

lemma round_rat_representable: "1 \<le> fmt_prec F \<Longrightarrow> representable F x \<Longrightarrow> round_rat F x = x"
proof -
  assume p: "1 \<le> fmt_prec F" and "representable F x"
  then obtain m q where x: "x = of_int m * 2 powi q" and m: "\<bar>m\<bar> < 2 ^ nat (fmt_prec F)"
    and q: "fmt_qmin F \<le> q" by (auto simp: representable_def)
  show ?thesis
  proof (cases "x = 0")
    case False
    have "\<bar>x\<bar> = of_int \<bar>m\<bar> * 2 powi q" by (simp add: x abs_mult)
    also have "\<dots> < of_int (2 ^ nat (fmt_prec F)) * 2 powi q"
      using m unfolding of_int_less_iff [where 'a = rat, symmetric]
      by (intro mult_strict_right_mono) (simp_all add: powi2_pos)
    also have "\<dots> = 2 powi (fmt_prec F + q)"
      using p powi2_split [of q "fmt_prec F + q"] by simp
    finally have "2 powi flog2 \<bar>x\<bar> < (2 :: rat) powi (fmt_prec F + q)"
      using flog2_bounds(1) [of "\<bar>x\<bar>"] False by (simp del: powi2_less_iff)
    then have qle: "quantum F x \<le> q" using q by (simp add: quantum_def)
    have "x = of_int (m * 2 ^ nat (q - quantum F x)) * 2 powi quantum F x"
      using x powi2_split [OF qle] by (simp add: mult.assoc)
    then have "x / 2 powi quantum F x = of_int (m * 2 ^ nat (q - quantum F x))"
      using powi2_pos [of "quantum F x"]
      by (metis less_irrefl nonzero_mult_div_cancel_right)
    then have "of_int (rne (x / 2 powi quantum F x)) = x / 2 powi quantum F x"
      by (metis rne_of_int)
    then show ?thesis using False by (simp add: round_rat_def Let_def)
  qed simp
qed

lemma representable_round: "1 \<le> fmt_prec F \<Longrightarrow> representable F (round_rat F x)"
proof -
  assume p: "1 \<le> fmt_prec F"
  show ?thesis
  proof (cases "x = 0")
    case True
    then show ?thesis unfolding representable_def by (intro exI [of _ 0] exI [of _ "fmt_qmin F"]) simp
  next
    case False
    let ?q = "quantum F x"
    let ?m = "rne (x / 2 powi ?q)"
    have "\<bar>x\<bar> < 2 powi (flog2 \<bar>x\<bar> + 1)" using False by (intro flog2_bounds) simp
    also have "\<dots> \<le> 2 powi (fmt_prec F + ?q)" by (intro powi2_mono) (simp add: quantum_def)
    also have "\<dots> = of_int (2 ^ nat (fmt_prec F)) * 2 powi ?q"
      using p powi2_split [of ?q "fmt_prec F + ?q"] by simp
    finally have "\<bar>x / 2 powi ?q\<bar> \<le> of_int (2 ^ nat (fmt_prec F))"
      by (simp add: pos_divide_le_eq powi2_pos)
    then have "x / 2 powi ?q \<le> of_int (2 ^ nat (fmt_prec F))"
      "of_int (- (2 ^ nat (fmt_prec F))) \<le> x / 2 powi ?q" unfolding abs_le_iff by simp_all
    then have "?m \<le> 2 ^ nat (fmt_prec F)" and "- (2 ^ nat (fmt_prec F)) \<le> ?m"
      by (auto intro: rne_le_of_int of_int_le_rne simp del: of_int_minus of_int_power)
    then have m: "\<bar>?m\<bar> \<le> 2 ^ nat (fmt_prec F)" by linarith
    have eq: "round_rat F x = of_int ?m * 2 powi ?q" using False by (simp add: round_rat_def Let_def)
    show ?thesis
    proof (cases "\<bar>?m\<bar> = 2 ^ nat (fmt_prec F)")
      case False
      with m eq show ?thesis unfolding representable_def
        by (intro exI [of _ ?m] exI [of _ ?q]) (simp add: quantum_def)
    next
      case True
      have "of_int \<bar>?m\<bar> * 2 powi ?q = (of_int 1 * 2 powi (fmt_prec F + ?q) :: rat)"
        unfolding True using p powi2_split [of ?q "fmt_prec F + ?q"] by simp
      moreover have "(of_int ?m :: rat) = of_int (sgn ?m) * of_int \<bar>?m\<bar>"
        unfolding of_int_mult [symmetric] mult_sgn_abs by (rule refl)
      ultimately have "round_rat F x = of_int (sgn ?m) * 2 powi (fmt_prec F + ?q)"
        unfolding eq by (simp only: mult.assoc of_int_1 mult_1)
      moreover have "\<bar>sgn ?m\<bar> < 2 ^ nat (fmt_prec F)"
        using p one_less_power [of "2 :: int" "nat (fmt_prec F)"] by (simp add: sgn_if)
      moreover have "fmt_qmin F \<le> fmt_prec F + ?q" using p by (simp add: quantum_def)
      ultimately show ?thesis unfolding representable_def by blast
    qed
  qed
qed

text \<open>The facts about rounding that the range proofs use, for any rounding function.\<close>

locale rounding =
  fixes rnd :: "rat \<Rightarrow> rat"
  assumes mono: "x \<le> y \<Longrightarrow> rnd x \<le> rnd y"
    and idem: "rnd (rnd x) = rnd x"
    and odd: "rnd (- x) = - rnd x"
begin

lemma zero: "rnd 0 = 0"
  using odd [of 0] by simp

lemma le_fixed: "rnd y = y \<Longrightarrow> x \<le> y \<Longrightarrow> rnd x \<le> y"
  using mono by metis

lemma fixed_le: "rnd x = x \<Longrightarrow> x \<le> y \<Longrightarrow> x \<le> rnd y"
  using mono by metis

lemma nonneg: "0 \<le> x \<Longrightarrow> 0 \<le> rnd x"
  using fixed_le zero by simp

lemma nonpos: "x \<le> 0 \<Longrightarrow> rnd x \<le> 0"
  using le_fixed zero by simp

text \<open>Scaling a rounded \<open>y\<close> by a factor of \<open>[0, 1]\<close> stays within \<open>[0, y]\<close>.\<close>

lemma scale_bounds:
  assumes "0 \<le> e" "e \<le> 1" "0 \<le> y" "rnd y = y"
  shows "0 \<le> rnd (e * y)" and "rnd (e * y) \<le> y"
  using assms by (auto intro!: nonneg le_fixed mult_left_le_one_le)

end

lemma rounding_round_rat: "1 \<le> fmt_prec F \<Longrightarrow> rounding (round_rat F)"
  by unfold_locales
    (auto intro: round_rat_mono round_rat_representable representable_round round_rat_minus)

interpretation r32: rounding "round_rat single_fmt"
  by (rule rounding_round_rat) (simp add: single_fmt_def)

interpretation r64: rounding "round_rat double_fmt"
  by (rule rounding_round_rat) (simp add: double_fmt_def)

section \<open>Values and operations\<close>

text \<open>
  \<open>FpInf True\<close> is minus infinity; \<open>FpFin s v\<close> has the value \<open>v\<close>, and the sign bit \<open>s\<close>
  tells the two zeros apart.
\<close>

datatype fp = FpNan | FpInf bool | FpFin bool rat

text \<open>Round an exact result to the format; \<open>s\<close> is the sign of an exact zero.\<close>

definition fp_round :: "fp_fmt \<Rightarrow> bool \<Rightarrow> rat \<Rightarrow> fp" where
  "fp_round F s v = (let r = round_rat F v in
     if 2 powi (fmt_emax F + 1) \<le> \<bar>r\<bar> then FpInf (v < 0)
     else FpFin (if v = 0 then s else v < 0) r)"

fun fp_neg :: "fp \<Rightarrow> fp" where
  "fp_neg FpNan = FpNan"
| "fp_neg (FpInf s) = FpInf (\<not> s)"
| "fp_neg (FpFin s v) = FpFin (\<not> s) (- v)"

fun fp_abs :: "fp \<Rightarrow> fp" where
  "fp_abs FpNan = FpNan"
| "fp_abs (FpInf s) = FpInf False"
| "fp_abs (FpFin s v) = FpFin False \<bar>v\<bar>"

fun fp_add :: "fp_fmt \<Rightarrow> fp \<Rightarrow> fp \<Rightarrow> fp" where
  "fp_add F (FpFin s x) (FpFin t y) = fp_round F (s \<and> t) (x + y)"
| "fp_add F FpNan b = FpNan"
| "fp_add F a FpNan = FpNan"
| "fp_add F (FpInf s) (FpInf t) = (if s = t then FpInf s else FpNan)"
| "fp_add F (FpInf s) (FpFin t y) = FpInf s"
| "fp_add F (FpFin s x) (FpInf t) = FpInf t"

definition fp_sub :: "fp_fmt \<Rightarrow> fp \<Rightarrow> fp \<Rightarrow> fp" where
  "fp_sub F a b = fp_add F a (fp_neg b)"

fun fp_mul :: "fp_fmt \<Rightarrow> fp \<Rightarrow> fp \<Rightarrow> fp" where
  "fp_mul F (FpFin s x) (FpFin t y) = fp_round F (s \<noteq> t) (x * y)"
| "fp_mul F FpNan b = FpNan"
| "fp_mul F a FpNan = FpNan"
| "fp_mul F (FpInf s) (FpInf t) = FpInf (s \<noteq> t)"
| "fp_mul F (FpInf s) (FpFin t y) = (if y = 0 then FpNan else FpInf (s \<noteq> t))"
| "fp_mul F (FpFin s x) (FpInf t) = (if x = 0 then FpNan else FpInf (s \<noteq> t))"

fun fp_div :: "fp_fmt \<Rightarrow> fp \<Rightarrow> fp \<Rightarrow> fp" where
  "fp_div F (FpFin s x) (FpFin t y) =
     (if y = 0 then (if x = 0 then FpNan else FpInf (s \<noteq> t)) else fp_round F (s \<noteq> t) (x / y))"
| "fp_div F FpNan b = FpNan"
| "fp_div F a FpNan = FpNan"
| "fp_div F (FpInf s) (FpInf t) = FpNan"
| "fp_div F (FpInf s) (FpFin t y) = FpInf (s \<noteq> t)"
| "fp_div F (FpFin s x) (FpInf t) = FpFin (s \<noteq> t) 0"

text \<open>
  The order: NaN compares false with everything; the other values are ordered by a key
  in the lexicographic order of (sign of infinity, value).
\<close>

fun fp_key :: "fp \<Rightarrow> int \<times> rat" where
  "fp_key FpNan = (0, 0)"
| "fp_key (FpInf s) = (if s then -1 else 1, 0)"
| "fp_key (FpFin s v) = (0, v)"

definition fp_lt :: "fp \<Rightarrow> fp \<Rightarrow> bool" where
  "fp_lt a b \<longleftrightarrow> a \<noteq> FpNan \<and> b \<noteq> FpNan \<and> fp_key a < fp_key b"

definition fp_le :: "fp \<Rightarrow> fp \<Rightarrow> bool" where
  "fp_le a b \<longleftrightarrow> a \<noteq> FpNan \<and> b \<noteq> FpNan \<and> fp_key a \<le> fp_key b"

definition fp_finite :: "fp \<Rightarrow> bool" where
  "fp_finite a \<longleftrightarrow> (case a of FpFin s v \<Rightarrow> True | _ \<Rightarrow> False)"

text \<open>
  \<open>llround\<close>: nearest integer, ties away from zero. The C standard leaves the result
  unspecified when it does not fit a \<open>long long\<close> (and for NaN and infinities); \<open>oor\<close> is
  the number the library returns then.
\<close>

definition round_away :: "rat \<Rightarrow> int" where
  "round_away x = (if x < 0 then - \<lfloor>1 / 2 - x\<rfloor> else \<lfloor>x + 1 / 2\<rfloor>)"

definition llround :: "int \<Rightarrow> fp \<Rightarrow> int" where
  "llround oor x = (case x of
     FpFin s v \<Rightarrow> let r = round_away v in if - (2 ^ 63) \<le> r \<and> r < 2 ^ 63 then r else oor
   | _ \<Rightarrow> oor)"

section \<open>The type float\<close>

datatype f32 = F32 (f32_bits: u32)

text \<open>The value of sign \<open>s\<close>, biased exponent \<open>e\<close> and fraction \<open>m\<close>.\<close>

definition fp_unpack :: "bool \<Rightarrow> int \<Rightarrow> int \<Rightarrow> fp" where
  "fp_unpack s e m =
     (if e = 255 then (if m = 0 then FpInf s else FpNan)
      else let a = (if e = 0 then of_int m * 2 powi (-149)
                    else of_int (2 ^ 23 + m) * 2 powi (e - 150))
           in FpFin s (if s then - a else a))"

definition fpv :: "f32 \<Rightarrow> fp" where
  "fpv x = (let u = uint (f32_bits x)
            in fp_unpack (2 ^ 31 \<le> u) (u div 2 ^ 23 mod 256) (u mod 2 ^ 23))"

definition f32_of :: "fp \<Rightarrow> f32" where
  "f32_of x = F32 (word_of_int (case x of
     FpNan \<Rightarrow> 255 * 2 ^ 23 + 2 ^ 22
   | FpInf s \<Rightarrow> (if s then 2 ^ 31 else 0) + 255 * 2 ^ 23
   | FpFin s v \<Rightarrow> (if s then 2 ^ 31 else 0) + (if v = 0 then 0
       else let q = quantum single_fmt v in (q + 149) * 2 ^ 23 + \<lfloor>\<bar>v\<bar> / 2 powi q\<rfloor>)))"

text \<open>A value of the format: what a bit pattern can denote.\<close>

definition single :: "fp \<Rightarrow> bool" where
  "single x = (case x of FpFin s v \<Rightarrow> representable single_fmt v \<and> \<bar>v\<bar> < 2 powi 128 \<and> (v \<noteq> 0 \<longrightarrow> s = (v < 0))
     | _ \<Rightarrow> True)"

instantiation f32 :: "{plus, minus, uminus, times, inverse, ord, zero, one}"
begin

definition plus_f32 :: "f32 \<Rightarrow> f32 \<Rightarrow> f32" where
  "a + b = f32_of (fp_add single_fmt (fpv a) (fpv b))"

definition minus_f32 :: "f32 \<Rightarrow> f32 \<Rightarrow> f32" where
  "a - b = f32_of (fp_sub single_fmt (fpv a) (fpv b))"

definition uminus_f32 :: "f32 \<Rightarrow> f32" where
  "- a = F32 (f32_bits a + 0x80000000)" \<comment> \<open>flips bit 31\<close>

definition times_f32 :: "f32 \<Rightarrow> f32 \<Rightarrow> f32" where
  "a * b = f32_of (fp_mul single_fmt (fpv a) (fpv b))"

definition divide_f32 :: "f32 \<Rightarrow> f32 \<Rightarrow> f32" where
  "a div b = f32_of (fp_div single_fmt (fpv a) (fpv b))"

definition one_f32 :: f32 where
  "1 = F32 0x3F800000"

definition zero_f32 :: f32 where
  "0 = F32 0"

definition inverse_f32 :: "f32 \<Rightarrow> f32" where
  "inverse (a :: f32) = 1 div a"

definition less_f32 :: "f32 \<Rightarrow> f32 \<Rightarrow> bool" where
  "a < b \<longleftrightarrow> fp_lt (fpv a) (fpv b)"

definition less_eq_f32 :: "f32 \<Rightarrow> f32 \<Rightarrow> bool" where
  "a \<le> b \<longleftrightarrow> fp_le (fpv a) (fpv b)"

instance ..

end

definition isnan :: "f32 \<Rightarrow> bool" where
  "isnan x \<longleftrightarrow> fpv x = FpNan"

definition isfinite :: "f32 \<Rightarrow> bool" where
  "isfinite x \<longleftrightarrow> fp_finite (fpv x)"

definition NAN :: f32 where
  "NAN = F32 0x7FC00000"

definition INFINITY :: f32 where
  "INFINITY = F32 0x7F800000"

text \<open>A decimal literal \<open>r f\<close> of the source, and the conversion of an integer.\<close>

definition flit :: "rat \<Rightarrow> f32" where
  "flit r = f32_of (fp_round single_fmt False r)"

definition float_of_int :: "int \<Rightarrow> f32" where
  "float_of_int i = flit (of_int i)"

definition fabsf :: "f32 \<Rightarrow> f32" where
  "fabsf x = F32 (take_bit 31 (f32_bits x))"

section \<open>Bit patterns and values\<close>

lemma uint_of_int_u32: "0 \<le> k \<Longrightarrow> k < 2 ^ 32 \<Longrightarrow> uint (word_of_int k :: u32) = k"
  by (simp add: unsigned_of_int take_bit_int_eq_self)

lemma single_simps [simp]:
  "single FpNan" "single (FpInf s)"
  "single (FpFin s v) \<longleftrightarrow> representable single_fmt v \<and> \<bar>v\<bar> < 2 powi 128 \<and> (v \<noteq> 0 \<longrightarrow> s = (v < 0))"
  by (simp_all add: single_def)

lemma single_scaled:
  assumes "0 \<le> m" "m < 2 ^ 24" "-149 \<le> q" "q \<le> 104"
  shows "representable single_fmt (of_int m * 2 powi q)" and "of_int m * 2 powi q < (2 powi 128 :: rat)"
proof -
  show "representable single_fmt (of_int m * 2 powi q)"
    unfolding representable_def by (intro exI [of _ m] exI [of _ q]) (use assms in \<open>simp add: single_fmt_def\<close>)
  have "of_int m * 2 powi q < (of_int (2 ^ 24) * 2 powi q :: rat)"
    using assms(2) unfolding of_int_less_iff [where 'a = rat, symmetric] by (intro mult_strict_right_mono) simp_all
  also have "\<dots> = 2 powi (24 + q)" using powi2_split [of q "24 + q"] by simp
  also have "\<dots> \<le> 2 powi 128" using assms(4) by (intro powi2_mono) simp
  finally show "of_int m * 2 powi q < (2 powi 128 :: rat)" .
qed

lemma representable_minus: "representable F (- x) \<longleftrightarrow> representable F x"
proof -
  have "representable F (- x)" if r: "representable F x" for x
  proof -
    obtain m q where "x = of_int m * 2 powi q" "\<bar>m\<bar> < 2 ^ nat (fmt_prec F)" "fmt_qmin F \<le> q"
      using r by (auto simp: representable_def)
    then show ?thesis unfolding representable_def by (intro exI [of _ "- m"] exI [of _ q]) simp
  qed
  from this [of x] this [of "- x"] show ?thesis by auto
qed

lemma single_unpack:
  assumes "0 \<le> e" "e < 256" "0 \<le> m" "m < 2 ^ 23"
  shows "single (fp_unpack s e m)"
proof (cases "e = 255")
  case False
  define M where "M = (if e = 0 then m else 2 ^ 23 + m)"
  define q where "q = (if e = 0 then -149 else e - 150)"
  have M: "0 \<le> M" "M < 2 ^ 24" and q: "-149 \<le> q" "q \<le> 104"
    using assms False by (auto simp: M_def q_def)
  have "fp_unpack s e m = FpFin s (if s then - (of_int M * 2 powi q) else of_int M * 2 powi q)"
    using False by (simp add: fp_unpack_def Let_def M_def q_def)
  moreover have "M = 0 \<or> 0 < (of_int M * 2 powi q :: rat)"
    using M(1) by (cases "M = 0") (auto intro!: mult_pos_pos)
  ultimately show ?thesis
    using single_scaled [OF M q] by (auto simp: representable_minus)
qed (simp add: fp_unpack_def)

lemma single_fpv [simp]: "single (fpv x)"
  by (simp add: fpv_def Let_def single_unpack)

text \<open>The mantissa and exponent under which a finite value is stored.\<close>

lemma single_mantissa:
  assumes "single (FpFin s v)" "v \<noteq> 0"
  defines "q \<equiv> quantum single_fmt v"
  defines "m \<equiv> \<lfloor>\<bar>v\<bar> / 2 powi q\<rfloor>"
  shows "\<bar>v\<bar> = of_int m * 2 powi q" "0 < m" "m < 2 ^ 24" "-149 \<le> q" "q \<le> 104" "q = -149 \<or> 2 ^ 23 \<le> m"
proof -
  have p: "0 < (2 powi q :: rat)" by simp
  have "round_rat single_fmt v = v"
    using assms(1) by (intro round_rat_representable) (simp_all add: single_fmt_def)
  then have "v = of_int (rne (v / 2 powi q)) * 2 powi q"
    using assms(2) by (simp add: round_rat_def Let_def q_def)
  then have "\<bar>v\<bar> = of_int \<bar>rne (v / 2 powi q)\<bar> * 2 powi q"
    using p by (metis abs_mult abs_of_pos of_int_abs)
  then have "\<bar>v\<bar> / 2 powi q = of_int \<bar>rne (v / 2 powi q)\<bar>"
    using p by (metis less_irrefl nonzero_mult_div_cancel_right)
  then have int: "\<bar>v\<bar> / 2 powi q = of_int m" by (simp add: m_def)
  then show v: "\<bar>v\<bar> = of_int m * 2 powi q" using p by (metis less_irrefl nonzero_eq_divide_eq)
  have "0 < \<bar>v\<bar> / 2 powi q" using assms(2) p by simp
  then show "0 < m" using int by simp
  have lo: "2 powi flog2 \<bar>v\<bar> \<le> \<bar>v\<bar>" and hi: "\<bar>v\<bar> < 2 powi (flog2 \<bar>v\<bar> + 1)"
    using flog2_bounds [of "\<bar>v\<bar>"] assms(2) by auto
  have q: "flog2 \<bar>v\<bar> - 23 \<le> q" "-149 \<le> q" "q = -149 \<or> q = flog2 \<bar>v\<bar> - 23"
    by (auto simp: q_def quantum_def single_fmt_def)
  show "-149 \<le> q" by (rule q)
  have "\<bar>v\<bar> < 2 powi 128" using assms(1) unfolding single_simps by blast
  with lo have "2 powi flog2 \<bar>v\<bar> < (2 :: rat) powi 128" by (rule le_less_trans)
  then have "flog2 \<bar>v\<bar> < 128" unfolding powi2_less_iff .
  then show "q \<le> 104" using q(3) by auto
  have "of_int m * 2 powi q < (2 :: rat) powi (24 + q)"
    unfolding v [symmetric] using hi q(1) by (elim less_le_trans) (intro powi2_mono, simp)
  also have "\<dots> = of_int (2 ^ 24) * 2 powi q" using powi2_split [of q "24 + q"] by simp
  finally show "m < 2 ^ 24" using p unfolding of_int_less_iff [where 'a = rat, symmetric] by simp
  show "q = -149 \<or> 2 ^ 23 \<le> m"
  proof (cases "q = -149")
    case False
    then have "2 powi (23 + q) \<le> \<bar>v\<bar>" using lo q by simp
    also have "2 powi (23 + q) = (of_int (2 ^ 23) * 2 powi q :: rat)" using powi2_split [of q "23 + q"] by simp
    finally have "of_int (2 ^ 23) * 2 powi q \<le> (of_int m * 2 powi q :: rat)" by (simp add: v)
    then have "of_int (2 ^ 23) \<le> (of_int m :: rat)" by (rule mult_right_le_imp_le) (rule p)
    then show ?thesis unfolding of_int_le_iff by simp
  qed simp
qed

text \<open>Reading back a pattern assembled from sign, exponent and fraction.\<close>

lemma fpv_pack:
  assumes "0 \<le> e" "e < 256" "0 \<le> m" "m < 2 ^ 23"
  shows "fpv (F32 (word_of_int ((if s then 2 ^ 31 else 0) + (e * 2 ^ 23 + m)))) = fp_unpack s e m"
proof -
  define n where "n = e * 2 ^ 23 + m"
  define k where "k = (if s then 2 ^ 31 else 0) + n"
  have n: "0 \<le> n" "n < 2 ^ 31" using assms by (simp_all add: n_def)
  have "n div 2 ^ 23 = e" "n mod 2 ^ 23 = m"
    using assms by (simp_all add: n_def)
  moreover have "k div 2 ^ 23 = (if s then 256 else 0) + n div 2 ^ 23" "k mod 2 ^ 23 = n mod 2 ^ 23"
    by (simp_all add: k_def div_add1_eq mod_add_eq [symmetric])
  moreover have "0 \<le> k" "k < 2 ^ 32" "2 ^ 31 \<le> k \<longleftrightarrow> s" using n by (auto simp: k_def)
  ultimately show ?thesis
    unfolding n_def [symmetric] k_def [symmetric] fpv_def
    using assms by (auto simp: uint_of_int_u32)
qed

lemma fpv_f32_of [simp]: "single x \<Longrightarrow> fpv (f32_of x) = x"
proof (cases x)
  case FpNan
  then show ?thesis
    using fpv_pack [of 255 "2 ^ 22" False] by (simp add: f32_of_def fp_unpack_def)
next
  case (FpInf s)
  then show ?thesis
    using fpv_pack [of 255 0 s] by (simp add: f32_of_def fp_unpack_def)
next
  case (FpFin s v)
  assume "single x"
  with FpFin have sv: "single (FpFin s v)" by simp
  show ?thesis
  proof (cases "v = 0")
    case True
    then show ?thesis
      using FpFin fpv_pack [of 0 0 s] by (simp add: f32_of_def fp_unpack_def)
  next
    case False
    define q where "q = quantum single_fmt v"
    define m where "m = \<lfloor>\<bar>v\<bar> / 2 powi q\<rfloor>"
    note facts = single_mantissa [OF sv False, folded q_def, folded m_def]
    define e where "e = (if m < 2 ^ 23 then 0 else q + 150)"
    define f where "f = (if m < 2 ^ 23 then m else m - 2 ^ 23)"
    have ef: "0 \<le> e" "e < 255" "0 \<le> f" "f < 2 ^ 23" using facts by (auto simp: e_def f_def)
    have eq: "(q + 149) * 2 ^ 23 + m = e * 2 ^ 23 + f"
      using facts(6) by (auto simp: e_def f_def)
    have "f32_of x = F32 (word_of_int ((if s then 2 ^ 31 else 0) + (e * 2 ^ 23 + f)))"
      using False unfolding f32_of_def FpFin eq [symmetric] by (simp only: q_def m_def Let_def fp.case if_False)
    then have "fpv (f32_of x) = fp_unpack s e f" using ef by (simp only: fpv_pack)
    also have "\<dots> = FpFin s (if s then - \<bar>v\<bar> else \<bar>v\<bar>)"
      using ef facts(4,6) by (auto simp: fp_unpack_def Let_def facts(1) e_def f_def)
    also have "\<dots> = x" using sv False FpFin by auto
    finally show ?thesis .
  qed
qed

text \<open>Every operation delivers a value of the format.\<close>

lemma single_round [simp]: "single (fp_round single_fmt s v)"
proof -
  have "representable single_fmt (round_rat single_fmt v)"
    by (rule representable_round) (simp add: single_fmt_def)
  moreover have "(round_rat single_fmt v < 0) = (v < 0)" if "round_rat single_fmt v \<noteq> 0"
    using that r32.nonneg [of v] r32.nonpos [of v] by linarith
  ultimately show ?thesis
    by (auto simp: fp_round_def Let_def single_fmt_def not_le)
qed

lemma single_neg [simp]: "single x \<Longrightarrow> single (fp_neg x)"
  by (cases x) (auto simp: representable_minus)

lemma single_add [simp]: "single x \<Longrightarrow> single y \<Longrightarrow> single (fp_add single_fmt x y)"
  by (cases x; cases y) (auto simp del: single_simps(3))

lemma single_mul [simp]: "single x \<Longrightarrow> single y \<Longrightarrow> single (fp_mul single_fmt x y)"
  by (cases x; cases y) (auto simp del: single_simps(3))

lemma single_div [simp]: "single x \<Longrightarrow> single y \<Longrightarrow> single (fp_div single_fmt x y)"
proof (cases x; cases y)
  fix s v t assume "single x" "x = FpFin s v" "y = FpInf t"
  then show ?thesis unfolding representable_def
    by (auto intro!: exI [of _ 0] exI [of _ "fmt_qmin single_fmt"] simp: representable_def)
qed (auto simp del: single_simps(3))

lemma fpv_plus [fp_simps]: "fpv (a + b) = fp_add single_fmt (fpv a) (fpv b)"
  by (simp add: plus_f32_def)

lemma fpv_minus [fp_simps]: "fpv (a - b) = fp_sub single_fmt (fpv a) (fpv b)"
  by (simp add: minus_f32_def fp_sub_def)

lemma fpv_times [fp_simps]: "fpv (a * b) = fp_mul single_fmt (fpv a) (fpv b)"
  by (simp add: times_f32_def)

lemma fpv_divide [fp_simps]: "fpv (a / b) = fp_div single_fmt (fpv a) (fpv b)"
  by (simp add: divide_f32_def)

lemma fpv_flit [fp_simps]: "fpv (flit r) = fp_round single_fmt False r"
  by (simp add: flit_def)

text \<open>Taking a pattern apart, for the operations that touch the sign bit only.\<close>

lemma f32_fields:
  obtains s e m where "uint (f32_bits a) = (if s then 2 ^ 31 else 0) + (e * 2 ^ 23 + m)"
    "0 \<le> e" "e < 256" "0 \<le> m" "m < 2 ^ 23" "fpv a = fp_unpack s e m"
proof -
  define u where "u = uint (f32_bits a)"
  have u: "0 \<le> u" "u < 2 ^ 32" using uint_lt2p [of "f32_bits a"] by (simp_all add: u_def)
  define e where "e = u div 2 ^ 23 mod 256"
  define m where "m = u mod 2 ^ 23"
  have "u mod (2 ^ 23 * 256) = 2 ^ 23 * e + m"
    unfolding e_def m_def by (rule zmod_zmult2_eq) simp
  then have um: "u mod 2 ^ 31 = e * 2 ^ 23 + m" by simp
  have "u mod 2 ^ 31 = (if 2 ^ 31 \<le> u then u - 2 ^ 31 else u)"
  proof (cases "2 ^ 31 \<le> u")
    case True
    then have "u mod 2 ^ 31 = (u - 2 ^ 31) mod 2 ^ 31" by (intro mod_pos_geq) simp_all
    also have "\<dots> = u - 2 ^ 31" using u True by (intro mod_pos_pos_trivial) simp_all
    finally show ?thesis using True by simp
  qed (use u in simp)
  with um have "uint (f32_bits a) = (if 2 ^ 31 \<le> u then 2 ^ 31 else 0) + (e * 2 ^ 23 + m)"
    by (simp flip: u_def split: if_splits)
  moreover have "fpv a = fp_unpack (2 ^ 31 \<le> u) e m"
    by (simp only: fpv_def Let_def u_def e_def m_def)
  moreover have "0 \<le> e" "e < 256" "0 \<le> m" "m < 2 ^ 23" by (simp_all add: e_def m_def)
  ultimately show ?thesis using that by blast
qed

lemma fpv_uminus [fp_simps]: "fpv (- a) = fp_neg (fpv a)"
proof -
  obtain s e m where a: "uint (f32_bits a) = (if s then 2 ^ 31 else 0) + (e * 2 ^ 23 + m)"
    and b: "0 \<le> e" "e < 256" "0 \<le> m" "m < 2 ^ 23" and v: "fpv a = fp_unpack s e m"
    by (rule f32_fields)
  have "f32_bits a = word_of_int ((if s then 2 ^ 31 else 0) + (e * 2 ^ 23 + m))"
    unfolding a [symmetric] by simp
  then have "- a = F32 (word_of_int ((if s then 2 ^ 31 else 0) + (e * 2 ^ 23 + m) + 2 ^ 31))"
    by (simp add: uminus_f32_def)
  also have "\<dots> = F32 (word_of_int ((if \<not> s then 2 ^ 31 else 0) + (e * 2 ^ 23 + m)))"
    by (simp add: word_of_int_eq_iff take_bit_eq_mod mod_simps)
  finally have "fpv (- a) = fp_unpack (\<not> s) e m" using b by (simp only: fpv_pack)
  then show ?thesis by (simp add: v fp_unpack_def Let_def)
qed

lemma fpv_fabsf [fp_simps]: "fpv (fabsf a) = fp_abs (fpv a)"
proof -
  obtain s e m where a: "uint (f32_bits a) = (if s then 2 ^ 31 else 0) + (e * 2 ^ 23 + m)"
    and b: "0 \<le> e" "e < 256" "0 \<le> m" "m < 2 ^ 23" and v: "fpv a = fp_unpack s e m"
    by (rule f32_fields)
  have "uint (f32_bits (fabsf a)) = uint (f32_bits a) mod 2 ^ 31"
    unfolding fabsf_def f32.sel unsigned_take_bit_eq by (rule take_bit_eq_mod)
  also have "\<dots> = e * 2 ^ 23 + m" unfolding a using b by simp
  finally have "f32_bits (fabsf a) = word_of_int (e * 2 ^ 23 + m)" by (metis word_of_int_uint)
  then have "fabsf a = F32 (word_of_int ((if False then 2 ^ 31 else 0) + (e * 2 ^ 23 + m)))"
    by (metis add_0 f32.collapse)
  then have "fpv (fabsf a) = fp_unpack False e m" using b by (simp only: fpv_pack)
  then show ?thesis using b by (simp add: v fp_unpack_def Let_def abs_mult)
qed

lemma fpv_0 [simp]: "fpv 0 = FpFin False 0"
  by (simp add: fpv_def zero_f32_def fp_unpack_def)

lemma fpv_1 [simp]: "fpv 1 = FpFin False 1"
  by (simp add: fpv_def one_f32_def fp_unpack_def power_int_def power_divide)

lemma fpv_NAN [simp]: "fpv NAN = FpNan"
  by (simp add: fpv_def NAN_def fp_unpack_def)

lemma fpv_INFINITY [simp]: "fpv INFINITY = FpInf False"
  by (simp add: fpv_def INFINITY_def fp_unpack_def)

lemma isnan_NAN [simp]: "isnan NAN" "\<not> isnan INFINITY" "\<not> isnan 0" "\<not> isnan 1"
  by (simp_all add: isnan_def)

lemma isfinite_consts [simp]: "\<not> isfinite NAN" "\<not> isfinite INFINITY" "isfinite 0" "isfinite 1"
  by (simp_all add: isfinite_def fp_finite_def)

lemma isfinite_not_nan: "isfinite x \<Longrightarrow> \<not> isnan x"
  by (auto simp: isfinite_def isnan_def fp_finite_def)

section \<open>Order\<close>

definition fkey :: "f32 \<Rightarrow> int \<times> rat" where
  "fkey x = fp_key (fpv x)"

lemma f32_less_iff: "a < b \<longleftrightarrow> \<not> isnan a \<and> \<not> isnan b \<and> fkey a < fkey b"
  by (simp add: less_f32_def fp_lt_def isnan_def fkey_def)

lemma f32_le_iff: "a \<le> b \<longleftrightarrow> \<not> isnan a \<and> \<not> isnan b \<and> fkey a \<le> fkey b"
  by (simp add: less_eq_f32_def fp_le_def isnan_def fkey_def)

lemmas f32_order = f32_less_iff f32_le_iff

lemma fkey_consts [simp]: "fkey 0 = (0, 0)" "fkey 1 = (0, 1)" "fkey INFINITY = (1, 0)"
  by (simp_all add: fkey_def)

lemma f32_le_trans: "a \<le> b \<Longrightarrow> b \<le> c \<Longrightarrow> a \<le> (c :: f32)"
  by (auto simp: f32_order)

lemma f32_le_less_trans: "a \<le> b \<Longrightarrow> b < c \<Longrightarrow> a < (c :: f32)"
  by (auto simp: f32_order)

lemma f32_less_le_trans: "a < b \<Longrightarrow> b \<le> c \<Longrightarrow> a < (c :: f32)"
  by (auto simp: f32_order)

lemma f32_less_imp_le: "a < b \<Longrightarrow> a \<le> (b :: f32)"
  by (auto simp: f32_order)

lemma f32_le_refl: "a \<le> (a :: f32) \<longleftrightarrow> \<not> isnan a"
  by (simp add: f32_order)

lemma f32_not_less: "\<not> isnan a \<Longrightarrow> \<not> isnan b \<Longrightarrow> \<not> a < b \<longleftrightarrow> b \<le> (a :: f32)"
  by (auto simp: f32_order)

lemma f32_not_le: "\<not> isnan a \<Longrightarrow> \<not> isnan b \<Longrightarrow> \<not> a \<le> b \<longleftrightarrow> b < (a :: f32)"
  by (auto simp: f32_order)

lemma f32_nan_less: "isnan a \<or> isnan b \<Longrightarrow> \<not> a < (b :: f32)" "isnan a \<or> isnan b \<Longrightarrow> \<not> a \<le> (b :: f32)"
  by (auto simp: f32_order)

lemma f32_less_not_nan: "a < (b :: f32) \<Longrightarrow> \<not> isnan a \<and> \<not> isnan b"
  by (simp add: f32_order)

lemma f32_le_not_nan: "a \<le> (b :: f32) \<Longrightarrow> \<not> isnan a \<and> \<not> isnan b"
  by (simp add: f32_order)

lemma f32_less_asym: "a < b \<Longrightarrow> \<not> b \<le> (a :: f32)"
  by (auto simp: f32_order)

lemma f32_le_INFINITY: "\<not> isnan a \<Longrightarrow> a \<le> INFINITY"
proof (cases "fpv a")
  case (FpInf s)
  then show "\<not> isnan a \<Longrightarrow> a \<le> INFINITY" by (cases s) (simp_all add: f32_order, simp_all add: fkey_def)
qed (simp_all add: f32_order fkey_def isnan_def)

text \<open>What lies between two finite floats is finite.\<close>

lemma isfinite_iff_key: "isfinite x \<longleftrightarrow> \<not> isnan x \<and> fst (fkey x) = 0"
  by (cases "fpv x") (auto simp: isfinite_def isnan_def fp_finite_def fkey_def)

lemma isfinite_between: "a \<le> x \<Longrightarrow> x \<le> b \<Longrightarrow> isfinite a \<Longrightarrow> isfinite b \<Longrightarrow> isfinite x"
  by (cases "fkey a"; cases "fkey b"; cases "fkey x") (auto simp: isfinite_iff_key f32_order)

text \<open>The value of a finite float.\<close>

definition fval :: "f32 \<Rightarrow> rat" where
  "fval x = snd (fkey x)"

lemma isfinite_obtain:
  assumes "isfinite x"
  obtains s where "fpv x = FpFin s (fval x)"
  using assms by (cases "fpv x") (auto simp: isfinite_def fp_finite_def fval_def fkey_def)

lemma fval_less: "isfinite a \<Longrightarrow> isfinite b \<Longrightarrow> a < b \<longleftrightarrow> fval a < fval b"
  by (cases "fkey a"; cases "fkey b") (auto simp: isfinite_iff_key f32_order fval_def)

lemma fval_le: "isfinite a \<Longrightarrow> isfinite b \<Longrightarrow> a \<le> b \<longleftrightarrow> fval a \<le> fval b"
  by (cases "fkey a"; cases "fkey b") (auto simp: isfinite_iff_key f32_order fval_def)

lemma fval_consts [simp]: "fval 0 = 0" "fval 1 = 1"
  by (simp_all add: fval_def)

lemma fval_fixed: "isfinite x \<Longrightarrow> round_rat single_fmt (fval x) = fval x"
proof (elim isfinite_obtain)
  fix s assume "fpv x = FpFin s (fval x)"
  then have "representable single_fmt (fval x)" using single_fpv [of x] by (metis single_simps(3))
  then show ?thesis by (intro round_rat_representable) (simp_all add: single_fmt_def)
qed

lemma fval_bound: "isfinite x \<Longrightarrow> \<bar>fval x\<bar> < 2 powi 128"
  by (elim isfinite_obtain) (metis single_fpv single_simps(3))

text \<open>A rounded exact result below a finite float is finite.\<close>

lemma fp_round_finite:
  assumes "\<bar>round_rat single_fmt v\<bar> < 2 powi 128"
  shows "fp_round single_fmt s v = FpFin (if v = 0 then s else v < 0) (round_rat single_fmt v)"
  using assms by (simp add: fp_round_def single_fmt_def not_le)

section \<open>Range lemmas\<close>

lemma f32_times_scale [fp_intros]:
  assumes e: "0 \<le> e" "e \<le> 1" and d: "0 \<le> d" "isfinite d"
  shows "0 \<le> e * d" "e * d \<le> d" "isfinite (e * d)"
proof -
  have fe: "isfinite e" using e by (rule isfinite_between) simp_all
  obtain s t where v: "fpv e = FpFin s (fval e)" "fpv d = FpFin t (fval d)"
    using fe d(2) by (metis isfinite_obtain)
  have r: "0 \<le> fval e" "fval e \<le> 1" "0 \<le> fval d"
    using e d fe by (simp_all add: fval_le)
  have b: "0 \<le> round_rat single_fmt (fval e * fval d)" "round_rat single_fmt (fval e * fval d) \<le> fval d"
    using r32.scale_bounds [OF r fval_fixed [OF d(2)]] by simp_all
  then have "\<bar>round_rat single_fmt (fval e * fval d)\<bar> < 2 powi 128"
    using fval_bound [OF d(2)] r(3) by linarith
  then obtain u where f: "fpv (e * d) = FpFin u (round_rat single_fmt (fval e * fval d))"
    by (simp add: fp_simps v fp_round_finite)
  then show fin: "isfinite (e * d)" by (simp add: isfinite_def fp_finite_def)
  have "fval (e * d) = round_rat single_fmt (fval e * fval d)"
    by (simp add: fval_def fkey_def f)
  then show "0 \<le> e * d" "e * d \<le> d" using b fin d(2) by (simp_all add: fval_le)
qed

lemma f32_divide_nonneg [fp_intros]:
  assumes "0 < r" "isfinite r" "0 < v"
  shows "0 \<le> r / v"
proof -
  obtain s where r: "fpv r = FpFin s (fval r)" "0 < fval r"
    using assms by (metis fval_less isfinite_obtain isfinite_consts(3) fval_consts(1))
  have nv: "\<not> isnan v" using assms by (simp add: f32_order)
  show ?thesis
  proof (cases "isfinite v")
    case True
    then obtain t where v: "fpv v = FpFin t (fval v)" "0 < fval v"
      using assms(3) by (metis fval_less isfinite_obtain isfinite_consts(3) fval_consts(1))
    have "0 \<le> round_rat single_fmt (fval r / fval v)" using r v by (intro r32.nonneg) simp
    then show ?thesis
      using r v by (auto simp: f32_order isnan_def fkey_def fp_simps fp_round_def Let_def not_less less_imp_le)
  next
    case False
    with nv have "\<exists>t. fpv v = FpInf t" by (cases "fpv v") (auto simp: isfinite_def isnan_def fp_finite_def)
    then show ?thesis using r by (auto simp: f32_order isnan_def fkey_def fp_simps)
  qed
qed

lemma fp_round_not_nan [simp]: "fp_round F s v \<noteq> FpNan"
  by (simp add: fp_round_def Let_def)

lemma flit_not_nan [simp]: "\<not> isnan (flit r)"
  by (simp add: isnan_def fp_simps)

lemma flit_mono: "a \<le> b \<Longrightarrow> flit a \<le> flit b"
proof -
  assume ab: "a \<le> b"
  then have m: "round_rat single_fmt a \<le> round_rat single_fmt b" by (rule r32.mono)
  have n: "0 \<le> round_rat single_fmt v" if "0 \<le> v" for v using that by (rule r32.nonneg)
  have p: "round_rat single_fmt v \<le> 0" if "v \<le> 0" for v using that by (rule r32.nonpos)
  have c: "(0 :: rat) < 2 powi 128" by simp
  show ?thesis using ab m n [of b] p [of a] n [of a] p [of b] c
    by (auto simp: f32_le_iff fkey_def fp_simps fp_round_def Let_def single_fmt_def abs_if not_less
        simp del: power_int_numeral split: if_splits)
qed

end
