(* ===== verification/Ctrl_Types.thy ===== *)
theory Ctrl_Types
  imports Ieee
begin

text \<open>
  The data model of the control core, \<open>control/Inc/control.h\<close>: the enumerations, the
  measurement, ceiling, profile, global and command structs, and the persistent engine
  context. Struct fields keep the source's names behind a prefix that names the struct
  (\<open>m_\<close> measurements, \<open>ceil_\<close> ceilings, \<open>p_\<close> profile, \<open>g_\<close> globals, \<open>lim_\<close> limits,
  \<open>cmd_\<close> command, \<open>fg_\<close> supply guard, \<open>c_\<close> engine context).

  Three enumerations of the configuration are stored by the record codec as one byte that
  may hold any value (\<open>rest_mode\<close>, \<open>batt_temp_src\<close> and the primitive references); they are
  bytes here too, with the source's enumerators as constants.
\<close>

section \<open>Enumerations\<close>

datatype ctrl_state_t = CTRL_STANDBY | CTRL_BULK | CTRL_FLOAT

datatype ctrl_standby_reason_t = CTRL_SB_OFF | CTRL_SB_WARMUP | CTRL_SB_REST | CTRL_SB_FAULT

datatype ctrl_bind_src_t = CTRL_BIND_NONE | CTRL_BIND_STAGE | CTRL_BIND_VOLTAGE_CLAMP
  | CTRL_BIND_THERMAL | CTRL_BIND_BMS | CTRL_BIND_BATTERY_C | CTRL_BIND_WIRING
  | CTRL_BIND_ALT_ABSOLUTE | CTRL_BIND_ALT_CAPABILITY | CTRL_BIND_BELT | CTRL_BIND_ENGINE
  | CTRL_BIND_USER_CAP | CTRL_BIND_ROTOR_CLAMP | CTRL_BIND_RUN_DETECT | CTRL_BIND_DRIVER_THERMAL

datatype ctrl_rpm_state_t = CTRL_RPM_VALID | CTRL_RPM_STALE | CTRL_RPM_LOST

datatype ctrl_run_state_t = CTRL_RUN_NOT_RUNNING | CTRL_RUN_RUNNING

datatype ctrl_isrc_tier_t = CTRL_ISRC_BATT_SHUNT | CTRL_ISRC_NMEA_BATT | CTRL_ISRC_ALT_SHUNT
  | CTRL_ISRC_EST_ALT | CTRL_ISRC_NONE

datatype ctrl_severity_t = CTRL_SEV_INFO | CTRL_SEV_WARN | CTRL_SEV_FAULT | CTRL_SEV_CRITICAL

datatype ctrl_disposition_t = CTRL_DISP_CONTINUE | CTRL_DISP_LIMP | CTRL_DISP_OPEN

type_synonym ctrl_batt_temp_src_t = u8

definition CTRL_BATT_TEMP_NONE :: ctrl_batt_temp_src_t where "CTRL_BATT_TEMP_NONE = 0"
definition CTRL_BATT_TEMP_ADC_A :: ctrl_batt_temp_src_t where "CTRL_BATT_TEMP_ADC_A = 1"
definition CTRL_BATT_TEMP_ADC_B :: ctrl_batt_temp_src_t where "CTRL_BATT_TEMP_ADC_B = 2"

type_synonym ctrl_rest_mode_t = u8

definition CTRL_REST_HOLD :: ctrl_rest_mode_t where "CTRL_REST_HOLD = 0"
definition CTRL_REST_ZERO :: ctrl_rest_mode_t where "CTRL_REST_ZERO = 1"

text \<open>The numbers C gives the enumerators; casts to \<open>uint8_t\<close> (\<open>of_nat\<close>) and comparisons use them.\<close>

primrec state_num :: "ctrl_state_t \<Rightarrow> nat" where
  "state_num CTRL_STANDBY = 0"
| "state_num CTRL_BULK = 1"
| "state_num CTRL_FLOAT = 2"

primrec standby_num :: "ctrl_standby_reason_t \<Rightarrow> nat" where
  "standby_num CTRL_SB_OFF = 0"
| "standby_num CTRL_SB_WARMUP = 1"
| "standby_num CTRL_SB_REST = 2"
| "standby_num CTRL_SB_FAULT = 3"

primrec bind_num :: "ctrl_bind_src_t \<Rightarrow> nat" where
  "bind_num CTRL_BIND_NONE = 0"
| "bind_num CTRL_BIND_STAGE = 1"
| "bind_num CTRL_BIND_VOLTAGE_CLAMP = 2"
| "bind_num CTRL_BIND_THERMAL = 3"
| "bind_num CTRL_BIND_BMS = 4"
| "bind_num CTRL_BIND_BATTERY_C = 5"
| "bind_num CTRL_BIND_WIRING = 6"
| "bind_num CTRL_BIND_ALT_ABSOLUTE = 7"
| "bind_num CTRL_BIND_ALT_CAPABILITY = 8"
| "bind_num CTRL_BIND_BELT = 9"
| "bind_num CTRL_BIND_ENGINE = 10"
| "bind_num CTRL_BIND_USER_CAP = 11"
| "bind_num CTRL_BIND_ROTOR_CLAMP = 12"
| "bind_num CTRL_BIND_RUN_DETECT = 13"
| "bind_num CTRL_BIND_DRIVER_THERMAL = 14"

primrec rpm_state_num :: "ctrl_rpm_state_t \<Rightarrow> nat" where
  "rpm_state_num CTRL_RPM_VALID = 0"
| "rpm_state_num CTRL_RPM_STALE = 1"
| "rpm_state_num CTRL_RPM_LOST = 2"

primrec severity_num :: "ctrl_severity_t \<Rightarrow> nat" where
  "severity_num CTRL_SEV_INFO = 0"
| "severity_num CTRL_SEV_WARN = 1"
| "severity_num CTRL_SEV_FAULT = 2"
| "severity_num CTRL_SEV_CRITICAL = 3"

primrec disposition_num :: "ctrl_disposition_t \<Rightarrow> nat" where
  "disposition_num CTRL_DISP_CONTINUE = 0"
| "disposition_num CTRL_DISP_LIMP = 1"
| "disposition_num CTRL_DISP_OPEN = 2"

text \<open>The order C's enumeration comparisons use (\<open>s > best\<close>, \<open>severity >= CTRL_SEV_FAULT\<close>).\<close>

instantiation ctrl_severity_t :: linorder
begin

definition less_eq_ctrl_severity_t :: "ctrl_severity_t \<Rightarrow> ctrl_severity_t \<Rightarrow> bool" where
  "a \<le> b \<longleftrightarrow> severity_num a \<le> severity_num b"

definition less_ctrl_severity_t :: "ctrl_severity_t \<Rightarrow> ctrl_severity_t \<Rightarrow> bool" where
  "a < b \<longleftrightarrow> severity_num a < severity_num b"

instance
proof
  fix a b c :: ctrl_severity_t
  show "a < b \<longleftrightarrow> a \<le> b \<and> \<not> b \<le> a" by (auto simp: less_ctrl_severity_t_def less_eq_ctrl_severity_t_def)
  show "a \<le> a" by (simp add: less_eq_ctrl_severity_t_def)
  show "a \<le> b \<Longrightarrow> b \<le> c \<Longrightarrow> a \<le> c" by (simp add: less_eq_ctrl_severity_t_def)
  show "a \<le> b \<Longrightarrow> b \<le> a \<Longrightarrow> a = b"
    by (cases a; cases b) (simp_all add: less_eq_ctrl_severity_t_def)
  show "a \<le> b \<or> b \<le> a" by (auto simp: less_eq_ctrl_severity_t_def)
qed

end

instantiation ctrl_disposition_t :: linorder
begin

definition less_eq_ctrl_disposition_t :: "ctrl_disposition_t \<Rightarrow> ctrl_disposition_t \<Rightarrow> bool" where
  "a \<le> b \<longleftrightarrow> disposition_num a \<le> disposition_num b"

definition less_ctrl_disposition_t :: "ctrl_disposition_t \<Rightarrow> ctrl_disposition_t \<Rightarrow> bool" where
  "a < b \<longleftrightarrow> disposition_num a < disposition_num b"

instance
proof
  fix a b c :: ctrl_disposition_t
  show "a < b \<longleftrightarrow> a \<le> b \<and> \<not> b \<le> a" by (auto simp: less_ctrl_disposition_t_def less_eq_ctrl_disposition_t_def)
  show "a \<le> a" by (simp add: less_eq_ctrl_disposition_t_def)
  show "a \<le> b \<Longrightarrow> b \<le> c \<Longrightarrow> a \<le> c" by (simp add: less_eq_ctrl_disposition_t_def)
  show "a \<le> b \<Longrightarrow> b \<le> a \<Longrightarrow> a = b"
    by (cases a; cases b) (simp_all add: less_eq_ctrl_disposition_t_def)
  show "a \<le> b \<or> b \<le> a" by (auto simp: less_eq_ctrl_disposition_t_def)
qed

end

lemmas severity_ord = less_eq_ctrl_severity_t_def less_ctrl_severity_t_def
lemmas disposition_ord = less_eq_ctrl_disposition_t_def less_ctrl_disposition_t_def

lemma severity_bounds [simp]: "CTRL_SEV_INFO \<le> s" "s \<le> CTRL_SEV_CRITICAL"
  by (cases s; simp add: severity_ord)+

lemma disposition_bounds [simp]: "CTRL_DISP_CONTINUE \<le> d" "d \<le> CTRL_DISP_OPEN"
  by (cases d; simp add: disposition_ord)+

section \<open>Inputs\<close>

record ctrl_measured_t =
  m_vbat_pack_v :: f32
  m_vcomp_pack_v :: f32
  m_amps_batt :: f32
  m_watts_batt :: f32
  m_isrc :: ctrl_isrc_tier_t
  m_v_supply_v :: f32
  m_alt_hotspot_c :: f32
  m_batt_temp_c :: f32
  m_driver_temp_c :: f32
  m_rpm :: f32
  m_rpm_state :: ctrl_rpm_state_t
  m_run_state :: ctrl_run_state_t
  m_soc_pct :: f32
  m_soc_trusted :: bool
  m_ignition :: bool
  m_feature_in :: bool
  m_ext_faults :: u32

text \<open>An inactive ceiling is \<open>INFINITY\<close> (\<open>CTRL_CEILING_INACTIVE\<close>).\<close>

definition CTRL_CEILING_INACTIVE :: f32 where
  "CTRL_CEILING_INACTIVE = INFINITY"

record ctrl_ceilings_t =
  ceil_thermal_w :: f32
  ceil_driver_thermal_w :: f32
  ceil_bms_ccl_w :: f32
  ceil_battery_c_w :: f32
  ceil_wiring_w :: f32
  ceil_alt_absolute_w :: f32
  ceil_alt_capability_w :: f32
  ceil_belt_w :: f32
  ceil_engine_w :: f32
  ceil_user_cap_w :: f32

record ctrl_profile_t =
  p_id :: u8
  p_cv_target_vcell :: f32
  p_exit_at_cv_entry :: bool
  p_rest_mode :: ctrl_rest_mode_t
  p_rest_voltage_vcell :: f32
  p_rest_power_cap_w :: f32
  p_v_revert_vcell :: f32
  p_t_revert_hold_s :: u16
  p_soc_revert_pct :: i8
  p_ah_revert :: f32

record ctrl_globals_t =
  g_cells_series :: u8
  g_bank_capacity_ah :: f32
  g_max_charge_power_w :: f32
  g_ramp_w_per_s :: f32
  g_p_tail_w :: f32
  g_t_tail_hold_s :: u16
  g_t_vclamp_s :: u16
  g_cv_hold_exit_min :: u16
  g_t_charge_max_min :: u16
  g_warmup_time_s :: u16
  g_warmup_coolant_c :: f32
  g_soc_target_pct :: i8
  g_skip_bulk_vcell :: f32
  g_skip_bulk_soc_pct :: i8
  g_rotor_rated_v :: f32
  g_rotor_v_max :: f32
  g_allow_full_field_48v :: bool
  g_limp_vcell :: f32
  g_limp_power_cap_w :: f32
  g_batt_temp_src :: ctrl_batt_temp_src_t
  g_require_batt_temp :: bool

record ctrl_limits_t =
  lim_battery_c_limit :: f32
  lim_wiring_limit_a :: f32
  lim_alternator_limit_a :: f32

section \<open>Output and engine context\<close>

record ctrl_command_t =
  cmd_field_effort :: f32
  cmd_field_duty :: f32
  cmd_field_open :: bool
  cmd_state :: ctrl_state_t
  cmd_standby_reason :: ctrl_standby_reason_t
  cmd_binding :: ctrl_bind_src_t
  cmd_binding_w :: f32
  cmd_faults :: u32

record ctrl_vsup_guard_t =
  fg_v_track :: f32
  fg_distrust_ms :: u32

record ctrl_t =
  c_state :: ctrl_state_t
  c_standby_reason :: ctrl_standby_reason_t
  c_effort :: f32
  c_cmd_power_w :: f32
  c_time_in_state_ms :: u32
  c_faults :: u32
  c_ah_since_charged :: f32
  c_v_ctrl_f :: f32
  c_v_revert_f :: f32
  c_p_tail_f :: f32
  c_warmup_ms :: u32
  c_tail_hold_ms :: u32
  c_revert_hold_ms :: u32
  c_vclamp_hold_ms :: u32
  c_vsup :: ctrl_vsup_guard_t
  c_run_probe_ms :: u32

text \<open>\<open>g->cells_series ? g->cells_series : 1\<close>, the cell count every per-cell scaling uses.\<close>

definition cells_or_1 :: "ctrl_globals_t \<Rightarrow> u8" where
  "cells_or_1 g = (if g_cells_series g \<noteq> 0 then g_cells_series g else 1)"

text \<open>\<open>(float)cells\<close>.\<close>

definition float_u8 :: "u8 \<Rightarrow> f32" where
  "float_u8 n = float_of_int (uint n)"

section \<open>Inline helpers of the header\<close>

definition ctrl_pack_from_cell :: "f32 \<Rightarrow> u8 \<Rightarrow> f32" where
  "ctrl_pack_from_cell v_cell cells = v_cell * float_u8 cells"

definition ctrl_cell_from_pack :: "f32 \<Rightarrow> u8 \<Rightarrow> f32" where
  "ctrl_cell_from_pack v_pack cells = (if cells \<noteq> 0 then v_pack / float_u8 cells else NAN)"

text \<open>
  \<open>fmaxf\<close> of the C library on two numbers (it is called on non-NaN arguments only): the
  larger one; the sign of a zero result is immaterial to every caller.
\<close>

definition fmaxf :: "f32 \<Rightarrow> f32 \<Rightarrow> f32" where
  "fmaxf a b = (if isnan a then b else if isnan b then a else if a < b then b else a)"

definition ctrl_nan_max2 :: "f32 \<Rightarrow> f32 \<Rightarrow> f32" where
  "ctrl_nan_max2 a b = (if isnan a then b else if isnan b then a else fmaxf a b)"

text \<open>A NaN reading never hides a live one, and the result is at least each live reading.\<close>

lemma ctrl_nan_max2_upper:
  "\<not> isnan a \<Longrightarrow> a \<le> ctrl_nan_max2 a b" "\<not> isnan b \<Longrightarrow> b \<le> ctrl_nan_max2 a b"
  by (auto simp: ctrl_nan_max2_def fmaxf_def f32_order)

lemma ctrl_nan_max2_nan: "isnan (ctrl_nan_max2 a b) \<longleftrightarrow> isnan a \<and> isnan b"
  by (auto simp: ctrl_nan_max2_def fmaxf_def)

end
