(* ===== verification/Float_Facts.thy ===== *)
theory Float_Facts
  imports Ieee
begin

text \<open>
  Facts on \<open>float\<close> arithmetic the component proofs share: which operations cannot produce
  NaN, monotonicity of rounding, of products and sums, and the relative error of one
  rounding.
\<close>

lemma f32_unit [simp]: "(0 :: f32) < 1" "(0 :: f32) \<le> 1" "(0 :: f32) \<le> 0" "(1 :: f32) \<le> 1" "\<not> (1 :: f32) < 0" "\<not> x < (x :: f32)"
  by (auto simp: f32_order)

section \<open>Operations that do not produce NaN\<close>

lemma fin_cases:
  assumes "isfinite a"
  obtains s v where "fpv a = FpFin s v" "fval a = v"
  using assms by (metis isfinite_obtain)

lemma nonnan_cases:
  assumes "\<not> isnan a"
  obtains (inf) s where "fpv a = FpInf s" | (fin) s v where "fpv a = FpFin s v" "fval a = v"
  using assms by (cases "fpv a") (auto simp: isnan_def fval_def fkey_def)

lemma add_not_nan [fp_intros]: "isfinite a \<Longrightarrow> \<not> isnan b \<Longrightarrow> \<not> isnan (a + b)"
  by (elim fin_cases nonnan_cases) (simp_all add: isnan_def fp_simps)

lemma add_not_nan' [fp_intros]: "\<not> isnan a \<Longrightarrow> isfinite b \<Longrightarrow> \<not> isnan (a + b)"
  by (elim fin_cases nonnan_cases) (simp_all add: isnan_def fp_simps)

lemma diff_not_nan [fp_intros]: "isfinite a \<Longrightarrow> \<not> isnan b \<Longrightarrow> \<not> isnan (a - b)"
  by (elim fin_cases nonnan_cases) (simp_all add: isnan_def fp_simps fp_sub_def)

lemma diff_not_nan' [fp_intros]: "\<not> isnan a \<Longrightarrow> isfinite b \<Longrightarrow> \<not> isnan (a - b)"
  by (elim fin_cases nonnan_cases) (simp_all add: isnan_def fp_simps fp_sub_def)

lemma times_fin_not_nan [fp_intros]: "isfinite a \<Longrightarrow> isfinite b \<Longrightarrow> \<not> isnan (a * b)"
  by (elim fin_cases) (simp_all add: isnan_def fp_simps)

lemma pos_fin_cases:
  assumes "isfinite a" "0 < a"
  obtains s v where "fpv a = FpFin s v" "0 < v" "fval a = v"
  using assms by (metis fin_cases fval_less isfinite_consts(3) fval_consts(1))

lemma times_pos_not_nan [fp_intros]:
  "isfinite a \<Longrightarrow> 0 < a \<Longrightarrow> \<not> isnan b \<Longrightarrow> \<not> isnan (a * b)"
  "\<not> isnan b \<Longrightarrow> isfinite a \<Longrightarrow> 0 < a \<Longrightarrow> \<not> isnan (b * a)"
  by (elim pos_fin_cases nonnan_cases; simp add: isnan_def fp_simps)+

lemma divide_pos_not_nan [fp_intros]:
  "\<not> isnan b \<Longrightarrow> isfinite a \<Longrightarrow> 0 < a \<Longrightarrow> \<not> isnan (b / a)"
  by (elim pos_fin_cases nonnan_cases) (simp_all add: isnan_def fp_simps)

lemma nan_add [simp]: "isnan a \<or> isnan b \<Longrightarrow> isnan (a + b)"
  by (cases "fpv a"; cases "fpv b") (auto simp: isnan_def fp_simps)

lemma nan_diff [simp]: "isnan a \<or> isnan b \<Longrightarrow> isnan (a - b)"
  by (cases "fpv a"; cases "fpv b") (auto simp: isnan_def fp_simps fp_sub_def)

lemma nan_times [simp]: "isnan a \<or> isnan b \<Longrightarrow> isnan (a * b)"
  by (cases "fpv a"; cases "fpv b") (auto simp: isnan_def fp_simps)

lemma nan_divide [simp]: "isnan a \<or> isnan b \<Longrightarrow> isnan (a / b)"
  by (cases "fpv a"; cases "fpv b") (auto simp: isnan_def fp_simps)

lemma float_of_int_not_nan [simp]: "\<not> isnan (float_of_int i)"
  by (simp add: float_of_int_def)

section \<open>Exact integers\<close>

lemma int_fixed: "\<bar>i\<bar> < 2 ^ 24 \<Longrightarrow> round_rat single_fmt (of_int i) = of_int i"
  by (rule round_rat_representable, simp add: single_fmt_def, unfold representable_def,
    rule exI [of _ i], rule exI [of _ 0]) (simp add: single_fmt_def)

lemma int_bound: "\<bar>i\<bar> < 2 ^ 24 \<Longrightarrow> \<bar>of_int i :: rat\<bar> < 2 powi 128"
proof -
  assume "\<bar>i\<bar> < 2 ^ 24"
  then have "of_int \<bar>i\<bar> < (of_int (2 ^ 24) :: rat)" by (simp only: of_int_less_iff)
  also have "\<dots> < 2 powi 128" by simp
  finally show ?thesis by simp
qed

lemma float_of_int_exact:
  assumes "\<bar>i\<bar> < 2 ^ 24"
  shows "isfinite (float_of_int i)" "fval (float_of_int i) = of_int i"
proof -
  have "fpv (float_of_int i) = FpFin (if of_int i = (0 :: rat) then False else of_int i < (0 :: rat)) (of_int i)"
    using int_fixed [OF assms] int_bound [OF assms]
    by (simp add: float_of_int_def fp_simps fp_round_finite del: power_int_numeral)
  then show "isfinite (float_of_int i)" "fval (float_of_int i) = of_int i"
    by (simp_all add: isfinite_def fp_finite_def fval_def fkey_def)
qed

lemma times_int_exact:
  assumes "\<bar>i * j\<bar> < 2 ^ 24" "fval a = of_int i" "isfinite a" "fval b = of_int j" "isfinite b"
  shows "isfinite (a * b)" "fval (a * b) = of_int (i * j)"
proof -
  obtain s t where f: "fpv a = FpFin s (of_int i)" "fpv b = FpFin t (of_int j)"
    using assms by (metis isfinite_obtain)
  have "\<exists>u. fpv (a * b) = FpFin u (of_int (i * j))"
    using int_fixed [OF assms(1)] int_bound [OF assms(1)]
    by (simp add: fp_simps f fp_round_finite del: power_int_numeral)
  then show "isfinite (a * b)" "fval (a * b) = of_int (i * j)"
    by (auto simp: isfinite_def fp_finite_def fval_def fkey_def)
qed

lemma fp_mul_commute: "fp_mul F x y = fp_mul F y x"
  by (cases x; cases y) (auto simp: mult.commute intro: arg_cong2 [where f = "fp_round F"])

lemma f32_times_commute: "a * b = b * (a :: f32)"
  by (simp add: times_f32_def fp_mul_commute)

section \<open>Monotonicity\<close>

lemma fp_round_key_mono:
  assumes "v \<le> w"
  shows "fp_key (fp_round single_fmt s v) \<le> fp_key (fp_round single_fmt t w)"
proof -
  have m: "round_rat single_fmt v \<le> round_rat single_fmt w" using assms by (rule r32.mono)
  have n: "0 \<le> round_rat single_fmt x" if "0 \<le> x" for x using that by (rule r32.nonneg)
  have p: "round_rat single_fmt x \<le> 0" if "x \<le> 0" for x using that by (rule r32.nonpos)
  have c: "(0 :: rat) < 2 powi 128" by simp
  show ?thesis using assms m n [of w] p [of v] n [of v] p [of w] c
    by (auto simp: fp_round_def Let_def single_fmt_def abs_if not_less
        simp del: power_int_numeral split: if_splits)
qed

lemma round_le: "v \<le> w \<Longrightarrow> fpv a = fp_round single_fmt s v \<Longrightarrow> fpv b = fp_round single_fmt t w \<Longrightarrow> a \<le> b"
  using fp_round_key_mono [of v w s t] by (simp add: f32_le_iff isnan_def fkey_def)

lemma times_mono:
  assumes "isfinite a" "isfinite b" "isfinite c" "a \<le> b" "0 \<le> c"
  shows "a * c \<le> b * c"
proof -
  obtain s t u where f: "fpv a = FpFin s (fval a)" "fpv b = FpFin t (fval b)" "fpv c = FpFin u (fval c)"
    using assms by (metis isfinite_obtain)
  have "fval a \<le> fval b" "0 \<le> fval c" using assms by (simp_all add: fval_le)
  then have "fval a * fval c \<le> fval b * fval c" by (rule mult_right_mono)
  then show ?thesis by (rule round_le) (simp_all add: fp_simps f)
qed

lemma add_mono_f32:
  assumes "isfinite a" "isfinite b" "isfinite c" "a \<le> b"
  shows "c + a \<le> c + b"
proof -
  obtain s t u where f: "fpv a = FpFin s (fval a)" "fpv b = FpFin t (fval b)" "fpv c = FpFin u (fval c)"
    using assms by (metis isfinite_obtain)
  have "fval c + fval a \<le> fval c + fval b" using assms by (simp add: fval_le)
  then show ?thesis by (rule round_le) (simp_all add: fp_simps f)
qed

lemma add_nonneg_ge:
  assumes "isfinite a" "0 \<le> b"
  shows "a \<le> a + b"
proof (cases "isfinite b")
  case True
  obtain s t where f: "fpv a = FpFin s (fval a)" "fpv b = FpFin t (fval b)"
    using assms True by (metis isfinite_obtain)
  have "round_rat single_fmt (fval a) = fval a" using assms(1) by (rule fval_fixed)
  then have a: "fkey a = fp_key (fp_round single_fmt s (fval a))"
    using fval_bound [OF assms(1)]
    by (simp add: fkey_def f fp_round_finite del: power_int_numeral)
  have "fval a \<le> fval a + fval b" using assms True by (simp add: fval_le)
  from fp_round_key_mono [OF this, of s "s \<and> t"] show ?thesis
    using assms by (simp add: f32_le_iff a isfinite_not_nan) (simp add: fkey_def isnan_def fp_simps f)
next
  case False
  then have "fpv b = FpInf False"
    using assms(2) by (cases "fpv b") (auto simp: isfinite_def fp_finite_def f32_order isnan_def fkey_def split: if_splits)
  moreover obtain s where "fpv a = FpFin s (fval a)" using assms by (metis isfinite_obtain)
  ultimately have "fpv (a + b) = fpv INFINITY" by (simp add: fp_simps)
  then have "\<not> isnan (a + b)" "fkey (a + b) = fkey INFINITY" by (simp_all add: isnan_def fkey_def)
  then show ?thesis using f32_le_INFINITY [of a] assms(1) by (simp add: f32_le_iff isfinite_not_nan)
qed

lemma nonneg_cases:
  assumes "0 \<le> a"
  obtains (inf) "fpv a = FpInf False" | (fin) s v where "fpv a = FpFin s v" "0 \<le> v" "fval a = v" "s \<Longrightarrow> v = 0"
  using assms single_fpv [of a] by (cases "fpv a") (auto simp: f32_order isnan_def fkey_def fval_def split: if_splits)

lemma fp_round_nonneg: "0 \<le> v \<Longrightarrow> fpv a = fp_round single_fmt s v \<Longrightarrow> 0 \<le> a"
  using r32.nonneg [of v]
  by (auto simp: f32_le_iff isnan_def fkey_def fp_round_def Let_def not_less [symmetric])

lemma times_nonneg:
  assumes "0 \<le> a" "0 \<le> b" "\<not> isnan (a * b)"
  shows "0 \<le> a * b"
proof (rule nonneg_cases [OF assms(1)]; rule nonneg_cases [OF assms(2)])
  fix s v t w assume "fpv a = FpFin s v" "0 \<le> v" "fpv b = FpFin t w" "0 \<le> w"
  then show ?thesis by (intro fp_round_nonneg [of "v * w"]) (simp_all add: fp_simps)
qed (use assms(3) in \<open>auto simp: f32_order isnan_def fkey_def fp_simps split: if_splits\<close>)

section \<open>Relative error\<close>

lemma rne_error: "\<bar>of_int (rne x) - x\<bar> \<le> 1 / 2"
  unfolding abs_le_iff using rne_bounds [of x] by linarith

lemma round_error:
  "x \<noteq> 0 \<Longrightarrow> \<bar>round_rat F x - x\<bar> \<le> 2 powi quantum F x / 2"
proof -
  assume x: "x \<noteq> 0"
  define q where "q = (2 :: rat) powi quantum F x"
  have q: "0 < q" by (simp add: q_def)
  have "round_rat F x - x = (of_int (rne (x / q)) - x / q) * q"
    using x q by (simp add: round_rat_def Let_def left_diff_distrib flip: q_def)
  then have "\<bar>round_rat F x - x\<bar> = \<bar>of_int (rne (x / q)) - x / q\<bar> * q"
    using q by (simp add: abs_mult)
  also have "\<dots> \<le> 1 / 2 * q" using q by (intro mult_right_mono rne_error) simp
  finally show ?thesis by (simp add: q_def)
qed

text \<open>One rounding: at most half a unit in the last bit, or half the smallest subnormal.\<close>

lemma round_rel_error: "\<bar>round_rat F x - x\<bar> \<le> 2 powi (- fmt_prec F) * \<bar>x\<bar> + 2 powi (fmt_qmin F - 1)"
proof (cases "x = 0")
  case False
  let ?e = "flog2 \<bar>x\<bar> - (fmt_prec F - 1)"
  have q: "(2 :: rat) powi quantum F x \<le> 2 powi ?e + 2 powi fmt_qmin F"
  proof -
    have "(0 :: rat) < 2 powi ?e" "(0 :: rat) < 2 powi fmt_qmin F" by simp_all
    then show ?thesis by (simp add: quantum_def max_def del: zero_less_power_int)
  qed
  have "(2 :: rat) powi ?e / 2 = 2 powi (flog2 \<bar>x\<bar> + - fmt_prec F)"
    using powi2_Suc [of "flog2 \<bar>x\<bar> - fmt_prec F"] by (simp add: algebra_simps)
  also have "\<dots> = 2 powi (- fmt_prec F) * 2 powi flog2 \<bar>x\<bar>"
    by (subst power_int_add) (simp_all add: mult.commute)
  also have "\<dots> \<le> 2 powi (- fmt_prec F) * \<bar>x\<bar>" using flog2_bounds(1) [of "\<bar>x\<bar>"] False by (intro mult_left_mono) auto
  finally have a: "(2 :: rat) powi ?e / 2 \<le> 2 powi (- fmt_prec F) * \<bar>x\<bar>" .
  have b: "(2 :: rat) powi fmt_qmin F / 2 = 2 powi (fmt_qmin F - 1)" using powi2_Suc [of "fmt_qmin F - 1"] by simp
  have "\<bar>round_rat F x - x\<bar> \<le> 2 powi quantum F x / 2" using False by (rule round_error)
  also have "\<dots> \<le> 2 powi ?e / 2 + 2 powi fmt_qmin F / 2" using q by linarith
  finally show ?thesis using a b by linarith
qed simp

lemma round_single_error: "\<bar>round_rat single_fmt x - x\<bar> \<le> 2 powi (-24) * \<bar>x\<bar> + 2 powi (-150)"
  using round_rel_error [of single_fmt x] by (simp add: single_fmt_def)

lemma round_double_error: "\<bar>round_rat double_fmt x - x\<bar> \<le> 2 powi (-53) * \<bar>x\<bar> + 2 powi (-1075)"
  using round_rel_error [of double_fmt x] by (simp add: double_fmt_def)

end
