(* ===== verification/Samples.thy ===== *)
theory Samples
  imports Ctrl_Types Float_Facts
begin

text \<open>
  Concrete inputs for the witnesses: a healthy measurement of a 16-cell 48 V bank with the
  engine running, a configured 48 V system with a 12 V rotor, profile 1, and inactive ceilings.
\<close>

definition sample_m :: ctrl_measured_t where
  "sample_m = \<lparr>m_vbat_pack_v = flit 52, m_vcomp_pack_v = flit 52, m_amps_batt = flit 20, m_watts_batt = flit 1040,
     m_isrc = CTRL_ISRC_BATT_SHUNT, m_v_supply_v = flit (521 / 10), m_alt_hotspot_c = flit 70,
     m_batt_temp_c = flit 25, m_driver_temp_c = flit 45, m_rpm = flit 1800, m_rpm_state = CTRL_RPM_VALID,
     m_run_state = CTRL_RUN_RUNNING, m_soc_pct = flit 60, m_soc_trusted = True, m_ignition = True,
     m_feature_in = False, m_ext_faults = 0\<rparr>"

definition sample_ceil :: ctrl_ceilings_t where
  "sample_ceil = \<lparr>ceil_thermal_w = INFINITY, ceil_driver_thermal_w = INFINITY, ceil_bms_ccl_w = INFINITY,
     ceil_battery_c_w = INFINITY, ceil_wiring_w = flit 4000, ceil_alt_absolute_w = INFINITY,
     ceil_alt_capability_w = INFINITY, ceil_belt_w = INFINITY, ceil_engine_w = INFINITY, ceil_user_cap_w = INFINITY\<rparr>"

definition sample_prof :: ctrl_profile_t where
  "sample_prof = \<lparr>p_id = 1, p_cv_target_vcell = flit (35 / 10), p_exit_at_cv_entry = False, p_rest_mode = CTRL_REST_HOLD,
     p_rest_voltage_vcell = flit (335 / 100), p_rest_power_cap_w = flit 1000, p_v_revert_vcell = flit (328 / 100),
     p_t_revert_hold_s = 30, p_soc_revert_pct = 50, p_ah_revert = flit 30\<rparr>"

definition sample_g :: ctrl_globals_t where
  "sample_g = \<lparr>g_cells_series = 16, g_bank_capacity_ah = flit 100, g_max_charge_power_w = flit 5000,
     g_ramp_w_per_s = flit 100, g_p_tail_w = flit 100, g_t_tail_hold_s = 60, g_t_vclamp_s = 5, g_cv_hold_exit_min = 15,
     g_t_charge_max_min = 480, g_warmup_time_s = 0, g_warmup_coolant_c = NAN, g_soc_target_pct = -1,
     g_skip_bulk_vcell = 0, g_skip_bulk_soc_pct = -1, g_rotor_rated_v = flit 12, g_rotor_v_max = NAN,
     g_allow_full_field_48v = False, g_limp_vcell = flit (33 / 10), g_limp_power_cap_w = flit 250,
     g_batt_temp_src = CTRL_BATT_TEMP_NONE, g_require_batt_temp = False\<rparr>"

definition sample_lims :: ctrl_limits_t where
  "sample_lims = \<lparr>lim_battery_c_limit = flit (1 / 2), lim_wiring_limit_a = flit 100, lim_alternator_limit_a = flit 120\<rparr>"

lemmas sample_defs = sample_m_def sample_ceil_def sample_prof_def sample_g_def sample_lims_def

lemma sample_facts:
  "(0 :: f32) < 1" "0 < flit 52" "isfinite (flit 52)" "0 \<le> flit 52" "0 < flit 12" "isfinite (flit 12)" "isfinite (flit 100)"
  "0 \<le> flit 100" "isfinite (flit (1 / 100))" "0 < flit (1 / 100)" "isfinite (flit 70)" "isfinite (flit 80)"
  by code_simp+

end
