(* ===== verification/Arbitration.thy ===== *)
theory Arbitration
  imports Samples
begin

text \<open>
  Power arbitration, \<open>control/Src/arbitration.c\<close>, and the hardware limit set that feeds it,
  \<open>control/Src/limits.c\<close>. Commanded power is the minimum of the profile's stage power and every
  active ceiling; the macro \<open>CONSIDER\<close> is one \<open>CONSIDER\<close> step over the list of ceilings in the
  order of the source. The lemmas characterise the result as a greatest lower bound and
  locate the source that is reported with it.
\<close>

record ctrl_arb_t =
  arb_watts :: f32
  arb_src :: ctrl_bind_src_t

definition CONSIDER :: "ctrl_arb_t \<Rightarrow> f32 \<times> ctrl_bind_src_t \<Rightarrow> ctrl_arb_t" where
  "CONSIDER r ws = (case ws of (w, s) \<Rightarrow>
     if w < arb_watts r then r\<lparr>arb_watts := w, arb_src := s\<rparr> else r)"

definition arb_ceilings :: "ctrl_ceilings_t \<Rightarrow> (f32 \<times> ctrl_bind_src_t) list" where
  "arb_ceilings c =
    [(ceil_thermal_w c, CTRL_BIND_THERMAL),
     (ceil_driver_thermal_w c, CTRL_BIND_DRIVER_THERMAL),
     (ceil_bms_ccl_w c, CTRL_BIND_BMS),
     (ceil_battery_c_w c, CTRL_BIND_BATTERY_C),
     (ceil_wiring_w c, CTRL_BIND_WIRING),
     (ceil_alt_absolute_w c, CTRL_BIND_ALT_ABSOLUTE),
     (ceil_alt_capability_w c, CTRL_BIND_ALT_CAPABILITY),
     (ceil_belt_w c, CTRL_BIND_BELT),
     (ceil_engine_w c, CTRL_BIND_ENGINE),
     (ceil_user_cap_w c, CTRL_BIND_USER_CAP)]"

definition ctrl_arbitrate :: "f32 \<Rightarrow> ctrl_ceilings_t \<Rightarrow> ctrl_arb_t" where
  "ctrl_arbitrate stage_w c =
     (let r = foldl CONSIDER \<lparr>arb_watts = stage_w, arb_src = CTRL_BIND_STAGE\<rparr> (arb_ceilings c)
      in if \<not> 0 \<le> arb_watts r then r\<lparr>arb_watts := 0\<rparr> else r)"

definition ctrl_limits_apply ::
    "ctrl_ceilings_t \<Rightarrow> ctrl_limits_t \<Rightarrow> ctrl_globals_t \<Rightarrow> f32 \<Rightarrow> ctrl_ceilings_t" where
  "ctrl_limits_apply c lims g vbat_pack_v =
     (let v_ok = 0 < vbat_pack_v in
      c\<lparr>ceil_battery_c_w :=
          (if v_ok \<and> 0 < lim_battery_c_limit lims \<and> 0 < g_bank_capacity_ah g
           then lim_battery_c_limit lims * g_bank_capacity_ah g * vbat_pack_v
           else CTRL_CEILING_INACTIVE),
        ceil_wiring_w :=
          (if v_ok \<and> 0 < lim_wiring_limit_a lims then lim_wiring_limit_a lims * vbat_pack_v
           else CTRL_CEILING_INACTIVE),
        ceil_alt_absolute_w :=
          (if v_ok \<and> 0 < lim_alternator_limit_a lims then lim_alternator_limit_a lims * vbat_pack_v
           else CTRL_CEILING_INACTIVE)\<rparr>)"

section \<open>The minimum\<close>

lemma CONSIDER_le:
  "x \<le> arb_watts (CONSIDER r ws) \<longleftrightarrow> x \<le> arb_watts r \<and> (isnan (fst ws) \<or> x \<le> fst ws)"
  by (auto simp: CONSIDER_def f32_order split: prod.splits)

lemma CONSIDER_all_le:
  "x \<le> arb_watts (foldl CONSIDER r l) \<longleftrightarrow> x \<le> arb_watts r \<and> (\<forall>ws\<in>set l. isnan (fst ws) \<or> x \<le> fst ws)"
  by (induction l arbitrary: r) (auto simp: CONSIDER_le)

text \<open>The winner is a candidate, and every candidate considered before it was strictly higher.\<close>

definition winner_of :: "f32 \<Rightarrow> (f32 \<times> ctrl_bind_src_t) list \<Rightarrow> ctrl_arb_t \<Rightarrow> bool" where
  "winner_of stage_w l r \<longleftrightarrow>
     (\<exists>i\<le>length l. ((stage_w, CTRL_BIND_STAGE) # l) ! i = (arb_watts r, arb_src r) \<and>
        (\<forall>j<i. arb_watts r < fst (((stage_w, CTRL_BIND_STAGE) # l) ! j) \<or>
               isnan (fst (((stage_w, CTRL_BIND_STAGE) # l) ! j))))"

lemma CONSIDER_winner_step:
  assumes "winner_of stage_w l r" and "\<And>ws. ws \<in> set l \<Longrightarrow> isnan (fst ws) \<or> arb_watts r \<le> fst ws"
    and "isnan stage_w \<or> arb_watts r \<le> stage_w"
  shows "winner_of stage_w (l @ [ws]) (CONSIDER r ws)"
proof -
  obtain i where i: "i \<le> length l" "((stage_w, CTRL_BIND_STAGE) # l) ! i = (arb_watts r, arb_src r)"
    "\<And>j. j < i \<Longrightarrow> arb_watts r < fst (((stage_w, CTRL_BIND_STAGE) # l) ! j) \<or>
       isnan (fst (((stage_w, CTRL_BIND_STAGE) # l) ! j))"
    using assms(1) by (auto simp: winner_of_def)
  let ?l = "(stage_w, CTRL_BIND_STAGE) # l"
  have app: "((stage_w, CTRL_BIND_STAGE) # l @ [ws]) ! j = ?l ! j" if "j \<le> length l" for j
    using that nth_append [of ?l "[ws]" j] by simp
  have last: "((stage_w, CTRL_BIND_STAGE) # l @ [ws]) ! Suc (length l) = ws" by simp
  show ?thesis
  proof (cases "fst ws < arb_watts r")
    case True
    have "arb_watts (CONSIDER r ws) < fst (?l ! j) \<or> isnan (fst (?l ! j))" if "j \<le> length l" for j
    proof -
      have "?l ! j \<in> set ?l" using that by (intro nth_mem) simp
      then have "isnan (fst (?l ! j)) \<or> arb_watts r \<le> fst (?l ! j)"
        using assms(3) assms(2) [of "?l ! j"] by auto
      with True show ?thesis by (auto simp: CONSIDER_def split: prod.splits intro: f32_less_le_trans)
    qed
    moreover have "ws = (arb_watts (CONSIDER r ws), arb_src (CONSIDER r ws))"
      using True by (auto simp: CONSIDER_def split: prod.splits)
    ultimately show ?thesis unfolding winner_of_def
      by (intro exI [of _ "Suc (length l)"]) (auto simp: last app less_Suc_eq_le)
  next
    case False
    then have "CONSIDER r ws = r" by (auto simp: CONSIDER_def split: prod.splits)
    then show ?thesis unfolding winner_of_def using i app by (intro exI [of _ i]) auto
  qed
qed

lemma CONSIDER_not_nan:
  "\<not> isnan stage_w \<Longrightarrow> \<not> isnan (arb_watts (foldl CONSIDER \<lparr>arb_watts = stage_w, arb_src = CTRL_BIND_STAGE\<rparr> l))"
  by (induction l rule: rev_induct) (auto simp: CONSIDER_def dest: f32_less_not_nan split: prod.splits)

lemma CONSIDER_winner:
  assumes "\<not> isnan stage_w"
  shows "winner_of stage_w l (foldl CONSIDER \<lparr>arb_watts = stage_w, arb_src = CTRL_BIND_STAGE\<rparr> l)"
proof (induction l rule: rev_induct)
  case Nil
  show ?case by (simp add: winner_of_def)
next
  case (snoc ws l)
  let ?r = "foldl CONSIDER \<lparr>arb_watts = stage_w, arb_src = CTRL_BIND_STAGE\<rparr> l"
  have "\<not> isnan (arb_watts ?r)"
    using assms by (rule CONSIDER_not_nan)
  then have "arb_watts ?r \<le> arb_watts ?r" by (simp add: f32_le_refl)
  note le = this [unfolded CONSIDER_all_le]
  show ?case using CONSIDER_winner_step [OF snoc.IH, of ws] le by simp
qed

lemma arbitrate_pos_le:
  assumes "0 < x"
  shows "x \<le> arb_watts (ctrl_arbitrate stage_w c) \<longleftrightarrow>
    x \<le> stage_w \<and> (\<forall>ws\<in>set (arb_ceilings c). isnan (fst ws) \<or> x \<le> fst ws)"
proof -
  let ?r = "foldl CONSIDER \<lparr>arb_watts = stage_w, arb_src = CTRL_BIND_STAGE\<rparr> (arb_ceilings c)"
  have "x \<le> arb_watts (ctrl_arbitrate stage_w c) \<longleftrightarrow> x \<le> arb_watts ?r"
  proof (cases "0 \<le> arb_watts ?r")
    case False
    then have "\<not> x \<le> arb_watts ?r" using assms by (meson f32_le_trans f32_less_imp_le)
    with False show ?thesis using assms by (simp add: ctrl_arbitrate_def Let_def f32_less_asym)
  qed (simp add: ctrl_arbitrate_def Let_def)
  then show ?thesis by (simp add: CONSIDER_all_le)
qed

lemma arb_nonneg [simp]: "0 \<le> arb_watts (ctrl_arbitrate stage_w c)"
  by (simp add: ctrl_arbitrate_def Let_def f32_le_refl)

lemma arb_not_nan [simp]: "\<not> isnan (arb_watts (ctrl_arbitrate stage_w c))"
  using arb_nonneg f32_le_not_nan by blast

text \<open>A live ceiling bounds the result: by its value, or by zero when it is negative.\<close>

lemma arb_le_ceiling:
  assumes "ws \<in> set (arb_ceilings c)" "\<not> isnan (fst ws)"
  shows "arb_watts (ctrl_arbitrate stage_w c) \<le> fst ws \<or> fkey (arb_watts (ctrl_arbitrate stage_w c)) = (0, 0)"
proof (cases "0 < arb_watts (ctrl_arbitrate stage_w c)")
  case True
  then show ?thesis using arbitrate_pos_le [OF True, of stage_w c] assms by (auto simp: f32_le_refl)
next
  case False
  then show ?thesis using arb_nonneg [of stage_w c] by (auto simp: f32_order)
qed

text \<open>The reported source is that of the first candidate that attains the minimum.\<close>

lemma arb_winner:
  assumes "0 < arb_watts (ctrl_arbitrate stage_w c)"
  shows "winner_of stage_w (arb_ceilings c) (ctrl_arbitrate stage_w c)"
proof -
  let ?r = "foldl CONSIDER \<lparr>arb_watts = stage_w, arb_src = CTRL_BIND_STAGE\<rparr> (arb_ceilings c)"
  have "\<not> isnan stage_w"
    using arbitrate_pos_le [OF assms, of stage_w c] by (auto simp: f32_le_refl f32_le_not_nan)
  moreover have "ctrl_arbitrate stage_w c = ?r"
    using assms by (simp add: ctrl_arbitrate_def Let_def f32_order split: if_splits)
  ultimately show ?thesis by (metis CONSIDER_winner)
qed

lemma arb_zero_stage:
  assumes "\<not> 0 < stage_w"
  shows "fkey (arb_watts (ctrl_arbitrate stage_w c)) = (0, 0)"
proof (cases "0 < arb_watts (ctrl_arbitrate stage_w c)")
  case True
  then have "arb_watts (ctrl_arbitrate stage_w c) \<le> stage_w"
    using arbitrate_pos_le [OF True, of stage_w c] by (simp add: f32_le_refl)
  with True assms show ?thesis by (meson f32_less_le_trans)
next
  case False
  then show ?thesis using arb_nonneg [of stage_w c] by (auto simp: f32_order)
qed

section \<open>Limits\<close>

lemma limits_frame:
  "ceil_thermal_w (ctrl_limits_apply c lims g v) = ceil_thermal_w c"
  "ceil_driver_thermal_w (ctrl_limits_apply c lims g v) = ceil_driver_thermal_w c"
  "ceil_bms_ccl_w (ctrl_limits_apply c lims g v) = ceil_bms_ccl_w c"
  "ceil_alt_capability_w (ctrl_limits_apply c lims g v) = ceil_alt_capability_w c"
  "ceil_belt_w (ctrl_limits_apply c lims g v) = ceil_belt_w c"
  "ceil_engine_w (ctrl_limits_apply c lims g v) = ceil_engine_w c"
  "ceil_user_cap_w (ctrl_limits_apply c lims g v) = ceil_user_cap_w c"
  by (simp_all add: ctrl_limits_apply_def Let_def)

lemma limits_unset:
  "\<not> 0 < v \<Longrightarrow> ctrl_limits_apply c lims g v = c\<lparr>ceil_battery_c_w := INFINITY, ceil_wiring_w := INFINITY,
     ceil_alt_absolute_w := INFINITY\<rparr>"
  by (simp add: ctrl_limits_apply_def Let_def CTRL_CEILING_INACTIVE_def)

section \<open>Properties\<close>

text \<open>The arbitrated power is the greatest lower bound of the stage power and
  the live ceilings: a positive power is admitted exactly when the stage and every ceiling
  that is not NaN admit it (an inactive ceiling is infinite, a NaN ceiling never binds, a NaN
  stage admits nothing), and the result is never negative or NaN.\<close>

theorem arbitrate_minimum:
  assumes "0 < x"
  shows "0 \<le> arb_watts (ctrl_arbitrate stage_w c) \<and>
    (x \<le> arb_watts (ctrl_arbitrate stage_w c) \<longleftrightarrow>
      x \<le> stage_w \<and> list_all (\<lambda>ws. isnan (fst ws) \<or> x \<le> fst ws) (arb_ceilings c))"
  using arbitrate_pos_le [OF assms] by (simp add: list_all_iff)

text \<open>One watt is admitted by the sample ceilings under a stage power of one watt.\<close>

theorem arbitrate_minimum_witness:
  "(0 :: f32) < 1 \<and> 1 \<le> arb_watts (ctrl_arbitrate 1 sample_ceil)"
proof -
  have "list_all (\<lambda>ws. isnan (fst ws) \<or> 1 \<le> fst ws) (arb_ceilings sample_ceil)" by code_simp
  then show ?thesis using arbitrate_minimum [of 1 1 sample_ceil] by simp
qed

text \<open>When power is commanded, the reported binding source is the stage or a
  ceiling whose value is the result, and every candidate considered before it was strictly
  higher or NaN.\<close>

theorem arbitrate_reports_winner:
  assumes "0 < arb_watts (ctrl_arbitrate stage_w c)"
  shows "winner_of stage_w (arb_ceilings c) (ctrl_arbitrate stage_w c)"
  using assms by (rule arb_winner)

theorem arbitrate_reports_winner_witness:
  "winner_of (flit 5000) (arb_ceilings sample_ceil) (ctrl_arbitrate (flit 5000) sample_ceil)"
  by (rule arbitrate_reports_winner) code_simp

text \<open>The hardware limit set reaches the arbitration: at a live voltage each rating
  that is set bounds the arbitrated power by rating times voltage (or the result is zero),
  whatever the other ceilings are, and an unset rating leaves its ceiling inactive.\<close>

theorem limits_bound_power:
  assumes "0 < v"
  shows "(\<not> 0 < lim_wiring_limit_a lims \<or> isnan (lim_wiring_limit_a lims * v) \<or>
     arb_watts (ctrl_arbitrate stage_w (ctrl_limits_apply c lims g v)) \<le> lim_wiring_limit_a lims * v \<or>
     arb_watts (ctrl_arbitrate stage_w (ctrl_limits_apply c lims g v)) \<le> 0) \<and>
   (\<not> 0 < lim_alternator_limit_a lims \<or> isnan (lim_alternator_limit_a lims * v) \<or>
     arb_watts (ctrl_arbitrate stage_w (ctrl_limits_apply c lims g v)) \<le> lim_alternator_limit_a lims * v \<or>
     arb_watts (ctrl_arbitrate stage_w (ctrl_limits_apply c lims g v)) \<le> 0) \<and>
   (\<not> 0 < lim_battery_c_limit lims \<or> \<not> 0 < g_bank_capacity_ah g \<or>
     isnan (lim_battery_c_limit lims * g_bank_capacity_ah g * v) \<or>
     arb_watts (ctrl_arbitrate stage_w (ctrl_limits_apply c lims g v))
       \<le> lim_battery_c_limit lims * g_bank_capacity_ah g * v \<or>
     arb_watts (ctrl_arbitrate stage_w (ctrl_limits_apply c lims g v)) \<le> 0)"
proof -
  let ?c = "ctrl_limits_apply c lims g v"
  have z: "arb_watts (ctrl_arbitrate stage_w ?c) \<le> w \<or> arb_watts (ctrl_arbitrate stage_w ?c) \<le> 0"
    if "(w, s) \<in> set (arb_ceilings ?c)" "\<not> isnan w" for w s
    using arb_le_ceiling [OF that(1), of stage_w] that(2) by (auto simp: f32_le_iff)
  have "0 < lim_wiring_limit_a lims \<Longrightarrow> (lim_wiring_limit_a lims * v, CTRL_BIND_WIRING) \<in> set (arb_ceilings ?c)"
    "0 < lim_alternator_limit_a lims \<Longrightarrow> (lim_alternator_limit_a lims * v, CTRL_BIND_ALT_ABSOLUTE) \<in> set (arb_ceilings ?c)"
    "0 < lim_battery_c_limit lims \<Longrightarrow> 0 < g_bank_capacity_ah g \<Longrightarrow>
      (lim_battery_c_limit lims * g_bank_capacity_ah g * v, CTRL_BIND_BATTERY_C) \<in> set (arb_ceilings ?c)"
    using assms by (simp_all add: arb_ceilings_def ctrl_limits_apply_def Let_def)
  with z show ?thesis by metis
qed

theorem limits_bound_power_witness:
  "arb_watts (ctrl_arbitrate (flit 9000) (ctrl_limits_apply sample_ceil sample_lims sample_g (flit 52))) \<le> flit 100 * flit 52 \<or>
   arb_watts (ctrl_arbitrate (flit 9000) (ctrl_limits_apply sample_ceil sample_lims sample_g (flit 52))) \<le> 0"
proof -
  have "0 < lim_wiring_limit_a sample_lims" "\<not> isnan (lim_wiring_limit_a sample_lims * flit 52)" by code_simp+
  then show ?thesis
    using limits_bound_power [OF sample_facts(2), of sample_lims "flit 9000" sample_ceil sample_g]
    by (simp add: sample_lims_def)
qed

end
