(* ===== verification/Faults.thy ===== *)
theory Faults
  imports Ctrl_Types
begin

text \<open>
  Fault classification, \<open>control/Src/faults.c\<close> and \<open>control/Inc/faults.h\<close>: the frozen fault
  bits, the four disposition masks, severity, field disposition and the single code the
  blink encoder and the N2K alert report. The lemmas show that the masks partition the
  declared bits, that more faults never lower severity or disposition, and that the code
  reported is the lowest bit of the highest severity.
\<close>

section \<open>Fault bits\<close>

definition CTRL_FAULT_NONE :: u32 where "CTRL_FAULT_NONE = 0"
abbreviation CTRL_FAULT_OVERVOLTAGE :: u32 where "CTRL_FAULT_OVERVOLTAGE \<equiv> push_bit 0 1"
abbreviation CTRL_FAULT_FIELD_SHORT :: u32 where "CTRL_FAULT_FIELD_SHORT \<equiv> push_bit 1 1"
abbreviation CTRL_FAULT_FIELD_OPEN :: u32 where "CTRL_FAULT_FIELD_OPEN \<equiv> push_bit 2 1"
abbreviation CTRL_FAULT_FIELD_OVERCUR :: u32 where "CTRL_FAULT_FIELD_OVERCUR \<equiv> push_bit 3 1"
abbreviation CTRL_FAULT_SELF_OVERTEMP :: u32 where "CTRL_FAULT_SELF_OVERTEMP \<equiv> push_bit 4 1"
abbreviation CTRL_FAULT_OVERSPEED :: u32 where "CTRL_FAULT_OVERSPEED \<equiv> push_bit 5 1"
abbreviation CTRL_FAULT_SHUNT_OPEN :: u32 where "CTRL_FAULT_SHUNT_OPEN \<equiv> push_bit 6 1"
abbreviation CTRL_FAULT_SHUNT_REVERSED :: u32 where "CTRL_FAULT_SHUNT_REVERSED \<equiv> push_bit 7 1"
abbreviation CTRL_FAULT_BATT_DTDT :: u32 where "CTRL_FAULT_BATT_DTDT \<equiv> push_bit 8 1"
abbreviation CTRL_FAULT_BATT_LOWTEMP :: u32 where "CTRL_FAULT_BATT_LOWTEMP \<equiv> push_bit 9 1"
abbreviation CTRL_FAULT_BATT_HIGHTEMP :: u32 where "CTRL_FAULT_BATT_HIGHTEMP \<equiv> push_bit 10 1"
abbreviation CTRL_FAULT_LOST_VBAT_SENSE :: u32 where "CTRL_FAULT_LOST_VBAT_SENSE \<equiv> push_bit 11 1"
abbreviation CTRL_FAULT_LOST_BMS :: u32 where "CTRL_FAULT_LOST_BMS \<equiv> push_bit 12 1"
abbreviation CTRL_FAULT_IMPLAUSIBLE_SHUNT :: u32 where "CTRL_FAULT_IMPLAUSIBLE_SHUNT \<equiv> push_bit 13 1"
abbreviation CTRL_FAULT_THERMAL_DIVERGE :: u32 where "CTRL_FAULT_THERMAL_DIVERGE \<equiv> push_bit 14 1"
abbreviation CTRL_FAULT_WATCHDOG :: u32 where "CTRL_FAULT_WATCHDOG \<equiv> push_bit 15 1"
abbreviation CTRL_FAULT_VSUP_IMPLAUSIBLE :: u32 where "CTRL_FAULT_VSUP_IMPLAUSIBLE \<equiv> push_bit 16 1"
abbreviation CTRL_FAULT_BATT_TEMP_REQUIRED :: u32 where "CTRL_FAULT_BATT_TEMP_REQUIRED \<equiv> push_bit 17 1"
abbreviation CTRL_FAULT_DRIVER_OVERTEMP :: u32 where "CTRL_FAULT_DRIVER_OVERTEMP \<equiv> push_bit 18 1"

section \<open>Masks\<close>

definition CTRL_FAULT_OPEN_MASK :: u32 where
  "CTRL_FAULT_OPEN_MASK = CTRL_FAULT_OVERVOLTAGE OR CTRL_FAULT_FIELD_SHORT OR CTRL_FAULT_FIELD_OVERCUR
     OR CTRL_FAULT_OVERSPEED OR CTRL_FAULT_WATCHDOG OR CTRL_FAULT_BATT_DTDT OR CTRL_FAULT_DRIVER_OVERTEMP"

definition CTRL_FAULT_LIMP_MASK :: u32 where
  "CTRL_FAULT_LIMP_MASK = CTRL_FAULT_LOST_VBAT_SENSE OR CTRL_FAULT_LOST_BMS OR CTRL_FAULT_IMPLAUSIBLE_SHUNT
     OR CTRL_FAULT_SHUNT_OPEN OR CTRL_FAULT_SHUNT_REVERSED"

definition CTRL_FAULT_BLOCK_MASK :: u32 where
  "CTRL_FAULT_BLOCK_MASK = CTRL_FAULT_BATT_LOWTEMP OR CTRL_FAULT_BATT_HIGHTEMP OR CTRL_FAULT_BATT_TEMP_REQUIRED"

definition CTRL_FAULT_WARN_MASK :: u32 where
  "CTRL_FAULT_WARN_MASK = CTRL_FAULT_FIELD_OPEN OR CTRL_FAULT_SELF_OVERTEMP OR CTRL_FAULT_THERMAL_DIVERGE
     OR CTRL_FAULT_VSUP_IMPLAUSIBLE"

definition CTRL_FAULT_ALL_MASK :: u32 where
  "CTRL_FAULT_ALL_MASK = CTRL_FAULT_OVERVOLTAGE OR CTRL_FAULT_FIELD_SHORT OR CTRL_FAULT_FIELD_OPEN
     OR CTRL_FAULT_FIELD_OVERCUR OR CTRL_FAULT_SELF_OVERTEMP OR CTRL_FAULT_OVERSPEED
     OR CTRL_FAULT_SHUNT_OPEN OR CTRL_FAULT_SHUNT_REVERSED OR CTRL_FAULT_BATT_DTDT
     OR CTRL_FAULT_BATT_LOWTEMP OR CTRL_FAULT_BATT_HIGHTEMP OR CTRL_FAULT_LOST_VBAT_SENSE
     OR CTRL_FAULT_LOST_BMS OR CTRL_FAULT_IMPLAUSIBLE_SHUNT OR CTRL_FAULT_THERMAL_DIVERGE
     OR CTRL_FAULT_WATCHDOG OR CTRL_FAULT_VSUP_IMPLAUSIBLE OR CTRL_FAULT_BATT_TEMP_REQUIRED
     OR CTRL_FAULT_DRIVER_OVERTEMP"

lemmas fault_masks = CTRL_FAULT_OPEN_MASK_def CTRL_FAULT_LIMP_MASK_def CTRL_FAULT_BLOCK_MASK_def
  CTRL_FAULT_WARN_MASK_def CTRL_FAULT_ALL_MASK_def

section \<open>Severity, disposition, reported code\<close>

definition ctrl_fault_severity :: "u32 \<Rightarrow> ctrl_severity_t" where
  "ctrl_fault_severity faults =
     (if faults AND CTRL_FAULT_OPEN_MASK \<noteq> 0 then CTRL_SEV_CRITICAL
      else if faults AND (CTRL_FAULT_LIMP_MASK OR CTRL_FAULT_BLOCK_MASK) \<noteq> 0 then CTRL_SEV_FAULT
      else if faults AND CTRL_FAULT_WARN_MASK \<noteq> 0 then CTRL_SEV_WARN
      else CTRL_SEV_INFO)"

definition ctrl_fault_disposition :: "u32 \<Rightarrow> ctrl_disposition_t" where
  "ctrl_fault_disposition faults =
     (if faults AND CTRL_FAULT_OPEN_MASK \<noteq> 0 then CTRL_DISP_OPEN
      else if faults AND CTRL_FAULT_LIMP_MASK \<noteq> 0 then CTRL_DISP_LIMP
      else CTRL_DISP_CONTINUE)"

text \<open>One iteration of the selection loop: the locals are \<open>best\<close>, \<open>best_bit\<close> and \<open>found\<close>.\<close>

definition top_code_step :: "u32 \<Rightarrow> ctrl_severity_t \<times> nat \<times> bool \<Rightarrow> nat \<Rightarrow> ctrl_severity_t \<times> nat \<times> bool" where
  "top_code_step faults st k = (case st of (best, best_bit, found) \<Rightarrow>
     let b = faults AND push_bit k 1 in
     if b = 0 then st
     else let s = ctrl_fault_severity b in
       if \<not> found \<or> best < s then (s, k, True) else st)"

definition ctrl_fault_top_code :: "u32 \<Rightarrow> nat" where
  "ctrl_fault_top_code faults =
     (if faults = 0 then 0
      else (case foldl (top_code_step faults) (CTRL_SEV_INFO, 0, False) [0..<32] of
              (best, best_bit, found) \<Rightarrow> best_bit + 1))"

section \<open>Classification lemmas\<close>

lemma masks_cover: "CTRL_FAULT_OPEN_MASK OR CTRL_FAULT_LIMP_MASK OR CTRL_FAULT_BLOCK_MASK
    OR CTRL_FAULT_WARN_MASK = CTRL_FAULT_ALL_MASK"
  by (simp add: fault_masks)

lemma masks_disjoint:
  "CTRL_FAULT_OPEN_MASK AND CTRL_FAULT_LIMP_MASK = 0" "CTRL_FAULT_OPEN_MASK AND CTRL_FAULT_BLOCK_MASK = 0"
  "CTRL_FAULT_OPEN_MASK AND CTRL_FAULT_WARN_MASK = 0" "CTRL_FAULT_LIMP_MASK AND CTRL_FAULT_BLOCK_MASK = 0"
  "CTRL_FAULT_LIMP_MASK AND CTRL_FAULT_WARN_MASK = 0" "CTRL_FAULT_BLOCK_MASK AND CTRL_FAULT_WARN_MASK = 0"
  by (simp_all add: fault_masks)

lemma word_and_or_zero: "(x OR y) AND m = 0 \<longleftrightarrow> x AND m = 0 \<and> y AND (m :: 'a::len word) = 0"
  by (simp add: bit_eq_iff bit_simps) blast

lemma word_and_or_mask_zero: "x AND (m OR n) = 0 \<longleftrightarrow> x AND m = 0 \<and> x AND (n :: 'a::len word) = 0"
  by (simp add: bit_eq_iff bit_simps) blast

text \<open>Adding faults never lowers the severity or the disposition.\<close>

lemma ctrl_fault_severity_mono: "ctrl_fault_severity f \<le> ctrl_fault_severity (f OR g)"
  by (auto simp: ctrl_fault_severity_def word_and_or_zero word_and_or_mask_zero severity_ord)

lemma ctrl_fault_disposition_mono: "ctrl_fault_disposition f \<le> ctrl_fault_disposition (f OR g)"
  by (auto simp: ctrl_fault_disposition_def word_and_or_zero disposition_ord)

lemma open_iff: "ctrl_fault_disposition f = CTRL_DISP_OPEN \<longleftrightarrow> f AND CTRL_FAULT_OPEN_MASK \<noteq> 0"
  by (simp add: ctrl_fault_disposition_def)

section \<open>The reported code\<close>

lemma and_push_bit: "(f :: u32) AND push_bit k 1 = (if bit f k then push_bit k 1 else 0)"
  by (rule bit_word_eqI) (auto simp: bit_simps)

lemma push_bit_nonzero: "k < 32 \<Longrightarrow> push_bit k 1 \<noteq> (0 :: u32)"
  by (simp add: bit_eq_iff bit_simps) auto

definition bit_severity :: "nat \<Rightarrow> ctrl_severity_t" where
  "bit_severity k = ctrl_fault_severity (push_bit k 1)"

lemma top_code_step_eq:
  assumes "k < 32"
  shows "top_code_step f (best, best_bit, found) k =
    (if bit f k \<and> (\<not> found \<or> best < bit_severity k) then (bit_severity k, k, True) else (best, best_bit, found))"
  using push_bit_nonzero [OF assms]
  unfolding top_code_step_def prod.case Let_def and_push_bit bit_severity_def by (cases "bit f k") auto

text \<open>The loop invariant after the bits below \<open>n\<close>.\<close>

lemma top_code_loop:
  assumes "n \<le> 32" and "foldl (top_code_step f) (CTRL_SEV_INFO, 0, False) [0..<n] = (best, k, found)"
  shows "(\<not> found \<longrightarrow> (\<forall>j<n. \<not> bit f j)) \<and>
    (found \<longrightarrow> k < n \<and> bit f k \<and> best = bit_severity k \<and>
       (\<forall>j<n. bit f j \<longrightarrow> bit_severity j \<le> best) \<and> (\<forall>j<k. bit f j \<longrightarrow> bit_severity j < best))"
  using assms
proof (induction n arbitrary: best k found)
  case (Suc n)
  obtain b' k' fd where st: "foldl (top_code_step f) (CTRL_SEV_INFO, 0, False) [0..<n] = (b', k', fd)"
    by (cases "foldl (top_code_step f) (CTRL_SEV_INFO, 0, False) [0..<n]") auto
  have IH: "(\<not> fd \<longrightarrow> (\<forall>j<n. \<not> bit f j)) \<and>
    (fd \<longrightarrow> k' < n \<and> bit f k' \<and> b' = bit_severity k' \<and>
       (\<forall>j<n. bit f j \<longrightarrow> bit_severity j \<le> b') \<and> (\<forall>j<k'. bit f j \<longrightarrow> bit_severity j < b'))"
    using Suc.prems(1) st by (intro Suc.IH) simp_all
  have step: "top_code_step f (b', k', fd) n = (best, k, found)"
    using Suc.prems(2) st by simp
  show ?case
  proof (cases "bit f n \<and> (\<not> fd \<or> b' < bit_severity n)")
    case True
    then have "best = bit_severity n" "k = n" "found"
      using step Suc.prems(1) by (auto simp: top_code_step_eq)
    with True IH show ?thesis by (fastforce simp: less_Suc_eq)
  next
    case False
    then have "best = b'" "k = k'" "found = fd"
      using step Suc.prems(1) by (auto simp: top_code_step_eq split: if_splits)
    with False IH show ?thesis by (auto simp: less_Suc_eq)
  qed
qed simp

lemma u32_nonzero_bit: "(f :: u32) \<noteq> 0 \<Longrightarrow> \<exists>j<32. bit f j"
  using bit_word_eqI [of f 0] by auto

lemma top_code_spec:
  assumes "f \<noteq> 0"
  obtains k where "ctrl_fault_top_code f = k + 1" "k < 32" "bit f k"
    "\<And>j. j < 32 \<Longrightarrow> bit f j \<Longrightarrow> bit_severity j \<le> bit_severity k"
    "\<And>j. j < k \<Longrightarrow> bit f j \<Longrightarrow> bit_severity j < bit_severity k"
proof -
  obtain best k found where st: "foldl (top_code_step f) (CTRL_SEV_INFO, 0, False) [0..<32] = (best, k, found)"
    by (cases "foldl (top_code_step f) (CTRL_SEV_INFO, 0, False) [0..<32]") auto
  note inv = top_code_loop [OF _ st]
  from u32_nonzero_bit [OF assms] inv have "found" by auto
  moreover have "ctrl_fault_top_code f = k + 1" using assms st by (simp add: ctrl_fault_top_code_def)
  ultimately show ?thesis using inv that by auto
qed

text \<open>The severity of a fault set is the highest severity of its bits.\<close>

lemma word_and_zero_bits: "(f :: u32) AND m = 0 \<longleftrightarrow> (\<forall>j<32. bit f j \<longrightarrow> \<not> bit m j)"
  by (auto simp: bit_eq_iff bit_simps)

lemma word_and_nonzero_bits: "(f :: u32) AND m \<noteq> 0 \<longleftrightarrow> (\<exists>j<32. bit f j \<and> bit m j)"
  by (auto simp: word_and_zero_bits)

lemma push_bit_and: "j < 32 \<Longrightarrow> push_bit j 1 AND (m :: u32) = 0 \<longleftrightarrow> \<not> bit m j"
  by (auto simp: word_and_zero_bits bit_simps)

lemma severity_bits:
  "ctrl_fault_severity f =
    (if \<exists>j<32. bit f j \<and> bit CTRL_FAULT_OPEN_MASK j then CTRL_SEV_CRITICAL
     else if \<exists>j<32. bit f j \<and> (bit CTRL_FAULT_LIMP_MASK j \<or> bit CTRL_FAULT_BLOCK_MASK j) then CTRL_SEV_FAULT
     else if \<exists>j<32. bit f j \<and> bit CTRL_FAULT_WARN_MASK j then CTRL_SEV_WARN else CTRL_SEV_INFO)"
  unfolding ctrl_fault_severity_def word_and_nonzero_bits bit_or_iff by (rule refl)

lemma bit_severity_bits:
  assumes "j < 32"
  shows "bit_severity j =
    (if bit CTRL_FAULT_OPEN_MASK j then CTRL_SEV_CRITICAL
     else if bit CTRL_FAULT_LIMP_MASK j \<or> bit CTRL_FAULT_BLOCK_MASK j then CTRL_SEV_FAULT
     else if bit CTRL_FAULT_WARN_MASK j then CTRL_SEV_WARN else CTRL_SEV_INFO)"
  unfolding bit_severity_def ctrl_fault_severity_def push_bit_and [OF assms] by (simp add: bit_simps)

lemma severity_of_bit: "j < 32 \<Longrightarrow> bit f j \<Longrightarrow> bit_severity j \<le> ctrl_fault_severity f"
  by (auto simp: bit_severity_bits severity_bits severity_ord)

lemma severity_attained:
  assumes "f \<noteq> 0"
  shows "\<exists>j<32. bit f j \<and> bit_severity j = ctrl_fault_severity f"
proof -
  obtain k where k: "k < 32" "bit f k" using u32_nonzero_bit [OF assms] by blast
  consider (o) "\<exists>j<32. bit f j \<and> bit CTRL_FAULT_OPEN_MASK j"
    | (l) "\<not> (\<exists>j<32. bit f j \<and> bit CTRL_FAULT_OPEN_MASK j)"
        "\<exists>j<32. bit f j \<and> (bit CTRL_FAULT_LIMP_MASK j \<or> bit CTRL_FAULT_BLOCK_MASK j)"
    | (w) "\<not> (\<exists>j<32. bit f j \<and> bit CTRL_FAULT_OPEN_MASK j)"
        "\<not> (\<exists>j<32. bit f j \<and> (bit CTRL_FAULT_LIMP_MASK j \<or> bit CTRL_FAULT_BLOCK_MASK j))"
    by blast
  then show ?thesis
  proof cases
    case o
    then show ?thesis by (auto simp: bit_severity_bits severity_bits)
  next
    case l
    then obtain j where "j < 32" "bit f j" "bit CTRL_FAULT_LIMP_MASK j \<or> bit CTRL_FAULT_BLOCK_MASK j" by blast
    with l have "bit_severity j = ctrl_fault_severity f"
      by (simp only: bit_severity_bits severity_bits) auto
    with \<open>j < 32\<close> \<open>bit f j\<close> show ?thesis by blast
  next
    case w
    show ?thesis
    proof (cases "\<exists>j<32. bit f j \<and> bit CTRL_FAULT_WARN_MASK j")
      case True
      then obtain j where "j < 32" "bit f j" "bit CTRL_FAULT_WARN_MASK j" by blast
      with w have "bit_severity j = ctrl_fault_severity f"
        by (simp only: bit_severity_bits severity_bits) auto
      with \<open>j < 32\<close> \<open>bit f j\<close> show ?thesis by blast
    next
      case False
      with w k have "bit_severity k = ctrl_fault_severity f"
        by (simp only: bit_severity_bits severity_bits) auto
      with k show ?thesis by blast
    qed
  qed
qed

lemma top_code_severity:
  assumes "f \<noteq> 0"
  shows "ctrl_fault_severity (push_bit (ctrl_fault_top_code f - 1) 1) = ctrl_fault_severity f"
proof -
  obtain k where k: "ctrl_fault_top_code f = k + 1" "k < 32" "bit f k"
    "\<And>j. j < 32 \<Longrightarrow> bit f j \<Longrightarrow> bit_severity j \<le> bit_severity k"
    using top_code_spec [OF assms] by metis
  obtain j where j: "j < 32" "bit f j" "bit_severity j = ctrl_fault_severity f"
    using severity_attained [OF assms] by blast
  have "bit_severity k = ctrl_fault_severity f"
    using k(4) [OF j(1,2)] j(3) severity_of_bit [OF k(2,3)] by (simp add: antisym)
  then show ?thesis by (simp add: k(1) bit_severity_def)
qed

lemma top_code_range: "f \<noteq> 0 \<Longrightarrow> 1 \<le> ctrl_fault_top_code f \<and> ctrl_fault_top_code f \<le> 32"
  by (erule top_code_spec) simp

lemma top_code_zero: "ctrl_fault_top_code f = 0 \<longleftrightarrow> f = 0"
  using top_code_range [of f] by (auto simp: ctrl_fault_top_code_def)


section \<open>Properties\<close>

text \<open>Every declared fault bit, 0 to 18, is in exactly one of the four
  disposition masks, and no mask has a bit outside them.\<close>

theorem masks_partition:
  "CTRL_FAULT_ALL_MASK = mask 19 \<and>
   CTRL_FAULT_OPEN_MASK OR CTRL_FAULT_LIMP_MASK OR CTRL_FAULT_BLOCK_MASK OR CTRL_FAULT_WARN_MASK = CTRL_FAULT_ALL_MASK \<and>
   CTRL_FAULT_OPEN_MASK AND CTRL_FAULT_LIMP_MASK = 0 \<and> CTRL_FAULT_OPEN_MASK AND CTRL_FAULT_BLOCK_MASK = 0 \<and>
   CTRL_FAULT_OPEN_MASK AND CTRL_FAULT_WARN_MASK = 0 \<and> CTRL_FAULT_LIMP_MASK AND CTRL_FAULT_BLOCK_MASK = 0 \<and>
   CTRL_FAULT_LIMP_MASK AND CTRL_FAULT_WARN_MASK = 0 \<and> CTRL_FAULT_BLOCK_MASK AND CTRL_FAULT_WARN_MASK = 0"
  by (simp add: masks_cover masks_disjoint) (simp add: CTRL_FAULT_ALL_MASK_def mask_eq_exp_minus_1)

text \<open>Severity and disposition of a union of fault sets are the maximum of
  the two: the classification is determined by the single bits, adding faults never lowers
  it, and the worst fault decides.\<close>

theorem classification_max:
  "ctrl_fault_severity (f OR g) = max (ctrl_fault_severity f) (ctrl_fault_severity g) \<and>
   ctrl_fault_disposition (f OR g) = max (ctrl_fault_disposition f) (ctrl_fault_disposition g)"
  by (auto simp: ctrl_fault_severity_def ctrl_fault_disposition_def word_and_or_zero word_and_or_mask_zero
      severity_ord disposition_ord max_def)

text \<open>The reported code of a non-empty fault set is one plus the index of an
  active bit that has the severity of the whole set, and no lower active bit has that
  severity: highest severity first, ties to the lowest code, for all 2^32 fault words.\<close>

theorem top_code_selects:
  assumes "faults \<noteq> 0"
  shows "1 \<le> ctrl_fault_top_code faults \<and> ctrl_fault_top_code faults \<le> 32 \<and>
    bit faults (ctrl_fault_top_code faults - 1) \<and>
    ctrl_fault_severity (push_bit (ctrl_fault_top_code faults - 1) 1) = ctrl_fault_severity faults \<and>
    list_all (\<lambda>j. \<not> bit faults j \<or> ctrl_fault_severity (push_bit j 1) < ctrl_fault_severity faults)
      [0..<ctrl_fault_top_code faults - 1]"
proof -
  obtain k where k: "ctrl_fault_top_code faults = k + 1" "k < 32" "bit faults k"
    "\<And>j. j < k \<Longrightarrow> bit faults j \<Longrightarrow> bit_severity j < bit_severity k"
    using top_code_spec [OF assms] by metis
  have s: "ctrl_fault_severity (push_bit k 1) = ctrl_fault_severity faults"
    using top_code_severity [OF assms] by (simp add: k(1))
  with k show ?thesis by (auto simp: list_all_iff bit_severity_def)
qed

text \<open>Overspeed, a BMS loss and a warning together: the code reported is a critical one.\<close>

theorem top_code_selects_witness:
  "(0x1030 :: u32) \<noteq> 0 \<and> bit (0x1030 :: u32) (ctrl_fault_top_code 0x1030 - 1) \<and>
   ctrl_fault_severity (push_bit (ctrl_fault_top_code 0x1030 - 1) 1) = CTRL_SEV_CRITICAL"
proof -
  have "ctrl_fault_severity 0x1030 = CTRL_SEV_CRITICAL" by (simp add: ctrl_fault_severity_def fault_masks)
  then show ?thesis using top_code_selects [of "0x1030"] by simp
qed

end
