(* ===== verification/Field.thy ===== *)
theory Field
  imports Samples
begin

text \<open>
  Field output, \<open>control/Src/field.c\<close> and \<open>control/Inc/field.h\<close>: the rotor-protection duty
  clamp, the effort-to-duty mapping, run detection, and the guard that vets the supply
  voltage the clamp divides by. The lemmas bound the duty for every input, bound the rotor
  voltage the duty can produce, and show that the guard only ever tightens: it never reports
  less than a finite reading, less than the 3.2 V/cell floor, or, while a drop is distrusted,
  less than the last trusted level.
\<close>

section \<open>Constants\<close>

definition CTRL_RUN_DETECT_EFFORT :: f32 where "CTRL_RUN_DETECT_EFFORT = flit (5 / 100)"
definition CTRL_RUN_PROBE_PERIOD_MS :: u32 where "CTRL_RUN_PROBE_PERIOD_MS = 500"
definition CTRL_RUN_PROBE_ON_MS :: u32 where "CTRL_RUN_PROBE_ON_MS = 50"
definition CTRL_VSUP_MAX_VCELL :: f32 where "CTRL_VSUP_MAX_VCELL = flit 4"
definition CTRL_VSUP_MIN_VCELL :: f32 where "CTRL_VSUP_MIN_VCELL = flit 2"
definition CTRL_VSUP_FLOOR_VCELL :: f32 where "CTRL_VSUP_FLOOR_VCELL = flit (32 / 10)"
definition CTRL_VSUP_STEP_FRAC :: f32 where "CTRL_VSUP_STEP_FRAC = flit (4 / 100)"
definition CTRL_VSUP_DISTRUST_MAX_MS :: u32 where "CTRL_VSUP_DISTRUST_MAX_MS = 300000"

section \<open>Duty clamp\<close>

definition rotor_voltage :: "ctrl_globals_t \<Rightarrow> f32" where
  "rotor_voltage g = (if isnan (g_rotor_v_max g) then g_rotor_rated_v g else g_rotor_v_max g)"

definition ctrl_duty_max :: "ctrl_globals_t \<Rightarrow> f32 \<Rightarrow> f32" where
  "ctrl_duty_max g v_supply_v =
     (if g_allow_full_field_48v g then 1
      else let rotor_v = rotor_voltage g in
        if \<not> 0 < v_supply_v \<or> \<not> isfinite rotor_v \<or> \<not> 0 < rotor_v then 0
        else let dm = rotor_v / v_supply_v;
                 dm = (if \<not> 0 < dm then 0 else dm)
             in if 1 < dm then 1 else dm)"

definition ctrl_effort_to_duty :: "f32 \<Rightarrow> f32 \<Rightarrow> f32" where
  "ctrl_effort_to_duty effort duty_max =
     (let effort = (if \<not> 0 < effort then 0 else effort);
          effort = (if 1 < effort then 1 else effort)
      in effort * duty_max)"

definition ctrl_run_detected :: "ctrl_measured_t \<Rightarrow> bool" where
  "ctrl_run_detected m \<longleftrightarrow>
     (if m_run_state m = CTRL_RUN_RUNNING then True
      else m_rpm_state m \<noteq> CTRL_RPM_LOST \<and> isfinite (m_rpm m) \<and> 0 < m_rpm m)"

section \<open>Supply guard\<close>

definition ctrl_vsup_guard_init :: ctrl_vsup_guard_t where
  "ctrl_vsup_guard_init = \<lparr>fg_v_track = NAN, fg_distrust_ms = 0\<rparr>"

text \<open>\<open>cells ? (float)cells : 16.0f\<close> and the three levels computed from it.\<close>

definition vsup_cells :: "u8 \<Rightarrow> f32" where
  "vsup_cells cells = (if cells \<noteq> 0 then float_u8 cells else flit 16)"

definition vsup_hi :: "u8 \<Rightarrow> f32" where "vsup_hi cells = CTRL_VSUP_MAX_VCELL * vsup_cells cells"
definition vsup_lo :: "u8 \<Rightarrow> f32" where "vsup_lo cells = CTRL_VSUP_MIN_VCELL * vsup_cells cells"
definition vsup_floor :: "u8 \<Rightarrow> f32" where "vsup_floor cells = CTRL_VSUP_FLOOR_VCELL * vsup_cells cells"

definition vsup_reading :: "f32 \<Rightarrow> f32 \<Rightarrow> f32" where
  "vsup_reading v_supply_v vbat_pack_v =
     (if isfinite vbat_pack_v \<and> (\<not> isfinite v_supply_v \<or> v_supply_v < vbat_pack_v)
      then vbat_pack_v else v_supply_v)"

definition vsup_trip :: "f32 \<Rightarrow> f32" where
  "vsup_trip track = track * (1 - CTRL_VSUP_STEP_FRAC)"

text \<open>The result triple: the guard state, the clamp voltage and the flag \<open>*implausible\<close>.\<close>

definition ctrl_vsup_guard ::
    "ctrl_vsup_guard_t \<Rightarrow> f32 \<Rightarrow> f32 \<Rightarrow> u8 \<Rightarrow> u32 \<Rightarrow> ctrl_vsup_guard_t \<times> f32 \<times> bool" where
  "ctrl_vsup_guard fg v_supply_v vbat_pack_v cells dt_ms =
     (let v = vsup_reading v_supply_v vbat_pack_v in
      if \<not> isfinite v then (fg, NAN, False)
      else let v_hi = vsup_hi cells; v_lo = vsup_lo cells; v_floor = vsup_floor cells in
        if v < v_lo then
          let r = (if v_lo \<le> fg_v_track fg then fg_v_track fg else v_hi)
          in (fg, if r < v_floor then v_floor else r, True)
        else
          let fg = (if isnan (fg_v_track fg)
                    then fg\<lparr>fg_v_track := (if v < v_hi then v else v_hi)\<rparr> else fg);
              (fg, implausible) =
                (if vsup_trip (fg_v_track fg) \<le> v
                 then (fg\<lparr>fg_v_track := (if v < v_hi then v else v_hi), fg_distrust_ms := 0\<rparr>, False)
                 else let fg = fg\<lparr>fg_distrust_ms := fg_distrust_ms fg + dt_ms\<rparr> in
                   (if CTRL_VSUP_DISTRUST_MAX_MS \<le> fg_distrust_ms fg
                    then fg\<lparr>fg_v_track := v, fg_distrust_ms := 0\<rparr> else fg, True));
              r = (if fg_v_track fg < v then v else fg_v_track fg)
          in (fg, if r < v_floor then v_floor else r, implausible))"

section \<open>Bounds of the duty\<close>

lemma duty_max_bounds [fp_intros]: "0 \<le> ctrl_duty_max g v" "ctrl_duty_max g v \<le> 1"
proof -
  have nn: "\<not> isnan (r / v)" if "isfinite r" "0 < r" "0 < v" for r
    using f32_divide_nonneg [OF that(2,1,3)] f32_le_not_nan by blast
  show "0 \<le> ctrl_duty_max g v" "ctrl_duty_max g v \<le> 1"
    using nn by (auto simp: ctrl_duty_max_def Let_def f32_order)
qed

lemma duty_max_finite [fp_intros]: "isfinite (ctrl_duty_max g v)"
  by (rule isfinite_between [OF duty_max_bounds]) simp_all

lemma effort_to_duty_bounds [fp_intros]:
  assumes "0 \<le> dm" "isfinite dm"
  shows "0 \<le> ctrl_effort_to_duty e dm" "ctrl_effort_to_duty e dm \<le> dm"
proof -
  define e' where "e' = (let e = (if \<not> 0 < e then 0 else e) in if 1 < e then 1 else e)"
  have "0 \<le> e'" "e' \<le> 1" by (auto simp: e'_def Let_def f32_order)
  moreover have "ctrl_effort_to_duty e dm = e' * dm" by (simp add: ctrl_effort_to_duty_def e'_def Let_def)
  ultimately show "0 \<le> ctrl_effort_to_duty e dm" "ctrl_effort_to_duty e dm \<le> dm"
    using assms by (simp_all add: f32_times_scale)
qed

text \<open>
  The clamp protects the rotor: on a finite supply the duty times the supply exceeds the
  permitted rotor voltage by at most the error of one division.
\<close>

lemma duty_max_rotor:
  assumes "\<not> g_allow_full_field_48v g" "isfinite v" "0 < v"
    and r: "isfinite (rotor_voltage g)" "0 < rotor_voltage g"
  shows "fval (ctrl_duty_max g v) * fval v \<le>
    fval (rotor_voltage g) * (1 + 2 powi (-24)) + 2 powi (-150) * fval v"
proof -
  obtain s a where ra: "fpv (rotor_voltage g) = FpFin s a" "0 < a" "fval (rotor_voltage g) = a"
    using r by (rule pos_fin_cases)
  obtain t b where vb: "fpv v = FpFin t b" "0 < b" "fval v = b" using assms(2,3) by (rule pos_fin_cases)
  define q where "q = round_rat single_fmt (a / b)"
  have q: "0 \<le> q" unfolding q_def using ra vb by (intro r32.nonneg) simp
  have "q \<le> a / b + (2 powi (-24) * \<bar>a / b\<bar> + 2 powi (-150))"
    using round_single_error [of "a / b"] by (simp add: q_def abs_le_iff)
  then have "q * b \<le> (a / b + (2 powi (-24) * \<bar>a / b\<bar> + 2 powi (-150))) * b"
    using vb(2) by (intro mult_right_mono) auto
  also have "\<dots> = a * (1 + 2 powi (-24)) + 2 powi (-150) * b"
    using vb(2) ra(2) by (simp add: distrib_right distrib_left abs_of_pos)
  finally have qb: "q * b \<le> a * (1 + 2 powi (-24)) + 2 powi (-150) * b" .
  let ?d = "rotor_voltage g / v"
  have "fval (ctrl_duty_max g v) \<le> q"
  proof (cases "isfinite ?d")
    case True
    then have d: "fval ?d = q"
      by (auto simp: isfinite_def fp_finite_def fval_def fkey_def fp_simps ra vb fp_round_def Let_def q_def
          split: if_splits)
    from True d q assms ra vb show ?thesis
      by (auto simp: ctrl_duty_max_def Let_def fval_less)
  next
    case False
    have "(2 :: rat) powi 128 \<le> \<bar>q\<bar>"
    proof (rule ccontr)
      assume "\<not> (2 :: rat) powi 128 \<le> \<bar>q\<bar>"
      then have "fpv ?d = FpFin (if a / b = 0 then s \<noteq> t else a / b < 0) q"
        using ra vb by (simp add: fp_simps q_def fp_round_finite not_le del: power_int_numeral)
      with False show False by (simp add: isfinite_def fp_finite_def)
    qed
    moreover have "(1 :: rat) \<le> 2 powi 128" by simp
    ultimately have "1 \<le> q" using q by linarith
    moreover have "fval (ctrl_duty_max g v) \<le> 1"
      using duty_max_bounds duty_max_finite by (metis fval_consts(2) fval_le isfinite_consts(4))
    ultimately show ?thesis by linarith
  qed
  then have "fval (ctrl_duty_max g v) * b \<le> q * b" using vb(2) by (intro mult_right_mono) auto
  then show ?thesis unfolding ra(3) vb(3) using qb by (rule order_trans)
qed

text \<open>
  The voltage the rotor sees, at any voltage up to the clamp voltage, and for any duty within
  the clamp: the rating plus the rounding error of one division.
\<close>

definition rotor_slack :: "f32 \<Rightarrow> rat" where
  "rotor_slack rotor_v = fval rotor_v * 2 powi (-24) + 2 powi (-22)"

lemma duty_max_inf: "\<not> g_allow_full_field_48v g \<Longrightarrow> \<not> isfinite v \<Longrightarrow> ctrl_duty_max g v \<le> 0"
proof -
  assume a: "\<not> g_allow_full_field_48v g" "\<not> isfinite v"
  show ?thesis
  proof (cases "0 < v \<and> isfinite (rotor_voltage g) \<and> 0 < rotor_voltage g")
    case True
    then have "\<exists>t. fpv v = FpInf t"
      using a(2) by (cases "fpv v") (auto simp: isfinite_def fp_finite_def f32_order isnan_def)
    moreover obtain s r where "fpv (rotor_voltage g) = FpFin s r" using True by (metis isfinite_obtain)
    ultimately have "\<not> 0 < rotor_voltage g / v" by (auto simp: f32_order fkey_def fp_simps)
    then show ?thesis using a True by (simp add: ctrl_duty_max_def Let_def)
  qed (use a in \<open>auto simp: ctrl_duty_max_def Let_def\<close>)
qed

lemma rotor_exposure:
  assumes "\<not> g_allow_full_field_48v g" "isfinite (rotor_voltage g)" "0 < rotor_voltage g"
    and x: "isfinite x" "0 \<le> x" "x \<le> v"
    and d: "0 \<le> d" "d \<le> ctrl_duty_max g v"
  shows "fval d * fval x \<le> fval (rotor_voltage g) + rotor_slack (rotor_voltage g)"
proof -
  have fd: "isfinite d" using d duty_max_finite by (rule isfinite_between [OF _ _ isfinite_consts(3)])
  have dv: "fval d \<le> fval (ctrl_duty_max g v)" "0 \<le> fval d"
    using d fd duty_max_finite by (simp_all add: fval_le)
  have rv: "0 < fval (rotor_voltage g)" using assms(2,3) by (simp add: fval_less)
  have x0: "0 \<le> fval x" using x by (simp add: fval_le)
  show ?thesis
  proof (cases "isfinite v")
    case False
    then have "fval (ctrl_duty_max g v) \<le> 0"
      using duty_max_inf [OF assms(1) False] duty_max_finite by (simp add: fval_le)
    with dv have "fval d = 0" by linarith
    then show ?thesis using rv by (simp add: rotor_slack_def)
  next
    case True
    have xv: "fval x \<le> fval v" using x True by (simp add: fval_le)
    show ?thesis
    proof (cases "0 < v")
      case False
      then have "fval v \<le> 0" using True by (simp add: fval_less)
      with xv x0 have "fval x = 0" by linarith
      then show ?thesis using rv by (simp add: rotor_slack_def)
    next
      case pos: True
      have "fval d * fval x \<le> fval (ctrl_duty_max g v) * fval v"
        using dv xv x0 by (intro mult_mono) auto
      also have "\<dots> \<le> fval (rotor_voltage g) * (1 + 2 powi (-24)) + 2 powi (-150) * fval v"
        using assms(1) True pos assms(2,3) by (rule duty_max_rotor)
      also have "2 powi (-150) * fval v \<le> 2 powi (-150) * (2 powi 128 :: rat)"
        using fval_bound [OF True] by (intro mult_left_mono) auto
      also have "\<dots> = 2 powi (-22)" by (simp flip: power_int_add)
      finally show ?thesis by (simp add: rotor_slack_def distrib_left add.assoc)
    qed
  qed
qed

section \<open>Levels of the supply guard\<close>

lemma cells_value: "fval (vsup_cells cells) = of_int (if cells \<noteq> 0 then uint cells else 16)"
    and cells_finite [simp]: "isfinite (vsup_cells cells)"
    and cells_pos: "0 < vsup_cells cells"
proof -
  define n where "n = (if cells \<noteq> 0 then uint cells else 16)"
  have n: "0 < n" "n < 256"
    using uint_lt2p [of cells] by (auto simp: n_def word_uint_eq_iff order_less_le)
  have c: "vsup_cells cells = float_of_int n"
    by (simp add: vsup_cells_def n_def float_u8_def float_of_int_def)
  then show "fval (vsup_cells cells) = of_int n" "isfinite (vsup_cells cells)"
    using n by (simp_all add: float_of_int_exact)
  then show "0 < vsup_cells cells" using n by (simp add: fval_less)
qed

lemma vcell_consts [simp]:
  "isfinite CTRL_VSUP_MAX_VCELL" "isfinite CTRL_VSUP_MIN_VCELL" "isfinite CTRL_VSUP_FLOOR_VCELL"
  "0 \<le> CTRL_VSUP_MIN_VCELL" "0 \<le> CTRL_VSUP_FLOOR_VCELL"
  "CTRL_VSUP_MIN_VCELL \<le> CTRL_VSUP_MAX_VCELL" "CTRL_VSUP_FLOOR_VCELL \<le> CTRL_VSUP_MAX_VCELL"
  "CTRL_VSUP_MIN_VCELL \<le> CTRL_VSUP_FLOOR_VCELL"
  by code_simp+

lemma vsup_hi_finite [simp]: "isfinite (vsup_hi cells)"
proof -
  have "isfinite (flit 4 * vsup_cells cells)"
  proof (rule times_int_exact(1) [where i = 4 and j = "if cells \<noteq> 0 then uint cells else 16"])
    show "\<bar>4 * (if cells \<noteq> 0 then uint cells else 16)\<bar> < 2 ^ 24"
      using uint_lt2p [of cells] by auto
    show "fval (flit 4) = of_int 4" "isfinite (flit 4)"
      using float_of_int_exact [of 4] by (simp_all add: float_of_int_def)
  qed (rule cells_value, rule cells_finite)
  then show ?thesis by (simp add: vsup_hi_def CTRL_VSUP_MAX_VCELL_def)
qed

lemma vsup_levels: "vsup_lo cells \<le> vsup_hi cells" "vsup_floor cells \<le> vsup_hi cells" "vsup_lo cells \<le> vsup_floor cells"
  unfolding vsup_lo_def vsup_hi_def vsup_floor_def
  by (intro times_mono f32_less_imp_le [OF cells_pos]; simp)+

lemma vsup_nonneg: "0 \<le> vsup_lo cells" "0 \<le> vsup_floor cells"
  unfolding vsup_lo_def vsup_floor_def
  by (intro times_nonneg times_fin_not_nan f32_less_imp_le [OF cells_pos]; simp)+

lemma vsup_finite [simp]: "isfinite (vsup_lo cells)" "isfinite (vsup_floor cells)"
  using isfinite_between [OF vsup_nonneg(1) vsup_levels(1)] isfinite_between [OF vsup_nonneg(2) vsup_levels(2)]
  by simp_all

lemmas vsup_not_nan [simp] = isfinite_not_nan [OF vsup_hi_finite] isfinite_not_nan [OF vsup_finite(1)]
  isfinite_not_nan [OF vsup_finite(2)]

section \<open>The guard only tightens\<close>

text \<open>The track is unseeded or inside the plausibility band.\<close>

definition guard_inv :: "u8 \<Rightarrow> ctrl_vsup_guard_t \<Rightarrow> bool" where
  "guard_inv cells fg \<longleftrightarrow> isnan (fg_v_track fg) \<or>
     vsup_lo cells \<le> fg_v_track fg \<and> fg_v_track fg \<le> vsup_hi cells"

lemma guard_init_inv [simp]: "guard_inv cells ctrl_vsup_guard_init"
  by (simp add: guard_inv_def ctrl_vsup_guard_init_def)

lemma trip_le:
  assumes "guard_inv cells fg" "\<not> isnan (fg_v_track fg)"
  shows "vsup_trip (fg_v_track fg) \<le> fg_v_track fg"
proof -
  have b: "vsup_lo cells \<le> fg_v_track fg" "fg_v_track fg \<le> vsup_hi cells"
    using assms by (simp_all add: guard_inv_def)
  have t: "0 \<le> fg_v_track fg" using vsup_nonneg(1) b(1) by (rule f32_le_trans)
  have f: "isfinite (fg_v_track fg)" using b by (rule isfinite_between) simp_all
  have "0 \<le> 1 - CTRL_VSUP_STEP_FRAC" "1 - CTRL_VSUP_STEP_FRAC \<le> 1" by code_simp+
  then have "(1 - CTRL_VSUP_STEP_FRAC) * fg_v_track fg \<le> fg_v_track fg" using t f by (rule f32_times_scale)
  then show ?thesis by (simp add: vsup_trip_def f32_times_commute)
qed

text \<open>The cases of the guard, on a finite reading with the track seeded.\<close>

definition vsup_seed :: "u8 \<Rightarrow> f32 \<Rightarrow> ctrl_vsup_guard_t \<Rightarrow> f32" where
  "vsup_seed cells v fg =
     (if isnan (fg_v_track fg) then (if v < vsup_hi cells then v else vsup_hi cells) else fg_v_track fg)"

lemma guard_low:
  assumes "isfinite v" "v < vsup_lo cells" "v = vsup_reading a b"
  shows "ctrl_vsup_guard fg a b cells dt =
    (fg, let r = (if vsup_lo cells \<le> fg_v_track fg then fg_v_track fg else vsup_hi cells)
         in if r < vsup_floor cells then vsup_floor cells else r, True)"
  using assms by (simp add: ctrl_vsup_guard_def Let_def)

lemma guard_follow:
  assumes "isfinite v" "\<not> v < vsup_lo cells" "v = vsup_reading a b" "vsup_trip (vsup_seed cells v fg) \<le> v"
  shows "ctrl_vsup_guard fg a b cells dt =
    (let t = (if v < vsup_hi cells then v else vsup_hi cells); r = (if t < v then v else t)
     in (\<lparr>fg_v_track = t, fg_distrust_ms = 0\<rparr>, if r < vsup_floor cells then vsup_floor cells else r, False))"
proof (cases fg)
  case (fields t d)
  then show ?thesis using assms(1,2,4)
    by (cases "isnan t"; simp add: ctrl_vsup_guard_def vsup_seed_def Let_def assms(3) [symmetric] cong: if_cong split del: if_split)
qed

lemma guard_distrust:
  assumes "isfinite v" "\<not> v < vsup_lo cells" "v = vsup_reading a b" "\<not> vsup_trip (vsup_seed cells v fg) \<le> v"
  shows "ctrl_vsup_guard fg a b cells dt =
    (let d = fg_distrust_ms fg + dt;
         fg' = (if CTRL_VSUP_DISTRUST_MAX_MS \<le> d then \<lparr>fg_v_track = v, fg_distrust_ms = 0\<rparr>
                else \<lparr>fg_v_track = vsup_seed cells v fg, fg_distrust_ms = d\<rparr>);
         r = (if fg_v_track fg' < v then v else fg_v_track fg')
     in (fg', if r < vsup_floor cells then vsup_floor cells else r, True))"
proof (cases fg)
  case (fields t d)
  then show ?thesis using assms(1,2,4)
    by (cases "isnan t"; simp add: ctrl_vsup_guard_def vsup_seed_def Let_def assms(3) [symmetric] cong: if_cong split del: if_split)
qed

lemma seed_inv:
  assumes "isfinite v" "vsup_lo cells \<le> v" "guard_inv cells fg"
  shows "vsup_lo cells \<le> vsup_seed cells v fg" "vsup_seed cells v fg \<le> vsup_hi cells"
  using assms vsup_levels(1) [of cells]
  by (auto simp: vsup_seed_def guard_inv_def f32_order)

lemma guard_preserves:
  assumes "guard_inv cells fg"
  shows "guard_inv cells (fst (ctrl_vsup_guard fg a b cells dt))"
proof -
  define v where v: "v = vsup_reading a b"
  consider "\<not> isfinite v" | (low) "isfinite v" "v < vsup_lo cells"
    | (follow) "isfinite v" "\<not> v < vsup_lo cells" "vsup_trip (vsup_seed cells v fg) \<le> v"
    | (dis) "isfinite v" "\<not> v < vsup_lo cells" "\<not> vsup_trip (vsup_seed cells v fg) \<le> v" by blast
  then show ?thesis
  proof cases
    case 1
    then show ?thesis using assms by (simp add: ctrl_vsup_guard_def v)
  next
    case low
    then show ?thesis using assms guard_low [OF low v] by (simp add: Let_def)
  next
    case follow
    then have "vsup_lo cells \<le> v" by (simp add: f32_not_less isfinite_not_nan)
    with follow show ?thesis unfolding guard_follow [OF follow(1,2) v follow(3)]
      using vsup_levels(1) [of cells] by (auto simp: guard_inv_def Let_def f32_order)
  next
    case dis
    then have lo: "vsup_lo cells \<le> v" by (simp add: f32_not_less isfinite_not_nan)
    note seed = seed_inv [OF dis(1) lo assms]
    have sd: "guard_inv cells \<lparr>fg_v_track = vsup_seed cells v fg, fg_distrust_ms = 0\<rparr>"
      "\<not> isnan (vsup_seed cells v fg)"
      using seed by (auto simp: guard_inv_def f32_order)
    have "vsup_trip (vsup_seed cells v fg) \<le> vsup_seed cells v fg"
      using trip_le [OF sd(1)] sd(2) by simp
    then have "v < vsup_seed cells v fg"
      using dis(1,3) f32_le_trans f32_not_le isfinite_not_nan f32_le_not_nan
      by (meson f32_less_le_trans)
    with seed lo show ?thesis unfolding guard_distrust [OF dis(1,2) v dis(3)]
      by (auto simp: guard_inv_def Let_def f32_order)
  qed
qed

text \<open>Whatever the history, the clamp voltage is at least every finite reading and at least the floor.\<close>

lemma guard_tight:
  assumes "isfinite (vsup_reading a b)"
  shows "vsup_reading a b \<le> fst (snd (ctrl_vsup_guard fg a b cells dt))"
    and "vsup_floor cells \<le> fst (snd (ctrl_vsup_guard fg a b cells dt))"
proof -
  define v where v: "v = vsup_reading a b"
  have nv: "\<not> isnan v" using assms(1) by (simp add: v isfinite_not_nan)
  have r: "v \<le> (if r < vsup_floor cells then vsup_floor cells else r)"
    "vsup_floor cells \<le> (if r < vsup_floor cells then vsup_floor cells else r)" if "v \<le> r" for r
    using that vsup_not_nan(3) [of cells] by (auto simp: f32_order simp del: vsup_not_nan)
  have mx: "v \<le> (if t < v then v else t)" if "\<not> isnan t" for t
    using that nv by (auto simp: f32_order)
  have seed: "\<not> isnan (vsup_seed cells v fg)" using nv by (simp add: vsup_seed_def)
  have "v \<le> fst (snd (ctrl_vsup_guard fg a b cells dt)) \<and> vsup_floor cells \<le> fst (snd (ctrl_vsup_guard fg a b cells dt))"
  proof (cases "v < vsup_lo cells")
    case True
    then have "v \<le> (if vsup_lo cells \<le> fg_v_track fg then fg_v_track fg else vsup_hi cells)"
      using vsup_levels(1) [of cells] by (auto intro: f32_less_imp_le f32_less_le_trans)
    from r [OF this] show ?thesis using assms(1) True by (simp add: guard_low v Let_def)
  next
    case False
    show ?thesis
    proof (cases "vsup_trip (vsup_seed cells v fg) \<le> v")
      case True
      have "\<not> isnan (if v < vsup_hi cells then v else vsup_hi cells)" using nv by simp
      from r [OF mx [OF this]] show ?thesis
        unfolding guard_follow [OF assms [folded v] False v True] by (simp add: Let_def)
    next
      case 2: False
      have "\<not> isnan (fg_v_track (if CTRL_VSUP_DISTRUST_MAX_MS \<le> fg_distrust_ms fg + dt
        then \<lparr>fg_v_track = v, fg_distrust_ms = 0\<rparr>
        else \<lparr>fg_v_track = vsup_seed cells v fg, fg_distrust_ms = fg_distrust_ms fg + dt\<rparr>))"
        using nv seed by simp
      from r [OF mx [OF this]] show ?thesis
        unfolding guard_distrust [OF assms [folded v] False v 2] Let_def by simp
    qed
  qed
  then show "vsup_reading a b \<le> fst (snd (ctrl_vsup_guard fg a b cells dt))"
    "vsup_floor cells \<le> fst (snd (ctrl_vsup_guard fg a b cells dt))" by (simp_all add: v)
qed

lemma reading_ge:
  "isfinite a \<Longrightarrow> a \<le> vsup_reading a b" "isfinite b \<Longrightarrow> b \<le> vsup_reading a b"
  "isfinite (vsup_reading a b) \<longleftrightarrow> isfinite a \<or> isfinite b"
  by (auto simp: vsup_reading_def f32_order isfinite_not_nan)

lemma guard_nan: "\<not> isfinite a \<Longrightarrow> \<not> isfinite b \<Longrightarrow> ctrl_vsup_guard fg a b cells dt = (fg, NAN, False)"
  by (simp add: ctrl_vsup_guard_def reading_ge)

text \<open>
  While a drop is distrusted and the hold has not run out, the clamp voltage stays at or
  above the last trusted level and the guard keeps that level.
\<close>

lemma guard_holds:
  assumes "guard_inv cells fg" "\<not> isnan (fg_v_track fg)"
    and "isfinite (vsup_reading a b)" "vsup_reading a b < vsup_trip (fg_v_track fg)"
    and "fg_distrust_ms fg + dt < CTRL_VSUP_DISTRUST_MAX_MS"
  shows "fg_v_track fg \<le> fst (snd (ctrl_vsup_guard fg a b cells dt))"
    and "fg_v_track (fst (ctrl_vsup_guard fg a b cells dt)) = fg_v_track fg"
    and "snd (snd (ctrl_vsup_guard fg a b cells dt))"
proof -
  define v where v: "v = vsup_reading a b"
  have seed: "vsup_seed cells v fg = fg_v_track fg" using assms(2) by (simp add: vsup_seed_def)
  have tr: "\<not> vsup_trip (fg_v_track fg) \<le> v" using assms(4) by (simp add: v f32_less_asym)
  have lt: "\<not> fg_v_track fg < v"
    using assms(4) trip_le [OF assms(1,2)] by (auto simp: v f32_order)
  have g: "ctrl_vsup_guard fg a b cells dt = (fst (ctrl_vsup_guard fg a b cells dt), fst (snd (ctrl_vsup_guard fg a b cells dt)), True) \<and>
    fg_v_track (fst (ctrl_vsup_guard fg a b cells dt)) = fg_v_track fg \<and>
    fg_v_track fg \<le> fst (snd (ctrl_vsup_guard fg a b cells dt))"
  proof (cases "v < vsup_lo cells")
    case True
    show ?thesis unfolding guard_low [OF assms(3) [folded v] True v] using assms(1,2)
      by (auto simp: Let_def guard_inv_def f32_order)
  next
    case False
    show ?thesis unfolding guard_distrust [OF assms(3) [folded v] False v, where fg = fg, unfolded seed, OF tr]
      using assms(2,5) lt by (auto simp: Let_def f32_order)
  qed
  then show "fg_v_track fg \<le> fst (snd (ctrl_vsup_guard fg a b cells dt))"
    "fg_v_track (fst (ctrl_vsup_guard fg a b cells dt)) = fg_v_track fg"
    "snd (snd (ctrl_vsup_guard fg a b cells dt))"
    by (simp_all, metis snd_conv)
qed

lemma guard_distrust_grows:
  assumes "guard_inv cells fg" "\<not> isnan (fg_v_track fg)"
    and "isfinite (vsup_reading a b)" "vsup_reading a b < vsup_trip (fg_v_track fg)"
    and "unat (fg_distrust_ms fg) + unat dt < 300000"
  shows "fg_distrust_ms fg + dt < CTRL_VSUP_DISTRUST_MAX_MS"
    and "unat (fg_distrust_ms (fst (ctrl_vsup_guard fg a b cells dt))) \<le> unat (fg_distrust_ms fg) + unat dt"
proof -
  have u: "unat (fg_distrust_ms fg + dt) = unat (fg_distrust_ms fg) + unat dt"
    using assms(5) by (intro unat_add_lem [THEN iffD1]) simp
  show lt: "fg_distrust_ms fg + dt < CTRL_VSUP_DISTRUST_MAX_MS"
    using assms(5) by (simp add: word_less_nat_alt u CTRL_VSUP_DISTRUST_MAX_MS_def)
  define v where v: "v = vsup_reading a b"
  have seed: "vsup_seed cells v fg = fg_v_track fg" using assms(2) by (simp add: vsup_seed_def)
  have tr: "\<not> vsup_trip (fg_v_track fg) \<le> v" using assms(4) by (simp add: v f32_less_asym)
  show "unat (fg_distrust_ms (fst (ctrl_vsup_guard fg a b cells dt))) \<le> unat (fg_distrust_ms fg) + unat dt"
  proof (cases "v < vsup_lo cells")
    case True
    show ?thesis unfolding guard_low [OF assms(3) [folded v] True v] by (simp add: Let_def)
  next
    case False
    show ?thesis unfolding guard_distrust [OF assms(3) [folded v] False v, where fg = fg, unfolded seed, OF tr]
      using lt by (simp add: Let_def u)
  qed
qed

section \<open>Runs of the guard\<close>

definition guard_step :: "u8 \<Rightarrow> ctrl_vsup_guard_t \<Rightarrow> f32 \<times> f32 \<times> u32 \<Rightarrow> ctrl_vsup_guard_t" where
  "guard_step cells fg e = (case e of (a, b, dt) \<Rightarrow> fst (ctrl_vsup_guard fg a b cells dt))"

interpretation guard: machine "guard_step cells" "\<lambda>e. True" "guard_inv cells" for cells
  by unfold_locales (auto simp: guard_step_def guard_preserves)

lemma guard_run_inv: "guard_inv cells (foldl (guard_step cells) ctrl_vsup_guard_init es)"
  by (rule guard.inv_run) (simp_all add: list_all_iff)


text \<open>A reading that drops below the trip level of \<open>t\<close>, and the clamp voltages of a run.\<close>

definition vsup_drop :: "f32 \<Rightarrow> f32 \<times> f32 \<times> u32 \<Rightarrow> bool" where
  "vsup_drop t e \<longleftrightarrow> isfinite (vsup_reading (fst e) (fst (snd e))) \<and>
     vsup_reading (fst e) (fst (snd e)) < vsup_trip t"

fun guard_outputs :: "u8 \<Rightarrow> ctrl_vsup_guard_t \<Rightarrow> (f32 \<times> f32 \<times> u32) list \<Rightarrow> (f32 \<times> bool) list" where
  "guard_outputs cells fg [] = []"
| "guard_outputs cells fg (e # es) = (case e of (a, b, dt) \<Rightarrow>
     (case ctrl_vsup_guard fg a b cells dt of (fg', v, bad) \<Rightarrow> (v, bad) # guard_outputs cells fg' es))"

text \<open>A drop of the supply reading, by 4 percent or to any lower value and however it
  then moves below that level, cannot loosen the rotor clamp for five minutes: as long as the
  distrusted time stays under 300 s, every clamp voltage the guard returns is at least the last
  trusted level, and every one of those ticks raises the implausible-supply warning.\<close>

theorem guard_drop_held:
  assumes "guard_inv cells fg" "\<not> isnan (fg_v_track fg)"
    and "list_all (vsup_drop (fg_v_track fg)) es"
    and "unat (fg_distrust_ms fg) + sum_list (map (\<lambda>e. unat (snd (snd e))) es) < 300000"
  shows "list_all (\<lambda>r. fg_v_track fg \<le> fst r \<and> snd r) (guard_outputs cells fg es)"
  using assms
proof (induction es arbitrary: fg)
  case (Cons e es)
  obtain a b dt where e: "e = (a, b, dt)" by (cases e)
  let ?g = "ctrl_vsup_guard fg a b cells dt"
  have d: "isfinite (vsup_reading a b)" "vsup_reading a b < vsup_trip (fg_v_track fg)"
    "unat (fg_distrust_ms fg) + unat dt < 300000"
    using Cons.prems(3,4) by (simp_all add: e vsup_drop_def)
  note gr = guard_distrust_grows [OF Cons.prems(1,2) d]
  note h = guard_holds [OF Cons.prems(1,2) d(1,2) gr(1)]
  have "list_all (\<lambda>r. fg_v_track (fst ?g) \<le> fst r \<and> snd r) (guard_outputs cells (fst ?g) es)"
    using Cons.prems gr(2) by (intro Cons.IH) (simp_all add: h(2) e guard_preserves)
  then show ?case using h by (simp add: e split_beta)
qed simp

text \<open>A 52 V bus whose reading collapses to 40 V and then to 30 V.\<close>

definition sample_guard :: ctrl_vsup_guard_t where
  "sample_guard = \<lparr>fg_v_track = flit 52, fg_distrust_ms = 0\<rparr>"

theorem guard_drop_held_witness:
  "list_all (\<lambda>r. flit 52 \<le> fst r \<and> snd r)
    (guard_outputs 16 sample_guard [(flit 40, flit 40, 10), (flit 30, NAN, 10)])"
proof -
  have "guard_inv 16 sample_guard" "list_all (vsup_drop (flit 52)) [(flit 40, flit 40, 10), (flit 30, NAN, 10)]"
    by code_simp+
  then show ?thesis
    using guard_drop_held [of 16 sample_guard "[(flit 40, flit 40, 10), (flit 30, NAN, 10)]"]
    by (simp add: sample_guard_def)
qed

text \<open>The guard only tightens: when either supply channel is finite, the voltage the
  clamp is computed from is at least every finite channel and at least 3.2 V per cell, whatever
  the history; when neither is, it is NaN, which gives a duty limit of zero (the full-field
  override, which lifts the clamp, excepted).\<close>

theorem guard_only_tightens:
  "(\<not> isfinite a \<or> a \<le> fst (snd (ctrl_vsup_guard fg a b cells dt))) \<and>
   (\<not> isfinite b \<or> b \<le> fst (snd (ctrl_vsup_guard fg a b cells dt))) \<and>
   (if isfinite a \<or> isfinite b then vsup_floor cells \<le> fst (snd (ctrl_vsup_guard fg a b cells dt))
    else fst (snd (ctrl_vsup_guard fg a b cells dt)) = NAN \<and>
      ctrl_duty_max g (fst (snd (ctrl_vsup_guard fg a b cells dt))) = (if g_allow_full_field_48v g then 1 else 0))"
  using f32_le_trans [OF reading_ge(1) guard_tight(1), of a b] f32_le_trans [OF reading_ge(2) guard_tight(1), of b a]
    guard_tight(2) [of a b]
  by (auto simp: reading_ge guard_nan ctrl_duty_max_def f32_nan_less)

theorem guard_only_tightens_witness:
  "isfinite (flit 52) \<and> flit 52 \<le> fst (snd (ctrl_vsup_guard ctrl_vsup_guard_init (flit 52) NAN 16 10))"
  using guard_only_tightens [of "flit 52" ctrl_vsup_guard_init NAN 16 10 sample_g] sample_facts(3) by simp

end
