(* ===== verification/Engine.thy ===== *)
theory Engine
  imports Arbitration Faults Field
begin

text \<open>
  The two-stage charge engine, \<open>control/Src/control.c\<close>. \<open>ctrl_tick\<close> is the composition of the
  blocks the source marks with its section comments, each a definition over the context
  \<open>ctrl_t\<close>: damped signals, supply guard, Ah integrator, faults, state machine, field
  control, stationary-rotor gate, duty. The theory \<open>Engine_Props\<close> holds the properties.
\<close>

section \<open>Thresholds, time constants and gains\<close>

definition OV_VCELL_HARD :: f32 where "OV_VCELL_HARD = flit (370 / 100)"
definition ALT_HOT_HARD_C :: f32 where "ALT_HOT_HARD_C = flit 120"
definition DRIVER_HOT_HARD_C :: f32 where "DRIVER_HOT_HARD_C = flit 120"
definition DRIVER_HOT_CRIT_C :: f32 where "DRIVER_HOT_CRIT_C = flit 125"
definition BATT_LOW_C :: f32 where "BATT_LOW_C = 0"
definition BATT_HIGH_C :: f32 where "BATT_HIGH_C = flit 55"
definition TAU_VCTRL :: f32 where "TAU_VCTRL = 1"
definition TAU_VREVERT :: f32 where "TAU_VREVERT = flit 30"
definition TAU_PTAIL :: f32 where "TAU_PTAIL = flit 60"
definition CV_CLAMP_BAND_VCELL :: f32 where "CV_CLAMP_BAND_VCELL = flit (1 / 100)"
definition KV_PER_VOLT_S :: f32 where "KV_PER_VOLT_S = flit 2"
definition KP_PER_WATT_S :: f32 where "KP_PER_WATT_S = flit (1 / 1000)"

section \<open>Helpers\<close>

definition ema :: "f32 \<Rightarrow> f32 \<Rightarrow> f32 \<Rightarrow> f32 \<Rightarrow> f32" where
  "ema prev x tau_s dt_s =
     (if isnan prev \<or> tau_s \<le> 0 then x
      else let a = dt_s / (tau_s + dt_s) in prev + a * (x - prev))"

definition enter :: "ctrl_t \<Rightarrow> ctrl_state_t \<Rightarrow> ctrl_standby_reason_t \<Rightarrow> ctrl_t" where
  "enter c s r = c\<lparr>c_state := s, c_standby_reason := r, c_time_in_state_ms := 0,
     c_tail_hold_ms := 0, c_revert_hold_ms := 0, c_vclamp_hold_ms := 0\<rparr>"

definition tier_battery_truth :: "ctrl_isrc_tier_t \<Rightarrow> bool" where
  "tier_battery_truth t \<longleftrightarrow> t = CTRL_ISRC_BATT_SHUNT \<or> t = CTRL_ISRC_NMEA_BATT"

text \<open>\<open>(float)\<close> of an \<open>int8_t\<close>, and a \<open>uint16_t\<close> count of seconds or minutes in milliseconds.\<close>

definition float_i8 :: "i8 \<Rightarrow> f32" where
  "float_i8 n = float_of_int (sint n)"

definition s_to_ms :: "u16 \<Rightarrow> u32" where "s_to_ms t = ucast t * 1000"
definition min_to_ms :: "u16 \<Rightarrow> u32" where "min_to_ms t = ucast t * 60000"

text \<open>The T3 test; the context is returned with its hold timer advanced.\<close>

definition revert_met ::
    "ctrl_t \<Rightarrow> ctrl_measured_t \<Rightarrow> ctrl_profile_t \<Rightarrow> ctrl_globals_t \<Rightarrow> u32 \<Rightarrow> ctrl_t \<times> bool" where
  "revert_met c m p g dt_ms =
     (let cells = cells_or_1 g;
          vr_pack = p_v_revert_vcell p * float_u8 cells;
          c' = (if c_v_revert_f c \<le> vr_pack then c\<lparr>c_revert_hold_ms := c_revert_hold_ms c + dt_ms\<rparr>
                else c\<lparr>c_revert_hold_ms := 0\<rparr>);
          by_voltage = (c_v_revert_f c \<le> vr_pack \<and> s_to_ms (p_t_revert_hold_s p) \<le> c_revert_hold_ms c');
          by_soc = (0 \<le> sint (p_soc_revert_pct p) \<and> m_soc_trusted m \<and> 0 \<le> m_soc_pct m \<and>
                    m_soc_pct m \<le> float_i8 (p_soc_revert_pct p));
          by_ah = (tier_battery_truth (m_isrc m) \<and> 0 < p_ah_revert p \<and>
                   p_ah_revert p \<le> c_ah_since_charged c)
      in (c', by_voltage \<or> by_soc \<or> by_ah))"

definition skip_bulk_if_full :: "ctrl_t \<Rightarrow> ctrl_measured_t \<Rightarrow> ctrl_globals_t \<Rightarrow> bool" where
  "skip_bulk_if_full c m g \<longleftrightarrow>
     (let cells = cells_or_1 g in
      if 0 < g_skip_bulk_vcell g \<and> \<not> isnan (c_v_ctrl_f c) \<and>
         g_skip_bulk_vcell g \<le> c_v_ctrl_f c / float_u8 cells then True
      else if 0 < sint (g_skip_bulk_soc_pct g) \<and> m_soc_trusted m \<and>
         float_i8 (g_skip_bulk_soc_pct g) \<le> m_soc_pct m then True
      else False)"

definition ctrl_init :: ctrl_t where
  "ctrl_init = \<lparr>c_state = CTRL_STANDBY, c_standby_reason = CTRL_SB_OFF, c_effort = 0, c_cmd_power_w = 0,
     c_time_in_state_ms = 0, c_faults = CTRL_FAULT_NONE, c_ah_since_charged = 0,
     c_v_ctrl_f = NAN, c_v_revert_f = NAN, c_p_tail_f = NAN,
     c_warmup_ms = 0, c_tail_hold_ms = 0, c_revert_hold_ms = 0, c_vclamp_hold_ms = 0,
     c_vsup = ctrl_vsup_guard_init, c_run_probe_ms = 0\<rparr>"

section \<open>Signals, supply guard and Ah integrator\<close>

definition dt_seconds :: "u32 \<Rightarrow> f32" where
  "dt_seconds dt_ms = float_of_int (uint dt_ms) / flit 1000"

definition tick_signals :: "ctrl_t \<Rightarrow> ctrl_measured_t \<Rightarrow> u32 \<Rightarrow> ctrl_t" where
  "tick_signals c m dt_ms =
     (let dt_s = dt_seconds dt_ms in
      c\<lparr>c_time_in_state_ms := c_time_in_state_ms c + dt_ms,
        c_v_ctrl_f := ema (c_v_ctrl_f c) (m_vcomp_pack_v m) TAU_VCTRL dt_s,
        c_v_revert_f := ema (c_v_revert_f c) (m_vcomp_pack_v m) TAU_VREVERT dt_s,
        c_p_tail_f := ema (c_p_tail_f c) (m_watts_batt m) TAU_PTAIL dt_s\<rparr>)"

definition tick_vsup :: "ctrl_t \<Rightarrow> ctrl_measured_t \<Rightarrow> ctrl_globals_t \<Rightarrow> u32 \<Rightarrow> ctrl_t \<times> f32 \<times> bool" where
  "tick_vsup c m g dt_ms =
     (case ctrl_vsup_guard (c_vsup c) (m_v_supply_v m) (m_vbat_pack_v m) (cells_or_1 g) dt_ms of
        (fg, v_clamp, vsup_bad) \<Rightarrow> (c\<lparr>c_vsup := fg\<rparr>, v_clamp, vsup_bad))"

definition tick_ah :: "ctrl_t \<Rightarrow> ctrl_measured_t \<Rightarrow> u32 \<Rightarrow> ctrl_t" where
  "tick_ah c m dt_ms =
     (if (c_state c = CTRL_FLOAT \<or> (c_state c = CTRL_STANDBY \<and> c_standby_reason c = CTRL_SB_REST)) \<and>
         tier_battery_truth (m_isrc m) \<and> isfinite (m_amps_batt m)
      then let ah = c_ah_since_charged c - m_amps_batt m * dt_seconds dt_ms / flit 3600
           in c\<lparr>c_ah_since_charged := (if ah < 0 then 0 else ah)\<rparr>
      else c)"

section \<open>Faults\<close>

definition tick_faults :: "u32 \<Rightarrow> ctrl_measured_t \<Rightarrow> ctrl_globals_t \<Rightarrow> bool \<Rightarrow> u32" where
  "tick_faults latched m g vsup_bad =
     (let cells = cells_or_1 g;
          faults = latched AND CTRL_FAULT_OPEN_MASK;
          faults = (if vsup_bad then faults OR CTRL_FAULT_VSUP_IMPLAUSIBLE else faults);
          faults = (if \<not> isnan (m_vbat_pack_v m)
                    then (if OV_VCELL_HARD \<le> m_vbat_pack_v m / float_u8 cells
                          then faults OR CTRL_FAULT_OVERVOLTAGE else faults)
                    else faults OR CTRL_FAULT_LOST_VBAT_SENSE);
          faults = (if \<not> isnan (m_alt_hotspot_c m) \<and> ALT_HOT_HARD_C \<le> m_alt_hotspot_c m
                    then faults OR CTRL_FAULT_SELF_OVERTEMP else faults);
          faults = (if \<not> isnan (m_driver_temp_c m) \<and> DRIVER_HOT_HARD_C \<le> m_driver_temp_c m
                    then faults OR CTRL_FAULT_SELF_OVERTEMP else faults);
          faults = (if \<not> isnan (m_driver_temp_c m) \<and> DRIVER_HOT_CRIT_C \<le> m_driver_temp_c m
                    then faults OR CTRL_FAULT_DRIVER_OVERTEMP else faults);
          faults = (if \<not> isnan (m_batt_temp_c m)
                    then (let f = (if m_batt_temp_c m \<le> BATT_LOW_C then faults OR CTRL_FAULT_BATT_LOWTEMP else faults)
                          in if BATT_HIGH_C \<le> m_batt_temp_c m then f OR CTRL_FAULT_BATT_HIGHTEMP else f)
                    else if g_require_batt_temp g then faults OR CTRL_FAULT_BATT_TEMP_REQUIRED else faults)
      in faults OR m_ext_faults m)"

definition tick_open :: "u32 \<Rightarrow> bool" where
  "tick_open faults \<longleftrightarrow> ctrl_fault_disposition faults = CTRL_DISP_OPEN"

definition tick_limp :: "u32 \<Rightarrow> bool" where
  "tick_limp faults \<longleftrightarrow> ctrl_fault_disposition faults = CTRL_DISP_LIMP"

definition tick_enable :: "u32 \<Rightarrow> ctrl_measured_t \<Rightarrow> bool" where
  "tick_enable faults m \<longleftrightarrow>
     m_ignition m \<and> \<not> tick_open faults \<and> \<not> faults AND CTRL_FAULT_BLOCK_MASK \<noteq> 0"

section \<open>State machine\<close>

text \<open>Where a charged battery goes: \<open>T2\<close> exit and skip-BULK.\<close>

definition enter_rest :: "ctrl_t \<Rightarrow> ctrl_profile_t \<Rightarrow> ctrl_t" where
  "enter_rest c prof =
     (let c = c\<lparr>c_ah_since_charged := 0\<rparr> in
      if p_rest_mode prof = CTRL_REST_ZERO then enter c CTRL_STANDBY CTRL_SB_REST
      else enter c CTRL_FLOAT CTRL_SB_OFF)"

definition fsm_standby ::
    "ctrl_t \<Rightarrow> ctrl_measured_t \<Rightarrow> ctrl_profile_t \<Rightarrow> ctrl_globals_t \<Rightarrow> u32 \<Rightarrow> ctrl_t" where
  "fsm_standby c m prof g dt_ms =
     (let c = (if c_standby_reason c = CTRL_SB_OFF \<or> c_standby_reason c = CTRL_SB_FAULT
               then (enter c CTRL_STANDBY CTRL_SB_WARMUP)\<lparr>c_warmup_ms := 0\<rparr> else c) in
      if c_standby_reason c = CTRL_SB_WARMUP then
        let c = c\<lparr>c_warmup_ms := c_warmup_ms c + dt_ms\<rparr> in
        if g_warmup_time_s g = 0 \<or> s_to_ms (g_warmup_time_s g) \<le> c_warmup_ms c then
          (if skip_bulk_if_full c m g then enter_rest c prof else enter c CTRL_BULK CTRL_SB_OFF)
        else c
      else if c_standby_reason c = CTRL_SB_REST then
        (case revert_met c m prof g dt_ms of (c, met) \<Rightarrow> if met then enter c CTRL_BULK CTRL_SB_OFF else c)
      else c)"

definition bulk_clamped :: "ctrl_t \<Rightarrow> ctrl_profile_t \<Rightarrow> ctrl_globals_t \<Rightarrow> bool" where
  "bulk_clamped c prof g \<longleftrightarrow>
     (let cells = cells_or_1 g; cv_pack = p_cv_target_vcell prof * float_u8 cells
      in cv_pack - CV_CLAMP_BAND_VCELL * float_u8 cells \<le> c_v_ctrl_f c)"

text \<open>The hold timers and the exits T2a, T2b and T2d; the flag is \<open>charged\<close> before the backstop T2c.\<close>

definition bulk_exits ::
    "ctrl_t \<Rightarrow> ctrl_measured_t \<Rightarrow> ctrl_profile_t \<Rightarrow> ctrl_globals_t \<Rightarrow> u32 \<Rightarrow> ctrl_t \<times> bool" where
  "bulk_exits c m prof g dt_ms =
     (let clamped = bulk_clamped c prof g;
          c = c\<lparr>c_vclamp_hold_ms := (if clamped then c_vclamp_hold_ms c + dt_ms else 0)\<rparr>
      in if p_exit_at_cv_entry prof then (c, s_to_ms (g_t_vclamp_s g) \<le> c_vclamp_hold_ms c)
         else
           let by_hold = (0 < g_cv_hold_exit_min g \<and> min_to_ms (g_cv_hold_exit_min g) \<le> c_vclamp_hold_ms c);
               tail = (tier_battery_truth (m_isrc m) \<and> clamped \<and> c_p_tail_f c \<le> g_p_tail_w g);
               c = c\<lparr>c_tail_hold_ms := (if tail then c_tail_hold_ms c + dt_ms else 0)\<rparr>;
               by_tail = (tail \<and> s_to_ms (g_t_tail_hold_s g) \<le> c_tail_hold_ms c);
               by_soc = (0 \<le> sint (g_soc_target_pct g) \<and> m_soc_trusted m \<and>
                         float_i8 (g_soc_target_pct g) \<le> m_soc_pct m)
           in (c, by_hold \<or> by_tail \<or> by_soc))"

definition fsm_bulk ::
    "ctrl_t \<Rightarrow> ctrl_measured_t \<Rightarrow> ctrl_profile_t \<Rightarrow> ctrl_globals_t \<Rightarrow> u32 \<Rightarrow> ctrl_t" where
  "fsm_bulk c m prof g dt_ms =
     (case bulk_exits c m prof g dt_ms of (c, charged) \<Rightarrow>
        if charged \<or> min_to_ms (g_t_charge_max_min g) \<le> c_time_in_state_ms c
        then enter_rest c prof else c)"

definition fsm_float ::
    "ctrl_t \<Rightarrow> ctrl_measured_t \<Rightarrow> ctrl_profile_t \<Rightarrow> ctrl_globals_t \<Rightarrow> u32 \<Rightarrow> ctrl_t" where
  "fsm_float c m prof g dt_ms =
     (case revert_met c m prof g dt_ms of (c, met) \<Rightarrow> if met then enter c CTRL_BULK CTRL_SB_OFF else c)"

definition tick_fsm ::
    "ctrl_t \<Rightarrow> ctrl_measured_t \<Rightarrow> ctrl_profile_t \<Rightarrow> ctrl_globals_t \<Rightarrow> u32 \<Rightarrow> ctrl_t" where
  "tick_fsm c m prof g dt_ms =
     (let faults = c_faults c in
      if \<not> tick_enable faults m then
        enter c CTRL_STANDBY (if tick_open faults then CTRL_SB_FAULT else CTRL_SB_OFF)
      else if tick_limp faults then
        (if c_state c \<noteq> CTRL_FLOAT then enter c CTRL_FLOAT CTRL_SB_OFF else c)
      else (case c_state c of
          CTRL_STANDBY \<Rightarrow> fsm_standby c m prof g dt_ms
        | CTRL_BULK \<Rightarrow> fsm_bulk c m prof g dt_ms
        | CTRL_FLOAT \<Rightarrow> fsm_float c m prof g dt_ms))"

section \<open>Field control\<close>

text \<open>The locals \<open>effort\<close>, \<open>bind\<close>, \<open>bind_w\<close>, \<open>field_open\<close> of the second half of the tick.\<close>

record field_out =
  o_effort :: f32
  o_bind :: ctrl_bind_src_t
  o_bind_w :: f32
  o_open :: bool

text \<open>Stage power and CV target of the state.\<close>

definition stage_power :: "ctrl_t \<Rightarrow> ctrl_profile_t \<Rightarrow> ctrl_globals_t \<Rightarrow> bool \<Rightarrow> f32" where
  "stage_power c prof g limp =
     (if c_state c = CTRL_BULK then g_max_charge_power_w g
      else if limp then g_limp_power_cap_w g else p_rest_power_cap_w prof)"

definition stage_vcell :: "ctrl_t \<Rightarrow> ctrl_profile_t \<Rightarrow> ctrl_globals_t \<Rightarrow> bool \<Rightarrow> f32" where
  "stage_vcell c prof g limp =
     (if c_state c = CTRL_BULK then p_cv_target_vcell prof
      else if limp then g_limp_vcell g else p_rest_voltage_vcell prof)"

text \<open>Ramp up, immediate down.\<close>

definition ramp_power :: "f32 \<Rightarrow> f32 \<Rightarrow> f32 \<Rightarrow> f32" where
  "ramp_power cmd_w arb_w ramp_step =
     (if cmd_w < arb_w then (let w = cmd_w + ramp_step in if arb_w < w then arb_w else w) else arb_w)"

definition clamp_unit :: "f32 \<Rightarrow> f32" where
  "clamp_unit e = (let e = (if e < 0 then 0 else e) in if 1 < e then 1 else e)"

text \<open>The inner loop of the regulating states.\<close>

definition field_loop ::
    "ctrl_t \<Rightarrow> ctrl_measured_t \<Rightarrow> ctrl_ceilings_t \<Rightarrow> ctrl_profile_t \<Rightarrow> ctrl_globals_t \<Rightarrow> u32 \<Rightarrow> bool
      \<Rightarrow> ctrl_t \<times> field_out" where
  "field_loop c m ceil prof g dt_ms limp =
     (let dt_s = dt_seconds dt_ms; cells = cells_or_1 g;
          arb = ctrl_arbitrate (stage_power c prof g limp) ceil;
          ramp_step = g_ramp_w_per_s g * dt_s;
          c = c\<lparr>c_cmd_power_w := ramp_power (c_cmd_power_w c) (arb_watts arb) ramp_step\<rparr>;
          cv_pack = stage_vcell c prof g limp * float_u8 cells;
          v_err = cv_pack - c_v_ctrl_f c;
          p_err = c_cmd_power_w c - m_watts_batt m;
          e_from_v = c_effort c + KV_PER_VOLT_S * v_err * dt_s;
          e_from_p = c_effort c + KP_PER_WATT_S * p_err * dt_s;
          out = (if e_from_v \<le> e_from_p
                 then \<lparr>o_effort = e_from_v, o_bind = CTRL_BIND_VOLTAGE_CLAMP, o_bind_w = m_watts_batt m, o_open = False\<rparr>
                 else \<lparr>o_effort = e_from_p, o_bind = arb_src arb, o_bind_w = arb_watts arb, o_open = False\<rparr>);
          out = (if \<not> isfinite (o_effort out) then out\<lparr>o_effort := 0, o_bind := CTRL_BIND_NONE, o_bind_w := 0\<rparr> else out);
          out = out\<lparr>o_effort := clamp_unit (o_effort out)\<rparr>;
          out = (if arb_watts arb \<le> 0 then out\<lparr>o_effort := 0, o_bind := CTRL_BIND_STAGE, o_bind_w := 0\<rparr> else out)
      in (c, out))"

definition tick_field ::
    "ctrl_t \<Rightarrow> ctrl_measured_t \<Rightarrow> ctrl_ceilings_t \<Rightarrow> ctrl_profile_t \<Rightarrow> ctrl_globals_t \<Rightarrow> u32
      \<Rightarrow> ctrl_t \<times> field_out" where
  "tick_field c m ceil prof g dt_ms =
     (if c_state c = CTRL_STANDBY then
        (c\<lparr>c_cmd_power_w := 0\<rparr>, \<lparr>o_effort = 0, o_bind = CTRL_BIND_NONE, o_bind_w = 0, o_open = True\<rparr>)
      else if isnan (c_v_ctrl_f c) then
        (c\<lparr>c_cmd_power_w := 0\<rparr>, \<lparr>o_effort = 0, o_bind = CTRL_BIND_NONE, o_bind_w = 0, o_open = False\<rparr>)
      else field_loop c m ceil prof g dt_ms (tick_limp (c_faults c)))"

text \<open>The stationary-rotor gate.\<close>

definition run_budget :: "u32 \<Rightarrow> f32" where
  "run_budget probe_ms = (if probe_ms < CTRL_RUN_PROBE_ON_MS then CTRL_RUN_DETECT_EFFORT else 0)"

definition tick_run_gate :: "ctrl_t \<times> field_out \<Rightarrow> ctrl_measured_t \<Rightarrow> u32 \<Rightarrow> ctrl_t \<times> field_out" where
  "tick_run_gate co m dt_ms = (case co of (c, out) \<Rightarrow>
     if \<not> o_open out \<and> \<not> ctrl_run_detected m then
       let probe = c_run_probe_ms c + dt_ms;
           probe = (if CTRL_RUN_PROBE_PERIOD_MS \<le> probe then 0 else probe);
           budget = run_budget probe;
           out = (if budget < o_effort out
                  then out\<lparr>o_effort := budget, o_bind := CTRL_BIND_RUN_DETECT, o_bind_w := 0\<rparr> else out)
       in (c\<lparr>c_run_probe_ms := probe, c_cmd_power_w := 0\<rparr>, out)
     else (c\<lparr>c_run_probe_ms := 0\<rparr>, out))"

text \<open>Duty and command.\<close>

definition tick_output ::
    "ctrl_t \<times> field_out \<Rightarrow> ctrl_globals_t \<Rightarrow> f32 \<Rightarrow> ctrl_t \<times> ctrl_command_t" where
  "tick_output co g v_clamp = (case co of (c, out) \<Rightarrow>
     let c = c\<lparr>c_effort := o_effort out\<rparr>;
         duty_max = ctrl_duty_max g v_clamp;
         duty = ctrl_effort_to_duty (o_effort out) duty_max;
         bnd = (if \<not> o_open out \<and> 1 \<le> o_effort out \<and> duty_max < 1 then CTRL_BIND_ROTOR_CLAMP else o_bind out)
     in (c, \<lparr>cmd_field_effort = o_effort out, cmd_field_duty = duty, cmd_field_open = o_open out,
             cmd_state = c_state c, cmd_standby_reason = c_standby_reason c,
             cmd_binding = bnd, cmd_binding_w = o_bind_w out, cmd_faults = c_faults c\<rparr>))"

section \<open>The tick\<close>

text \<open>Up to the state machine: the context that decides the state, and the vetted clamp voltage.\<close>

definition tick_front ::
    "ctrl_t \<Rightarrow> ctrl_measured_t \<Rightarrow> ctrl_globals_t \<Rightarrow> u32 \<Rightarrow> ctrl_t \<times> f32" where
  "tick_front c m g dt_ms =
     (let c = tick_signals c m dt_ms;
          (c, v_clamp, vsup_bad) = tick_vsup c m g dt_ms;
          c = tick_ah c m dt_ms;
          c = c\<lparr>c_faults := tick_faults (c_faults c) m g vsup_bad\<rparr>
      in (c, v_clamp))"

definition ctrl_tick ::
    "ctrl_t \<Rightarrow> ctrl_measured_t \<Rightarrow> ctrl_ceilings_t \<Rightarrow> ctrl_profile_t \<Rightarrow> ctrl_globals_t \<Rightarrow> u32
      \<Rightarrow> ctrl_t \<times> ctrl_command_t" where
  "ctrl_tick c m ceil prof g dt_ms =
     (case tick_front c m g dt_ms of (c, v_clamp) \<Rightarrow>
        let c = tick_fsm c m prof g dt_ms
        in tick_output (tick_run_gate (tick_field c m ceil prof g dt_ms) m dt_ms) g v_clamp)"

end
