(* ===== verification/Engine_Props.thy ===== *)
theory Engine_Props
  imports Engine
begin

text \<open>
  Properties of the engine of \<open>control/Src/control.c\<close>: the fault word a tick computes, the
  output bounds, the field-open interlocks and their latch, the stationary-rotor budget, the
  power ramp, and the rotor voltage. The lemmas on one phase come first; the properties put
  them together for \<open>ctrl_tick\<close> and for runs of ticks.
\<close>

section \<open>The fault word\<close>

lemma if_or [simp]:
  "(if P then f OR x else f) = f OR (if P then x else (0 :: u32))"
  "(if P then f else f OR x) = f OR (if P then 0 else (x :: u32))"
  by simp_all

definition over_voltage :: "ctrl_measured_t \<Rightarrow> ctrl_globals_t \<Rightarrow> bool" where
  "over_voltage m g \<longleftrightarrow> OV_VCELL_HARD \<le> m_vbat_pack_v m / float_u8 (cells_or_1 g)"

definition driver_critical :: "ctrl_measured_t \<Rightarrow> bool" where
  "driver_critical m \<longleftrightarrow> DRIVER_HOT_CRIT_C \<le> m_driver_temp_c m"

definition temp_blocked :: "ctrl_measured_t \<Rightarrow> ctrl_globals_t \<Rightarrow> bool" where
  "temp_blocked m g \<longleftrightarrow> m_batt_temp_c m \<le> BATT_LOW_C \<or> BATT_HIGH_C \<le> m_batt_temp_c m \<or>
     (isnan (m_batt_temp_c m) \<and> g_require_batt_temp g)"

lemma tick_faults_or:
  "tick_faults l m g b =
    (l AND CTRL_FAULT_OPEN_MASK) OR (if b then CTRL_FAULT_VSUP_IMPLAUSIBLE else 0)
    OR (if over_voltage m g then CTRL_FAULT_OVERVOLTAGE else 0)
    OR (if isnan (m_vbat_pack_v m) then CTRL_FAULT_LOST_VBAT_SENSE else 0)
    OR (if ALT_HOT_HARD_C \<le> m_alt_hotspot_c m then CTRL_FAULT_SELF_OVERTEMP else 0)
    OR (if DRIVER_HOT_HARD_C \<le> m_driver_temp_c m then CTRL_FAULT_SELF_OVERTEMP else 0)
    OR (if driver_critical m then CTRL_FAULT_DRIVER_OVERTEMP else 0)
    OR (if m_batt_temp_c m \<le> BATT_LOW_C then CTRL_FAULT_BATT_LOWTEMP else 0)
    OR (if BATT_HIGH_C \<le> m_batt_temp_c m then CTRL_FAULT_BATT_HIGHTEMP else 0)
    OR (if isnan (m_batt_temp_c m) \<and> g_require_batt_temp g then CTRL_FAULT_BATT_TEMP_REQUIRED else 0)
    OR m_ext_faults m"
proof -
  have n: "\<not> isnan x" if "a \<le> x \<or> x \<le> b \<or> a \<le> x / y" for a b x y :: f32
    using that nan_divide [of x y] by (auto simp: f32_order)
  show ?thesis
    by (cases "isnan (m_vbat_pack_v m)"; cases "isnan (m_alt_hotspot_c m)"; cases "isnan (m_driver_temp_c m)";
        cases "isnan (m_batt_temp_c m)")
      (simp_all add: tick_faults_def Let_def over_voltage_def driver_critical_def f32_nan_less or.assoc)
qed

lemma tick_faults_open:
  "tick_faults l m g b AND CTRL_FAULT_OPEN_MASK = 0 \<longleftrightarrow>
    l AND CTRL_FAULT_OPEN_MASK = 0 \<and> \<not> over_voltage m g \<and> \<not> driver_critical m \<and>
    m_ext_faults m AND CTRL_FAULT_OPEN_MASK = 0"
proof -
  have m: "(if P then x else 0) AND (k :: u32) = 0 \<longleftrightarrow> \<not> P \<or> x AND k = 0" for P x k by simp
  have l: "(l AND CTRL_FAULT_OPEN_MASK) AND CTRL_FAULT_OPEN_MASK = l AND CTRL_FAULT_OPEN_MASK"
    by (simp add: and.assoc)
  show ?thesis unfolding tick_faults_or word_and_or_zero m l
    by (simp add: fault_masks)
qed


lemma tick_faults_limp:
  "tick_faults l m g b AND CTRL_FAULT_LIMP_MASK = 0 \<longleftrightarrow>
    \<not> isnan (m_vbat_pack_v m) \<and> m_ext_faults m AND CTRL_FAULT_LIMP_MASK = 0"
proof -
  have m: "(if P then x else 0) AND (k :: u32) = 0 \<longleftrightarrow> \<not> P \<or> x AND k = 0" for P x k by simp
  have l: "(l AND CTRL_FAULT_OPEN_MASK) AND CTRL_FAULT_LIMP_MASK = 0"
    by (simp add: and.assoc masks_disjoint)
  show ?thesis unfolding tick_faults_or word_and_or_zero m l
    by (simp add: fault_masks)
qed

lemma tick_faults_block:
  "tick_faults l m g b AND CTRL_FAULT_BLOCK_MASK = 0 \<longleftrightarrow>
    \<not> temp_blocked m g \<and> m_ext_faults m AND CTRL_FAULT_BLOCK_MASK = 0"
proof -
  have m: "(if P then x else 0) AND (k :: u32) = 0 \<longleftrightarrow> \<not> P \<or> x AND k = 0" for P x k by simp
  have l: "(l AND CTRL_FAULT_OPEN_MASK) AND CTRL_FAULT_BLOCK_MASK = 0"
    by (simp add: and.assoc masks_disjoint)
  show ?thesis unfolding tick_faults_or word_and_or_zero m l
    by (auto simp: fault_masks temp_blocked_def)
qed

lemma tick_faults_keeps:
  "tick_faults l m g b AND (l AND CTRL_FAULT_OPEN_MASK) = l AND CTRL_FAULT_OPEN_MASK"
  unfolding tick_faults_or by (rule bit_word_eqI) (auto simp: bit_and_iff bit_or_iff)

text \<open>Where an open, a limp and an enabled tick comes from.\<close>

lemma tick_open_iff: "tick_open f \<longleftrightarrow> f AND CTRL_FAULT_OPEN_MASK \<noteq> 0"
  by (simp add: tick_open_def open_iff)

lemma tick_limp_iff: "tick_limp f \<longleftrightarrow> f AND CTRL_FAULT_OPEN_MASK = 0 \<and> f AND CTRL_FAULT_LIMP_MASK \<noteq> 0"
  by (simp add: tick_limp_def ctrl_fault_disposition_def)

section \<open>The phases up to the state machine\<close>

definition tick_fault_word :: "ctrl_t \<Rightarrow> ctrl_measured_t \<Rightarrow> ctrl_globals_t \<Rightarrow> u32 \<Rightarrow> u32" where
  "tick_fault_word c m g dt_ms = tick_faults (c_faults c) m g
     (snd (snd (ctrl_vsup_guard (c_vsup c) (m_v_supply_v m) (m_vbat_pack_v m) (cells_or_1 g) dt_ms)))"

lemma ah_frame [simp]:
  "c_state (tick_ah c m dt) = c_state c" "c_standby_reason (tick_ah c m dt) = c_standby_reason c"
  "c_effort (tick_ah c m dt) = c_effort c" "c_cmd_power_w (tick_ah c m dt) = c_cmd_power_w c"
  "c_time_in_state_ms (tick_ah c m dt) = c_time_in_state_ms c" "c_faults (tick_ah c m dt) = c_faults c"
  "c_v_ctrl_f (tick_ah c m dt) = c_v_ctrl_f c" "c_v_revert_f (tick_ah c m dt) = c_v_revert_f c"
  "c_p_tail_f (tick_ah c m dt) = c_p_tail_f c" "c_warmup_ms (tick_ah c m dt) = c_warmup_ms c"
  "c_vsup (tick_ah c m dt) = c_vsup c" "c_run_probe_ms (tick_ah c m dt) = c_run_probe_ms c"
  by (simp_all add: tick_ah_def Let_def)

lemma front_sel [simp]:
  "c_state (fst (tick_front c m g dt)) = c_state c"
  "c_standby_reason (fst (tick_front c m g dt)) = c_standby_reason c"
  "c_effort (fst (tick_front c m g dt)) = c_effort c"
  "c_cmd_power_w (fst (tick_front c m g dt)) = c_cmd_power_w c"
  "c_time_in_state_ms (fst (tick_front c m g dt)) = c_time_in_state_ms c + dt"
  "c_warmup_ms (fst (tick_front c m g dt)) = c_warmup_ms c"
  "c_run_probe_ms (fst (tick_front c m g dt)) = c_run_probe_ms c"
  "c_faults (fst (tick_front c m g dt)) = tick_fault_word c m g dt"
  "c_v_ctrl_f (fst (tick_front c m g dt)) = ema (c_v_ctrl_f c) (m_vcomp_pack_v m) TAU_VCTRL (dt_seconds dt)"
  "c_v_revert_f (fst (tick_front c m g dt)) = ema (c_v_revert_f c) (m_vcomp_pack_v m) TAU_VREVERT (dt_seconds dt)"
  "c_p_tail_f (fst (tick_front c m g dt)) = ema (c_p_tail_f c) (m_watts_batt m) TAU_PTAIL (dt_seconds dt)"
  "c_vsup (fst (tick_front c m g dt)) = fst (ctrl_vsup_guard (c_vsup c) (m_v_supply_v m) (m_vbat_pack_v m) (cells_or_1 g) dt)"
  by (simp_all add: tick_front_def tick_vsup_def tick_signals_def tick_fault_word_def Let_def split: prod.splits)

lemma front_v_clamp:
  "snd (tick_front c m g dt) =
    fst (snd (ctrl_vsup_guard (c_vsup c) (m_v_supply_v m) (m_vbat_pack_v m) (cells_or_1 g) dt))"
  by (simp add: tick_front_def tick_vsup_def tick_signals_def Let_def split: prod.splits)

section \<open>The state machine's frame\<close>

lemma enter_sel [simp]:
  "c_state (enter c s r) = s" "c_standby_reason (enter c s r) = r" "c_time_in_state_ms (enter c s r) = 0"
  "c_effort (enter c s r) = c_effort c" "c_cmd_power_w (enter c s r) = c_cmd_power_w c"
  "c_faults (enter c s r) = c_faults c" "c_v_ctrl_f (enter c s r) = c_v_ctrl_f c"
  "c_vsup (enter c s r) = c_vsup c" "c_run_probe_ms (enter c s r) = c_run_probe_ms c"
  "c_warmup_ms (enter c s r) = c_warmup_ms c" "c_v_revert_f (enter c s r) = c_v_revert_f c"
  "c_p_tail_f (enter c s r) = c_p_tail_f c" "c_vclamp_hold_ms (enter c s r) = 0"
  by (simp_all add: enter_def)

lemma enter_rest_sel [simp]:
  "c_time_in_state_ms (enter_rest c p) = 0"
  "c_effort (enter_rest c p) = c_effort c" "c_cmd_power_w (enter_rest c p) = c_cmd_power_w c"
  "c_faults (enter_rest c p) = c_faults c" "c_v_ctrl_f (enter_rest c p) = c_v_ctrl_f c"
  "c_vsup (enter_rest c p) = c_vsup c" "c_run_probe_ms (enter_rest c p) = c_run_probe_ms c"
  "c_v_revert_f (enter_rest c p) = c_v_revert_f c" "c_p_tail_f (enter_rest c p) = c_p_tail_f c"
  by (simp_all add: enter_rest_def Let_def)

lemma revert_met_sel [simp]:
  "c_state (fst (revert_met c m p g dt)) = c_state c"
  "c_standby_reason (fst (revert_met c m p g dt)) = c_standby_reason c"
  "c_time_in_state_ms (fst (revert_met c m p g dt)) = c_time_in_state_ms c"
  "c_effort (fst (revert_met c m p g dt)) = c_effort c" "c_cmd_power_w (fst (revert_met c m p g dt)) = c_cmd_power_w c"
  "c_faults (fst (revert_met c m p g dt)) = c_faults c" "c_v_ctrl_f (fst (revert_met c m p g dt)) = c_v_ctrl_f c"
  "c_vsup (fst (revert_met c m p g dt)) = c_vsup c" "c_run_probe_ms (fst (revert_met c m p g dt)) = c_run_probe_ms c"
  "c_v_revert_f (fst (revert_met c m p g dt)) = c_v_revert_f c"
  "c_p_tail_f (fst (revert_met c m p g dt)) = c_p_tail_f c"
  "c_warmup_ms (fst (revert_met c m p g dt)) = c_warmup_ms c"
  by (simp_all add: revert_met_def Let_def)

text \<open>What the state machine leaves alone.\<close>

definition same_signals :: "ctrl_t \<Rightarrow> ctrl_t \<Rightarrow> bool" where
  "same_signals c d \<longleftrightarrow> c_effort d = c_effort c \<and> c_cmd_power_w d = c_cmd_power_w c \<and>
     c_faults d = c_faults c \<and> c_v_ctrl_f d = c_v_ctrl_f c \<and> c_vsup d = c_vsup c \<and>
     c_run_probe_ms d = c_run_probe_ms c \<and> c_v_revert_f d = c_v_revert_f c \<and> c_p_tail_f d = c_p_tail_f c"

lemma same_signals_intros [step_defs]:
  "same_signals c d \<Longrightarrow> same_signals c (enter d s r)"
  "same_signals c d \<Longrightarrow> same_signals c (enter_rest d p)"
  "same_signals c d \<Longrightarrow> same_signals c (fst (revert_met d m p g dt))"
  "same_signals c d \<Longrightarrow> same_signals c (d\<lparr>c_warmup_ms := x\<rparr>)"
  "same_signals c d \<Longrightarrow> same_signals c (d\<lparr>c_vclamp_hold_ms := x\<rparr>)"
  "same_signals c d \<Longrightarrow> same_signals c (d\<lparr>c_tail_hold_ms := x\<rparr>)"
  "same_signals c d \<Longrightarrow> same_signals c e \<Longrightarrow> same_signals c (if P then d else e)"
  "same_signals c c"
  by (simp_all add: same_signals_def)

lemma fsm_standby_same: "same_signals c (fsm_standby c m p g dt)"
  unfolding fsm_standby_def Let_def split_beta by (intro same_signals_intros)

lemma bulk_exits_sel [simp]:
  "c_state (fst (bulk_exits c m p g dt)) = c_state c"
  "c_standby_reason (fst (bulk_exits c m p g dt)) = c_standby_reason c"
  "c_time_in_state_ms (fst (bulk_exits c m p g dt)) = c_time_in_state_ms c"
  by (simp_all add: bulk_exits_def Let_def)

lemma fsm_bulk_same: "same_signals c (fsm_bulk c m p g dt)"
proof -
  have "same_signals c (fst (bulk_exits c m p g dt))"
    by (simp add: bulk_exits_def Let_def same_signals_intros)
  then show ?thesis unfolding fsm_bulk_def Let_def split_beta
    by (intro same_signals_intros)
qed

lemma fsm_float_same: "same_signals c (fsm_float c m p g dt)"
  unfolding fsm_float_def Let_def split_beta by (intro same_signals_intros)

lemma tick_fsm_same: "same_signals c (tick_fsm c m p g dt)"
  unfolding tick_fsm_def Let_def
  by (cases "c_state c")
    (simp_all add: fsm_standby_same fsm_bulk_same fsm_float_same same_signals_intros)

lemma tick_fsm_sel [simp]:
  "c_effort (tick_fsm c m p g dt) = c_effort c" "c_cmd_power_w (tick_fsm c m p g dt) = c_cmd_power_w c"
  "c_faults (tick_fsm c m p g dt) = c_faults c" "c_v_ctrl_f (tick_fsm c m p g dt) = c_v_ctrl_f c"
  "c_vsup (tick_fsm c m p g dt) = c_vsup c" "c_run_probe_ms (tick_fsm c m p g dt) = c_run_probe_ms c"
  "c_v_revert_f (tick_fsm c m p g dt) = c_v_revert_f c" "c_p_tail_f (tick_fsm c m p g dt) = c_p_tail_f c"
  using tick_fsm_same [of c m p g dt] by (simp_all add: same_signals_def)

text \<open>The context after the state machine, before the field control.\<close>

definition tick_mid :: "ctrl_t \<Rightarrow> ctrl_measured_t \<Rightarrow> ctrl_profile_t \<Rightarrow> ctrl_globals_t \<Rightarrow> u32 \<Rightarrow> ctrl_t" where
  "tick_mid c m p g dt = tick_fsm (fst (tick_front c m g dt)) m p g dt"

lemma mid_sel [simp]:
  "c_effort (tick_mid c m p g dt) = c_effort c" "c_cmd_power_w (tick_mid c m p g dt) = c_cmd_power_w c"
  "c_faults (tick_mid c m p g dt) = tick_fault_word c m g dt"
  "c_v_ctrl_f (tick_mid c m p g dt) = ema (c_v_ctrl_f c) (m_vcomp_pack_v m) TAU_VCTRL (dt_seconds dt)"
  "c_run_probe_ms (tick_mid c m p g dt) = c_run_probe_ms c"
  by (simp_all add: tick_mid_def)

lemma ctrl_tick_eq:
  "ctrl_tick c m ceil p g dt = tick_output (tick_run_gate (tick_field (tick_mid c m p g dt) m ceil p g dt) m dt) g
     (snd (tick_front c m g dt))"
  by (simp add: ctrl_tick_def tick_mid_def split_beta Let_def)

section \<open>Field control, gate and output\<close>

lemma clamp_unit_bounds: "isfinite e \<Longrightarrow> 0 \<le> clamp_unit e" "isfinite e \<Longrightarrow> clamp_unit e \<le> 1"
  by (auto simp: clamp_unit_def Let_def f32_order isfinite_not_nan)

lemma field_loop_effort:
  "0 \<le> o_effort (snd (field_loop c m ceil p g dt l))" "o_effort (snd (field_loop c m ceil p g dt l)) \<le> 1"
  "o_open (snd (field_loop c m ceil p g dt l)) = False"
  by (auto simp: field_loop_def Let_def clamp_unit_bounds f32_le_refl)

lemma field_loop_ctx:
  "fst (field_loop c m ceil p g dt l) = c\<lparr>c_cmd_power_w := ramp_power (c_cmd_power_w c)
     (arb_watts (ctrl_arbitrate (stage_power c p g l) ceil)) (g_ramp_w_per_s g * dt_seconds dt)\<rparr>"
  by (simp add: field_loop_def Let_def)

lemma field_effort:
  "0 \<le> o_effort (snd (tick_field c m ceil p g dt))" "o_effort (snd (tick_field c m ceil p g dt)) \<le> 1"
  "o_open (snd (tick_field c m ceil p g dt)) \<longleftrightarrow> c_state c = CTRL_STANDBY"
  "c_state c = CTRL_STANDBY \<Longrightarrow> o_effort (snd (tick_field c m ceil p g dt)) = 0"
  by (simp_all add: tick_field_def field_loop_effort f32_le_refl)

lemma field_ctx [simp]:
  "c_state (fst (tick_field c m ceil p g dt)) = c_state c"
  "c_standby_reason (fst (tick_field c m ceil p g dt)) = c_standby_reason c"
  "c_time_in_state_ms (fst (tick_field c m ceil p g dt)) = c_time_in_state_ms c"
  "c_faults (fst (tick_field c m ceil p g dt)) = c_faults c"
  "c_vsup (fst (tick_field c m ceil p g dt)) = c_vsup c"
  "c_warmup_ms (fst (tick_field c m ceil p g dt)) = c_warmup_ms c"
  "c_run_probe_ms (fst (tick_field c m ceil p g dt)) = c_run_probe_ms c"
  "c_v_ctrl_f (fst (tick_field c m ceil p g dt)) = c_v_ctrl_f c"
  "c_v_revert_f (fst (tick_field c m ceil p g dt)) = c_v_revert_f c"
  "c_p_tail_f (fst (tick_field c m ceil p g dt)) = c_p_tail_f c"
  by (simp_all add: tick_field_def field_loop_ctx)

lemma budget_consts: "0 \<le> CTRL_RUN_DETECT_EFFORT" "CTRL_RUN_DETECT_EFFORT \<le> 1" "\<not> isnan CTRL_RUN_DETECT_EFFORT"
  by code_simp+

lemma run_budget_bounds: "0 \<le> run_budget n" "run_budget n \<le> CTRL_RUN_DETECT_EFFORT" "\<not> isnan (run_budget n)"
  by (simp_all add: run_budget_def budget_consts f32_le_refl)

lemma gate_effort:
  assumes "0 \<le> o_effort (snd co)" "o_effort (snd co) \<le> 1"
  shows "0 \<le> o_effort (snd (tick_run_gate co m dt))" "o_effort (snd (tick_run_gate co m dt)) \<le> o_effort (snd co)"
    "o_open (snd (tick_run_gate co m dt)) = o_open (snd co)"
  using assms run_budget_bounds
  by (auto simp: tick_run_gate_def Let_def split_beta f32_le_refl f32_le_not_nan f32_less_imp_le)

lemma gate_ctx [simp]:
  "c_state (fst (tick_run_gate co m dt)) = c_state (fst co)"
  "c_standby_reason (fst (tick_run_gate co m dt)) = c_standby_reason (fst co)"
  "c_time_in_state_ms (fst (tick_run_gate co m dt)) = c_time_in_state_ms (fst co)"
  "c_faults (fst (tick_run_gate co m dt)) = c_faults (fst co)"
  "c_vsup (fst (tick_run_gate co m dt)) = c_vsup (fst co)"
  "c_warmup_ms (fst (tick_run_gate co m dt)) = c_warmup_ms (fst co)"
  "c_v_ctrl_f (fst (tick_run_gate co m dt)) = c_v_ctrl_f (fst co)"
  "c_v_revert_f (fst (tick_run_gate co m dt)) = c_v_revert_f (fst co)"
  "c_p_tail_f (fst (tick_run_gate co m dt)) = c_p_tail_f (fst co)"
  by (simp_all add: tick_run_gate_def Let_def split_beta)

lemma output_sel [simp]:
  "c_state (fst (tick_output co g v)) = c_state (fst co)"
  "c_standby_reason (fst (tick_output co g v)) = c_standby_reason (fst co)"
  "c_time_in_state_ms (fst (tick_output co g v)) = c_time_in_state_ms (fst co)"
  "c_faults (fst (tick_output co g v)) = c_faults (fst co)"
  "c_vsup (fst (tick_output co g v)) = c_vsup (fst co)"
  "c_warmup_ms (fst (tick_output co g v)) = c_warmup_ms (fst co)"
  "c_cmd_power_w (fst (tick_output co g v)) = c_cmd_power_w (fst co)"
  "c_run_probe_ms (fst (tick_output co g v)) = c_run_probe_ms (fst co)"
  "c_v_ctrl_f (fst (tick_output co g v)) = c_v_ctrl_f (fst co)"
  "c_v_revert_f (fst (tick_output co g v)) = c_v_revert_f (fst co)"
  "c_p_tail_f (fst (tick_output co g v)) = c_p_tail_f (fst co)"
  "c_effort (fst (tick_output co g v)) = o_effort (snd co)"
  "cmd_field_effort (snd (tick_output co g v)) = o_effort (snd co)"
  "cmd_field_duty (snd (tick_output co g v)) = ctrl_effort_to_duty (o_effort (snd co)) (ctrl_duty_max g v)"
  "cmd_field_open (snd (tick_output co g v)) = o_open (snd co)"
  "cmd_state (snd (tick_output co g v)) = c_state (fst co)"
  "cmd_standby_reason (snd (tick_output co g v)) = c_standby_reason (fst co)"
  "cmd_faults (snd (tick_output co g v)) = c_faults (fst co)"
  by (simp_all add: tick_output_def Let_def split_beta)

section \<open>The tick as a whole\<close>

lemma tick_sel [simp]:
  "c_state (fst (ctrl_tick c m ceil p g dt)) = c_state (tick_mid c m p g dt)"
  "c_standby_reason (fst (ctrl_tick c m ceil p g dt)) = c_standby_reason (tick_mid c m p g dt)"
  "c_time_in_state_ms (fst (ctrl_tick c m ceil p g dt)) = c_time_in_state_ms (tick_mid c m p g dt)"
  "c_faults (fst (ctrl_tick c m ceil p g dt)) = tick_fault_word c m g dt"
  "c_warmup_ms (fst (ctrl_tick c m ceil p g dt)) = c_warmup_ms (tick_mid c m p g dt)"
  "c_vsup (fst (ctrl_tick c m ceil p g dt)) =
     fst (ctrl_vsup_guard (c_vsup c) (m_v_supply_v m) (m_vbat_pack_v m) (cells_or_1 g) dt)"
  "c_effort (fst (ctrl_tick c m ceil p g dt)) = cmd_field_effort (snd (ctrl_tick c m ceil p g dt))"
  "cmd_state (snd (ctrl_tick c m ceil p g dt)) = c_state (tick_mid c m p g dt)"
  "cmd_standby_reason (snd (ctrl_tick c m ceil p g dt)) = c_standby_reason (tick_mid c m p g dt)"
  "cmd_faults (snd (ctrl_tick c m ceil p g dt)) = tick_fault_word c m g dt"
  by (simp_all add: ctrl_tick_eq) (simp add: tick_mid_def)

lemma tick_effort:
  "0 \<le> cmd_field_effort (snd (ctrl_tick c m ceil p g dt))" "cmd_field_effort (snd (ctrl_tick c m ceil p g dt)) \<le> 1"
  "cmd_field_open (snd (ctrl_tick c m ceil p g dt)) \<longleftrightarrow> c_state (tick_mid c m p g dt) = CTRL_STANDBY"
proof -
  note f = field_effort [of "tick_mid c m p g dt" m ceil p g dt]
  note e = gate_effort [OF f(1,2), of m dt]
  show "0 \<le> cmd_field_effort (snd (ctrl_tick c m ceil p g dt))" "cmd_field_effort (snd (ctrl_tick c m ceil p g dt)) \<le> 1"
    "cmd_field_open (snd (ctrl_tick c m ceil p g dt)) \<longleftrightarrow> c_state (tick_mid c m p g dt) = CTRL_STANDBY"
    using e f by (auto simp: ctrl_tick_eq intro: f32_le_trans)
qed

lemma tick_duty:
  "cmd_field_duty (snd (ctrl_tick c m ceil p g dt)) =
    ctrl_effort_to_duty (cmd_field_effort (snd (ctrl_tick c m ceil p g dt))) (ctrl_duty_max g (snd (tick_front c m g dt)))"
  by (simp add: ctrl_tick_eq)

lemma tick_duty_bounds:
  "0 \<le> cmd_field_duty (snd (ctrl_tick c m ceil p g dt))"
  "cmd_field_duty (snd (ctrl_tick c m ceil p g dt)) \<le> ctrl_duty_max g (snd (tick_front c m g dt))"
  unfolding tick_duty by (intro fp_intros)+

text \<open>A tick that ends in STANDBY opens the field, with no effort and no duty.\<close>

definition field_off :: "ctrl_command_t \<Rightarrow> bool" where
  "field_off cmd \<longleftrightarrow> cmd_field_open cmd \<and> cmd_field_effort cmd = 0 \<and>
     0 \<le> cmd_field_duty cmd \<and> cmd_field_duty cmd \<le> 0 \<and> cmd_state cmd = CTRL_STANDBY"

lemma zero_effort_duty: "0 \<le> d \<Longrightarrow> isfinite d \<Longrightarrow> ctrl_effort_to_duty 0 d \<le> 0"
proof -
  assume d: "0 \<le> d" "isfinite d"
  obtain s where s: "fpv d = FpFin s (fval d)" using d(2) by (metis isfinite_obtain)
  have "ctrl_effort_to_duty 0 d = 0 * d" by (simp add: ctrl_effort_to_duty_def Let_def f32_order)
  moreover have "fpv (0 * d) = FpFin s 0" by (simp add: fp_simps s fp_round_def single_fmt_def)
  ultimately show ?thesis by (simp add: f32_order isnan_def fkey_def)
qed

lemma standby_off:
  assumes "c_state (tick_mid c m p g dt) = CTRL_STANDBY"
  shows "field_off (snd (ctrl_tick c m ceil p g dt))"
proof -
  note f = field_effort [of "tick_mid c m p g dt" m ceil p g dt]
  have e: "cmd_field_effort (snd (ctrl_tick c m ceil p g dt)) = 0"
    using f(3,4) assms by (simp add: ctrl_tick_eq tick_run_gate_def split_beta)
  have "cmd_field_duty (snd (ctrl_tick c m ceil p g dt)) \<le> 0"
    unfolding tick_duty e by (intro zero_effort_duty fp_intros)
  with e assms show ?thesis by (simp add: field_off_def tick_effort tick_duty_bounds)
qed

section \<open>Output bounds\<close>

text \<open>C2 (safety). For every context, measurement, ceiling set, profile, configuration and
  time step, NaN and infinities included, the commanded effort and the PWM duty are numbers of
  the interval from 0 to 1, the duty is within the rotor clamp of the vetted supply voltage, the
  hardware field-off is asserted exactly in STANDBY, and the stored effort is the commanded one.\<close>

theorem tick_outputs_bounded:
  "0 \<le> cmd_field_effort (snd (ctrl_tick c m ceil prof g dt)) \<and>
   cmd_field_effort (snd (ctrl_tick c m ceil prof g dt)) \<le> 1 \<and>
   0 \<le> cmd_field_duty (snd (ctrl_tick c m ceil prof g dt)) \<and>
   cmd_field_duty (snd (ctrl_tick c m ceil prof g dt)) \<le> ctrl_duty_max g (snd (tick_front c m g dt)) \<and>
   cmd_field_duty (snd (ctrl_tick c m ceil prof g dt)) \<le> 1 \<and>
   c_effort (fst (ctrl_tick c m ceil prof g dt)) = cmd_field_effort (snd (ctrl_tick c m ceil prof g dt)) \<and>
   (cmd_field_open (snd (ctrl_tick c m ceil prof g dt)) \<longleftrightarrow>
      cmd_state (snd (ctrl_tick c m ceil prof g dt)) = CTRL_STANDBY)"
  using f32_le_trans [OF tick_duty_bounds(2) duty_max_bounds(2)]
  by (simp add: tick_effort tick_duty_bounds)

section \<open>Interlocks\<close>

lemma mid_disabled:
  assumes "\<not> tick_enable (tick_fault_word c m g dt) m"
  shows "c_state (tick_mid c m p g dt) = CTRL_STANDBY"
    "c_standby_reason (tick_mid c m p g dt) = (if tick_open (tick_fault_word c m g dt) then CTRL_SB_FAULT else CTRL_SB_OFF)"
  using assms by (simp_all add: tick_mid_def tick_fsm_def)

text \<open>C4 (safety). The field is opened, with zero effort and duty, in the tick that sees the
  ignition off, an overvoltage of 3.70 V per cell, the driver stage at 125 C, a battery
  temperature at or below 0 C or at or above 55 C (or no reading where one is required), or an
  external fault of the OPEN or the BLOCK class, whatever the engine was doing before.\<close>

theorem tick_interlocks:
  assumes "\<not> m_ignition m \<or> over_voltage m g \<or> driver_critical m \<or> temp_blocked m g \<or>
    m_ext_faults m AND (CTRL_FAULT_OPEN_MASK OR CTRL_FAULT_BLOCK_MASK) \<noteq> 0"
  shows "field_off (snd (ctrl_tick c m ceil prof g dt))"
proof -
  have "\<not> tick_enable (tick_fault_word c m g dt) m"
    using assms tick_faults_open tick_faults_block
    by (auto simp: tick_enable_def tick_open_iff tick_fault_word_def word_and_or_mask_zero)
  then show ?thesis by (intro standby_off mid_disabled)
qed

theorem tick_interlocks_witness:
  "field_off (snd (ctrl_tick ctrl_init (sample_m\<lparr>m_driver_temp_c := flit 126\<rparr>) sample_ceil sample_prof sample_g 10))"
proof (rule tick_interlocks)
  have "driver_critical (sample_m\<lparr>m_driver_temp_c := flit 126\<rparr>)"
    by (simp add: driver_critical_def) code_simp
  then show "\<not> m_ignition (sample_m\<lparr>m_driver_temp_c := flit 126\<rparr>) \<or> over_voltage (sample_m\<lparr>m_driver_temp_c := flit 126\<rparr>) sample_g \<or>
    driver_critical (sample_m\<lparr>m_driver_temp_c := flit 126\<rparr>) \<or> temp_blocked (sample_m\<lparr>m_driver_temp_c := flit 126\<rparr>) sample_g \<or>
    m_ext_faults (sample_m\<lparr>m_driver_temp_c := flit 126\<rparr>) AND (CTRL_FAULT_OPEN_MASK OR CTRL_FAULT_BLOCK_MASK) \<noteq> 0"
    by simp
qed

text \<open>
  The engine as a state machine over the arguments of a tick. A latched OPEN fault is an
  invariant of it: the context is never reset by a tick.
\<close>

record tick_in =
  in_m :: ctrl_measured_t
  in_ceil :: ctrl_ceilings_t
  in_prof :: ctrl_profile_t
  in_g :: ctrl_globals_t
  in_dt :: u32

definition run_tick :: "ctrl_t \<Rightarrow> tick_in \<Rightarrow> ctrl_t \<times> ctrl_command_t" where
  "run_tick c i = ctrl_tick c (in_m i) (in_ceil i) (in_prof i) (in_g i) (in_dt i)"

definition engine_step :: "ctrl_t \<Rightarrow> tick_in \<Rightarrow> ctrl_t" where
  "engine_step c i = fst (run_tick c i)"

definition latched :: "u32 \<Rightarrow> ctrl_t \<Rightarrow> bool" where
  "latched f c \<longleftrightarrow> c_faults c AND (f AND CTRL_FAULT_OPEN_MASK) = f AND CTRL_FAULT_OPEN_MASK"

lemma fault_word_latched:
  assumes "latched f c"
  shows "tick_fault_word c m g dt AND (f AND CTRL_FAULT_OPEN_MASK) = f AND CTRL_FAULT_OPEN_MASK"
proof -
  let ?o = CTRL_FAULT_OPEN_MASK
  have k: "tick_fault_word c m g dt AND (c_faults c AND ?o) = c_faults c AND ?o"
    unfolding tick_fault_word_def by (rule tick_faults_keeps)
  have l: "c_faults c AND (f AND ?o) = f AND ?o" using assms by (simp add: latched_def)
  show ?thesis
  proof (rule bit_word_eqI)
    fix n assume "n < LENGTH(32)"
    have "bit (tick_fault_word c m g dt AND (c_faults c AND ?o)) n = bit (c_faults c AND ?o) n"
      "bit (c_faults c AND (f AND ?o)) n = bit (f AND ?o) n" by (simp_all only: k l)
    then show "bit (tick_fault_word c m g dt AND (f AND ?o)) n = bit (f AND ?o) n"
      by (auto simp: bit_and_iff)
  qed
qed

lemma engine_step_sel [simp]:
  "c_state (engine_step c i) = c_state (tick_mid c (in_m i) (in_prof i) (in_g i) (in_dt i))"
  "c_standby_reason (engine_step c i) = c_standby_reason (tick_mid c (in_m i) (in_prof i) (in_g i) (in_dt i))"
  "c_time_in_state_ms (engine_step c i) = c_time_in_state_ms (tick_mid c (in_m i) (in_prof i) (in_g i) (in_dt i))"
  "c_warmup_ms (engine_step c i) = c_warmup_ms (tick_mid c (in_m i) (in_prof i) (in_g i) (in_dt i))"
  "c_faults (engine_step c i) = tick_fault_word c (in_m i) (in_g i) (in_dt i)"
  by (simp_all add: engine_step_def run_tick_def)

interpretation latch: machine engine_step "\<lambda>i. True" "latched f" for f
  by unfold_locales
    (use fault_word_latched in \<open>simp add: engine_step_def run_tick_def latched_def\<close>)

text \<open>C1 (safety). A critical fault latches: once a fault bit of the OPEN class is in the
  context, then after any number of further ticks with any inputs (the ignition cycled, the
  measurement healthy again, other profiles) the next tick still opens the field with zero
  effort and duty, reports STANDBY with reason FAULT, and still reports every latched bit.\<close>

theorem open_faults_latch:
  assumes "c_faults c AND CTRL_FAULT_OPEN_MASK \<noteq> 0"
  shows "field_off (snd (run_tick (foldl engine_step c is) i)) \<and>
    cmd_standby_reason (snd (run_tick (foldl engine_step c is) i)) = CTRL_SB_FAULT \<and>
    cmd_faults (snd (run_tick (foldl engine_step c is) i)) AND (c_faults c AND CTRL_FAULT_OPEN_MASK)
      = c_faults c AND CTRL_FAULT_OPEN_MASK"
proof -
  let ?c = "foldl engine_step c is"
  have "latched (c_faults c) c" by (simp add: latched_def flip: and.assoc)
  then have "latched (c_faults c) ?c" by (rule latch.inv_run) (simp add: list_all_iff)
  from fault_word_latched [OF this, of "in_m i" "in_g i" "in_dt i"]
  have w: "tick_fault_word ?c (in_m i) (in_g i) (in_dt i) AND (c_faults c AND CTRL_FAULT_OPEN_MASK)
    = c_faults c AND CTRL_FAULT_OPEN_MASK" .
  then have o: "tick_open (tick_fault_word ?c (in_m i) (in_g i) (in_dt i))"
    using assms unfolding tick_open_iff by (metis and.left_commute and_zero_eq)
  then have "\<not> tick_enable (tick_fault_word ?c (in_m i) (in_g i) (in_dt i)) (in_m i)"
    by (simp add: tick_enable_def)
  from mid_disabled [OF this, of "in_prof i"] o w show ?thesis
    by (simp add: run_tick_def standby_off)
qed

definition sample_in :: tick_in where
  "sample_in = \<lparr>in_m = sample_m, in_ceil = sample_ceil, in_prof = sample_prof, in_g = sample_g, in_dt = 10\<rparr>"

theorem open_faults_latch_witness:
  "field_off (snd (run_tick (foldl engine_step (ctrl_init\<lparr>c_faults := 1\<rparr>) [sample_in, sample_in]) sample_in))"
proof -
  have "c_faults (ctrl_init\<lparr>c_faults := 1\<rparr>) AND CTRL_FAULT_OPEN_MASK \<noteq> 0" by (simp add: fault_masks)
  from open_faults_latch [OF this, of "[sample_in, sample_in]" sample_in] show ?thesis by blast
qed

section \<open>The stationary rotor\<close>

lemma gate_stationary:
  assumes "\<not> ctrl_run_detected m" "\<not> o_open (snd co)" "0 \<le> o_effort (snd co)"
  shows "o_effort (snd (tick_run_gate co m dt)) \<le> run_budget (c_run_probe_ms (fst (tick_run_gate co m dt)))"
    "c_cmd_power_w (fst (tick_run_gate co m dt)) = 0"
    "c_run_probe_ms (fst (tick_run_gate co m dt)) < CTRL_RUN_PROBE_PERIOD_MS"
  using assms run_budget_bounds(3) f32_le_not_nan [OF assms(3)]
  by (auto simp: tick_run_gate_def Let_def split_beta f32_not_less f32_le_refl CTRL_RUN_PROBE_PERIOD_MS_def)

text \<open>C9 (safety). While no rotation is detected the effort is at most the detect budget of
  0.05, it is zero outside the first 50 ms of the probe period, and the commanded power is
  zeroed so that the soft start governs the resume.\<close>

theorem stationary_rotor_budget:
  assumes "\<not> ctrl_run_detected m"
  shows "cmd_field_effort (snd (ctrl_tick c m ceil prof g dt)) \<le> CTRL_RUN_DETECT_EFFORT \<and>
    (c_run_probe_ms (fst (ctrl_tick c m ceil prof g dt)) < CTRL_RUN_PROBE_ON_MS \<or>
     cmd_field_effort (snd (ctrl_tick c m ceil prof g dt)) \<le> 0) \<and>
    c_run_probe_ms (fst (ctrl_tick c m ceil prof g dt)) < CTRL_RUN_PROBE_PERIOD_MS \<and>
    c_cmd_power_w (fst (ctrl_tick c m ceil prof g dt)) = 0"
proof -
  let ?co = "tick_field (tick_mid c m prof g dt) m ceil prof g dt"
  note f = field_effort [of "tick_mid c m prof g dt" m ceil prof g dt]
  show ?thesis
  proof (cases "o_open (snd ?co)")
    case True
    with f(3,4) have "o_effort (snd ?co) = 0" "c_state (tick_mid c m prof g dt) = CTRL_STANDBY" by simp_all
    then show ?thesis using True
      by (simp add: ctrl_tick_eq tick_run_gate_def split_beta budget_consts tick_field_def
          CTRL_RUN_PROBE_PERIOD_MS_def)
  next
    case False
    note gt = gate_stationary [OF assms False f(1), of dt]
    from gt(1) run_budget_bounds(2) have "o_effort (snd (tick_run_gate ?co m dt)) \<le> CTRL_RUN_DETECT_EFFORT"
      by (rule f32_le_trans)
    with gt show ?thesis by (auto simp: ctrl_tick_eq run_budget_def split: if_splits)
  qed
qed

theorem stationary_rotor_budget_witness:
  "cmd_field_effort (snd (ctrl_tick ctrl_init (sample_m\<lparr>m_run_state := CTRL_RUN_NOT_RUNNING, m_rpm_state := CTRL_RPM_LOST\<rparr>)
     sample_ceil sample_prof sample_g 10)) \<le> CTRL_RUN_DETECT_EFFORT"
  by (rule stationary_rotor_budget [THEN conjunct1]) (simp add: ctrl_run_detected_def)

section \<open>Commanded power\<close>

lemma dt_seconds_fin: "isfinite (dt_seconds dt)" "0 \<le> dt_seconds dt"
proof -
  let ?n = "of_int (uint dt) :: rat"
  have "?n \<le> of_int (2 ^ 32)" using uint_lt2p [of dt] unfolding of_int_le_iff by simp
  moreover have "of_int 0 \<le> ?n" unfolding of_int_le_iff by simp
  ultimately have n: "0 \<le> ?n" "?n \<le> 2 ^ 32" unfolding of_int_0 by simp_all
  have p32: "round_rat single_fmt (2 ^ 32) = 2 ^ 32"
    by (rule round_rat_representable, simp add: single_fmt_def, unfold representable_def,
      rule exI [of _ 1], rule exI [of _ 32]) (simp add: single_fmt_def)
  define r where "r = round_rat single_fmt ?n"
  have r: "0 \<le> r" "r \<le> 2 ^ 32" unfolding r_def
    using n by (simp_all only: r32.nonneg r32.le_fixed [OF p32])
  have big: "(2 :: rat) ^ 32 < 2 powi 128" by simp
  have "\<exists>s. fpv (float_of_int (uint dt)) = FpFin s r"
    using r big by (simp add: float_of_int_def fp_simps r_def fp_round_finite del: power_int_numeral)
  then obtain s where s: "fpv (float_of_int (uint dt)) = FpFin s r" ..
  have k: "fp_round single_fmt False 1000 = FpFin False 1000" by code_simp
  define q where "q = round_rat single_fmt (r / 1000)"
  have rd: "0 \<le> r / 1000" "r / 1000 \<le> 2 ^ 32" using r by simp_all
  have q: "0 \<le> q" "q \<le> 2 ^ 32" unfolding q_def
    using r32.nonneg [OF rd(1)] r32.le_fixed [OF p32 rd(2)] by simp_all
  have "\<exists>t. fpv (dt_seconds dt) = FpFin t q"
    using q big by (simp add: dt_seconds_def fp_simps s k q_def fp_round_finite del: power_int_numeral)
  then show "isfinite (dt_seconds dt)" "0 \<le> dt_seconds dt"
    using q by (auto simp: isfinite_def fp_finite_def f32_order isnan_def fkey_def)
qed

lemma ramp_power_bounds:
  assumes "0 \<le> w" "0 \<le> a" "0 \<le> r"
  shows "0 \<le> ramp_power w a r" "ramp_power w a r \<le> a" "ramp_power w a r \<le> w + r"
proof -
  have s: "w \<le> w + r"
  proof (cases "isfinite w")
    case True
    then show ?thesis using assms(3) by (rule add_nonneg_ge)
  next
    case False
    then have "fpv w = FpInf False" using assms(1) by (auto elim: nonneg_cases simp: isfinite_def fp_finite_def)
    then show ?thesis using nonneg_cases [OF assms(3)]
      by (cases "fpv r") (auto simp: f32_order isnan_def fkey_def fp_simps split: if_splits)
  qed
  have z: "0 \<le> w + r" using assms(1) s by (rule f32_le_trans)
  show "0 \<le> ramp_power w a r" "ramp_power w a r \<le> a" "ramp_power w a r \<le> w + r"
    using assms s z by (auto simp: ramp_power_def Let_def f32_order)
qed

definition ramp_ok :: "ctrl_globals_t \<Rightarrow> bool" where
  "ramp_ok g \<longleftrightarrow> isfinite (g_ramp_w_per_s g) \<and> 0 \<le> g_ramp_w_per_s g"

lemma ramp_step_nonneg: "ramp_ok g \<Longrightarrow> 0 \<le> g_ramp_w_per_s g * dt_seconds dt"
  by (intro times_nonneg times_fin_not_nan) (simp_all add: ramp_ok_def dt_seconds_fin)

text \<open>The commanded power of a tick is zero, or the ramped arbitration result.\<close>

lemma tick_cmd_power:
  "c_cmd_power_w (fst (ctrl_tick c m ceil p g dt)) = 0 \<or>
   (c_state (tick_mid c m p g dt) \<noteq> CTRL_STANDBY \<and>
    c_cmd_power_w (fst (ctrl_tick c m ceil p g dt)) = ramp_power (c_cmd_power_w c)
     (arb_watts (ctrl_arbitrate (stage_power (tick_mid c m p g dt) p g (tick_limp (tick_fault_word c m g dt))) ceil))
     (g_ramp_w_per_s g * dt_seconds dt))"
  by (simp add: ctrl_tick_eq tick_run_gate_def split_beta Let_def tick_field_def field_loop_ctx)

text \<open>A cap holds a power: a NaN cap does not bind, a negative cap acts as zero.\<close>

definition held_by :: "f32 \<Rightarrow> f32 \<Rightarrow> bool" where
  "held_by x w \<longleftrightarrow> isnan w \<or> x \<le> w \<or> (w < 0 \<and> x \<le> 0)"

definition power_bounded :: "ctrl_t \<Rightarrow> ctrl_t \<Rightarrow> ctrl_ceilings_t \<Rightarrow> f32 \<Rightarrow> f32 \<Rightarrow> bool" where
  "power_bounded c c' ceil stage_w ramp_step \<longleftrightarrow>
     (let x = c_cmd_power_w c' in
      0 \<le> x \<and> x \<le> c_cmd_power_w c + ramp_step \<and>
      (x \<le> stage_w \<or> (\<not> 0 \<le> stage_w \<and> x \<le> 0)) \<and>
      held_by x (ceil_thermal_w ceil) \<and> held_by x (ceil_driver_thermal_w ceil) \<and>
      held_by x (ceil_bms_ccl_w ceil) \<and> held_by x (ceil_battery_c_w ceil) \<and>
      held_by x (ceil_wiring_w ceil) \<and> held_by x (ceil_alt_absolute_w ceil) \<and>
      held_by x (ceil_alt_capability_w ceil) \<and> held_by x (ceil_belt_w ceil) \<and>
      held_by x (ceil_engine_w ceil) \<and> held_by x (ceil_user_cap_w ceil))"

lemma held_by_zero: "x \<le> 0 \<Longrightarrow> held_by x w"
  by (auto simp: held_by_def f32_order)

lemma held_by_pos: "isnan w \<or> x \<le> w \<Longrightarrow> held_by x w"
  by (auto simp: held_by_def)

lemma tick_power_bounded:
  assumes "0 \<le> c_cmd_power_w c" "ramp_ok g"
  shows "power_bounded c (fst (ctrl_tick c m ceil p g dt)) ceil
    (stage_power (tick_mid c m p g dt) p g (tick_limp (tick_fault_word c m g dt))) (g_ramp_w_per_s g * dt_seconds dt)"
proof -
  let ?w = "c_cmd_power_w (fst (ctrl_tick c m ceil p g dt))"
  let ?st = "stage_power (tick_mid c m p g dt) p g (tick_limp (tick_fault_word c m g dt))"
  let ?a = "arb_watts (ctrl_arbitrate ?st ceil)"
  let ?r = "g_ramp_w_per_s g * dt_seconds dt"
  note rp = ramp_power_bounds [OF assms(1) arb_nonneg [of ?st ceil] ramp_step_nonneg [OF assms(2), of dt]]
  have r0: "0 \<le> c_cmd_power_w c + ?r"
    using rp(1,3) by (rule f32_le_trans)
  have w: "0 \<le> ?w \<and> ?w \<le> ?a \<and> ?w \<le> c_cmd_power_w c + ?r"
    using tick_cmd_power [of c m ceil p g dt] rp r0 arb_nonneg [of ?st ceil] by auto
  have "?w \<le> 0 \<or> 0 < ?w" using w by (auto simp: f32_order)
  then show ?thesis
  proof
    assume "?w \<le> 0"
    moreover from this have "?w \<le> ?st \<or> \<not> 0 \<le> ?st" by (auto intro: f32_le_trans)
    ultimately show ?thesis using w by (auto simp: power_bounded_def held_by_zero Let_def)
  next
    assume "0 < ?w"
    from arbitrate_pos_le [OF this, of ?st ceil] w show ?thesis
      by (simp add: power_bounded_def held_by_pos arb_ceilings_def Let_def)
  qed
qed

interpretation ramp: machine engine_step "\<lambda>i. ramp_ok (in_g i)" "\<lambda>c. 0 \<le> c_cmd_power_w c"
  by unfold_locales
    (use tick_power_bounded in \<open>simp add: engine_step_def run_tick_def power_bounded_def Let_def\<close>)

text \<open>C8 (bounds). On every run from power-up with a finite non-negative ramp rate, each tick's
  commanded power is not negative, at most one ramp step above the previous tick's, at most the
  profile's stage power, and at most each of the ten ceilings by name: thermal, driver thermal, BMS
  charge current, battery C-rate, wiring, alternator absolute, alternator capability, belt, engine and
  user cap. A NaN ceiling does not bind; a negative ceiling (or a stage power that is negative or NaN)
  holds the power at zero. Power goes up gradually and comes down at once.\<close>

theorem run_power_bounded:
  assumes "list_all (\<lambda>i. ramp_ok (in_g i)) (is @ [i])"
  shows "power_bounded (foldl engine_step ctrl_init is) (foldl engine_step ctrl_init (is @ [i])) (in_ceil i)
    (stage_power (tick_mid (foldl engine_step ctrl_init is) (in_m i) (in_prof i) (in_g i) (in_dt i)) (in_prof i) (in_g i)
       (tick_limp (c_faults (foldl engine_step ctrl_init (is @ [i])))))
    (g_ramp_w_per_s (in_g i) * dt_seconds (in_dt i))"
proof -
  have "0 \<le> c_cmd_power_w ctrl_init" by (simp add: ctrl_init_def)
  then have "0 \<le> c_cmd_power_w (foldl engine_step ctrl_init is)"
    using assms by (rule ramp.inv_prefix)
  from tick_power_bounded [OF this, of "in_g i"] assms show ?thesis
    by (simp add: engine_step_def run_tick_def)
qed

theorem run_power_bounded_witness:
  "c_cmd_power_w (foldl engine_step ctrl_init [sample_in, sample_in]) \<le>
     c_cmd_power_w (foldl engine_step ctrl_init [sample_in]) + g_ramp_w_per_s sample_g * dt_seconds 10"
proof -
  have "ramp_ok sample_g" using sample_facts(7,8) by (simp add: ramp_ok_def sample_g_def)
  then have "list_all (\<lambda>i. ramp_ok (in_g i)) ([sample_in] @ [sample_in])" by (simp add: sample_in_def)
  from run_power_bounded [OF this] show ?thesis
    by (simp add: power_bounded_def sample_in_def Let_def)
qed

section \<open>The rotor voltage\<close>

text \<open>C3 (safety). With the full-field override off, the average rotor voltage of any tick is
  within the rating plus rounding: the duty times the measured supply, times the measured
  battery voltage, and times 3.2 V per cell, whatever the guard trusted before and even if the
  supply reads low, is at most the rotor voltage limit plus \<open>rotor_slack\<close> (one part in
  2^24 plus 2^-22 V).\<close>

theorem rotor_voltage_bounded:
  assumes "\<not> g_allow_full_field_48v g" "isfinite (rotor_voltage g)" "0 < rotor_voltage g"
    and "x \<in> {m_v_supply_v m, m_vbat_pack_v m, vsup_floor (cells_or_1 g)}" "isfinite x" "0 \<le> x"
  shows "fval (cmd_field_duty (snd (ctrl_tick c m ceil prof g dt))) * fval x
    \<le> fval (rotor_voltage g) + rotor_slack (rotor_voltage g)"
proof (cases "isfinite (vsup_reading (m_v_supply_v m) (m_vbat_pack_v m))")
  case True
  note gt = guard_tight [OF True, where fg = "c_vsup c" and cells = "cells_or_1 g" and dt = dt]
  have "x \<le> snd (tick_front c m g dt)"
    using assms(4,5) gt(2) f32_le_trans [OF reading_ge(1) gt(1)] f32_le_trans [OF reading_ge(2) gt(1)]
    unfolding front_v_clamp by auto
  from rotor_exposure [OF assms(1-3,5,6) this tick_duty_bounds] show ?thesis .
next
  case False
  then have "snd (tick_front c m g dt) = NAN"
    by (simp add: front_v_clamp guard_nan reading_ge(3))
  then have "cmd_field_duty (snd (ctrl_tick c m ceil prof g dt)) \<le> 0"
    using f32_le_trans [OF tick_duty_bounds(2) duty_max_inf [OF assms(1)]] by simp
  then have "fval (cmd_field_duty (snd (ctrl_tick c m ceil prof g dt))) = 0"
    using tick_duty_bounds(1) [of c m ceil prof g dt] by (simp add: f32_order fval_def)
  moreover have "0 < fval (rotor_voltage g)" using assms(2,3) by (simp add: fval_less)
  ultimately show ?thesis by (simp add: rotor_slack_def)
qed

theorem rotor_voltage_bounded_witness:
  "fval (cmd_field_duty (snd (ctrl_tick ctrl_init sample_m sample_ceil sample_prof sample_g 10))) * fval (flit 52)
    \<le> fval (flit 12) + rotor_slack (flit 12)"
proof -
  have r: "rotor_voltage sample_g = flit 12" by (simp add: rotor_voltage_def sample_g_def)
  have "\<not> g_allow_full_field_48v sample_g" "isfinite (rotor_voltage sample_g)" "0 < rotor_voltage sample_g"
    "flit 52 \<in> {m_v_supply_v sample_m, m_vbat_pack_v sample_m, vsup_floor (cells_or_1 sample_g)}"
    using sample_facts(5,6) by (simp_all add: r) (simp_all add: sample_defs)
  from rotor_voltage_bounded [OF this sample_facts(3,4)] show ?thesis by (simp add: r)
qed

section \<open>Lost measurements\<close>

lemma ema_nan: "isnan x \<Longrightarrow> isnan (ema prev x tau dt)" "isnan prev \<Longrightarrow> ema prev x tau dt = x"
  by (auto simp: ema_def Let_def intro!: nan_add nan_times nan_diff)

lemma field_nan:
  assumes "isnan (c_v_ctrl_f c) \<or> isnan (m_watts_batt m)"
  shows "o_effort (snd (tick_field c m ceil p g dt)) \<le> 0"
proof (cases "isnan (c_v_ctrl_f c) \<or> c_state c = CTRL_STANDBY")
  case False
  with assms have n: "isnan (a + KP_PER_WATT_S * (b - m_watts_batt m) * d)" for a b d by simp
  then have "\<not> x \<le> a + KP_PER_WATT_S * (b - m_watts_batt m) * d" for x a b d by (simp add: f32_nan_less)
  moreover have "\<not> isfinite (a + KP_PER_WATT_S * (b - m_watts_batt m) * d)" for a b d
    using n isfinite_not_nan by blast
  ultimately show ?thesis using False
    by (simp add: tick_field_def field_loop_def Let_def clamp_unit_def)
qed (auto simp: tick_field_def)

lemma tick_nan_effort:
  assumes "isnan (m_vcomp_pack_v m) \<or> isnan (m_watts_batt m)"
  shows "cmd_field_effort (snd (ctrl_tick c m ceil p g dt)) \<le> 0"
proof -
  let ?co = "tick_field (tick_mid c m p g dt) m ceil p g dt"
  note f = field_effort [of "tick_mid c m p g dt" m ceil p g dt]
  have "o_effort (snd ?co) \<le> 0" using assms by (intro field_nan) (auto simp: ema_nan)
  with gate_effort(2) [OF f(1,2)] have "o_effort (snd (tick_run_gate ?co m dt)) \<le> 0" by (rule f32_le_trans)
  then show ?thesis by (simp add: ctrl_tick_eq)
qed

text \<open>A lost measurement cannot reach the PWM and cannot latch: in the tick whose
  battery voltage or battery power is NaN the effort is zero, and in the next tick the damped
  signals are the new samples themselves, whatever the context was.\<close>

theorem nan_measurement_recovers:
  assumes "isnan (m_vcomp_pack_v m) \<and> isnan (m_watts_batt m)"
  shows "cmd_field_effort (snd (ctrl_tick c m ceil prof g dt)) \<le> 0 \<and>
    cmd_field_duty (snd (ctrl_tick c m ceil prof g dt)) \<le> 0 \<and>
    c_v_ctrl_f (fst (ctrl_tick (fst (ctrl_tick c m ceil prof g dt)) m' ceil' prof' g' dt')) = m_vcomp_pack_v m' \<and>
    c_v_revert_f (fst (ctrl_tick (fst (ctrl_tick c m ceil prof g dt)) m' ceil' prof' g' dt')) = m_vcomp_pack_v m' \<and>
    c_p_tail_f (fst (ctrl_tick (fst (ctrl_tick c m ceil prof g dt)) m' ceil' prof' g' dt')) = m_watts_batt m'"
proof -
  have sig: "c_v_ctrl_f (fst (ctrl_tick c m ceil prof g dt)) = ema (c_v_ctrl_f c) (m_vcomp_pack_v m) TAU_VCTRL (dt_seconds dt)"
    "c_v_revert_f (fst (ctrl_tick c m ceil prof g dt)) = ema (c_v_revert_f c) (m_vcomp_pack_v m) TAU_VREVERT (dt_seconds dt)"
    "c_p_tail_f (fst (ctrl_tick c m ceil prof g dt)) = ema (c_p_tail_f c) (m_watts_batt m) TAU_PTAIL (dt_seconds dt)"
    for c m ceil prof g dt
    by (simp_all add: ctrl_tick_eq tick_mid_def)
  have e: "cmd_field_effort (snd (ctrl_tick c m ceil prof g dt)) \<le> 0"
    using assms by (intro tick_nan_effort) simp
  then have "\<not> 0 < cmd_field_effort (snd (ctrl_tick c m ceil prof g dt))" by (meson f32_less_asym)
  then have "cmd_field_duty (snd (ctrl_tick c m ceil prof g dt)) = ctrl_effort_to_duty 0 (ctrl_duty_max g (snd (tick_front c m g dt)))"
    unfolding tick_duty by (simp add: ctrl_effort_to_duty_def Let_def)
  then have "cmd_field_duty (snd (ctrl_tick c m ceil prof g dt)) \<le> 0"
    by (simp add: zero_effort_duty fp_intros)
  with e assms show ?thesis by (simp add: sig ema_nan)
qed


theorem nan_measurement_recovers_witness:
  "cmd_field_effort (snd (ctrl_tick ctrl_init (sample_m\<lparr>m_vcomp_pack_v := NAN, m_watts_batt := NAN\<rparr>)
     sample_ceil sample_prof sample_g 10)) \<le> 0 \<and>
   c_v_ctrl_f (fst (ctrl_tick (fst (ctrl_tick ctrl_init (sample_m\<lparr>m_vcomp_pack_v := NAN, m_watts_batt := NAN\<rparr>)
     sample_ceil sample_prof sample_g 10)) sample_m sample_ceil sample_prof sample_g 10)) = flit 52"
proof -
  have "isnan (m_vcomp_pack_v (sample_m\<lparr>m_vcomp_pack_v := NAN, m_watts_batt := NAN\<rparr>)) \<and>
    isnan (m_watts_batt (sample_m\<lparr>m_vcomp_pack_v := NAN, m_watts_batt := NAN\<rparr>))" by simp
  from nan_measurement_recovers [OF this, of ctrl_init sample_ceil sample_prof sample_g 10 sample_m sample_ceil sample_prof sample_g 10]
  show ?thesis by (simp add: sample_m_def)
qed

end
