(* ===== verification/Engine_Fsm.thy ===== *)
theory Engine_Fsm
  imports Engine_Props
begin

text \<open>
  The engine's state machine against its abstract specification: the three states with the
  reasons of STANDBY as six nodes, and the transitions T1 to T4 as an inductive relation.
  Every tick is a transition of the relation (refinement). Two timed properties of runs follow:
  the warmup gate, and the backstop that ends BULK.
\<close>

section \<open>The abstract machine\<close>

datatype charge_node = N_OFF | N_WARMUP | N_REST | N_FAULT | N_BULK | N_FLOAT

fun node_of :: "ctrl_state_t \<Rightarrow> ctrl_standby_reason_t \<Rightarrow> charge_node" where
  "node_of CTRL_STANDBY CTRL_SB_OFF = N_OFF"
| "node_of CTRL_STANDBY CTRL_SB_WARMUP = N_WARMUP"
| "node_of CTRL_STANDBY CTRL_SB_REST = N_REST"
| "node_of CTRL_STANDBY CTRL_SB_FAULT = N_FAULT"
| "node_of CTRL_BULK r = N_BULK"
| "node_of CTRL_FLOAT r = N_FLOAT"

definition node :: "ctrl_t \<Rightarrow> charge_node" where
  "node c = node_of (c_state c) (c_standby_reason c)"

text \<open>
  Transitions under the flags of a tick: \<open>en\<close> (ignition on, no OPEN and no BLOCK fault),
  \<open>op\<close> (an OPEN fault), \<open>lmp\<close> (a LIMP fault), and \<open>z\<close> (a zero-rest profile).
\<close>

inductive charge_tr :: "bool \<Rightarrow> bool \<Rightarrow> bool \<Rightarrow> bool \<Rightarrow> charge_node \<Rightarrow> charge_node \<Rightarrow> bool" where
  cut: "charge_tr False op lmp z x (if op then N_FAULT else N_OFF)"
| limp_home: "charge_tr True op True z x N_FLOAT"
| wake: "x \<in> {N_OFF, N_FAULT} \<Longrightarrow> charge_tr True op False z x N_WARMUP"
| wait: "x \<in> {N_WARMUP, N_REST, N_BULK, N_FLOAT} \<Longrightarrow> charge_tr True op False z x x"
| start: "x \<in> {N_OFF, N_FAULT, N_WARMUP} \<Longrightarrow> charge_tr True op False z x N_BULK"
| full: "x \<in> {N_OFF, N_FAULT, N_WARMUP, N_BULK} \<Longrightarrow> charge_tr True op False z x (if z then N_REST else N_FLOAT)"
| revert: "x \<in> {N_REST, N_FLOAT} \<Longrightarrow> charge_tr True op False z x N_BULK"

inductive_cases charge_tr_bulk: "charge_tr en op lmp z x N_BULK"
inductive_cases charge_tr_limp: "charge_tr True op True z x y"
inductive_simps charge_tr_disabled: "charge_tr False op lmp z x y"

section \<open>Every tick is a transition\<close>

lemma node_enter [simp]: "node (enter c s r) = node_of s r"
  by (simp add: node_def)

lemma node_enter_rest [simp]:
  "node (enter_rest c p) = (if p_rest_mode p = CTRL_REST_ZERO then N_REST else N_FLOAT)"
  by (simp add: enter_rest_def Let_def)

lemma node_revert [simp]: "node (fst (revert_met c m p g dt)) = node c"
  by (simp add: node_def)

lemma node_standby:
  "c_state c = CTRL_STANDBY \<Longrightarrow> node c =
    (case c_standby_reason c of CTRL_SB_OFF \<Rightarrow> N_OFF | CTRL_SB_WARMUP \<Rightarrow> N_WARMUP
      | CTRL_SB_REST \<Rightarrow> N_REST | CTRL_SB_FAULT \<Rightarrow> N_FAULT)"
  by (cases "c_standby_reason c") (simp_all add: node_def)

text \<open>The three cases of an enabled tick.\<close>

lemma standby_tr:
  assumes "c_state c = CTRL_STANDBY"
  shows "charge_tr True op False (p_rest_mode p = CTRL_REST_ZERO) (node c) (node (fsm_standby c m p g dt))"
proof (cases "c_standby_reason c")
  case CTRL_SB_REST
  then show ?thesis using assms
    by (auto simp: fsm_standby_def Let_def split_beta node_standby intro: charge_tr.intros)
next
  case CTRL_SB_WARMUP
  then have n: "node (c\<lparr>c_warmup_ms := x\<rparr>) = N_WARMUP" for x using assms by (simp add: node_def)
  show ?thesis using assms CTRL_SB_WARMUP full [of N_WARMUP op "p_rest_mode p = CTRL_REST_ZERO"]
    by (auto simp: fsm_standby_def Let_def n node_standby intro: charge_tr.intros)
next
  case CTRL_SB_OFF
  then have n: "node ((enter c CTRL_STANDBY CTRL_SB_WARMUP)\<lparr>c_warmup_ms := x\<rparr>) = N_WARMUP" for x by (simp add: node_def)
  show ?thesis using assms CTRL_SB_OFF full [of N_OFF op "p_rest_mode p = CTRL_REST_ZERO"]
    by (auto simp: fsm_standby_def Let_def n node_standby intro: charge_tr.intros)
next
  case CTRL_SB_FAULT
  then have n: "node ((enter c CTRL_STANDBY CTRL_SB_WARMUP)\<lparr>c_warmup_ms := x\<rparr>) = N_WARMUP" for x by (simp add: node_def)
  show ?thesis using assms CTRL_SB_FAULT full [of N_FAULT op "p_rest_mode p = CTRL_REST_ZERO"]
    by (auto simp: fsm_standby_def Let_def n node_standby intro: charge_tr.intros)
qed

text \<open>A BULK tick either leaves for rest, or stays with its time unchanged and short of the backstop.\<close>

lemma bulk_cases:
  assumes "c_state c = CTRL_BULK"
  obtains (rest) d where "fsm_bulk c m p g dt = enter_rest d p"
  | (stay) "c_state (fsm_bulk c m p g dt) = CTRL_BULK"
      "c_time_in_state_ms (fsm_bulk c m p g dt) = c_time_in_state_ms c"
      "c_time_in_state_ms c < min_to_ms (g_t_charge_max_min g)"
proof (cases "snd (bulk_exits c m p g dt) \<or> min_to_ms (g_t_charge_max_min g) \<le> c_time_in_state_ms c")
  case True
  then have "fsm_bulk c m p g dt = enter_rest (fst (bulk_exits c m p g dt)) p"
    by (simp add: fsm_bulk_def split_beta)
  then show thesis by (rule rest)
next
  case False
  then have "fsm_bulk c m p g dt = fst (bulk_exits c m p g dt)" by (simp add: fsm_bulk_def split_beta)
  with False assms show thesis by (intro stay) (simp_all add: not_le)
qed

lemma bulk_tr:
  assumes "c_state c = CTRL_BULK"
  shows "charge_tr True op False (p_rest_mode p = CTRL_REST_ZERO) (node c) (node (fsm_bulk c m p g dt))"
proof -
  have b: "node c = N_BULK" using assms by (simp add: node_def)
  show ?thesis using assms
  proof (cases rule: bulk_cases [of c m p g dt])
    case (rest d)
    then show ?thesis using full [of N_BULK op "p_rest_mode p = CTRL_REST_ZERO"] by (simp add: b)
  next
    case stay
    then have "node (fsm_bulk c m p g dt) = N_BULK" by (simp add: node_def)
    then show ?thesis by (simp add: b wait)
  qed
qed

lemma float_tr:
  "c_state c = CTRL_FLOAT \<Longrightarrow>
    charge_tr True op False (p_rest_mode p = CTRL_REST_ZERO) (node c) (node (fsm_float c m p g dt))"
proof -
  assume "c_state c = CTRL_FLOAT"
  then have "node c = N_FLOAT" by (simp add: node_def)
  then show ?thesis by (auto simp: fsm_float_def split_beta intro: charge_tr.intros)
qed

lemma fsm_tr:
  "charge_tr (tick_enable (c_faults c) m) (tick_open (c_faults c)) (tick_limp (c_faults c))
    (p_rest_mode p = CTRL_REST_ZERO) (node c) (node (tick_fsm c m p g dt))"
proof -
  let ?f = "c_faults c"
  consider (dis) "\<not> tick_enable ?f m" | (lmp) "tick_enable ?f m" "tick_limp ?f"
    | (run) "tick_enable ?f m" "\<not> tick_limp ?f" by blast
  then show ?thesis
  proof cases
    case dis
    then show ?thesis using cut [of "tick_open ?f"]
      by (cases "tick_open ?f") (simp_all add: tick_fsm_def Let_def)
  next
    case lmp
    have "node c = N_FLOAT" if "c_state c = CTRL_FLOAT" using that by (simp add: node_def)
    with lmp show ?thesis by (simp add: tick_fsm_def Let_def limp_home)
  next
    case run
    then show ?thesis
      by (cases "c_state c") (simp_all add: tick_fsm_def Let_def standby_tr bulk_tr float_tr)
  qed
qed

lemma node_front [simp]: "node (fst (tick_front c m g dt)) = node c"
  by (simp add: node_def)

lemma node_tick [simp]: "node (fst (ctrl_tick c m ceil p g dt)) = node (tick_mid c m p g dt)"
  by (simp add: node_def)

text \<open>C5 (refinement). Every tick of the engine is a transition of the abstract charge machine
  under the flags the tick computed: nothing but the listed T1 to T4 transitions, Limp Home and
  the cut to OFF or FAULT ever happens, for all inputs.\<close>

theorem tick_refines_charge_machine:
  "charge_tr (tick_enable (c_faults (fst (ctrl_tick c m ceil prof g dt))) m)
     (tick_open (c_faults (fst (ctrl_tick c m ceil prof g dt))))
     (tick_limp (c_faults (fst (ctrl_tick c m ceil prof g dt))))
     (p_rest_mode prof = CTRL_REST_ZERO) (node c) (node (fst (ctrl_tick c m ceil prof g dt)))"
  using fsm_tr [of "fst (tick_front c m g dt)" m prof g dt] by (simp add: tick_mid_def)

lemma tick_tr:
  "charge_tr (tick_enable (tick_fault_word c m g dt) m) (tick_open (tick_fault_word c m g dt))
     (tick_limp (tick_fault_word c m g dt))
     (p_rest_mode prof = CTRL_REST_ZERO) (node c) (node (tick_mid c m prof g dt))"
  using fsm_tr [of "fst (tick_front c m g dt)" m prof g dt] by (simp add: tick_mid_def)

text \<open>Full charging is guarded: a tick that ends in BULK has the ignition on and no
  fault of the OPEN, LIMP or BLOCK class; and a LIMP fault without an OPEN or BLOCK fault, with
  the ignition on, is FLOAT (Limp Home), never BULK.\<close>

theorem bulk_guarded:
  assumes "cmd_state (snd (ctrl_tick c m ceil prof g dt)) = CTRL_BULK"
  shows "m_ignition m \<and> cmd_faults (snd (ctrl_tick c m ceil prof g dt)) AND
    (CTRL_FAULT_OPEN_MASK OR CTRL_FAULT_LIMP_MASK OR CTRL_FAULT_BLOCK_MASK) = 0"
proof -
  have "node (tick_mid c m prof g dt) = N_BULK" using assms by (simp add: node_def)
  then have "charge_tr (tick_enable (tick_fault_word c m g dt) m) (tick_open (tick_fault_word c m g dt))
     (tick_limp (tick_fault_word c m g dt)) (p_rest_mode prof = CTRL_REST_ZERO) (node c) N_BULK"
    using tick_tr [of c m g dt prof] by simp
  then have "tick_enable (tick_fault_word c m g dt) m" "\<not> tick_limp (tick_fault_word c m g dt)"
    by (auto elim: charge_tr_bulk split: if_splits)
  then show ?thesis
    by (simp add: tick_enable_def tick_open_iff tick_limp_iff word_and_or_mask_zero)
qed

section \<open>Timed properties\<close>

lemma mid_bulk_time:
  assumes "c_state c = CTRL_BULK" "c_state (tick_mid c m p g dt) = CTRL_BULK"
  shows "c_time_in_state_ms (tick_mid c m p g dt) = c_time_in_state_ms c + dt"
    "c_time_in_state_ms c + dt < min_to_ms (g_t_charge_max_min g)"
proof -
  let ?c = "fst (tick_front c m g dt)"
  have b: "c_state ?c = CTRL_BULK" using assms(1) by simp
  have mid: "tick_mid c m p g dt = fsm_bulk ?c m p g dt"
    using assms by (auto simp: tick_mid_def tick_fsm_def Let_def split: if_splits)
  have "c_state (enter_rest d p) \<noteq> CTRL_BULK" for d by (simp add: enter_rest_def Let_def)
  then show "c_time_in_state_ms (tick_mid c m p g dt) = c_time_in_state_ms c + dt"
    "c_time_in_state_ms c + dt < min_to_ms (g_t_charge_max_min g)"
    using bulk_cases [OF b, of m p g dt] assms(2) unfolding mid by (metis front_sel(5))+
qed

lemma unat_min_to_ms: "unat (min_to_ms t) = 60000 * unat t"
proof -
  have "unat (ucast t * 60000 :: u32) = unat (ucast t :: u32) * unat (60000 :: u32)"
    by (subst unat_mult_lem [THEN iffD1]) (use unat_lt2p [of t] in \<open>simp_all add: unat_ucast_u16\<close>)
  then show ?thesis by (simp add: min_to_ms_def unat_ucast_u16)
qed

lemma unat_s_to_ms: "unat (s_to_ms t) = 1000 * unat t"
proof -
  have "unat (ucast t * 1000 :: u32) = unat (ucast t :: u32) * unat (1000 :: u32)"
    by (subst unat_mult_lem [THEN iffD1]) (use unat_lt2p [of t] in \<open>simp_all add: unat_ucast_u16\<close>)
  then show ?thesis by (simp add: s_to_ms_def unat_ucast_u16)
qed

definition total_ms :: "tick_in list \<Rightarrow> nat" where
  "total_ms is = sum_list (map (\<lambda>i. unat (in_dt i)) is)"

lemma bulk_run_time:
  assumes "c_time_in_state_ms c = 0"
    and "list_all (\<lambda>i. g_t_charge_max_min (in_g i) = T \<and> unat (in_dt i) \<le> 60000) is"
    and "\<forall>n\<le>length is. c_state (foldl engine_step c (take n is)) = CTRL_BULK"
  shows "unat (c_time_in_state_ms (foldl engine_step c is)) = total_ms is \<and>
    (is = [] \<or> total_ms is < 60000 * unat T)"
  using assms
proof (induction "is" rule: rev_induct)
  case Nil
  then show ?case by (simp add: total_ms_def)
next
  case (snoc i "is")
  let ?c = "foldl engine_step c is"
  have st: "\<forall>n\<le>length is. c_state (foldl engine_step c (take n is)) = CTRL_BULK"
    using snoc.prems(3) by (metis le_Suc_eq length_append_singleton nle_le not_less_eq_eq take_append take_all append_Nil2 diff_is_0_eq take_0)
  then have b0: "c_state ?c = CTRL_BULK" by auto
  have b1: "c_state (engine_step ?c i) = CTRL_BULK"
    using snoc.prems(3) [rule_format, of "Suc (length is)"] by simp
  have IH: "unat (c_time_in_state_ms ?c) = total_ms is" "is = [] \<or> total_ms is < 60000 * unat T"
    using snoc.IH [OF snoc.prems(1) _ st] snoc.prems(2) by auto
  have i: "g_t_charge_max_min (in_g i) = T" "unat (in_dt i) \<le> 60000" using snoc.prems(2) by auto
  have "c_state (tick_mid ?c (in_m i) (in_prof i) (in_g i) (in_dt i)) = CTRL_BULK"
    using b1 by simp
  note t = mid_bulk_time [OF b0 this, unfolded i(1)]
  have "total_ms is < 60000 * 65536" using IH(2) unat_lt2p [of T] by (auto simp: total_ms_def)
  then have "unat (c_time_in_state_ms ?c) + unat (in_dt i) < 2 ^ 32" using IH(1) i(2) by simp
  then have u: "unat (c_time_in_state_ms ?c + in_dt i) = total_ms (is @ [i])"
    using IH(1) by (simp add: unat_add_lem [THEN iffD1] total_ms_def)
  then have "total_ms (is @ [i]) < 60000 * unat T"
    using t(2) unfolding word_less_nat_alt u unat_min_to_ms by simp
  with u t(1) show ?case by simp
qed

text \<open>C39 (liveness). BULK ends: from a BULK entry, a run whose ticks (of at most a minute each)
  add up to the maximum charge time leaves BULK at some tick, whatever the measurements are.\<close>

theorem bulk_backstop:
  assumes "c_state c = CTRL_BULK" "c_time_in_state_ms c = 0"
    and "list_all (\<lambda>i. g_t_charge_max_min (in_g i) = T \<and> unat (in_dt i) \<le> 60000) is"
    and "is \<noteq> []" "60000 * unat T \<le> total_ms is"
  shows "\<exists>n. 0 < n \<and> n \<le> length is \<and> c_state (foldl engine_step c (take n is)) \<noteq> CTRL_BULK"
proof -
  obtain n where n: "n \<le> length is" "c_state (foldl engine_step c (take n is)) \<noteq> CTRL_BULK"
    using bulk_run_time [OF assms(2,3)] assms(4,5) by (metis linorder_not_less)
  moreover have "0 < n" using n(2) assms(1) by (cases n) simp_all
  ultimately show ?thesis by blast
qed

section \<open>Warmup\<close>

lemma warmup_step:
  assumes "\<not> tick_limp (tick_fault_word c m g dt)"
    and "node c \<in> {N_OFF, N_FAULT} \<or> node c = N_WARMUP \<and> unat (c_warmup_ms c) \<le> s"
    and "0 < g_warmup_time_s g"
  shows "node (tick_mid c m p g dt) \<in> {N_OFF, N_FAULT} \<or>
    node (tick_mid c m p g dt) = N_WARMUP \<and> unat (c_warmup_ms (tick_mid c m p g dt)) \<le> s + unat dt \<or>
    1000 * unat (g_warmup_time_s g) \<le> s + unat dt"
proof (cases "tick_enable (tick_fault_word c m g dt) m")
  case False
  then show ?thesis by (simp add: tick_mid_def tick_fsm_def Let_def)
next
  case True
  let ?c = "fst (tick_front c m g dt)"
  have st: "c_state ?c = CTRL_STANDBY"
    using assms(2) by (cases "c_state c") (auto simp: node_def)
  define w where "w = (if node c = N_WARMUP then c_warmup_ms c + dt else dt)"
  have w: "unat w \<le> s + unat dt"
    using assms(2) by (auto simp: w_def intro: order_trans [OF unat_add_le])
  have mid: "tick_mid c m p g dt = fsm_standby ?c m p g dt"
    using True assms(1) st by (simp add: tick_mid_def tick_fsm_def Let_def)
  show ?thesis
  proof (cases "s_to_ms (g_warmup_time_s g) \<le> w")
    case True
    then show ?thesis using w unfolding word_le_nat_alt unat_s_to_ms by linarith
  next
    case False
    have "node (fsm_standby ?c m p g dt) = N_WARMUP \<and> c_warmup_ms (fsm_standby ?c m p g dt) = w"
      using assms(2,3) st False
      by (cases "c_standby_reason c") (auto simp: fsm_standby_def Let_def node_def w_def)
    then show ?thesis using w by (simp add: mid)
  qed
qed

definition warmup_ok :: "u16 \<Rightarrow> tick_in \<Rightarrow> bool" where
  "warmup_ok W i \<longleftrightarrow> g_warmup_time_s (in_g i) = W \<and> \<not> isnan (m_vbat_pack_v (in_m i)) \<and>
     m_ext_faults (in_m i) AND CTRL_FAULT_LIMP_MASK = 0"

lemma warmup_run:
  assumes "list_all (warmup_ok W) is" "0 < W"
  shows "node (foldl engine_step ctrl_init is) \<in> {N_OFF, N_FAULT} \<or>
    node (foldl engine_step ctrl_init is) = N_WARMUP \<and>
      unat (c_warmup_ms (foldl engine_step ctrl_init is)) \<le> total_ms is \<or>
    1000 * unat W \<le> total_ms is"
  using assms(1)
proof (induction "is" rule: rev_induct)
  case Nil
  then show ?case by (simp add: node_def ctrl_init_def)
next
  case (snoc i "is")
  let ?c = "foldl engine_step ctrl_init is"
  have i: "g_warmup_time_s (in_g i) = W" "\<not> tick_limp (tick_fault_word ?c (in_m i) (in_g i) (in_dt i))"
    using snoc.prems tick_faults_limp by (auto simp: warmup_ok_def tick_limp_iff tick_fault_word_def)
  have t: "total_ms (is @ [i]) = total_ms is + unat (in_dt i)" by (simp add: total_ms_def)
  have n: "node (engine_step ?c i) = node (tick_mid ?c (in_m i) (in_prof i) (in_g i) (in_dt i))"
    by (simp add: node_def)
  show ?case
    using snoc.IH snoc.prems warmup_step [OF i(2), of "total_ms is" "in_prof i"] assms(2)
    by (auto simp: i(1) t n)
qed

text \<open>The warmup gate: on a run from power-up without a LIMP fault, the engine is in
  an active state (BULK, FLOAT or zero-rest) only if the ticks add up to the configured warmup
  time; before that it is OFF, FAULT or WARMUP, and the field is open.\<close>

theorem warmup_gates_activation:
  assumes "list_all (warmup_ok W) is" "0 < W" "total_ms is < 1000 * unat W"
  shows "node (foldl engine_step ctrl_init is) \<in> {N_OFF, N_FAULT, N_WARMUP} \<and>
    c_state (foldl engine_step ctrl_init is) = CTRL_STANDBY"
proof -
  have "node (foldl engine_step ctrl_init is) \<in> {N_OFF, N_FAULT, N_WARMUP}"
    using warmup_run [OF assms(1,2)] assms(3) by auto
  then show ?thesis by (cases "c_state (foldl engine_step ctrl_init is)") (auto simp: node_def)
qed


section \<open>Witnesses\<close>

text \<open>A zero warmup time and an empty battery: the first tick after power-up enters BULK.\<close>

theorem bulk_guarded_witness:
  "m_ignition sample_m \<and> cmd_state (snd (ctrl_tick ctrl_init sample_m sample_ceil sample_prof sample_g 10)) = CTRL_BULK"
proof -
  have n: "\<not> over_voltage sample_m sample_g" "\<not> driver_critical sample_m" "\<not> temp_blocked sample_m sample_g"
    "\<not> isnan (m_vbat_pack_v sample_m)"
    by (simp_all add: over_voltage_def driver_critical_def temp_blocked_def sample_m_def sample_g_def cells_or_1_def)
      code_simp+
  have sel: "m_ignition sample_m" "c_state ctrl_init = CTRL_STANDBY" "c_standby_reason ctrl_init = CTRL_SB_OFF"
    "g_warmup_time_s sample_g = 0" "g_skip_bulk_vcell sample_g = 0" "g_skip_bulk_soc_pct sample_g = -1"
    by (simp_all add: ctrl_init_def sample_m_def sample_g_def)
  have f: "tick_fault_word ctrl_init sample_m sample_g 10 AND CTRL_FAULT_OPEN_MASK = 0"
    "tick_fault_word ctrl_init sample_m sample_g 10 AND CTRL_FAULT_LIMP_MASK = 0"
    "tick_fault_word ctrl_init sample_m sample_g 10 AND CTRL_FAULT_BLOCK_MASK = 0"
    using n unfolding tick_fault_word_def tick_faults_open tick_faults_limp tick_faults_block
    by (simp_all add: ctrl_init_def CTRL_FAULT_NONE_def sample_m_def)
  have "c_state (tick_mid ctrl_init sample_m sample_prof sample_g 10) = CTRL_BULK"
    using f by (simp add: tick_mid_def tick_fsm_def tick_enable_def tick_open_iff tick_limp_iff Let_def fsm_standby_def
        skip_bulk_if_full_def sel)
  then have b: "cmd_state (snd (ctrl_tick ctrl_init sample_m sample_ceil sample_prof sample_g 10)) = CTRL_BULK" by simp
  then show ?thesis using bulk_guarded [OF b] by simp
qed

text \<open>A BULK entry and one tick of the one minute allowed: the tick leaves BULK.\<close>

theorem bulk_backstop_witness:
  "c_state (enter ctrl_init CTRL_BULK CTRL_SB_OFF) = CTRL_BULK \<and>
   c_state (engine_step (enter ctrl_init CTRL_BULK CTRL_SB_OFF)
     (sample_in\<lparr>in_dt := 60000, in_g := sample_g\<lparr>g_t_charge_max_min := 1\<rparr>\<rparr>)) \<noteq> CTRL_BULK"
proof -
  let ?c = "enter ctrl_init CTRL_BULK CTRL_SB_OFF"
  let ?i = "sample_in\<lparr>in_dt := 60000, in_g := sample_g\<lparr>g_t_charge_max_min := 1\<rparr>\<rparr>"
  have c: "c_state ?c = CTRL_BULK" "c_time_in_state_ms ?c = 0" by (simp_all add: enter_def)
  moreover have "list_all (\<lambda>i. g_t_charge_max_min (in_g i) = 1 \<and> unat (in_dt i) \<le> 60000) [?i]" by simp
  moreover have "[?i] \<noteq> []" "60000 * unat (1 :: u16) \<le> total_ms [?i]" by (simp_all add: total_ms_def)
  ultimately obtain n where "0 < n" "n \<le> length [?i]" "c_state (foldl engine_step ?c (take n [?i])) \<noteq> CTRL_BULK"
    using bulk_backstop by blast
  then have "n = 1" "c_state (foldl engine_step ?c (take n [?i])) \<noteq> CTRL_BULK" by simp_all
  then show ?thesis using c by simp
qed

theorem warmup_gates_activation_witness:
  "c_state (foldl engine_step ctrl_init [sample_in\<lparr>in_g := sample_g\<lparr>g_warmup_time_s := 30\<rparr>\<rparr>]) = CTRL_STANDBY"
proof -
  let ?i = "sample_in\<lparr>in_g := sample_g\<lparr>g_warmup_time_s := 30\<rparr>\<rparr>"
  have "\<not> isnan (m_vbat_pack_v sample_m)" by (simp add: sample_m_def)
  then have "warmup_ok 30 ?i" by (simp add: warmup_ok_def sample_in_def) (simp add: sample_m_def)
  then show ?thesis using warmup_gates_activation [of 30 "[?i]"] by (simp add: total_ms_def sample_in_def)
qed

end
