(* ===== verification/Annunc.thy ===== *)
theory Annunc
  imports Faults
begin

text \<open>
  The status-LED blink encoder, \<open>control/Src/annunc.c\<close> and \<open>control/Inc/annunc.h\<close>. The
  loop that walks the phases is a function whose termination is the decrease of the phase time.
  It is refined against a timeline: the list of (lamp, duration) segments of one cycle. The
  properties are the lamp's value at every instant of a cycle, that the fault pick changes only
  at a cycle boundary, that the caller's tick size does not matter, and the length of a cycle.

  The counters of the pattern are C \<open>unsigned\<close> and at most 32 here (a code is at most 32), so
  they are natural numbers; the phase time keeps its 32-bit width.
\<close>

definition CTRL_ANNUNC_LONG_MS :: u32 where "CTRL_ANNUNC_LONG_MS = 600"
definition CTRL_ANNUNC_SHORT_MS :: u32 where "CTRL_ANNUNC_SHORT_MS = 200"
definition CTRL_ANNUNC_GAP_MS :: u32 where "CTRL_ANNUNC_GAP_MS = 300"
definition CTRL_ANNUNC_REPEAT_MS :: u32 where "CTRL_ANNUNC_REPEAT_MS = 2000"
definition CTRL_ANNUNC_HEARTBEAT_ON_MS :: u32 where "CTRL_ANNUNC_HEARTBEAT_ON_MS = 100"
definition CTRL_ANNUNC_HEARTBEAT_PERIOD_MS :: u32 where "CTRL_ANNUNC_HEARTBEAT_PERIOD_MS = 3000"

lemmas annunc_consts = CTRL_ANNUNC_LONG_MS_def CTRL_ANNUNC_SHORT_MS_def CTRL_ANNUNC_GAP_MS_def
  CTRL_ANNUNC_REPEAT_MS_def CTRL_ANNUNC_HEARTBEAT_ON_MS_def CTRL_ANNUNC_HEARTBEAT_PERIOD_MS_def

datatype ctrl_annunc_phase_t = CTRL_ANNUNC_PH_FLASH | CTRL_ANNUNC_PH_INTER | CTRL_ANNUNC_PH_GAP

record ctrl_annunc_t =
  an_code :: nat
  an_longs :: nat
  an_total :: nat
  an_flash_idx :: nat
  an_phase :: ctrl_annunc_phase_t
  an_phase_ms :: u32

section \<open>Operations\<close>

definition annunc_load_pattern :: "ctrl_annunc_t \<Rightarrow> nat \<Rightarrow> ctrl_annunc_t" where
  "annunc_load_pattern a code =
     (let a = a\<lparr>an_code := code\<rparr>;
          a = (if code = 0 then a\<lparr>an_longs := 0, an_total := 1\<rparr>
               else a\<lparr>an_longs := code div 10, an_total := code div 10 + code mod 10\<rparr>)
      in a\<lparr>an_flash_idx := 0\<rparr>)"

definition annunc_flash_ms :: "ctrl_annunc_t \<Rightarrow> nat \<Rightarrow> u32" where
  "annunc_flash_ms a idx =
     (if an_code a = 0 then CTRL_ANNUNC_HEARTBEAT_ON_MS
      else if idx < an_longs a then CTRL_ANNUNC_LONG_MS else CTRL_ANNUNC_SHORT_MS)"

definition annunc_repeat_gap_ms :: "ctrl_annunc_t \<Rightarrow> u32" where
  "annunc_repeat_gap_ms a =
     (if an_code a = 0 then CTRL_ANNUNC_HEARTBEAT_PERIOD_MS - CTRL_ANNUNC_HEARTBEAT_ON_MS
      else CTRL_ANNUNC_REPEAT_MS)"

text \<open>C leaves the counters of an uninitialised struct arbitrary; \<open>ctrl_annunc_init\<close> sets every field.\<close>

definition ctrl_annunc_init :: "ctrl_annunc_t \<Rightarrow> ctrl_annunc_t" where
  "ctrl_annunc_init a = (annunc_load_pattern a 0)\<lparr>an_phase := CTRL_ANNUNC_PH_FLASH, an_phase_ms := 0\<rparr>"

lemma annunc_dur_pos [simp]: "0 < annunc_flash_ms a i" "0 < annunc_repeat_gap_ms a" "0 < CTRL_ANNUNC_GAP_MS"
  by (simp_all add: annunc_flash_ms_def annunc_repeat_gap_ms_def annunc_consts)

text \<open>The \<open>for (;;)\<close> of \<open>ctrl_annunc_update\<close>: the state it leaves, and the lamp.\<close>

function annunc_walk :: "u32 \<Rightarrow> ctrl_annunc_t \<Rightarrow> ctrl_annunc_t \<times> bool" where
  "annunc_walk faults a = (case an_phase a of
     CTRL_ANNUNC_PH_FLASH \<Rightarrow>
       (let dur = annunc_flash_ms a (an_flash_idx a) in
        if an_phase_ms a < dur then (a, True)
        else annunc_walk faults (a\<lparr>an_phase_ms := an_phase_ms a - dur,
               an_flash_idx := an_flash_idx a + 1,
               an_phase := (if an_total a \<le> an_flash_idx a + 1 then CTRL_ANNUNC_PH_GAP
                            else CTRL_ANNUNC_PH_INTER)\<rparr>))
   | CTRL_ANNUNC_PH_INTER \<Rightarrow>
       (let dur = CTRL_ANNUNC_GAP_MS in
        if an_phase_ms a < dur then (a, False)
        else annunc_walk faults (a\<lparr>an_phase_ms := an_phase_ms a - dur, an_phase := CTRL_ANNUNC_PH_FLASH\<rparr>))
   | CTRL_ANNUNC_PH_GAP \<Rightarrow>
       (let dur = annunc_repeat_gap_ms a in
        if an_phase_ms a < dur then (a, False)
        else annunc_walk faults ((annunc_load_pattern (a\<lparr>an_phase_ms := an_phase_ms a - dur\<rparr>)
               (ctrl_fault_top_code faults))\<lparr>an_phase := CTRL_ANNUNC_PH_FLASH\<rparr>)))"
  by pat_completeness auto

lemma sub_decreases: "0 < d \<Longrightarrow> d \<le> t \<Longrightarrow> unat (t - d) < unat (t :: u32)"
  by (simp add: word_le_nat_alt word_less_nat_alt unat_sub)

lemma load_phase_ms [simp]: "an_phase_ms (annunc_load_pattern a k) = an_phase_ms a"
  by (simp add: annunc_load_pattern_def Let_def)

termination annunc_walk
  by (relation "measure (\<lambda>(f, a). unat (an_phase_ms a))") (auto simp: not_less sub_decreases)

declare annunc_walk.simps [simp del]

definition ctrl_annunc_update :: "ctrl_annunc_t \<Rightarrow> u32 \<Rightarrow> u32 \<Rightarrow> ctrl_annunc_t \<times> bool" where
  "ctrl_annunc_update a faults dt_ms = annunc_walk faults (a\<lparr>an_phase_ms := an_phase_ms a + dt_ms\<rparr>)"

section \<open>The timeline of a cycle\<close>

text \<open>Segments: lamp value and duration in ms. \<open>flashes\<close> lists the flashes from index \<open>i\<close> on.\<close>

definition flash_len :: "nat \<Rightarrow> nat \<Rightarrow> nat" where
  "flash_len code i = (if code = 0 then 100 else if i < code div 10 then 600 else 200)"

definition code_total :: "nat \<Rightarrow> nat" where
  "code_total code = (if code = 0 then 1 else code div 10 + code mod 10)"

definition gap_len :: "nat \<Rightarrow> nat" where
  "gap_len code = (if code = 0 then 2900 else 2000)"

function flash_segments :: "nat \<Rightarrow> nat \<Rightarrow> (bool \<times> nat) list" where
  "flash_segments code i =
     (if i + 1 < code_total code then (True, flash_len code i) # (False, 300) # flash_segments code (i + 1)
      else [(True, flash_len code i), (False, gap_len code)])"
  by pat_completeness auto
termination by (relation "measure (\<lambda>(code, i). code_total code - i)") auto

declare flash_segments.simps [simp del]

definition cycle :: "nat \<Rightarrow> (bool \<times> nat) list" where
  "cycle code = flash_segments code 0"

definition span :: "(bool \<times> nat) list \<Rightarrow> nat" where
  "span segs = sum_list (map snd segs)"

fun lamp_at :: "(bool \<times> nat) list \<Rightarrow> nat \<Rightarrow> bool" where
  "lamp_at [] t = False"
| "lamp_at ((b, d) # segs) t = (if t < d then b else lamp_at segs (t - d))"

text \<open>The segments ahead of a state, the current one first.\<close>

definition ahead :: "ctrl_annunc_t \<Rightarrow> (bool \<times> nat) list" where
  "ahead a = (case an_phase a of
     CTRL_ANNUNC_PH_FLASH \<Rightarrow> flash_segments (an_code a) (an_flash_idx a)
   | CTRL_ANNUNC_PH_INTER \<Rightarrow> (False, 300) # flash_segments (an_code a) (an_flash_idx a)
   | CTRL_ANNUNC_PH_GAP \<Rightarrow> [(False, gap_len (an_code a))])"

definition pattern_ok :: "ctrl_annunc_t \<Rightarrow> bool" where
  "pattern_ok a \<longleftrightarrow> an_longs a = an_code a div 10 \<and> an_total a = code_total (an_code a) \<and> an_code a \<le> 32 \<and>
     (an_phase a \<noteq> CTRL_ANNUNC_PH_GAP \<longrightarrow> an_flash_idx a < an_total a)"

lemma code_total_pos: "0 < code_total code"
  using div_mult_mod_eq [of code 10] by (auto simp: code_total_def)

lemma load_pattern_ok:
  "code \<le> 32 \<Longrightarrow> pattern_ok ((annunc_load_pattern a code)\<lparr>an_phase := CTRL_ANNUNC_PH_FLASH\<rparr>)"
  "ahead ((annunc_load_pattern a code)\<lparr>an_phase := CTRL_ANNUNC_PH_FLASH\<rparr>) = cycle code"
  using code_total_pos [of code]
  by (auto simp: annunc_load_pattern_def Let_def pattern_ok_def code_total_def ahead_def cycle_def)

lemma unat_flash_ms: "pattern_ok a \<Longrightarrow> unat (annunc_flash_ms a i) = flash_len (an_code a) i"
  by (simp add: annunc_flash_ms_def flash_len_def annunc_consts pattern_ok_def)

lemma unat_gap_ms: "unat (annunc_repeat_gap_ms a) = gap_len (an_code a)"
  by (simp add: annunc_repeat_gap_ms_def gap_len_def annunc_consts)

lemma unat_inter_ms: "unat CTRL_ANNUNC_GAP_MS = 300"
  by (simp add: annunc_consts)

lemma top_code_le: "ctrl_fault_top_code f \<le> 32"
  using top_code_range [of f] top_code_zero [of f] by (cases "f = 0") auto

text \<open>One iteration of the loop: the lamp of the current segment, or the next state.\<close>

definition seg_len :: "ctrl_annunc_t \<Rightarrow> nat" where
  "seg_len a = (case an_phase a of CTRL_ANNUNC_PH_FLASH \<Rightarrow> flash_len (an_code a) (an_flash_idx a)
     | CTRL_ANNUNC_PH_INTER \<Rightarrow> 300 | CTRL_ANNUNC_PH_GAP \<Rightarrow> gap_len (an_code a))"

definition next_seg :: "u32 \<Rightarrow> ctrl_annunc_t \<Rightarrow> ctrl_annunc_t" where
  "next_seg faults a = (case an_phase a of
     CTRL_ANNUNC_PH_FLASH \<Rightarrow> a\<lparr>an_phase_ms := an_phase_ms a - of_nat (seg_len a),
        an_flash_idx := an_flash_idx a + 1,
        an_phase := (if an_total a \<le> an_flash_idx a + 1 then CTRL_ANNUNC_PH_GAP else CTRL_ANNUNC_PH_INTER)\<rparr>
   | CTRL_ANNUNC_PH_INTER \<Rightarrow> a\<lparr>an_phase_ms := an_phase_ms a - of_nat (seg_len a), an_phase := CTRL_ANNUNC_PH_FLASH\<rparr>
   | CTRL_ANNUNC_PH_GAP \<Rightarrow> (annunc_load_pattern (a\<lparr>an_phase_ms := an_phase_ms a - of_nat (seg_len a)\<rparr>)
        (ctrl_fault_top_code faults))\<lparr>an_phase := CTRL_ANNUNC_PH_FLASH\<rparr>)"

lemma walk_unfold:
  assumes "pattern_ok a"
  shows "annunc_walk faults a =
    (if unat (an_phase_ms a) < seg_len a then (a, an_phase a = CTRL_ANNUNC_PH_FLASH)
     else annunc_walk faults (next_seg faults a))"
proof -
  have d: "annunc_flash_ms a (an_flash_idx a) = of_nat (flash_len (an_code a) (an_flash_idx a))"
    "annunc_repeat_gap_ms a = of_nat (gap_len (an_code a))" "CTRL_ANNUNC_GAP_MS = of_nat 300"
    by (simp_all flip: unat_flash_ms [OF assms] unat_gap_ms) (simp add: annunc_consts)
  have l: "an_phase_ms a < annunc_flash_ms a (an_flash_idx a) \<longleftrightarrow> unat (an_phase_ms a) < flash_len (an_code a) (an_flash_idx a)"
    "an_phase_ms a < annunc_repeat_gap_ms a \<longleftrightarrow> unat (an_phase_ms a) < gap_len (an_code a)"
    "an_phase_ms a < CTRL_ANNUNC_GAP_MS \<longleftrightarrow> unat (an_phase_ms a) < 300"
    using unat_flash_ms [OF assms] unat_gap_ms [of a] unat_inter_ms by (simp_all add: word_less_nat_alt)
  show ?thesis
    by (cases "an_phase a"; subst annunc_walk.simps)
      (simp_all add: Let_def l, simp_all add: next_seg_def seg_len_def d)
qed

lemma next_seg_ok: "pattern_ok a \<Longrightarrow> pattern_ok (next_seg faults a)"
proof (cases "an_phase a")
  case CTRL_ANNUNC_PH_GAP
  then show ?thesis using load_pattern_ok(1) [OF top_code_le] by (simp add: next_seg_def)
qed (auto simp: next_seg_def pattern_ok_def)

lemma next_seg_ahead:
  assumes "pattern_ok a"
  shows "ahead a = (an_phase a = CTRL_ANNUNC_PH_FLASH, seg_len a) #
      (if an_phase a = CTRL_ANNUNC_PH_GAP then [] else ahead (next_seg faults a))"
    and "an_phase a = CTRL_ANNUNC_PH_GAP \<Longrightarrow> ahead (next_seg faults a) = cycle (ctrl_fault_top_code faults) \<and>
      an_code (next_seg faults a) = ctrl_fault_top_code faults"
    and "an_phase a \<noteq> CTRL_ANNUNC_PH_GAP \<Longrightarrow> an_code (next_seg faults a) = an_code a"
proof -
  show "ahead a = (an_phase a = CTRL_ANNUNC_PH_FLASH, seg_len a) #
      (if an_phase a = CTRL_ANNUNC_PH_GAP then [] else ahead (next_seg faults a))"
    using assms flash_segments.simps [of "an_code a" "an_flash_idx a"]
    by (cases "an_phase a") (auto simp: ahead_def next_seg_def seg_len_def pattern_ok_def)
  show "an_phase a = CTRL_ANNUNC_PH_GAP \<Longrightarrow> ahead (next_seg faults a) = cycle (ctrl_fault_top_code faults) \<and>
      an_code (next_seg faults a) = ctrl_fault_top_code faults"
    using load_pattern_ok(2) by (simp add: next_seg_def) (simp add: annunc_load_pattern_def Let_def)
  show "an_phase a \<noteq> CTRL_ANNUNC_PH_GAP \<Longrightarrow> an_code (next_seg faults a) = an_code a"
    by (cases "an_phase a") (simp_all add: next_seg_def)
qed

lemma seg_len_pos: "0 < seg_len a"
  by (cases "an_phase a") (simp_all add: seg_len_def flash_len_def gap_len_def)

lemma next_seg_time:
  assumes "\<not> unat (an_phase_ms a) < seg_len a"
  shows "unat (an_phase_ms (next_seg faults a)) = unat (an_phase_ms a) - seg_len a"
proof -
  have s: "seg_len a \<le> unat (an_phase_ms a)" using assms by simp
  then have "unat (of_nat (seg_len a) :: u32) = seg_len a"
    using unat_lt2p [of "an_phase_ms a"] by (simp add: unat_of_nat take_bit_nat_eq_self)
  then have "unat (an_phase_ms a - of_nat (seg_len a)) = unat (an_phase_ms a) - seg_len a"
    using s by (simp add: unat_sub word_le_nat_alt)
  then show ?thesis by (cases "an_phase a") (simp_all add: next_seg_def)
qed

text \<open>The loop against the timeline.\<close>

lemma walk_within:
  assumes "pattern_ok a" "unat (an_phase_ms a) < span (ahead a)"
  shows "snd (annunc_walk faults a) = lamp_at (ahead a) (unat (an_phase_ms a)) \<and>
    an_code (fst (annunc_walk faults a)) = an_code a"
  using assms
proof (induction "unat (an_phase_ms a)" arbitrary: a rule: less_induct)
  case less
  show ?case
  proof (cases "unat (an_phase_ms a) < seg_len a")
    case True
    then show ?thesis using walk_unfold [OF less.prems(1)] next_seg_ahead(1) [OF less.prems(1), of faults] by simp
  next
    case False
    have g: "an_phase a \<noteq> CTRL_ANNUNC_PH_GAP"
      using False less.prems(2) next_seg_ahead(1) [OF less.prems(1), of faults] by (auto simp: span_def)
    note ah = next_seg_ahead(1) [OF less.prems(1), of faults]
    note t = next_seg_time [OF False, of faults]
    have lt: "unat (an_phase_ms (next_seg faults a)) < unat (an_phase_ms a)"
      using t False seg_len_pos [of a] by simp
    have "unat (an_phase_ms (next_seg faults a)) < span (ahead (next_seg faults a))"
      using less.prems(2) ah g t False by (simp add: span_def)
    from less.hyps [OF lt next_seg_ok [OF less.prems(1)] this] show ?thesis
      using walk_unfold [OF less.prems(1), of faults] False ah g t next_seg_ahead(3) [OF less.prems(1) g] by simp
  qed
qed

lemma walk_beyond:
  assumes "pattern_ok a" "span (ahead a) \<le> unat (an_phase_ms a)"
  shows "\<exists>b. annunc_walk faults a = annunc_walk faults b \<and> pattern_ok b \<and>
    an_phase b = CTRL_ANNUNC_PH_FLASH \<and> ahead b = cycle (ctrl_fault_top_code faults) \<and>
    an_code b = ctrl_fault_top_code faults \<and> unat (an_phase_ms b) = unat (an_phase_ms a) - span (ahead a)"
  using assms
proof (induction "unat (an_phase_ms a)" arbitrary: a rule: less_induct)
  case less
  note ah = next_seg_ahead(1) [OF less.prems(1), of faults]
  have F: "\<not> unat (an_phase_ms a) < seg_len a" using less.prems(2) ah by (simp add: span_def)
  note t = next_seg_time [OF F, of faults]
  have w: "annunc_walk faults a = annunc_walk faults (next_seg faults a)"
    using walk_unfold [OF less.prems(1)] F by simp
  show ?case
  proof (cases "an_phase a = CTRL_ANNUNC_PH_GAP")
    case True
    have "an_phase (next_seg faults a) = CTRL_ANNUNC_PH_FLASH" using True by (simp add: next_seg_def)
    then show ?thesis using w next_seg_ok [OF less.prems(1)] next_seg_ahead(2) [OF less.prems(1) True] t ah True
      by (intro exI [of _ "next_seg faults a"]) (simp add: span_def)
  next
    case False
    have lt: "unat (an_phase_ms (next_seg faults a)) < unat (an_phase_ms a)"
      using t F seg_len_pos [of a] by simp
    have "span (ahead (next_seg faults a)) \<le> unat (an_phase_ms (next_seg faults a))"
      using less.prems(2) ah False t F by (simp add: span_def)
    from less.hyps [OF lt next_seg_ok [OF less.prems(1)] this] show ?thesis
      using w t ah False F by (auto simp: span_def)
  qed
qed

section \<open>Runs\<close>

definition annunc_inv :: "ctrl_annunc_t \<Rightarrow> bool" where
  "annunc_inv a \<longleftrightarrow> pattern_ok a \<and> unat (an_phase_ms a) < seg_len a"

definition annunc_step :: "ctrl_annunc_t \<Rightarrow> u32 \<times> u32 \<Rightarrow> ctrl_annunc_t" where
  "annunc_step a e = fst (ctrl_annunc_update a (fst e) (snd e))"

lemma walk_inv:
  assumes "pattern_ok a"
  shows "annunc_inv (fst (annunc_walk faults a))"
  using assms
proof (induction "unat (an_phase_ms a)" arbitrary: a rule: less_induct)
  case less
  show ?case
  proof (cases "unat (an_phase_ms a) < seg_len a")
    case True
    then show ?thesis using walk_unfold [OF less.prems] less.prems by (simp add: annunc_inv_def)
  next
    case False
    have "unat (an_phase_ms (next_seg faults a)) < unat (an_phase_ms a)"
      using next_seg_time [OF False, of faults] False seg_len_pos [of a] by simp
    from less.hyps [OF this next_seg_ok [OF less.prems]] show ?thesis
      using walk_unfold [OF less.prems] False by simp
  qed
qed

lemma pattern_ok_time [simp]: "pattern_ok (a\<lparr>an_phase_ms := t\<rparr>) = pattern_ok a"
  by (simp add: pattern_ok_def)

lemma ahead_time [simp]: "ahead (a\<lparr>an_phase_ms := t\<rparr>) = ahead a" "seg_len (a\<lparr>an_phase_ms := t\<rparr>) = seg_len a"
  by (cases "an_phase a"; simp add: ahead_def seg_len_def)+

interpretation blinker: machine annunc_step "\<lambda>e. True" annunc_inv
  by unfold_locales (simp add: annunc_step_def ctrl_annunc_update_def annunc_inv_def walk_inv [unfolded annunc_inv_def])

lemma init_inv: "annunc_inv (ctrl_annunc_init a)"
  using load_pattern_ok(1) [of 0 a] by (simp add: annunc_inv_def ctrl_annunc_init_def seg_len_def flash_len_def)

section \<open>The shape of a cycle\<close>

fun with_gaps :: "(bool \<times> nat) list \<Rightarrow> (bool \<times> nat) list" where
  "with_gaps [] = []"
| "with_gaps [x] = [x]"
| "with_gaps (x # y # xs) = x # (False, 300) # with_gaps (y # xs)"

lemma flash_segments_shape:
  "i < code_total code \<Longrightarrow> flash_segments code i =
    with_gaps (map (\<lambda>j. (True, flash_len code j)) [i..<code_total code]) @ [(False, gap_len code)]"
proof (induction "code_total code - i" arbitrary: i)
  case (Suc n)
  show ?case
  proof (cases "i + 1 < code_total code")
    case True
    then have u: "[i..<code_total code] = i # Suc i # [Suc (Suc i)..<code_total code]"
      by (simp add: upt_rec)
    have "flash_segments code (i + 1) =
        with_gaps (map (\<lambda>j. (True, flash_len code j)) [i + 1..<code_total code]) @ [(False, gap_len code)]"
      using True Suc by simp
    then show ?thesis using True by (subst flash_segments.simps) (simp add: u upt_rec [of "Suc i"])
  next
    case False
    then have "[i..<code_total code] = [i]" using Suc.prems by (simp add: upt_rec)
    then show ?thesis using False by (subst flash_segments.simps) simp
  qed
qed simp

lemma flashes_replicate:
  assumes "0 < code"
  shows "map (\<lambda>j. (True, flash_len code j)) [0..<code_total code] =
    replicate (code div 10) (True, 600) @ replicate (code mod 10) (True, 200)"
proof -
  have "[0..<code_total code] = [0..<code div 10] @ [code div 10..<code div 10 + code mod 10]"
    using assms upt_add_eq_append [of 0 "code div 10" "code mod 10"] by (simp add: code_total_def)
  moreover have "map (\<lambda>j. (True, flash_len code j)) [0..<code div 10] = replicate (code div 10) (True, 600)"
    using assms by (auto simp: flash_len_def intro!: nth_equalityI)
  moreover have "map (\<lambda>j. (True, flash_len code j)) [code div 10..<code div 10 + code mod 10] = replicate (code mod 10) (True, 200)"
    using assms by (auto simp: flash_len_def intro!: nth_equalityI)
  ultimately show ?thesis by simp
qed

lemma cycle_shape:
  "cycle code = (if code = 0 then [(True, 100), (False, 2900)]
     else with_gaps (replicate (code div 10) (True, 600) @ replicate (code mod 10) (True, 200)) @ [(False, 2000)])"
proof (cases "code = 0")
  case True
  then show ?thesis by (simp add: cycle_def flash_segments.simps code_total_def flash_len_def gap_len_def)
next
  case False
  then show ?thesis using flash_segments_shape [of 0 code] code_total_pos [of code] flashes_replicate [of code]
    by (simp add: cycle_def gap_len_def)
qed

lemma span_with_gaps: "xs \<noteq> [] \<Longrightarrow> span (with_gaps xs) = span xs + 300 * (length xs - 1)"
  by (induction xs rule: with_gaps.induct) (simp_all add: span_def)

lemma span_append: "span (a @ b) = span a + span b"
  by (simp add: span_def)

lemma span_cycle:
  "span (cycle code) = (if code = 0 then 3000
     else 600 * (code div 10) + 200 * (code mod 10) + 300 * (code div 10 + code mod 10 - 1) + 2000)"
proof (cases "code = 0")
  case False
  then have "replicate (code div 10) (True, 600) @ replicate (code mod 10) (True, 200) \<noteq> []"
    using div_mult_mod_eq [of code 10] by auto
  from span_with_gaps [OF this] show ?thesis using False
    by (simp add: cycle_shape span_append) (simp add: span_def sum_list_replicate)
qed (simp add: cycle_shape span_def)

lemma span_cycle_pos: "0 < span (cycle code)"
  by (simp add: span_cycle)

section \<open>Properties\<close>

text \<open>The walk from the start of a cycle, any number of cycles long, with a constant fault set.\<close>

lemma walk_cycles:
  assumes "pattern_ok a" "ahead a = cycle (ctrl_fault_top_code faults)" "an_code a = ctrl_fault_top_code faults"
  shows "snd (annunc_walk faults a) =
      lamp_at (cycle (ctrl_fault_top_code faults)) (unat (an_phase_ms a) mod span (cycle (ctrl_fault_top_code faults))) \<and>
    an_code (fst (annunc_walk faults a)) = ctrl_fault_top_code faults"
  using assms
proof (induction "unat (an_phase_ms a)" arbitrary: a rule: less_induct)
  case less
  let ?s = "span (cycle (ctrl_fault_top_code faults))"
  show ?case
  proof (cases "unat (an_phase_ms a) < ?s")
    case True
    then show ?thesis using walk_within [OF less.prems(1), of faults] less.prems(2,3) by simp
  next
    case False
    then have ge: "span (ahead a) \<le> unat (an_phase_ms a)" using less.prems(2) by simp
    obtain b where b: "annunc_walk faults a = annunc_walk faults b" "pattern_ok b"
      "ahead b = cycle (ctrl_fault_top_code faults)" "an_code b = ctrl_fault_top_code faults"
      "unat (an_phase_ms b) = unat (an_phase_ms a) - ?s"
      using walk_beyond [OF less.prems(1) ge] less.prems(2) by auto
    have "unat (an_phase_ms b) < unat (an_phase_ms a)"
      using b(5) False span_cycle_pos [of "ctrl_fault_top_code faults"] by simp
    from less.hyps [OF this b(2-4)] show ?thesis
      using b(1,5) False by (simp add: le_mod_geq)
  qed
qed

text \<open>C38 (refinement). The encoder implements the timeline: for any state of a run from
  \<open>ctrl_annunc_init\<close> and any time step that does not overflow the phase clock, if the step ends
  inside the cycle on display then the lamp is the timeline's value at that instant and the
  displayed code is unchanged, whatever the faults are now; if it ends beyond, the code is the
  pick for the present faults and the lamp is the value of that code's repeating cycle.\<close>

theorem annunc_follows_timeline:
  assumes "a = foldl annunc_step (ctrl_annunc_init a0) es"
    and "unat (an_phase_ms a) + unat dt < 2 ^ 32"
  shows "(if unat (an_phase_ms a) + unat dt < span (ahead a)
     then snd (ctrl_annunc_update a faults dt) = lamp_at (ahead a) (unat (an_phase_ms a) + unat dt) \<and>
       an_code (fst (ctrl_annunc_update a faults dt)) = an_code a
     else snd (ctrl_annunc_update a faults dt) =
         lamp_at (cycle (ctrl_fault_top_code faults))
           ((unat (an_phase_ms a) + unat dt - span (ahead a)) mod span (cycle (ctrl_fault_top_code faults))) \<and>
       an_code (fst (ctrl_annunc_update a faults dt)) = ctrl_fault_top_code faults)"
proof -
  have ok: "pattern_ok a"
    using blinker.inv_run [OF init_inv, of es a0] assms(1) by (simp add: list_all_iff annunc_inv_def)
  let ?b = "a\<lparr>an_phase_ms := an_phase_ms a + dt\<rparr>"
  have t: "unat (an_phase_ms ?b) = unat (an_phase_ms a) + unat dt"
    using assms(2) by (simp add: unat_add_lem [THEN iffD1])
  show ?thesis
  proof (cases "unat (an_phase_ms a) + unat dt < span (ahead a)")
    case True
    then show ?thesis using walk_within [of ?b faults] ok t by (simp add: ctrl_annunc_update_def)
  next
    case False
    then obtain b where b: "annunc_walk faults ?b = annunc_walk faults b" "pattern_ok b"
      "ahead b = cycle (ctrl_fault_top_code faults)" "an_code b = ctrl_fault_top_code faults"
      "unat (an_phase_ms b) = unat (an_phase_ms a) + unat dt - span (ahead a)"
      using walk_beyond [of ?b faults] ok t by auto
    then show ?thesis using walk_cycles [OF b(2-4)] False by (simp add: ctrl_annunc_update_def)
  qed
qed

definition sample_annunc :: ctrl_annunc_t where
  "sample_annunc = \<lparr>an_code = 7, an_longs = 1, an_total = 0, an_flash_idx = 9, an_phase = CTRL_ANNUNC_PH_GAP, an_phase_ms = 12\<rparr>"

theorem annunc_follows_timeline_witness:
  "snd (ctrl_annunc_update (ctrl_annunc_init sample_annunc) 1 3100) = True \<and>
   an_code (fst (ctrl_annunc_update (ctrl_annunc_init sample_annunc) 1 3100)) = 1"
proof -
  have k: "ctrl_fault_top_code 1 = 1"
    using top_code_spec [of 1] by (metis add_0 bit_1_iff one_neq_zero)
  have i: "an_phase_ms (ctrl_annunc_init sample_annunc) = 0" "ahead (ctrl_annunc_init sample_annunc) = cycle 0"
    using load_pattern_ok(2) [of sample_annunc 0] by (simp_all add: ctrl_annunc_init_def)
  have "lamp_at (cycle 1) 100" by (simp add: cycle_shape)
  then show ?thesis using annunc_follows_timeline [of "ctrl_annunc_init sample_annunc" sample_annunc "[]" 3100 1]
    by (simp add: i k span_cycle)
qed

text \<open>The displayed cycle of code k > 0 is k div 10 long flashes of 600 ms and
  then k mod 10 short ones of 200 ms, 300 ms apart, and 2 s of dark; code 0 is a 100 ms
  heartbeat every 3 s. It lasts 7.1 s for code 19, the longest of the declared codes.\<close>

theorem annunc_cycle_shape:
  "ahead (ctrl_annunc_init a) = [(True, 100), (False, 2900)] \<and>
   ahead ((annunc_load_pattern a (Suc k))\<lparr>an_phase := CTRL_ANNUNC_PH_FLASH\<rparr>) =
     with_gaps (replicate (Suc k div 10) (True, 600) @ replicate (Suc k mod 10) (True, 200)) @ [(False, 2000)] \<and>
   span (ahead ((annunc_load_pattern a 19)\<lparr>an_phase := CTRL_ANNUNC_PH_FLASH\<rparr>)) = 7100 \<and>
   list_all (\<lambda>c. span (ahead ((annunc_load_pattern a c)\<lparr>an_phase := CTRL_ANNUNC_PH_FLASH\<rparr>)) \<le> 7100) [0..<20]"
proof -
  have "ahead (ctrl_annunc_init a) = cycle 0"
    using load_pattern_ok(2) [of a 0] by (simp add: ctrl_annunc_init_def)
  moreover have "list_all (\<lambda>c. span (cycle c) \<le> 7100) [0..<20]"
    unfolding upt_rec_numeral by (simp add: upt_rec span_cycle)
  ultimately show ?thesis by (simp add: load_pattern_ok(2) cycle_shape [of 0] cycle_shape [of "Suc k"] span_cycle)
qed

lemma walk_split:
  assumes "pattern_ok a" "unat (an_phase_ms a) + d < 2 ^ 32"
  shows "annunc_walk faults ((fst (annunc_walk faults a))\<lparr>an_phase_ms := an_phase_ms (fst (annunc_walk faults a)) + of_nat d\<rparr>)
    = annunc_walk faults (a\<lparr>an_phase_ms := an_phase_ms a + of_nat d\<rparr>)"
  using assms
proof (induction "unat (an_phase_ms a)" arbitrary: a rule: less_induct)
  case less
  show ?case
  proof (cases "unat (an_phase_ms a) < seg_len a")
    case True
    then show ?thesis using walk_unfold [OF less.prems(1)] by simp
  next
    case False
    let ?d = "of_nat d :: u32"
    let ?n = "next_seg faults a"
    let ?e = "a\<lparr>an_phase_ms := an_phase_ms a + ?d\<rparr>"
    note t = next_seg_time [OF False, of faults]
    have d: "unat ?d = d" using less.prems(2) by (simp add: unat_of_nat take_bit_nat_eq_self)
    have "unat (an_phase_ms a + ?d) = unat (an_phase_ms a) + d"
      using less.prems(2) by (simp add: unat_add_lem [THEN iffD1] d)
    then have F: "\<not> unat (an_phase_ms ?e) < seg_len ?e" using False by simp
    have ne: "next_seg faults ?e = ?n\<lparr>an_phase_ms := an_phase_ms ?n + ?d\<rparr>"
      by (cases "an_phase a") (simp_all add: next_seg_def seg_len_def annunc_load_pattern_def Let_def)
    have lt: "unat (an_phase_ms ?n) < unat (an_phase_ms a)" using t False seg_len_pos [of a] by simp
    have "unat (an_phase_ms ?n) + d < 2 ^ 32" using less.prems(2) t by simp
    from less.hyps [OF lt next_seg_ok [OF less.prems(1)] this] show ?thesis
      using walk_unfold [OF less.prems(1), of faults] walk_unfold [of ?e faults] less.prems(1) False F ne by simp
  qed
qed

text \<open>The tick size does not matter: with the same faults, two updates of
  \<open>d\<close> and \<open>e\<close> milliseconds leave the same state and lamp as one update of \<open>d + e\<close>, for every
  state of a run, as long as the phase clock does not overflow.\<close>

theorem annunc_tick_size_irrelevant:
  assumes "a = foldl annunc_step (ctrl_annunc_init a0) es"
    and "unat (an_phase_ms a) + unat d + unat e < 2 ^ 32"
  shows "ctrl_annunc_update (fst (ctrl_annunc_update a faults d)) faults e = ctrl_annunc_update a faults (d + e)"
proof -
  have ok: "pattern_ok a"
    using blinker.inv_run [OF init_inv, of es a0] assms(1) by (simp add: list_all_iff annunc_inv_def)
  let ?b = "a\<lparr>an_phase_ms := an_phase_ms a + d\<rparr>"
  have "unat (an_phase_ms ?b) + unat e < 2 ^ 32"
    using assms(2) by (simp add: unat_add_lem [THEN iffD1])
  from walk_split [of ?b "unat e" faults] this ok show ?thesis
    by (simp add: ctrl_annunc_update_def add.assoc)
qed

theorem annunc_tick_size_irrelevant_witness:
  "ctrl_annunc_update (fst (ctrl_annunc_update (ctrl_annunc_init sample_annunc) 1 2500)) 1 1700 =
   ctrl_annunc_update (ctrl_annunc_init sample_annunc) 1 4200"
  using annunc_tick_size_irrelevant [of "ctrl_annunc_init sample_annunc" sample_annunc "[]" 2500 1700 1]
  by (simp add: ctrl_annunc_init_def)

end
