(* ===== verification/Wire.thy ===== *)
theory Wire
  imports Ctrl_Types
begin

text \<open>
  Little-endian fields of the packed record, the \<open>put_\<close> and \<open>get_\<close> helpers of
  \<open>control/Src/config_codec.c\<close>. A writer appends to the bytes written so far (the C offset is
  their number); a reader consumes the bytes not yet read (the C offset is what has been
  consumed). The locale \<open>wire_field\<close> is the contract a field codec gives the record codec:
  fixed width and exact round trip; it is interpreted for every scalar field here, and for the
  profile block and the whole payload in \<open>Config_Codec\<close>.
\<close>

section \<open>Interface of a field codec\<close>

locale wire_field =
  fixes put :: "'a \<Rightarrow> u8 list"
    and get :: "u8 list \<Rightarrow> 'a \<times> u8 list"
    and width :: nat
    and ok :: "'a \<Rightarrow> bool"
  assumes put_length: "ok v \<Longrightarrow> length (put v) = width"
    and get_put: "ok v \<Longrightarrow> get (put v @ rest) = (v, rest)"
begin

lemma put_inj: "ok v \<Longrightarrow> ok w \<Longrightarrow> put v = put w \<longleftrightarrow> v = w"
proof -
  assume ok: "ok v" "ok w"
  have "v = w" if "put v = put w"
    using get_put [OF ok(1), of "[]"] get_put [OF ok(2), of "[]"] unfolding that by simp
  then show ?thesis by blast
qed

lemma put_unambiguous:
  "ok v \<Longrightarrow> ok w \<Longrightarrow> put v @ r = put w @ s \<longleftrightarrow> v = w \<and> r = s"
proof -
  assume ok: "ok v" "ok w"
  have "v = w \<and> r = s" if "put v @ r = put w @ s"
    using get_put [OF ok(1), of r] get_put [OF ok(2), of s] unfolding that by simp
  then show ?thesis by blast
qed

end

text \<open>An exact field: every byte string of the width is the encoding of some value.\<close>

locale wire_exact = wire_field +
  assumes put_get: "width \<le> length r \<Longrightarrow> put (fst (get r)) = take width r"
begin

lemma get_inj:
  assumes l: "length r = width" "length s = width"
  shows "fst (get r) = fst (get s) \<longleftrightarrow> r = s"
proof
  assume e: "fst (get r) = fst (get s)"
  have "r = put (fst (get r))" "s = put (fst (get s))"
    using put_get [of r] put_get [of s] l by simp_all
  then show "r = s" unfolding e by simp
qed simp

end

section \<open>The scalar fields\<close>

definition put_u8 :: "u8 \<Rightarrow> u8 list" where "put_u8 v = [v]"
definition put_i8 :: "i8 \<Rightarrow> u8 list" where "put_i8 v = [v]"

definition put_u16 :: "u16 \<Rightarrow> u8 list" where
  "put_u16 v = [ucast (v AND 0xFF), ucast (drop_bit 8 v AND 0xFF)]"

definition put_u32 :: "u32 \<Rightarrow> u8 list" where
  "put_u32 v = [ucast (v AND 0xFF), ucast (drop_bit 8 v AND 0xFF), ucast (drop_bit 16 v AND 0xFF),
     ucast (drop_bit 24 v AND 0xFF)]"

definition put_f32 :: "f32 \<Rightarrow> u8 list" where "put_f32 v = put_u32 (f32_bits v)"

definition put_bool :: "bool \<Rightarrow> u8 list" where "put_bool v = put_u8 (if v then 1 else 0)"

definition get_u8 :: "u8 list \<Rightarrow> u8 \<times> u8 list" where "get_u8 r = (r ! 0, drop 1 r)"
definition get_i8 :: "u8 list \<Rightarrow> i8 \<times> u8 list" where "get_i8 r = (r ! 0, drop 1 r)"

definition get_u16 :: "u8 list \<Rightarrow> u16 \<times> u8 list" where
  "get_u16 r = (ucast (r ! 0) OR push_bit 8 (ucast (r ! 1)), drop 2 r)"

definition get_u32 :: "u8 list \<Rightarrow> u32 \<times> u8 list" where
  "get_u32 r = (ucast (r ! 0) OR push_bit 8 (ucast (r ! 1)) OR push_bit 16 (ucast (r ! 2))
     OR push_bit 24 (ucast (r ! 3)), drop 4 r)"

definition get_f32 :: "u8 list \<Rightarrow> f32 \<times> u8 list" where
  "get_f32 r = (case get_u32 r of (u, r) \<Rightarrow> (F32 u, r))"

definition get_bool :: "u8 list \<Rightarrow> bool \<times> u8 list" where
  "get_bool r = (case get_u8 r of (v, r) \<Rightarrow> (v \<noteq> 0, r))"

lemma byte_mask: "(0xFF :: 'a::len word) = mask 8"
  by (simp add: mask_eq_exp_minus_1)

lemma bit_byte: "bit (ucast (ucast (drop_bit k v AND mask 8) :: u8) :: 'a::len word) n \<longleftrightarrow>
    n < LENGTH('a) \<and> n < 8 \<and> bit (v :: 'b::len word) (k + n)"
  by (auto simp: bit_simps dest: bit_imp_le_length)

lemma byte0: "v AND mask 8 = drop_bit 0 v AND mask 8"
  by simp

lemma u16_bytes:
  "(ucast (ucast (v AND 0xFF) :: u8) :: u16) OR push_bit 8 (ucast (ucast (drop_bit 8 v AND 0xFF) :: u8)) = v"
  unfolding byte_mask by (subst (1) byte0) (rule bit_word_eqI, simp only: bit_or_iff bit_push_bit_iff bit_byte, auto)


lemma four_bytes:
  assumes "n < (32 :: nat)"
  shows "n < 8 \<and> P n \<or> 8 \<le> n \<and> n - 8 < 8 \<and> P (8 + (n - 8)) \<or> 16 \<le> n \<and> n - 16 < 8 \<and> P (16 + (n - 16)) \<or>
    24 \<le> n \<and> n - 24 < 8 \<and> P (24 + (n - 24)) \<longleftrightarrow> P n"
proof -
  consider "n < 8" | "8 \<le> n" "n < 16" | "16 \<le> n" "n < 24" | "24 \<le> n" by linarith
  then show ?thesis using assms by cases (auto simp: less_diff_conv2)
qed

lemma u32_bytes:
  "(ucast (ucast (v AND 0xFF) :: u8) :: u32) OR push_bit 8 (ucast (ucast (drop_bit 8 v AND 0xFF) :: u8))
     OR push_bit 16 (ucast (ucast (drop_bit 16 v AND 0xFF) :: u8))
     OR push_bit 24 (ucast (ucast (drop_bit 24 v AND 0xFF) :: u8)) = v"
  unfolding byte_mask
proof (subst (1) byte0, rule bit_word_eqI)
  fix n assume "n < LENGTH(32)"
  then show "bit ((ucast (ucast (drop_bit 0 v AND mask 8) :: u8) :: u32)
      OR push_bit 8 (ucast (ucast (drop_bit 8 v AND mask 8) :: u8))
      OR push_bit 16 (ucast (ucast (drop_bit 16 v AND mask 8) :: u8))
      OR push_bit 24 (ucast (ucast (drop_bit 24 v AND mask 8) :: u8))) n \<longleftrightarrow> bit v n"
    using four_bytes [of n "bit v"] by (simp only: bit_or_iff bit_push_bit_iff bit_byte) auto
qed

section \<open>The scalar fields keep the contract\<close>

interpretation w8: wire_field put_u8 get_u8 1 "\<lambda>v. True"
  by unfold_locales (simp_all add: put_u8_def get_u8_def)

interpretation wi8: wire_field put_i8 get_i8 1 "\<lambda>v. True"
  by unfold_locales (simp_all add: put_i8_def get_i8_def)

interpretation w16: wire_field put_u16 get_u16 2 "\<lambda>v. True"
  by unfold_locales (simp_all add: put_u16_def get_u16_def u16_bytes)

interpretation w32: wire_field put_u32 get_u32 4 "\<lambda>v. True"
  by unfold_locales (simp_all add: put_u32_def get_u32_def u32_bytes)

interpretation wf32: wire_field put_f32 get_f32 4 "\<lambda>v. True"
  by unfold_locales (simp_all add: put_f32_def get_f32_def w32.put_length w32.get_put)

interpretation wbool: wire_field put_bool get_bool 1 "\<lambda>v. True"
  by unfold_locales (simp_all add: put_bool_def get_bool_def w8.put_length w8.get_put)

text \<open>Little-endian words are exact fields: their bytes determine them and conversely.\<close>

lemma byte_of_or:
  "bit (ucast (drop_bit k v AND 0xFF) :: u8) n \<longleftrightarrow> n < 8 \<and> bit (v :: 'a::len word) (k + n)"
  unfolding byte_mask by (auto simp: bit_simps dest: bit_imp_le_length)

lemma u32_from_bytes:
  fixes a b c d :: u8
  defines "v \<equiv> (ucast a OR push_bit 8 (ucast b) OR push_bit 16 (ucast c) OR push_bit 24 (ucast d) :: u32)"
  shows "ucast (v AND 0xFF) = a" "ucast (drop_bit 8 v AND 0xFF) = b" "ucast (drop_bit 16 v AND 0xFF) = c"
    "ucast (drop_bit 24 v AND 0xFF) = d"
proof -
  have bits: "bit v n \<longleftrightarrow> n < 32 \<and> (bit a n \<or> 8 \<le> n \<and> bit b (n - 8) \<or> 16 \<le> n \<and> bit c (n - 16) \<or> 24 \<le> n \<and> bit d (n - 24))" for n
    unfolding v_def by (auto simp: bit_simps dest: bit_imp_le_length)
  have le: "\<not> bit (x :: u8) n" if "8 \<le> n" for x n
    using that bit_imp_le_length [of x n] by auto
  show "ucast (v AND 0xFF) = a"
    by (rule bit_word_eqI) (simp add: byte_of_or [of 0, simplified] bits)
  show "ucast (drop_bit 8 v AND 0xFF) = b" "ucast (drop_bit 16 v AND 0xFF) = c" "ucast (drop_bit 24 v AND 0xFF) = d"
    by (rule bit_word_eqI; simp add: byte_of_or bits le)+
qed

lemma take_4: "4 \<le> length r \<Longrightarrow> take 4 r = [r ! 0, r ! 1, r ! 2, r ! 3]"
  by (rule nth_equalityI) (auto simp: numeral_eq_Suc less_Suc_eq nth_Cons')

lemma u32_put_get: "4 \<le> length r \<Longrightarrow> put_u32 (fst (get_u32 r)) = take 4 r"
  unfolding put_u32_def get_u32_def fst_conv u32_from_bytes by (rule take_4 [symmetric])

interpretation w32x: wire_exact put_u32 get_u32 4 "\<lambda>v. True"
  by unfold_locales (rule u32_put_get)

interpretation wf32x: wire_exact put_f32 get_f32 4 "\<lambda>v. True"
  by unfold_locales (simp add: put_f32_def get_f32_def split_beta w32x.put_get)

lemmas field_lengths [wire_simps] = w8.put_length wi8.put_length w16.put_length w32.put_length
  wf32.put_length wbool.put_length

lemmas field_round_trips [wire_simps] = w8.get_put wi8.get_put w16.get_put w32.get_put wf32.get_put wbool.get_put

end
