(* ===== verification/Config_Codec.thy ===== *)
theory Config_Codec
  imports Wire
begin

text \<open>
  The packed configuration record, \<open>control/Src/config_codec.c\<close> and
  \<open>control/Inc/config_codec.h\<close>: header, 292-byte payload, CRC-32. The profile block and the
  payload are interpretations of \<open>wire_field\<close>, from which the round trip of the whole record
  follows; the CRC step is shown injective, so a record with any single corrupted byte is
  rejected. Pointers are valid objects here: the C functions' NULL checks, which no caller in
  the firmware reaches, are not modelled. Enumerations the decoder stores verbatim are bytes.
\<close>

section \<open>The configuration\<close>

record cfg_primitives_t =
  pr_v_bulk :: f32
  pr_v_bulk_cons :: f32
  pr_v_float :: f32
  pr_v_float_cons :: f32
  pr_v_limp :: f32

type_synonym cfg_prim_ref_t = u8

definition CFG_PRIM_NONE :: cfg_prim_ref_t where "CFG_PRIM_NONE = 0"
definition CFG_PRIM_V_BULK :: cfg_prim_ref_t where "CFG_PRIM_V_BULK = 1"
definition CFG_PRIM_V_BULK_CONS :: cfg_prim_ref_t where "CFG_PRIM_V_BULK_CONS = 2"
definition CFG_PRIM_V_FLOAT :: cfg_prim_ref_t where "CFG_PRIM_V_FLOAT = 3"
definition CFG_PRIM_V_FLOAT_CONS :: cfg_prim_ref_t where "CFG_PRIM_V_FLOAT_CONS = 4"
definition CFG_PRIM_V_LIMP :: cfg_prim_ref_t where "CFG_PRIM_V_LIMP = 5"

lemmas cfg_prims = CFG_PRIM_NONE_def CFG_PRIM_V_BULK_def CFG_PRIM_V_BULK_CONS_def CFG_PRIM_V_FLOAT_def
  CFG_PRIM_V_FLOAT_CONS_def CFG_PRIM_V_LIMP_def

definition CFG_PROF_FLAG_RESERVED :: u8 where "CFG_PROF_FLAG_RESERVED = 1"

record cfg_profile_t =
  cp_p :: ctrl_profile_t
  cp_flags :: u8
  cp_cv_target_ref :: cfg_prim_ref_t
  cp_rest_voltage_ref :: cfg_prim_ref_t

record ctrl_config_t =
  cfg_prim :: cfg_primitives_t
  cfg_globals :: ctrl_globals_t
  cfg_limits :: ctrl_limits_t
  cfg_profiles :: "cfg_profile_t list"
  cfg_active_profile :: u8

definition CFG_PROFILE_COUNT :: nat where "CFG_PROFILE_COUNT = 7"

text \<open>The array has exactly its seven slots.\<close>

definition cfg_wf :: "ctrl_config_t \<Rightarrow> bool" where
  "cfg_wf cfg \<longleftrightarrow> length (cfg_profiles cfg) = CFG_PROFILE_COUNT"

definition CFG_SCHEMA_VERSION :: u16 where "CFG_SCHEMA_VERSION = 2"
definition CFG_HEADER_BYTES :: nat where "CFG_HEADER_BYTES = 16"
definition CFG_PAYLOAD_V1_BYTES :: nat where "CFG_PAYLOAD_V1_BYTES = 292"
definition CFG_CRC_BYTES :: nat where "CFG_CRC_BYTES = 4"

definition CFG_RECORD_V1_BYTES :: nat where
  "CFG_RECORD_V1_BYTES = CFG_HEADER_BYTES + CFG_PAYLOAD_V1_BYTES + CFG_CRC_BYTES"

definition CFG_MAGIC :: "u8 list" where "CFG_MAGIC = [0x57, 0x35, 0x43, 0x46]" \<comment> \<open>W 5 C F\<close>

section \<open>Primitives\<close>

definition cfg_primitive_value :: "cfg_primitives_t \<Rightarrow> cfg_prim_ref_t \<Rightarrow> f32" where
  "cfg_primitive_value prim ref =
     (if ref = CFG_PRIM_V_BULK then pr_v_bulk prim
      else if ref = CFG_PRIM_V_BULK_CONS then pr_v_bulk_cons prim
      else if ref = CFG_PRIM_V_FLOAT then pr_v_float prim
      else if ref = CFG_PRIM_V_FLOAT_CONS then pr_v_float_cons prim
      else if ref = CFG_PRIM_V_LIMP then pr_v_limp prim
      else NAN)"

definition resolve_profile :: "cfg_primitives_t \<Rightarrow> cfg_profile_t \<Rightarrow> cfg_profile_t" where
  "resolve_profile prim pr =
     (let cv = cfg_primitive_value prim (cp_cv_target_ref pr);
          rest = cfg_primitive_value prim (cp_rest_voltage_ref pr);
          pr = (if \<not> isnan cv then pr\<lparr>cp_p := (cp_p pr)\<lparr>p_cv_target_vcell := cv\<rparr>\<rparr> else pr)
      in if \<not> isnan rest then pr\<lparr>cp_p := (cp_p pr)\<lparr>p_rest_voltage_vcell := rest\<rparr>\<rparr> else pr)"

definition cfg_resolve_primitives :: "ctrl_config_t \<Rightarrow> ctrl_config_t" where
  "cfg_resolve_primitives cfg =
     cfg\<lparr>cfg_profiles := map (resolve_profile (cfg_prim cfg)) (cfg_profiles cfg),
         cfg_globals := (cfg_globals cfg)\<lparr>g_limp_vcell := pr_v_limp (cfg_prim cfg)\<rparr>\<rparr>"

section \<open>CRC-32\<close>

definition crc_bit :: "u32 \<Rightarrow> u32" where
  "crc_bit crc = drop_bit 1 crc XOR (0xEDB88320 AND - (crc AND 1))"

definition crc_byte :: "u32 \<Rightarrow> u8 \<Rightarrow> u32" where
  "crc_byte crc b = (crc_bit ^^ 8) (crc XOR ucast b)"

definition cfg_crc32 :: "u8 list \<Rightarrow> u32" where
  "cfg_crc32 data = foldl crc_byte 0xFFFFFFFF data XOR 0xFFFFFFFF"

section \<open>Payload\<close>

definition encode_primitives :: "cfg_primitives_t \<Rightarrow> u8 list" where
  "encode_primitives p = put_f32 (pr_v_bulk p) @ put_f32 (pr_v_bulk_cons p) @ put_f32 (pr_v_float p)
     @ put_f32 (pr_v_float_cons p) @ put_f32 (pr_v_limp p)"

definition encode_globals :: "ctrl_globals_t \<Rightarrow> u8 list" where
  "encode_globals g = put_u8 (g_cells_series g) @ put_f32 (g_bank_capacity_ah g)
     @ put_f32 (g_max_charge_power_w g) @ put_f32 (g_ramp_w_per_s g) @ put_f32 (g_p_tail_w g)
     @ put_u16 (g_t_tail_hold_s g) @ put_u16 (g_t_vclamp_s g) @ put_u16 (g_cv_hold_exit_min g)
     @ put_u16 (g_t_charge_max_min g) @ put_u16 (g_warmup_time_s g) @ put_f32 (g_warmup_coolant_c g)
     @ put_i8 (g_soc_target_pct g) @ put_f32 (g_skip_bulk_vcell g) @ put_i8 (g_skip_bulk_soc_pct g)
     @ put_f32 (g_rotor_rated_v g) @ put_f32 (g_rotor_v_max g) @ put_bool (g_allow_full_field_48v g)
     @ put_f32 (g_limp_vcell g) @ put_f32 (g_limp_power_cap_w g)"

definition encode_limits :: "ctrl_limits_t \<Rightarrow> u8 list" where
  "encode_limits l = put_f32 (lim_battery_c_limit l) @ put_f32 (lim_wiring_limit_a l) @ put_f32 (lim_alternator_limit_a l)"

definition encode_profile :: "cfg_profile_t \<Rightarrow> u8 list" where
  "encode_profile pr = (let p = cp_p pr in
     put_u8 (p_id p) @ put_u8 (cp_flags pr) @ put_u8 (cp_cv_target_ref pr) @ put_u8 (cp_rest_voltage_ref pr)
     @ put_f32 (p_cv_target_vcell p) @ put_bool (p_exit_at_cv_entry p) @ put_u8 (p_rest_mode p)
     @ put_f32 (p_rest_voltage_vcell p) @ put_f32 (p_rest_power_cap_w p) @ put_f32 (p_v_revert_vcell p)
     @ put_u16 (p_t_revert_hold_s p) @ put_i8 (p_soc_revert_pct p) @ put_f32 (p_ah_revert p))"

definition encode_profiles :: "cfg_profile_t list \<Rightarrow> u8 list" where
  "encode_profiles ps = concat (map (\<lambda>i. encode_profile (ps ! i)) [0..<CFG_PROFILE_COUNT])"

definition encode_payload :: "ctrl_config_t \<Rightarrow> u8 list" where
  "encode_payload cfg = encode_primitives (cfg_prim cfg) @ encode_globals (cfg_globals cfg)
     @ encode_limits (cfg_limits cfg) @ encode_profiles (cfg_profiles cfg)
     @ put_u8 (cfg_active_profile cfg)
     @ put_u8 (g_batt_temp_src (cfg_globals cfg)) @ put_bool (g_require_batt_temp (cfg_globals cfg))"

definition decode_primitives :: "u8 list \<Rightarrow> cfg_primitives_t \<times> u8 list" where
  "decode_primitives r = (let (a, r) = get_f32 r; (b, r) = get_f32 r; (c, r) = get_f32 r;
     (d, r) = get_f32 r; (e, r) = get_f32 r
     in (\<lparr>pr_v_bulk = a, pr_v_bulk_cons = b, pr_v_float = c, pr_v_float_cons = d, pr_v_limp = e\<rparr>, r))"

text \<open>The globals block; the two fields of the tail are filled in by \<open>decode_payload\<close>.\<close>

definition decode_globals :: "u8 list \<Rightarrow> (u8 \<Rightarrow> bool \<Rightarrow> ctrl_globals_t) \<times> u8 list" where
  "decode_globals r = (let (cells, r) = get_u8 r; (bank, r) = get_f32 r; (maxp, r) = get_f32 r;
     (ramp, r) = get_f32 r; (tailw, r) = get_f32 r; (tailh, r) = get_u16 r; (vclamp, r) = get_u16 r;
     (cvhold, r) = get_u16 r; (cmax, r) = get_u16 r; (warm, r) = get_u16 r; (cool, r) = get_f32 r;
     (soct, r) = get_i8 r; (skipv, r) = get_f32 r; (skips, r) = get_i8 r; (rotr, r) = get_f32 r;
     (rotm, r) = get_f32 r; (full, r) = get_bool r; (limpv, r) = get_f32 r; (limpp, r) = get_f32 r
     in (\<lambda>src req. \<lparr>g_cells_series = cells, g_bank_capacity_ah = bank, g_max_charge_power_w = maxp,
          g_ramp_w_per_s = ramp, g_p_tail_w = tailw, g_t_tail_hold_s = tailh, g_t_vclamp_s = vclamp,
          g_cv_hold_exit_min = cvhold, g_t_charge_max_min = cmax, g_warmup_time_s = warm,
          g_warmup_coolant_c = cool, g_soc_target_pct = soct, g_skip_bulk_vcell = skipv,
          g_skip_bulk_soc_pct = skips, g_rotor_rated_v = rotr, g_rotor_v_max = rotm,
          g_allow_full_field_48v = full, g_limp_vcell = limpv, g_limp_power_cap_w = limpp,
          g_batt_temp_src = src, g_require_batt_temp = req\<rparr>, r))"

definition decode_limits :: "u8 list \<Rightarrow> ctrl_limits_t \<times> u8 list" where
  "decode_limits r = (let (a, r) = get_f32 r; (b, r) = get_f32 r; (c, r) = get_f32 r
     in (\<lparr>lim_battery_c_limit = a, lim_wiring_limit_a = b, lim_alternator_limit_a = c\<rparr>, r))"

definition decode_profile :: "u8 list \<Rightarrow> cfg_profile_t \<times> u8 list" where
  "decode_profile r = (let (i, r) = get_u8 r; (fl, r) = get_u8 r; (cvr, r) = get_u8 r; (rvr, r) = get_u8 r;
     (cv, r) = get_f32 r; (ex, r) = get_bool r; (rm, r) = get_u8 r; (rv, r) = get_f32 r; (rp, r) = get_f32 r;
     (vr, r) = get_f32 r; (th, r) = get_u16 r; (sr, r) = get_i8 r; (ah, r) = get_f32 r
     in (\<lparr>cp_p = \<lparr>p_id = i, p_cv_target_vcell = cv, p_exit_at_cv_entry = ex, p_rest_mode = rm,
            p_rest_voltage_vcell = rv, p_rest_power_cap_w = rp, p_v_revert_vcell = vr, p_t_revert_hold_s = th,
            p_soc_revert_pct = sr, p_ah_revert = ah\<rparr>,
          cp_flags = fl, cp_cv_target_ref = cvr, cp_rest_voltage_ref = rvr\<rparr>, r))"

fun decode_profiles :: "nat \<Rightarrow> u8 list \<Rightarrow> cfg_profile_t list \<times> u8 list" where
  "decode_profiles 0 r = ([], r)"
| "decode_profiles (Suc n) r =
     (let (p, r) = decode_profile r; (ps, r) = decode_profiles n r in (p # ps, r))"

definition decode_payload :: "u8 list \<Rightarrow> ctrl_config_t \<times> u8 list" where
  "decode_payload r = (let (prim, r) = decode_primitives r; (glob, r) = decode_globals r;
     (lims, r) = decode_limits r; (ps, r) = decode_profiles CFG_PROFILE_COUNT r; (act, r) = get_u8 r;
     (src, r) = get_u8 r; (req, r) = get_bool r
     in (\<lparr>cfg_prim = prim, cfg_globals = glob src req, cfg_limits = lims, cfg_profiles = ps,
          cfg_active_profile = act\<rparr>, r))"

section \<open>Framing\<close>

datatype cfg_dec_t = CFG_DEC_OK | CFG_DEC_ERR_SHORT | CFG_DEC_ERR_MAGIC | CFG_DEC_ERR_VERSION
  | CFG_DEC_ERR_LEN | CFG_DEC_ERR_CRC | CFG_DEC_ERR_ARG

text \<open>The header and payload, which the CRC covers.\<close>

definition encode_body :: "ctrl_config_t \<Rightarrow> u32 \<Rightarrow> u8 list" where
  "encode_body cfg generation =
     CFG_MAGIC @ put_u16 CFG_SCHEMA_VERSION @ put_u16 0 @ put_u32 generation
     @ put_u16 (of_nat CFG_PAYLOAD_V1_BYTES) @ put_u16 0 @ encode_payload cfg"

text \<open>The bytes written to a buffer of capacity \<open>cap\<close>; none when it is too small.\<close>

definition cfg_encode :: "ctrl_config_t \<Rightarrow> u32 \<Rightarrow> nat \<Rightarrow> u8 list" where
  "cfg_encode cfg generation cap =
     (if cap < CFG_RECORD_V1_BYTES then []
      else let b = encode_body cfg generation in b @ put_u32 (cfg_crc32 b))"

definition cfg_peek :: "u8 list \<Rightarrow> u32 \<Rightarrow> cfg_dec_t \<times> u32" where
  "cfg_peek buf generation =
     (if length buf < CFG_HEADER_BYTES then (CFG_DEC_ERR_SHORT, generation)
      else if take 4 buf \<noteq> CFG_MAGIC then (CFG_DEC_ERR_MAGIC, generation)
      else if fst (get_u16 (drop 4 buf)) \<noteq> CFG_SCHEMA_VERSION then (CFG_DEC_ERR_VERSION, generation)
      else if fst (get_u16 (drop 12 buf)) \<noteq> of_nat CFG_PAYLOAD_V1_BYTES then (CFG_DEC_ERR_LEN, generation)
      else if length buf < CFG_RECORD_V1_BYTES then (CFG_DEC_ERR_SHORT, generation)
      else if fst (get_u32 (drop (CFG_HEADER_BYTES + CFG_PAYLOAD_V1_BYTES) buf))
                \<noteq> cfg_crc32 (take (CFG_HEADER_BYTES + CFG_PAYLOAD_V1_BYTES) buf)
           then (CFG_DEC_ERR_CRC, generation)
      else (CFG_DEC_OK, fst (get_u32 (drop 8 buf))))"

definition cfg_decode :: "u8 list \<Rightarrow> ctrl_config_t \<Rightarrow> u32 \<Rightarrow> cfg_dec_t \<times> ctrl_config_t \<times> u32" where
  "cfg_decode buf out generation =
     (case cfg_peek buf generation of (frame, gen) \<Rightarrow>
        if frame \<noteq> CFG_DEC_OK then (frame, out, gen)
        else (CFG_DEC_OK, fst (decode_payload (drop CFG_HEADER_BYTES buf)), gen))"

section \<open>The blocks keep the field contract\<close>

interpretation wprim: wire_field encode_primitives decode_primitives 20 "\<lambda>v. True"
  by unfold_locales (simp_all add: encode_primitives_def decode_primitives_def wire_simps)

interpretation wlims: wire_field encode_limits decode_limits 12 "\<lambda>v. True"
  by unfold_locales (simp_all add: encode_limits_def decode_limits_def wire_simps)

interpretation wprof: wire_field encode_profile decode_profile 29 "\<lambda>v. True"
  by unfold_locales (simp_all add: encode_profile_def decode_profile_def Let_def wire_simps)

lemma globals_length: "length (encode_globals g) = 54"
  by (simp add: encode_globals_def wire_simps)

lemma globals_round_trip:
  "decode_globals (encode_globals g @ r) =
    (\<lambda>src req. g\<lparr>g_batt_temp_src := src, g_require_batt_temp := req\<rparr>, r)"
  by (cases g) (simp add: encode_globals_def decode_globals_def Let_def wire_simps)

lemma profiles_map: "length ps = CFG_PROFILE_COUNT \<Longrightarrow> encode_profiles ps = concat (map encode_profile ps)"
  unfolding encode_profiles_def by (metis map_nth map_map comp_apply list.map_cong0)

lemma profiles_decode: "decode_profiles (length ps) (concat (map encode_profile ps) @ r) = (ps, r)"
  by (induction ps) (simp_all add: wprof.get_put)

lemma profiles_length: "length (concat (map encode_profile ps)) = 29 * length ps"
  by (induction ps) (simp_all add: wprof.put_length)

interpretation wprofs: wire_field encode_profiles "decode_profiles CFG_PROFILE_COUNT" 203
    "\<lambda>ps. length ps = CFG_PROFILE_COUNT"
proof
  fix ps :: "cfg_profile_t list" and rest assume l: "length ps = CFG_PROFILE_COUNT"
  show "length (encode_profiles ps) = 203"
    using l by (simp add: profiles_map profiles_length CFG_PROFILE_COUNT_def)
  show "decode_profiles CFG_PROFILE_COUNT (encode_profiles ps @ rest) = (ps, rest)"
    using profiles_decode [of ps rest] by (simp add: profiles_map l)
qed

interpretation wpayload: wire_field encode_payload decode_payload CFG_PAYLOAD_V1_BYTES cfg_wf
  by unfold_locales
    (simp_all add: encode_payload_def decode_payload_def Let_def wire_simps wprim.get_put wlims.get_put
      globals_round_trip wprofs.get_put wprim.put_length wlims.put_length globals_length wprofs.put_length
      cfg_wf_def CFG_PAYLOAD_V1_BYTES_def)

end
