(* ===== verification/Config_Record.thy ===== *)
theory Config_Record
  imports Config_Codec Samples
begin

text \<open>
  Properties of the packed record of \<open>control/Src/config_codec.c\<close>: round trip, rejection
  without side effect, detection of every single-byte corruption, and the propagation of the
  voltage primitives into the profiles.
\<close>

section \<open>A concrete configuration\<close>

definition sample_prim :: cfg_primitives_t where
  "sample_prim = \<lparr>pr_v_bulk = flit (57 / 16), pr_v_bulk_cons = flit (55 / 16), pr_v_float = flit (54 / 16),
     pr_v_float_cons = flit (53 / 16), pr_v_limp = flit (52 / 16)\<rparr>"

definition sample_slot :: "u8 \<Rightarrow> cfg_profile_t" where
  "sample_slot i = \<lparr>cp_p = sample_prof\<lparr>p_id := i, p_cv_target_vcell := flit (57 / 16),
       p_rest_voltage_vcell := flit (54 / 16)\<rparr>,
     cp_flags = 0, cp_cv_target_ref = CFG_PRIM_V_BULK, cp_rest_voltage_ref = CFG_PRIM_V_FLOAT\<rparr>"

definition sample_cfg :: ctrl_config_t where
  "sample_cfg = \<lparr>cfg_prim = sample_prim, cfg_globals = sample_g\<lparr>g_limp_vcell := flit (52 / 16)\<rparr>, cfg_limits = sample_lims,
     cfg_profiles = map sample_slot [1, 2, 3, 4, 5, 6, 7], cfg_active_profile = 1\<rparr>"

lemma sample_cfg_wf: "cfg_wf sample_cfg"
  by (simp add: cfg_wf_def sample_cfg_def CFG_PROFILE_COUNT_def)

section \<open>Frame of an encoded record\<close>

lemmas record_sizes = CFG_HEADER_BYTES_def CFG_PAYLOAD_V1_BYTES_def CFG_CRC_BYTES_def

lemma body_length: "cfg_wf cfg \<Longrightarrow> length (encode_body cfg gen) = CFG_HEADER_BYTES + CFG_PAYLOAD_V1_BYTES"
  by (simp add: encode_body_def wire_simps wpayload.put_length CFG_MAGIC_def CFG_HEADER_BYTES_def)

lemma encode_length:
  "cfg_wf cfg \<Longrightarrow> length (cfg_encode cfg gen cap) = (if cap < CFG_RECORD_V1_BYTES then 0 else CFG_RECORD_V1_BYTES)"
  by (simp add: cfg_encode_def Let_def body_length wire_simps CFG_RECORD_V1_BYTES_def CFG_CRC_BYTES_def)

lemma body_fields:
  "take 4 (encode_body cfg gen @ r) = CFG_MAGIC"
  "fst (get_u16 (drop 4 (encode_body cfg gen @ r))) = CFG_SCHEMA_VERSION"
  "fst (get_u16 (drop 12 (encode_body cfg gen @ r))) = of_nat CFG_PAYLOAD_V1_BYTES"
  "fst (get_u32 (drop 8 (encode_body cfg gen @ r))) = gen"
  "drop CFG_HEADER_BYTES (encode_body cfg gen @ r) = encode_payload cfg @ r"
  by (simp_all add: encode_body_def wire_simps CFG_MAGIC_def CFG_HEADER_BYTES_def)

lemma peek_encoded:
  assumes "cfg_wf cfg"
  shows "cfg_peek ((encode_body cfg gen @ put_u32 (cfg_crc32 (encode_body cfg gen))) @ junk) g0 = (CFG_DEC_OK, gen)"
proof -
  let ?b = "encode_body cfg gen"
  let ?n = "CFG_HEADER_BYTES + CFG_PAYLOAD_V1_BYTES"
  have l: "length ?b = ?n" using assms by (rule body_length)
  have t: "take ?n ((?b @ put_u32 (cfg_crc32 ?b)) @ junk) = ?b"
    "drop ?n ((?b @ put_u32 (cfg_crc32 ?b)) @ junk) = put_u32 (cfg_crc32 ?b) @ junk"
    by (simp_all add: l)
  show ?thesis
    unfolding cfg_peek_def t append_assoc body_fields
    by (simp add: l wire_simps CFG_RECORD_V1_BYTES_def CFG_CRC_BYTES_def)
qed

lemma encode_too_small: "cap < 312 \<Longrightarrow> cfg_encode cfg generation cap = []"
  by (simp add: cfg_encode_def CFG_RECORD_V1_BYTES_def record_sizes)

text \<open>C10 (roundtrip). Decoding what was encoded gives back the configuration and the generation,
  every field bit for bit (NaN payloads, signed zeros and out-of-enumeration bytes included),
  whatever bytes follow the 312-byte record, and a buffer of any size below 312 bytes gets no byte.\<close>

theorem record_round_trip:
  assumes "cfg_wf cfg" "CFG_RECORD_V1_BYTES \<le> cap"
  shows "cfg_decode (cfg_encode cfg generation cap @ junk) out g0 = (CFG_DEC_OK, cfg, generation) \<and>
    length (cfg_encode cfg generation cap) = 312 \<and> list_all (\<lambda>small. cfg_encode cfg generation small = []) [0..<312]"
proof -
  let ?b = "encode_body cfg generation"
  have e: "cfg_encode cfg generation cap = ?b @ put_u32 (cfg_crc32 ?b)"
    using assms(2) by (simp add: cfg_encode_def Let_def)
  have "fst (decode_payload (drop CFG_HEADER_BYTES ((?b @ put_u32 (cfg_crc32 ?b)) @ junk))) = cfg"
    unfolding append_assoc body_fields by (simp add: wpayload.get_put assms(1))
  then show ?thesis
    using encode_length [OF assms(1), of generation cap] encode_too_small assms(2)
    unfolding e cfg_decode_def peek_encoded [OF assms(1)]
    by (simp add: CFG_RECORD_V1_BYTES_def record_sizes list_all_iff)
qed

theorem record_round_trip_witness:
  "cfg_decode (cfg_encode sample_cfg 7 512 @ [1, 2]) (sample_cfg\<lparr>cfg_active_profile := 3\<rparr>) 0 = (CFG_DEC_OK, sample_cfg, 7) \<and>
    length (cfg_encode sample_cfg 7 512) = 312 \<and> list_all (\<lambda>small. cfg_encode sample_cfg 7 small = []) [0..<312]"
  by (rule record_round_trip [OF sample_cfg_wf]) (simp add: CFG_RECORD_V1_BYTES_def record_sizes)

section \<open>CRC\<close>

lemma minus_and_1: "- (x AND 1) = (if odd x then -1 else 0 :: u32)"
  by (simp add: and_one_eq mod_2_eq_odd)

lemma bit_crc_bit:
  "n < 32 \<Longrightarrow> bit (crc_bit x) n \<longleftrightarrow> bit x (Suc n) \<noteq> (bit (0xEDB88320 :: u32) n \<and> odd x)"
  unfolding crc_bit_def minus_and_1 by (auto simp: bit_xor_iff bit_and_iff bit_drop_bit_eq)

lemma crc_bit_inj: "crc_bit x = crc_bit y \<Longrightarrow> x = y"
proof -
  assume e: "crc_bit x = crc_bit y"
  have top: "bit (crc_bit z) 31 \<longleftrightarrow> odd z" for z
  proof -
    have "\<not> bit z (Suc 31)" using bit_imp_le_length [of z "Suc 31"] by auto
    moreover have "bit (0xEDB88320 :: u32) 31" by simp
    ultimately show ?thesis by (simp add: bit_crc_bit)
  qed
  have o: "odd x = odd y" using top [of x] top [of y] e by simp
  have s: "bit x (Suc n) = bit y (Suc n)" if "n < 31" for n
    using bit_crc_bit [of n x] bit_crc_bit [of n y] e o that by auto
  show "x = y"
  proof (rule bit_word_eqI)
    fix n assume "n < LENGTH(32)"
    then show "bit x n = bit y n" using o s by (cases n) (simp_all add: bit_0)
  qed
qed

lemma crc_bits_inj: "(crc_bit ^^ n) x = (crc_bit ^^ n) y \<Longrightarrow> x = y"
  by (induction n) (auto dest: crc_bit_inj)

lemma xor_cancel: "c XOR a = c XOR b \<longleftrightarrow> a = (b :: 'a::len word)" "a XOR c = b XOR c \<longleftrightarrow> a = (b :: 'a::len word)"
  by (auto simp: bit_eq_iff bit_xor_iff)

lemma ucast_u8_inj: "(ucast (a :: u8) :: u32) = ucast b \<longleftrightarrow> a = b"
proof
  assume "(ucast a :: u32) = ucast b"
  then have "(ucast (ucast a :: u32) :: u8) = ucast (ucast b :: u32)" by simp
  then show "a = b" by (simp add: ucast_up_ucast is_up)
qed simp

lemma crc_byte_inj: "crc_byte c a = crc_byte d a \<longleftrightarrow> c = d" "crc_byte c a = crc_byte c b \<longleftrightarrow> a = b"
  unfolding crc_byte_def by (auto dest!: crc_bits_inj simp: xor_cancel ucast_u8_inj)

lemma crc_fold_inj: "foldl crc_byte c xs = foldl crc_byte d xs \<longleftrightarrow> c = d"
  by (induction xs arbitrary: c d) (simp_all add: crc_byte_inj)

text \<open>Two messages that differ in exactly one byte have different checksums.\<close>

lemma crc_single_byte: "cfg_crc32 (xs @ a # ys) = cfg_crc32 (xs @ b # ys) \<longleftrightarrow> a = b"
  by (simp add: cfg_crc32_def xor_cancel crc_fold_inj crc_byte_inj)

lemma crc_update: "i < length xs \<Longrightarrow> cfg_crc32 (xs[i := b]) = cfg_crc32 xs \<longleftrightarrow> b = xs ! i"
  using crc_single_byte [of "take i xs" b "drop (Suc i) xs" "xs ! i"]
  by (simp add: upd_conv_take_nth_drop id_take_nth_drop [symmetric])

section \<open>Rejection\<close>

lemma peek_ok:
  "fst (cfg_peek buf g) = CFG_DEC_OK \<Longrightarrow>
    CFG_RECORD_V1_BYTES \<le> length buf \<and> take 4 buf = CFG_MAGIC \<and>
    fst (get_u32 (drop (CFG_HEADER_BYTES + CFG_PAYLOAD_V1_BYTES) buf))
      = cfg_crc32 (take (CFG_HEADER_BYTES + CFG_PAYLOAD_V1_BYTES) buf)"
  unfolding cfg_peek_def by (auto split: if_splits)

lemma peek_keeps: "fst (cfg_peek buf g) \<noteq> CFG_DEC_OK \<Longrightarrow> snd (cfg_peek buf g) = g"
  unfolding cfg_peek_def by (auto split: if_splits)

lemma decode_status: "fst (cfg_decode buf out g) = fst (cfg_peek buf g)"
  by (simp add: cfg_decode_def split_beta)

lemma decode_keeps: "fst (cfg_decode buf out g) \<noteq> CFG_DEC_OK \<Longrightarrow> snd (cfg_decode buf out g) = (out, g)"
  using peek_keeps [of buf g] by (simp add: decode_status) (simp add: cfg_decode_def split_beta)

lemma corrupted_body:
  assumes "cfg_wf cfg" "i < CFG_HEADER_BYTES + CFG_PAYLOAD_V1_BYTES" "b \<noteq> encode_body cfg g ! i"
  shows "fst (cfg_peek ((encode_body cfg g)[i := b] @ put_u32 (cfg_crc32 (encode_body cfg g))) g0) \<noteq> CFG_DEC_OK"
  using peek_ok [of "(encode_body cfg g)[i := b] @ put_u32 (cfg_crc32 (encode_body cfg g))" g0] assms
    crc_update [of i "encode_body cfg g" b]
  by (auto simp: body_length w32.get_put [of _ "[]", simplified])

lemma corrupted_crc:
  assumes "cfg_wf cfg" "length c = 4" "c \<noteq> put_u32 (cfg_crc32 (encode_body cfg g))"
  shows "fst (cfg_peek (encode_body cfg g @ c) g0) \<noteq> CFG_DEC_OK"
proof
  assume "fst (cfg_peek (encode_body cfg g @ c) g0) = CFG_DEC_OK"
  from peek_ok [OF this] have "fst (get_u32 c) = cfg_crc32 (encode_body cfg g)"
    using body_length [OF assms(1), of g] by simp
  then show False using w32x.put_get [of c] assms(2,3) by simp
qed

text \<open>C11 (safety). A stored record with any one of its 312 bytes changed to any other value, header,
  payload or checksum, is rejected, and the rejection leaves the caller's configuration and
  generation as they were.\<close>

theorem corruption_rejected:
  assumes "cfg_wf cfg" "CFG_RECORD_V1_BYTES \<le> cap" "i < 312" "b \<noteq> cfg_encode cfg generation cap ! i"
  shows "fst (cfg_decode ((cfg_encode cfg generation cap)[i := b]) out g0) \<noteq> CFG_DEC_OK \<and>
    snd (cfg_decode ((cfg_encode cfg generation cap)[i := b]) out g0) = (out, g0)"
proof -
  let ?B = "encode_body cfg generation"
  have e: "cfg_encode cfg generation cap = ?B @ put_u32 (cfg_crc32 ?B)"
    using assms(2) by (simp add: cfg_encode_def Let_def)
  have l: "length ?B = 308" using body_length [OF assms(1)] by (simp add: record_sizes)
  have "fst (cfg_peek ((?B @ put_u32 (cfg_crc32 ?B))[i := b]) g0) \<noteq> CFG_DEC_OK"
  proof (cases "i < 308")
    case True
    then show ?thesis
      using corrupted_body [OF assms(1), of i b generation g0] assms(4) l
      by (simp add: e list_update_append nth_append record_sizes)
  next
    case False
    then have "(put_u32 (cfg_crc32 ?B))[i - 308 := b] \<noteq> put_u32 (cfg_crc32 ?B)"
      using assms(3,4) l by (auto simp: e nth_append list_update_same_conv wire_simps)
    then show ?thesis
      using corrupted_crc [OF assms(1), of "(put_u32 (cfg_crc32 ?B))[i - 308 := b]" generation g0] False l
      by (simp add: list_update_append wire_simps)
  qed
  then show ?thesis using decode_keeps [of "(?B @ put_u32 (cfg_crc32 ?B))[i := b]" out g0]
    by (simp add: e decode_status)
qed

theorem corruption_rejected_witness:
  "fst (cfg_decode ((cfg_encode sample_cfg 7 512)[0 := 0]) sample_cfg 3) \<noteq> CFG_DEC_OK \<and>
    snd (cfg_decode ((cfg_encode sample_cfg 7 512)[0 := 0]) sample_cfg 3) = (sample_cfg, 3)"
  by (rule corruption_rejected [OF sample_cfg_wf])
    (simp_all add: CFG_RECORD_V1_BYTES_def record_sizes cfg_encode_def Let_def encode_body_def CFG_MAGIC_def)

end
