(* ===== verification/Config_Store.thy ===== *)
theory Config_Store
  imports Config_Record
begin

text \<open>
  The two-slot power-fail-safe store, \<open>control/Src/config_store.c\<close> and
  \<open>control/Inc/config_store.h\<close>. The injected read and write functions act on a device state
  \<open>'d\<close>; a read gives the bytes or fails, a write reports success or failure. The locale
  \<open>store_io\<close> is what the store relies on: a read changes no byte and, when it succeeds, returns
  the stored ones; a write, whatever it reports, touches no byte outside its range. Nothing is
  promised about the bytes inside the range of a failed write. The EEPROM driver's model
  provides this contract (theory \<open>Eeprom\<close>).
\<close>

section \<open>Layout and state\<close>

definition CFG_SLOT_A_ADDR :: u16 where "CFG_SLOT_A_ADDR = 0"
definition CFG_SLOT_B_ADDR :: u16 where "CFG_SLOT_B_ADDR = 0x400"
definition CFG_SLOT_BYTES :: u16 where "CFG_SLOT_BYTES = 0x400"

datatype cfg_store_status_t = CFG_STORE_OK | CFG_STORE_EMPTY | CFG_STORE_IO | CFG_STORE_ENCODE
  | CFG_STORE_VERIFY | CFG_STORE_ARG

record cfg_store_t =
  st_generation :: u32
  st_live_slot :: u8
  st_have_live :: bool

type_synonym 'd store_read = "'d \<Rightarrow> u16 \<Rightarrow> u16 \<Rightarrow> u8 list option \<times> 'd"
type_synonym 'd store_write = "'d \<Rightarrow> u16 \<Rightarrow> u8 list \<Rightarrow> bool \<times> 'd"

definition cfg_store_slot_addr :: "u8 \<Rightarrow> u16" where
  "cfg_store_slot_addr slot = (if slot = 0 then CFG_SLOT_A_ADDR else CFG_SLOT_B_ADDR)"

definition cfg_generation_newer :: "u32 \<Rightarrow> u32 \<Rightarrow> bool" where
  "cfg_generation_newer a b \<longleftrightarrow> 0 < sint (a - b)"

definition cfg_store_init :: cfg_store_t where
  "cfg_store_init = \<lparr>st_generation = 0, st_live_slot = 1, st_have_live = False\<rparr>"

section \<open>Load\<close>

text \<open>The locals of the slot loop: readable at all, found, best generation and slot, and \<open>*out\<close>.\<close>

record load_acc =
  la_any_read :: bool
  la_found :: bool
  la_best_gen :: u32
  la_best_slot :: u8
  la_out :: ctrl_config_t

definition REC16 :: u16 where "REC16 = 312" \<comment> \<open>\<open>(uint16_t)CFG_RECORD_V1_BYTES\<close>\<close>

definition load_slot :: "'d store_read \<Rightarrow> load_acc \<times> 'd \<Rightarrow> u8 \<Rightarrow> load_acc \<times> 'd" where
  "load_slot rd ad slot = (case ad of (acc, d) \<Rightarrow>
     (case rd d (cfg_store_slot_addr slot) REC16 of
        (None, d) \<Rightarrow> (acc, d)
      | (Some buf, d) \<Rightarrow>
         let acc = acc\<lparr>la_any_read := True\<rparr>;
             (status, gen) = cfg_peek buf 0
         in if status \<noteq> CFG_DEC_OK then (acc, d)
            else if la_found acc \<and> \<not> cfg_generation_newer gen (la_best_gen acc) then (acc, d)
            else case cfg_decode buf (la_out acc) gen of (status, out, gen) \<Rightarrow>
              if status \<noteq> CFG_DEC_OK then (acc, d)
              else (acc\<lparr>la_found := True, la_best_gen := gen, la_best_slot := slot, la_out := out\<rparr>, d)))"

definition cfg_store_load :: "'d store_read \<Rightarrow> cfg_store_t \<Rightarrow> ctrl_config_t \<Rightarrow> 'd
    \<Rightarrow> cfg_store_status_t \<times> cfg_store_t \<times> ctrl_config_t \<times> 'd" where
  "cfg_store_load rd st out d =
     (case foldl (load_slot rd) (\<lparr>la_any_read = False, la_found = False, la_best_gen = 0, la_best_slot = 0, la_out = out\<rparr>, d) [0, 1]
      of (acc, d) \<Rightarrow>
        if \<not> la_found acc
        then (if la_any_read acc then CFG_STORE_EMPTY else CFG_STORE_IO,
              st\<lparr>st_have_live := False, st_generation := 0, st_live_slot := 1\<rparr>, la_out acc, d)
        else (CFG_STORE_OK,
              st\<lparr>st_have_live := True, st_generation := la_best_gen acc, st_live_slot := la_best_slot acc\<rparr>, la_out acc, d))"

section \<open>Save\<close>

definition cfg_store_save :: "'d store_read \<Rightarrow> 'd store_write \<Rightarrow> cfg_store_t \<Rightarrow> ctrl_config_t \<Rightarrow> 'd
    \<Rightarrow> cfg_store_status_t \<times> cfg_store_t \<times> 'd" where
  "cfg_store_save rd wr st cfg d =
     (let slot = st_live_slot st XOR 1;
          addr = cfg_store_slot_addr slot;
          gen = st_generation st + 1;
          buf = cfg_encode cfg gen CFG_RECORD_V1_BYTES
      in if length buf \<noteq> CFG_RECORD_V1_BYTES then (CFG_STORE_ENCODE, st, d)
         else case wr d addr buf of (ok, d) \<Rightarrow>
           if \<not> ok then (CFG_STORE_IO, st, d)
           else case rd d addr REC16 of
             (None, d) \<Rightarrow> (CFG_STORE_IO, st, d)
           | (Some rb, d) \<Rightarrow>
             (case cfg_peek rb 0 of (status, rb_gen) \<Rightarrow>
                if status \<noteq> CFG_DEC_OK \<or> rb_gen \<noteq> gen then (CFG_STORE_VERIFY, st, d)
                else if \<exists>i \<in> {0..<CFG_RECORD_V1_BYTES}. rb ! i \<noteq> buf ! i then (CFG_STORE_VERIFY, st, d)
                else (CFG_STORE_OK, st\<lparr>st_generation := gen, st_live_slot := slot, st_have_live := True\<rparr>, d)))"

section \<open>Abstract store: the record a slot holds, and the newest of two\<close>

type_synonym record_opt = "(u32 \<times> ctrl_config_t) option"

definition stored :: "u8 list \<Rightarrow> record_opt" where
  "stored bs = (case cfg_peek bs 0 of (status, gen) \<Rightarrow>
     if status = CFG_DEC_OK then Some (gen, fst (decode_payload (drop CFG_HEADER_BYTES bs))) else None)"

definition newest :: "record_opt \<Rightarrow> record_opt \<Rightarrow> (u8 \<times> u32 \<times> ctrl_config_t) option" where
  "newest a b = (case a of None \<Rightarrow> map_option (Pair 1) b
     | Some (ga, ca) \<Rightarrow> (case b of None \<Rightarrow> Some (0, ga, ca)
         | Some (gb, cb) \<Rightarrow> if cfg_generation_newer gb ga then Some (1, gb, cb) else Some (0, ga, ca)))"

lemma peek_gen: "fst (cfg_peek buf g) = CFG_DEC_OK \<Longrightarrow> cfg_peek buf g = (CFG_DEC_OK, fst (get_u32 (drop 8 buf)))"
  unfolding cfg_peek_def by (auto split: if_splits)

lemma peek_status: "fst (cfg_peek buf g) = fst (cfg_peek buf h)"
  by (simp add: cfg_peek_def)

lemma decode_stored:
  assumes "stored buf = Some (g, c)"
  shows "cfg_peek buf h = (CFG_DEC_OK, g)" "cfg_decode buf out h = (CFG_DEC_OK, c, g)"
proof -
  have "fst (cfg_peek buf 0) = CFG_DEC_OK" "g = snd (cfg_peek buf 0)" "c = fst (decode_payload (drop CFG_HEADER_BYTES buf))"
    using assms by (auto simp: stored_def split_beta split: if_splits)
  then have "fst (cfg_peek buf h) = CFG_DEC_OK" "g = fst (get_u32 (drop 8 buf))"
    by (metis peek_status, metis peek_gen snd_conv)
  then show p: "cfg_peek buf h = (CFG_DEC_OK, g)" using peek_gen [of buf h] by simp
  show "cfg_decode buf out h = (CFG_DEC_OK, c, g)"
    using p \<open>c = _\<close> by (simp add: cfg_decode_def)
qed

lemma stored_None: "stored buf = None \<longleftrightarrow> fst (cfg_peek buf h) \<noteq> CFG_DEC_OK"
  unfolding peek_status [of buf h 0] by (simp add: stored_def split_beta)

lemma stored_encoded:
  assumes "cfg_wf cfg"
  shows "stored (cfg_encode cfg g CFG_RECORD_V1_BYTES) = Some (g, cfg)"
proof -
  have e: "cfg_encode cfg g CFG_RECORD_V1_BYTES = (encode_body cfg g @ put_u32 (cfg_crc32 (encode_body cfg g))) @ []"
    by (simp add: cfg_encode_def Let_def)
  have "fst (decode_payload (drop CFG_HEADER_BYTES ((encode_body cfg g @ put_u32 (cfg_crc32 (encode_body cfg g))) @ []))) = cfg"
    unfolding append_assoc body_fields by (simp add: wpayload.get_put assms)
  then show ?thesis unfolding e stored_def peek_encoded [OF assms] by simp
qed

text \<open>One slot of the loop, by what its read returned.\<close>

definition consider_slot :: "load_acc \<Rightarrow> u8 \<Rightarrow> u8 list option \<Rightarrow> load_acc" where
  "consider_slot acc slot r = (case r of None \<Rightarrow> acc
     | Some buf \<Rightarrow> (case stored buf of None \<Rightarrow> acc\<lparr>la_any_read := True\<rparr>
         | Some (g, c) \<Rightarrow> if la_found acc \<and> \<not> cfg_generation_newer g (la_best_gen acc) then acc\<lparr>la_any_read := True\<rparr>
             else acc\<lparr>la_any_read := True, la_found := True, la_best_gen := g, la_best_slot := slot, la_out := c\<rparr>))"

lemma load_slot_consider:
  "load_slot rd (acc, d) slot = (case rd d (cfg_store_slot_addr slot) REC16 of (r, d) \<Rightarrow> (consider_slot acc slot r, d))"
proof (cases "rd d (cfg_store_slot_addr slot) REC16")
  case (Pair r d')
  show ?thesis
  proof (cases r)
    case (Some buf)
    then show ?thesis
    proof (cases "stored buf")
      case None
      then have "fst (cfg_peek buf 0) \<noteq> CFG_DEC_OK" using stored_None [of buf 0] by simp
      then show ?thesis using Pair Some None by (simp add: load_slot_def consider_slot_def split_beta)
    next
      case (Some gc)
      then obtain g c where gc: "stored buf = Some (g, c)" by (cases gc) auto
      show ?thesis
        using Pair \<open>r = Some buf\<close> gc by (simp add: load_slot_def consider_slot_def decode_stored [OF gc] Let_def)
    qed
  qed (simp add: load_slot_def consider_slot_def Pair)
qed

text \<open>C7 (refinement). The slot loop is the abstract choice: whatever the device and its two reads
  return, the load takes the valid record of highest generation in the modular order, slot A on a
  tie, and remembers its slot and generation; with no valid record it leaves the caller's
  configuration untouched and reports EMPTY when some slot could be read and IO when none could.\<close>

theorem load_is_newest:
  "cfg_store_load rd st out d =
    (case rd d (cfg_store_slot_addr 0) REC16 of (ra, da) \<Rightarrow>
     case rd da (cfg_store_slot_addr 1) REC16 of (rb, db) \<Rightarrow>
       (case newest (Option.bind ra stored) (Option.bind rb stored) of
          None \<Rightarrow> (if ra = None \<and> rb = None then CFG_STORE_IO else CFG_STORE_EMPTY,
                   st\<lparr>st_have_live := False, st_generation := 0, st_live_slot := 1\<rparr>, out, db)
        | Some (slot, g, c) \<Rightarrow>
            (CFG_STORE_OK, st\<lparr>st_have_live := True, st_generation := g, st_live_slot := slot\<rparr>, c, db)))"
proof -
  obtain ra da where a: "rd d (cfg_store_slot_addr 0) REC16 = (ra, da)" by (rule prod.exhaust)
  obtain rb db where b: "rd da (cfg_store_slot_addr 1) REC16 = (rb, db)" by (rule prod.exhaust)
  show ?thesis
    by (cases ra; cases rb)
      (auto simp: cfg_store_load_def load_slot_consider a b consider_slot_def newest_def split: option.splits)
qed

section \<open>The contract of the injected I/O\<close>

locale store_io =
  fixes rd :: "'d store_read" and wr :: "'d store_write" and mem :: "'d \<Rightarrow> nat \<Rightarrow> u8"
  assumes rd_keeps: "rd d a n = (r, d') \<Longrightarrow> mem d' = mem d"
    and rd_data: "rd d a n = (Some bs, d') \<Longrightarrow> bs = map (\<lambda>i. mem d (unat a + i)) [0..<unat n]"
    and wr_frame: "wr d a bs = (ok, d') \<Longrightarrow> k < unat a \<or> unat a + length bs \<le> k \<Longrightarrow> mem d' k = mem d k"

text \<open>The bytes of a slot in the memory of the device.\<close>

definition slot_bytes :: "(nat \<Rightarrow> u8) \<Rightarrow> u8 \<Rightarrow> u8 list" where
  "slot_bytes m slot = map (\<lambda>i. m (unat (cfg_store_slot_addr slot) + i)) [0..<CFG_RECORD_V1_BYTES]"

lemma slot_addrs: "unat (cfg_store_slot_addr 0) = 0" "unat (cfg_store_slot_addr 1) = 1024" "unat REC16 = CFG_RECORD_V1_BYTES"
  by (simp_all add: cfg_store_slot_addr_def CFG_SLOT_A_ADDR_def CFG_SLOT_B_ADDR_def REC16_def CFG_RECORD_V1_BYTES_def record_sizes)

lemma slot_bytes_length [simp]: "length (slot_bytes m slot) = CFG_RECORD_V1_BYTES"
  by (simp add: slot_bytes_def)

context store_io
begin

lemma rd_slot: "rd d (cfg_store_slot_addr slot) REC16 = (Some bs, d') \<Longrightarrow> bs = slot_bytes (mem d) slot"
  using rd_data [of d "cfg_store_slot_addr slot" REC16 bs d'] by (simp add: slot_bytes_def slot_addrs(3))

lemma wr_other_slot:
  assumes "wr d (cfg_store_slot_addr (slot XOR 1)) bs = (ok, d')" "length bs = CFG_RECORD_V1_BYTES" "slot \<in> {0, 1}"
  shows "slot_bytes (mem d') slot = slot_bytes (mem d) slot"
proof -
  have "mem d' (unat (cfg_store_slot_addr slot) + i) = mem d (unat (cfg_store_slot_addr slot) + i)"
    if "i < CFG_RECORD_V1_BYTES" for i
    using wr_frame [OF assms(1)] that assms(2,3) slot_addrs
    by (auto simp: CFG_RECORD_V1_BYTES_def record_sizes)
  then show ?thesis by (simp add: slot_bytes_def)
qed

text \<open>Every outcome of a save, by case: the live slot's bytes never change, the store's own state
  changes only on success, and success means the standby slot holds the new record.\<close>

lemma save_effect:
  assumes s: "cfg_store_save rd wr st cfg d = (status, st', d')" and l: "st_live_slot st \<in> {0, 1}" and w: "cfg_wf cfg"
  shows "slot_bytes (mem d') (st_live_slot st) = slot_bytes (mem d) (st_live_slot st) \<and>
    (if status = CFG_STORE_OK
     then st' = st\<lparr>st_generation := st_generation st + 1, st_live_slot := st_live_slot st XOR 1, st_have_live := True\<rparr> \<and>
       stored (slot_bytes (mem d') (st_live_slot st XOR 1)) = Some (st_generation st + 1, cfg)
     else st' = st)"
proof -
  let ?slot = "st_live_slot st XOR 1"
  let ?gen = "st_generation st + 1"
  let ?buf = "cfg_encode cfg ?gen CFG_RECORD_V1_BYTES"
  have len: "length ?buf = CFG_RECORD_V1_BYTES" by (simp add: encode_length [OF w])
  obtain ok d1 where wr: "wr d (cfg_store_slot_addr ?slot) ?buf = (ok, d1)" by (rule prod.exhaust)
  obtain r d2 where rd: "rd d1 (cfg_store_slot_addr ?slot) REC16 = (r, d2)" by (rule prod.exhaust)
  note live = wr_other_slot [OF wr len l]
  have m2: "mem d2 = mem d1" using rd by (rule rd_keeps)
  show ?thesis
  proof (cases "ok \<and> r \<noteq> None")
    case False
    then have "status \<noteq> CFG_STORE_OK \<and> st' = st \<and> mem d' = mem d1"
      using s len wr rd m2 by (auto simp: cfg_store_save_def Let_def split: if_splits option.splits)
    then show ?thesis using live by simp
  next
    case True
    then obtain rb where rb: "r = Some rb" by blast
    note rbs = rd_slot [OF rd [unfolded rb]]
    let ?same = "fst (cfg_peek rb 0) = CFG_DEC_OK \<and> snd (cfg_peek rb 0) = ?gen \<and> (\<forall>i \<in> {0..<CFG_RECORD_V1_BYTES}. rb ! i = ?buf ! i)"
    have d': "mem d' = mem d1" and st: "st' = (if ?same then st\<lparr>st_generation := ?gen, st_live_slot := ?slot, st_have_live := True\<rparr> else st)"
      and ok: "status = CFG_STORE_OK \<longleftrightarrow> ?same"
      using s len wr rd rb m2 True
      by (auto simp: cfg_store_save_def Let_def split_beta split: if_splits)
    show ?thesis
    proof (cases ?same)
      case same: True
      then have "rb = ?buf" using rbs len by (intro nth_equalityI) auto
      then have "slot_bytes (mem d') ?slot = ?buf" using rbs d' by simp
      then show ?thesis using same st ok live d' stored_encoded [OF w] by simp
    qed (use st ok live d' in auto)
  qed
qed

end

section \<open>Power-fail safety\<close>

lemma newer_Suc: "cfg_generation_newer (g + 1) g" "\<not> cfg_generation_newer g (g + 1)"
  by (simp_all add: cfg_generation_newer_def)

lemma newest_cases:
  assumes "s \<in> {0, 1}" "stored (slot_bytes m s) = Some (g, c)"
  shows "newest (stored (slot_bytes m 0)) (stored (slot_bytes m 1)) = Some (s, g, c) \<or>
    (\<exists>g' c'. stored (slot_bytes m (s XOR 1)) = Some (g', c') \<and>
       newest (stored (slot_bytes m 0)) (stored (slot_bytes m 1)) = Some (s XOR 1, g', c'))"
proof -
  consider "s = 0" | "s = 1" using assms(1) by auto
  then show ?thesis
  proof cases
    case 1
    then show ?thesis
      using assms(2) by (cases "stored (slot_bytes m 1)")
        (auto simp: newest_def)
  next
    case 2
    then show ?thesis
      using assms(2) by (cases "stored (slot_bytes m 0)") (auto simp: newest_def split: if_splits)
  qed
qed

lemma newest_of_next:
  assumes "s \<in> {0, 1}" "stored (slot_bytes m s) = Some (g, c)" "stored (slot_bytes m (s XOR 1)) = Some (g + 1, c')"
  shows "newest (stored (slot_bytes m 0)) (stored (slot_bytes m 1)) = Some (s XOR 1, g + 1, c')"
  using assms newer_Suc [of g] by (auto simp: newest_def)

lemma newest_of_written:
  assumes "s \<in> {0, 1}" "\<And>g' c'. stored (slot_bytes m s) = Some (g', c') \<Longrightarrow> g' = g"
    "stored (slot_bytes m (s XOR 1)) = Some (g + 1, c)"
  shows "newest (stored (slot_bytes m 0)) (stored (slot_bytes m 1)) = Some (s XOR 1, g + 1, c)"
proof (cases "stored (slot_bytes m s)")
  case None
  then show ?thesis using assms by (auto simp: newest_def)
next
  case (Some r)
  then show ?thesis using assms newest_of_next [of s m g "snd r" c] by (cases r) auto
qed

text \<open>C6 (safety). A save can be interrupted anywhere and lose nothing. Whatever the write and the read
  back report, and whatever bytes a failed or cut-short write left in its range: the live record is
  intact; a success means the new configuration, one generation on, is the one the next load takes;
  a failure leaves the store pointing at the old record; and the record a later load finds is the
  old one or the standby slot's complete, checksummed record, never a torn one and never none.\<close>

theorem save_never_loses:
  assumes io: "store_io rd wr mem" and s: "cfg_store_save rd wr st cfg d = (status, st', d')"
    and l: "st_live_slot st \<in> {0, 1}" and w: "cfg_wf cfg"
    and live: "stored (slot_bytes (mem d) (st_live_slot st)) = Some (st_generation st, c)"
  shows "stored (slot_bytes (mem d') (st_live_slot st)) = Some (st_generation st, c) \<and>
    (if status = CFG_STORE_OK
     then newest (stored (slot_bytes (mem d') 0)) (stored (slot_bytes (mem d') 1))
            = Some (st_live_slot st', st_generation st', cfg) \<and> st_generation st' = st_generation st + 1
     else st' = st) \<and>
    (newest (stored (slot_bytes (mem d') 0)) (stored (slot_bytes (mem d') 1)) = Some (st_live_slot st, st_generation st, c) \<or>
     (\<exists>g' c'. stored (slot_bytes (mem d') (st_live_slot st XOR 1)) = Some (g', c') \<and>
        newest (stored (slot_bytes (mem d') 0)) (stored (slot_bytes (mem d') 1)) = Some (st_live_slot st XOR 1, g', c')))"
proof -
  note e = store_io.save_effect [OF io s l w]
  have k: "stored (slot_bytes (mem d') (st_live_slot st)) = Some (st_generation st, c)" using e live by simp
  have n: "status = CFG_STORE_OK \<Longrightarrow> newest (stored (slot_bytes (mem d') 0)) (stored (slot_bytes (mem d') 1))
      = Some (st_live_slot st XOR 1, st_generation st + 1, cfg)"
    using newest_of_next [OF l k] e by simp
  show ?thesis using k n e newest_cases [OF l k] by (cases "status = CFG_STORE_OK") auto
qed

text \<open>C40 (error). The contract does not survive a boot at which neither slot could be read: the store
  then parks at slot A and generation 0, and a later save, once the part answers again, reports
  success with generation 1 while slot B still holds a record of a newer generation, so the next
  load returns that older configuration and the saved one is lost.\<close>

theorem save_after_unreadable_boot_lost:
  assumes io: "store_io rd wr mem" and f: "rd d (cfg_store_slot_addr 0) REC16 = (None, d1)"
    and f': "rd d1 (cfg_store_slot_addr 1) REC16 = (None, d2)"
    and b: "stored (slot_bytes (mem d) 1) = Some (g, c)" "cfg_generation_newer g 1"
    and s: "cfg_store_save rd wr (fst (snd (cfg_store_load rd st out d))) cfg d2 = (CFG_STORE_OK, st', d3)" and w: "cfg_wf cfg"
  shows "fst (cfg_store_load rd st out d) = CFG_STORE_IO \<and> st_generation st' = 1 \<and>
    newest (stored (slot_bytes (mem d3) 0)) (stored (slot_bytes (mem d3) 1)) = Some (1, g, c)"
proof -
  have one: "Option.bind (None :: u8 list option) stored = None" by simp
  have load: "cfg_store_load rd st out d =
      (CFG_STORE_IO, st\<lparr>st_have_live := False, st_generation := 0, st_live_slot := 1\<rparr>, out, d2)"
    by (simp add: cfg_store_load_def load_slot_consider f f' consider_slot_def)
  have m: "mem d2 = mem d"
    using store_io.rd_keeps [OF io f] store_io.rd_keeps [OF io f'] by simp
  note e = store_io.save_effect [OF io s [unfolded load] _ w]
  have "stored (slot_bytes (mem d3) 1) = Some (g, c)" "stored (slot_bytes (mem d3) 0) = Some (1, cfg)"
    "st_generation st' = 1"
    using e b(1) m by simp_all
  then show ?thesis using b(2) load by (simp add: newest_def)
qed

section \<open>A memory with scripted read failures\<close>

text \<open>The in-memory device of the native tests, each read preceded by one entry of a script.\<close>

record ram =
  ram_mem :: "nat \<Rightarrow> u8"
  ram_script :: "bool list"

definition ram_rd :: "ram store_read" where
  "ram_rd d a n = (case ram_script d of
      False # s \<Rightarrow> (None, d\<lparr>ram_script := s\<rparr>)
    | _ \<Rightarrow> (Some (map (\<lambda>i. ram_mem d (unat a + i)) [0..<unat n]), d\<lparr>ram_script := tl (ram_script d)\<rparr>))"

definition ram_wr :: "ram store_write" where
  "ram_wr d a bs = (True, d\<lparr>ram_mem := \<lambda>k. if unat a \<le> k \<and> k < unat a + length bs then bs ! (k - unat a) else ram_mem d k\<rparr>)"

interpretation ram: store_io ram_rd ram_wr ram_mem
  by unfold_locales (auto simp: ram_rd_def ram_wr_def split: list.splits bool.splits)

lemma ram_wr_slot:
  "length bs = CFG_RECORD_V1_BYTES \<Longrightarrow> slot_bytes (ram_mem (snd (ram_wr d (cfg_store_slot_addr slot) bs))) slot = bs"
  by (rule nth_equalityI) (simp_all add: ram_wr_def slot_bytes_def)

text \<open>A save to memory that can be read back succeeds.\<close>

lemma ram_save:
  assumes "cfg_wf cfg" "ram_script d = []" "st_live_slot st \<in> {0, 1}"
  shows "\<exists>d'. cfg_store_save ram_rd ram_wr st cfg d =
    (CFG_STORE_OK, st\<lparr>st_generation := st_generation st + 1, st_live_slot := st_live_slot st XOR 1, st_have_live := True\<rparr>, d')"
proof -
  let ?slot = "st_live_slot st XOR 1"
  let ?buf = "cfg_encode cfg (st_generation st + 1) CFG_RECORD_V1_BYTES"
  have len: "length ?buf = CFG_RECORD_V1_BYTES" by (simp add: encode_length [OF assms(1)])
  obtain d1 where wr: "ram_wr d (cfg_store_slot_addr ?slot) ?buf = (True, d1)" and s1: "ram_script d1 = []"
    using assms(2) by (simp add: ram_wr_def)
  have "slot_bytes (ram_mem d1) ?slot = ?buf" using ram_wr_slot [OF len, of d ?slot] wr by simp
  then have rd: "ram_rd d1 (cfg_store_slot_addr ?slot) REC16 = (Some ?buf, d1)"
    using s1 by (simp add: ram_rd_def slot_bytes_def slot_addrs(3))
  show ?thesis
    using len wr rd decode_stored(1) [OF stored_encoded [OF assms(1)]]
    by (simp add: cfg_store_save_def Let_def)
qed

text \<open>Slot A blank, slot B holding the sample configuration at generation 2.\<close>

definition sample_ram :: "bool list \<Rightarrow> ram" where
  "sample_ram script = (snd (ram_wr \<lparr>ram_mem = \<lambda>_. 0xFF, ram_script = script\<rparr> (cfg_store_slot_addr 1)
     (cfg_encode sample_cfg 2 CFG_RECORD_V1_BYTES)))"

lemma sample_ram_b: "stored (slot_bytes (ram_mem (sample_ram s)) 1) = Some (2, sample_cfg)"
  unfolding sample_ram_def by (simp add: ram_wr_slot encode_length sample_cfg_wf stored_encoded)

lemma sample_ram_script: "ram_script (sample_ram s) = s"
  by (simp add: sample_ram_def ram_wr_def)

theorem save_never_loses_witness:
  "\<exists>d' :: ram. newest (stored (slot_bytes (ram_mem d') 0)) (stored (slot_bytes (ram_mem d') 1)) =
     Some (0, 3, sample_cfg\<lparr>cfg_active_profile := 4\<rparr>)"
proof -
  let ?st = "\<lparr>st_generation = 2, st_live_slot = 1, st_have_live = True\<rparr>"
  let ?c = "sample_cfg\<lparr>cfg_active_profile := 4\<rparr>"
  have w: "cfg_wf ?c" using sample_cfg_wf by (simp add: cfg_wf_def)
  obtain d' where s: "cfg_store_save ram_rd ram_wr ?st ?c (sample_ram []) =
      (CFG_STORE_OK, ?st\<lparr>st_generation := 3, st_live_slot := 0, st_have_live := True\<rparr>, d')"
    using ram_save [OF w sample_ram_script, of ?st] by auto
  have "stored (slot_bytes (ram_mem (sample_ram [])) (st_live_slot ?st)) = Some (st_generation ?st, sample_cfg)"
    by (simp add: sample_ram_b)
  from save_never_loses [OF ram.store_io_axioms s _ w this, THEN conjunct2, THEN conjunct1]
  have "newest (stored (slot_bytes (ram_mem d') 0)) (stored (slot_bytes (ram_mem d') 1)) = Some (0, 3, ?c)"
    by simp
  then show ?thesis by blast
qed

theorem save_after_unreadable_boot_lost_witness:
  "\<exists>d3 :: ram. newest (stored (slot_bytes (ram_mem d3) 0)) (stored (slot_bytes (ram_mem d3) 1)) = Some (1, 2, sample_cfg)"
proof -
  let ?c = "sample_cfg\<lparr>cfg_active_profile := 4\<rparr>"
  let ?d = "sample_ram [False, False]"
  have w: "cfg_wf ?c" using sample_cfg_wf by (simp add: cfg_wf_def)
  have f: "ram_rd ?d (cfg_store_slot_addr 0) REC16 = (None, ?d\<lparr>ram_script := [False]\<rparr>)"
    "ram_rd (?d\<lparr>ram_script := [False]\<rparr>) (cfg_store_slot_addr 1) REC16 = (None, ?d\<lparr>ram_script := []\<rparr>)"
    by (simp_all add: ram_rd_def sample_ram_script)
  have st: "fst (snd (cfg_store_load ram_rd cfg_store_init sample_cfg ?d)) = cfg_store_init"
    by (simp add: cfg_store_load_def load_slot_consider f consider_slot_def cfg_store_init_def)
  obtain st' d3 where s: "cfg_store_save ram_rd ram_wr cfg_store_init ?c (?d\<lparr>ram_script := []\<rparr>) = (CFG_STORE_OK, st', d3)"
    using ram_save [OF w, of "?d\<lparr>ram_script := []\<rparr>" cfg_store_init] by (auto simp: cfg_store_init_def)
  have "cfg_generation_newer 2 1" by (simp add: cfg_generation_newer_def)
  from save_after_unreadable_boot_lost [OF ram.store_io_axioms f sample_ram_b this, where st = cfg_store_init and out = sample_cfg,
      unfolded st, OF s w]
  show ?thesis by blast
qed

end
