(* ===== verification/Config_Validate.thy ===== *)
theory Config_Validate
  imports Config_Codec Float_Facts
begin

text \<open>
  The configuration guard rails, \<open>control/Src/config_validate.c\<close>: the first violated rule is
  reported, nothing is repaired. Every comparison is the float comparison of the source, whose
  negated form sends a NaN to the rejection. The C out-parameter \<open>bad_profile\<close> is the second
  component of the result (-1 where no profile is at fault).
\<close>

section \<open>Codes\<close>

datatype cfg_err_t = CFG_OK | CFG_ERR_ARG
  | CFG_ERR_FLOOR_LIMP | CFG_ERR_RANGE_V_BULK | CFG_ERR_RANGE_V_BULK_CONS | CFG_ERR_RANGE_V_FLOAT
  | CFG_ERR_RANGE_V_FLOAT_CONS | CFG_ERR_RANGE_V_LIMP | CFG_ERR_ORDER_BULK_CONS
  | CFG_ERR_ORDER_CONS_FLOAT | CFG_ERR_ORDER_FLOAT_FCONS | CFG_ERR_ORDER_FCONS_LIMP
  | CFG_ERR_LIMP_VCELL_MISMATCH
  | CFG_ERR_RANGE_CELLS | CFG_ERR_RANGE_BANK_AH | CFG_ERR_RANGE_MAX_POWER | CFG_ERR_RANGE_RAMP
  | CFG_ERR_RANGE_T_VCLAMP | CFG_ERR_RANGE_T_CHARGE_MAX | CFG_ERR_RANGE_WARMUP_TIME
  | CFG_ERR_RANGE_WARMUP_COOLANT | CFG_ERR_RANGE_SOC_TARGET | CFG_ERR_RANGE_P_TAIL
  | CFG_ERR_RANGE_T_TAIL_HOLD
  | CFG_ERR_SANITY_ROTOR_RATED | CFG_ERR_SANITY_ROTOR_VMAX | CFG_ERR_SANITY_LIMP_POWER_CAP
  | CFG_ERR_RANGE_BATT_TEMP_SRC | CFG_ERR_SANITY_BATTERY_C | CFG_ERR_SANITY_WIRING_A
  | CFG_ERR_SANITY_ALT_A | CFG_ERR_SANITY_SKIP_BULK_VCELL | CFG_ERR_RANGE_SKIP_BULK_SOC
  | CFG_ERR_PROFILE_ID | CFG_ERR_PROFILE_REST_MODE | CFG_ERR_PROFILE_CV_REF
  | CFG_ERR_PROFILE_CV_RANGE | CFG_ERR_PROFILE_REST_V_REF | CFG_ERR_PROFILE_REST_V_RANGE
  | CFG_ERR_SANITY_REST_POWER_CAP | CFG_ERR_SANITY_V_REVERT | CFG_ERR_RANGE_SOC_REVERT
  | CFG_ERR_SANITY_AH_REVERT | CFG_ERR_ACTIVE_PROFILE

definition CFG_VLIMP_FLOOR_VCELL :: f32 where "CFG_VLIMP_FLOOR_VCELL = flit (320 / 100)"
definition CFG_ORDER_GAP_BULK :: f32 where "CFG_ORDER_GAP_BULK = flit (3 / 100)"
definition CFG_ORDER_GAP_FLOAT :: f32 where "CFG_ORDER_GAP_FLOAT = flit (2 / 100)"
definition CFG_VCELL_SPAN_LO :: f32 where "CFG_VCELL_SPAN_LO = flit (320 / 100)"
definition CFG_VCELL_SPAN_HI :: f32 where "CFG_VCELL_SPAN_HI = flit (365 / 100)"
definition CFG_VCELL_EPS :: f32 where "CFG_VCELL_EPS = flit (1 / 10000)"

lemmas vcell_consts = CFG_VLIMP_FLOOR_VCELL_def CFG_ORDER_GAP_BULK_def CFG_ORDER_GAP_FLOAT_def
  CFG_VCELL_SPAN_LO_def CFG_VCELL_SPAN_HI_def CFG_VCELL_EPS_def

section \<open>Rules\<close>

definition in_range :: "f32 \<Rightarrow> f32 \<Rightarrow> f32 \<Rightarrow> f32 \<Rightarrow> bool" where
  "in_range v lo hi eps \<longleftrightarrow> lo - eps \<le> v \<and> v \<le> hi + eps"

definition nonneg_finite :: "f32 \<Rightarrow> bool" where
  "nonneg_finite v \<longleftrightarrow> isfinite v \<and> 0 \<le> v"

definition validate_primitives :: "cfg_primitives_t \<Rightarrow> cfg_err_t" where
  "validate_primitives p =
     (if \<not> CFG_VLIMP_FLOOR_VCELL - CFG_VCELL_EPS \<le> pr_v_limp p then CFG_ERR_FLOOR_LIMP
      else if \<not> in_range (pr_v_bulk p) (flit (345 / 100)) (flit (365 / 100)) CFG_VCELL_EPS then CFG_ERR_RANGE_V_BULK
      else if \<not> in_range (pr_v_bulk_cons p) (flit (340 / 100)) (flit (358 / 100)) CFG_VCELL_EPS then CFG_ERR_RANGE_V_BULK_CONS
      else if \<not> in_range (pr_v_float p) (flit (333 / 100)) (flit (345 / 100)) CFG_VCELL_EPS then CFG_ERR_RANGE_V_FLOAT
      else if \<not> in_range (pr_v_float_cons p) (flit (328 / 100)) (flit (340 / 100)) CFG_VCELL_EPS then CFG_ERR_RANGE_V_FLOAT_CONS
      else if \<not> in_range (pr_v_limp p) (flit (320 / 100)) (flit (335 / 100)) CFG_VCELL_EPS then CFG_ERR_RANGE_V_LIMP
      else if \<not> CFG_ORDER_GAP_BULK - CFG_VCELL_EPS \<le> pr_v_bulk p - pr_v_bulk_cons p then CFG_ERR_ORDER_BULK_CONS
      else if \<not> CFG_ORDER_GAP_BULK - CFG_VCELL_EPS \<le> pr_v_bulk_cons p - pr_v_float p then CFG_ERR_ORDER_CONS_FLOAT
      else if \<not> CFG_ORDER_GAP_FLOAT - CFG_VCELL_EPS \<le> pr_v_float p - pr_v_float_cons p then CFG_ERR_ORDER_FLOAT_FCONS
      else if \<not> CFG_ORDER_GAP_FLOAT - CFG_VCELL_EPS \<le> pr_v_float_cons p - pr_v_limp p then CFG_ERR_ORDER_FCONS_LIMP
      else CFG_OK)"

definition validate_globals :: "ctrl_globals_t \<Rightarrow> cfg_primitives_t \<Rightarrow> cfg_err_t" where
  "validate_globals g prim =
     (if \<not> fabsf (g_limp_vcell g - pr_v_limp prim) \<le> CFG_VCELL_EPS then CFG_ERR_LIMP_VCELL_MISMATCH
      else if \<not> (4 \<le> g_cells_series g \<and> g_cells_series g \<le> 16) then CFG_ERR_RANGE_CELLS
      else if \<not> in_range (g_bank_capacity_ah g) (flit 40) (flit 3000) 0 then CFG_ERR_RANGE_BANK_AH
      else if \<not> in_range (g_max_charge_power_w g) (flit 100) (flit 20000) 0 then CFG_ERR_RANGE_MAX_POWER
      else if \<not> in_range (g_ramp_w_per_s g) (flit 10) (flit 1000) 0 then CFG_ERR_RANGE_RAMP
      else if \<not> (2 \<le> g_t_vclamp_s g \<and> g_t_vclamp_s g \<le> 30) then CFG_ERR_RANGE_T_VCLAMP
      else if \<not> (60 \<le> g_t_charge_max_min g \<and> g_t_charge_max_min g \<le> 1440) then CFG_ERR_RANGE_T_CHARGE_MAX
      else if \<not> g_warmup_time_s g \<le> 600 then CFG_ERR_RANGE_WARMUP_TIME
      else if \<not> isnan (g_warmup_coolant_c g) \<and> \<not> in_range (g_warmup_coolant_c g) (flit 20) (flit 90) 0
           then CFG_ERR_RANGE_WARMUP_COOLANT
      else if sint (g_soc_target_pct g) \<noteq> -1 \<and> \<not> (70 \<le> sint (g_soc_target_pct g) \<and> sint (g_soc_target_pct g) \<le> 100)
           then CFG_ERR_RANGE_SOC_TARGET
      else
        let c_equiv = g_bank_capacity_ah g * float_u8 (g_cells_series g) * flit (345 / 100);
            lo = flit (1 / 100) * c_equiv;
            hi = flit (10 / 100) * c_equiv
        in if \<not> in_range (g_p_tail_w g) lo hi (hi * flit (1 / 1000000)) then CFG_ERR_RANGE_P_TAIL
      else if \<not> (10 \<le> g_t_tail_hold_s g \<and> g_t_tail_hold_s g \<le> 600) then CFG_ERR_RANGE_T_TAIL_HOLD
      else if \<not> (isfinite (g_rotor_rated_v g) \<and> 0 < g_rotor_rated_v g) then CFG_ERR_SANITY_ROTOR_RATED
      else if \<not> isnan (g_rotor_v_max g) \<and> \<not> (isfinite (g_rotor_v_max g) \<and> 0 < g_rotor_v_max g)
           then CFG_ERR_SANITY_ROTOR_VMAX
      else if \<not> nonneg_finite (g_limp_power_cap_w g) then CFG_ERR_SANITY_LIMP_POWER_CAP
      else if \<not> (g_batt_temp_src g = CTRL_BATT_TEMP_NONE \<or> g_batt_temp_src g = CTRL_BATT_TEMP_ADC_A
                   \<or> g_batt_temp_src g = CTRL_BATT_TEMP_ADC_B) then CFG_ERR_RANGE_BATT_TEMP_SRC
      else if \<not> nonneg_finite (g_skip_bulk_vcell g) then CFG_ERR_SANITY_SKIP_BULK_VCELL
      else if 100 < sint (g_skip_bulk_soc_pct g) then CFG_ERR_RANGE_SKIP_BULK_SOC
      else CFG_OK)"

definition validate_limits :: "ctrl_limits_t \<Rightarrow> cfg_err_t" where
  "validate_limits l =
     (if \<not> nonneg_finite (lim_battery_c_limit l) then CFG_ERR_SANITY_BATTERY_C
      else if \<not> nonneg_finite (lim_wiring_limit_a l) then CFG_ERR_SANITY_WIRING_A
      else if \<not> nonneg_finite (lim_alternator_limit_a l) then CFG_ERR_SANITY_ALT_A
      else CFG_OK)"

text \<open>The primitive-reference rule, which the C code writes out for \<open>cv_target\<close> and for \<open>rest_voltage\<close>.\<close>

definition ref_rule :: "cfg_primitives_t \<Rightarrow> cfg_prim_ref_t \<Rightarrow> f32 \<Rightarrow> cfg_err_t \<Rightarrow> cfg_err_t \<Rightarrow> cfg_err_t" where
  "ref_rule prim ref v mismatch outside =
     (if ref \<noteq> CFG_PRIM_NONE
      then if \<not> fabsf (v - cfg_primitive_value prim ref) \<le> CFG_VCELL_EPS then mismatch else CFG_OK
      else if \<not> in_range v CFG_VCELL_SPAN_LO CFG_VCELL_SPAN_HI CFG_VCELL_EPS then outside
      else CFG_OK)"

definition validate_profile :: "cfg_profile_t \<Rightarrow> cfg_primitives_t \<Rightarrow> nat \<Rightarrow> cfg_err_t" where
  "validate_profile pr prim index =
     (let p = cp_p pr;
          cv = ref_rule prim (cp_cv_target_ref pr) (p_cv_target_vcell p) CFG_ERR_PROFILE_CV_REF CFG_ERR_PROFILE_CV_RANGE;
          rv = ref_rule prim (cp_rest_voltage_ref pr) (p_rest_voltage_vcell p) CFG_ERR_PROFILE_REST_V_REF
                 CFG_ERR_PROFILE_REST_V_RANGE
      in if p_id p \<noteq> of_nat (index + 1) then CFG_ERR_PROFILE_ID
         else if cp_flags pr AND CFG_PROF_FLAG_RESERVED \<noteq> 0 then CFG_OK
         else if \<not> (p_rest_mode p = CTRL_REST_HOLD \<or> p_rest_mode p = CTRL_REST_ZERO) then CFG_ERR_PROFILE_REST_MODE
         else if cv \<noteq> CFG_OK then cv
         else if p_rest_mode p = CTRL_REST_HOLD \<and> rv \<noteq> CFG_OK then rv
         else if p_rest_mode p = CTRL_REST_HOLD \<and> \<not> nonneg_finite (p_rest_power_cap_w p)
              then CFG_ERR_SANITY_REST_POWER_CAP
         else if \<not> nonneg_finite (p_v_revert_vcell p) then CFG_ERR_SANITY_V_REVERT
         else if sint (p_soc_revert_pct p) < -1 \<or> 100 < sint (p_soc_revert_pct p) then CFG_ERR_RANGE_SOC_REVERT
         else if \<not> nonneg_finite (p_ah_revert p) then CFG_ERR_SANITY_AH_REVERT
         else CFG_OK)"

text \<open>The loop over the slots, from slot \<open>i\<close>: the first failing slot stops it.\<close>

fun validate_slots :: "cfg_primitives_t \<Rightarrow> nat \<Rightarrow> cfg_profile_t list \<Rightarrow> cfg_err_t \<times> int" where
  "validate_slots prim i [] = (CFG_OK, -1)"
| "validate_slots prim i (pr # prs) =
     (let e = validate_profile pr prim i in if e \<noteq> CFG_OK then (e, int i) else validate_slots prim (i + 1) prs)"

definition ctrl_config_validate :: "ctrl_config_t \<Rightarrow> cfg_err_t \<times> int" where
  "ctrl_config_validate cfg =
     (let e = validate_primitives (cfg_prim cfg) in if e \<noteq> CFG_OK then (e, -1) else
      let e = validate_globals (cfg_globals cfg) (cfg_prim cfg) in if e \<noteq> CFG_OK then (e, -1) else
      let e = validate_limits (cfg_limits cfg) in if e \<noteq> CFG_OK then (e, -1) else
      let eb = validate_slots (cfg_prim cfg) 0 (cfg_profiles cfg) in if fst eb \<noteq> CFG_OK then eb else
      if cfg_active_profile cfg < 1 \<or> CFG_PROFILE_COUNT < unat (cfg_active_profile cfg)
      then (CFG_ERR_ACTIVE_PROFILE, -1)
      else if cp_flags (cfg_profiles cfg ! (unat (cfg_active_profile cfg) - 1)) AND CFG_PROF_FLAG_RESERVED \<noteq> 0
      then (CFG_ERR_ACTIVE_PROFILE, uint (cfg_active_profile cfg) - 1)
      else (CFG_OK, -1))"

section \<open>Texts\<close>

primrec cfg_err_str :: "cfg_err_t \<Rightarrow> string" where
  "cfg_err_str CFG_OK = ''ok''"
| "cfg_err_str CFG_ERR_ARG = ''null config''"
| "cfg_err_str CFG_ERR_FLOOR_LIMP = ''v_limp below the 3.20 V/cell hard floor''"
| "cfg_err_str CFG_ERR_RANGE_V_BULK = ''v_bulk out of range 3.45-3.65''"
| "cfg_err_str CFG_ERR_RANGE_V_BULK_CONS = ''v_bulk_cons out of range 3.40-3.58''"
| "cfg_err_str CFG_ERR_RANGE_V_FLOAT = ''v_float out of range 3.33-3.45''"
| "cfg_err_str CFG_ERR_RANGE_V_FLOAT_CONS = ''v_float_cons out of range 3.28-3.40''"
| "cfg_err_str CFG_ERR_RANGE_V_LIMP = ''v_limp out of range 3.20-3.35''"
| "cfg_err_str CFG_ERR_ORDER_BULK_CONS = ''v_bulk must exceed v_bulk_cons by 0.03 V/cell''"
| "cfg_err_str CFG_ERR_ORDER_CONS_FLOAT = ''v_bulk_cons must exceed v_float by 0.03 V/cell''"
| "cfg_err_str CFG_ERR_ORDER_FLOAT_FCONS = ''v_float must exceed v_float_cons by 0.02 V/cell''"
| "cfg_err_str CFG_ERR_ORDER_FCONS_LIMP = ''v_float_cons must exceed v_limp by 0.02 V/cell''"
| "cfg_err_str CFG_ERR_LIMP_VCELL_MISMATCH = ''limp_vcell disagrees with primitive v_limp''"
| "cfg_err_str CFG_ERR_RANGE_CELLS = ''cells_series out of range 4-16''"
| "cfg_err_str CFG_ERR_RANGE_BANK_AH = ''bank_capacity_ah out of range 40-3000''"
| "cfg_err_str CFG_ERR_RANGE_MAX_POWER = ''max_charge_power_w out of range 100-20000''"
| "cfg_err_str CFG_ERR_RANGE_RAMP = ''ramp_w_per_s out of range 10-1000''"
| "cfg_err_str CFG_ERR_RANGE_T_VCLAMP = ''t_vclamp_s out of range 2-30''"
| "cfg_err_str CFG_ERR_RANGE_T_CHARGE_MAX = ''t_charge_max_min out of range 60-1440''"
| "cfg_err_str CFG_ERR_RANGE_WARMUP_TIME = ''warmup_time_s out of range 0-600''"
| "cfg_err_str CFG_ERR_RANGE_WARMUP_COOLANT = ''warmup_coolant_c out of range 20-90''"
| "cfg_err_str CFG_ERR_RANGE_SOC_TARGET = ''soc_target_pct out of range 70-100''"
| "cfg_err_str CFG_ERR_RANGE_P_TAIL = ''p_tail_w outside the 0.01C-0.10C window''"
| "cfg_err_str CFG_ERR_RANGE_T_TAIL_HOLD = ''t_tail_hold_s out of range 10-600''"
| "cfg_err_str CFG_ERR_SANITY_ROTOR_RATED = ''rotor_rated_v must be finite and positive''"
| "cfg_err_str CFG_ERR_SANITY_ROTOR_VMAX = ''rotor_v_max must be finite and positive, or NaN''"
| "cfg_err_str CFG_ERR_SANITY_LIMP_POWER_CAP = ''limp_power_cap_w must be finite and non-negative''"
| "cfg_err_str CFG_ERR_RANGE_BATT_TEMP_SRC = ''batt_temp_src must be none, adc_a, or adc_b''"
| "cfg_err_str CFG_ERR_SANITY_BATTERY_C = ''battery_c_limit must be finite and non-negative''"
| "cfg_err_str CFG_ERR_SANITY_WIRING_A = ''wiring_limit_a must be finite and non-negative''"
| "cfg_err_str CFG_ERR_SANITY_ALT_A = ''alternator_limit_a must be finite and non-negative''"
| "cfg_err_str CFG_ERR_SANITY_SKIP_BULK_VCELL = ''skip_bulk_vcell must be finite and non-negative''"
| "cfg_err_str CFG_ERR_RANGE_SKIP_BULK_SOC = ''skip_bulk_soc_pct above 100''"
| "cfg_err_str CFG_ERR_PROFILE_ID = ''profile id does not match its slot''"
| "cfg_err_str CFG_ERR_PROFILE_REST_MODE = ''rest_mode is neither hold nor zero''"
| "cfg_err_str CFG_ERR_PROFILE_CV_REF = ''cv_target disagrees with the primitive it references''"
| "cfg_err_str CFG_ERR_PROFILE_CV_RANGE = ''literal cv_target outside the 3.20-3.65 span''"
| "cfg_err_str CFG_ERR_PROFILE_REST_V_REF = ''rest_voltage disagrees with the primitive it references''"
| "cfg_err_str CFG_ERR_PROFILE_REST_V_RANGE = ''literal rest_voltage outside the 3.20-3.65 span''"
| "cfg_err_str CFG_ERR_SANITY_REST_POWER_CAP = ''rest_power_cap_w must be finite and non-negative''"
| "cfg_err_str CFG_ERR_SANITY_V_REVERT = ''v_revert must be finite and non-negative''"
| "cfg_err_str CFG_ERR_RANGE_SOC_REVERT = ''soc_revert_pct out of range -1..100''"
| "cfg_err_str CFG_ERR_SANITY_AH_REVERT = ''ah_revert must be finite and non-negative''"
| "cfg_err_str CFG_ERR_ACTIVE_PROFILE = ''active_profile is out of range or a reserved slot''"

primrec cfg_err_name :: "cfg_err_t \<Rightarrow> string" where
  "cfg_err_name CFG_OK = ''CFG_OK''"
| "cfg_err_name CFG_ERR_ARG = ''CFG_ERR_ARG''"
| "cfg_err_name CFG_ERR_FLOOR_LIMP = ''CFG_ERR_FLOOR_LIMP''"
| "cfg_err_name CFG_ERR_RANGE_V_BULK = ''CFG_ERR_RANGE_V_BULK''"
| "cfg_err_name CFG_ERR_RANGE_V_BULK_CONS = ''CFG_ERR_RANGE_V_BULK_CONS''"
| "cfg_err_name CFG_ERR_RANGE_V_FLOAT = ''CFG_ERR_RANGE_V_FLOAT''"
| "cfg_err_name CFG_ERR_RANGE_V_FLOAT_CONS = ''CFG_ERR_RANGE_V_FLOAT_CONS''"
| "cfg_err_name CFG_ERR_RANGE_V_LIMP = ''CFG_ERR_RANGE_V_LIMP''"
| "cfg_err_name CFG_ERR_ORDER_BULK_CONS = ''CFG_ERR_ORDER_BULK_CONS''"
| "cfg_err_name CFG_ERR_ORDER_CONS_FLOAT = ''CFG_ERR_ORDER_CONS_FLOAT''"
| "cfg_err_name CFG_ERR_ORDER_FLOAT_FCONS = ''CFG_ERR_ORDER_FLOAT_FCONS''"
| "cfg_err_name CFG_ERR_ORDER_FCONS_LIMP = ''CFG_ERR_ORDER_FCONS_LIMP''"
| "cfg_err_name CFG_ERR_LIMP_VCELL_MISMATCH = ''CFG_ERR_LIMP_VCELL_MISMATCH''"
| "cfg_err_name CFG_ERR_RANGE_CELLS = ''CFG_ERR_RANGE_CELLS''"
| "cfg_err_name CFG_ERR_RANGE_BANK_AH = ''CFG_ERR_RANGE_BANK_AH''"
| "cfg_err_name CFG_ERR_RANGE_MAX_POWER = ''CFG_ERR_RANGE_MAX_POWER''"
| "cfg_err_name CFG_ERR_RANGE_RAMP = ''CFG_ERR_RANGE_RAMP''"
| "cfg_err_name CFG_ERR_RANGE_T_VCLAMP = ''CFG_ERR_RANGE_T_VCLAMP''"
| "cfg_err_name CFG_ERR_RANGE_T_CHARGE_MAX = ''CFG_ERR_RANGE_T_CHARGE_MAX''"
| "cfg_err_name CFG_ERR_RANGE_WARMUP_TIME = ''CFG_ERR_RANGE_WARMUP_TIME''"
| "cfg_err_name CFG_ERR_RANGE_WARMUP_COOLANT = ''CFG_ERR_RANGE_WARMUP_COOLANT''"
| "cfg_err_name CFG_ERR_RANGE_SOC_TARGET = ''CFG_ERR_RANGE_SOC_TARGET''"
| "cfg_err_name CFG_ERR_RANGE_P_TAIL = ''CFG_ERR_RANGE_P_TAIL''"
| "cfg_err_name CFG_ERR_RANGE_T_TAIL_HOLD = ''CFG_ERR_RANGE_T_TAIL_HOLD''"
| "cfg_err_name CFG_ERR_SANITY_ROTOR_RATED = ''CFG_ERR_SANITY_ROTOR_RATED''"
| "cfg_err_name CFG_ERR_SANITY_ROTOR_VMAX = ''CFG_ERR_SANITY_ROTOR_VMAX''"
| "cfg_err_name CFG_ERR_SANITY_LIMP_POWER_CAP = ''CFG_ERR_SANITY_LIMP_POWER_CAP''"
| "cfg_err_name CFG_ERR_RANGE_BATT_TEMP_SRC = ''CFG_ERR_RANGE_BATT_TEMP_SRC''"
| "cfg_err_name CFG_ERR_SANITY_BATTERY_C = ''CFG_ERR_SANITY_BATTERY_C''"
| "cfg_err_name CFG_ERR_SANITY_WIRING_A = ''CFG_ERR_SANITY_WIRING_A''"
| "cfg_err_name CFG_ERR_SANITY_ALT_A = ''CFG_ERR_SANITY_ALT_A''"
| "cfg_err_name CFG_ERR_SANITY_SKIP_BULK_VCELL = ''CFG_ERR_SANITY_SKIP_BULK_VCELL''"
| "cfg_err_name CFG_ERR_RANGE_SKIP_BULK_SOC = ''CFG_ERR_RANGE_SKIP_BULK_SOC''"
| "cfg_err_name CFG_ERR_PROFILE_ID = ''CFG_ERR_PROFILE_ID''"
| "cfg_err_name CFG_ERR_PROFILE_REST_MODE = ''CFG_ERR_PROFILE_REST_MODE''"
| "cfg_err_name CFG_ERR_PROFILE_CV_REF = ''CFG_ERR_PROFILE_CV_REF''"
| "cfg_err_name CFG_ERR_PROFILE_CV_RANGE = ''CFG_ERR_PROFILE_CV_RANGE''"
| "cfg_err_name CFG_ERR_PROFILE_REST_V_REF = ''CFG_ERR_PROFILE_REST_V_REF''"
| "cfg_err_name CFG_ERR_PROFILE_REST_V_RANGE = ''CFG_ERR_PROFILE_REST_V_RANGE''"
| "cfg_err_name CFG_ERR_SANITY_REST_POWER_CAP = ''CFG_ERR_SANITY_REST_POWER_CAP''"
| "cfg_err_name CFG_ERR_SANITY_V_REVERT = ''CFG_ERR_SANITY_V_REVERT''"
| "cfg_err_name CFG_ERR_RANGE_SOC_REVERT = ''CFG_ERR_RANGE_SOC_REVERT''"
| "cfg_err_name CFG_ERR_SANITY_AH_REVERT = ''CFG_ERR_SANITY_AH_REVERT''"
| "cfg_err_name CFG_ERR_ACTIVE_PROFILE = ''CFG_ERR_ACTIVE_PROFILE''"

text \<open>The codes in the order of the header.\<close>

definition cfg_errs :: "cfg_err_t list" where
  "cfg_errs = [CFG_OK, CFG_ERR_ARG, CFG_ERR_FLOOR_LIMP, CFG_ERR_RANGE_V_BULK, CFG_ERR_RANGE_V_BULK_CONS,
     CFG_ERR_RANGE_V_FLOAT, CFG_ERR_RANGE_V_FLOAT_CONS, CFG_ERR_RANGE_V_LIMP, CFG_ERR_ORDER_BULK_CONS,
     CFG_ERR_ORDER_CONS_FLOAT, CFG_ERR_ORDER_FLOAT_FCONS, CFG_ERR_ORDER_FCONS_LIMP,
     CFG_ERR_LIMP_VCELL_MISMATCH, CFG_ERR_RANGE_CELLS, CFG_ERR_RANGE_BANK_AH, CFG_ERR_RANGE_MAX_POWER,
     CFG_ERR_RANGE_RAMP, CFG_ERR_RANGE_T_VCLAMP, CFG_ERR_RANGE_T_CHARGE_MAX, CFG_ERR_RANGE_WARMUP_TIME,
     CFG_ERR_RANGE_WARMUP_COOLANT, CFG_ERR_RANGE_SOC_TARGET, CFG_ERR_RANGE_P_TAIL,
     CFG_ERR_RANGE_T_TAIL_HOLD, CFG_ERR_SANITY_ROTOR_RATED, CFG_ERR_SANITY_ROTOR_VMAX,
     CFG_ERR_SANITY_LIMP_POWER_CAP, CFG_ERR_RANGE_BATT_TEMP_SRC, CFG_ERR_SANITY_BATTERY_C,
     CFG_ERR_SANITY_WIRING_A, CFG_ERR_SANITY_ALT_A, CFG_ERR_SANITY_SKIP_BULK_VCELL,
     CFG_ERR_RANGE_SKIP_BULK_SOC, CFG_ERR_PROFILE_ID, CFG_ERR_PROFILE_REST_MODE, CFG_ERR_PROFILE_CV_REF,
     CFG_ERR_PROFILE_CV_RANGE, CFG_ERR_PROFILE_REST_V_REF, CFG_ERR_PROFILE_REST_V_RANGE,
     CFG_ERR_SANITY_REST_POWER_CAP, CFG_ERR_SANITY_V_REVERT, CFG_ERR_RANGE_SOC_REVERT,
     CFG_ERR_SANITY_AH_REVERT, CFG_ERR_ACTIVE_PROFILE]"

end
