(* ===== verification/Config_Rules.thy ===== *)
theory Config_Rules
  imports Config_Validate Config_Record
begin

text \<open>
  What an accepted configuration guarantees, in exact values: the ordering of the voltage
  primitives, the window of every voltage the engine can charge to, and the preconditions the
  engine's own theorems need; which slot a rejection names; and the effect of the primitive
  resolution on the reference rules.
\<close>

section \<open>From float comparisons to values\<close>

lemma between_values:
  assumes "a \<le> x" "x \<le> b" "isfinite a" "isfinite b"
  shows "isfinite x" "fval a \<le> fval x" "fval x \<le> fval b"
proof -
  show f: "isfinite x" using assms by (rule isfinite_between)
  show "fval a \<le> fval x" "fval x \<le> fval b" using assms f by (simp_all add: fval_le)
qed

text \<open>A lower bound on a rounded difference gives one on the exact difference.\<close>

lemma diff_value:
  assumes "isfinite a" "isfinite b" "c \<le> a - b" "flit d < c"
  shows "d < fval a - fval b"
proof (rule ccontr)
  assume n: "\<not> d < fval a - fval b"
  obtain s t where f: "fpv a = FpFin s (fval a)" "fpv b = FpFin t (fval b)"
    using assms by (metis isfinite_obtain)
  have "a - b \<le> flit d"
    by (rule round_le [of "fval a - fval b" d]) (use n in \<open>simp_all add: fp_simps fp_sub_def f\<close>)
  with assms(3) have "c \<le> flit d" by (rule f32_le_trans)
  with assms(4) show False by (auto simp: f32_order)
qed

lemma fabsf_ge: "\<not> isnan x \<Longrightarrow> x \<le> fabsf x \<and> - x \<le> fabsf x"
  by (cases "fpv x") (auto simp: f32_le_iff isnan_def fkey_def fp_simps)

lemma fabsf_finite: "fabsf x \<le> c \<Longrightarrow> isfinite c \<Longrightarrow> isfinite x"
  by (cases "fpv x"; cases "fpv c")
    (auto simp: f32_le_iff isnan_def fkey_def fp_simps isfinite_def fp_finite_def)

lemma diff_finite: "isfinite (v - r) \<Longrightarrow> isfinite v \<and> isfinite r"
  by (cases "fpv v"; cases "fpv r") (auto simp: isfinite_def fp_finite_def fp_simps fp_sub_def split: if_splits)

lemma near_value:
  assumes "fabsf (v - r) \<le> c" "isfinite c" "c < flit d"
  shows "isfinite v" "isfinite r" "\<bar>fval v - fval r\<bar> < d"
proof -
  have f: "isfinite (v - r)" using assms(1,2) by (rule fabsf_finite)
  from diff_finite [OF f] show v: "isfinite v" and r: "isfinite r" by simp_all
  obtain s t where fv: "fpv v = FpFin s (fval v)" "fpv r = FpFin t (fval r)"
    using v r by (metis isfinite_obtain)
  have ge: "v - r \<le> fabsf (v - r)" "- (v - r) \<le> fabsf (v - r)"
    using fabsf_ge [of "v - r"] f by (simp_all add: isfinite_not_nan)
  have up: "x < flit d" if "x \<le> fabsf (v - r)" for x
    using f32_le_less_trans [OF f32_le_trans [OF that assms(1)] assms(3)] .
  have "fval v - fval r < d"
  proof (rule ccontr)
    assume "\<not> fval v - fval r < d"
    then have "flit d \<le> v - r"
      by (intro round_le [of d "fval v - fval r"]) (simp_all add: fp_simps fp_sub_def fv)
    with up [OF ge(1)] show False by (auto simp: f32_order)
  qed
  moreover have "fval r - fval v < d"
  proof (rule ccontr)
    assume n: "\<not> fval r - fval v < d"
    have "fpv (v - r) = fp_round single_fmt (s \<and> \<not> t) (fval v - fval r)" by (simp add: fp_simps fp_sub_def fv)
    then have "fkey (- (v - r)) = fp_key (fp_neg (fp_round single_fmt (s \<and> \<not> t) (fval v - fval r)))"
      by (simp add: fkey_def fpv_uminus)
    also have "\<dots> = fp_key (fp_round single_fmt (\<not> (s \<and> \<not> t)) (fval r - fval v))"
      using round_rat_minus [of single_fmt "fval v - fval r"] powi2_pos [of "fmt_emax single_fmt + 1"]
      by (auto simp: fp_round_def Let_def simp flip: not_less)
    finally have "fkey (flit d) \<le> fkey (- (v - r))"
      using fp_round_key_mono [of d "fval r - fval v"] n by (simp add: fkey_def fpv_flit)
    then have "flit d \<le> - (v - r)"
      using f by (simp add: f32_le_iff isnan_def fpv_uminus) (use flit_not_nan [of d] in \<open>auto simp: isnan_def isfinite_def fp_finite_def split: fp.splits\<close>)
    with up [OF ge(2)] show False by (auto simp: f32_order)
  qed
  ultimately show "\<bar>fval v - fval r\<bar> < d" by linarith
qed

section \<open>Constants\<close>

lemma vcell_fin: "isfinite CFG_VCELL_EPS" "isfinite (flit (320 / 100) - CFG_VCELL_EPS)" "isfinite (flit (365 / 100) + CFG_VCELL_EPS)"
  by code_simp+

lemma vcell_near: "CFG_VCELL_EPS < flit (11 / 100000)"
  by code_simp

lemma vcell_gaps: "flit (298 / 10000) < CFG_ORDER_GAP_BULK - CFG_VCELL_EPS" "flit (198 / 10000) < CFG_ORDER_GAP_FLOAT - CFG_VCELL_EPS"
  by code_simp+

lemma vcell_span: "31998 / 10000 \<le> fval (flit (320 / 100) - CFG_VCELL_EPS)" "fval (flit (365 / 100) + CFG_VCELL_EPS) \<le> 36502 / 10000"
  by code_simp+

lemma flit_finite: "\<bar>p\<bar> \<le> 1000000 \<Longrightarrow> isfinite (flit p)"
proof -
  assume "\<bar>p\<bar> \<le> 1000000"
  then have "flit (- 1000000) \<le> flit p" "flit p \<le> flit 1000000" by (simp_all add: flit_mono abs_le_iff)
  moreover have "isfinite (flit (- 1000000))" "isfinite (flit 1000000)" by code_simp+
  ultimately show ?thesis by (rule isfinite_between)
qed

lemma window_mono:
  assumes "p \<le> q" "\<bar>p\<bar> \<le> 1000000" "\<bar>q\<bar> \<le> 1000000"
  shows "flit p - CFG_VCELL_EPS \<le> flit q - CFG_VCELL_EPS" "flit p + CFG_VCELL_EPS \<le> flit q + CFG_VCELL_EPS"
proof -
  note f = flit_finite [OF assms(2)] flit_finite [OF assms(3)] vcell_fin(1)
  have v: "fval (flit p) \<le> fval (flit q)" using f flit_mono [OF assms(1)] by (simp add: fval_le)
  obtain s t u where r: "fpv (flit p) = FpFin s (fval (flit p))" "fpv (flit q) = FpFin t (fval (flit q))"
    "fpv CFG_VCELL_EPS = FpFin u (fval CFG_VCELL_EPS)"
    using f by (metis isfinite_obtain)
  show "flit p - CFG_VCELL_EPS \<le> flit q - CFG_VCELL_EPS"
    by (rule round_le [of "fval (flit p) - fval CFG_VCELL_EPS" "fval (flit q) - fval CFG_VCELL_EPS"])
      (use v in \<open>simp_all add: fpv_minus fp_sub_def r\<close>)
  show "flit p + CFG_VCELL_EPS \<le> flit q + CFG_VCELL_EPS"
    by (rule round_le [of "fval (flit p) + fval CFG_VCELL_EPS" "fval (flit q) + fval CFG_VCELL_EPS"])
      (use v in \<open>simp_all add: fpv_plus r\<close>)
qed

text \<open>A float inside the whole voltage span, its tolerance included.\<close>

definition vcell_ok :: "f32 \<Rightarrow> bool" where
  "vcell_ok v \<longleftrightarrow> isfinite v \<and> 31998 / 10000 \<le> fval v \<and> fval v \<le> 36502 / 10000"

lemma span_ok:
  assumes "in_range v (flit (320 / 100)) (flit (365 / 100)) CFG_VCELL_EPS"
  shows "vcell_ok v"
proof -
  have b: "flit (320 / 100) - CFG_VCELL_EPS \<le> v" "v \<le> flit (365 / 100) + CFG_VCELL_EPS"
    using assms unfolding in_range_def by blast+
  note v = between_values [OF b vcell_fin(2,3)]
  show ?thesis
    unfolding vcell_ok_def using v(1) order_trans [OF vcell_span(1) v(2)] order_trans [OF v(3) vcell_span(2)] by blast
qed

lemma window_ok:
  assumes "in_range v (flit lo) (flit hi) CFG_VCELL_EPS" "320 / 100 \<le> lo" "lo \<le> 10" "0 \<le> hi" "hi \<le> 365 / 100"
  shows "vcell_ok v"
proof (rule span_ok)
  have "flit (320 / 100) - CFG_VCELL_EPS \<le> flit lo - CFG_VCELL_EPS" "flit hi + CFG_VCELL_EPS \<le> flit (365 / 100) + CFG_VCELL_EPS"
    using assms(2-5) by (intro window_mono; simp)+
  then show "in_range v (flit (320 / 100)) (flit (365 / 100)) CFG_VCELL_EPS"
    using assms(1) unfolding in_range_def by (meson f32_le_trans)
qed

lemma primitives_ok:
  assumes "validate_primitives p = CFG_OK"
  shows "vcell_ok (pr_v_bulk p)" "vcell_ok (pr_v_bulk_cons p)" "vcell_ok (pr_v_float p)"
    "vcell_ok (pr_v_float_cons p)" "vcell_ok (pr_v_limp p)"
proof -
  have "in_range (pr_v_bulk p) (flit (345 / 100)) (flit (365 / 100)) CFG_VCELL_EPS"
    "in_range (pr_v_bulk_cons p) (flit (340 / 100)) (flit (358 / 100)) CFG_VCELL_EPS"
    "in_range (pr_v_float p) (flit (333 / 100)) (flit (345 / 100)) CFG_VCELL_EPS"
    "in_range (pr_v_float_cons p) (flit (328 / 100)) (flit (340 / 100)) CFG_VCELL_EPS"
    "in_range (pr_v_limp p) (flit (320 / 100)) (flit (335 / 100)) CFG_VCELL_EPS"
    using assms by (auto simp: validate_primitives_def split: if_splits)
  then show "vcell_ok (pr_v_bulk p)" "vcell_ok (pr_v_bulk_cons p)" "vcell_ok (pr_v_float p)"
    "vcell_ok (pr_v_float_cons p)" "vcell_ok (pr_v_limp p)"
    by (auto elim!: window_ok)
qed

lemma primitives_gaps:
  assumes "validate_primitives p = CFG_OK"
  shows "298 / 10000 < fval (pr_v_bulk p) - fval (pr_v_bulk_cons p)"
    "298 / 10000 < fval (pr_v_bulk_cons p) - fval (pr_v_float p)"
    "198 / 10000 < fval (pr_v_float p) - fval (pr_v_float_cons p)"
    "198 / 10000 < fval (pr_v_float_cons p) - fval (pr_v_limp p)"
proof -
  have g: "CFG_ORDER_GAP_BULK - CFG_VCELL_EPS \<le> pr_v_bulk p - pr_v_bulk_cons p"
    "CFG_ORDER_GAP_BULK - CFG_VCELL_EPS \<le> pr_v_bulk_cons p - pr_v_float p"
    "CFG_ORDER_GAP_FLOAT - CFG_VCELL_EPS \<le> pr_v_float p - pr_v_float_cons p"
    "CFG_ORDER_GAP_FLOAT - CFG_VCELL_EPS \<le> pr_v_float_cons p - pr_v_limp p"
    using assms unfolding validate_primitives_def by (auto split: if_splits)
  note f = primitives_ok [OF assms, unfolded vcell_ok_def]
  show "298 / 10000 < fval (pr_v_bulk p) - fval (pr_v_bulk_cons p)"
    "298 / 10000 < fval (pr_v_bulk_cons p) - fval (pr_v_float p)"
    "198 / 10000 < fval (pr_v_float p) - fval (pr_v_float_cons p)"
    "198 / 10000 < fval (pr_v_float_cons p) - fval (pr_v_limp p)"
    by (rule diff_value [OF _ _ g(1) vcell_gaps(1)] diff_value [OF _ _ g(2) vcell_gaps(1)]
        diff_value [OF _ _ g(3) vcell_gaps(2)] diff_value [OF _ _ g(4) vcell_gaps(2)]; use f in simp)+
qed

section \<open>Acceptance\<close>

lemma validate_ok:
  assumes "fst (ctrl_config_validate cfg) = CFG_OK"
  shows "validate_primitives (cfg_prim cfg) = CFG_OK" "validate_globals (cfg_globals cfg) (cfg_prim cfg) = CFG_OK"
    "validate_limits (cfg_limits cfg) = CFG_OK" "fst (validate_slots (cfg_prim cfg) 0 (cfg_profiles cfg)) = CFG_OK"
    "1 \<le> unat (cfg_active_profile cfg)" "unat (cfg_active_profile cfg) \<le> CFG_PROFILE_COUNT"
    "cp_flags (cfg_profiles cfg ! (unat (cfg_active_profile cfg) - 1)) AND CFG_PROF_FLAG_RESERVED = 0"
  using assms unfolding ctrl_config_validate_def
  by (auto simp: Let_def word_less_nat_alt not_less split: if_splits)

lemma slots_ok: "fst (validate_slots prim k prs) = CFG_OK \<longleftrightarrow> (\<forall>i < length prs. validate_profile (prs ! i) prim (k + i) = CFG_OK)"
proof (induction prs arbitrary: k)
  case (Cons pr prs)
  show ?case using Cons.IH [of "k + 1"] by (auto simp: Let_def All_less_Suc2)
qed simp

lemma slots_first:
  assumes "validate_slots prim k prs = (e, b)" "e \<noteq> CFG_OK"
  shows "\<exists>i < length prs. b = int (k + i) \<and> validate_profile (prs ! i) prim (k + i) = e \<and>
    (\<forall>j < i. validate_profile (prs ! j) prim (k + j) = CFG_OK)"
  using assms
proof (induction prs arbitrary: k)
  case (Cons pr prs)
  show ?case
  proof (cases "validate_profile pr prim k = CFG_OK")
    case True
    with Cons.prems obtain i where i: "i < length prs" "b = int (k + 1 + i)" "validate_profile (prs ! i) prim (k + 1 + i) = e"
      "\<forall>j < i. validate_profile (prs ! j) prim (k + 1 + j) = CFG_OK"
      using Cons.IH [of "k + 1"] by (auto simp: Let_def)
    then show ?thesis using True by (intro exI [of _ "Suc i"]) (auto simp: All_less_Suc2)
  next
    case False
    then show ?thesis using Cons.prems by (intro exI [of _ 0]) (auto simp: Let_def)
  qed
qed simp

lemma primitive_value_ok:
  "validate_primitives p = CFG_OK \<Longrightarrow> \<not> isnan (cfg_primitive_value p ref) \<Longrightarrow> vcell_ok (cfg_primitive_value p ref)"
  using primitives_ok [of p] by (auto simp: cfg_primitive_value_def split: if_splits)

text \<open>The value a reference rule lets through: inside the span, or within the tolerance of a primitive.\<close>

lemma near_vcell:
  assumes "fabsf (v - r) \<le> CFG_VCELL_EPS" "\<not> isnan r \<Longrightarrow> vcell_ok r"
  shows "isfinite v \<and> 31996 / 10000 < fval v \<and> fval v < 36504 / 10000"
proof -
  note n = near_value [OF assms(1) vcell_fin(1) vcell_near]
  have "vcell_ok r" using assms(2) n(2) by (simp add: isfinite_not_nan)
  then show ?thesis using n unfolding vcell_ok_def abs_less_iff by linarith
qed

lemma ref_rule_ok:
  assumes "ref_rule prim ref v mismatch outside = CFG_OK" "mismatch \<noteq> CFG_OK" "outside \<noteq> CFG_OK"
    "validate_primitives prim = CFG_OK"
  shows "isfinite v \<and> 31996 / 10000 < fval v \<and> fval v < 36504 / 10000"
proof (cases "ref = CFG_PRIM_NONE")
  case True
  then have "vcell_ok v"
    using assms(1,3) by (intro span_ok) (auto simp: ref_rule_def CFG_VCELL_SPAN_LO_def CFG_VCELL_SPAN_HI_def split: if_splits)
  then show ?thesis unfolding vcell_ok_def by linarith
next
  case False
  then have "fabsf (v - cfg_primitive_value prim ref) \<le> CFG_VCELL_EPS"
    using assms(1,2) by (auto simp: ref_rule_def split: if_splits)
  then show ?thesis by (rule near_vcell) (rule primitive_value_ok [OF assms(4)])
qed

lemma ref_rule_values: "ref_rule prim ref v mismatch outside \<in> {CFG_OK, mismatch, outside}"
  by (auto simp: ref_rule_def)

lemma accepted_slot:
  assumes "validate_profile pr prim k = CFG_OK" "cp_flags pr AND CFG_PROF_FLAG_RESERVED = 0"
    "validate_primitives prim = CFG_OK"
  shows "p_id (cp_p pr) = of_nat (k + 1)" "p_rest_mode (cp_p pr) \<in> {CTRL_REST_HOLD, CTRL_REST_ZERO}"
    "isfinite (p_cv_target_vcell (cp_p pr)) \<and> 31996 / 10000 < fval (p_cv_target_vcell (cp_p pr)) \<and>
      fval (p_cv_target_vcell (cp_p pr)) < 36504 / 10000"
    "p_rest_mode (cp_p pr) = CTRL_REST_HOLD \<Longrightarrow> isfinite (p_rest_voltage_vcell (cp_p pr)) \<and>
      31996 / 10000 < fval (p_rest_voltage_vcell (cp_p pr)) \<and> fval (p_rest_voltage_vcell (cp_p pr)) < 36504 / 10000"
    "p_rest_mode (cp_p pr) = CTRL_REST_HOLD \<Longrightarrow> isfinite (p_rest_power_cap_w (cp_p pr)) \<and> 0 \<le> p_rest_power_cap_w (cp_p pr)"
  using assms(1,2)
    ref_rule_ok [of prim "cp_cv_target_ref pr" "p_cv_target_vcell (cp_p pr)" CFG_ERR_PROFILE_CV_REF CFG_ERR_PROFILE_CV_RANGE]
    ref_rule_ok [of prim "cp_rest_voltage_ref pr" "p_rest_voltage_vcell (cp_p pr)" CFG_ERR_PROFILE_REST_V_REF CFG_ERR_PROFILE_REST_V_RANGE]
    assms(3)
  unfolding validate_profile_def Let_def
  by (simp_all add: nonneg_finite_def split: if_splits)

section \<open>The sample configuration is accepted\<close>

lemma flit_dyadic:
  assumes "\<bar>n\<bar> < 2 ^ 24"
  shows "isfinite (flit (of_int n / 16))" "fval (flit (of_int n / 16)) = of_int n / 16"
proof -
  have p: "of_int n / 16 = of_int n * (2 :: rat) powi (-4)" by (simp add: power_int_def power_divide)
  have "representable single_fmt (of_int n / 16)"
    unfolding representable_def p using assms by (intro exI [of _ n] exI [of _ "-4"]) (simp add: single_fmt_def)
  then have r: "round_rat single_fmt (of_int n / 16) = of_int n / 16"
    by (intro round_rat_representable) (simp_all add: single_fmt_def)
  have "\<bar>of_int n / 16 :: rat\<bar> < 2 powi 128" using int_bound [OF assms] by (simp add: abs_divide)
  then have "\<exists>s. fpv (flit (of_int n / 16)) = FpFin s (of_int n / 16)"
    using r by (simp add: fp_simps fp_round_finite del: power_int_numeral)
  then show "isfinite (flit (of_int n / 16))" "fval (flit (of_int n / 16)) = of_int n / 16"
    by (auto simp: isfinite_def fp_finite_def fval_def fkey_def)
qed

text \<open>Literals inside a range of literals satisfy the range check.\<close>

lemma minus_eps_le: "isfinite a \<Longrightarrow> isfinite e \<Longrightarrow> 0 \<le> e \<Longrightarrow> a - e \<le> a"
proof -
  assume f: "isfinite a" "isfinite e" and "0 \<le> e"
  obtain s t where r: "fpv a = FpFin s (fval a)" "fpv e = FpFin t (fval e)" using f by (metis isfinite_obtain)
  have "fpv a = fp_round single_fmt s (fval a)"
    using fval_bound [OF f(1)] fval_fixed [OF f(1)] single_fpv [of a]
    by (simp add: r fp_round_finite del: power_int_numeral)
  moreover have "fpv (a - e) = fp_round single_fmt (s \<and> \<not> t) (fval a - fval e)"
    by (simp add: fpv_minus fp_sub_def r)
  moreover have "fval a - fval e \<le> fval a" using f(2) \<open>0 \<le> e\<close> by (simp add: fval_le)
  ultimately show "a - e \<le> a" by (metis round_le)
qed

lemma in_range_flit:
  assumes "lo \<le> v" "v \<le> hi" "\<bar>lo\<bar> \<le> 1000000" "\<bar>hi\<bar> \<le> 1000000" "isfinite e" "0 \<le> e"
  shows "in_range (flit v) (flit lo) (flit hi) e"
proof -
  have "flit lo - e \<le> flit lo" using assms by (intro minus_eps_le flit_finite)
  moreover have "flit hi \<le> flit hi + e" using assms by (intro add_nonneg_ge flit_finite)
  ultimately show ?thesis
    unfolding in_range_def using flit_mono [OF assms(1)] flit_mono [OF assms(2)] by (meson f32_le_trans)
qed

lemma gap_flit:
  assumes "\<bar>n\<bar> < 2 ^ 24" "\<bar>k\<bar> < 2 ^ 24" "g \<le> (of_int n - of_int k) / 16" "c \<le> flit g"
  shows "c \<le> flit (of_int n / 16) - flit (of_int k / 16)"
proof -
  obtain s t where r: "fpv (flit (of_int n / 16)) = FpFin s (of_int n / 16)" "fpv (flit (of_int k / 16)) = FpFin t (of_int k / 16)"
    using flit_dyadic [OF assms(1)] flit_dyadic [OF assms(2)] by (metis isfinite_obtain)
  have "fpv (flit (of_int n / 16) - flit (of_int k / 16)) = fp_round single_fmt (s \<and> \<not> t) ((of_int n - of_int k) / 16)"
    by (simp only: fpv_minus fp_sub_def r fp_neg.simps fp_add.simps diff_divide_distrib add_uminus_conv_diff)
  with assms(3) have "flit g \<le> flit (of_int n / 16) - flit (of_int k / 16)" by (rule round_le [OF _ fpv_flit])
  with assms(4) show ?thesis by (rule f32_le_trans)
qed

lemma eps_facts: "isfinite CFG_VCELL_EPS" "0 \<le> CFG_VCELL_EPS" "CFG_ORDER_GAP_BULK - CFG_VCELL_EPS \<le> flit (3 / 100)"
  "CFG_ORDER_GAP_FLOAT - CFG_VCELL_EPS \<le> flit (2 / 100)"
proof -
  show f: "isfinite CFG_VCELL_EPS" and z: "0 \<le> CFG_VCELL_EPS" by code_simp+
  show "CFG_ORDER_GAP_BULK - CFG_VCELL_EPS \<le> flit (3 / 100)" "CFG_ORDER_GAP_FLOAT - CFG_VCELL_EPS \<le> flit (2 / 100)"
    unfolding CFG_ORDER_GAP_BULK_def CFG_ORDER_GAP_FLOAT_def using f z by (intro minus_eps_le flit_finite; simp)+
qed

lemma sample_prim_ok: "validate_primitives sample_prim = CFG_OK"
proof -
  note w = in_range_flit [OF _ _ _ _ eps_facts(1,2)]
  have "in_range (pr_v_bulk sample_prim) (flit (345 / 100)) (flit (365 / 100)) CFG_VCELL_EPS"
    "in_range (pr_v_bulk_cons sample_prim) (flit (340 / 100)) (flit (358 / 100)) CFG_VCELL_EPS"
    "in_range (pr_v_float sample_prim) (flit (333 / 100)) (flit (345 / 100)) CFG_VCELL_EPS"
    "in_range (pr_v_float_cons sample_prim) (flit (328 / 100)) (flit (340 / 100)) CFG_VCELL_EPS"
    "in_range (pr_v_limp sample_prim) (flit (320 / 100)) (flit (335 / 100)) CFG_VCELL_EPS"
    unfolding sample_prim_def cfg_primitives_t.simps by (rule w; simp)+
  moreover have "CFG_ORDER_GAP_BULK - CFG_VCELL_EPS \<le> pr_v_bulk sample_prim - pr_v_bulk_cons sample_prim"
    "CFG_ORDER_GAP_BULK - CFG_VCELL_EPS \<le> pr_v_bulk_cons sample_prim - pr_v_float sample_prim"
    "CFG_ORDER_GAP_FLOAT - CFG_VCELL_EPS \<le> pr_v_float sample_prim - pr_v_float_cons sample_prim"
    "CFG_ORDER_GAP_FLOAT - CFG_VCELL_EPS \<le> pr_v_float_cons sample_prim - pr_v_limp sample_prim"
    using gap_flit [OF _ _ _ eps_facts(3), of 57 55] gap_flit [OF _ _ _ eps_facts(3), of 55 54]
      gap_flit [OF _ _ _ eps_facts(4), of 54 53] gap_flit [OF _ _ _ eps_facts(4), of 53 52]
    by (simp_all add: sample_prim_def)
  ultimately show ?thesis
    unfolding validate_primitives_def by (simp add: CFG_VLIMP_FLOOR_VCELL_def in_range_def)
qed

lemma zero_diff: "isfinite a \<Longrightarrow> fabsf (a - a) \<le> CFG_VCELL_EPS"
proof -
  assume "isfinite a"
  then obtain s v where "fpv a = FpFin s v" by (rule fin_cases)
  then have "fpv (a - a) = FpFin False 0" by (cases s) (simp_all add: fpv_minus fp_sub_def fp_round_def single_fmt_def)
  then have "fkey (fabsf (a - a)) = fkey 0" "\<not> isnan (fabsf (a - a))" by (simp_all add: fkey_def isnan_def fpv_fabsf)
  then show ?thesis using eps_facts(2) by (simp add: f32_le_iff)
qed

lemma sample_floats: "nonneg_finite (flit 1000)" "nonneg_finite (flit (328 / 100))" "nonneg_finite (flit 30)" "nonneg_finite (flit 250)"
    "nonneg_finite (flit (1 / 2))" "nonneg_finite (flit 100)" "nonneg_finite (flit 120)" "nonneg_finite 0"
  unfolding nonneg_finite_def by (auto intro!: flit_finite) code_simp+

lemma sample_tail:
  "in_range (flit 100) (flit (1 / 100) * (flit 100 * float_u8 16 * flit (345 / 100)))
     (flit (10 / 100) * (flit 100 * float_u8 16 * flit (345 / 100)))
     (flit (10 / 100) * (flit 100 * float_u8 16 * flit (345 / 100)) * flit (1 / 1000000))"
  by code_simp

lemma sample_globals_ok: "validate_globals (cfg_globals sample_cfg) sample_prim = CFG_OK"
proof -
  have r: "in_range (flit 100) (flit 40) (flit 3000) 0" "in_range (flit 5000) (flit 100) (flit 20000) 0"
    "in_range (flit 100) (flit 10) (flit 1000) 0"
    by (rule in_range_flit; simp)+
  have z: "fabsf (flit (52 / 16) - flit (52 / 16)) \<le> CFG_VCELL_EPS"
    by (intro zero_diff flit_finite) simp
  show ?thesis
    using r z sample_tail sample_floats sample_facts(5) flit_finite [of 12]
    by (simp add: validate_globals_def Let_def sample_cfg_def sample_g_def sample_prim_def CTRL_BATT_TEMP_NONE_def)
qed

lemma sample_slot_ok: "i = of_nat (k + 1) \<Longrightarrow> validate_profile (sample_slot i) sample_prim k = CFG_OK"
  using sample_floats zero_diff [of "flit (57 / 16)"] zero_diff [of "flit (54 / 16)"] flit_finite [of "57 / 16"] flit_finite [of "54 / 16"]
  by (simp add: validate_profile_def Let_def sample_slot_def sample_prof_def ref_rule_def cfg_prims
      cfg_primitive_value_def sample_prim_def CTRL_REST_HOLD_def)

lemma sample_cfg_ok: "ctrl_config_validate sample_cfg = (CFG_OK, -1)"
proof -
  have "validate_slots sample_prim 0 (cfg_profiles sample_cfg) = (CFG_OK, -1)"
    by (simp add: sample_cfg_def sample_slot_ok Let_def)
  then show ?thesis
    using sample_prim_ok sample_globals_ok sample_floats
    by (simp add: ctrl_config_validate_def sample_cfg_def sample_slot_def CFG_PROFILE_COUNT_def validate_limits_def
        sample_lims_def Let_def)
qed

lemma sample_cfg_fst: "fst (ctrl_config_validate sample_cfg) = CFG_OK"
  by (simp add: sample_cfg_ok)

section \<open>What acceptance guarantees\<close>

text \<open>The five voltage primitives of an accepted configuration are real numbers that
  descend strictly, bulk over conservative bulk over float over conservative float over limp,
  each step by more than the ordering gap less two tenths of a millivolt, and all lie between
  3.1998 and 3.6502 V per cell: no NaN, infinity or swapped pair gets through the float
  comparisons.\<close>

theorem accepted_primitives_ordered:
  assumes "fst (ctrl_config_validate cfg) = CFG_OK"
  shows "list_all isfinite [pr_v_bulk (cfg_prim cfg), pr_v_bulk_cons (cfg_prim cfg), pr_v_float (cfg_prim cfg),
      pr_v_float_cons (cfg_prim cfg), pr_v_limp (cfg_prim cfg)] \<and>
    31998 / 10000 \<le> fval (pr_v_limp (cfg_prim cfg)) \<and>
    fval (pr_v_limp (cfg_prim cfg)) + 198 / 10000 < fval (pr_v_float_cons (cfg_prim cfg)) \<and>
    fval (pr_v_float_cons (cfg_prim cfg)) + 198 / 10000 < fval (pr_v_float (cfg_prim cfg)) \<and>
    fval (pr_v_float (cfg_prim cfg)) + 298 / 10000 < fval (pr_v_bulk_cons (cfg_prim cfg)) \<and>
    fval (pr_v_bulk_cons (cfg_prim cfg)) + 298 / 10000 < fval (pr_v_bulk (cfg_prim cfg)) \<and>
    fval (pr_v_bulk (cfg_prim cfg)) \<le> 36502 / 10000"
  using primitives_ok [OF validate_ok(1) [OF assms]] primitives_gaps [OF validate_ok(1) [OF assms]]
  unfolding vcell_ok_def list.pred_inject by (intro conjI; simp)

theorem accepted_primitives_ordered_witness:
  "fval (pr_v_limp sample_prim) + 198 / 10000 < fval (pr_v_float_cons sample_prim)"
  using accepted_primitives_ordered [OF sample_cfg_fst] by (simp add: sample_cfg_def)

text \<open>Whatever profile of an accepted configuration the engine runs, the charge voltage,
  the rest voltage it holds and the limp voltage lie within 3.1996 to 3.6504 V per cell and the rest
  power cap is a non-negative number: a reserved slot is the only one exempt, and the active
  slot is not reserved.\<close>

theorem accepted_charge_voltages:
  assumes "fst (ctrl_config_validate cfg) = CFG_OK" "cfg_wf cfg" "i < CFG_PROFILE_COUNT"
    "cp_flags (cfg_profiles cfg ! i) AND CFG_PROF_FLAG_RESERVED = 0 \<or> i = unat (cfg_active_profile cfg) - 1"
  shows "(\<forall>v \<in> {p_cv_target_vcell (cp_p (cfg_profiles cfg ! i)), g_limp_vcell (cfg_globals cfg)} \<union>
        (if p_rest_mode (cp_p (cfg_profiles cfg ! i)) = CTRL_REST_HOLD
         then {p_rest_voltage_vcell (cp_p (cfg_profiles cfg ! i))} else {}).
      isfinite v \<and> 31996 / 10000 < fval v \<and> fval v < 36504 / 10000) \<and>
    (p_rest_mode (cp_p (cfg_profiles cfg ! i)) = CTRL_REST_HOLD \<or> p_rest_mode (cp_p (cfg_profiles cfg ! i)) = CTRL_REST_ZERO) \<and>
    (p_rest_mode (cp_p (cfg_profiles cfg ! i)) = CTRL_REST_HOLD \<longrightarrow>
      isfinite (p_rest_power_cap_w (cp_p (cfg_profiles cfg ! i))) \<and> 0 \<le> p_rest_power_cap_w (cp_p (cfg_profiles cfg ! i)))"
proof -
  note ok = validate_ok [OF assms(1)]
  have slot: "validate_profile (cfg_profiles cfg ! i) (cfg_prim cfg) i = CFG_OK"
    using ok(4) assms(2,3) by (simp add: slots_ok cfg_wf_def)
  have flag: "cp_flags (cfg_profiles cfg ! i) AND CFG_PROF_FLAG_RESERVED = 0"
    using assms(4) ok(7) by auto
  note s = accepted_slot [OF slot flag ok(1)]
  have "fabsf (g_limp_vcell (cfg_globals cfg) - pr_v_limp (cfg_prim cfg)) \<le> CFG_VCELL_EPS"
    using ok(2) by (auto simp: validate_globals_def split: if_splits)
  from near_vcell [OF this] have l: "isfinite (g_limp_vcell (cfg_globals cfg)) \<and>
      31996 / 10000 < fval (g_limp_vcell (cfg_globals cfg)) \<and> fval (g_limp_vcell (cfg_globals cfg)) < 36504 / 10000"
    using primitives_ok(5) [OF ok(1)] by simp
  show ?thesis using s(2,3,4,5) l by auto
qed

theorem accepted_charge_voltages_witness:
  "isfinite (p_cv_target_vcell (cp_p (cfg_profiles sample_cfg ! 2))) \<and>
   fval (p_cv_target_vcell (cp_p (cfg_profiles sample_cfg ! 2))) < 36504 / 10000"
proof -
  have "cp_flags (cfg_profiles sample_cfg ! 2) AND CFG_PROF_FLAG_RESERVED = 0"
    by (simp add: sample_cfg_def sample_slot_def)
  then show ?thesis
    using accepted_charge_voltages [OF sample_cfg_fst sample_cfg_wf, of 2] by (simp add: CFG_PROFILE_COUNT_def)
qed

lemma literal_bounds:
  assumes "in_range v (flit lo) (flit hi) 0" "isfinite (flit lo - 0)" "isfinite (flit hi + 0)"
  shows "isfinite v" "flit lo - 0 \<le> v" "v \<le> flit hi + 0"
  using assms isfinite_between [of "flit lo - 0" v "flit hi + 0"] by (auto simp: in_range_def)

lemma accepted_globals:
  assumes "validate_globals g prim = CFG_OK"
  shows "4 \<le> g_cells_series g" "g_cells_series g \<le> 16"
    "isfinite (g_rotor_rated_v g)" "0 < g_rotor_rated_v g"
    "\<not> isnan (g_rotor_v_max g) \<Longrightarrow> isfinite (g_rotor_v_max g) \<and> 0 < g_rotor_v_max g"
    "in_range (g_ramp_w_per_s g) (flit 10) (flit 1000) 0"
    "in_range (g_max_charge_power_w g) (flit 100) (flit 20000) 0"
    "nonneg_finite (g_limp_power_cap_w g)"
  using assms unfolding validate_globals_def Let_def by (auto split: if_splits)

section \<open>Which slot a rejection names\<close>

lemma last_rule:
  "(if A \<or> B then (x, m) else if C then (x, d) else (y, m)) = (e, b) \<Longrightarrow> b \<noteq> m \<Longrightarrow>
    d = b \<and> e = x \<and> \<not> A \<and> \<not> B \<and> C"
  by (auto split: if_splits)

text \<open>A rejection that names a profile slot names the first faulty one: every rule on the
  primitives, globals and limits holds, all earlier slots pass, and the code is that slot's first
  violated rule; the only other slot ever named is the active one, when it is reserved. A
  rejection that names no slot leaves -1.\<close>

theorem rejection_names_first_slot:
  assumes "cfg_wf cfg" "ctrl_config_validate cfg = (e, b)" "e \<noteq> CFG_OK" "b \<noteq> -1"
  shows "0 \<le> b \<and> b < 7 \<and> validate_primitives (cfg_prim cfg) = CFG_OK \<and>
    validate_globals (cfg_globals cfg) (cfg_prim cfg) = CFG_OK \<and> validate_limits (cfg_limits cfg) = CFG_OK \<and>
    (\<forall>j < nat b. validate_profile (cfg_profiles cfg ! j) (cfg_prim cfg) j = CFG_OK) \<and>
    (e = validate_profile (cfg_profiles cfg ! nat b) (cfg_prim cfg) (nat b) \<or>
     e = CFG_ERR_ACTIVE_PROFILE \<and> cp_flags (cfg_profiles cfg ! nat b) AND CFG_PROF_FLAG_RESERVED \<noteq> 0 \<and>
     nat b + 1 = unat (cfg_active_profile cfg))"
proof -
  have l: "length (cfg_profiles cfg) = 7" using assms(1) by (simp add: cfg_wf_def CFG_PROFILE_COUNT_def)
  have parts: "validate_primitives (cfg_prim cfg) = CFG_OK" "validate_globals (cfg_globals cfg) (cfg_prim cfg) = CFG_OK"
    "validate_limits (cfg_limits cfg) = CFG_OK"
    using assms(2-4) by (auto simp: ctrl_config_validate_def Let_def split: if_splits)
  show ?thesis
  proof (cases "fst (validate_slots (cfg_prim cfg) 0 (cfg_profiles cfg)) = CFG_OK")
    case False
    then have "validate_slots (cfg_prim cfg) 0 (cfg_profiles cfg) = (e, b)"
      using assms(2) parts by (simp add: ctrl_config_validate_def Let_def)
    from slots_first [OF this assms(3)] show ?thesis using parts l by auto
  next
    case True
    then have tail: "ctrl_config_validate cfg =
       (if cfg_active_profile cfg < 1 \<or> 7 < unat (cfg_active_profile cfg) then (CFG_ERR_ACTIVE_PROFILE, -1)
        else if cp_flags (cfg_profiles cfg ! (unat (cfg_active_profile cfg) - 1)) AND CFG_PROF_FLAG_RESERVED \<noteq> 0
        then (CFG_ERR_ACTIVE_PROFILE, uint (cfg_active_profile cfg) - 1) else (CFG_OK, -1))"
      using parts by (simp only: ctrl_config_validate_def Let_def CFG_PROFILE_COUNT_def simp_thms if_False)
    have u: "uint (cfg_active_profile cfg) - 1 = b" "e = CFG_ERR_ACTIVE_PROFILE" "1 \<le> cfg_active_profile cfg"
      "unat (cfg_active_profile cfg) \<le> 7"
      "cp_flags (cfg_profiles cfg ! (unat (cfg_active_profile cfg) - 1)) AND CFG_PROF_FLAG_RESERVED \<noteq> 0"
      using last_rule [OF tail [symmetric, unfolded assms(2)] assms(4)] unfolding not_less by blast+
    have a: "1 \<le> unat (cfg_active_profile cfg)" using u(3) by (simp only: word_le_nat_alt unat_1)
    have b: "b = int (unat (cfg_active_profile cfg) - 1)" unfolding of_nat_diff [OF a] using u(1) by simp
    have nb: "nat b = unat (cfg_active_profile cfg) - 1" "0 \<le> b" "b < 7" unfolding b using a u(4) by linarith+
    have "\<forall>j < nat b. validate_profile (cfg_profiles cfg ! j) (cfg_prim cfg) j = CFG_OK"
      using True nb(1) u(4) l by (simp add: slots_ok)
    moreover have "nat b + 1 = unat (cfg_active_profile cfg)" using nb(1) a by simp
    ultimately show ?thesis using parts u(2,5) nb by simp
  qed
qed

theorem rejection_names_first_slot_witness:
  "validate_profile (cfg_profiles (sample_cfg\<lparr>cfg_active_profile := 2, cfg_profiles := (map sample_slot [1, 2, 3, 4, 5, 6, 7])[4 := sample_slot 9]\<rparr>) ! 4)
     sample_prim 4 = CFG_ERR_PROFILE_ID"
proof -
  let ?c = "sample_cfg\<lparr>cfg_active_profile := 2, cfg_profiles := (map sample_slot [1, 2, 3, 4, 5, 6, 7])[4 := sample_slot 9]\<rparr>"
  have bad: "validate_profile (sample_slot 9) sample_prim (Suc (Suc (Suc (Suc 0)))) = CFG_ERR_PROFILE_ID"
    by (simp add: validate_profile_def sample_slot_def)
  have v: "ctrl_config_validate ?c = (CFG_ERR_PROFILE_ID, 4)"
    using sample_prim_ok sample_globals_ok sample_floats bad
    by (simp add: ctrl_config_validate_def sample_cfg_def validate_limits_def sample_lims_def sample_slot_ok Let_def)
  have "cfg_wf ?c" by (simp add: cfg_wf_def CFG_PROFILE_COUNT_def)
  from rejection_names_first_slot [OF this v] show ?thesis by (simp add: sample_cfg_def)
qed

section \<open>Primitive propagation\<close>

lemma resolve_profile_fields:
  "cp_cv_target_ref (resolve_profile prim pr) = cp_cv_target_ref pr"
  "cp_rest_voltage_ref (resolve_profile prim pr) = cp_rest_voltage_ref pr"
  "cp_flags (resolve_profile prim pr) = cp_flags pr"
  "p_cv_target_vcell (cp_p (resolve_profile prim pr)) =
    (if isnan (cfg_primitive_value prim (cp_cv_target_ref pr)) then p_cv_target_vcell (cp_p pr)
     else cfg_primitive_value prim (cp_cv_target_ref pr))"
  "p_rest_voltage_vcell (cp_p (resolve_profile prim pr)) =
    (if isnan (cfg_primitive_value prim (cp_rest_voltage_ref pr)) then p_rest_voltage_vcell (cp_p pr)
     else cfg_primitive_value prim (cp_rest_voltage_ref pr))"
  by (simp_all add: resolve_profile_def Let_def)

lemma resolve_profile_idem: "resolve_profile prim (resolve_profile prim pr) = resolve_profile prim pr"
  by (cases pr, cases "cp_p pr") (simp add: resolve_profile_def Let_def)

lemma named_primitive:
  "ref \<le> CFG_PRIM_V_LIMP \<Longrightarrow> ref \<noteq> CFG_PRIM_NONE \<Longrightarrow> validate_primitives prim = CFG_OK \<Longrightarrow>
    isfinite (cfg_primitive_value prim ref)"
proof -
  assume "ref \<le> CFG_PRIM_V_LIMP" "ref \<noteq> CFG_PRIM_NONE" and ok: "validate_primitives prim = CFG_OK"
  then have "ref \<in> {1, 2, 3, 4, 5}"
    by (simp add: CFG_PRIM_V_LIMP_def CFG_PRIM_NONE_def word_le_nat_alt unat_eq_0 [symmetric] word_unat_eq_iff) arith
  then show ?thesis
    using primitives_ok [OF ok] by (auto simp: cfg_primitive_value_def cfg_prims vcell_ok_def)
qed

lemma resolved_ref:
  assumes "ref \<le> CFG_PRIM_V_LIMP" "validate_primitives prim = CFG_OK" "mismatch \<noteq> outside" "mismatch \<noteq> CFG_OK"
    "v = (if isnan (cfg_primitive_value prim ref) then w else cfg_primitive_value prim ref)"
  shows "ref_rule prim ref v mismatch outside \<noteq> mismatch"
proof (cases "ref = CFG_PRIM_NONE")
  case False
  then have "isfinite (cfg_primitive_value prim ref)" using assms by (intro named_primitive)
  then show ?thesis using zero_diff assms by (simp add: ref_rule_def isfinite_not_nan)
qed (use assms in \<open>auto simp: ref_rule_def\<close>)

lemma validate_profile_values:
  "validate_profile pr prim k \<in>
    {CFG_OK, CFG_ERR_PROFILE_ID, CFG_ERR_PROFILE_REST_MODE, CFG_ERR_SANITY_REST_POWER_CAP, CFG_ERR_SANITY_V_REVERT,
     CFG_ERR_RANGE_SOC_REVERT, CFG_ERR_SANITY_AH_REVERT,
     ref_rule prim (cp_cv_target_ref pr) (p_cv_target_vcell (cp_p pr)) CFG_ERR_PROFILE_CV_REF CFG_ERR_PROFILE_CV_RANGE,
     ref_rule prim (cp_rest_voltage_ref pr) (p_rest_voltage_vcell (cp_p pr)) CFG_ERR_PROFILE_REST_V_REF CFG_ERR_PROFILE_REST_V_RANGE}"
  by (simp add: validate_profile_def Let_def)

text \<open>Propagating the primitives removes every disagreement the validator looks for:
  when each slot's references name one of the five primitives or none, the resolved configuration
  is never rejected for a charge or rest voltage that differs from its primitive or for the limp
  voltage, and propagating twice changes nothing more.\<close>

theorem resolve_satisfies_references:
  assumes "list_all (\<lambda>pr. cp_cv_target_ref pr \<le> CFG_PRIM_V_LIMP \<and> cp_rest_voltage_ref pr \<le> CFG_PRIM_V_LIMP) (cfg_profiles cfg)"
  shows "fst (ctrl_config_validate (cfg_resolve_primitives cfg)) \<notin>
      {CFG_ERR_PROFILE_CV_REF, CFG_ERR_PROFILE_REST_V_REF, CFG_ERR_LIMP_VCELL_MISMATCH} \<and>
    cfg_resolve_primitives (cfg_resolve_primitives cfg) = cfg_resolve_primitives cfg"
proof
  let ?prim = "cfg_prim cfg"
  let ?bad = "{CFG_ERR_PROFILE_CV_REF, CFG_ERR_PROFILE_REST_V_REF, CFG_ERR_LIMP_VCELL_MISMATCH}"
  show "cfg_resolve_primitives (cfg_resolve_primitives cfg) = cfg_resolve_primitives cfg"
    by (simp add: cfg_resolve_primitives_def resolve_profile_idem)
  have prim: "validate_primitives ?prim \<notin> ?bad" by (auto simp: validate_primitives_def)
  have lims: "validate_limits l \<notin> ?bad" for l by (auto simp: validate_limits_def)
  have slots: "fst (validate_slots ?prim k (map (resolve_profile ?prim) prs)) \<notin> ?bad"
    if ok: "validate_primitives ?prim = CFG_OK" and refs: "list_all (\<lambda>pr. cp_cv_target_ref pr \<le> CFG_PRIM_V_LIMP \<and>
      cp_rest_voltage_ref pr \<le> CFG_PRIM_V_LIMP) prs" for k prs
    using refs
  proof (induction prs arbitrary: k)
    case (Cons pr prs)
    have "ref_rule ?prim (cp_cv_target_ref pr) (p_cv_target_vcell (cp_p (resolve_profile ?prim pr)))
        CFG_ERR_PROFILE_CV_REF CFG_ERR_PROFILE_CV_RANGE \<notin> ?bad"
      "ref_rule ?prim (cp_rest_voltage_ref pr) (p_rest_voltage_vcell (cp_p (resolve_profile ?prim pr)))
        CFG_ERR_PROFILE_REST_V_REF CFG_ERR_PROFILE_REST_V_RANGE \<notin> ?bad"
      using Cons.prems resolved_ref [OF _ ok, of "cp_cv_target_ref pr" CFG_ERR_PROFILE_CV_REF CFG_ERR_PROFILE_CV_RANGE]
        resolved_ref [OF _ ok, of "cp_rest_voltage_ref pr" CFG_ERR_PROFILE_REST_V_REF CFG_ERR_PROFILE_REST_V_RANGE]
        ref_rule_values [of ?prim "cp_cv_target_ref pr" "p_cv_target_vcell (cp_p (resolve_profile ?prim pr))"
          CFG_ERR_PROFILE_CV_REF CFG_ERR_PROFILE_CV_RANGE]
        ref_rule_values [of ?prim "cp_rest_voltage_ref pr" "p_rest_voltage_vcell (cp_p (resolve_profile ?prim pr))"
          CFG_ERR_PROFILE_REST_V_REF CFG_ERR_PROFILE_REST_V_RANGE]
      by (fastforce simp: resolve_profile_fields)+
    then have "validate_profile (resolve_profile ?prim pr) ?prim k \<notin> ?bad"
      using validate_profile_values [of "resolve_profile ?prim pr" ?prim k]
      unfolding resolve_profile_fields(1,2) by auto
    then show ?case using Cons.IH [of "k + 1"] Cons.prems by (simp add: Let_def)
  qed simp
  have glob: "validate_globals ((cfg_globals cfg)\<lparr>g_limp_vcell := pr_v_limp ?prim\<rparr>) ?prim \<notin> ?bad"
    if "validate_primitives ?prim = CFG_OK"
    using zero_diff [of "pr_v_limp ?prim"] primitives_ok(5) [OF that]
    by (auto simp: validate_globals_def Let_def vcell_ok_def split: if_splits)
  show "fst (ctrl_config_validate (cfg_resolve_primitives cfg)) \<notin> ?bad"
    using prim lims [of "cfg_limits cfg"] glob slots [OF _ assms, of 0]
    by (auto simp: ctrl_config_validate_def cfg_resolve_primitives_def Let_def)
qed

theorem resolve_satisfies_references_witness:
  "fst (ctrl_config_validate (cfg_resolve_primitives (sample_cfg\<lparr>cfg_prim := sample_prim\<lparr>pr_v_bulk := flit (58 / 16)\<rparr>\<rparr>))) \<notin>
     {CFG_ERR_PROFILE_CV_REF, CFG_ERR_PROFILE_REST_V_REF, CFG_ERR_LIMP_VCELL_MISMATCH}"
  using resolve_satisfies_references [of "sample_cfg\<lparr>cfg_prim := sample_prim\<lparr>pr_v_bulk := flit (58 / 16)\<rparr>\<rparr>"]
  by (simp add: sample_cfg_def sample_slot_def cfg_prims)

section \<open>Texts of the codes\<close>

lemma cfg_errs_complete: "e \<in> set cfg_errs"
  by (cases e) (simp_all add: cfg_errs_def)

lemma cfg_texts_inj: "inj_on cfg_err_name (set cfg_errs)" "inj_on cfg_err_str (set cfg_errs)"
proof -
  have "distinct (map cfg_err_name cfg_errs)" "distinct (map cfg_err_str cfg_errs)" by code_simp+
  then show "inj_on cfg_err_name (set cfg_errs)" "inj_on cfg_err_str (set cfg_errs)" by (simp_all add: distinct_map)
qed

text \<open>The wire name and the human text of a code are each populated and unique over
  the whole enumeration, so a client can recover the violated rule from either, and neither is
  the fallback of the default branch.\<close>

theorem error_texts_injective:
  "(cfg_err_name e = cfg_err_name f) = (e = f) \<and> (cfg_err_str e = cfg_err_str f) = (e = f) \<and>
   cfg_err_name e \<noteq> ''CFG_ERR_UNKNOWN'' \<and> cfg_err_str e \<noteq> ''unknown'' \<and> cfg_err_name e \<noteq> [] \<and> cfg_err_str e \<noteq> []"
proof (intro conjI)
  show "(cfg_err_name e = cfg_err_name f) = (e = f)"
    by (rule inj_on_eq_iff [OF cfg_texts_inj(1) cfg_errs_complete cfg_errs_complete])
  show "(cfg_err_str e = cfg_err_str f) = (e = f)"
    by (rule inj_on_eq_iff [OF cfg_texts_inj(2) cfg_errs_complete cfg_errs_complete])
  show "cfg_err_name e \<noteq> ''CFG_ERR_UNKNOWN''" "cfg_err_str e \<noteq> ''unknown''" "cfg_err_name e \<noteq> []" "cfg_err_str e \<noteq> []"
    by (cases e; simp)+
qed

end
