(* ===== verification/Thermal.thy ===== *)
theory Thermal
  imports Samples
begin

text \<open>
  The predictive thermal governor, \<open>control/Src/thermal.c\<close> and \<open>control/Inc/thermal.h\<close>: it
  projects where the temperature is heading and integrates a power ceiling. The lemmas show
  that the ceiling stays inside the configured band over every run, that the hard limit drops
  it to the floor at once, and that it moves in the direction of the projected error.
\<close>

record ctrl_thermal_cfg_t =
  tau_s :: f32
  target_c :: f32
  hard_c :: f32
  derate_floor_w :: f32
  ceiling_max_w :: f32
  gain_w_per_c_s :: f32

record ctrl_thermal_t =
  t_prev :: f32
  ceiling_w :: f32

definition ctrl_thermal_init :: "ctrl_thermal_cfg_t \<Rightarrow> ctrl_thermal_t" where
  "ctrl_thermal_init cfg = \<lparr>t_prev = NAN, ceiling_w = ceiling_max_w cfg\<rparr>"

definition thermal_slope :: "f32 \<Rightarrow> f32 \<Rightarrow> f32 \<Rightarrow> f32" where
  "thermal_slope prev hotspot_c dt_s =
     (if \<not> isnan prev \<and> 0 < dt_s then (hotspot_c - prev) / dt_s else 0)"

definition thermal_clamp :: "ctrl_thermal_cfg_t \<Rightarrow> f32 \<Rightarrow> f32" where
  "thermal_clamp cfg w =
     (let w = (if w < derate_floor_w cfg then derate_floor_w cfg else w)
      in if ceiling_max_w cfg < w then ceiling_max_w cfg else w)"

definition ctrl_thermal_update ::
    "ctrl_thermal_t \<Rightarrow> ctrl_thermal_cfg_t \<Rightarrow> f32 \<Rightarrow> f32 \<Rightarrow> ctrl_thermal_t \<times> f32" where
  "ctrl_thermal_update th cfg hotspot_c dt_s =
     (if isnan hotspot_c then (th\<lparr>t_prev := NAN\<rparr>, CTRL_CEILING_INACTIVE)
      else
        let dTdt = thermal_slope (t_prev th) hotspot_c dt_s;
            t_proj = hotspot_c + tau_s cfg * dTdt;
            err = target_c cfg - t_proj;
            w1 = ceiling_w th + gain_w_per_c_s cfg * err * dt_s;
            w2 = (if hard_c cfg \<le> hotspot_c then derate_floor_w cfg else w1);
            w3 = thermal_clamp cfg w2
        in (th\<lparr>t_prev := hotspot_c, ceiling_w := w3\<rparr>, w3))"

section \<open>The band\<close>

definition thermal_cfg_ok :: "ctrl_thermal_cfg_t \<Rightarrow> bool" where
  "thermal_cfg_ok cfg \<longleftrightarrow>
     isfinite (tau_s cfg) \<and> 0 < tau_s cfg \<and> isfinite (target_c cfg) \<and>
     isfinite (gain_w_per_c_s cfg) \<and> 0 < gain_w_per_c_s cfg \<and>
     isfinite (derate_floor_w cfg) \<and> isfinite (ceiling_max_w cfg) \<and>
     derate_floor_w cfg \<le> ceiling_max_w cfg"

definition in_band :: "ctrl_thermal_cfg_t \<Rightarrow> f32 \<Rightarrow> bool" where
  "in_band cfg w \<longleftrightarrow> derate_floor_w cfg \<le> w \<and> w \<le> ceiling_max_w cfg"

definition thermal_inv :: "ctrl_thermal_cfg_t \<Rightarrow> ctrl_thermal_t \<Rightarrow> bool" where
  "thermal_inv cfg th \<longleftrightarrow>
     in_band cfg (ceiling_w th) \<and> (isnan (t_prev th) \<or> isfinite (t_prev th))"

text \<open>A sample of the sensor: a finite temperature or the NaN that marks it lost; time advances.\<close>

definition thermal_ok :: "f32 \<times> f32 \<Rightarrow> bool" where
  "thermal_ok e \<longleftrightarrow> (isnan (fst e) \<or> isfinite (fst e)) \<and> isfinite (snd e) \<and> 0 < snd e"

lemma band_clamp: "derate_floor_w cfg \<le> ceiling_max_w cfg \<Longrightarrow> \<not> isnan w \<Longrightarrow> in_band cfg (thermal_clamp cfg w)"
  by (auto simp: in_band_def f32_order thermal_clamp_def Let_def)

lemma clamp_ge: "a \<le> w \<Longrightarrow> a \<le> ceiling_max_w cfg \<Longrightarrow> derate_floor_w cfg \<le> a \<Longrightarrow> a \<le> thermal_clamp cfg w"
  by (auto simp: thermal_clamp_def Let_def f32_order)

lemma thermal_slope_not_nan:
  assumes "isnan p \<or> isfinite p" "isfinite h" "isfinite d"
  shows "\<not> isnan (thermal_slope p h d)"
  using assms by (auto simp: thermal_slope_def isfinite_not_nan divide_pos_not_nan diff_not_nan)

lemma thermal_integral_not_nan:
  assumes "thermal_cfg_ok cfg" "thermal_inv cfg th" "isfinite h" "isfinite d" "0 < d"
  shows "\<not> isnan (ceiling_w th + gain_w_per_c_s cfg *
    (target_c cfg - (h + tau_s cfg * thermal_slope (t_prev th) h d)) * d)"
proof -
  have "isfinite (ceiling_w th)"
    using assms(1,2) by (auto simp: thermal_cfg_ok_def thermal_inv_def in_band_def intro: isfinite_between)
  moreover have "\<not> isnan (tau_s cfg * thermal_slope (t_prev th) h d)"
    using assms by (intro times_pos_not_nan thermal_slope_not_nan)
      (auto simp: thermal_cfg_ok_def thermal_inv_def)
  ultimately show ?thesis
    using assms by (intro add_not_nan times_pos_not_nan diff_not_nan) (auto simp: thermal_cfg_ok_def)
qed

lemma thermal_update_inv:
  assumes "thermal_cfg_ok cfg" "thermal_inv cfg th" "thermal_ok e"
  shows "thermal_inv cfg (fst (ctrl_thermal_update th cfg (fst e) (snd e)))"
proof (cases "isnan (fst e)")
  case True
  then show ?thesis using assms(2) by (simp add: ctrl_thermal_update_def thermal_inv_def)
next
  case False
  then have h: "isfinite (fst e)" "isfinite (snd e)" "0 < snd e" using assms(3) by (auto simp: thermal_ok_def)
  have "\<not> isnan (derate_floor_w cfg)" "derate_floor_w cfg \<le> ceiling_max_w cfg"
    using assms(1) by (auto simp: thermal_cfg_ok_def isfinite_not_nan)
  with thermal_integral_not_nan [OF assms(1,2) h] h False show ?thesis
    by (auto simp: ctrl_thermal_update_def thermal_inv_def Let_def intro!: band_clamp)
qed

text \<open>The output is the band ceiling, or inactive when the sensor is lost.\<close>

lemma thermal_output:
  "snd (ctrl_thermal_update th cfg h d) =
    (if isnan h then CTRL_CEILING_INACTIVE else ceiling_w (fst (ctrl_thermal_update th cfg h d)))"
  by (simp add: ctrl_thermal_update_def Let_def)

lemma thermal_init_inv: "thermal_cfg_ok cfg \<Longrightarrow> thermal_inv cfg (ctrl_thermal_init cfg)"
  by (simp add: thermal_cfg_ok_def thermal_inv_def ctrl_thermal_init_def in_band_def f32_le_refl isfinite_not_nan)

section \<open>Runs\<close>

text \<open>
  The governor as a state machine; a configuration outside \<open>thermal_cfg_ok\<close> has no invariant,
  so the invariant carries the check.
\<close>

definition thermal_step :: "ctrl_thermal_cfg_t \<Rightarrow> ctrl_thermal_t \<Rightarrow> f32 \<times> f32 \<Rightarrow> ctrl_thermal_t" where
  "thermal_step cfg th e = fst (ctrl_thermal_update th cfg (fst e) (snd e))"

interpretation governor: machine "thermal_step cfg" thermal_ok "\<lambda>th. thermal_cfg_ok cfg \<and> thermal_inv cfg th"
  for cfg
  by unfold_locales (simp add: thermal_step_def thermal_update_inv)

lemma thermal_update_output:
  assumes "thermal_cfg_ok cfg" "thermal_inv cfg th" "thermal_ok e"
  shows "in_band cfg (snd (ctrl_thermal_update th cfg (fst e) (snd e))) \<or>
    isnan (fst e) \<and> snd (ctrl_thermal_update th cfg (fst e) (snd e)) = INFINITY"
  using thermal_update_inv [OF assms]
  by (auto simp: thermal_output thermal_inv_def CTRL_CEILING_INACTIVE_def)

text \<open>Over every run of samples that are finite temperatures or a lost sensor,
  with time advancing, the governor's output is a number between the derate floor and the
  maximum, or it is inactive because this very sample is lost: the ceiling never latches NaN
  and never leaves its band.\<close>

theorem thermal_run_band:
  assumes "thermal_cfg_ok cfg" "list_all thermal_ok (es @ [e])"
  shows "in_band cfg (snd (ctrl_thermal_update (foldl (thermal_step cfg) (ctrl_thermal_init cfg) es) cfg (fst e) (snd e)))
     \<or> (isnan (fst e) \<and>
        snd (ctrl_thermal_update (foldl (thermal_step cfg) (ctrl_thermal_init cfg) es) cfg (fst e) (snd e)) = INFINITY)"
proof -
  have "thermal_inv cfg (foldl (thermal_step cfg) (ctrl_thermal_init cfg) es)"
    using governor.inv_prefix [of cfg "ctrl_thermal_init cfg" es "[e]"] assms thermal_init_inv by blast
  from thermal_update_output [OF assms(1) this] assms(2) show ?thesis by simp
qed

text \<open>The two governors the application configures (alternator and driver stage).\<close>

definition config_thermal :: ctrl_thermal_cfg_t where
  "config_thermal = \<lparr>tau_s = flit 300, target_c = flit 95, hard_c = flit 110, derate_floor_w = flit 100,
     ceiling_max_w = flit 100000, gain_w_per_c_s = flit 50\<rparr>"

definition config_driver_thermal :: ctrl_thermal_cfg_t where
  "config_driver_thermal = \<lparr>tau_s = flit 30, target_c = flit 100, hard_c = flit 120, derate_floor_w = flit 100,
     ceiling_max_w = flit 100000, gain_w_per_c_s = flit 50\<rparr>"

lemma config_thermal_ok: "thermal_cfg_ok config_thermal" "thermal_cfg_ok config_driver_thermal"
  by code_simp+

theorem thermal_run_band_witness:
  "in_band config_thermal (snd (ctrl_thermal_update (foldl (thermal_step config_thermal) (ctrl_thermal_init config_thermal)
      [(flit 70, flit (1 / 100)), (NAN, flit (1 / 100))]) config_thermal (flit 80) (flit (1 / 100))))"
  using thermal_run_band [OF config_thermal_ok(1), of "[(flit 70, flit (1 / 100)), (NAN, flit (1 / 100))]" "(flit 80, flit (1 / 100))"]
  by (simp add: thermal_ok_def sample_facts)

section \<open>Direction\<close>

text \<open>At or above the hard limit the ceiling is exactly the derate floor, whatever the
  state of the governor, its gains and the time step were, NaN in the integral included.\<close>

theorem thermal_hard_limit:
  assumes "hard_c cfg \<le> h" "derate_floor_w cfg \<le> ceiling_max_w cfg"
  shows "snd (ctrl_thermal_update th cfg h d) = derate_floor_w cfg \<and>
    ceiling_w (fst (ctrl_thermal_update th cfg h d)) = derate_floor_w cfg"
  using assms by (auto simp: ctrl_thermal_update_def thermal_clamp_def Let_def f32_order)

theorem thermal_hard_limit_witness:
  "snd (ctrl_thermal_update \<lparr>t_prev = NAN, ceiling_w = NAN\<rparr> config_driver_thermal (flit 121) 0) = flit 100"
proof -
  have "hard_c config_driver_thermal \<le> flit 121" "derate_floor_w config_driver_thermal \<le> ceiling_max_w config_driver_thermal"
    by code_simp+
  from thermal_hard_limit [OF this] show ?thesis by (simp add: config_driver_thermal_def)
qed

text \<open>The governor recovers: a steady temperature at or below the target never
  lowers the ceiling (with no slope the projected temperature is the temperature itself, in
  exact \<open>float\<close> arithmetic, and the integrated error is not negative).\<close>

theorem thermal_recovers:
  assumes "thermal_cfg_ok cfg" "thermal_inv cfg th" "isfinite h" "t_prev th = h" "isfinite d" "0 < d"
    "h \<le> target_c cfg" "h < hard_c cfg"
  shows "ceiling_w th \<le> ceiling_w (fst (ctrl_thermal_update th cfg h d))"
proof -
  have fc: "isfinite (ceiling_w th)"
    using assms(1,2) by (auto simp: thermal_cfg_ok_def thermal_inv_def in_band_def intro: isfinite_between)
  obtain s v where h: "fpv h = FpFin s v" "fval h = v" using assms(3) by (rule fin_cases)
  obtain t w where d: "fpv d = FpFin t w" "0 < w" "fval d = w" using assms(5,6) by (rule pos_fin_cases)
  obtain u x where tau: "fpv (tau_s cfg) = FpFin u x" "0 < x" "fval (tau_s cfg) = x"
    using assms(1) unfolding thermal_cfg_ok_def by (metis pos_fin_cases)
  obtain z y where tg: "fpv (target_c cfg) = FpFin z y" "fval (target_c cfg) = y"
    using assms(1) unfolding thermal_cfg_ok_def by (metis fin_cases)
  have r: "round_rat single_fmt v = v" using fval_fixed [OF assms(3)] h by simp
  have vb: "\<bar>v\<bar> < 2 powi 128" using fval_bound [OF assms(3)] h by simp
  let ?sl = "thermal_slope (t_prev th) h d"
  let ?err = "target_c cfg - (h + tau_s cfg * ?sl)"
  have sl: "\<exists>b. fpv ?sl = FpFin b 0"
    using assms d by (simp add: thermal_slope_def isfinite_not_nan fp_simps h fp_sub_def fp_round_def single_fmt_def)
  have pj: "\<exists>b. fpv (h + tau_s cfg * ?sl) = FpFin b v"
    using sl r vb by (auto simp: fp_simps h tau fp_round_def Let_def single_fmt_def not_le simp del: power_int_numeral)
  have "0 \<le> ?err"
    using pj tg h assms(1,3,7) by (auto simp: fp_simps fp_sub_def fval_le thermal_cfg_ok_def
        intro: fp_round_nonneg [of "y - v"])
  moreover have nn: "\<not> isnan ?err" using pj tg by (auto simp: isnan_def fp_simps fp_sub_def)
  ultimately have "0 \<le> gain_w_per_c_s cfg * ?err * d"
    using assms by (intro times_nonneg times_pos_not_nan) (auto simp: thermal_cfg_ok_def f32_less_imp_le)
  with fc have "ceiling_w th \<le> ceiling_w th + gain_w_per_c_s cfg * ?err * d" by (rule add_nonneg_ge)
  moreover have "ceiling_w th \<le> ceiling_max_w cfg" "derate_floor_w cfg \<le> ceiling_w th"
    using assms(2) by (simp_all add: thermal_inv_def in_band_def)
  ultimately have "ceiling_w th \<le> thermal_clamp cfg (ceiling_w th + gain_w_per_c_s cfg * ?err * d)"
    by (rule clamp_ge)
  moreover have "\<not> hard_c cfg \<le> h" using assms(8) by (rule f32_less_asym)
  ultimately show ?thesis using assms(3)
    by (simp add: ctrl_thermal_update_def Let_def isfinite_not_nan)
qed

theorem thermal_recovers_witness:
  "flit 100 \<le> ceiling_w (fst (ctrl_thermal_update \<lparr>t_prev = flit 80, ceiling_w = flit 100\<rparr> config_thermal (flit 80) (flit (1 / 100))))"
proof -
  have "thermal_inv config_thermal \<lparr>t_prev = flit 80, ceiling_w = flit 100\<rparr>" "flit 80 \<le> target_c config_thermal"
    "flit 80 < hard_c config_thermal" by code_simp+
  from thermal_recovers [OF config_thermal_ok(1) this(1) sample_facts(12) _ sample_facts(9,10) this(2,3)]
  show ?thesis by simp
qed

end
