(* ===== verification/Config_Owner.thy ===== *)
theory Config_Owner
  imports Config_Store Config_Rules Thermal Engine_Props
begin

text \<open>
  The application's configuration owner, \<open>Core/Src/config_protocol.c\<close> with the store binding of
  \<open>Core/Src/config_store_glue.c\<close>: the compiled defaults, the overlay of a persisted record, the
  save hook of the protocol (persist first, adopt second) and the views the engine reads. The
  file-scope statics are the record \<open>owner\<close>; the device behind the store is \<open>'d\<close>. The
  JSON-lines message layer that calls the hooks is not modelled here: what it promises (it
  saves validated configurations only) is the event condition of the machine below.
\<close>

section \<open>Compiled defaults\<close>

definition config_default_profile ::
    "ctrl_globals_t \<Rightarrow> u8 \<Rightarrow> cfg_prim_ref_t \<Rightarrow> bool \<Rightarrow> ctrl_rest_mode_t \<Rightarrow> cfg_prim_ref_t \<Rightarrow> f32 \<Rightarrow> f32 \<Rightarrow> u16 \<Rightarrow> i8
      \<Rightarrow> cfg_profile_t" where
  "config_default_profile g id' cv solar_finish mode rest rest_cap_pct v_revert revert_hold_s soc_revert =
     \<lparr>cp_p = \<lparr>p_id = id', p_cv_target_vcell = 0, p_exit_at_cv_entry = solar_finish, p_rest_mode = mode,
        p_rest_voltage_vcell = 0, p_rest_power_cap_w = rest_cap_pct * g_max_charge_power_w g,
        p_v_revert_vcell = v_revert, p_t_revert_hold_s = revert_hold_s, p_soc_revert_pct = soc_revert,
        p_ah_revert = flit (30 / 100) * g_bank_capacity_ah g\<rparr>,
      cp_flags = 0, cp_cv_target_ref = cv, cp_rest_voltage_ref = rest\<rparr>"

definition default_primitives :: cfg_primitives_t where
  "default_primitives = \<lparr>pr_v_bulk = flit (360 / 100), pr_v_bulk_cons = flit (350 / 100), pr_v_float = flit (340 / 100),
     pr_v_float_cons = flit (335 / 100), pr_v_limp = flit (330 / 100)\<rparr>"

definition default_globals :: ctrl_globals_t where
  "default_globals = \<lparr>g_cells_series = 4, g_bank_capacity_ah = flit 100, g_max_charge_power_w = 0,
     g_ramp_w_per_s = flit 100, g_p_tail_w = 0, g_t_tail_hold_s = 60, g_t_vclamp_s = 5, g_cv_hold_exit_min = 15,
     g_t_charge_max_min = 480, g_warmup_time_s = 30, g_warmup_coolant_c = NAN, g_soc_target_pct = -1,
     g_skip_bulk_vcell = 0, g_skip_bulk_soc_pct = -1, g_rotor_rated_v = flit 12, g_rotor_v_max = NAN,
     g_allow_full_field_48v = False, g_limp_vcell = flit (330 / 100), g_limp_power_cap_w = flit 250,
     g_batt_temp_src = CTRL_BATT_TEMP_NONE, g_require_batt_temp = False\<rparr>"

definition default_profiles :: "cfg_profile_t list" where
  "default_profiles = (let dp = config_default_profile default_globals in
    [dp 1 CFG_PRIM_V_BULK False CTRL_REST_HOLD CFG_PRIM_V_FLOAT 1 (flit (328 / 100)) 30 50,
     dp 2 CFG_PRIM_V_BULK False CTRL_REST_HOLD CFG_PRIM_V_FLOAT_CONS (flit (25 / 100)) (flit (322 / 100)) 60 40,
     dp 3 CFG_PRIM_V_BULK True CTRL_REST_ZERO CFG_PRIM_NONE 0 (flit (325 / 100)) 60 50,
     dp 4 CFG_PRIM_V_BULK_CONS False CTRL_REST_HOLD CFG_PRIM_V_FLOAT_CONS (flit (50 / 100)) (flit (325 / 100)) 30 50,
     dp 5 CFG_PRIM_V_BULK False CTRL_REST_ZERO CFG_PRIM_NONE 0 (flit (325 / 100)) 30 50,
     dp 6 CFG_PRIM_V_LIMP False CTRL_REST_HOLD CFG_PRIM_V_LIMP (flit (25 / 100)) 0 0 (-1),
     (dp 7 CFG_PRIM_NONE False CTRL_REST_ZERO CFG_PRIM_NONE 0 0 0 (-1))\<lparr>cp_flags := CFG_PROF_FLAG_RESERVED\<rparr>])"

definition config_defaults :: ctrl_config_t where
  "config_defaults = cfg_resolve_primitives
     \<lparr>cfg_prim = default_primitives, cfg_globals = default_globals,
      cfg_limits = \<lparr>lim_battery_c_limit = flit (5 / 10), lim_wiring_limit_a = 0, lim_alternator_limit_a = 0\<rparr>,
      cfg_profiles = default_profiles, cfg_active_profile = 1\<rparr>"

definition default_thermal :: ctrl_thermal_cfg_t where
  "default_thermal = \<lparr>tau_s = flit 300, target_c = flit 95, hard_c = flit 110, derate_floor_w = flit 100,
     ceiling_max_w = flit 100000, gain_w_per_c_s = flit 50\<rparr>"

definition default_driver_thermal :: ctrl_thermal_cfg_t where
  "default_driver_thermal = \<lparr>tau_s = flit 30, target_c = flit 100, hard_c = flit 120, derate_floor_w = flit 100,
     ceiling_max_w = flit 100000, gain_w_per_c_s = flit 50\<rparr>"

section \<open>The owner\<close>

record 'd owner =
  ow_cfg :: ctrl_config_t
  ow_g :: ctrl_globals_t
  ow_prof :: ctrl_profile_t
  ow_lim :: ctrl_limits_t
  ow_th :: ctrl_thermal_cfg_t
  ow_driver_th :: ctrl_thermal_cfg_t
  ow_store_status :: cfg_store_status_t
  ow_store_val_err :: cfg_err_t
  ow_store :: cfg_store_t
  ow_dev :: 'd

definition active_index :: "ctrl_config_t \<Rightarrow> nat" where
  "active_index cfg =
     (if 1 \<le> cfg_active_profile cfg \<and> unat (cfg_active_profile cfg) \<le> CFG_PROFILE_COUNT
      then unat (cfg_active_profile cfg) - 1 else 0)"

definition config_publish :: "'d owner \<Rightarrow> 'd owner" where
  "config_publish w =
     w\<lparr>ow_g := cfg_globals (ow_cfg w), ow_lim := cfg_limits (ow_cfg w),
       ow_prof := cp_p (cfg_profiles (ow_cfg w) ! active_index (ow_cfg w))\<rparr>"

text \<open>\<open>stored0\<close> is the uninitialised local the load may leave untouched.\<close>

definition config_load_persisted :: "'d store_read \<Rightarrow> ctrl_config_t \<Rightarrow> 'd owner \<Rightarrow> 'd owner" where
  "config_load_persisted rd stored0 w =
     (case cfg_store_load rd (ow_store w) stored0 (ow_dev w) of (status, st, cfg', d) \<Rightarrow>
        let w = w\<lparr>ow_store := st, ow_dev := d, ow_store_status := status, ow_store_val_err := CFG_OK\<rparr>
        in if status \<noteq> CFG_STORE_OK then w
           else let w = w\<lparr>ow_store_val_err := fst (ctrl_config_validate cfg')\<rparr>
                in if ow_store_val_err w \<noteq> CFG_OK then w
                   else config_publish (w\<lparr>ow_cfg := cfg'\<rparr>))"

definition config_host_save :: "'d store_read \<Rightarrow> 'd store_write \<Rightarrow> 'd owner \<Rightarrow> ctrl_config_t \<Rightarrow> bool \<times> u32 option \<times> 'd owner" where
  "config_host_save rd wr w cfg =
     (case cfg_store_save rd wr (ow_store w) cfg (ow_dev w) of (status, st, d) \<Rightarrow>
        let w = w\<lparr>ow_store := st, ow_dev := d\<rparr>
        in if status \<noteq> CFG_STORE_OK then (False, None, w)
           else let w = config_publish (w\<lparr>ow_cfg := cfg\<rparr>);
                    w = w\<lparr>ow_store_status := CFG_STORE_OK, ow_store_val_err := CFG_OK\<rparr>
                in (True, Some (st_generation (ow_store w)), w))"

definition config_init :: "'d store_read \<Rightarrow> ctrl_config_t \<Rightarrow> 'd owner \<Rightarrow> 'd owner" where
  "config_init rd stored0 w =
     (let w = config_publish (w\<lparr>ow_cfg := config_defaults\<rparr>);
          w = w\<lparr>ow_th := default_thermal, ow_driver_th := default_driver_thermal\<rparr>
      in config_load_persisted rd stored0 w)"

definition config_get :: "'d owner \<Rightarrow> ctrl_globals_t \<times> ctrl_profile_t" where
  "config_get w = (ow_g w, ow_prof w)"

definition config_get_limits :: "'d owner \<Rightarrow> ctrl_limits_t" where
  "config_get_limits w = ow_lim w"

section \<open>The running configuration\<close>

definition views_of :: "ctrl_config_t \<Rightarrow> 'd owner \<Rightarrow> bool" where
  "views_of cfg w \<longleftrightarrow> ow_g w = cfg_globals cfg \<and> ow_lim w = cfg_limits cfg \<and>
     ow_prof w = cp_p (cfg_profiles cfg ! active_index cfg)"

definition owner_ok :: "'d owner \<Rightarrow> bool" where
  "owner_ok w \<longleftrightarrow> (ow_cfg w = config_defaults \<or> fst (ctrl_config_validate (ow_cfg w)) = CFG_OK) \<and> views_of (ow_cfg w) w"

lemma publish_sel [simp]:
  "ow_cfg (config_publish w) = ow_cfg w" "ow_store (config_publish w) = ow_store w"
  "ow_dev (config_publish w) = ow_dev w" "views_of (ow_cfg w) (config_publish w)"
  "views_of cfg (w\<lparr>ow_store := a, ow_dev := b\<rparr>) = views_of cfg w"
  "views_of cfg (w\<lparr>ow_store_status := c, ow_store_val_err := e\<rparr>) = views_of cfg w"
  "views_of cfg (w\<lparr>ow_store_val_err := e\<rparr>) = views_of cfg w"
  "views_of cfg (w\<lparr>ow_th := t, ow_driver_th := t'\<rparr>) = views_of cfg w"
  by (simp_all add: config_publish_def views_of_def)

lemma init_ok: "owner_ok (config_init rd s0 w)"
proof -
  let ?w = "(config_publish (w\<lparr>ow_cfg := config_defaults\<rparr>))\<lparr>ow_th := default_thermal, ow_driver_th := default_driver_thermal\<rparr>"
  have "views_of config_defaults ?w"
    using publish_sel(4) [of "w\<lparr>ow_cfg := config_defaults\<rparr>"] by (simp add: views_of_def)
  then have "owner_ok ?w" by (simp add: owner_ok_def)
  moreover have "owner_ok (config_load_persisted rd s0 v)" if "owner_ok v" for v :: "'a owner"
    using that publish_sel(4)
    by (auto simp: config_load_persisted_def owner_ok_def Let_def views_of_def split: prod.splits if_splits)
      (simp_all add: config_publish_def)
  ultimately show ?thesis by (simp add: config_init_def Let_def)
qed

lemma save_cases:
  "config_host_save rd wr w cfg = (ok, gen, w') \<Longrightarrow>
    (if ok then ow_cfg w' = cfg \<and> views_of cfg w' \<and> gen = Some (st_generation (ow_store w')) \<and>
        fst (cfg_store_save rd wr (ow_store w) cfg (ow_dev w)) = CFG_STORE_OK
     else ow_cfg w' = ow_cfg w \<and> (\<forall>c. views_of c w' = views_of c w) \<and> gen = None)"
  by (auto simp: config_host_save_def Let_def views_of_def config_publish_def split: prod.splits if_splits)

interpretation owner: machine "\<lambda>w cfg. snd (snd (config_host_save rd wr w cfg))"
  "\<lambda>cfg. fst (ctrl_config_validate cfg) = CFG_OK" owner_ok for rd wr
proof
  fix w :: "'a owner" and cfg assume w: "owner_ok w" and v: "fst (ctrl_config_validate cfg) = CFG_OK"
  obtain ok gen w' where s: "config_host_save rd wr w cfg = (ok, gen, w')" by (metis prod.exhaust)
  show "owner_ok (snd (snd (config_host_save rd wr w cfg)))"
    using save_cases [OF s] w v by (cases ok) (simp_all add: s owner_ok_def)
qed

text \<open>From boot on, whatever the store holds or answers and however the saves of the
  client end, the configuration the engine runs is the compiled defaults or one the guard rails
  accept, and the globals, limits and profile the engine reads are views of that one
  configuration: no half-applied edit and no unvalidated record ever reaches it.\<close>

theorem running_config_checked:
  assumes "list_all (\<lambda>cfg. fst (ctrl_config_validate cfg) = CFG_OK) cfgs"
  shows "owner_ok (foldl (\<lambda>w cfg. snd (snd (config_host_save rd wr w cfg))) (config_init rd stored0 w) cfgs)"
  by (rule owner.inv_run [OF init_ok assms])

definition sample_owner :: "ram owner" where
  "sample_owner = \<lparr>ow_cfg = sample_cfg, ow_g = sample_g, ow_prof = sample_prof, ow_lim = sample_lims, ow_th = default_thermal,
     ow_driver_th = default_driver_thermal, ow_store_status = CFG_STORE_EMPTY, ow_store_val_err = CFG_OK,
     ow_store = cfg_store_init, ow_dev = sample_ram [False, False]\<rparr>"

theorem running_config_checked_witness:
  "owner_ok (snd (snd (config_host_save ram_rd ram_wr (config_init ram_rd sample_cfg sample_owner) sample_cfg)))"
  using running_config_checked [of "[sample_cfg]" ram_rd ram_wr sample_cfg sample_owner]
  by (simp add: sample_cfg_fst)

text \<open>C13 (safety). The save hook persists first and adopts second. Condition: a record standing in
  the live slot carries the store's generation (so it is after a boot that loaded a record, after a
  boot that read both slots and found neither valid, and after each save; not after a boot whose reads failed, where
  the save is lost). Then a success means that the running configuration, its views and the record
  the next load will take are all the new configuration, and the reported generation is that
  record's; a failure, for whatever reason of the device, leaves the running configuration, its views
  and the store's idea of the live record unchanged.\<close>

theorem save_persists_then_adopts:
  assumes io: "store_io rd wr mem" and s: "config_host_save rd wr w cfg = (ok, gen, w')"
    and l: "st_live_slot (ow_store w) \<in> {0, 1}" and c: "cfg_wf cfg"
    and live: "\<And>g old. stored (slot_bytes (mem (ow_dev w)) (st_live_slot (ow_store w))) = Some (g, old) \<Longrightarrow>
      g = st_generation (ow_store w)"
  shows "if ok
    then ow_cfg w' = cfg \<and> views_of cfg w' \<and> gen = Some (st_generation (ow_store w)  + 1) \<and>
      newest (stored (slot_bytes (mem (ow_dev w')) 0)) (stored (slot_bytes (mem (ow_dev w')) 1))
        = Some (st_live_slot (ow_store w'), st_generation (ow_store w) + 1, cfg)
    else ow_cfg w' = ow_cfg w \<and> (ow_g w', ow_prof w', ow_lim w') = (ow_g w, ow_prof w, ow_lim w) \<and> ow_store w' = ow_store w \<and> gen = None"
proof -
  obtain status st d where sv: "cfg_store_save rd wr (ow_store w) cfg (ow_dev w) = (status, st, d)" by (metis prod.exhaust)
  note e = store_io.save_effect [OF io sv l c]
  show ?thesis
  proof (cases "status = CFG_STORE_OK")
    case True
    have n: "newest (stored (slot_bytes (mem d) 0)) (stored (slot_bytes (mem d) 1))
        = Some (st_live_slot (ow_store w) XOR 1, st_generation (ow_store w) + 1, cfg)"
      using l live e True by (intro newest_of_written) auto
    have r: "ok" "gen = Some (st_generation st)" "ow_cfg w' = cfg" "ow_store w' = st" "ow_dev w' = d"
      using s sv True by (auto simp: config_host_save_def Let_def)
    moreover have "views_of cfg w'"
      using save_cases [OF s] r(1) by simp
    ultimately show ?thesis using n e True by simp
  next
    case False
    then have "\<not> ok" "gen = None" "w' = w\<lparr>ow_store := st, ow_dev := d\<rparr>"
      using s sv by (auto simp: config_host_save_def Let_def)
    then show ?thesis using e False by simp
  qed
qed

theorem save_persists_then_adopts_witness:
  "(let w = sample_owner\<lparr>ow_store := \<lparr>st_generation = 2, st_live_slot = 1, st_have_live = True\<rparr>, ow_dev := sample_ram []\<rparr>;
        r = config_host_save ram_rd ram_wr w (sample_cfg\<lparr>cfg_active_profile := 4\<rparr>)
    in fst r \<and> ow_cfg (snd (snd r)) = sample_cfg\<lparr>cfg_active_profile := 4\<rparr> \<and> fst (snd r) = Some 3)"
proof -
  let ?st = "\<lparr>st_generation = 2, st_live_slot = 1, st_have_live = True\<rparr>"
  let ?w = "sample_owner\<lparr>ow_store := ?st, ow_dev := sample_ram []\<rparr>"
  let ?c = "sample_cfg\<lparr>cfg_active_profile := 4\<rparr>"
  have wf: "cfg_wf ?c" using sample_cfg_wf by (simp add: cfg_wf_def)
  obtain d' where s: "cfg_store_save ram_rd ram_wr ?st ?c (sample_ram []) =
      (CFG_STORE_OK, ?st\<lparr>st_generation := 3, st_live_slot := 0, st_have_live := True\<rparr>, d')"
    using ram_save [OF wf sample_ram_script, of ?st] by auto
  obtain ok gen w' where r: "config_host_save ram_rd ram_wr ?w ?c = (ok, gen, w')" by (metis prod.exhaust)
  have "ok" using r s by (auto simp: config_host_save_def Let_def)
  moreover have live: "g = st_generation (ow_store ?w)"
    if "stored (slot_bytes (ram_mem (ow_dev ?w)) (st_live_slot (ow_store ?w))) = Some (g, old)" for g old
    using that by (simp add: sample_ram_b)
  note save_persists_then_adopts [OF ram.store_io_axioms r _ wf live]
  ultimately show ?thesis by (simp add: Let_def r)
qed

section \<open>The placeholder configuration\<close>

lemma times_zero_not_pos: "isfinite a \<Longrightarrow> \<not> 0 < a * 0"
  by (elim fin_cases) (simp add: f32_order isnan_def fkey_def fp_simps fp_round_def single_fmt_def)

lemma default_caps_zero:
  "i < CFG_PROFILE_COUNT \<Longrightarrow> \<not> 0 < p_rest_power_cap_w (cp_p (cfg_profiles config_defaults ! i))"
proof -
  assume "i < CFG_PROFILE_COUNT"
  then have i: "i < 7" by (simp add: CFG_PROFILE_COUNT_def)
  have "p_rest_power_cap_w (cp_p (resolve_profile prim pr)) = p_rest_power_cap_w (cp_p pr)" for prim pr
    by (simp add: resolve_profile_def Let_def)
  moreover have "list_all (\<lambda>pr. \<not> 0 < p_rest_power_cap_w (cp_p pr)) default_profiles"
    by (simp add: default_profiles_def config_default_profile_def Let_def default_globals_def times_zero_not_pos flit_finite)
  moreover have len: "length default_profiles = 7" by (simp add: default_profiles_def Let_def)
  moreover have "cfg_profiles config_defaults ! i = resolve_profile default_primitives (default_profiles ! i)"
    using i len by (simp add: config_defaults_def cfg_resolve_primitives_def)
  ultimately show ?thesis using i by (simp add: list_all_length)
qed

lemma field_no_power:
  assumes "\<not> 0 < stage_power c p g (tick_limp (c_faults c))"
  shows "o_effort (snd (tick_field c m ceil p g dt)) \<le> 0"
proof -
  have "arb_watts (ctrl_arbitrate (stage_power c p g (tick_limp (c_faults c))) ceil) \<le> 0"
    using arb_zero_stage [OF assms, of ceil] by (simp add: f32_le_iff)
  then show ?thesis by (simp add: tick_field_def field_loop_def Let_def)
qed

text \<open>While the compiled defaults run, no tick commands any field, whatever the sensors and
  ceilings say and whichever profile is selected, as long as the fault disposition is not LIMP.
  Under LIMP the same defaults give the regulator a 250 W stage limit in FLOAT: the zero charge
  power does not hold the output off there.\<close>

theorem defaults_command_nothing_unless_limp:
  assumes "i < CFG_PROFILE_COUNT" "\<not> tick_limp (tick_fault_word c m (cfg_globals config_defaults) dt)"
  shows "cmd_field_effort (snd (ctrl_tick c m ceil (cp_p (cfg_profiles config_defaults ! i)) (cfg_globals config_defaults) dt)) \<le> 0 \<and>
    (c_state d = CTRL_FLOAT \<longrightarrow> stage_power d p (cfg_globals config_defaults) True = flit 250)"
proof -
  let ?g = "cfg_globals config_defaults" and ?p = "cp_p (cfg_profiles config_defaults ! i)"
  have g: "g_max_charge_power_w ?g = 0" "g_limp_power_cap_w ?g = flit 250"
    by (simp_all add: config_defaults_def cfg_resolve_primitives_def default_globals_def)
  have "\<not> 0 < stage_power (tick_mid c m ?p ?g dt) ?p ?g False"
    using default_caps_zero [OF assms(1)] by (simp add: stage_power_def g)
  then have f: "o_effort (snd (tick_field (tick_mid c m ?p ?g dt) m ceil ?p ?g dt)) \<le> 0"
    using assms(2) by (intro field_no_power) simp
  have "o_effort (snd (tick_run_gate (tick_field (tick_mid c m ?p ?g dt) m ceil ?p ?g dt) m dt))
      \<le> o_effort (snd (tick_field (tick_mid c m ?p ?g dt) m ceil ?p ?g dt))"
    by (rule gate_effort) (simp_all add: field_effort)
  from f32_le_trans [OF this f] show ?thesis
    by (simp add: ctrl_tick_eq tick_output_def Let_def split_beta stage_power_def g)
qed

theorem defaults_command_nothing_unless_limp_witness:
  "cmd_field_effort (snd (ctrl_tick ctrl_init sample_m sample_ceil (cp_p (cfg_profiles config_defaults ! 0)) (cfg_globals config_defaults) 10)) \<le> 0"
proof -
  have "\<not> tick_limp (tick_fault_word ctrl_init sample_m (cfg_globals config_defaults) 10)"
    using tick_faults_limp by (simp add: tick_limp_iff tick_fault_word_def sample_m_def)
  from defaults_command_nothing_unless_limp [OF _ this] show ?thesis by (simp add: CFG_PROFILE_COUNT_def)
qed

end
