(* ===== verification/Err_Budget.thy ===== *)
theory Err_Budget
  imports Prelude
begin

text \<open>
  Peripheral error budgets, \<open>Core/Src/err_budget.c\<close>: one counter block per domain, the
  retry, re-init, fault ladder, and the hysteresis of the latched fault. The static table
  \<open>s_dom\<close> is a list with one entry per domain; the C function's effect on it is returned.
\<close>

datatype errb_domain_t = ERRB_INA226 | ERRB_EEPROM | ERRB_CAN

primrec domain_num :: "errb_domain_t \<Rightarrow> nat" where
  "domain_num ERRB_INA226 = 0"
| "domain_num ERRB_EEPROM = 1"
| "domain_num ERRB_CAN = 2"

definition ERRB_COUNT :: nat where "ERRB_COUNT = 3"

datatype errb_action_t = ERRB_ACTION_NONE | ERRB_ACTION_REINIT | ERRB_ACTION_FAULT

definition ERRB_REINIT_AT :: u32 where "ERRB_REINIT_AT = 3"
definition ERRB_FAULT_AT :: u32 where "ERRB_FAULT_AT = 6"
definition ERRB_RECOVER_OK :: u32 where "ERRB_RECOVER_OK = 5"


record errb_state_t =
  eb_total :: u32
  eb_consecutive :: u32
  eb_ok_streak :: u32
  eb_reinits :: u32
  eb_faulted :: bool

definition errb_init :: errb_state_t where
  "errb_init = \<lparr>eb_total = 0, eb_consecutive = 0, eb_ok_streak = 0, eb_reinits = 0, eb_faulted = False\<rparr>"

text \<open>\<open>if (x != UINT32_MAX) x++\<close>.\<close>

definition sat_inc :: "u32 \<Rightarrow> u32" where
  "sat_inc x = (if x \<noteq> 0xFFFFFFFF then x + 1 else x)"

definition errb_fail :: "errb_state_t \<Rightarrow> errb_action_t \<times> errb_state_t" where
  "errb_fail s =
     (let s = s\<lparr>eb_total := sat_inc (eb_total s), eb_consecutive := sat_inc (eb_consecutive s), eb_ok_streak := 0\<rparr>
      in if ERRB_FAULT_AT \<le> eb_consecutive s then (ERRB_ACTION_FAULT, s\<lparr>eb_faulted := True\<rparr>)
         else if eb_consecutive s \<noteq> 0 \<and> eb_consecutive s mod ERRB_REINIT_AT = 0
              then (ERRB_ACTION_REINIT, s\<lparr>eb_reinits := sat_inc (eb_reinits s)\<rparr>)
         else (ERRB_ACTION_NONE, s))"

definition errb_ok :: "errb_state_t \<Rightarrow> errb_state_t" where
  "errb_ok s =
     (let s = s\<lparr>eb_consecutive := 0, eb_ok_streak := sat_inc (eb_ok_streak s)\<rparr>
      in if eb_faulted s \<and> ERRB_RECOVER_OK \<le> eb_ok_streak s then s\<lparr>eb_faulted := False\<rparr> else s)"

text \<open>The table: one operation touches its own domain only.\<close>

type_synonym errb_table = "errb_state_t list"

definition errb_table_init :: errb_table where
  "errb_table_init = replicate ERRB_COUNT errb_init"

definition errb_fail_at :: "errb_table \<Rightarrow> errb_domain_t \<Rightarrow> errb_action_t \<times> errb_table" where
  "errb_fail_at t d = (case errb_fail (t ! domain_num d) of (a, s) \<Rightarrow> (a, t[domain_num d := s]))"

definition errb_ok_at :: "errb_table \<Rightarrow> errb_domain_t \<Rightarrow> errb_table" where
  "errb_ok_at t d = t[domain_num d := errb_ok (t ! domain_num d)]"

definition errb_faulted :: "errb_table \<Rightarrow> errb_domain_t \<Rightarrow> bool" where
  "errb_faulted t d = eb_faulted (t ! domain_num d)"

definition errb_fault_mask :: "errb_table \<Rightarrow> u32" where
  "errb_fault_mask t = foldl (\<lambda>m i. if eb_faulted (t ! i) then m OR push_bit i 1 else m) 0 [0..<ERRB_COUNT]"

section \<open>The latch\<close>



text \<open>Length of the current run of equal events at the end of a history.\<close>

definition streak :: "bool \<Rightarrow> bool list \<Rightarrow> nat" where
  "streak b es = length (takeWhile (\<lambda>x. x = b) (rev es))"


lemma streak_snoc [simp]:
  "streak b (es @ [e]) = (if e = b then Suc (streak b es) else 0)"
  by (simp add: streak_def)

text \<open>A count held in a saturating 32-bit counter.\<close>

definition sat :: "nat \<Rightarrow> u32" where
  "sat n = of_nat (min n (2 ^ 32 - 1))"

lemma unat_sat: "unat (sat n) = min n (2 ^ 32 - 1)"
  by (simp add: sat_def unat_of_nat take_bit_eq_mod)

lemma sat_zero [simp]: "sat 0 = 0"
  by (simp add: sat_def)

lemma sat_inc_sat [simp]: "sat_inc (sat n) = sat (Suc n)"
proof (cases "n < 2 ^ 32 - 1")
  case True
  moreover have "unat (0xFFFFFFFF :: u32) = 2 ^ 32 - 1" by simp
  ultimately have "sat n \<noteq> 0xFFFFFFFF" using unat_sat [of n] by (metis min.absorb3 less_irrefl)
  with True show ?thesis by (simp add: sat_inc_def sat_def add.commute)
next
  case False
  then show ?thesis by (simp add: sat_inc_def sat_def)
qed







end
