(* ===== verification/Eeprom.thy ===== *)
theory Eeprom
  imports Config_Store Err_Budget
begin

text \<open>
  The 24C16 driver, \<open>Core/Src/eeprom24c16.c\<close>: bounded retries, block and page chunking, the
  write-protect pin. The I2C transactions are the HAL's and the chip's, so they are parameters
  (\<open>i2c\<close>); the locale \<open>i2c_chip\<close> is the documented behaviour of a 24C16 behind them. The
  driver turns that into the flat memory the store relies on (\<open>store_io\<close>).
\<close>

section \<open>Driver\<close>

definition EEPROM_SIZE_BYTES :: u32 where "EEPROM_SIZE_BYTES = 2048"
definition EEPROM_BLOCK_SIZE :: u16 where "EEPROM_BLOCK_SIZE = 256"
definition EEPROM_PAGE_SIZE :: u16 where "EEPROM_PAGE_SIZE = 16"
definition EEPROM_XACT_ATTEMPTS :: nat where "EEPROM_XACT_ATTEMPTS = 3"
definition EEPROM_FAIL_LIMIT :: u32 where "EEPROM_FAIL_LIMIT = 9"

text \<open>The HAL calls on the bus: memory read and write (device address, word address; the write also
  depends on the /WP pin, True while it is low) and the de-init and init of the peripheral.\<close>

record 'c i2c =
  i2c_read :: "'c \<Rightarrow> u16 \<Rightarrow> u16 \<Rightarrow> u16 \<Rightarrow> u8 list option \<times> 'c"
  i2c_write :: "'c \<Rightarrow> bool \<Rightarrow> u16 \<Rightarrow> u16 \<Rightarrow> u8 list \<Rightarrow> bool \<times> 'c"
  i2c_reinit :: "'c \<Rightarrow> 'c"

record 'c eeprom =
  ee_chip :: 'c
  ee_fail_total :: u32
  ee_fail_consec :: u32
  ee_reinit_busy :: bool
  ee_wp_low :: bool
  ee_errb :: errb_table

definition eeprom_bus_reinit :: "'c i2c \<Rightarrow> 'c eeprom \<Rightarrow> 'c eeprom" where
  "eeprom_bus_reinit h s =
     (if ee_reinit_busy s then s
      else let s = s\<lparr>ee_reinit_busy := True\<rparr>;
               s = s\<lparr>ee_chip := i2c_reinit h (ee_chip s)\<rparr>
           in s\<lparr>ee_reinit_busy := False\<rparr>)"

definition eeprom_note_failure :: "'c i2c \<Rightarrow> 'c eeprom \<Rightarrow> 'c eeprom" where
  "eeprom_note_failure h s =
     (case errb_fail_at (ee_errb s) ERRB_EEPROM of (a, t) \<Rightarrow>
        let s = s\<lparr>ee_errb := t\<rparr> in if a = ERRB_ACTION_REINIT then eeprom_bus_reinit h s else s)"

definition eeprom_dev_addr :: "u16 \<Rightarrow> u16" where
  "eeprom_dev_addr word_addr = 0xA0 OR push_bit 1 (drop_bit 8 word_addr AND 0x7)"

definition wp_write_enable :: "bool \<Rightarrow> 'c eeprom \<Rightarrow> 'c eeprom" where
  "wp_write_enable enable s = s\<lparr>ee_wp_low := enable\<rparr>"

definition note_success :: "'c \<Rightarrow> 'c eeprom \<Rightarrow> 'c eeprom" where
  "note_success c s = s\<lparr>ee_chip := c, ee_fail_consec := 0, ee_errb := errb_ok_at (ee_errb s) ERRB_EEPROM\<rparr>"

definition note_attempt :: "'c \<Rightarrow> 'c eeprom \<Rightarrow> 'c eeprom" where
  "note_attempt c s = s\<lparr>ee_chip := c, ee_fail_total := ee_fail_total s + 1, ee_fail_consec := ee_fail_consec s + 1\<rparr>"

text \<open>The attempt loops, the remaining attempts first.\<close>

fun read_attempts :: "'c i2c \<Rightarrow> nat \<Rightarrow> 'c eeprom \<Rightarrow> u16 \<Rightarrow> u16 \<Rightarrow> u8 list option \<times> 'c eeprom" where
  "read_attempts h 0 s addr len = (None, eeprom_note_failure h s)"
| "read_attempts h (Suc k) s addr len =
     (case i2c_read h (ee_chip s) (eeprom_dev_addr addr) (addr AND 0xFF) len of
        (Some bs, c) \<Rightarrow> (Some bs, note_success c s)
      | (None, c) \<Rightarrow> read_attempts h k (note_attempt c s) addr len)"

definition eeprom_read_chunk :: "'c i2c \<Rightarrow> 'c eeprom \<Rightarrow> u16 \<Rightarrow> u16 \<Rightarrow> u8 list option \<times> 'c eeprom" where
  "eeprom_read_chunk h s addr len = read_attempts h EEPROM_XACT_ATTEMPTS s addr len"

fun write_attempts :: "'c i2c \<Rightarrow> nat \<Rightarrow> 'c eeprom \<Rightarrow> u16 \<Rightarrow> u8 list \<Rightarrow> bool \<times> 'c eeprom" where
  "write_attempts h 0 s addr bs = (False, eeprom_note_failure h s)"
| "write_attempts h (Suc k) s addr bs =
     (case i2c_write h (ee_chip s) (ee_wp_low s) (eeprom_dev_addr addr) (addr AND 0xFF) bs of
        (ok, c) \<Rightarrow> if ok then (True, note_success c s) else write_attempts h k (note_attempt c s) addr bs)"

definition eeprom_write_page :: "'c i2c \<Rightarrow> 'c eeprom \<Rightarrow> u16 \<Rightarrow> u8 list \<Rightarrow> bool \<times> 'c eeprom" where
  "eeprom_write_page h s addr bs = write_attempts h EEPROM_XACT_ATTEMPTS s addr bs"

text \<open>\<open>size - addr % size\<close>, capped at the length left.\<close>

definition chunk_len :: "u16 \<Rightarrow> u16 \<Rightarrow> u16 \<Rightarrow> u16" where
  "chunk_len unit addr len = (let chunk = unit - addr mod unit in if len < chunk then len else chunk)"

lemma chunk_unat:
  assumes "0 < unit"
  shows "unat (chunk_len unit addr len) = min (unat len) (unat unit - unat addr mod unat unit)"
proof -
  have "unat addr mod unat unit < unat unit" using assms by (simp add: word_less_nat_alt)
  then have "unat (unit - addr mod unit) = unat unit - unat addr mod unat unit"
    by (simp add: unat_sub word_le_nat_alt unat_mod_distrib)
  then show ?thesis by (auto simp: chunk_len_def Let_def word_less_nat_alt)
qed

lemma chunk_pos: "0 < unit \<Longrightarrow> 0 < len \<Longrightarrow> 0 < unat (chunk_len unit addr len) \<and> unat (chunk_len unit addr len) \<le> unat len"
  using mod_less_divisor [of "unat unit" "unat addr"] by (simp add: chunk_unat word_less_nat_alt)

function read_loop :: "'c i2c \<Rightarrow> 'c eeprom \<Rightarrow> u16 \<Rightarrow> u16 \<Rightarrow> u8 list option \<times> 'c eeprom" where
  "read_loop h s addr len =
     (if 0 < len then
        let chunk = chunk_len EEPROM_BLOCK_SIZE addr len in
        (case eeprom_read_chunk h s addr chunk of
           (None, s) \<Rightarrow> (None, s)
         | (Some bs, s) \<Rightarrow>
           (case read_loop h s (addr + chunk) (len - chunk) of
              (None, s) \<Rightarrow> (None, s)
            | (Some rest, s) \<Rightarrow> (Some (bs @ rest), s)))
      else (Some [], s))"
  by pat_completeness auto

lemma len_decreases: "0 < unit \<Longrightarrow> 0 < len \<Longrightarrow> unat (len - chunk_len unit addr len) < unat len"
  using chunk_pos [of unit len addr] by (simp add: unat_sub word_le_nat_alt)

termination read_loop
  by (relation "measure (\<lambda>(h, s, addr, len). unat len)") (auto simp: len_decreases EEPROM_BLOCK_SIZE_def)

definition eeprom24c16_read :: "'c i2c \<Rightarrow> 'c eeprom \<Rightarrow> u16 \<Rightarrow> u16 \<Rightarrow> u8 list option \<times> 'c eeprom" where
  "eeprom24c16_read h s addr len =
     (if EEPROM_SIZE_BYTES < ucast addr + ucast len then (None, s) else read_loop h s addr len)"

text \<open>The write loop; the C length is the number of bytes left.\<close>

function write_loop :: "'c i2c \<Rightarrow> 'c eeprom \<Rightarrow> u16 \<Rightarrow> u8 list \<Rightarrow> u16 \<Rightarrow> bool \<times> 'c eeprom" where
  "write_loop h s addr bs len =
     (if 0 < len then
        let chunk = chunk_len EEPROM_PAGE_SIZE addr len in
        (case eeprom_write_page h s addr (take (unat chunk) bs) of
           (ok, s) \<Rightarrow> if \<not> ok then (False, s)
             else write_loop h s (addr + chunk) (drop (unat chunk) bs) (len - chunk))
      else (True, s))"
  by pat_completeness auto

termination write_loop
  by (relation "measure (\<lambda>(h, s, addr, bs, len). unat len)") (auto simp: len_decreases EEPROM_PAGE_SIZE_def)

definition eeprom24c16_write :: "'c i2c \<Rightarrow> 'c eeprom \<Rightarrow> u16 \<Rightarrow> u8 list \<Rightarrow> u16 \<Rightarrow> bool \<times> 'c eeprom" where
  "eeprom24c16_write h s addr bs len =
     (if EEPROM_SIZE_BYTES < ucast addr + ucast len then (False, s)
      else let s = wp_write_enable True s in
        (case write_loop h s addr bs len of (ok, s) \<Rightarrow> (ok, wp_write_enable False s)))"

definition eeprom24c16_ok :: "'c eeprom \<Rightarrow> bool" where
  "eeprom24c16_ok s \<longleftrightarrow> ee_fail_consec s < EEPROM_FAIL_LIMIT"

declare read_loop.simps [simp del] write_loop.simps [simp del]

section \<open>The chip behind the bus\<close>

text \<open>Cell of a transaction: the block bits of the control byte and the 8-bit word address.\<close>

definition chip_addr :: "u16 \<Rightarrow> u16 \<Rightarrow> nat" where
  "chip_addr dev off = unat (drop_bit 1 dev AND 0x7) * 256 + unat off"

definition to_part :: "u16 \<Rightarrow> u16 \<Rightarrow> bool" where
  "to_part dev off \<longleftrightarrow> dev AND 0xFFF1 = 0xA0 \<and> off < 256"

text \<open>The documented part. With /WP high it stores nothing, acknowledged or not; with /WP low an
  acknowledged write inside one 16-byte page is stored and a failed one may leave anything in its
  range. Nothing is promised of a write across a page or of a read across a 256-byte block.\<close>

locale i2c_chip =
  fixes h :: "'c i2c" and cell :: "'c \<Rightarrow> nat \<Rightarrow> u8"
  assumes read_keeps: "i2c_read h c dev off n = (r, c') \<Longrightarrow> cell c' = cell c"
    and read_data: "i2c_read h c dev off n = (Some bs, c') \<Longrightarrow> to_part dev off \<Longrightarrow>
      unat off + unat n \<le> 256 \<Longrightarrow> bs = map (\<lambda>i. cell c (chip_addr dev off + i)) [0..<unat n]"
    and write_protected: "i2c_write h c False dev off bs = (ok, c') \<Longrightarrow> cell c' = cell c"
    and write_frame: "i2c_write h c True dev off bs = (ok, c') \<Longrightarrow> to_part dev off \<Longrightarrow>
      unat off mod 16 + length bs \<le> 16 \<Longrightarrow>
      k < chip_addr dev off \<or> chip_addr dev off + length bs \<le> k \<Longrightarrow> cell c' k = cell c k"
    and write_data: "i2c_write h c True dev off bs = (True, c') \<Longrightarrow> to_part dev off \<Longrightarrow>
      unat off mod 16 + length bs \<le> 16 \<Longrightarrow> i < length bs \<Longrightarrow> cell c' (chip_addr dev off + i) = bs ! i"
    and reinit_keeps: "cell (i2c_reinit h c) = cell c"

text \<open>The control byte and the word address the driver sends select the cell of the 16-bit address.\<close>

lemma dev_block: "drop_bit 1 (eeprom_dev_addr a) AND 0x7 = drop_bit 8 a AND 0x7"
proof (rule bit_word_eqI)
  fix n assume n: "n < LENGTH(16)"
  have m: "(0x7 :: u16) = mask 3" by (simp add: mask_eq_exp_minus_1)
  have a0: "n < 3 \<Longrightarrow> \<not> bit (0xA0 :: u16) (1 + n)"
    by (auto simp: less_Suc_eq numeral_3_eq_3)
  show "bit (drop_bit 1 (eeprom_dev_addr a) AND 7) n = bit (drop_bit 8 a AND 7) n"
    unfolding eeprom_dev_addr_def m bit_and_iff bit_drop_bit_eq comp_apply bit_or_iff bit_push_bit_iff bit_mask_iff
    using a0 n by auto
qed

lemma addr_bits: "x AND 0x7 = take_bit 3 x" "x AND 0xFF = take_bit 8 x" for x :: u16
  by (simp_all add: take_bit_eq_mask mask_eq_exp_minus_1)

lemma word_off: "unat (a AND 0xFF :: u16) = unat a mod 256"
  unfolding addr_bits take_bit_eq_mod by (simp add: unat_mod_distrib)

lemma driver_addr: "unat a < 2048 \<Longrightarrow> chip_addr (eeprom_dev_addr a) (a AND 0xFF) = unat a"
proof -
  assume l: "unat a < 2048"
  have "unat (drop_bit 8 a) = unat a div 256" by (simp add: drop_bit_eq_div unat_div)
  then have "unat (drop_bit 8 a AND 0x7) = unat a div 256 mod 8"
    unfolding addr_bits take_bit_eq_mod by (simp add: unat_mod_distrib)
  then show ?thesis using l unfolding chip_addr_def dev_block word_off by simp
qed

lemma driver_to_part: "to_part (eeprom_dev_addr a) (a AND 0xFF)"
proof -
  obtain n where n: "n < 8" "drop_bit 8 a AND 0x7 = of_nat n"
  proof
    show "unat (drop_bit 8 a AND 0x7) < 8"
      unfolding addr_bits take_bit_eq_mod by (simp add: unat_mod_distrib)
  qed simp
  have "n = 0 \<or> n = 1 \<or> n = 2 \<or> n = 3 \<or> n = 4 \<or> n = 5 \<or> n = 6 \<or> n = 7" using n(1) by arith
  then have "eeprom_dev_addr a AND 0xFFF1 = 0xA0"
    unfolding eeprom_dev_addr_def n(2) by auto
  then show ?thesis using word_off [of a] by (simp add: to_part_def word_less_nat_alt)
qed

lemma block_pos: "0 < EEPROM_BLOCK_SIZE" "unat EEPROM_BLOCK_SIZE = 256" "0 < EEPROM_PAGE_SIZE" "unat EEPROM_PAGE_SIZE = 16"
  by (simp_all add: EEPROM_BLOCK_SIZE_def EEPROM_PAGE_SIZE_def)

text \<open>The step of both loops keeps the range inside the part and the 16-bit sums exact.\<close>

lemma chunk_step:
  assumes "0 < unit" "0 < len" "unat addr + unat len \<le> 2048"
  shows "unat (addr + chunk_len unit addr len) = unat addr + unat (chunk_len unit addr len)"
    "unat (len - chunk_len unit addr len) = unat len - unat (chunk_len unit addr len)"
    "unat addr mod unat unit + unat (chunk_len unit addr len) \<le> unat unit"
    "unat (addr + chunk_len unit addr len) + unat (len - chunk_len unit addr len) = unat addr + unat len"
    "unat addr < 2048"
proof -
  note p = chunk_pos [OF assms(1,2), of addr]
  show a: "unat (addr + chunk_len unit addr len) = unat addr + unat (chunk_len unit addr len)"
    using p assms(3) by (simp add: unat_word_ariths)
  show b: "unat (len - chunk_len unit addr len) = unat len - unat (chunk_len unit addr len)"
    using p by (simp add: unat_sub word_le_nat_alt)
  show "unat addr mod unat unit + unat (chunk_len unit addr len) \<le> unat unit"
  proof -
    have "unat addr mod unat unit < unat unit" using assms(1) by (simp add: word_less_nat_alt)
    then show ?thesis unfolding chunk_unat [OF assms(1)] by arith
  qed
  show "unat (addr + chunk_len unit addr len) + unat (len - chunk_len unit addr len) = unat addr + unat len"
    using a b p by simp
  show "unat addr < 2048" using assms(2,3) by (simp add: word_less_nat_alt)
qed

lemma in_part: "\<not> EEPROM_SIZE_BYTES < ucast (addr :: u16) + ucast (len :: u16) \<longleftrightarrow> unat addr + unat len \<le> 2048"
proof -
  have "unat (ucast addr + ucast len :: u32) = unat addr + unat len"
    using unat_lt2p [of addr] unat_lt2p [of len] by (simp add: unat_word_ariths unat_ucast_u16)
  then show ?thesis by (simp add: EEPROM_SIZE_BYTES_def word_less_nat_alt not_less)
qed

lemma wp_fields [simp]:
  "ee_wp_low (note_success c s) = ee_wp_low s" "ee_wp_low (note_attempt c s) = ee_wp_low s"
  "ee_chip (note_success c s) = c" "ee_chip (note_attempt c s) = c"
  "ee_wp_low (wp_write_enable b s) = b" "ee_chip (wp_write_enable b s) = ee_chip s"
  by (simp_all add: note_success_def note_attempt_def wp_write_enable_def)

lemma wp_note_failure [simp]: "ee_wp_low (eeprom_note_failure h s) = ee_wp_low s"
  by (simp add: eeprom_note_failure_def eeprom_bus_reinit_def Let_def split: prod.splits)

context i2c_chip
begin

lemma note_failure_cell: "cell (ee_chip (eeprom_note_failure h s)) = cell (ee_chip s)"
  by (simp add: eeprom_note_failure_def eeprom_bus_reinit_def Let_def reinit_keeps split: prod.splits)

lemma read_attempts_flat:
  assumes "read_attempts h k s addr n = (r, s')" "unat addr < 2048" "unat addr mod 256 + unat n \<le> 256"
  shows "cell (ee_chip s') = cell (ee_chip s) \<and>
    (\<forall>bs. r = Some bs \<longrightarrow> bs = map (\<lambda>i. cell (ee_chip s) (unat addr + i)) [0..<unat n])"
  using assms(1)
proof (induction k arbitrary: s)
  case 0
  then show ?case by (auto simp: note_failure_cell)
next
  case (Suc k)
  obtain x c where rd: "i2c_read h (ee_chip s) (eeprom_dev_addr addr) (addr AND 0xFF) n = (x, c)" by (rule prod.exhaust)
  have m: "cell c = cell (ee_chip s)" using rd by (rule read_keeps)
  show ?case
  proof (cases x)
    case None
    then show ?thesis using Suc rd m by fastforce
  next
    case (Some bs)
    then show ?thesis
      using Suc.prems rd m read_data [OF rd [unfolded Some] driver_to_part] driver_addr [OF assms(2)] assms(3)
      by (auto simp: word_off)
  qed
qed

lemma write_attempts_flat:
  assumes "write_attempts h k s addr bs = (ok, s')" "unat addr < 2048" "unat addr mod 16 + length bs \<le> 16" "ee_wp_low s"
  shows "(\<forall>j. j < unat addr \<or> unat addr + length bs \<le> j \<longrightarrow> cell (ee_chip s') j = cell (ee_chip s) j) \<and>
    (ok \<longrightarrow> (\<forall>i < length bs. cell (ee_chip s') (unat addr + i) = bs ! i)) \<and> ee_wp_low s'"
  using assms(1,4)
proof (induction k arbitrary: s)
  case 0
  then show ?case by (auto simp: note_failure_cell)
next
  case (Suc k)
  obtain x c where wr: "i2c_write h (ee_chip s) True (eeprom_dev_addr addr) (addr AND 0xFF) bs = (x, c)"
    by (rule prod.exhaust)
  note f = driver_addr [OF assms(2)]
  have pg: "unat (addr AND 0xFF) mod 16 + length bs \<le> 16" using assms(3) by (simp add: word_off mod_mod_cancel)
  have fr: "cell c j = cell (ee_chip s) j" if "j < unat addr \<or> unat addr + length bs \<le> j" for j
    using write_frame [OF wr driver_to_part pg] that f by simp
  show ?case
  proof (cases x)
    case True
    then have "i2c_write h (ee_chip s) True (eeprom_dev_addr addr) (addr AND 0xFF) bs = (True, c)" using wr by simp
    from write_data [OF this driver_to_part pg] show ?thesis using Suc.prems wr fr f True by auto
  next
    case False
    then show ?thesis using Suc.IH [of "note_attempt c s"] Suc.prems wr fr by auto
  qed
qed

lemma read_loop_flat:
  "read_loop h s addr len = (r, s') \<Longrightarrow> unat addr + unat len \<le> 2048 \<Longrightarrow>
    cell (ee_chip s') = cell (ee_chip s) \<and>
    (\<forall>bs. r = Some bs \<longrightarrow> bs = map (\<lambda>i. cell (ee_chip s) (unat addr + i)) [0..<unat len])"
proof (induction "unat len" arbitrary: s addr len r s' rule: less_induct)
  case less
  show ?case
  proof (cases "0 < len")
    case False
    then have "len = 0" by (simp add: word_gt_0)
    then show ?thesis using less.prems(1) by (auto simp: read_loop.simps [of h s])
  next
    case True
    let ?n = "chunk_len EEPROM_BLOCK_SIZE addr len"
    note c = chunk_step [OF block_pos(1) True less.prems(2)]
    obtain x s1 where rd: "eeprom_read_chunk h s addr ?n = (x, s1)" by (rule prod.exhaust)
    have f: "cell (ee_chip s1) = cell (ee_chip s)"
      "\<And>bs. x = Some bs \<Longrightarrow> bs = map (\<lambda>i. cell (ee_chip s) (unat addr + i)) [0..<unat ?n]"
      using read_attempts_flat [OF rd [unfolded eeprom_read_chunk_def] c(5)] c(3) by (simp_all add: block_pos)
    show ?thesis
    proof (cases x)
      case None
      then show ?thesis using less.prems(1) True rd f(1) by (simp add: read_loop.simps [of h s] Let_def)
    next
      case (Some bs)
      obtain y s2 where rest: "read_loop h s1 (addr + ?n) (len - ?n) = (y, s2)" by (rule prod.exhaust)
      have IH: "cell (ee_chip s2) = cell (ee_chip s1)"
        "\<And>bs. y = Some bs \<Longrightarrow> bs = map (\<lambda>i. cell (ee_chip s1) (unat addr + unat ?n + i)) [0..<unat len - unat ?n]"
        using less.hyps [OF len_decreases [OF block_pos(1) True] rest] less.prems(2) c by simp_all
      have res: "(r, s') = (case y of None \<Rightarrow> (None, s2) | Some r2 \<Rightarrow> (Some (bs @ r2), s2))"
        using less.prems(1) True rd Some rest by (simp add: read_loop.simps [of h s] Let_def)
      have split: "[0..<unat len] = [0..<unat ?n] @ map (\<lambda>i. unat ?n + i) [0..<unat len - unat ?n]"
        using chunk_pos [OF block_pos(1) True, of addr] upt_add_eq_append [of 0 "unat ?n" "unat len - unat ?n"]
        by (simp add: map_add_upt add.commute)
      show ?thesis
        using res f IH Some by (cases y) (auto simp: split comp_def add.assoc)
    qed
  qed
qed

lemma write_loop_flat:
  "write_loop h s addr bs len = (ok, s') \<Longrightarrow> unat addr + unat len \<le> 2048 \<Longrightarrow> unat len \<le> length bs \<Longrightarrow> ee_wp_low s \<Longrightarrow>
    (\<forall>j. j < unat addr \<or> unat addr + unat len \<le> j \<longrightarrow> cell (ee_chip s') j = cell (ee_chip s) j) \<and>
    (ok \<longrightarrow> (\<forall>i < unat len. cell (ee_chip s') (unat addr + i) = bs ! i))"
proof (induction "unat len" arbitrary: s addr bs len ok s' rule: less_induct)
  case less
  show ?case
  proof (cases "0 < len")
    case False
    then have "len = 0" by (simp add: word_gt_0)
    then show ?thesis using less.prems(1) by (auto simp: write_loop.simps [of h s])
  next
    case True
    let ?n = "chunk_len EEPROM_PAGE_SIZE addr len"
    note c = chunk_step [OF block_pos(3) True less.prems(2)]
    note p = chunk_pos [OF block_pos(3) True, of addr]
    obtain x s1 where wr: "eeprom_write_page h s addr (take (unat ?n) bs) = (x, s1)" by (rule prod.exhaust)
    have l: "length (take (unat ?n) bs) = unat ?n" using less.prems(3) p by simp
    have f: "\<forall>j. j < unat addr \<or> unat addr + unat ?n \<le> j \<longrightarrow> cell (ee_chip s1) j = cell (ee_chip s) j"
      "x \<longrightarrow> (\<forall>i < unat ?n. cell (ee_chip s1) (unat addr + i) = bs ! i)"
      and wp: "ee_wp_low s1"
      using write_attempts_flat [OF wr [unfolded eeprom_write_page_def] c(5)] c(3) l less.prems(4) by (simp_all add: block_pos)
    show ?thesis
    proof (cases x)
      case False
      then show ?thesis using less.prems(1) True wr f(1) p by (simp add: write_loop.simps [of h s] Let_def)
    next
      case t: True
      obtain y s2 where rest: "write_loop h s1 (addr + ?n) (drop (unat ?n) bs) (len - ?n) = (y, s2)" by (rule prod.exhaust)
      have IH: "\<forall>j. j < unat addr + unat ?n \<or> unat addr + unat len \<le> j \<longrightarrow> cell (ee_chip s2) j = cell (ee_chip s1) j"
        "y \<longrightarrow> (\<forall>i < unat len - unat ?n. cell (ee_chip s2) (unat addr + unat ?n + i) = drop (unat ?n) bs ! i)"
        using less.hyps [OF len_decreases [OF block_pos(3) True] rest] less.prems(2,3) wp c p by simp_all
      have res: "ok = y" "s' = s2"
        using less.prems(1) True wr t rest by (simp_all add: write_loop.simps [of h s] Let_def)
      have "cell (ee_chip s2) (unat addr + i) = bs ! i" if y and "i < unat len" for i
      proof (cases "i < unat ?n")
        case True
        then show ?thesis using IH(1) f(2) t by simp
      next
        case False
        then have "i - unat ?n < unat len - unat ?n" using that by simp
        with IH(2) that have "cell (ee_chip s2) (unat addr + unat ?n + (i - unat ?n)) = drop (unat ?n) bs ! (i - unat ?n)" by blast
        then show ?thesis using False less.prems(3) p by simp
      qed
      then show ?thesis using res IH(1) f(1) p by auto
    qed
  qed
qed

end

sublocale i2c_chip \<subseteq> store_io "eeprom24c16_read h" "\<lambda>s a bs. eeprom24c16_write h s a bs (of_nat (length bs))"
  "\<lambda>s. cell (ee_chip s)"
proof
  fix s a n r s' assume r: "eeprom24c16_read h s a n = (r, s')"
  show "cell (ee_chip s') = cell (ee_chip s)"
    using r read_loop_flat [of s a n r s'] by (auto simp: eeprom24c16_read_def in_part split: if_splits)
next
  fix s a n bs s' assume r: "eeprom24c16_read h s a n = (Some bs, s')"
  show "bs = map (\<lambda>i. cell (ee_chip s) (unat a + i)) [0..<unat n]"
    using r read_loop_flat [of s a n "Some bs" s'] by (auto simp: eeprom24c16_read_def in_part split: if_splits)
next
  fix s a bs ok s' k assume w: "eeprom24c16_write h s a bs (of_nat (length bs)) = (ok, s')"
    and k: "k < unat a \<or> unat a + length bs \<le> k"
  have l: "unat (of_nat (length bs) :: u16) \<le> length bs" by (simp add: unat_of_nat take_bit_eq_mod)
  obtain x s1 where loop: "write_loop h (wp_write_enable True s) a bs (of_nat (length bs)) = (x, s1)" by (rule prod.exhaust)
  show "cell (ee_chip s') k = cell (ee_chip s) k"
    using w loop write_loop_flat [OF loop _ l] k l
    by (auto simp: eeprom24c16_write_def in_part Let_def split: if_splits)
qed

context i2c_chip
begin

lemma driver_io: "store_io (eeprom24c16_read h) (\<lambda>s a bs. eeprom24c16_write h s a bs (of_nat (length bs))) (\<lambda>s. cell (ee_chip s))"
  by unfold_locales

end

section \<open>A simulated part\<close>

text \<open>A 24C16 that acknowledges or not by a script. It acknowledges while /WP is high too, and then
  stores nothing.\<close>

record chip24 =
  ch_cells :: "nat \<Rightarrow> u8"
  ch_script :: "bool list"

definition sim_ack :: "chip24 \<Rightarrow> bool \<times> chip24" where
  "sim_ack c = (case ch_script c of False # s \<Rightarrow> (False, c\<lparr>ch_script := s\<rparr>) | _ \<Rightarrow> (True, c\<lparr>ch_script := tl (ch_script c)\<rparr>))"

definition sim_i2c :: "chip24 i2c" where
  "sim_i2c = \<lparr>
     i2c_read = \<lambda>c dev off n. (case sim_ack c of (ok, c) \<Rightarrow>
       (if ok then Some (map (\<lambda>i. ch_cells c (chip_addr dev off + i)) [0..<unat n]) else None, c)),
     i2c_write = \<lambda>c wp dev off bs. (case sim_ack c of (ok, c) \<Rightarrow>
       (ok, if ok \<and> wp then c\<lparr>ch_cells := \<lambda>k. if chip_addr dev off \<le> k \<and> k < chip_addr dev off + length bs
                                then bs ! (k - chip_addr dev off) else ch_cells c k\<rparr> else c)),
     i2c_reinit = id\<rparr>"

lemma sim_ack_cells: "sim_ack c = (ok, c') \<Longrightarrow> ch_cells c' = ch_cells c"
  by (auto simp: sim_ack_def split: list.splits bool.splits)

interpretation sim: i2c_chip sim_i2c ch_cells
  by unfold_locales (auto simp: sim_i2c_def dest!: sim_ack_cells split: prod.splits if_splits)

text \<open>C14 (refinement). Behind any 24C16 that answers as documented (\<open>i2c_chip\<close>: addressed by block
  bits and word address, nothing stored while /WP is high, nothing promised of a write across a
  16-byte page or a read across a 256-byte block), the driver is a flat 2048-byte memory: a write,
  through any pattern of acknowledged, retried and failed transactions, touches only its range, has
  stored every byte when it reports success, leaves /WP protected, and is refused without touching
  the part when it runs past the end; a read returns exactly the stored bytes or nothing and changes
  none.\<close>

theorem eeprom_is_flat_memory:
  assumes chip: "i2c_chip h cell" and w: "eeprom24c16_write h s a bs (of_nat (length bs)) = (ok, s1)"
    and r: "eeprom24c16_read h s1 b n = (res, s2)" and l: "length bs < 65536"
  shows "(\<not> ee_wp_low s \<longrightarrow> \<not> ee_wp_low s1) \<and>
    (\<forall>k. k < unat a \<or> unat a + length bs \<le> k \<longrightarrow> cell (ee_chip s1) k = cell (ee_chip s) k) \<and>
    (ok \<longrightarrow> unat a + length bs \<le> 2048 \<and> (\<forall>i < length bs. cell (ee_chip s1) (unat a + i) = bs ! i)) \<and>
    (2048 < unat a + length bs \<longrightarrow> \<not> ok \<and> s1 = s) \<and>
    cell (ee_chip s2) = cell (ee_chip s1) \<and>
    (res \<noteq> None \<longrightarrow> res = Some (map (\<lambda>i. cell (ee_chip s1) (unat b + i)) [0..<unat n]))"
proof -
  have len: "unat (of_nat (length bs) :: u16) = length bs" using l by (simp add: unat_of_nat take_bit_eq_mod)
  note store = store_io.rd_keeps [OF i2c_chip.driver_io [OF chip] r]
    store_io.rd_data [OF i2c_chip.driver_io [OF chip], of s1 b n _ s2]
  obtain x t where loop: "write_loop h (wp_write_enable True s) a bs (of_nat (length bs)) = (x, t)" by (rule prod.exhaust)
  have fit: "EEPROM_SIZE_BYTES < ucast a + ucast (of_nat (length bs) :: u16) \<longleftrightarrow> 2048 < unat a + length bs"
    using in_part [of a "of_nat (length bs)"] unfolding len by (meson not_le)
  have data: "res \<noteq> None \<longrightarrow> res = Some (map (\<lambda>i. cell (ee_chip s1) (unat b + i)) [0..<unat n])"
    using store(2) r by (cases res) auto
  show ?thesis
  proof (cases "2048 < unat a + length bs")
    case True
    then show ?thesis using w store(1) data by (simp add: eeprom24c16_write_def fit)
  next
    case False
    then have "ok = x" "s1 = wp_write_enable False t"
      using w loop by (simp_all add: eeprom24c16_write_def fit Let_def)
    then show ?thesis
      using i2c_chip.write_loop_flat [OF chip loop] False store(1) data by (simp add: len)
  qed
qed

definition sample_eeprom :: "chip24 eeprom" where
  "sample_eeprom = \<lparr>ee_chip = \<lparr>ch_cells = \<lambda>_. 0xFF, ch_script = [False, True]\<rparr>, ee_fail_total = 0, ee_fail_consec = 0,
     ee_reinit_busy = False, ee_wp_low = False, ee_errb = errb_table_init\<rparr>"

lemma sample_write: "fst (eeprom24c16_write sim_i2c sample_eeprom 14 [1, 2, 3, 4] 4)"
  by code_simp

theorem eeprom_is_flat_memory_witness:
  "let s1 = snd (eeprom24c16_write sim_i2c sample_eeprom 14 [1, 2, 3, 4] 4)
   in fst (eeprom24c16_write sim_i2c sample_eeprom 14 [1, 2, 3, 4] 4) \<and> \<not> ee_wp_low s1 \<and>
     map (ch_cells (ee_chip s1)) [13..<19] = [0xFF, 1, 2, 3, 4, 0xFF]"
proof -
  let ?w = "eeprom24c16_write sim_i2c sample_eeprom 14 [1, 2, 3, 4] 4"
  let ?cells = "ch_cells (ee_chip (snd ?w))"
  have "eeprom24c16_write sim_i2c sample_eeprom 14 [1, 2, 3, 4] (of_nat (length [1, 2, 3, 4 :: u8])) = (fst ?w, snd ?w)"
    by simp
  note c = eeprom_is_flat_memory [OF sim.i2c_chip_axioms this prod.collapse [symmetric, of "eeprom24c16_read sim_i2c _ 0 1"]]
  have "\<not> ee_wp_low (snd ?w)" using c by (simp add: sample_eeprom_def)
  moreover have "\<forall>k. k < 14 \<or> 18 \<le> k \<longrightarrow> ?cells k = 0xFF" using c by (simp add: sample_eeprom_def)
  moreover have d: "?cells (14 + i) = [1, 2, 3, 4] ! i" if "i < 4" for i using c sample_write that by simp
  have "?cells 14 = 1" "?cells 15 = 2" "?cells 16 = 3" "?cells 17 = 4"
    using d [of 0] d [of 1] d [of 2] d [of 3] by simp_all
  ultimately show ?thesis
    using sample_write by (simp add: Let_def upt_rec)
qed

end
