(* ===== verification/Can_Frame.thy ===== *)
theory Can_Frame
  imports Ctrl_Types
begin

text \<open>
  What the two CAN dialects share: the frame, the 29-bit identifier and the fast-packet
  transport of \<open>control/Src/n2k_encode.c\<close>.
\<close>

record n2k_frame_t =
  fr_id :: u32
  fr_dlc :: u8
  fr_data :: "u8 list"

section \<open>Identifier\<close>

definition n2k_can_id :: "u8 \<Rightarrow> u32 \<Rightarrow> u8 \<Rightarrow> u8 \<Rightarrow> u32" where
  "n2k_can_id priority pgn src dest =
     (let id_pgn = pgn AND 0x1FFFF;
          id_pgn = (if drop_bit 8 id_pgn AND 0xFF < 240 then (id_pgn AND 0x1FF00) OR ucast dest else id_pgn)
      in push_bit 26 (ucast (priority AND 0x7)) OR push_bit 8 id_pgn OR ucast src)"

definition n2k_can_id_prio :: "u32 \<Rightarrow> u8" where
  "n2k_can_id_prio cid = ucast (drop_bit 26 cid AND 0x7)"

definition n2k_can_id_pgn :: "u32 \<Rightarrow> u32" where
  "n2k_can_id_pgn cid =
     (let pgn = drop_bit 8 cid AND 0x1FFFF
      in if drop_bit 8 pgn AND 0xFF < 240 then pgn AND 0x1FF00 else pgn)"

definition n2k_can_id_src :: "u32 \<Rightarrow> u8" where
  "n2k_can_id_src cid = ucast (cid AND 0xFF)"

lemma can_masks:
  "(0x7 :: u8) = mask 3" "(0x7 :: u32) = mask 3" "(0xFF :: u32) = mask 8" "(0x1FFFF :: u32) = mask 17"
  "(0x1FF00 :: u32) = push_bit 8 (mask 9)"
  by (simp_all add: mask_eq_exp_minus_1)

text \<open>The fields of a composed identifier.\<close>

lemma can_id_pgn_field:
  "drop_bit 8 (push_bit 26 (ucast (p AND 0x7 :: u8)) OR push_bit 8 q OR ucast (s :: u8)) AND 0x1FFFF = (q :: u32) AND 0x1FFFF"
  unfolding can_masks by (rule bit_word_eqI) (auto simp: bit_simps dest: bit_imp_le_length)

lemma can_id_prio_field:
  "ucast (drop_bit 26 (push_bit 26 (ucast (p AND 0x7 :: u8)) OR push_bit 8 (q AND 0x1FFFF) OR ucast (s :: u8)) AND 0x7 :: u32) = (p AND 0x7)"
  unfolding can_masks by (rule bit_word_eqI) (auto simp: bit_simps dest: bit_imp_le_length)

lemma can_id_src_field:
  "ucast ((push_bit 26 (ucast (p AND 0x7 :: u8)) OR push_bit 8 q OR ucast (s :: u8)) AND 0xFF :: u32) = s"
  unfolding can_masks by (rule bit_word_eqI) (auto simp: bit_simps dest: bit_imp_le_length)

lemma pdu1_field:
  "drop_bit 8 ((q AND 0x1FF00) OR ucast (d :: u8)) AND 0xFF = drop_bit 8 (q :: u32) AND 0xFF"
  "((q AND 0x1FF00) OR ucast d) AND 0x1FFFF = (q AND 0x1FF00) OR ucast d"
  "((q AND 0x1FF00) OR ucast d) AND 0x1FF00 = q AND 0x1FF00"
  unfolding can_masks by (rule bit_word_eqI; auto simp: bit_simps dest: bit_imp_le_length)+

lemma mask_idem: "(q AND 0x1FFFF) AND 0x1FFFF = q AND (0x1FFFF :: u32)"
  by (simp add: and.assoc)

text \<open>Priority, parameter group and source address come back out of a composed identifier: the
  group number whole for a broadcast format, and with its low byte, which carries the
  destination, cleared for a destination-specific one.\<close>

lemma can_id_fields:
  "n2k_can_id_prio (n2k_can_id priority pgn src dest) = priority AND 0x7 \<and>
   n2k_can_id_src (n2k_can_id priority pgn src dest) = src \<and>
   n2k_can_id_pgn (n2k_can_id priority pgn src dest) =
     (if drop_bit 8 (pgn AND 0x1FFFF) AND 0xFF < 240 then (pgn AND 0x1FFFF) AND 0x1FF00 else pgn AND 0x1FFFF)"
proof (cases "drop_bit 8 (pgn AND 0x1FFFF) AND 0xFF < 240")
  case True
  let ?q = "((pgn AND 0x1FFFF) AND 0x1FF00) OR ucast dest"
  have q: "?q AND 0x1FFFF = ?q" by (rule pdu1_field)
  have id: "n2k_can_id priority pgn src dest = push_bit 26 (ucast (priority AND 0x7)) OR push_bit 8 ?q OR ucast src"
    using True by (simp add: n2k_can_id_def Let_def)
  have "n2k_can_id_prio (n2k_can_id priority pgn src dest) = priority AND 0x7"
    using can_id_prio_field [of priority ?q src] unfolding q by (simp add: n2k_can_id_prio_def id)
  moreover have "n2k_can_id_pgn (n2k_can_id priority pgn src dest) = (pgn AND 0x1FFFF) AND 0x1FF00"
    unfolding n2k_can_id_pgn_def id can_id_pgn_field q Let_def pdu1_field(1,3) using True by simp
  ultimately show ?thesis
    using True can_id_src_field [of priority ?q src] by (simp add: n2k_can_id_src_def id)
next
  case False
  have id: "n2k_can_id priority pgn src dest = push_bit 26 (ucast (priority AND 0x7)) OR push_bit 8 (pgn AND 0x1FFFF) OR ucast src"
    using False by (simp add: n2k_can_id_def Let_def)
  have "n2k_can_id_pgn (n2k_can_id priority pgn src dest) = pgn AND 0x1FFFF"
    unfolding n2k_can_id_pgn_def id can_id_pgn_field mask_idem Let_def using False by simp
  then show ?thesis
    using False can_id_prio_field [of priority pgn src] can_id_src_field [of priority "pgn AND 0x1FFFF" src]
    by (simp add: n2k_can_id_prio_def n2k_can_id_src_def id)
qed

section \<open>Sequence identifier\<close>

text \<open>The SID to stamp and the advanced counter.\<close>

definition n2k_sid_next :: "u8 \<Rightarrow> u8 \<times> u8" where
  "n2k_sid_next sid =
     (let v = (if 252 < sid then 0 else sid) in (v, if 252 \<le> v then 0 else v + 1))"

lemma sid_range: "fst (n2k_sid_next sid) \<le> 252 \<and> snd (n2k_sid_next sid) \<le> 252"
proof -
  have "v \<le> 252 \<Longrightarrow> \<not> 252 \<le> v \<Longrightarrow> v + 1 \<le> (252 :: u8)" for v :: u8
    by (metis inc_le le_less_linear)
  then show ?thesis by (auto simp: n2k_sid_next_def Let_def not_less)
qed

section \<open>Fast packet\<close>

definition N2K_FP_MAX_PAYLOAD :: nat where "N2K_FP_MAX_PAYLOAD = 223"
definition N2K_FP_MAX_FRAMES :: nat where "N2K_FP_MAX_FRAMES = 32"

text \<open>Frames \<open>f\<close>, \<open>f + 1\<close>, ..., the payload not yet sent last; padding is \<open>0xFF\<close>.\<close>

fun fp_frames :: "u32 \<Rightarrow> u8 \<Rightarrow> nat \<Rightarrow> nat \<Rightarrow> nat \<Rightarrow> u8 list \<Rightarrow> n2k_frame_t list" where
  "fp_frames can_id seq len f 0 rest = []"
| "fp_frames can_id seq len f (Suc k) rest =
     (let head = [push_bit 5 (seq AND 0x7) OR (of_nat f AND 0x1F)] @ (if f = 0 then [of_nat len] else []);
          n = 8 - length head
      in \<lparr>fr_id = can_id, fr_dlc = 8, fr_data = head @ take n rest @ replicate (n - length rest) 0xFF\<rparr>
           # fp_frames can_id seq len (f + 1) k (drop n rest))"

definition fp_count :: "nat \<Rightarrow> nat" where
  "fp_count len = 1 + (if 6 < len then (len - 6 + 6) div 7 else 0)"

text \<open>The frames written, or \<open>None\<close> for -1.\<close>

definition n2k_fp_split :: "u32 \<Rightarrow> u8 \<Rightarrow> u8 list \<Rightarrow> nat \<Rightarrow> n2k_frame_t list option" where
  "n2k_fp_split can_id seq payload max_frames =
     (let len = length payload in
      if len = 0 \<or> N2K_FP_MAX_PAYLOAD < len then None
      else if max_frames < fp_count len then None
      else Some (fp_frames can_id seq len 0 (fp_count len) payload))"

text \<open>What a receiver does: take the announced length, drop the counters, join.\<close>

definition fp_join :: "n2k_frame_t list \<Rightarrow> u8 list" where
  "fp_join frs = take (unat (fr_data (hd frs) ! 1)) (drop 2 (fr_data (hd frs)) @ concat (map (drop 1 \<circ> fr_data) (tl frs)))"

lemma take_drop_append: "take n xs @ drop n xs @ ys = xs @ ys"
  by (metis append_assoc append_take_drop_id)

lemma fp_tail:
  "0 < f \<Longrightarrow> length rest \<le> 7 * k \<Longrightarrow>
    concat (map (drop 1 \<circ> fr_data) (fp_frames cid seq len f k rest)) = rest @ replicate (7 * k - length rest) 0xFF"
proof (induction k arbitrary: f rest)
  case (Suc k)
  have l: "length (drop 7 rest) \<le> 7 * k" using Suc.prems by simp
  show ?case
  proof (cases "7 \<le> length rest")
    case True
    then show ?thesis using Suc.IH [of "f + 1" "drop 7 rest"] Suc.prems l
      by (simp add: Let_def take_drop_append)
  next
    case False
    have "replicate (7 - length rest) 0xFF @ replicate (7 * k) (0xFF :: u8) = replicate (7 * Suc k - length rest) 0xFF"
      using False by (simp flip: replicate_add)
    then show ?thesis using Suc.IH [of "f + 1" "[]"] Suc.prems False by (simp add: Let_def)
  qed
qed simp

lemma fp_frames_shape:
  "length (fp_frames cid seq len f k rest) = k \<and>
   list_all (\<lambda>fr. fr_id fr = cid \<and> fr_dlc fr = 8 \<and> length (fr_data fr) = 8) (fp_frames cid seq len f k rest)"
  by (induction k arbitrary: f rest) (auto simp: Let_def min_def)

lemma fp_counter:
  "i < k \<Longrightarrow> fr_data (fp_frames cid seq len f k rest ! i) ! 0 = (push_bit 5 (seq AND 0x7) OR (of_nat (f + i) AND 0x1F))"
  by (induction k arbitrary: f i rest) (auto simp: Let_def nth_Cons' algebra_simps)

lemma fp_count_bound: "len \<le> 223 \<Longrightarrow> fp_count len \<le> 32"
  using div_le_mono [of len 223 7] by (simp add: fp_count_def)

text \<open>Every payload of 1 to 223 bytes that is given room is split into at most 32 frames
  of 8 bytes under one identifier, numbered from 0 in the low five bits with the sequence in the
  high three, and joining them as a receiver does gives the payload back exactly; any other
  payload, or too little room, yields no frame.\<close>

theorem fast_packet_round_trip:
  "(case n2k_fp_split can_id seq payload max_frames of
      Some frs \<Rightarrow> payload \<noteq> [] \<and> length payload \<le> 223 \<and> length frs = fp_count (length payload) \<and>
        length frs \<le> min 32 max_frames \<and> fp_join frs = payload \<and>
        list_all (\<lambda>fr. fr_id fr = can_id \<and> fr_dlc fr = 8 \<and> length (fr_data fr) = 8) frs \<and>
        list_all (\<lambda>i. fr_data (frs ! i) ! 0 = (push_bit 5 (seq AND 0x7) OR (of_nat i AND 0x1F))) [0..<length frs]
    | None \<Rightarrow> payload = [] \<or> 223 < length payload \<or> max_frames < fp_count (length payload))"
proof -
  let ?n = "length payload"
  have join: "fp_join (fp_frames can_id seq ?n 0 (fp_count ?n) payload) = payload"
    if ok: "?n \<le> 223" "payload \<noteq> []"
  proof -
    obtain k where k: "fp_count ?n = Suc k" by (simp add: fp_count_def)
    have fits: "length (drop 6 payload) \<le> 7 * k" using k by (auto simp: fp_count_def split: if_splits)
    have u: "unat (of_nat ?n :: u8) = ?n" using ok by (simp add: unat_of_nat take_bit_eq_mod)
    have "fp_join (fp_frames can_id seq ?n 0 (Suc k) payload) =
        take ?n (take 6 payload @ replicate (6 - ?n) 0xFF @ drop 6 payload @ replicate (7 * k - (?n - 6)) 0xFF)"
      using fp_tail [of 1 "drop 6 payload" k can_id seq ?n] fits u by (simp add: fp_join_def Let_def)
    also have "\<dots> = payload" by (cases "?n \<le> 6") simp_all
    finally show ?thesis by (simp add: k)
  qed
  show ?thesis
    using join fp_count_bound [of ?n] fp_frames_shape [of can_id seq ?n 0 "fp_count ?n" payload]
      fp_counter [of _ "fp_count ?n" can_id seq ?n 0 payload]
    by (auto simp: n2k_fp_split_def Let_def N2K_FP_MAX_PAYLOAD_def list_all_iff)
qed

end
