(* ===== verification/N2k_AddrClaim.thy ===== *)
theory N2k_AddrClaim
  imports Can_Frame
begin

text \<open>
  Address claim, \<open>control/Src/n2k_addrclaim.c\<close> and \<open>control/Inc/n2k_addrclaim.h\<close>: the NAME, the
  claim state machine with its tick and receive handlers, and a step relation over ticks and
  received frames that keeps the history. The lemmas show what a won address rests on and how
  two nodes running this code settle a contest. Contexts and buffers are valid objects, and the
  payload of a received frame is the list of its bytes.
\<close>

section \<open>NAME\<close>

definition put_u64_le :: "u64 \<Rightarrow> u8 list" where
  "put_u64_le v = map (\<lambda>i. ucast (drop_bit (8 * i) v)) [0..<8]"

definition get_u64_le :: "u8 list \<Rightarrow> u64" where
  "get_u64_le b = foldl (\<lambda>v i. push_bit 8 v OR ucast (b ! i)) 0 (rev [0..<8])"

lemma put_u64_le_length [simp]: "length (put_u64_le v) = 8"
  by (simp add: put_u64_le_def)

lemma byte_step: "push_bit 8 (drop_bit 8 x) OR ucast (ucast (x :: u64) :: u8) = x"
  by (rule bit_word_eqI) (auto simp: bit_simps)

lemma get_put_u64_le: "get_u64_le (put_u64_le v) = v"
proof -
  have "foldl (\<lambda>w i. push_bit 8 w OR ucast (put_u64_le v ! i)) 0 (rev [k..<8]) = drop_bit (8 * k) v" if "k \<le> 8" for k
    using that
  proof (induction rule: inc_induct)
    case (step k)
    have "rev [k..<8] = rev [Suc k..<8] @ [k]" using step.hyps by (simp add: upt_conv_Cons)
    then show ?case
      using step byte_step [of "drop_bit (8 * k) v"] by (simp add: put_u64_le_def drop_bit_drop_bit)
  qed (simp add: bit_eq_iff bit_simps)
  from this [of 0] show ?thesis by (simp add: get_u64_le_def)
qed

record n2k_name_fields_t =
  nf_unique_number :: u32
  nf_manufacturer_code :: u16
  nf_device_instance_lower :: u8
  nf_device_instance_upper :: u8
  nf_device_function :: u8
  nf_device_class :: u8
  nf_system_instance :: u8
  nf_industry_group :: u8
  nf_arbitrary_addr_capable :: bool

definition n2k_name_build :: "n2k_name_fields_t \<Rightarrow> u64" where
  "n2k_name_build f =
     ucast (nf_unique_number f AND 0x1FFFFF)
     OR push_bit 21 (ucast (nf_manufacturer_code f AND 0x7FF))
     OR push_bit 32 (ucast (nf_device_instance_lower f AND 0x7))
     OR push_bit 35 (ucast (nf_device_instance_upper f AND 0x1F))
     OR push_bit 40 (ucast (nf_device_function f))
     OR push_bit 49 (ucast (nf_device_class f AND 0x7F))
     OR push_bit 56 (ucast (nf_system_instance f AND 0xF))
     OR push_bit 60 (ucast (nf_industry_group f AND 0x7))
     OR (if nf_arbitrary_addr_capable f then push_bit 63 1 else 0)"

section \<open>The claim context\<close>

definition N2K_PGN_ADDR_CLAIM :: u32 where "N2K_PGN_ADDR_CLAIM = 60928"
definition N2K_PGN_ISO_REQUEST :: u32 where "N2K_PGN_ISO_REQUEST = 59904"
definition N2K_ADDR_NULL :: u8 where "N2K_ADDR_NULL = 254"
definition N2K_ADDR_GLOBAL :: u8 where "N2K_ADDR_GLOBAL = 255"
definition N2K_AC_SETTLE_MS :: u32 where "N2K_AC_SETTLE_MS = 250"
definition N2K_AC_PRIO :: u8 where "N2K_AC_PRIO = 6"

lemmas ac_consts = N2K_PGN_ADDR_CLAIM_def N2K_PGN_ISO_REQUEST_def N2K_ADDR_NULL_def N2K_ADDR_GLOBAL_def
  N2K_AC_SETTLE_MS_def N2K_AC_PRIO_def

datatype n2k_ac_state_t = N2K_AC_CLAIMING | N2K_AC_CLAIMED | N2K_AC_NULL

record n2k_ac_t =
  ac_name :: u64
  ac_pref_addr :: u8
  ac_addr :: u8
  ac_tries :: u16
  ac_state :: n2k_ac_state_t
  ac_claim_ms :: u32
  ac_need_claim_tx :: bool
  ac_need_repeat_tx :: bool

definition build_claim_frame :: "n2k_ac_t \<Rightarrow> n2k_frame_t" where
  "build_claim_frame ctx = \<lparr>fr_id = n2k_can_id N2K_AC_PRIO N2K_PGN_ADDR_CLAIM (ac_addr ctx) 0xFF,
     fr_dlc = 8, fr_data = put_u64_le (ac_name ctx)\<rparr>"

definition restart_claim :: "n2k_ac_t \<Rightarrow> n2k_ac_t" where
  "restart_claim ctx =
     (let ctx = ctx\<lparr>ac_tries := ac_tries ctx + 1\<rparr>
      in if 254 \<le> ac_tries ctx
         then ctx\<lparr>ac_state := N2K_AC_NULL, ac_addr := N2K_ADDR_NULL, ac_need_claim_tx := False, ac_need_repeat_tx := False\<rparr>
         else ctx\<lparr>ac_addr := ucast ((ucast (ac_pref_addr ctx) + ucast (ac_tries ctx) :: u32) mod 254),
                  ac_state := N2K_AC_CLAIMING, ac_need_claim_tx := True\<rparr>)"

definition n2k_ac_init :: "u64 \<Rightarrow> u8 \<Rightarrow> n2k_ac_t" where
  "n2k_ac_init name preferred_addr =
     \<lparr>ac_name = name, ac_pref_addr = preferred_addr, ac_addr = preferred_addr, ac_tries = 0,
      ac_state = N2K_AC_CLAIMING, ac_claim_ms = 0, ac_need_claim_tx = True, ac_need_repeat_tx = False\<rparr>"

text \<open>The frames to send and the context after the tick.\<close>

definition n2k_ac_tick :: "n2k_ac_t \<Rightarrow> u32 \<Rightarrow> nat \<Rightarrow> n2k_frame_t list \<times> n2k_ac_t" where
  "n2k_ac_tick ctx now_ms max_frames =
     (if ac_state ctx = N2K_AC_NULL then ([], ctx)
      else
        let (out, ctx) = (if ac_need_claim_tx ctx \<and> 0 < max_frames
              then ([build_claim_frame ctx], ctx\<lparr>ac_claim_ms := now_ms, ac_need_claim_tx := False\<rparr>) else ([], ctx));
            (out, ctx) = (if ac_need_repeat_tx ctx \<and> length out < max_frames
              then (out @ [build_claim_frame ctx], ctx\<lparr>ac_need_repeat_tx := False\<rparr>) else (out, ctx));
            ctx = (if ac_state ctx = N2K_AC_CLAIMING \<and> \<not> ac_need_claim_tx ctx \<and> N2K_AC_SETTLE_MS \<le> now_ms - ac_claim_ms ctx
              then ctx\<lparr>ac_state := N2K_AC_CLAIMED\<rparr> else ctx)
        in (out, ctx))"

definition n2k_ac_rx :: "n2k_ac_t \<Rightarrow> u32 \<Rightarrow> u8 list \<Rightarrow> n2k_ac_t" where
  "n2k_ac_rx ctx cid data =
     (if ac_state ctx = N2K_AC_NULL then ctx
      else let pgn = n2k_can_id_pgn cid in
        if pgn = N2K_PGN_ADDR_CLAIM then
          if length data < 8 then ctx
          else if n2k_can_id_src cid \<noteq> ac_addr ctx then ctx
          else if get_u64_le data < ac_name ctx then restart_claim ctx
          else ctx\<lparr>ac_need_repeat_tx := True\<rparr>
        else if pgn = N2K_PGN_ISO_REQUEST then
          if length data < 3 then ctx
          else let dest = ucast (drop_bit 8 cid) :: u8 in
            if dest \<noteq> N2K_ADDR_GLOBAL \<and> dest \<noteq> ac_addr ctx then ctx
            else let req_pgn = ucast (data ! 0) OR push_bit 8 (ucast (data ! 1)) OR push_bit 16 (ucast (data ! 2)) in
              if req_pgn \<noteq> N2K_PGN_ADDR_CLAIM then ctx
              else if ac_state ctx = N2K_AC_CLAIMED then ctx\<lparr>ac_need_repeat_tx := True\<rparr> else ctx
        else ctx)"

definition n2k_ac_ready :: "n2k_ac_t \<Rightarrow> bool" where
  "n2k_ac_ready ctx \<longleftrightarrow> ac_state ctx = N2K_AC_CLAIMED"

definition n2k_ac_address :: "n2k_ac_t \<Rightarrow> u8" where
  "n2k_ac_address ctx = ac_addr ctx"

section \<open>Trying the whole address space\<close>

text \<open>The \<open>k\<close>-th address tried, and what a context holds after \<open>k\<close> lost contests.\<close>

lemma restart_below:
  assumes "ac_tries c < 253"
  shows "restart_claim c = c\<lparr>ac_tries := ac_tries c + 1, ac_addr := of_nat ((unat (ac_pref_addr c) + unat (ac_tries c) + 1) mod 254),
    ac_state := N2K_AC_CLAIMING, ac_need_claim_tx := True\<rparr>"
proof -
  have t: "unat (ac_tries c) < 253" using assms by (simp add: word_less_nat_alt)
  then have n: "unat (ac_tries c + 1) = unat (ac_tries c) + 1" by (simp add: unat_word_ariths)
  have p: "unat (ac_pref_addr c) < 256" using unat_lt2p [of "ac_pref_addr c"] by simp
  have "\<not> 254 \<le> ac_tries c + 1" using t n by (simp add: word_le_nat_alt)
  moreover have "(ucast ((ucast (ac_pref_addr c) + ucast (ac_tries c + 1) :: u32) mod 254) :: u8)
      = of_nat ((unat (ac_pref_addr c) + unat (ac_tries c) + 1) mod 254)"
    using t p n by (intro word_unat_eq_iff [THEN iffD2])
      (simp add: unat_mod_distrib unat_word_ariths unsigned_ucast_eq unat_of_nat take_bit_eq_mod)
  ultimately show ?thesis by (simp add: restart_claim_def Let_def)
qed

lemma restart_last:
  "ac_tries c = 253 \<Longrightarrow> restart_claim c = c\<lparr>ac_tries := 254, ac_state := N2K_AC_NULL, ac_addr := N2K_ADDR_NULL,
     ac_need_claim_tx := False, ac_need_repeat_tx := False\<rparr>"
  by (simp add: restart_claim_def)

lemma restart_iter:
  assumes "pref < 254" "k < 254"
  shows "(restart_claim ^^ k) (n2k_ac_init name pref) = (n2k_ac_init name pref)\<lparr>ac_tries := of_nat k,
    ac_addr := of_nat ((unat pref + k) mod 254)\<rparr>"
  using assms(2)
proof (induction k)
  case 0
  have "unat pref < 254" using assms(1) by (simp add: word_less_nat_alt)
  then show ?case by (simp add: n2k_ac_init_def)
next
  case (Suc k)
  let ?c = "(n2k_ac_init name pref)\<lparr>ac_tries := of_nat k, ac_addr := of_nat ((unat pref + k) mod 254)\<rparr>"
  have u: "unat (of_nat k :: u16) = k" using Suc.prems by (simp add: unat_of_nat take_bit_eq_mod)
  have "ac_tries ?c < 253" using Suc.prems u by (simp add: word_less_nat_alt)
  then show ?case using Suc u by (simp add: restart_below) (simp add: n2k_ac_init_def add.assoc)
qed

lemma card_word_less_254: "card {a :: u8. a < 254} = 254"
proof -
  have "{a :: u8. a < 254} = of_nat ` {0..<254}"
  proof safe
    fix a :: u8 assume "a < 254"
    then have "unat a < 254" by (simp add: word_less_nat_alt)
    then show "a \<in> of_nat ` {0..<254}" by (intro image_eqI [of _ _ "unat a"]) simp_all
  qed (simp add: word_less_nat_alt unat_of_nat take_bit_eq_mod)
  moreover have "inj_on (of_nat :: nat \<Rightarrow> u8) {0..<254}"
    by (rule inj_onI) (simp add: word_unat_eq_iff unat_of_nat take_bit_eq_mod)
  ultimately show ?thesis by (simp add: card_image)
qed

lemma tries_all:
  assumes "pref < (254 :: u8)"
  shows "set (map (\<lambda>k. of_nat ((unat pref + k) mod 254) :: u8) [0..<254]) = {a. a < 254}" (is "?L = ?R")
proof
  have "(of_nat (n mod 254) :: u8) < 254" for n
    using mod_less_divisor [of 254 n] by (simp add: word_less_nat_alt unat_of_nat take_bit_eq_mod del: mod_less_divisor)
  then show "?L \<subseteq> ?R" by auto
  show "?R \<subseteq> ?L"
  proof
    fix a :: u8 assume "a \<in> ?R"
    then have a: "unat a < 254" by (simp add: word_less_nat_alt)
    have p: "unat pref < 254" using assms by (simp add: word_less_nat_alt)
    define k where "k = (unat a + 254 - unat pref) mod 254"
    have "(unat pref + k) mod 254 = (unat pref + (unat a + 254 - unat pref)) mod 254" by (simp add: k_def mod_simps)
    also have "unat pref + (unat a + 254 - unat pref) = unat a + 254" using p by simp
    also have "(unat a + 254) mod 254 = unat a" using a by simp
    finally have "a = of_nat ((unat pref + k) mod 254)" by simp
    moreover have "k < 254" by (simp add: k_def)
    ultimately show "a \<in> ?L" unfolding set_map set_upt by (intro image_eqI [of _ _ k]) simp_all
  qed
qed

text \<open>C17 (termination). Contests are finite: a context that starts from a claimable address and loses one
  contest after another tries each of the 254 addresses exactly once, its preferred one first,
  and the 254th loss makes it silent on the null address for good, with nothing left to send.\<close>

theorem every_address_once:
  assumes "preferred_addr < 254"
  shows "let addrs = map (\<lambda>k. n2k_ac_address ((restart_claim ^^ k) (n2k_ac_init name preferred_addr))) [0..<254];
             last = (restart_claim ^^ 254) (n2k_ac_init name preferred_addr) in
    hd addrs = preferred_addr \<and> distinct addrs \<and> set addrs = {a. a < 254} \<and>
    ac_state last = N2K_AC_NULL \<and> n2k_ac_address last = N2K_ADDR_NULL \<and>
    n2k_ac_tick last now_ms max_frames = ([], last) \<and> n2k_ac_rx last cid data = last"
proof -
  let ?i = "n2k_ac_init name preferred_addr"
  let ?a = "\<lambda>k. n2k_ac_address ((restart_claim ^^ k) ?i)"
  let ?f = "\<lambda>k. of_nat ((unat preferred_addr + k) mod 254) :: u8"
  have eq: "map ?a [0..<254] = map ?f [0..<254]"
    by (rule map_cong [OF refl]) (simp add: restart_iter [OF assms] n2k_ac_address_def)
  have all: "set (map ?a [0..<254]) = {a. a < 254}" unfolding eq by (rule tries_all [OF assms])
  have "card {a :: u8. a < 254} = 254"
    using card_word_less_254 by simp
  then have "card (set (map ?a [0..<254])) = length (map ?a [0..<254])" unfolding all by simp
  then have dist: "distinct (map ?a [0..<254])" by (rule card_distinct)
  have "unat preferred_addr < 254" using assms by (simp add: word_less_nat_alt)
  then have hd: "hd (map ?a [0..<254]) = preferred_addr" unfolding eq
    by (subst list.map_sel(1)) (simp_all add: hd_upt)
  have "(restart_claim ^^ 254) ?i = restart_claim ((restart_claim ^^ 253) ?i)"
    using funpow.simps(2) [of 253 restart_claim] by simp
  also have "\<dots> = ((restart_claim ^^ 253) ?i)\<lparr>ac_tries := 254, ac_state := N2K_AC_NULL, ac_addr := N2K_ADDR_NULL,
     ac_need_claim_tx := False, ac_need_repeat_tx := False\<rparr>"
    by (rule restart_last) (simp add: restart_iter [OF assms])
  finally have "ac_state ((restart_claim ^^ 254) ?i) = N2K_AC_NULL" "n2k_ac_address ((restart_claim ^^ 254) ?i) = N2K_ADDR_NULL"
    by (simp_all add: n2k_ac_address_def)
  moreover from this have "n2k_ac_tick ((restart_claim ^^ 254) ?i) now_ms max_frames = ([], (restart_claim ^^ 254) ?i)"
    "n2k_ac_rx ((restart_claim ^^ 254) ?i) cid data = (restart_claim ^^ 254) ?i"
    by (simp_all add: n2k_ac_tick_def n2k_ac_rx_def)
  ultimately show ?thesis unfolding Let_def using hd all dist by (intro conjI)
qed

theorem every_address_once_witness:
  "n2k_ac_address ((restart_claim ^^ 254) (n2k_ac_init 1 35)) = N2K_ADDR_NULL \<and>
   n2k_ac_tick ((restart_claim ^^ 254) (n2k_ac_init 1 35)) 0 2 = ([], (restart_claim ^^ 254) (n2k_ac_init 1 35))"
proof -
  have "(35 :: u8) < 254" by simp
  from every_address_once [OF this, of 1 0 2] show ?thesis unfolding Let_def by blast
qed

section \<open>Runs\<close>

text \<open>The history of a run, latest event first: a tick with its time and the frames it sent, and a
  frame heard.\<close>

datatype ac_event = Sent u32 "n2k_frame_t list" | Heard u32 "u8 list"

inductive ac_run :: "u64 \<Rightarrow> u8 \<Rightarrow> n2k_ac_t \<Rightarrow> ac_event list \<Rightarrow> bool" for name pref where
  start: "ac_run name pref (n2k_ac_init name pref) []"
| tick: "ac_run name pref c h \<Longrightarrow> n2k_ac_tick c now_ms max_frames = (out, c') \<Longrightarrow> ac_run name pref c' (Sent now_ms out # h)"
| rx: "ac_run name pref c h \<Longrightarrow> ac_run name pref (n2k_ac_rx c cid data) (Heard cid data # h)"

text \<open>A heard frame that takes the address away: a claim on it under a lower NAME.\<close>

fun beats :: "n2k_ac_t \<Rightarrow> ac_event \<Rightarrow> bool" where
  "beats c (Sent t frs) = False"
| "beats c (Heard cid data) = (n2k_can_id_pgn cid = N2K_PGN_ADDR_CLAIM \<and> 8 \<le> length data
     \<and> n2k_can_id_src cid = ac_addr c \<and> get_u64_le data < ac_name c)"

text \<open>The claim on the present address went out at \<open>ac_claim_ms\<close> and nothing has beaten it since;
  and a later tick came at least 250 ms after it, still unbeaten.\<close>

fun announced :: "n2k_ac_t \<Rightarrow> ac_event list \<Rightarrow> bool" where
  "announced c [] = False"
| "announced c (e # h) = (\<not> beats c e \<and>
     ((case e of Sent t frs \<Rightarrow> t = ac_claim_ms c \<and> build_claim_frame c \<in> set frs | Heard _ _ \<Rightarrow> False) \<or> announced c h))"

fun settled :: "n2k_ac_t \<Rightarrow> ac_event list \<Rightarrow> bool" where
  "settled c [] = False"
| "settled c (e # h) = (\<not> beats c e \<and>
     ((case e of Sent t frs \<Rightarrow> 250 \<le> t - ac_claim_ms c \<and> announced c (e # h) | Heard _ _ \<Rightarrow> False) \<or> settled c h))"

definition same_claim :: "n2k_ac_t \<Rightarrow> n2k_ac_t \<Rightarrow> bool" where
  "same_claim c d \<longleftrightarrow> ac_addr c = ac_addr d \<and> ac_name c = ac_name d \<and> ac_claim_ms c = ac_claim_ms d"

lemma same_claim_beats: "same_claim c d \<Longrightarrow> beats c e = beats d e"
  by (cases e) (simp_all add: same_claim_def)

lemma same_claim_frame: "same_claim c d \<Longrightarrow> build_claim_frame c = build_claim_frame d"
  by (simp add: same_claim_def build_claim_frame_def)

lemma same_claim_history:
  assumes "same_claim c d"
  shows "announced c h = announced d h" and "settled c h = settled d h"
proof -
  have ms: "ac_claim_ms c = ac_claim_ms d" using assms by (simp add: same_claim_def)
  show *: "announced c h = announced d h" for h
    by (induction h) (simp_all add: same_claim_beats [OF assms] same_claim_frame [OF assms] ms split: ac_event.splits)
  show "settled c h = settled d h"
    by (induction h) (simp_all add: same_claim_beats [OF assms] same_claim_frame [OF assms] ms * split: ac_event.splits)
qed

text \<open>What holds after any sequence of ticks and receptions.\<close>

definition ac_ok :: "u64 \<Rightarrow> u8 \<Rightarrow> n2k_ac_t \<Rightarrow> ac_event list \<Rightarrow> bool" where
  "ac_ok name pref c h \<longleftrightarrow> ac_name c = name \<and> ac_pref_addr c = pref \<and>
     (case ac_state c of
        N2K_AC_NULL \<Rightarrow> ac_addr c = N2K_ADDR_NULL
      | _ \<Rightarrow> ac_tries c < 254 \<and> ac_addr c = of_nat ((unat pref + unat (ac_tries c)) mod 254)) \<and>
     (ac_state c \<noteq> N2K_AC_NULL \<longrightarrow> ac_need_claim_tx c \<or> announced c h) \<and>
     (ac_state c = N2K_AC_CLAIMED \<longrightarrow> \<not> ac_need_claim_tx c \<and> settled c h)"

lemma ac_ok_start: "pref < 254 \<Longrightarrow> ac_ok name pref (n2k_ac_init name pref) []"
  by (simp add: ac_ok_def n2k_ac_init_def word_less_nat_alt)

text \<open>A tick keeps the address; it either sends the pending claim and restarts the clock, or
  leaves the claim as it is and may promote it.\<close>

lemma tick_keeps:
  assumes "n2k_ac_tick c now_ms n = (out, c')"
  shows "ac_name c' = ac_name c" "ac_pref_addr c' = ac_pref_addr c" "ac_addr c' = ac_addr c" "ac_tries c' = ac_tries c"
    "ac_state c' = N2K_AC_NULL \<longleftrightarrow> ac_state c = N2K_AC_NULL"
  using assms by (auto simp: n2k_ac_tick_def Let_def split: if_splits)

lemma tick_sends_claim:
  assumes "n2k_ac_tick c now_ms n = (out, c')" "ac_state c = N2K_AC_CLAIMING" "ac_need_claim_tx c" "0 < n"
  shows "ac_state c' = N2K_AC_CLAIMING" "\<not> ac_need_claim_tx c'" "ac_claim_ms c' = now_ms" "build_claim_frame c' \<in> set out"
  using assms by (auto simp: n2k_ac_tick_def Let_def N2K_AC_SETTLE_MS_def build_claim_frame_def split: if_splits)

lemma tick_keeps_claim:
  assumes "n2k_ac_tick c now_ms n = (out, c')" "\<not> (ac_need_claim_tx c \<and> 0 < n)" "ac_state c \<noteq> N2K_AC_NULL"
  shows "same_claim c' c" "ac_need_claim_tx c' = ac_need_claim_tx c"
    "ac_state c' = N2K_AC_CLAIMED \<Longrightarrow> ac_state c = N2K_AC_CLAIMED \<or> \<not> ac_need_claim_tx c \<and> 250 \<le> now_ms - ac_claim_ms c"
  using assms by (auto simp: n2k_ac_tick_def Let_def N2K_AC_SETTLE_MS_def same_claim_def split: if_splits)

lemma ac_ok_tick:
  assumes ok: "ac_ok name pref c h" and t: "n2k_ac_tick c now_ms n = (out, c')"
  shows "ac_ok name pref c' (Sent now_ms out # h)"
proof (cases "ac_state c = N2K_AC_NULL")
  case True
  then have "c' = c" using t by (simp add: n2k_ac_tick_def)
  then show ?thesis using ok True by (simp add: ac_ok_def)
next
  case live: False
  show ?thesis
  proof (cases "ac_need_claim_tx c \<and> 0 < n")
    case True
    then have "ac_state c = N2K_AC_CLAIMING" using ok live by (cases "ac_state c") (auto simp: ac_ok_def)
    with True tick_sends_claim [OF t] show ?thesis
      using ok tick_keeps [OF t] by (simp add: ac_ok_def)
  next
    case False
    note k = tick_keeps_claim [OF t False live]
    have "settled c' (Sent now_ms out # h)" if "ac_state c' = N2K_AC_CLAIMED"
      using k(3) [OF that] ok live same_claim_history [OF k(1)] k(1) by (auto simp: ac_ok_def same_claim_def split: n2k_ac_state_t.splits)
    moreover have "ac_need_claim_tx c' \<or> announced c' (Sent now_ms out # h)"
      using ok live k(2) same_claim_history [OF k(1)] by (auto simp: ac_ok_def)
    ultimately show ?thesis
      using ok live k(2,3) tick_keeps [OF t] by (auto simp: ac_ok_def split: n2k_ac_state_t.splits)
  qed
qed

lemma restart_ok:
  assumes ok: "ac_ok name pref c h" and live: "ac_state c \<noteq> N2K_AC_NULL"
  shows "ac_ok name pref (restart_claim c) (e # h)"
proof -
  have "ac_tries c < 254" and p: "ac_pref_addr c = pref" using ok live by (auto simp: ac_ok_def split: n2k_ac_state_t.splits)
  then consider "ac_tries c < 253" | "ac_tries c = 253"
    using word_less_nat_alt [of "ac_tries c" 254] word_less_nat_alt [of "ac_tries c" 253] word_unat_eq_iff [of "ac_tries c" 253]
    by fastforce
  then show ?thesis
  proof cases
    case 1
    then have "unat (ac_tries c) < 253" by (simp add: word_less_nat_alt)
    then have "unat (ac_tries c + 1) = unat (ac_tries c) + 1" by (simp add: unat_word_ariths)
    moreover from this have "ac_tries c + 1 < 254" using \<open>unat (ac_tries c) < 253\<close> by (simp add: word_less_nat_alt)
    ultimately show ?thesis using ok p restart_below [OF 1] by (simp add: ac_ok_def add.assoc)
  next
    case 2
    then show ?thesis using ok by (simp add: restart_last ac_ok_def)
  qed
qed

lemma ac_ok_rx:
  assumes ok: "ac_ok name pref c h"
  shows "ac_ok name pref (n2k_ac_rx c cid data) (Heard cid data # h)"
proof (cases "ac_state c \<noteq> N2K_AC_NULL \<and> beats c (Heard cid data)")
  case True
  then have "n2k_ac_rx c cid data = restart_claim c" by (simp add: n2k_ac_rx_def Let_def not_less)
  then show ?thesis using restart_ok [OF ok] True by simp
next
  case False
  have same: "same_claim (c\<lparr>ac_need_repeat_tx := True\<rparr>) c" by (simp add: same_claim_def)
  have keep: "ac_ok name pref c (Heard cid data # h)" using ok False by (auto simp: ac_ok_def split: n2k_ac_state_t.splits)
  then have owed: "ac_ok name pref (c\<lparr>ac_need_repeat_tx := True\<rparr>) (Heard cid data # h)"
    using same_claim_history [OF same] by (cases "ac_state c") (auto simp: ac_ok_def simp del: announced.simps settled.simps)
  show ?thesis
  proof (cases "n2k_can_id_pgn cid = N2K_PGN_ADDR_CLAIM")
    case True
    then show ?thesis using False keep owed by (auto simp: n2k_ac_rx_def not_less)
  next
    case pgn: False
    show ?thesis using keep owed by (simp add: n2k_ac_rx_def Let_def pgn)
  qed
qed

lemma ac_run_ok: "ac_run name pref c h \<Longrightarrow> pref < 254 \<Longrightarrow> ac_ok name pref c h"
  by (induction rule: ac_run.induct) (auto intro: ac_ok_start ac_ok_tick ac_ok_rx)

text \<open>C15 (safety). Whatever the order of ticks and received frames, an address counts as won only after
  an earlier tick handed its claim to the caller (who may still hold it in the transmit ring), a tick
  at least 250 ms later found it still standing, and no claim on it under a lower NAME was heard from
  then to now; the address is then a claimable one.\<close>

theorem ready_means_unopposed:
  assumes "ac_run name pref c h" and "pref < 254" and "n2k_ac_ready c"
  shows "settled c h \<and> ac_name c = name \<and> n2k_ac_address c < 254"
proof -
  have ok: "ac_ok name pref c h" using assms(1,2) by (rule ac_run_ok)
  have "(of_nat (n mod 254) :: u8) < 254" for n
    using mod_less_divisor [of 254 n] by (simp add: word_less_nat_alt unat_of_nat take_bit_eq_mod del: mod_less_divisor)
  then show ?thesis using ok assms(3) by (simp add: ac_ok_def n2k_ac_ready_def n2k_ac_address_def)
qed

text \<open>Claimed by a claim at 100 ms and a quiet tick at 350 ms.\<close>

theorem ready_means_unopposed_witness:
  "let c0 = n2k_ac_init 5 35; (o1, c1) = n2k_ac_tick c0 100 2; (o2, c2) = n2k_ac_tick c1 350 2
   in n2k_ac_ready c2 \<and> settled c2 [Sent 350 o2, Sent 100 o1] \<and> n2k_ac_address c2 < 254"
proof -
  define c1 where "c1 = snd (n2k_ac_tick (n2k_ac_init 5 35) 100 2)"
  define o1 where "o1 = fst (n2k_ac_tick (n2k_ac_init 5 35) 100 2)"
  define c2 where "c2 = snd (n2k_ac_tick c1 350 2)"
  define o2 where "o2 = fst (n2k_ac_tick c1 350 2)"
  have t: "n2k_ac_tick (n2k_ac_init 5 35) 100 2 = (o1, c1)" "n2k_ac_tick c1 350 2 = (o2, c2)"
    by (simp_all add: c1_def o1_def c2_def o2_def)
  have run: "ac_run 5 35 c2 [Sent 350 o2, Sent 100 o1]" by (rule ac_run.tick [OF ac_run.tick [OF ac_run.start t(1)] t(2)])
  have "n2k_ac_ready c2"
    by (simp add: c2_def c1_def n2k_ac_ready_def n2k_ac_tick_def n2k_ac_init_def N2K_AC_SETTLE_MS_def)
  then show ?thesis using ready_means_unopposed [OF run] by (simp add: t)
qed

section \<open>Two nodes in contest\<close>

text \<open>A claim frame is read as a claim on its sender's address under its sender's NAME.\<close>

lemma claim_frame_read:
  "n2k_can_id_pgn (fr_id (build_claim_frame c)) = N2K_PGN_ADDR_CLAIM"
  "n2k_can_id_src (fr_id (build_claim_frame c)) = ac_addr c"
  "length (fr_data (build_claim_frame c)) = 8"
  "get_u64_le (fr_data (build_claim_frame c)) = ac_name c"
  using can_id_fields [of N2K_AC_PRIO N2K_PGN_ADDR_CLAIM "ac_addr c" "0xFF"]
  by (simp_all add: build_claim_frame_def get_put_u64_le N2K_PGN_ADDR_CLAIM_def)

lemma restart_moves:
  assumes ok: "ac_ok name pref c h" and live: "ac_state c \<noteq> N2K_AC_NULL"
  shows "ac_addr (restart_claim c) \<noteq> ac_addr c"
proof -
  have t: "ac_tries c < 254" and a: "ac_addr c = of_nat ((unat pref + unat (ac_tries c)) mod 254)" and p: "ac_pref_addr c = pref"
    using ok live by (auto simp: ac_ok_def split: n2k_ac_state_t.splits)
  let ?n = "unat pref + unat (ac_tries c)"
  have inj: "(of_nat (i mod 254) :: u8) = of_nat (j mod 254) \<longleftrightarrow> i mod 254 = j mod 254" for i j
    using mod_less_divisor [of 254 i] mod_less_divisor [of 254 j]
    by (simp add: word_unat_eq_iff unat_of_nat take_bit_eq_mod del: mod_less_divisor)
  have null: "(of_nat (i mod 254) :: u8) \<noteq> 254" for i
    using mod_less_divisor [of 254 i] by (simp add: word_unat_eq_iff unat_of_nat take_bit_eq_mod del: mod_less_divisor)
  have "(?n + 1) mod 254 \<noteq> ?n mod 254" by (simp add: mod_Suc)
  show ?thesis
  proof (cases "ac_tries c < 253")
    case True
    then show ?thesis using a p inj [of "?n + 1" ?n] \<open>(?n + 1) mod 254 \<noteq> ?n mod 254\<close> by (simp add: restart_below)
  next
    case False
    then have "ac_tries c = 253" using t by (simp add: word_less_nat_alt word_unat_eq_iff)
    then show ?thesis using a null [of ?n] by (simp add: restart_last N2K_ADDR_NULL_def)
  qed
qed

text \<open>C16 (safety). Two nodes of this code that hold or claim the same address and hear each other's claim part:
  the one with the lower NAME keeps its address and its window and sends its claim again at the
  next tick that has room, the other leaves the address and may not transmit until it has won another.\<close>

theorem contest_resolved:
  assumes "ac_run name_a pref_a a ha" and "ac_run name_b pref_b b hb" and "pref_a < 254" and "pref_b < 254"
    and "ac_state a \<noteq> N2K_AC_NULL" and "ac_state b \<noteq> N2K_AC_NULL" and "ac_addr a = ac_addr b" and "name_a < name_b" and "2 \<le> max_frames"
  shows "let a' = n2k_ac_rx a (fr_id (build_claim_frame b)) (fr_data (build_claim_frame b));
             b' = n2k_ac_rx b (fr_id (build_claim_frame a)) (fr_data (build_claim_frame a)) in
    n2k_ac_address a' = n2k_ac_address a \<and> n2k_ac_ready a' = n2k_ac_ready a \<and> ac_claim_ms a' = ac_claim_ms a \<and>
    build_claim_frame a \<in> set (fst (n2k_ac_tick a' now_ms max_frames)) \<and>
    n2k_ac_address b' \<noteq> n2k_ac_address b \<and> \<not> n2k_ac_ready b'"
proof -
  have oka: "ac_ok name_a pref_a a ha" and okb: "ac_ok name_b pref_b b hb" using assms(1-4) ac_run_ok by blast+
  then have names: "ac_name a < ac_name b" using assms(8) by (simp add: ac_ok_def)
  have a': "n2k_ac_rx a (fr_id (build_claim_frame b)) (fr_data (build_claim_frame b)) = a\<lparr>ac_need_repeat_tx := True\<rparr>"
    using names assms(5,7) by (simp add: n2k_ac_rx_def claim_frame_read order_less_imp_not_less)
  have b': "n2k_ac_rx b (fr_id (build_claim_frame a)) (fr_data (build_claim_frame a)) = restart_claim b"
    using names assms(6,7) by (simp add: n2k_ac_rx_def claim_frame_read)
  have same: "build_claim_frame (a\<lparr>ac_need_repeat_tx := True\<rparr>) = build_claim_frame a" by (simp add: build_claim_frame_def)
  have "build_claim_frame a \<in> set (fst (n2k_ac_tick (a\<lparr>ac_need_repeat_tx := True\<rparr>) now_ms max_frames))"
    using assms(5,9) by (simp add: n2k_ac_tick_def Let_def build_claim_frame_def)
  moreover have "\<not> n2k_ac_ready (restart_claim b)" by (simp add: n2k_ac_ready_def restart_claim_def Let_def)
  ultimately show ?thesis
    using restart_moves [OF okb assms(6)] by (simp add: Let_def a' b' n2k_ac_address_def n2k_ac_ready_def)
qed

theorem contest_resolved_witness:
  "let a = n2k_ac_init 5 35; b = n2k_ac_init 9 35;
       b' = n2k_ac_rx b (fr_id (build_claim_frame a)) (fr_data (build_claim_frame a))
   in n2k_ac_address b' \<noteq> n2k_ac_address b \<and> \<not> n2k_ac_ready b'"
proof -
  have runs: "ac_run 5 35 (n2k_ac_init 5 35) []" "ac_run 9 35 (n2k_ac_init 9 35) []" by (rule ac_run.start)+
  show ?thesis using contest_resolved [OF runs, of 2 0] by (simp add: Let_def n2k_ac_init_def)
qed

end
