(* ===== verification/Scaled_Field.thy ===== *)
theory Scaled_Field
  imports Float_Facts
begin

text \<open>
  The scaled fields of a CAN frame: \<open>llround((double)v / res)\<close>, clamped to the codes of the
  field. The contract every field encoder of \<open>n2k_encode.c\<close> and \<open>rvc_encode.c\<close> keeps is the
  locale \<open>scaled_field\<close>; its laws rest on the rounding error of the \<open>double\<close> quotient.
\<close>

section \<open>The contract\<close>

text \<open>\<open>l < lo ? lo : l > hi ? hi : l\<close>, in the order of the source.\<close>

definition clamp_code :: "int \<Rightarrow> int \<Rightarrow> int \<Rightarrow> int" where
  "clamp_code lo hi l = (let l = (if l < lo then lo else l) in if hi < l then hi else l)"

lemma clamp_code_range: "lo \<le> hi \<Longrightarrow> lo \<le> clamp_code lo hi l \<and> clamp_code lo hi l \<le> hi"
  by (simp add: clamp_code_def Let_def)

lemma clamp_code_id: "lo \<le> l \<Longrightarrow> l \<le> hi \<Longrightarrow> clamp_code lo hi l = l"
  by (simp add: clamp_code_def Let_def)

text \<open>A scaled field of resolution \<open>res\<close> and code \<open>zero\<close> for 0: the code reads back (as \<open>read\<close>
  does) inside the valid span for every finite value, and within 51/100 of a step of a value the
  span covers; a value that is not finite gets the not-available code, which lies outside the span.\<close>

locale scaled_field =
  fixes enc :: "f32 \<Rightarrow> 'w::len word" and read :: "'w word \<Rightarrow> int" and na :: "'w word"
    and lo hi :: int and res :: rat and zero :: int
  assumes live: "isfinite v \<Longrightarrow> lo \<le> read (enc v) \<and> read (enc v) \<le> hi"
    and missing: "\<not> isfinite v \<Longrightarrow> enc v = na"
    and na_outside: "\<not> (lo \<le> read na \<and> read na \<le> hi)"
    and res_pos: "0 < res"
    and accurate: "isfinite v \<Longrightarrow> of_int lo \<le> fval v / res + of_int zero \<Longrightarrow> fval v / res + of_int zero \<le> of_int hi
      \<Longrightarrow> \<bar>of_int (read (enc v)) - (fval v / res + of_int zero)\<bar> \<le> 51 / 100"
begin

lemma na_iff: "enc v = na \<longleftrightarrow> \<not> isfinite v"
  using live [of v] missing [of v] na_outside by auto

lemma decodes:
  assumes "isfinite v" "of_int (lo - zero) * res \<le> fval v" "fval v \<le> of_int (hi - zero) * res"
  shows "\<bar>of_int (read (enc v) - zero) * res - fval v\<bar> \<le> 51 / 100 * res"
proof -
  have "of_int (lo - zero) \<le> fval v / res" "fval v / res \<le> of_int (hi - zero)"
    using assms(2,3) res_pos by (simp_all add: pos_le_divide_eq pos_divide_le_eq)
  then have "\<bar>of_int (read (enc v)) - (fval v / res + of_int zero)\<bar> \<le> 51 / 100"
    using assms(1) by (intro accurate) simp_all
  then have "\<bar>of_int (read (enc v)) - (fval v / res + of_int zero)\<bar> * res \<le> 51 / 100 * res"
    using res_pos by (intro mult_right_mono) simp_all
  moreover have "\<bar>of_int (read (enc v)) - (fval v / res + of_int zero)\<bar> * res
      = \<bar>(of_int (read (enc v)) - (fval v / res + of_int zero)) * res\<bar>" using res_pos by (simp add: abs_mult)
  moreover have "(of_int (read (enc v)) - (fval v / res + of_int zero)) * res = of_int (read (enc v) - zero) * res - fval v"
    using res_pos by (simp add: algebra_simps)
  ultimately show ?thesis by simp
qed

end

section \<open>Quantising a float at double precision\<close>

text \<open>A \<open>double\<close> literal, and \<open>llround((double)v / res)\<close>.\<close>

definition dlit :: "rat \<Rightarrow> fp" where
  "dlit r = fp_round double_fmt False r"

definition quantise :: "int \<Rightarrow> f32 \<Rightarrow> fp \<Rightarrow> int" where
  "quantise oor v res = llround oor (fp_div double_fmt (fpv v) res)"

text \<open>The error of the quantiser: the quotient of two roundings is off by less than 1/100 of a
  step for any code below \<open>2 ^ 32\<close>, and \<open>llround\<close> adds at most half a step.\<close>

lemma round_away_error: "\<bar>of_int (round_away x) - x\<bar> \<le> 1 / 2"
  unfolding round_away_def abs_le_iff
  by (auto simp: of_int_floor_le; use floor_correct [of "1 / 2 - x"] floor_correct [of "x + 1 / 2"] in linarith)

lemma llround_near:
  assumes "\<bar>v\<bar> \<le> 2 ^ 62"
  shows "\<bar>of_int (llround oor (FpFin s v)) - v\<bar> \<le> 1 / 2"
proof -
  have "\<bar>of_int (round_away v) :: rat\<bar> \<le> 2 ^ 62 + 1 / 2"
    using round_away_error [of v] assms by linarith
  then have "of_int (round_away v) < (of_int (2 ^ 63) :: rat)" "of_int (- (2 ^ 63)) \<le> (of_int (round_away v) :: rat)"
    by (simp_all add: abs_le_iff)
  then have "round_away v < 2 ^ 63" "- (2 ^ 63) \<le> round_away v" by linarith+
  then show ?thesis using round_away_error [of v] by (simp add: llround_def)
qed

lemma tiny_52: "(2 :: rat) powi (-52) \<le> 1 / 2"
  using powi2_mono [of "-52" "-1"] by simp

lemma dlit_value:
  assumes "2 powi (-20) \<le> r" "r \<le> 2 powi 20"
  obtains d where "dlit r = FpFin False d" "\<bar>d - r\<bar> \<le> 2 powi (-52) * r" "0 < d"
proof -
  have r: "0 < r" using assms(1) powi2_pos [of "-20"] by linarith
  have e: "\<bar>round_rat double_fmt r - r\<bar> \<le> 2 powi (-52) * r"
  proof -
    have "(2 :: rat) powi (-1075) \<le> 2 powi (-53) * 2 powi (-20)" by (simp flip: power_int_add)
    also have "\<dots> \<le> 2 powi (-53) * r" using assms(1) by (intro mult_left_mono) simp_all
    finally have "\<bar>round_rat double_fmt r - r\<bar> \<le> 2 powi (-53) * r + 2 powi (-53) * r"
      using round_double_error [of r] r by simp
    also have "\<dots> = 2 powi (-52) * r" using powi2_Suc [of "-53"] by simp
    finally show ?thesis .
  qed
  have s: "(2 :: rat) powi (-52) * r \<le> 1 / 2 * r" using r tiny_52 by (intro mult_right_mono) simp_all
  have pos: "0 < round_rat double_fmt r" using e s r by linarith
  have "round_rat double_fmt r \<le> 2 * r" using e s r by linarith
  also have "\<dots> \<le> 2 powi 21" using assms(2) powi2_Suc [of 20] by simp
  also have "\<dots> < 2 powi 1024" by simp
  finally have "\<bar>round_rat double_fmt r\<bar> < 2 powi 1024" using pos by simp
  then have "dlit r = FpFin False (round_rat double_fmt r)"
    using r by (simp add: dlit_def fp_round_def Let_def double_fmt_def)
  then show ?thesis using that e pos by blast
qed

lemma quotient_error:
  fixes x r d :: rat
  assumes d: "\<bar>d - r\<bar> \<le> 2 powi (-52) * r" "0 < d" and r: "0 < r"
  shows "\<bar>x / d - x / r\<bar> \<le> 2 powi (-51) * \<bar>x / r\<bar>"
proof -
  have s: "(2 :: rat) powi (-52) * r \<le> 1 / 2 * r" using r tiny_52 by (intro mult_right_mono) simp_all
  have half: "r \<le> 2 * d" using d(1) s r by linarith
  have "x / d - x / r = (x / r) * ((r - d) / d)" using r d(2) by (simp add: field_simps)
  then have "\<bar>x / d - x / r\<bar> = \<bar>x / r\<bar> * (\<bar>d - r\<bar> / d)" using d(2) by (simp add: abs_mult abs_divide abs_minus_commute)
  moreover have "\<bar>d - r\<bar> / d \<le> 2 powi (-51)"
  proof -
    have "\<bar>d - r\<bar> \<le> 2 powi (-52) * r" by (rule d(1))
    also have "\<dots> \<le> 2 powi (-52) * (2 * d)" using half by (intro mult_left_mono) simp_all
    also have "\<dots> = 2 powi (-51) * d" using powi2_Suc [of "-52"] by simp
    finally show ?thesis using d(2) by (simp add: pos_divide_le_eq)
  qed
  ultimately have "\<bar>x / d - x / r\<bar> \<le> \<bar>x / r\<bar> * 2 powi (-51)"
    using mult_left_mono [of "\<bar>d - r\<bar> / d" "2 powi (-51)" "\<bar>x / r\<bar>"] by (simp only: abs_ge_zero)
  then show ?thesis by (simp only: mult.commute)
qed

lemma double_near:
  fixes y z :: rat
  assumes y: "\<bar>y - z\<bar> \<le> 2 powi (-51) * \<bar>z\<bar>" and z: "\<bar>z\<bar> \<le> 2 powi 32"
  shows "\<bar>of_int (llround oor (fp_round double_fmt s y)) - z\<bar> \<le> 51 / 100"
proof -
  have m: "(2 :: rat) powi (-51) * \<bar>z\<bar> \<le> 2 powi (-19)"
  proof -
    have "(2 :: rat) powi (-51) * \<bar>z\<bar> \<le> 2 powi (-51) * 2 powi 32" using z by (intro mult_left_mono) simp_all
    then show ?thesis by (simp flip: power_int_add)
  qed
  have small: "(2 :: rat) powi (-19) = 1 / 524288" by (simp add: power_int_def divide_simps)
  have yb: "\<bar>y\<bar> \<le> 2 powi 33" using y z m small powi2_Suc [of 32] by (simp add: power_int_def abs_le_iff)
  have e: "\<bar>round_rat double_fmt y - y\<bar> \<le> 2 powi (-19)"
  proof -
    have "(2 :: rat) powi (-53) * \<bar>y\<bar> \<le> 2 powi (-53) * 2 powi 33" using yb by (intro mult_left_mono) simp_all
    then have "(2 :: rat) powi (-53) * \<bar>y\<bar> \<le> 2 powi (-20)" by (simp flip: power_int_add)
    moreover have "(2 :: rat) powi (-1075) \<le> 2 powi (-20)" by simp
    moreover have "(2 :: rat) powi (-19) = 2 * 2 powi (-20)" using powi2_Suc [of "-20"] by simp
    ultimately show ?thesis using round_double_error [of y] by linarith
  qed
  have rb: "\<bar>round_rat double_fmt y\<bar> \<le> 2 ^ 62" using e yb small by (simp add: power_int_def abs_le_iff)
  then have "\<bar>round_rat double_fmt y\<bar> < 2 powi 1024"
    by (rule order_le_less_trans) (simp add: powi2_nat)
  then have "fp_round double_fmt s y = FpFin (if y = 0 then s else y < 0) (round_rat double_fmt y)"
    by (simp add: fp_round_def Let_def double_fmt_def)
  then have "\<bar>of_int (llround oor (fp_round double_fmt s y)) - round_rat double_fmt y\<bar> \<le> 1 / 2"
    using llround_near [OF rb] by simp
  then show ?thesis using e y m small by linarith
qed

lemma quantise_near:
  assumes v: "isfinite v" and r: "2 powi (-20) \<le> r" "r \<le> 2 powi 20" and z: "\<bar>fval v / r\<bar> \<le> 2 powi 32"
  shows "\<bar>of_int (quantise oor v (dlit r)) - fval v / r\<bar> \<le> 51 / 100"
proof -
  obtain d where d: "dlit r = FpFin False d" "\<bar>d - r\<bar> \<le> 2 powi (-52) * r" "0 < d"
    using dlit_value [OF r] .
  obtain s where "fpv v = FpFin s (fval v)" using v by (rule isfinite_obtain)
  then have "quantise oor v (dlit r) = llround oor (fp_round double_fmt s (fval v / d))"
    using d by (simp add: quantise_def)
  moreover have "0 < r" using r(1) powi2_pos [of "-20"] by linarith
  ultimately show ?thesis using double_near [OF quotient_error [OF d(2,3)] z] by simp
qed

text \<open>Clamping an accurate code to a span that covers the value keeps it accurate.\<close>

lemma clamp_near:
  assumes "\<bar>of_int l - x\<bar> \<le> (51 / 100 :: rat)" "of_int lo \<le> x" "x \<le> of_int hi"
  shows "\<bar>of_int (clamp_code lo hi l) - x\<bar> \<le> 51 / 100"
  using assms by (auto simp: clamp_code_def Let_def)

end
