(* ===== verification/Telemetry.thy ===== *)
theory Telemetry
  imports Engine_Props
begin

text \<open>
  The dialect-neutral snapshot, \<open>control/Src/telemetry.c\<close> and \<open>control/Inc/telemetry.h\<close>: what
  the encoders and the JSON line report about a tick.
\<close>

record ctrl_telemetry_t =
  t_state :: ctrl_state_t
  t_standby_reason :: ctrl_standby_reason_t
  t_active_profile_id :: u8
  t_field_effort :: f32
  t_binding :: ctrl_bind_src_t
  t_binding_w :: f32
  t_faults :: u32
  t_severity :: ctrl_severity_t
  t_cells_series :: u8
  t_vbat_pack_v :: f32
  t_v_cell :: f32
  t_amps_batt :: f32
  t_watts_batt :: f32
  t_alt_temp_c :: f32
  t_batt_temp_c :: f32
  t_batt_temp_armed :: bool
  t_rpm :: f32
  t_rpm_state :: ctrl_rpm_state_t

definition ctrl_build_telemetry ::
    "ctrl_measured_t \<Rightarrow> ctrl_command_t \<Rightarrow> ctrl_globals_t \<Rightarrow> ctrl_profile_t \<Rightarrow> ctrl_telemetry_t" where
  "ctrl_build_telemetry m cmd g prof = \<lparr>
     t_state = cmd_state cmd,
     t_standby_reason = cmd_standby_reason cmd,
     t_active_profile_id = p_id prof,
     t_field_effort = cmd_field_effort cmd,
     t_binding = cmd_binding cmd,
     t_binding_w = cmd_binding_w cmd,
     t_faults = cmd_faults cmd,
     t_severity = ctrl_fault_severity (cmd_faults cmd),
     t_cells_series = g_cells_series g,
     t_vbat_pack_v = m_vbat_pack_v m,
     t_v_cell = (if g_cells_series g \<noteq> 0 then m_vbat_pack_v m / float_u8 (g_cells_series g) else NAN),
     t_amps_batt = m_amps_batt m,
     t_watts_batt = m_watts_batt m,
     t_alt_temp_c = m_alt_hotspot_c m,
     t_batt_temp_c = m_batt_temp_c m,
     t_batt_temp_armed = (\<not> isnan (m_batt_temp_c m)),
     t_rpm = m_rpm m,
     t_rpm_state = m_rpm_state m\<rparr>"

lemma tick_faults_window:
  assumes "isnan (m_batt_temp_c m)"
  shows "tick_faults l m g b AND (CTRL_FAULT_BATT_LOWTEMP OR CTRL_FAULT_BATT_HIGHTEMP)
    = m_ext_faults m AND (CTRL_FAULT_BATT_LOWTEMP OR CTRL_FAULT_BATT_HIGHTEMP)"
proof -
  have t: "\<not> m_batt_temp_c m \<le> BATT_LOW_C" "\<not> BATT_HIGH_C \<le> m_batt_temp_c m"
    using assms by (simp_all add: f32_nan_less)
  have d: "(x OR y) AND w = (x AND w) OR (y AND w)" for x y w :: u32
    by (simp add: and.commute bit.conj_disj_distrib)
  have i: "(if P then x else 0) AND w = (if P then x AND w else 0)" for P and x w :: u32 by simp
  have l: "(l AND CTRL_FAULT_OPEN_MASK) AND (CTRL_FAULT_BATT_LOWTEMP OR CTRL_FAULT_BATT_HIGHTEMP) = 0"
    unfolding and.assoc by (simp add: fault_masks)
  show ?thesis unfolding tick_faults_or d i l by (simp add: t)
qed

text \<open>The report of the charge-temperature window is honest: when the snapshot of a
  tick shows the window unarmed, the low- and high-temperature faults it reports come from
  outside the engine only (the window did not and could not act); when it shows it armed, a
  reading at or below 0 C or at or above 55 C has opened the field in that very tick, and the
  severity shown is that of the faults shown.\<close>

theorem telemetry_window_honest:
  assumes "cmd = snd (ctrl_tick c m ceil prof g dt)" and "t = ctrl_build_telemetry m cmd g prof"
  shows "(if t_batt_temp_armed t
     then \<not> (t_batt_temp_c t \<le> BATT_LOW_C \<or> BATT_HIGH_C \<le> t_batt_temp_c t) \<or> field_off cmd
     else t_faults t AND (CTRL_FAULT_BATT_LOWTEMP OR CTRL_FAULT_BATT_HIGHTEMP)
        = m_ext_faults m AND (CTRL_FAULT_BATT_LOWTEMP OR CTRL_FAULT_BATT_HIGHTEMP)) \<and>
    t_severity t = ctrl_fault_severity (t_faults t)"
proof -
  have "field_off cmd" if "t_batt_temp_c t \<le> BATT_LOW_C \<or> BATT_HIGH_C \<le> t_batt_temp_c t"
  proof -
    have "temp_blocked m g" using that by (auto simp: assms(2) ctrl_build_telemetry_def temp_blocked_def)
    then have "\<not> tick_enable (tick_fault_word c m g dt) m"
      using tick_faults_block by (auto simp: tick_enable_def tick_fault_word_def)
    then show ?thesis unfolding assms(1) by (intro standby_off mid_disabled)
  qed
  then show ?thesis using tick_faults_window [of m "c_faults c" g]
    by (auto simp: assms ctrl_build_telemetry_def tick_fault_word_def)
qed

theorem telemetry_window_honest_witness:
  "t_severity (ctrl_build_telemetry (sample_m\<lparr>m_batt_temp_c := NAN\<rparr>)
      (snd (ctrl_tick ctrl_init (sample_m\<lparr>m_batt_temp_c := NAN\<rparr>) sample_ceil sample_prof sample_g 10)) sample_g sample_prof)
    = ctrl_fault_severity (t_faults (ctrl_build_telemetry (sample_m\<lparr>m_batt_temp_c := NAN\<rparr>)
      (snd (ctrl_tick ctrl_init (sample_m\<lparr>m_batt_temp_c := NAN\<rparr>) sample_ceil sample_prof sample_g 10)) sample_g sample_prof))"
  using telemetry_window_honest [OF refl refl] by blast

text \<open>A pack at 27.5 V charging with 40 A, the shaft at 3000 rpm, an over-temperature warning active.\<close>

definition sample_telemetry :: ctrl_telemetry_t where
  "sample_telemetry = \<lparr>t_state = CTRL_BULK, t_standby_reason = CTRL_SB_OFF, t_active_profile_id = 1,
     t_field_effort = F32 0x3F000000, t_binding = CTRL_BIND_STAGE, t_binding_w = F32 0x44898000,
     t_faults = CTRL_FAULT_SELF_OVERTEMP, t_severity = CTRL_SEV_WARN, t_cells_series = 8, t_vbat_pack_v = F32 0x41DC0000,
     t_v_cell = F32 0x405C0000, t_amps_batt = F32 0x42200000, t_watts_batt = F32 0x44898000, t_alt_temp_c = F32 0x42A00000,
     t_batt_temp_c = NAN, t_batt_temp_armed = False, t_rpm = F32 0x453B8000, t_rpm_state = CTRL_RPM_VALID\<rparr>"

lemma sample_readings:
  "isfinite (F32 0x41DC0000) \<and> fval (F32 0x41DC0000) = 55 / 2"
  "isfinite (F32 0x42200000) \<and> fval (F32 0x42200000) = 40"
  "isfinite (F32 0x453B8000) \<and> fval (F32 0x453B8000) = 3000"
  by (simp_all add: isfinite_def fval_def fkey_def fpv_def fp_unpack_def fp_finite_def Let_def)

end
