(* ===== verification/N2k_Encode.thy ===== *)
theory N2k_Encode
  imports Can_Frame Scaled_Field Telemetry
begin

text \<open>
  The NMEA 2000 encoders, \<open>control/Src/n2k_encode.c\<close> and \<open>control/Inc/n2k_encode.h\<close>: snapshot to
  frames. An encoder gives the frames it writes, or \<open>None\<close> for -1; its \<open>out\<close> and snapshot
  pointers are valid objects. A C string is its bytes before the terminating zero. \<open>oor\<close> is
  what \<open>llround\<close> returns when its argument does not fit a \<open>long long\<close>, which the C standard
  leaves open.
\<close>

section \<open>Little-endian primitives\<close>

definition nput_u8 :: "u8 \<Rightarrow> u8 list" where "nput_u8 v = [v]"

definition nput_u16 :: "u16 \<Rightarrow> u8 list" where
  "nput_u16 v = [ucast (v AND 0xFF), ucast (drop_bit 8 v AND 0xFF)]"

definition nput_u32 :: "u32 \<Rightarrow> u8 list" where
  "nput_u32 v = nput_u16 (ucast (v AND 0xFFFF)) @ nput_u16 (ucast (drop_bit 16 v AND 0xFFFF))"

definition nput_u64 :: "u64 \<Rightarrow> u8 list" where
  "nput_u64 v = nput_u32 (ucast (v AND 0xFFFFFFFF)) @ nput_u32 (ucast (drop_bit 32 v AND 0xFFFFFFFF))"

lemma nput_lengths [wire_simps]:
  "length (nput_u8 a) = 1" "length (nput_u16 b) = 2" "length (nput_u32 c) = 4" "length (nput_u64 d) = 8"
  by (simp_all add: nput_u8_def nput_u16_def nput_u32_def nput_u64_def)

section \<open>Scaled fields\<close>

definition N2K_NA_U8 :: u8 where "N2K_NA_U8 = 0xFF"
definition N2K_NA_U16 :: u16 where "N2K_NA_U16 = 0xFFFF"
definition N2K_NA_S16 :: u16 where "N2K_NA_S16 = 0x7FFF"

definition enc_u16 :: "int \<Rightarrow> f32 \<Rightarrow> fp \<Rightarrow> u16" where
  "enc_u16 oor v res = (if \<not> isfinite v then N2K_NA_U16 else of_int (clamp_code 0 0xFFFC (quantise oor v res)))"

definition enc_s16 :: "int \<Rightarrow> f32 \<Rightarrow> fp \<Rightarrow> u16" where
  "enc_s16 oor v res = (if \<not> isfinite v then N2K_NA_S16 else of_int (clamp_code (-32768) 0x7FFC (quantise oor v res)))"

definition enc_temp_c :: "int \<Rightarrow> f32 \<Rightarrow> u16" where
  "enc_temp_c oor c = enc_u16 oor (c + flit (27315 / 100)) (dlit (1 / 100))"

definition enc_effort :: "int \<Rightarrow> f32 \<Rightarrow> u8" where
  "enc_effort oor e = (if \<not> isfinite e then N2K_NA_U8
     else of_int (clamp_code 0 200 (llround oor (fp_mul double_fmt (fpv e) (dlit 200)))))"

text \<open>The fields keep the contract: voltage, current, shaft speed, power and effort at their
  resolutions.\<close>

lemma uint_code: "0 \<le> k \<Longrightarrow> k \<le> 0xFFFC \<Longrightarrow> uint (of_int k :: u16) = k"
  by (simp add: unsigned_of_int take_bit_int_eq_self)

lemma sint_code: "-32768 \<le> k \<Longrightarrow> k \<le> 0x7FFC \<Longrightarrow> sint (of_int k :: u16) = k"
  by (simp add: sint_sbintrunc' signed_take_bit_int_eq_self)

lemma u16_field:
  assumes "2 powi (-20) \<le> r" "r \<le> 2 powi 20"
  shows "scaled_field (\<lambda>v. enc_u16 oor v (dlit r)) uint N2K_NA_U16 0 0xFFFC r 0"
proof
  fix v assume fin: "isfinite v"
  have span: "0 \<le> clamp_code 0 0xFFFC l \<and> clamp_code 0 0xFFFC l \<le> 0xFFFC" for l by (rule clamp_code_range) simp
  then have code: "uint (enc_u16 oor v (dlit r)) = clamp_code 0 0xFFFC (quantise oor v (dlit r))"
    using fin uint_code by (simp add: enc_u16_def)
  then show "0 \<le> uint (enc_u16 oor v (dlit r)) \<and> uint (enc_u16 oor v (dlit r)) \<le> 0xFFFC" using span by simp
  assume "of_int 0 \<le> fval v / r + of_int 0" "fval v / r + of_int 0 \<le> of_int 0xFFFC"
  then have z: "0 \<le> fval v / r" "fval v / r \<le> 0xFFFC" by simp_all
  have "\<bar>of_int (quantise oor v (dlit r)) - fval v / r\<bar> \<le> 51 / 100"
    using fin assms z by (intro quantise_near) (simp_all add: powi2_nat)
  then show "\<bar>of_int (uint (enc_u16 oor v (dlit r))) - (fval v / r + of_int 0)\<bar> \<le> 51 / 100"
    using z clamp_near [where l = "quantise oor v (dlit r)" and x = "fval v / r" and lo = 0 and hi = "0xFFFC"] code by simp
qed (use assms powi2_pos [of "-20"] in \<open>auto simp: enc_u16_def N2K_NA_U16_def\<close>)

lemma s16_field:
  assumes "2 powi (-20) \<le> r" "r \<le> 2 powi 20"
  shows "scaled_field (\<lambda>v. enc_s16 oor v (dlit r)) sint N2K_NA_S16 (-32768) 0x7FFC r 0"
proof
  fix v assume fin: "isfinite v"
  have span: "-32768 \<le> clamp_code (-32768) 0x7FFC l \<and> clamp_code (-32768) 0x7FFC l \<le> 0x7FFC" for l
    by (rule clamp_code_range) simp
  then have code: "sint (enc_s16 oor v (dlit r)) = clamp_code (-32768) 0x7FFC (quantise oor v (dlit r))"
    using fin sint_code by (simp add: enc_s16_def)
  then show "-32768 \<le> sint (enc_s16 oor v (dlit r)) \<and> sint (enc_s16 oor v (dlit r)) \<le> 0x7FFC" using span by simp
  assume "of_int (-32768) \<le> fval v / r + of_int 0" "fval v / r + of_int 0 \<le> of_int 0x7FFC"
  then have z: "-32768 \<le> fval v / r" "fval v / r \<le> 0x7FFC" by simp_all
  have "\<bar>of_int (quantise oor v (dlit r)) - fval v / r\<bar> \<le> 51 / 100"
    using fin assms z by (intro quantise_near) (simp_all add: powi2_nat)
  then show "\<bar>of_int (sint (enc_s16 oor v (dlit r))) - (fval v / r + of_int 0)\<bar> \<le> 51 / 100"
    using z clamp_near [where l = "quantise oor v (dlit r)" and x = "fval v / r" and lo = "-32768" and hi = "0x7FFC"] code by simp
qed (use assms powi2_pos [of "-20"] in \<open>auto simp: enc_s16_def N2K_NA_S16_def\<close>)

lemma resolutions:
  "2 powi (-20) \<le> (1 / 100 :: rat)" "2 powi (-20) \<le> (1 / 10 :: rat)" "2 powi (-20) \<le> (1 / 4 :: rat)"
  "2 powi (-20) \<le> (1 :: rat)" "(1 :: rat) \<le> 2 powi 20"
  by (simp_all add: power_int_def divide_simps)

interpretation volts: scaled_field "\<lambda>v. enc_s16 oor v (dlit (1 / 100))" sint N2K_NA_S16 "-32768" "0x7FFC" "1 / 100" 0 for oor
  by (rule s16_field) (use resolutions in linarith)+

interpretation amps: scaled_field "\<lambda>v. enc_s16 oor v (dlit (1 / 10))" sint N2K_NA_S16 "-32768" "0x7FFC" "1 / 10" 0 for oor
  by (rule s16_field) (use resolutions in linarith)+

interpretation speed: scaled_field "\<lambda>v. enc_u16 oor v (dlit (1 / 4))" uint N2K_NA_U16 0 "0xFFFC" "1 / 4" 0 for oor
  by (rule u16_field) (use resolutions in linarith)+

interpretation watts: scaled_field "\<lambda>v. enc_u16 oor v (dlit 1)" uint N2K_NA_U16 0 "0xFFFC" 1 0 for oor
  by (rule u16_field) (use resolutions in linarith)+

section \<open>Frames\<close>

definition PRI_RAPID :: u8 where "PRI_RAPID = 2"
definition PRI_ALERT :: u8 where "PRI_ALERT = 2"
definition PRI_STATUS :: u8 where "PRI_STATUS = 6"

definition n2k_single :: "u32 \<Rightarrow> u8 list \<Rightarrow> n2k_frame_t list option" where
  "n2k_single cid bytes = Some [\<lparr>fr_id = cid, fr_dlc = 8, fr_data = bytes\<rparr>]"

definition n2k_encode_127508 :: "int \<Rightarrow> ctrl_telemetry_t \<Rightarrow> u8 \<Rightarrow> u8 \<Rightarrow> u8 \<Rightarrow> n2k_frame_t list option" where
  "n2k_encode_127508 oor t instnce sid src =
     n2k_single (n2k_can_id PRI_STATUS 127508 src 0xFF)
       (nput_u8 instnce @ nput_u16 (enc_s16 oor (t_vbat_pack_v t) (dlit (1 / 100)))
        @ nput_u16 (enc_s16 oor (t_amps_batt t) (dlit (1 / 10))) @ nput_u16 (enc_temp_c oor (t_batt_temp_c t)) @ nput_u8 sid)"

definition n2k_encode_127506 :: "ctrl_telemetry_t \<Rightarrow> u8 \<Rightarrow> u8 \<Rightarrow> u8 \<Rightarrow> u8 \<Rightarrow> nat \<Rightarrow> n2k_frame_t list option" where
  "n2k_encode_127506 t instnce sid src seq max_frames =
     n2k_fp_split (n2k_can_id PRI_STATUS 127506 src 0xFF) seq
       (nput_u8 sid @ nput_u8 instnce @ nput_u8 0 @ nput_u8 N2K_NA_U8 @ nput_u8 N2K_NA_U8
        @ nput_u16 N2K_NA_U16 @ nput_u16 N2K_NA_U16 @ nput_u16 N2K_NA_U16) max_frames"

definition rpm_or_blank :: "ctrl_telemetry_t \<Rightarrow> f32" where
  "rpm_or_blank t = (if t_rpm_state t = CTRL_RPM_VALID then t_rpm t else NAN)"

definition n2k_encode_127488 :: "int \<Rightarrow> ctrl_telemetry_t \<Rightarrow> u8 \<Rightarrow> u8 \<Rightarrow> n2k_frame_t list option" where
  "n2k_encode_127488 oor t instnce src =
     n2k_single (n2k_can_id PRI_RAPID 127488 src 0xFF)
       (nput_u8 instnce @ nput_u16 (enc_u16 oor (rpm_or_blank t) (dlit (1 / 4))) @ nput_u16 N2K_NA_U16
        @ nput_u8 0x7F @ nput_u8 0xFF @ nput_u8 0xFF)"

definition n2k_operating_state :: "ctrl_telemetry_t \<Rightarrow> u8" where
  "n2k_operating_state t =
     (if CTRL_SEV_FAULT \<le> t_severity t then 2
      else if t_state t = CTRL_BULK then (if t_binding t = CTRL_BIND_VOLTAGE_CLAMP then 4 else 3)
      else if t_state t = CTRL_FLOAT then 5 else 0)"

definition n2k_temp_state :: "ctrl_telemetry_t \<Rightarrow> u8" where
  "n2k_temp_state t =
     (if t_faults t AND (CTRL_FAULT_SELF_OVERTEMP OR CTRL_FAULT_BATT_HIGHTEMP OR CTRL_FAULT_DRIVER_OVERTEMP) \<noteq> 0 then 2
      else if t_binding t = CTRL_BIND_THERMAL \<or> t_binding t = CTRL_BIND_DRIVER_THERMAL then 1 else 0)"

definition n2k_encode_127750 :: "ctrl_telemetry_t \<Rightarrow> u8 \<Rightarrow> u8 \<Rightarrow> u8 \<Rightarrow> n2k_frame_t list option" where
  "n2k_encode_127750 t connection sid src =
     n2k_single (n2k_can_id PRI_STATUS 127750 src 0xFF)
       (nput_u8 sid @ nput_u8 connection @ nput_u8 (n2k_operating_state t)
        @ nput_u8 (n2k_temp_state t OR push_bit 2 0 OR push_bit 4 0 OR push_bit 6 3)
        @ replicate 4 0xFF)"

section \<open>Alerts\<close>

definition alert_type_for :: "ctrl_severity_t \<Rightarrow> u8" where
  "alert_type_for sev = (case sev of CTRL_SEV_CRITICAL \<Rightarrow> 1 | CTRL_SEV_FAULT \<Rightarrow> 2 | CTRL_SEV_WARN \<Rightarrow> 5 | _ \<Rightarrow> 8)"

definition alert_prio_for :: "ctrl_severity_t \<Rightarrow> u8" where
  "alert_prio_for sev = (case sev of CTRL_SEV_CRITICAL \<Rightarrow> 1 | CTRL_SEV_FAULT \<Rightarrow> 32 | CTRL_SEV_WARN \<Rightarrow> 128 | _ \<Rightarrow> 200)"

record n2k_alert_t =
  al_type :: u8
  al_category :: u8
  al_system :: u8
  al_subsystem :: u8
  al_alert_id :: u16
  al_source_name :: u64
  al_source_instance :: u8
  al_source_index :: u8
  al_occurrence :: u8
  al_trigger :: u8
  al_threshold_status :: u8
  al_priority :: u8
  al_state :: u8

text \<open>The alert, or \<open>None\<close> for the return value 0.\<close>

definition n2k_alert_from_telemetry :: "ctrl_telemetry_t \<Rightarrow> u64 \<Rightarrow> n2k_alert_t option" where
  "n2k_alert_from_telemetry t device_name =
     (if t_faults t = 0 then None
      else let code = ctrl_fault_top_code (t_faults t);
               best = ctrl_fault_severity (push_bit (code - 1) 1)
           in Some \<lparr>al_type = alert_type_for best, al_category = 1, al_system = 0, al_subsystem = 0,
                al_alert_id = of_nat code, al_source_name = device_name, al_source_instance = 0, al_source_index = 0,
                al_occurrence = 1, al_trigger = 2, al_threshold_status = 1, al_priority = alert_prio_for best, al_state = 2\<rparr>)"

definition n2k_alert_text :: "u32 \<Rightarrow> string" where
  "n2k_alert_text fault_bit =
     (if fault_bit = CTRL_FAULT_OVERVOLTAGE then ''Battery overvoltage - field opened''
      else if fault_bit = CTRL_FAULT_FIELD_SHORT then ''Field driver short - field opened''
      else if fault_bit = CTRL_FAULT_FIELD_OPEN then ''Field circuit open''
      else if fault_bit = CTRL_FAULT_FIELD_OVERCUR then ''Field overcurrent - field opened''
      else if fault_bit = CTRL_FAULT_SELF_OVERTEMP then ''Regulator over temperature''
      else if fault_bit = CTRL_FAULT_OVERSPEED then ''Alternator overspeed - field opened''
      else if fault_bit = CTRL_FAULT_SHUNT_OPEN then ''Current shunt open circuit''
      else if fault_bit = CTRL_FAULT_SHUNT_REVERSED then ''Current shunt reversed''
      else if fault_bit = CTRL_FAULT_BATT_DTDT then ''Battery heating too fast - charge aborted''
      else if fault_bit = CTRL_FAULT_BATT_LOWTEMP then ''Battery too cold to charge''
      else if fault_bit = CTRL_FAULT_BATT_HIGHTEMP then ''Battery too hot - charge aborted''
      else if fault_bit = CTRL_FAULT_LOST_VBAT_SENSE then ''Lost battery voltage sense - limp home''
      else if fault_bit = CTRL_FAULT_LOST_BMS then ''Lost BMS communication - limp home''
      else if fault_bit = CTRL_FAULT_IMPLAUSIBLE_SHUNT then ''Implausible shunt reading - limp home''
      else if fault_bit = CTRL_FAULT_THERMAL_DIVERGE then ''Thermal model divergence''
      else if fault_bit = CTRL_FAULT_WATCHDOG then ''Watchdog reset - field opened''
      else if fault_bit = CTRL_FAULT_VSUP_IMPLAUSIBLE then ''Field supply reading distrusted''
      else if fault_bit = CTRL_FAULT_BATT_TEMP_REQUIRED then ''Battery temp required - charge blocked''
      else if fault_bit = CTRL_FAULT_DRIVER_OVERTEMP then ''Driver over-temp - field opened''
      else ''unknown fault'')"

definition put_alert_ident :: "n2k_alert_t \<Rightarrow> u8 list" where
  "put_alert_ident a = nput_u8 ((al_type a AND 0x0F) OR push_bit 4 (al_category a AND 0x0F)) @ nput_u8 (al_system a)
     @ nput_u8 (al_subsystem a) @ nput_u16 (al_alert_id a) @ nput_u64 (al_source_name a) @ nput_u8 (al_source_instance a)
     @ nput_u8 (al_source_index a) @ nput_u8 (al_occurrence a)"

definition n2k_encode_126983 :: "n2k_alert_t \<Rightarrow> u8 \<Rightarrow> u8 \<Rightarrow> nat \<Rightarrow> n2k_frame_t list option" where
  "n2k_encode_126983 a src seq max_frames =
     n2k_fp_split (n2k_can_id PRI_ALERT 126983 src 0xFF) seq
       (put_alert_ident a @ nput_u8 0xC0 @ nput_u64 (-1)
        @ nput_u8 ((al_trigger a AND 0x0F) OR push_bit 4 (al_threshold_status a AND 0x0F))
        @ nput_u8 (al_priority a) @ nput_u8 (al_state a)) max_frames"

text \<open>Strings: the bytes written so far come first; \<open>None\<close> is the return value -1.\<close>

definition put_var_str :: "nat \<Rightarrow> u8 list \<Rightarrow> cstr \<Rightarrow> u8 list option" where
  "put_var_str cap b s =
     (let chars = (case s of Some cs \<Rightarrow> cs | None \<Rightarrow> []); n = length chars
      in if 253 < n \<or> cap < length b + n + 2 then None
         else Some (b @ [of_nat (n + 2), 0x01] @ chars))"

definition n2k_encode_126985 :: "n2k_alert_t \<Rightarrow> cstr \<Rightarrow> cstr \<Rightarrow> u8 \<Rightarrow> u8 \<Rightarrow> nat \<Rightarrow> n2k_frame_t list option" where
  "n2k_encode_126985 a description location src seq max_frames =
     (case put_var_str N2K_FP_MAX_PAYLOAD (put_alert_ident a @ nput_u8 0) description of
        None \<Rightarrow> None
      | Some p \<Rightarrow> (case put_var_str N2K_FP_MAX_PAYLOAD p location of
          None \<Rightarrow> None
        | Some p \<Rightarrow> n2k_fp_split (n2k_can_id PRI_ALERT 126985 src 0xFF) seq p max_frames))"

section \<open>Product and configuration information\<close>

record n2k_product_info_t =
  pi_n2k_version :: u16
  pi_product_code :: u16
  pi_model_id :: cstr
  pi_sw_version :: cstr
  pi_model_version :: cstr
  pi_serial :: cstr
  pi_cert_level :: u8
  pi_load_equiv :: u8

definition put_fixed_str :: "cstr \<Rightarrow> nat \<Rightarrow> u8 list" where
  "put_fixed_str s n = (let cs = take n (case s of Some cs \<Rightarrow> cs | None \<Rightarrow> []) in cs @ replicate (n - length cs) 0x20)"

definition n2k_encode_126996 :: "n2k_product_info_t \<Rightarrow> u8 \<Rightarrow> u8 \<Rightarrow> nat \<Rightarrow> n2k_frame_t list option" where
  "n2k_encode_126996 p src seq max_frames =
     n2k_fp_split (n2k_can_id PRI_STATUS 126996 src 0xFF) seq
       (nput_u16 (pi_n2k_version p) @ nput_u16 (pi_product_code p) @ put_fixed_str (pi_model_id p) 32
        @ put_fixed_str (pi_sw_version p) 32 @ put_fixed_str (pi_model_version p) 32 @ put_fixed_str (pi_serial p) 32
        @ nput_u8 (pi_cert_level p) @ nput_u8 (pi_load_equiv p)) max_frames"

definition n2k_encode_126998 :: "cstr \<Rightarrow> cstr \<Rightarrow> cstr \<Rightarrow> u8 \<Rightarrow> u8 \<Rightarrow> nat \<Rightarrow> n2k_frame_t list option" where
  "n2k_encode_126998 install_desc1 install_desc2 mfg_info src seq max_frames =
     (case put_var_str N2K_FP_MAX_PAYLOAD [] install_desc1 of
        None \<Rightarrow> None
      | Some p \<Rightarrow> (case put_var_str N2K_FP_MAX_PAYLOAD p install_desc2 of
          None \<Rightarrow> None
        | Some p \<Rightarrow> (case put_var_str N2K_FP_MAX_PAYLOAD p mfg_info of
            None \<Rightarrow> None
          | Some p \<Rightarrow> n2k_fp_split (n2k_can_id PRI_STATUS 126998 src 0xFF) seq p max_frames)))"

section \<open>Proprietary telemetry\<close>

definition N2K_PROP_MFG_CODE :: u16 where "N2K_PROP_MFG_CODE = 2046"
definition N2K_PROP_INDUSTRY :: u16 where "N2K_PROP_INDUSTRY = 4"
definition N2K_PGN_PROP_TELEM :: u32 where "N2K_PGN_PROP_TELEM = 130816"

definition prop_payload :: "int \<Rightarrow> ctrl_telemetry_t \<Rightarrow> u8 \<Rightarrow> u8 list" where
  "prop_payload oor t sid =
     nput_u16 (N2K_PROP_MFG_CODE OR push_bit 11 0x3 OR push_bit 13 N2K_PROP_INDUSTRY) @ nput_u8 sid
     @ nput_u8 (of_nat (state_num (t_state t))) @ nput_u8 (of_nat (standby_num (t_standby_reason t)))
     @ nput_u8 (t_active_profile_id t) @ nput_u8 (enc_effort oor (t_field_effort t))
     @ nput_u8 (of_nat (bind_num (t_binding t))) @ nput_u16 (enc_u16 oor (t_binding_w t) (dlit 1))
     @ nput_u16 (enc_temp_c oor (t_alt_temp_c t)) @ nput_u16 (enc_temp_c oor (t_batt_temp_c t))
     @ nput_u16 (enc_u16 oor (rpm_or_blank t) (dlit (1 / 4))) @ nput_u8 (of_nat (rpm_state_num (t_rpm_state t)))
     @ nput_u32 (t_faults t) @ nput_u8 (of_nat (severity_num (t_severity t)))"

definition n2k_encode_prop_telemetry :: "int \<Rightarrow> ctrl_telemetry_t \<Rightarrow> u8 \<Rightarrow> u8 \<Rightarrow> u8 \<Rightarrow> nat \<Rightarrow> n2k_frame_t list option" where
  "n2k_encode_prop_telemetry oor t sid src seq max_frames =
     n2k_fp_split (n2k_can_id PRI_STATUS N2K_PGN_PROP_TELEM src 0xFF) seq (prop_payload oor t sid) max_frames"

end
