(* ===== verification/N2k_Props.thy ===== *)
theory N2k_Props
  imports N2k_Encode
begin

text \<open>
  What a listener reads from the frames of \<open>N2k_Encode\<close>: the little-endian fields come back
  from the payload, a scaled field reads back within 51/100 of its step, and an active fault
  always yields an alert with a text that fits.
\<close>

section \<open>Reading a payload\<close>

text \<open>The 16-bit field at byte \<open>k\<close>.\<close>

definition le16 :: "u8 list \<Rightarrow> nat \<Rightarrow> u16" where
  "le16 bs k = ucast (bs ! k) OR push_bit 8 (ucast (bs ! (k + 1)))"

lemma le16_bytes: "ucast (ucast (v AND 0xFF) :: u8) OR push_bit 8 (ucast (ucast (drop_bit 8 v AND 0xFF) :: u8)) = (v :: u16)"
proof -
  have m: "(0xFF :: u16) = mask 8" by (simp add: mask_eq_exp_minus_1)
  show ?thesis unfolding m by (rule bit_word_eqI) (auto simp: bit_simps dest: bit_imp_le_length)
qed

lemma le16_put: "length pre = k \<Longrightarrow> le16 (pre @ nput_u16 v @ post) k = v"
  using le16_bytes [of v] by (auto simp: le16_def nput_u16_def nth_append)

lemma le16_put_cons:
  "le16 (a # nput_u16 v @ post) (Suc 0) = v"
  "le16 (a # nput_u16 u @ nput_u16 v @ post) 3 = v"
  using le16_put [of "[a]" 1 v post] le16_put [of "[a] @ nput_u16 u" 3 v post] by (simp_all add: nput_lengths)

section \<open>Measurements\<close>

text \<open>A listener of the battery status group (PGN 127508) reads a pack voltage of up to 327 V
  either way within 5.1 mV and a current of up to 3276 A either way within 51 mA of what was
  measured; a measurement that is not finite reads as "not available", and no finite one does.\<close>

theorem battery_status_decodes:
  assumes "n2k_encode_127508 oor t instnce sid src = Some frs" and "le16 (fr_data (hd frs)) 1 = rv" and "le16 (fr_data (hd frs)) 3 = ra"
  shows "length frs = 1 \<and> length (fr_data (hd frs)) = 8 \<and>
    (rv = N2K_NA_S16 \<longleftrightarrow> \<not> isfinite (t_vbat_pack_v t)) \<and> (ra = N2K_NA_S16 \<longleftrightarrow> \<not> isfinite (t_amps_batt t)) \<and>
    (isfinite (t_vbat_pack_v t) \<and> \<bar>fval (t_vbat_pack_v t)\<bar> \<le> 327 \<longrightarrow>
       \<bar>of_int (sint rv) / 100 - fval (t_vbat_pack_v t)\<bar> \<le> 51 / 10000) \<and>
    (isfinite (t_amps_batt t) \<and> \<bar>fval (t_amps_batt t)\<bar> \<le> 3276 \<longrightarrow>
       \<bar>of_int (sint ra) / 10 - fval (t_amps_batt t)\<bar> \<le> 51 / 1000)"
proof -
  have rv: "rv = enc_s16 oor (t_vbat_pack_v t) (dlit (1 / 100))" and ra: "ra = enc_s16 oor (t_amps_batt t) (dlit (1 / 10))"
    and shape: "length frs = 1" "length (fr_data (hd frs)) = 8"
    using assms by (auto simp: n2k_encode_127508_def n2k_single_def nput_u8_def le16_put_cons nput_lengths)
  have "\<bar>of_int (sint rv) / 100 - fval (t_vbat_pack_v t)\<bar> \<le> 51 / 10000"
    if "isfinite (t_vbat_pack_v t)" "\<bar>fval (t_vbat_pack_v t)\<bar> \<le> 327"
    using that volts.decodes [of "t_vbat_pack_v t" oor] by (simp add: rv abs_le_iff)
  moreover have "\<bar>of_int (sint ra) / 10 - fval (t_amps_batt t)\<bar> \<le> 51 / 1000"
    if "isfinite (t_amps_batt t)" "\<bar>fval (t_amps_batt t)\<bar> \<le> 3276"
    using that amps.decodes [of "t_amps_batt t" oor] by (simp add: ra abs_le_iff)
  ultimately show ?thesis using shape volts.na_iff amps.na_iff by (simp add: rv ra)
qed

theorem battery_status_decodes_witness:
  "\<bar>of_int (sint (le16 (fr_data (hd (the (n2k_encode_127508 0 sample_telemetry 0 7 35)))) 1)) / 100 - 55 / 2\<bar> \<le> (51 / 10000 :: rat)"
proof -
  have e: "n2k_encode_127508 0 sample_telemetry 0 7 35 = Some (the (n2k_encode_127508 0 sample_telemetry 0 7 35))"
    by (simp add: n2k_encode_127508_def n2k_single_def)
  show ?thesis using battery_status_decodes [OF e refl refl] sample_readings by (simp add: sample_telemetry_def)
qed

text \<open>The engine speed group (PGN 127488) carries a number exactly while the stator signal is
  valid and the speed finite, and then within 51/400 rpm of the measured speed up to 16383 rpm; a
  stopped, starting or lost signal reads as "not available", never as 0 rpm.\<close>

theorem engine_speed_honest:
  assumes "n2k_encode_127488 oor t instnce src = Some frs" and "le16 (fr_data (hd frs)) 1 = r"
  shows "(r = N2K_NA_U16 \<longleftrightarrow> t_rpm_state t \<noteq> CTRL_RPM_VALID \<or> \<not> isfinite (t_rpm t)) \<and>
    (t_rpm_state t = CTRL_RPM_VALID \<and> isfinite (t_rpm t) \<and> 0 \<le> fval (t_rpm t) \<and> fval (t_rpm t) \<le> 16383 \<longrightarrow>
       \<bar>of_int (uint r) / 4 - fval (t_rpm t)\<bar> \<le> 51 / 400)"
proof -
  have r: "r = enc_u16 oor (rpm_or_blank t) (dlit (1 / 4))"
    using assms by (auto simp: n2k_encode_127488_def n2k_single_def nput_u8_def le16_put_cons)
  have "\<bar>of_int (uint r) / 4 - fval (t_rpm t)\<bar> \<le> 51 / 400"
    if "t_rpm_state t = CTRL_RPM_VALID" "isfinite (t_rpm t)" "0 \<le> fval (t_rpm t)" "fval (t_rpm t) \<le> 16383"
    using that speed.decodes [of "t_rpm t" oor] by (simp add: r rpm_or_blank_def)
  moreover have "r = N2K_NA_U16 \<longleftrightarrow> \<not> isfinite (rpm_or_blank t)" unfolding r by (rule speed.na_iff)
  moreover have "isfinite (rpm_or_blank t) \<longleftrightarrow> t_rpm_state t = CTRL_RPM_VALID \<and> isfinite (t_rpm t)"
    by (simp add: rpm_or_blank_def)
  ultimately show ?thesis by metis
qed

theorem engine_speed_honest_witness:
  "\<bar>of_int (uint (le16 (fr_data (hd (the (n2k_encode_127488 0 sample_telemetry 0 35)))) 1)) / 4 - 3000\<bar> \<le> (51 / 400 :: rat)"
proof -
  have e: "n2k_encode_127488 0 sample_telemetry 0 35 = Some (the (n2k_encode_127488 0 sample_telemetry 0 35))"
    by (simp add: n2k_encode_127488_def n2k_single_def)
  show ?thesis using engine_speed_honest [OF e refl] sample_readings by (simp add: sample_telemetry_def)
qed

section \<open>Alerts\<close>

text \<open>The bits the code declares are the low nineteen.\<close>

lemma declared_bits: "bit CTRL_FAULT_ALL_MASK k \<longleftrightarrow> k < 19"
proof -
  have "CTRL_FAULT_ALL_MASK = mask 19" by (simp add: CTRL_FAULT_ALL_MASK_def mask_eq_exp_minus_1)
  moreover have "bit (mask 19 :: u32) k \<longleftrightarrow> k < 19" by (auto simp: bit_mask_iff)
  ultimately show ?thesis by (simp only:)
qed

lemma declared_fault_bit: "f AND NOT CTRL_FAULT_ALL_MASK = 0 \<Longrightarrow> bit (f :: u32) k \<Longrightarrow> k < 19"
  using declared_bits [of k] by (metis bit_and_iff bit_not_iff_eq exp_eq_0_imp_not_bit word_and_zero_bits)

lemma below_19:
  "k < 19 \<Longrightarrow> k = 0 \<or> k = 1 \<or> k = 2 \<or> k = 3 \<or> k = 4 \<or> k = 5 \<or> k = 6 \<or> k = 7 \<or> k = 8 \<or> k = 9 \<or> k = 10 \<or> k = 11
    \<or> k = 12 \<or> k = 13 \<or> k = 14 \<or> k = 15 \<or> k = 16 \<or> k = 17 \<or> k = (18 :: nat)"
  by arith

lemma alert_text_fits:
  "k < 19 \<Longrightarrow> n2k_alert_text (push_bit k 1) \<noteq> ''unknown fault'' \<and> length (n2k_alert_text (push_bit k 1)) \<le> 41"
  by (drule below_19, elim disjE) (simp_all add: n2k_alert_text_def)

lemma put_alert_ident_length: "length (put_alert_ident a) = 16"
  by (simp add: put_alert_ident_def nput_lengths)

lemma split_fits: "pl \<noteq> [] \<Longrightarrow> length pl \<le> 223 \<Longrightarrow> fp_count (length pl) \<le> n \<Longrightarrow> n2k_fp_split cid q pl n \<noteq> None"
  by (simp add: n2k_fp_split_def Let_def N2K_FP_MAX_PAYLOAD_def)

lemma alert_fits: "5 \<le> n \<Longrightarrow> n2k_encode_126983 a src seq n \<noteq> None"
  unfolding n2k_encode_126983_def
  by (rule split_fits) (simp_all add: put_alert_ident_length nput_lengths nput_u8_def fp_count_def)

lemma alert_words_fit:
  assumes "k < 19" "9 \<le> n"
  shows "n2k_encode_126985 a (Some (text_bytes (n2k_alert_text (push_bit k 1)))) None src seq n \<noteq> None"
proof -
  have l: "length (text_bytes (n2k_alert_text (push_bit k 1))) \<le> 41" using alert_text_fits [OF assms(1)] by (simp add: text_bytes_def)
  have c: "m \<le> 62 \<Longrightarrow> fp_count m \<le> n" for m
    using assms(2) div_le_mono [of m 62 7] by (simp add: fp_count_def)
  show ?thesis
    using l by (simp add: n2k_encode_126985_def put_var_str_def Let_def put_alert_ident_length nput_lengths
        N2K_FP_MAX_PAYLOAD_def n2k_fp_split_def c not_less del: not_None_eq)
qed

lemma alert_of_fault:
  assumes "t_faults t \<noteq> 0" "t_faults t AND NOT CTRL_FAULT_ALL_MASK = 0"
  obtains a k where "n2k_alert_from_telemetry t device_name = Some a" "unat (al_alert_id a) = k + 1" "k < 19" "bit (t_faults t) k"
    "al_type a = alert_type_for (ctrl_fault_severity (t_faults t))" "al_priority a = alert_prio_for (ctrl_fault_severity (t_faults t))"
proof -
  obtain k where k: "ctrl_fault_top_code (t_faults t) = k + 1" "k < 32" "bit (t_faults t) k"
    using top_code_spec [OF assms(1)] by metis
  have k19: "k < 19" using declared_fault_bit [OF assms(2) k(3)] .
  have n: "unat (of_nat (k + 1) :: u16) = k + 1" using k19 by (simp add: unat_of_nat take_bit_eq_mod del: of_nat_add of_nat_Suc)
  have sev: "ctrl_fault_severity (push_bit k 1) = ctrl_fault_severity (t_faults t)"
    using top_code_severity [OF assms(1)] by (simp add: k(1))
  show ?thesis
    using that k n k19 sev assms(1) by (simp add: n2k_alert_from_telemetry_def Let_def del: push_bit_of_1)
qed

text \<open>While any declared fault is active there is an alert: its number is the position of
  an active bit, its type and priority are those of the worst active severity, the text for that
  number is a real description, and both alert groups fit wherever nine frames do.\<close>

theorem active_fault_announced:
  assumes "t_faults t \<noteq> 0" "t_faults t AND NOT CTRL_FAULT_ALL_MASK = 0" "9 \<le> max_frames"
  shows "case n2k_alert_from_telemetry t device_name of None \<Rightarrow> False
    | Some a \<Rightarrow> let k = unat (al_alert_id a) - 1; descr = n2k_alert_text (push_bit k 1) in
        bit (t_faults t) k \<and>
        al_type a = alert_type_for (ctrl_fault_severity (t_faults t)) \<and>
        al_priority a = alert_prio_for (ctrl_fault_severity (t_faults t)) \<and>
        descr \<noteq> ''unknown fault'' \<and>
        n2k_encode_126983 a src seq max_frames \<noteq> None \<and>
        n2k_encode_126985 a (Some (text_bytes descr)) None src seq max_frames \<noteq> None"
proof -
  obtain a k where a: "n2k_alert_from_telemetry t device_name = Some a" "unat (al_alert_id a) = k + 1" "k < 19" "bit (t_faults t) k"
    "al_type a = alert_type_for (ctrl_fault_severity (t_faults t))" "al_priority a = alert_prio_for (ctrl_fault_severity (t_faults t))"
    using alert_of_fault [OF assms(1,2)] by metis
  then show ?thesis
    using alert_text_fits [OF a(3)] alert_fits [of max_frames] alert_words_fit [OF a(3) assms(3)] assms(3)
    by (simp add: Let_def del: push_bit_of_1 not_None_eq)
qed

theorem active_fault_announced_witness:
  "n2k_alert_from_telemetry sample_telemetry 1 \<noteq> None \<and>
   (case n2k_alert_from_telemetry sample_telemetry 1 of None \<Rightarrow> False
    | Some a \<Rightarrow> al_type a = alert_type_for CTRL_SEV_WARN \<and> n2k_encode_126983 a 35 0 9 \<noteq> None)"
proof -
  have f: "t_faults sample_telemetry = 0x10" by (simp add: sample_telemetry_def)
  have m: "t_faults sample_telemetry AND NOT CTRL_FAULT_ALL_MASK = 0" by (simp add: f CTRL_FAULT_ALL_MASK_def)
  have w: "ctrl_fault_severity 0x10 = CTRL_SEV_WARN" by (simp add: ctrl_fault_severity_def fault_masks)
  show ?thesis using active_fault_announced [where t = sample_telemetry and max_frames = 9 and device_name = 1 and src = 35 and seq = 0] m w
    by (auto simp: f Let_def split: option.splits)
qed

end
