(* ===== verification/Sched_Core.thy ===== *)
theory Sched_Core
  imports Can_Frame
begin

text \<open>
  What the two transmit schedulers share (\<open>control/Src/n2k_sched.c\<close>, \<open>rvc_sched.c\<close>): the
  wrap-safe deadline test and the attempt to send one message group. A scheduler passes the frames
  written so far and its state from attempt to attempt; the locale \<open>tx_group\<close> is what one group owes
  the scheduler, and its lemmas are what an attempt keeps.
\<close>

definition due :: "u32 \<Rightarrow> u32 \<Rightarrow> bool" where
  "due now_ms next_ms \<longleftrightarrow> 0 \<le> sint (now_ms - next_ms)"

text \<open>\<open>enc s room\<close> encodes into the room left; \<open>upd\<close> advances the schedule after a success.\<close>

definition sched_try :: "u32 \<Rightarrow> nat \<Rightarrow> ('s \<Rightarrow> u32) \<Rightarrow> ('s \<Rightarrow> nat \<Rightarrow> n2k_frame_t list option) \<Rightarrow> ('s \<Rightarrow> 's)
    \<Rightarrow> n2k_frame_t list \<times> 's \<Rightarrow> n2k_frame_t list \<times> 's" where
  "sched_try now_ms max_frames next_of enc upd st =
     (case st of (out, s) \<Rightarrow>
        if due now_ms (next_of s) \<and> length out < max_frames
        then (case enc s (max_frames - length out) of Some frs \<Rightarrow> (out @ frs, upd s) | None \<Rightarrow> (out, s))
        else (out, s))"

lemma due_now [simp]: "due t t"
  by (simp add: due_def)

lemma due_iff: "due now_ms t \<longleftrightarrow> unat (now_ms - t) < 2 ^ 31"
  by (simp add: due_def sint_u32_nonneg)

locale tx_group =
  fixes enc :: "'s \<Rightarrow> nat \<Rightarrow> n2k_frame_t list option" and src :: u8
  assumes fits: "0 < room \<Longrightarrow> enc s room = Some frs \<Longrightarrow> length frs \<le> room"
    and source: "enc s room = Some frs \<Longrightarrow> fr \<in> set frs \<Longrightarrow> n2k_can_id_src (fr_id fr) = src"
begin

lemma bounded:
  "length (fst st) \<le> n \<Longrightarrow> length (fst (sched_try now_ms n next_of enc upd st)) \<le> n"
  by (cases st) (auto simp: sched_try_def split: option.splits dest: fits [rotated])

lemma sources:
  "list_all (\<lambda>fr. n2k_can_id_src (fr_id fr) = src) (fst st)
    \<Longrightarrow> list_all (\<lambda>fr. n2k_can_id_src (fr_id fr) = src) (fst (sched_try now_ms n next_of enc upd st))"
  using source by (auto simp: sched_try_def list_all_iff split: prod.splits option.splits)

end

lemma sched_try_extends: "\<exists>frs. fst (sched_try now_ms n next_of enc upd st) = fst st @ frs"
  by (auto simp: sched_try_def split: prod.splits option.splits)

lemma sched_try_superset: "set (fst st) \<subseteq> set (fst (sched_try now_ms n next_of enc upd st))"
  using sched_try_extends [of now_ms n next_of enc upd st] by auto

lemma sched_try_sends:
  "due now_ms (next_of s) \<Longrightarrow> length out < n \<Longrightarrow> enc s (n - length out) = Some frs
    \<Longrightarrow> sched_try now_ms n next_of enc upd (out, s) = (out @ frs, upd s)"
  by (simp add: sched_try_def)

lemma sched_try_keeps: "snd (sched_try now_ms n next_of enc upd (out, s)) \<in> {s, upd s}"
  by (simp add: sched_try_def split: option.splits)

lemma sched_try_field: "(\<And>s. f (upd s) = f s) \<Longrightarrow> f (snd (sched_try now_ms n next_of enc upd st)) = f (snd st)"
  by (simp add: sched_try_def split: prod.splits option.splits)

lemma sched_try_all:
  "list_all P (fst st) \<Longrightarrow> (\<And>room frs. enc (snd st) room = Some frs \<Longrightarrow> list_all P frs)
    \<Longrightarrow> list_all P (fst (sched_try now_ms n next_of enc upd st))"
  by (cases st) (auto simp: sched_try_def list_all_iff split: option.splits)

end
