(* ===== verification/N2k_Sched.thy ===== *)
theory N2k_Sched
  imports N2k_Props Sched_Core
begin

text \<open>
  The NMEA 2000 cadence, \<open>control/Src/n2k_sched.c\<close> and \<open>control/Inc/n2k_sched.h\<close>: the context with
  its deadlines and sequence counters, and the tick as the five priority groups of the source in
  order. The caller's tables are values (\<open>None\<close> for a null pointer); all pointers of the call are
  valid.
\<close>

record n2k_sched_t =
  s_sid :: u8
  s_next_127488_ms :: u32
  s_next_127508_ms :: u32
  s_next_127506_ms :: u32
  s_next_127750_ms :: u32
  s_next_126983_ms :: u32
  s_next_126985_ms :: u32
  s_next_126996_ms :: u32
  s_next_126998_ms :: u32
  s_next_prop_ms :: u32
  s_seq_127506 :: u8
  s_seq_126983 :: u8
  s_seq_126985 :: u8
  s_seq_126996 :: u8
  s_seq_126998 :: u8
  s_seq_prop :: u8
  s_device_name :: u64
  s_product :: "n2k_product_info_t option"
  s_install_desc1 :: cstr
  s_install_desc2 :: cstr
  s_mfg_info :: cstr

definition n2k_sched_init :: "u64 \<Rightarrow> n2k_product_info_t option \<Rightarrow> cstr \<Rightarrow> cstr \<Rightarrow> cstr \<Rightarrow> n2k_sched_t" where
  "n2k_sched_init device_name product install_desc1 install_desc2 mfg_info =
     \<lparr>s_sid = 0, s_next_127488_ms = 0, s_next_127508_ms = 0, s_next_127506_ms = 0, s_next_127750_ms = 0,
      s_next_126983_ms = 0, s_next_126985_ms = 0, s_next_126996_ms = 0, s_next_126998_ms = 0, s_next_prop_ms = 0,
      s_seq_127506 = 0, s_seq_126983 = 0, s_seq_126985 = 0, s_seq_126996 = 0, s_seq_126998 = 0, s_seq_prop = 0,
      s_device_name = device_name, s_product = product, s_install_desc1 = install_desc1,
      s_install_desc2 = install_desc2, s_mfg_info = mfg_info\<rparr>"

definition N2K_PERIOD_127488_MS :: u32 where "N2K_PERIOD_127488_MS = 100"
definition N2K_PERIOD_127508_MS :: u32 where "N2K_PERIOD_127508_MS = 1500"
definition N2K_PERIOD_127506_MS :: u32 where "N2K_PERIOD_127506_MS = 1500"
definition N2K_PERIOD_127750_MS :: u32 where "N2K_PERIOD_127750_MS = 1500"
definition N2K_PERIOD_126983_MS :: u32 where "N2K_PERIOD_126983_MS = 1000"
definition N2K_PERIOD_126985_MS :: u32 where "N2K_PERIOD_126985_MS = 2500"
definition N2K_PERIOD_126996_MS :: u32 where "N2K_PERIOD_126996_MS = 5000"
definition N2K_PERIOD_126998_MS :: u32 where "N2K_PERIOD_126998_MS = 5000"
definition N2K_PERIOD_PROP_MS :: u32 where "N2K_PERIOD_PROP_MS = 1500"

definition seq_next :: "u8 \<Rightarrow> u8" where "seq_next q = (q + 1) AND 0x7"

section \<open>The groups in priority order\<close>

definition n2k_try_rapid :: "int \<Rightarrow> u32 \<Rightarrow> u8 \<Rightarrow> ctrl_telemetry_t \<Rightarrow> nat \<Rightarrow> n2k_frame_t list \<times> n2k_sched_t \<Rightarrow> n2k_frame_t list \<times> n2k_sched_t" where
  "n2k_try_rapid oor now_ms src t max_frames =
     sched_try now_ms max_frames s_next_127488_ms (\<lambda>s room. n2k_encode_127488 oor t 0 src)
       (\<lambda>s. s\<lparr>s_next_127488_ms := now_ms + N2K_PERIOD_127488_MS\<rparr>)"

definition n2k_try_alert :: "u32 \<Rightarrow> u8 \<Rightarrow> n2k_alert_t \<Rightarrow> nat \<Rightarrow> n2k_frame_t list \<times> n2k_sched_t \<Rightarrow> n2k_frame_t list \<times> n2k_sched_t" where
  "n2k_try_alert now_ms src a max_frames =
     sched_try now_ms max_frames s_next_126983_ms (\<lambda>s room. n2k_encode_126983 a src (s_seq_126983 s) room)
       (\<lambda>s. s\<lparr>s_seq_126983 := seq_next (s_seq_126983 s), s_next_126983_ms := now_ms + N2K_PERIOD_126983_MS\<rparr>)"

definition n2k_try_alert_text :: "u32 \<Rightarrow> u8 \<Rightarrow> n2k_alert_t \<Rightarrow> nat \<Rightarrow> n2k_frame_t list \<times> n2k_sched_t \<Rightarrow> n2k_frame_t list \<times> n2k_sched_t" where
  "n2k_try_alert_text now_ms src a max_frames =
     sched_try now_ms max_frames s_next_126985_ms
       (\<lambda>s room. n2k_encode_126985 a (Some (text_bytes (n2k_alert_text (push_bit (unat (al_alert_id a) - 1) 1)))) None
          src (s_seq_126985 s) room)
       (\<lambda>s. s\<lparr>s_seq_126985 := seq_next (s_seq_126985 s), s_next_126985_ms := now_ms + N2K_PERIOD_126985_MS\<rparr>)"

definition n2k_try_alerts :: "u32 \<Rightarrow> u8 \<Rightarrow> ctrl_telemetry_t \<Rightarrow> nat \<Rightarrow> n2k_frame_t list \<times> n2k_sched_t \<Rightarrow> n2k_frame_t list \<times> n2k_sched_t" where
  "n2k_try_alerts now_ms src t max_frames st =
     (case n2k_alert_from_telemetry t (s_device_name (snd st)) of
        Some a \<Rightarrow> n2k_try_alert_text now_ms src a max_frames (n2k_try_alert now_ms src a max_frames st)
      | None \<Rightarrow> (fst st, (snd st)\<lparr>s_next_126983_ms := now_ms, s_next_126985_ms := now_ms\<rparr>))"

definition n2k_try_status :: "int \<Rightarrow> u32 \<Rightarrow> u8 \<Rightarrow> u8 \<Rightarrow> ctrl_telemetry_t \<Rightarrow> nat \<Rightarrow> n2k_frame_t list \<times> n2k_sched_t \<Rightarrow> n2k_frame_t list \<times> n2k_sched_t" where
  "n2k_try_status oor now_ms sid src t max_frames st =
     (let st = sched_try now_ms max_frames s_next_127508_ms (\<lambda>s room. n2k_encode_127508 oor t 0 sid src)
            (\<lambda>s. s\<lparr>s_next_127508_ms := now_ms + N2K_PERIOD_127508_MS\<rparr>) st;
          st = sched_try now_ms max_frames s_next_127506_ms (\<lambda>s room. n2k_encode_127506 t 0 sid src (s_seq_127506 s) room)
            (\<lambda>s. s\<lparr>s_seq_127506 := seq_next (s_seq_127506 s), s_next_127506_ms := now_ms + N2K_PERIOD_127506_MS\<rparr>) st
      in sched_try now_ms max_frames s_next_127750_ms (\<lambda>s room. n2k_encode_127750 t 0 sid src)
            (\<lambda>s. s\<lparr>s_next_127750_ms := now_ms + N2K_PERIOD_127750_MS\<rparr>) st)"

definition n2k_try_prop :: "int \<Rightarrow> u32 \<Rightarrow> u8 \<Rightarrow> u8 \<Rightarrow> ctrl_telemetry_t \<Rightarrow> nat \<Rightarrow> n2k_frame_t list \<times> n2k_sched_t \<Rightarrow> n2k_frame_t list \<times> n2k_sched_t" where
  "n2k_try_prop oor now_ms sid src t max_frames =
     sched_try now_ms max_frames s_next_prop_ms (\<lambda>s room. n2k_encode_prop_telemetry oor t sid src (s_seq_prop s) room)
       (\<lambda>s. s\<lparr>s_seq_prop := seq_next (s_seq_prop s), s_next_prop_ms := now_ms + N2K_PERIOD_PROP_MS\<rparr>)"

text \<open>A null product table is no product group.\<close>

definition product_frames :: "u8 \<Rightarrow> n2k_sched_t \<Rightarrow> nat \<Rightarrow> n2k_frame_t list option" where
  "product_frames src s room =
     (case s_product s of Some p \<Rightarrow> n2k_encode_126996 p src (s_seq_126996 s) room | None \<Rightarrow> None)"

definition n2k_try_info :: "u32 \<Rightarrow> u8 \<Rightarrow> nat \<Rightarrow> n2k_frame_t list \<times> n2k_sched_t \<Rightarrow> n2k_frame_t list \<times> n2k_sched_t" where
  "n2k_try_info now_ms src max_frames st =
     (let st = sched_try now_ms max_frames s_next_126996_ms (product_frames src)
            (\<lambda>s. s\<lparr>s_seq_126996 := seq_next (s_seq_126996 s), s_next_126996_ms := now_ms + N2K_PERIOD_126996_MS\<rparr>) st
      in sched_try now_ms max_frames s_next_126998_ms
            (\<lambda>s room. n2k_encode_126998 (s_install_desc1 s) (s_install_desc2 s) (s_mfg_info s) src (s_seq_126998 s) room)
            (\<lambda>s. s\<lparr>s_seq_126998 := seq_next (s_seq_126998 s), s_next_126998_ms := now_ms + N2K_PERIOD_126998_MS\<rparr>) st)"

definition n2k_sched_tick :: "int \<Rightarrow> n2k_sched_t \<Rightarrow> u32 \<Rightarrow> bool \<Rightarrow> u8 \<Rightarrow> ctrl_telemetry_t \<Rightarrow> nat \<Rightarrow> n2k_frame_t list \<times> n2k_sched_t" where
  "n2k_sched_tick oor s now_ms addr_ready src t max_frames =
     (if \<not> addr_ready then ([], s)
      else let (sid, sid') = n2k_sid_next (s_sid s);
               st = ([], s\<lparr>s_sid := sid'\<rparr>);
               st = n2k_try_rapid oor now_ms src t max_frames st;
               st = n2k_try_alerts now_ms src t max_frames st;
               st = n2k_try_status oor now_ms sid src t max_frames st;
               st = n2k_try_prop oor now_ms sid src t max_frames st
           in n2k_try_info now_ms src max_frames st)"

section \<open>Every group is bounded and carries the source address\<close>

lemma composed_source: "n2k_can_id_src (n2k_can_id p g src d) = src"
  using can_id_fields [of p g src d] by simp

lemma split_group:
  "n2k_fp_split (n2k_can_id p g src d) q pl room = Some frs \<Longrightarrow> length frs \<le> room"
  "n2k_fp_split (n2k_can_id p g src d) q pl room = Some frs \<Longrightarrow> fr \<in> set frs \<Longrightarrow> n2k_can_id_src (fr_id fr) = src"
  using fp_frames_shape [of "n2k_can_id p g src d" q "length pl" 0 "fp_count (length pl)" pl]
  by (auto simp: n2k_fp_split_def Let_def composed_source list_all_iff split: if_splits)

lemma single_group:
  "0 < room \<Longrightarrow> n2k_single (n2k_can_id p g src d) b = Some frs \<Longrightarrow> length frs \<le> room"
  "n2k_single (n2k_can_id p g src d) b = Some frs \<Longrightarrow> fr \<in> set frs \<Longrightarrow> n2k_can_id_src (fr_id fr) = src"
  by (auto simp: n2k_single_def composed_source)

interpretation rapid: tx_group "\<lambda>(s :: n2k_sched_t) room. n2k_encode_127488 oor t i src" src for oor t i src
  by unfold_locales (auto simp: n2k_encode_127488_def intro: single_group)

interpretation battery: tx_group "\<lambda>(s :: n2k_sched_t) room. n2k_encode_127508 oor t i sid src" src for oor t i sid src
  by unfold_locales (auto simp: n2k_encode_127508_def intro: single_group)

interpretation converter: tx_group "\<lambda>(s :: n2k_sched_t) room. n2k_encode_127750 t i sid src" src for t i sid src
  by unfold_locales (auto simp: n2k_encode_127750_def intro: single_group)

interpretation dc: tx_group "\<lambda>s room. n2k_encode_127506 t i sid src (s_seq_127506 s) room" src for t i sid src
  by unfold_locales (auto simp: n2k_encode_127506_def intro: split_group)

interpretation alert: tx_group "\<lambda>s room. n2k_encode_126983 a src (s_seq_126983 s) room" src for a src
  by unfold_locales (auto simp: n2k_encode_126983_def intro: split_group)

interpretation alert_text: tx_group "\<lambda>s room. n2k_encode_126985 a d l src (s_seq_126985 s) room" src for a d l src
  by unfold_locales (auto simp: n2k_encode_126985_def intro: split_group split: option.splits)

interpretation proprietary: tx_group "\<lambda>s room. n2k_encode_prop_telemetry oor t sid src (s_seq_prop s) room" src for oor t sid src
  by unfold_locales (auto simp: n2k_encode_prop_telemetry_def intro: split_group)

interpretation product: tx_group "product_frames src" src for src
  by unfold_locales (auto simp: product_frames_def n2k_encode_126996_def intro: split_group split: option.splits)

interpretation config_info: tx_group "\<lambda>s room. n2k_encode_126998 (s_install_desc1 s) (s_install_desc2 s) (s_mfg_info s) src (s_seq_126998 s) room" src for src
  by unfold_locales (auto simp: n2k_encode_126998_def intro: split_group split: option.splits)

lemmas n2k_bounded = rapid.bounded battery.bounded converter.bounded dc.bounded alert.bounded alert_text.bounded
  proprietary.bounded product.bounded config_info.bounded

lemmas n2k_sources = rapid.sources battery.sources converter.sources dc.sources alert.sources alert_text.sources
  proprietary.sources product.sources config_info.sources

lemmas n2k_groups = n2k_try_rapid_def n2k_try_alerts_def n2k_try_alert_def n2k_try_alert_text_def n2k_try_status_def
  n2k_try_prop_def n2k_try_info_def

lemma n2k_tick_bounded: "length (fst (n2k_sched_tick oor s now_ms ready src t n)) \<le> n"
  by (simp add: n2k_sched_tick_def n2k_groups Let_def n2k_bounded split: prod.splits option.splits)

lemma n2k_tick_sources: "list_all (\<lambda>fr. n2k_can_id_src (fr_id fr) = src) (fst (n2k_sched_tick oor s now_ms ready src t n))"
  by (simp add: n2k_sched_tick_def n2k_groups Let_def n2k_sources split: prod.splits option.splits)

text \<open>The fields a group does not advance.\<close>

lemmas n2k_fields = sched_try_field [where f = s_device_name] sched_try_field [where f = s_sid]
  sched_try_field [where f = s_next_126983_ms] sched_try_field [where f = s_next_126985_ms]
  sched_try_field [where f = s_seq_126983] sched_try_field [where f = s_seq_126985]

lemma tick_keeps_name: "s_device_name (snd (n2k_sched_tick oor s now_ms ready src t n)) = s_device_name s"
  by (simp add: n2k_sched_tick_def n2k_groups Let_def n2k_fields split: prod.splits option.splits)

lemma tick_sid: "s_sid (snd (n2k_sched_tick oor s now_ms True src t n)) \<le> 252"
  using sid_range [of "s_sid s"] by (auto simp: n2k_sched_tick_def n2k_groups Let_def n2k_fields split: prod.splits option.splits)

lemma quiet_tick_rearms:
  assumes "t_faults t = 0"
  shows "s_next_126983_ms (snd (n2k_sched_tick oor s now_ms True src t n)) = now_ms"
    "s_next_126985_ms (snd (n2k_sched_tick oor s now_ms True src t n)) = now_ms"
  using assms by (simp_all add: n2k_sched_tick_def n2k_groups n2k_alert_from_telemetry_def Let_def n2k_fields split: prod.splits)

text \<open>C19 (safety). A scheduler tick never writes past the room it is given and every frame carries the source
  address it is given; while the address is not ready it writes nothing and changes nothing.\<close>

theorem sched_frames_legal:
  "(case n2k_sched_tick oor s now_ms addr_ready src t max_frames of (out, s') \<Rightarrow>
      length out \<le> max_frames \<and>
      list_all (\<lambda>fr. n2k_can_id_src (fr_id fr) = src) out \<and>
      (if addr_ready then s_sid s' \<le> 252 else out = [] \<and> s' = s))"
  using n2k_tick_bounded [of oor s now_ms addr_ready src t max_frames] n2k_tick_sources [of src oor s now_ms addr_ready t max_frames]
    tick_sid [of oor s now_ms src t max_frames] by (cases addr_ready) (auto simp: n2k_sched_tick_def split: prod.splits)

section \<open>A new fault alerts at once\<close>

lemma split_more: "n2k_fp_split cid q pl m = Some frs \<Longrightarrow> m \<le> n \<Longrightarrow> n2k_fp_split cid q pl n = Some frs"
  by (auto simp: n2k_fp_split_def Let_def split: if_splits)

lemma alert_more: "n2k_encode_126983 a src q m = Some frs \<Longrightarrow> m \<le> n \<Longrightarrow> n2k_encode_126983 a src q n = Some frs"
  by (auto simp: n2k_encode_126983_def intro: split_more)

lemma words_more: "n2k_encode_126985 a d l src q m = Some frs \<Longrightarrow> m \<le> n \<Longrightarrow> n2k_encode_126985 a d l src q n = Some frs"
  by (auto simp: n2k_encode_126985_def intro: split_more split: option.splits)

text \<open>With both deadlines due and room for fourteen frames both alert groups go out.\<close>

lemma alerts_sent:
  assumes a: "n2k_alert_from_telemetry t (s_device_name s) = Some a" "unat (al_alert_id a) = k + 1" "k < 19"
    and d: "due now_ms (s_next_126983_ms s)" "due now_ms (s_next_126985_ms s)" and room: "length out + 14 \<le> n"
  obtains frs fts s' where "n2k_try_alerts now_ms src t n (out, s) = (out @ frs @ fts, s')"
    "n2k_encode_126983 a src (s_seq_126983 s) 9 = Some frs"
    "n2k_encode_126985 a (Some (text_bytes (n2k_alert_text (push_bit k 1)))) None src (s_seq_126985 s) 9 = Some fts"
proof -
  obtain frs where f5: "n2k_encode_126983 a src (s_seq_126983 s) 5 = Some frs" using alert_fits [of 5] by fastforce
  obtain fts where t9: "n2k_encode_126985 a (Some (text_bytes (n2k_alert_text (push_bit k 1)))) None src (s_seq_126985 s) 9 = Some fts"
    using alert_words_fit [OF a(3), of 9] by fastforce
  have l: "length frs \<le> 5" using alert.fits [of 5 a src s frs] f5 by simp
  let ?s = "s\<lparr>s_seq_126983 := seq_next (s_seq_126983 s), s_next_126983_ms := now_ms + N2K_PERIOD_126983_MS\<rparr>"
  have 1: "n2k_try_alert now_ms src a n (out, s) = (out @ frs, ?s)"
    unfolding n2k_try_alert_def using d(1) room by (intro sched_try_sends) (auto intro: alert_more [OF f5])
  have "sched_try now_ms n s_next_126985_ms
       (\<lambda>s room. n2k_encode_126985 a (Some (text_bytes (n2k_alert_text (push_bit k 1)))) None src (s_seq_126985 s) room)
       (\<lambda>s. s\<lparr>s_seq_126985 := seq_next (s_seq_126985 s), s_next_126985_ms := now_ms + N2K_PERIOD_126985_MS\<rparr>) (out @ frs, ?s)
     = ((out @ frs) @ fts, ?s\<lparr>s_seq_126985 := seq_next (s_seq_126985 ?s), s_next_126985_ms := now_ms + N2K_PERIOD_126985_MS\<rparr>)"
    using d(2) room l by (intro sched_try_sends) (auto intro!: words_more [OF t9] simp del: push_bit_of_1)
  then show ?thesis
    using that 1 a alert_more [OF f5, of 9] t9 by (simp add: n2k_try_alerts_def n2k_try_alert_text_def del: push_bit_of_1)
qed

lemma rest_extends: "set (fst st) \<subseteq> set (fst (n2k_try_info now_ms src n (n2k_try_prop oor now_ms sid src t n (n2k_try_status oor now_ms sid src t n st))))"
  unfolding n2k_groups Let_def by (rule order_trans [OF _ sched_try_superset])+ (rule order_refl)

text \<open>C18 (liveness). A fault raised after a quiet tick alerts on the very next tick, however long the device has
  been up and wherever the millisecond clock wraps: if that tick comes within half the clock range
  and has room for 15 frames, the whole alert and the whole alert text are in its output.\<close>

theorem new_fault_alerts_at_once:
  assumes "t_faults t1 = 0" and "s1 = snd (n2k_sched_tick oor s now1 True src t1 n1)"
    and "t_faults t2 \<noteq> 0" "t_faults t2 AND NOT CTRL_FAULT_ALL_MASK = 0" and "unat (now2 - now1) < 2 ^ 31" and "15 \<le> n2"
  shows "case n2k_alert_from_telemetry t2 (s_device_name s) of None \<Rightarrow> False
    | Some a \<Rightarrow> let k = unat (al_alert_id a) - 1; out = set (fst (n2k_sched_tick oor s1 now2 True src t2 n2)) in
        bit (t_faults t2) k \<and>
        set (the (n2k_encode_126983 a src (s_seq_126983 s1) 9)) \<subseteq> out \<and>
        set (the (n2k_encode_126985 a (Some (text_bytes (n2k_alert_text (push_bit k 1)))) None src (s_seq_126985 s1) 9)) \<subseteq> out"
proof -
  obtain a k where a: "n2k_alert_from_telemetry t2 (s_device_name s) = Some a" "unat (al_alert_id a) = k + 1" "k < 19" "bit (t_faults t2) k"
    using alert_of_fault [OF assms(3,4)] by metis
  obtain sid sid' where sid: "n2k_sid_next (s_sid s1) = (sid, sid')" by fastforce
  define st where "st = n2k_try_rapid oor now2 src t2 n2 ([], s1\<lparr>s_sid := sid'\<rparr>)"
  have same: "s_next_126983_ms (snd st) = now1" "s_next_126985_ms (snd st) = now1" "s_device_name (snd st) = s_device_name s"
    "s_seq_126983 (snd st) = s_seq_126983 s1" "s_seq_126985 (snd st) = s_seq_126985 s1"
    using quiet_tick_rearms [OF assms(1), of oor s now1 src n1] tick_keeps_name [of oor s now1 True src t1 n1]
    by (simp_all add: st_def n2k_try_rapid_def n2k_fields assms(2))
  have "length (fst st) \<le> 1"
    by (auto simp: st_def n2k_try_rapid_def sched_try_def n2k_encode_127488_def n2k_single_def split: if_splits)
  then have room: "length (fst st) + 14 \<le> n2" using assms(6) by simp
  have dues: "due now2 (s_next_126983_ms (snd st))" "due now2 (s_next_126985_ms (snd st))"
    using assms(5) by (simp_all add: same due_iff)
  obtain frs fts s' where sent: "n2k_try_alerts now2 src t2 n2 (fst st, snd st) = (fst st @ frs @ fts, s')"
    "n2k_encode_126983 a src (s_seq_126983 s1) 9 = Some frs"
    "n2k_encode_126985 a (Some (text_bytes (n2k_alert_text (push_bit k 1)))) None src (s_seq_126985 s1) 9 = Some fts"
    using alerts_sent [OF _ a(2,3) dues room, of t2 src] a(1) unfolding same by metis
  have "set (frs @ fts) \<subseteq> set (fst (n2k_sched_tick oor s1 now2 True src t2 n2))"
    using rest_extends [of "(fst st @ frs @ fts, s')" now2 src n2 oor sid t2] sent(1)
    by (auto simp: n2k_sched_tick_def sid Let_def simp flip: st_def)
  then show ?thesis using a sent by (simp add: Let_def del: push_bit_of_1)
qed

text \<open>Raised across the wrap of the clock.\<close>

theorem new_fault_alerts_at_once_witness:
  "let s1 = snd (n2k_sched_tick 0 (n2k_sched_init 7 None None None None) 0xFFFFFFF0 True 35 (sample_telemetry\<lparr>t_faults := 0\<rparr>) 32) in
   case n2k_alert_from_telemetry sample_telemetry (s_device_name (n2k_sched_init 7 None None None None)) of None \<Rightarrow> False
   | Some a \<Rightarrow> set (the (n2k_encode_126983 a 35 (s_seq_126983 s1) 9)) \<subseteq> set (fst (n2k_sched_tick 0 s1 10 True 35 sample_telemetry 32))"
proof -
  have f: "t_faults (sample_telemetry\<lparr>t_faults := 0\<rparr>) = 0" "t_faults sample_telemetry \<noteq> 0"
    "t_faults sample_telemetry AND NOT CTRL_FAULT_ALL_MASK = 0" "unat ((10 :: u32) - 0xFFFFFFF0) < 2 ^ 31" "(15 :: nat) \<le> 32"
    by (simp_all add: sample_telemetry_def CTRL_FAULT_ALL_MASK_def)
  show ?thesis
    using new_fault_alerts_at_once [OF f(1) refl f(2-5), of 0 "n2k_sched_init 7 None None None None" 35 32]
    by (simp add: Let_def split: option.splits)
qed

end
