(* ===== verification/Rvc_Encode.thy ===== *)
theory Rvc_Encode
  imports Can_Frame Scaled_Field Telemetry
begin

text \<open>
  The RV-C encoders, \<open>control/Src/rvc_encode.c\<close> and \<open>control/Inc/rvc_encode.h\<close>. As in
  \<open>N2k_Encode\<close> an encoder gives the frames it writes, and \<open>oor\<close> is what \<open>llround\<close> returns when
  its argument does not fit a \<open>long long\<close>; the sum of an offset and that number is exact.
\<close>

section \<open>Little-endian primitives\<close>

definition rput_u8 :: "u8 \<Rightarrow> u8 list" where "rput_u8 v = [v]"

definition rput_u16 :: "u16 \<Rightarrow> u8 list" where
  "rput_u16 v = [ucast (v AND 0xFF), ucast (drop_bit 8 v AND 0xFF)]"

definition rput_u32 :: "u32 \<Rightarrow> u8 list" where
  "rput_u32 v = rput_u16 (ucast (v AND 0xFFFF)) @ rput_u16 (ucast (drop_bit 16 v AND 0xFFFF))"

section \<open>Scaled fields\<close>

definition RVC_NA_U8 :: u8 where "RVC_NA_U8 = 0xFF"
definition RVC_NA_U16 :: u16 where "RVC_NA_U16 = 0xFFFF"
definition RVC_NA_U32 :: u32 where "RVC_NA_U32 = 0xFFFFFFFF"
definition RVC_NA_BIT2 :: u8 where "RVC_NA_BIT2 = 0x3"
definition RVC_NA_BIT4 :: u8 where "RVC_NA_BIT4 = 0xF"

definition enc_u16_unsigned :: "int \<Rightarrow> f32 \<Rightarrow> fp \<Rightarrow> u16" where
  "enc_u16_unsigned oor v res = (if \<not> isfinite v then RVC_NA_U16 else of_int (clamp_code 0 0xFFFE (quantise oor v res)))"

definition enc_u16_offset :: "int \<Rightarrow> f32 \<Rightarrow> fp \<Rightarrow> int \<Rightarrow> u16" where
  "enc_u16_offset oor v res zero_raw =
     (if \<not> isfinite v then RVC_NA_U16 else of_int (clamp_code 0 0xFFFE (zero_raw + quantise oor v res)))"

definition enc_u32_offset :: "int \<Rightarrow> f32 \<Rightarrow> fp \<Rightarrow> int \<Rightarrow> u32" where
  "enc_u32_offset oor v res zero_raw =
     (if \<not> isfinite v then RVC_NA_U32 else of_int (clamp_code 0 0xFFFFFFFE (zero_raw + quantise oor v res)))"

definition enc_pct :: "int \<Rightarrow> f32 \<Rightarrow> fp \<Rightarrow> u8" where
  "enc_pct oor part res = (if \<not> isfinite part then RVC_NA_U8
     else of_int (clamp_code 0 250 (llround oor (fp_div double_fmt (fp_mul double_fmt (fpv part) (dlit 100)) res))))"

definition enc_temp_j1939 :: "int \<Rightarrow> f32 \<Rightarrow> u16" where
  "enc_temp_j1939 oor c = enc_u16_unsigned oor (c + flit 273) (dlit (1 / 32))"

definition enc_temp_u8_off40 :: "int \<Rightarrow> f32 \<Rightarrow> u8" where
  "enc_temp_u8_off40 oor c = (if \<not> isfinite c then RVC_NA_U8 else of_int (clamp_code 0 0xFE (llround oor (fpv c) + 40)))"

definition rvc_operating_state :: "ctrl_telemetry_t \<Rightarrow> u8" where
  "rvc_operating_state t =
     (if CTRL_SEV_FAULT \<le> t_severity t then 1
      else if t_state t = CTRL_BULK then (if t_binding t = CTRL_BIND_VOLTAGE_CLAMP then 3 else 2)
      else if t_state t = CTRL_FLOAT then 6 else 1)"

section \<open>Frames\<close>

definition RVC_DGN_DC_SOURCE_STATUS_1 :: u32 where "RVC_DGN_DC_SOURCE_STATUS_1 = 0x1FFFD"
definition RVC_DGN_DC_SOURCE_STATUS_2 :: u32 where "RVC_DGN_DC_SOURCE_STATUS_2 = 0x1FFFC"
definition RVC_DGN_DC_SOURCE_STATUS_3 :: u32 where "RVC_DGN_DC_SOURCE_STATUS_3 = 0x1FFFB"
definition RVC_DGN_CHARGER_STATUS :: u32 where "RVC_DGN_CHARGER_STATUS = 0x1FFC7"
definition RVC_DGN_CHARGER_STATUS_2 :: u32 where "RVC_DGN_CHARGER_STATUS_2 = 0x1FEA3"
definition RVC_PRI_STATUS :: u8 where "RVC_PRI_STATUS = 6"

definition rvc_single :: "u32 \<Rightarrow> u8 list \<Rightarrow> n2k_frame_t list option" where
  "rvc_single cid bytes = Some [\<lparr>fr_id = cid, fr_dlc = 8, fr_data = bytes\<rparr>]"

definition charge_amps :: "ctrl_telemetry_t \<Rightarrow> f32" where
  "charge_amps t = (if isfinite (t_amps_batt t) \<and> t_amps_batt t < 0 then 0 else t_amps_batt t)"

definition rvc_encode_charger_status :: "int \<Rightarrow> ctrl_telemetry_t \<Rightarrow> u8 \<Rightarrow> u8 \<Rightarrow> n2k_frame_t list option" where
  "rvc_encode_charger_status oor t instnce src =
     rvc_single (n2k_can_id RVC_PRI_STATUS RVC_DGN_CHARGER_STATUS src 0xFF)
       (rput_u8 instnce @ rput_u16 (enc_u16_unsigned oor (t_vbat_pack_v t) (dlit (5 / 100)))
        @ rput_u16 (enc_u16_offset oor (charge_amps t) (dlit (5 / 100)) 32000)
        @ rput_u8 (enc_pct oor (t_field_effort t) (dlit (1 / 2))) @ rput_u8 (rvc_operating_state t)
        @ rput_u8 ((RVC_NA_BIT2 AND 0x3) OR push_bit 2 (RVC_NA_BIT2 AND 0x3) OR push_bit 4 (RVC_NA_BIT4 AND 0xF)))"

definition rvc_encode_charger_status_2 :: "int \<Rightarrow> ctrl_telemetry_t \<Rightarrow> u8 \<Rightarrow> u8 \<Rightarrow> u8 \<Rightarrow> u8 \<Rightarrow> n2k_frame_t list option" where
  "rvc_encode_charger_status_2 oor t instnce dc_source_instance device_priority src =
     rvc_single (n2k_can_id RVC_PRI_STATUS RVC_DGN_CHARGER_STATUS_2 src 0xFF)
       (rput_u8 instnce @ rput_u8 dc_source_instance @ rput_u8 device_priority
        @ rput_u16 (enc_u16_unsigned oor (t_vbat_pack_v t) (dlit (5 / 100)))
        @ rput_u16 (enc_u16_offset oor (t_amps_batt t) (dlit (5 / 100)) 32000)
        @ rput_u8 (enc_temp_u8_off40 oor (t_alt_temp_c t)))"

definition rvc_encode_dc_source_status_1 :: "int \<Rightarrow> ctrl_telemetry_t \<Rightarrow> u8 \<Rightarrow> u8 \<Rightarrow> u8 \<Rightarrow> n2k_frame_t list option" where
  "rvc_encode_dc_source_status_1 oor t instnce device_priority src =
     rvc_single (n2k_can_id RVC_PRI_STATUS RVC_DGN_DC_SOURCE_STATUS_1 src 0xFF)
       (rput_u8 instnce @ rput_u8 device_priority @ rput_u16 (enc_u16_unsigned oor (t_vbat_pack_v t) (dlit (5 / 100)))
        @ rput_u32 (enc_u32_offset oor (- t_amps_batt t) (dlit (1 / 1000)) 2000000000))"

definition rvc_encode_dc_source_status_2 :: "int \<Rightarrow> ctrl_telemetry_t \<Rightarrow> u8 \<Rightarrow> u8 \<Rightarrow> u8 \<Rightarrow> n2k_frame_t list option" where
  "rvc_encode_dc_source_status_2 oor t instnce device_priority src =
     rvc_single (n2k_can_id RVC_PRI_STATUS RVC_DGN_DC_SOURCE_STATUS_2 src 0xFF)
       (rput_u8 instnce @ rput_u8 device_priority @ rput_u16 (enc_temp_j1939 oor (t_batt_temp_c t))
        @ rput_u8 RVC_NA_U8 @ rput_u16 RVC_NA_U16 @ rput_u8 0xFF)"

definition rvc_encode_dc_source_status_3 :: "u8 \<Rightarrow> u8 \<Rightarrow> u8 \<Rightarrow> n2k_frame_t list option" where
  "rvc_encode_dc_source_status_3 instnce device_priority src =
     rvc_single (n2k_can_id RVC_PRI_STATUS RVC_DGN_DC_SOURCE_STATUS_3 src 0xFF)
       (rput_u8 instnce @ rput_u8 device_priority @ rput_u8 RVC_NA_U8 @ rput_u16 RVC_NA_U16
        @ rput_u8 RVC_NA_U8 @ rput_u16 RVC_NA_U16)"

section \<open>The fields keep the contract\<close>

lemma uint_code16: "0 \<le> k \<Longrightarrow> k \<le> 0xFFFE \<Longrightarrow> uint (of_int k :: u16) = k"
  by (simp add: unsigned_of_int take_bit_int_eq_self)

lemma uint_code32: "0 \<le> k \<Longrightarrow> k \<le> 0xFFFFFFFE \<Longrightarrow> uint (of_int k :: u32) = k"
  by (simp add: unsigned_of_int take_bit_int_eq_self)

lemma shifted_near:
  assumes "isfinite v" "2 powi (-20) \<le> r" "r \<le> 2 powi 20" "0 \<le> z" "z \<le> hi" "hi < 2 ^ 32"
    and "0 \<le> fval v / r + of_int z" "fval v / r + of_int z \<le> of_int hi"
  shows "\<bar>of_int (clamp_code 0 hi (z + quantise oor v (dlit r))) - (fval v / r + of_int z)\<bar> \<le> 51 / 100"
proof -
  have "(of_int z :: rat) \<le> of_int hi" "(of_int hi :: rat) < of_int (2 ^ 32)" "(0 :: rat) \<le> of_int z"
    using assms(4-6) by (simp_all only: of_int_le_iff of_int_less_iff of_int_0_le_iff)
  then have "\<bar>fval v / r\<bar> \<le> 2 powi 32" using assms(7,8) by (simp add: abs_le_iff powi2_nat)
  then have "\<bar>of_int (quantise oor v (dlit r)) - fval v / r\<bar> \<le> 51 / 100" using assms(1-3) by (intro quantise_near)
  then show ?thesis using assms(7,8) by (intro clamp_near) simp_all
qed

lemma u16_offset_field:
  assumes r: "2 powi (-20) \<le> r" "r \<le> 2 powi 20" and z: "0 \<le> z" "z \<le> 0xFFFE"
  shows "scaled_field (\<lambda>v. enc_u16_offset oor v (dlit r) z) uint RVC_NA_U16 0 0xFFFE r z"
proof
  fix v assume fin: "isfinite v"
  have span: "0 \<le> clamp_code 0 0xFFFE l \<and> clamp_code 0 0xFFFE l \<le> 0xFFFE" for l by (rule clamp_code_range) simp
  then have code: "uint (enc_u16_offset oor v (dlit r) z) = clamp_code 0 0xFFFE (z + quantise oor v (dlit r))"
    using fin uint_code16 by (simp add: enc_u16_offset_def)
  then show "0 \<le> uint (enc_u16_offset oor v (dlit r) z) \<and> uint (enc_u16_offset oor v (dlit r) z) \<le> 0xFFFE" using span by simp
  assume "of_int 0 \<le> fval v / r + of_int z" "fval v / r + of_int z \<le> of_int 0xFFFE"
  then show "\<bar>of_int (uint (enc_u16_offset oor v (dlit r) z)) - (fval v / r + of_int z)\<bar> \<le> 51 / 100"
    using shifted_near [OF fin r z] by (simp add: code)
qed (use assms powi2_pos [of "-20"] in \<open>auto simp: enc_u16_offset_def RVC_NA_U16_def\<close>)

lemma u32_offset_field:
  assumes r: "2 powi (-20) \<le> r" "r \<le> 2 powi 20" and z: "0 \<le> z" "z \<le> 0xFFFFFFFE"
  shows "scaled_field (\<lambda>v. enc_u32_offset oor v (dlit r) z) uint RVC_NA_U32 0 0xFFFFFFFE r z"
proof
  fix v assume fin: "isfinite v"
  have span: "0 \<le> clamp_code 0 0xFFFFFFFE l \<and> clamp_code 0 0xFFFFFFFE l \<le> 0xFFFFFFFE" for l by (rule clamp_code_range) simp
  then have code: "uint (enc_u32_offset oor v (dlit r) z) = clamp_code 0 0xFFFFFFFE (z + quantise oor v (dlit r))"
    using fin uint_code32 by (simp add: enc_u32_offset_def)
  then show "0 \<le> uint (enc_u32_offset oor v (dlit r) z) \<and> uint (enc_u32_offset oor v (dlit r) z) \<le> 0xFFFFFFFE" using span by simp
  assume "of_int 0 \<le> fval v / r + of_int z" "fval v / r + of_int z \<le> of_int 0xFFFFFFFE"
  then show "\<bar>of_int (uint (enc_u32_offset oor v (dlit r) z)) - (fval v / r + of_int z)\<bar> \<le> 51 / 100"
    using shifted_near [OF fin r z] by (simp add: code)
qed (use assms powi2_pos [of "-20"] in \<open>auto simp: enc_u32_offset_def RVC_NA_U32_def\<close>)

lemma rvc_resolutions: "2 powi (-20) \<le> (5 / 100 :: rat)" "(5 / 100 :: rat) \<le> 2 powi 20" "2 powi (-20) \<le> (1 / 1000 :: rat)" "(1 / 1000 :: rat) \<le> 2 powi 20"
  by (simp_all add: power_int_def divide_simps)

lemma unsigned_is_offset: "enc_u16_unsigned oor v res = enc_u16_offset oor v res 0"
  by (simp add: enc_u16_unsigned_def enc_u16_offset_def)

interpretation rvc_volts: scaled_field "\<lambda>v. enc_u16_unsigned oor v (dlit (5 / 100))" uint RVC_NA_U16 0 "0xFFFE" "5 / 100" 0 for oor
  unfolding unsigned_is_offset using rvc_resolutions by (intro u16_offset_field) simp_all

interpretation rvc_amps: scaled_field "\<lambda>v. enc_u16_offset oor v (dlit (5 / 100)) 32000" uint RVC_NA_U16 0 "0xFFFE" "5 / 100" 32000 for oor
  using rvc_resolutions by (intro u16_offset_field) simp_all

interpretation dc_amps: scaled_field "\<lambda>v. enc_u32_offset oor v (dlit (1 / 1000)) 2000000000" uint RVC_NA_U32 0 "0xFFFFFFFE" "1 / 1000" 2000000000 for oor
  using rvc_resolutions by (intro u32_offset_field) simp_all

end
