(* ===== verification/Rvc_Sched.thy ===== *)
theory Rvc_Sched
  imports Rvc_Encode Sched_Core N2k_Props
begin

text \<open>
  The RV-C cadence and the battery-master election, \<open>control/Src/rvc_sched.c\<close> and
  \<open>control/Inc/rvc_sched.h\<close>, with what a listener reads from the DC source group. All pointers of
  the calls are valid; the payload of a received frame is the list of its bytes.
\<close>

section \<open>Election\<close>

record rvc_rbm_t =
  rbm_our_priority :: u8
  rbm_master_seen :: bool
  rbm_master_priority :: u8
  rbm_master_last_ms :: u32

definition RVC_OUR_DEVICE_PRIORITY :: u8 where "RVC_OUR_DEVICE_PRIORITY = 80"
definition RVC_RBM_TIMEOUT_MS :: u32 where "RVC_RBM_TIMEOUT_MS = 1500"
definition RVC_INSTANCE_DEFAULT :: u8 where "RVC_INSTANCE_DEFAULT = 1"

definition rvc_rbm_init :: "u8 \<Rightarrow> rvc_rbm_t" where
  "rvc_rbm_init our_priority =
     \<lparr>rbm_our_priority = our_priority, rbm_master_seen = False, rbm_master_priority = 0, rbm_master_last_ms = 0\<rparr>"

definition rvc_rbm_rx :: "rvc_rbm_t \<Rightarrow> u32 \<Rightarrow> u32 \<Rightarrow> u8 list \<Rightarrow> rvc_rbm_t" where
  "rvc_rbm_rx r now_ms cid data =
     (if length data < 2 then r
      else let pgn = n2k_can_id_pgn cid in
        if pgn \<noteq> RVC_DGN_DC_SOURCE_STATUS_1 \<and> pgn \<noteq> RVC_DGN_DC_SOURCE_STATUS_2 then r
        else let priority = data ! 1 in
          if priority \<le> rbm_our_priority r then r
          else r\<lparr>rbm_master_seen := True, rbm_master_priority := priority, rbm_master_last_ms := now_ms\<rparr>)"

definition rvc_rbm_defer :: "rvc_rbm_t \<Rightarrow> u32 \<Rightarrow> bool" where
  "rvc_rbm_defer r now_ms \<longleftrightarrow> rbm_master_seen r \<and> now_ms - rbm_master_last_ms r < RVC_RBM_TIMEOUT_MS"

section \<open>Scheduler\<close>

record rvc_sched_t =
  r_next_charger_status_ms :: u32
  r_next_charger_status2_ms :: u32
  r_next_dc1_ms :: u32
  r_next_dc2_ms :: u32
  r_rbm :: rvc_rbm_t

definition RVC_PERIOD_CHARGER_STATUS_MS :: u32 where "RVC_PERIOD_CHARGER_STATUS_MS = 5000"
definition RVC_PERIOD_CHARGER_STATUS_2_MS :: u32 where "RVC_PERIOD_CHARGER_STATUS_2_MS = 500"
definition RVC_PERIOD_DC1_MS :: u32 where "RVC_PERIOD_DC1_MS = 500"
definition RVC_PERIOD_DC2_MS :: u32 where "RVC_PERIOD_DC2_MS = 500"

definition rvc_sched_init :: "u8 \<Rightarrow> rvc_sched_t" where
  "rvc_sched_init our_priority =
     \<lparr>r_next_charger_status_ms = 0, r_next_charger_status2_ms = 0, r_next_dc1_ms = 0, r_next_dc2_ms = 0,
      r_rbm = rvc_rbm_init our_priority\<rparr>"

definition rvc_sched_rx :: "rvc_sched_t \<Rightarrow> u32 \<Rightarrow> u32 \<Rightarrow> u8 list \<Rightarrow> rvc_sched_t" where
  "rvc_sched_rx s now_ms cid data = s\<lparr>r_rbm := rvc_rbm_rx (r_rbm s) now_ms cid data\<rparr>"

definition rvc_try_charger :: "int \<Rightarrow> u32 \<Rightarrow> u8 \<Rightarrow> ctrl_telemetry_t \<Rightarrow> nat \<Rightarrow> n2k_frame_t list \<times> rvc_sched_t \<Rightarrow> n2k_frame_t list \<times> rvc_sched_t" where
  "rvc_try_charger oor now_ms src t max_frames st =
     (let st = sched_try now_ms max_frames r_next_charger_status_ms
            (\<lambda>s room. rvc_encode_charger_status oor t RVC_INSTANCE_DEFAULT src)
            (\<lambda>s. s\<lparr>r_next_charger_status_ms := now_ms + RVC_PERIOD_CHARGER_STATUS_MS\<rparr>) st
      in sched_try now_ms max_frames r_next_charger_status2_ms
            (\<lambda>s room. rvc_encode_charger_status_2 oor t RVC_INSTANCE_DEFAULT RVC_INSTANCE_DEFAULT (rbm_our_priority (r_rbm s)) src)
            (\<lambda>s. s\<lparr>r_next_charger_status2_ms := now_ms + RVC_PERIOD_CHARGER_STATUS_2_MS\<rparr>) st)"

definition rvc_try_dc_source :: "int \<Rightarrow> u32 \<Rightarrow> u8 \<Rightarrow> ctrl_telemetry_t \<Rightarrow> nat \<Rightarrow> n2k_frame_t list \<times> rvc_sched_t \<Rightarrow> n2k_frame_t list \<times> rvc_sched_t" where
  "rvc_try_dc_source oor now_ms src t max_frames st =
     (if rvc_rbm_defer (r_rbm (snd st)) now_ms
      then (fst st, (snd st)\<lparr>r_next_dc1_ms := now_ms, r_next_dc2_ms := now_ms\<rparr>)
      else let st = sched_try now_ms max_frames r_next_dc1_ms
            (\<lambda>s room. rvc_encode_dc_source_status_1 oor t RVC_INSTANCE_DEFAULT (rbm_our_priority (r_rbm s)) src)
            (\<lambda>s. s\<lparr>r_next_dc1_ms := now_ms + RVC_PERIOD_DC1_MS\<rparr>) st
      in sched_try now_ms max_frames r_next_dc2_ms
            (\<lambda>s room. rvc_encode_dc_source_status_2 oor t RVC_INSTANCE_DEFAULT (rbm_our_priority (r_rbm s)) src)
            (\<lambda>s. s\<lparr>r_next_dc2_ms := now_ms + RVC_PERIOD_DC2_MS\<rparr>) st)"

definition rvc_sched_tick :: "int \<Rightarrow> rvc_sched_t \<Rightarrow> u32 \<Rightarrow> bool \<Rightarrow> u8 \<Rightarrow> ctrl_telemetry_t \<Rightarrow> nat \<Rightarrow> n2k_frame_t list \<times> rvc_sched_t" where
  "rvc_sched_tick oor s now_ms addr_ready src t max_frames =
     (if \<not> addr_ready then ([], s)
      else rvc_try_dc_source oor now_ms src t max_frames (rvc_try_charger oor now_ms src t max_frames ([], s)))"

section \<open>Every group is bounded and carries the source address\<close>

lemma rvc_single_group:
  "0 < room \<Longrightarrow> rvc_single (n2k_can_id p g src d) b = Some frs \<Longrightarrow> length frs \<le> room"
  "rvc_single (n2k_can_id p g src d) b = Some frs \<Longrightarrow> fr \<in> set frs \<Longrightarrow> n2k_can_id_src (fr_id fr) = src"
  using can_id_fields [of p g src d] by (auto simp: rvc_single_def)

interpretation charger: tx_group "\<lambda>(s :: rvc_sched_t) room. rvc_encode_charger_status oor t i src" src for oor t i src
  by unfold_locales (auto simp: rvc_encode_charger_status_def intro: rvc_single_group)

interpretation charger2: tx_group "\<lambda>s room. rvc_encode_charger_status_2 oor t i j (rbm_our_priority (r_rbm s)) src" src for oor t i j src
  by unfold_locales (auto simp: rvc_encode_charger_status_2_def intro: rvc_single_group)

interpretation dc_source1: tx_group "\<lambda>s room. rvc_encode_dc_source_status_1 oor t i (rbm_our_priority (r_rbm s)) src" src for oor t i src
  by unfold_locales (auto simp: rvc_encode_dc_source_status_1_def intro: rvc_single_group)

interpretation dc_source2: tx_group "\<lambda>s room. rvc_encode_dc_source_status_2 oor t i (rbm_our_priority (r_rbm s)) src" src for oor t i src
  by unfold_locales (auto simp: rvc_encode_dc_source_status_2_def intro: rvc_single_group)

lemmas rvc_bounded = charger.bounded charger2.bounded dc_source1.bounded dc_source2.bounded
lemmas rvc_sources = charger.sources charger2.sources dc_source1.sources dc_source2.sources

lemma rvc_tick_bounded: "length (fst (rvc_sched_tick oor s now_ms ready src t n)) \<le> n"
  by (simp add: rvc_sched_tick_def rvc_try_charger_def rvc_try_dc_source_def Let_def rvc_bounded)

lemma rvc_tick_sources: "list_all (\<lambda>fr. n2k_can_id_src (fr_id fr) = src) (fst (rvc_sched_tick oor s now_ms ready src t n))"
  by (simp add: rvc_sched_tick_def rvc_try_charger_def rvc_try_dc_source_def Let_def rvc_sources)

section \<open>One speaker for the battery\<close>

definition is_dc_source :: "n2k_frame_t \<Rightarrow> bool" where
  "is_dc_source fr \<longleftrightarrow> n2k_can_id_pgn (fr_id fr) = RVC_DGN_DC_SOURCE_STATUS_1 \<or> n2k_can_id_pgn (fr_id fr) = RVC_DGN_DC_SOURCE_STATUS_2"

lemma rvc_pgns:
  "n2k_can_id_pgn (n2k_can_id p RVC_DGN_DC_SOURCE_STATUS_1 src d) = RVC_DGN_DC_SOURCE_STATUS_1"
  "n2k_can_id_pgn (n2k_can_id p RVC_DGN_DC_SOURCE_STATUS_2 src d) = RVC_DGN_DC_SOURCE_STATUS_2"
  "n2k_can_id_pgn (n2k_can_id p RVC_DGN_CHARGER_STATUS src d) = RVC_DGN_CHARGER_STATUS"
  "n2k_can_id_pgn (n2k_can_id p RVC_DGN_CHARGER_STATUS_2 src d) = RVC_DGN_CHARGER_STATUS_2"
  using can_id_fields [of p RVC_DGN_DC_SOURCE_STATUS_1 src d] can_id_fields [of p RVC_DGN_DC_SOURCE_STATUS_2 src d]
    can_id_fields [of p RVC_DGN_CHARGER_STATUS src d] can_id_fields [of p RVC_DGN_CHARGER_STATUS_2 src d]
  by (simp_all add: RVC_DGN_DC_SOURCE_STATUS_1_def RVC_DGN_DC_SOURCE_STATUS_2_def RVC_DGN_CHARGER_STATUS_def RVC_DGN_CHARGER_STATUS_2_def)

lemmas rvc_dgn_defs = RVC_DGN_DC_SOURCE_STATUS_1_def RVC_DGN_DC_SOURCE_STATUS_2_def RVC_DGN_CHARGER_STATUS_def RVC_DGN_CHARGER_STATUS_2_def

lemma charger_frames_not_dc:
  "rvc_encode_charger_status oor t i src = Some frs \<Longrightarrow> list_all (\<lambda>fr. \<not> is_dc_source fr) frs"
  "rvc_encode_charger_status_2 oor t i j p src = Some frs \<Longrightarrow> list_all (\<lambda>fr. \<not> is_dc_source fr) frs"
  by (auto simp: rvc_encode_charger_status_def rvc_encode_charger_status_2_def rvc_single_def is_dc_source_def rvc_pgns)
    (simp_all add: rvc_dgn_defs)

lemma dc_frames_priority:
  "rvc_encode_dc_source_status_1 oor t i p src = Some frs \<Longrightarrow> list_all (\<lambda>fr. is_dc_source fr \<and> 2 \<le> length (fr_data fr) \<and> fr_data fr ! 1 = p) frs"
  "rvc_encode_dc_source_status_2 oor t i p src = Some frs \<Longrightarrow> list_all (\<lambda>fr. is_dc_source fr \<and> 2 \<le> length (fr_data fr) \<and> fr_data fr ! 1 = p) frs"
  by (auto simp: rvc_encode_dc_source_status_1_def rvc_encode_dc_source_status_2_def rvc_single_def is_dc_source_def rvc_pgns rput_u8_def)

lemmas rvc_fields = sched_try_field [where f = r_rbm] sched_try_field [where f = r_next_dc1_ms] sched_try_field [where f = r_next_dc2_ms]

lemma charger_part:
  "list_all (\<lambda>fr. \<not> is_dc_source fr) (fst (rvc_try_charger oor now_ms src t n ([], s)))"
  "r_rbm (snd (rvc_try_charger oor now_ms src t n st)) = r_rbm (snd st)"
  "r_next_dc1_ms (snd (rvc_try_charger oor now_ms src t n st)) = r_next_dc1_ms (snd st)"
  "r_next_dc2_ms (snd (rvc_try_charger oor now_ms src t n st)) = r_next_dc2_ms (snd st)"
  by (auto simp: rvc_try_charger_def Let_def rvc_fields intro!: sched_try_all dest: charger_frames_not_dc)

definition dc_by :: "u8 \<Rightarrow> n2k_frame_t \<Rightarrow> bool" where
  "dc_by p fr \<longleftrightarrow> (is_dc_source fr \<longrightarrow> 2 \<le> length (fr_data fr) \<and> fr_data fr ! 1 = p)"

lemma tick_dc_priority: "list_all (dc_by (rbm_our_priority (r_rbm s))) (fst (rvc_sched_tick oor s now_ms ready src t n))"
proof -
  let ?p = "rbm_our_priority (r_rbm s)"
  have c: "list_all (dc_by ?p) (fst (rvc_try_charger oor now_ms src t n ([], s)))"
    using charger_part(1) [of oor now_ms src t n s] by (simp add: list_all_iff dc_by_def)
  have d1: "list_all (dc_by ?p) frs" if "rvc_encode_dc_source_status_1 oor t i ?p src = Some frs" for i frs
    using dc_frames_priority(1) [OF that] by (simp add: list_all_iff dc_by_def)
  have d2: "list_all (dc_by ?p) frs" if "rvc_encode_dc_source_status_2 oor t i ?p src = Some frs" for i frs
    using dc_frames_priority(2) [OF that] by (simp add: list_all_iff dc_by_def)
  have "list_all (dc_by ?p) (fst (rvc_try_dc_source oor now_ms src t n (rvc_try_charger oor now_ms src t n ([], s))))"
    unfolding rvc_try_dc_source_def Let_def using c by (auto intro!: sched_try_all simp: charger_part rvc_fields intro: d1 d2)
  then show ?thesis by (simp add: rvc_sched_tick_def)
qed

text \<open>The charger groups of a tick depend on their own deadlines and the device priority alone, and a tick
  puts DC source frames after them.\<close>

definition charger_view :: "rvc_sched_t \<Rightarrow> u32 \<times> u32 \<times> u8" where
  "charger_view s = (r_next_charger_status_ms s, r_next_charger_status2_ms s, rbm_our_priority (r_rbm s))"

lemma charger_view_dc [simp]:
  "charger_view (s\<lparr>r_next_dc1_ms := v\<rparr>) = charger_view s" "charger_view (s\<lparr>r_next_dc2_ms := v\<rparr>) = charger_view s"
  by (simp_all add: charger_view_def)

lemma charger_same:
  assumes "charger_view s = charger_view s'"
  shows "fst (rvc_try_charger oor now_ms src t n ([], s)) = fst (rvc_try_charger oor now_ms src t n ([], s'))"
    "charger_view (snd (rvc_try_charger oor now_ms src t n ([], s))) = charger_view (snd (rvc_try_charger oor now_ms src t n ([], s')))"
  using assms by (auto simp: rvc_try_charger_def sched_try_def charger_view_def Let_def split: option.splits)

lemma sched_try_filter:
  assumes "\<And>room frs. enc (snd st) room = Some frs \<Longrightarrow> list_all (\<lambda>fr. \<not> P fr) frs"
  shows "filter P (fst (sched_try now_ms n next_of enc upd st)) = filter P (fst st)"
  using assms by (cases st) (auto simp: sched_try_def list_all_iff filter_empty_conv split: option.splits)

lemma dc_part:
  "filter (\<lambda>fr. \<not> is_dc_source fr) (fst (rvc_try_dc_source oor now_ms src t n st)) = filter (\<lambda>fr. \<not> is_dc_source fr) (fst st)"
  "charger_view (snd (rvc_try_dc_source oor now_ms src t n st)) = charger_view (snd st)"
proof -
  have d1: "list_all (\<lambda>fr. \<not> \<not> is_dc_source fr) frs" if "rvc_encode_dc_source_status_1 oor t i p src = Some frs" for frs i p
    using dc_frames_priority(1) [OF that] by (simp add: list_all_iff)
  have d2: "list_all (\<lambda>fr. \<not> \<not> is_dc_source fr) frs" if "rvc_encode_dc_source_status_2 oor t i p src = Some frs" for frs i p
    using dc_frames_priority(2) [OF that] by (simp add: list_all_iff)
  show "filter (\<lambda>fr. \<not> is_dc_source fr) (fst (rvc_try_dc_source oor now_ms src t n st)) = filter (\<lambda>fr. \<not> is_dc_source fr) (fst st)"
    unfolding rvc_try_dc_source_def Let_def by (auto simp: sched_try_filter [OF d1] sched_try_filter [OF d2])
  show "charger_view (snd (rvc_try_dc_source oor now_ms src t n st)) = charger_view (snd st)"
    by (simp add: rvc_try_dc_source_def Let_def sched_try_field [where f = charger_view])
qed

lemma tick_charger_frames:
  "filter (\<lambda>fr. \<not> is_dc_source fr) (fst (rvc_sched_tick oor s now_ms ready src t n)) =
     (if ready then fst (rvc_try_charger oor now_ms src t n ([], s)) else [])"
  "charger_view (snd (rvc_sched_tick oor s now_ms ready src t n)) =
     (if ready then charger_view (snd (rvc_try_charger oor now_ms src t n ([], s))) else charger_view s)"
  using charger_part(1) [of oor now_ms src t n s]
  by (auto simp: rvc_sched_tick_def dc_part filter_id_conv list_all_iff)

lemma deferred_tick:
  assumes "rvc_rbm_defer (r_rbm s) now_ms"
  shows "fst (rvc_sched_tick oor s now_ms ready src t n) =
      (if ready then fst (rvc_try_charger oor now_ms src t n ([], s)) else [])"
    "r_rbm (snd (rvc_sched_tick oor s now_ms ready src t n)) = r_rbm s"
  using assms charger_part(2) by (simp_all add: rvc_sched_tick_def rvc_try_dc_source_def)

text \<open>A run of a node: ticks and received frames, and the frames its ticks hand out.\<close>

datatype rvc_event =
    RvcTick u32 bool u8 ctrl_telemetry_t nat
  | RvcHeard u32 u32 "u8 list"

fun rvc_time :: "rvc_event \<Rightarrow> u32" where
  "rvc_time (RvcTick now_ms ready src t n) = now_ms"
| "rvc_time (RvcHeard now_ms cid data) = now_ms"

fun is_tick :: "rvc_event \<Rightarrow> bool" where
  "is_tick (RvcTick now_ms ready src t n) = True"
| "is_tick (RvcHeard now_ms cid data) = False"

fun rvc_play :: "int \<Rightarrow> rvc_sched_t \<Rightarrow> rvc_event list \<Rightarrow> n2k_frame_t list" where
  "rvc_play oor s [] = []"
| "rvc_play oor s (RvcTick now_ms ready src t n # es) =
     (case rvc_sched_tick oor s now_ms ready src t n of (out, s) \<Rightarrow> out @ rvc_play oor s es)"
| "rvc_play oor s (RvcHeard now_ms cid data # es) = rvc_play oor (rvc_sched_rx s now_ms cid data) es"

text \<open>Clock readings from \<open>t0\<close> on that do not go back and stay within \<open>d\<close> ms of \<open>t0\<close>, over the wrap of
  the 32-bit clock.\<close>

definition in_window :: "u32 \<Rightarrow> u32 \<Rightarrow> u32 list \<Rightarrow> bool" where
  "in_window t0 d ts \<longleftrightarrow> sorted (map (\<lambda>t. t - t0) ts) \<and> list_all (\<lambda>t. t - t0 < d) ts"

definition silenced :: "u32 \<Rightarrow> u32 list \<Rightarrow> rvc_sched_t \<Rightarrow> bool" where
  "silenced t0 ts s \<longleftrightarrow> rbm_master_seen (r_rbm s) \<and>
     list_all (\<lambda>t. rbm_master_last_ms (r_rbm s) - t0 \<le> t - t0) ts"

lemma silenced_defer:
  assumes "silenced t0 (t # ts) s" "t - t0 < 1500"
  shows "rvc_rbm_defer (r_rbm s) t"
proof -
  have l: "rbm_master_last_ms (r_rbm s) - t0 \<le> t - t0" using assms(1) by (simp add: silenced_def)
  have "t - rbm_master_last_ms (r_rbm s) = (t - t0) - (rbm_master_last_ms (r_rbm s) - t0)" by simp
  also have "\<dots> \<le> t - t0" using l by (rule word_sub_le)
  finally show ?thesis using assms by (auto simp: silenced_def rvc_rbm_defer_def RVC_RBM_TIMEOUT_MS_def)
qed

lemma silenced_rx:
  "silenced t0 (t # ts) s \<Longrightarrow> sorted (map (\<lambda>t. t - t0) (t # ts)) \<Longrightarrow> silenced t0 ts (rvc_sched_rx s t cid data)"
  by (auto simp: silenced_def rvc_sched_rx_def rvc_rbm_rx_def Let_def list_all_iff)

lemma silenced_tick:
  "silenced t0 (t # ts) s \<Longrightarrow> t - t0 < 1500 \<Longrightarrow> silenced t0 ts (snd (rvc_sched_tick oor s t ready src tel n))"
  using deferred_tick(2) [OF silenced_defer [of t0 t ts s]] by (simp add: silenced_def)

lemma rx_charger_view: "charger_view (rvc_sched_rx s t cid data) = charger_view s"
  by (simp add: charger_view_def rvc_sched_rx_def rvc_rbm_rx_def Let_def)

lemma silenced_run:
  assumes "silenced t0 (map rvc_time es) s" "in_window t0 1500 (map rvc_time es)" "charger_view s = charger_view s'"
  shows "rvc_play oor s es = filter (\<lambda>fr. \<not> is_dc_source fr) (rvc_play oor s' (filter is_tick es))"
  using assms
proof (induction es arbitrary: s s')
  case (Cons e es)
  have w: "in_window t0 1500 (map rvc_time es)" "rvc_time e - t0 < 1500" using Cons.prems(2) by (auto simp: in_window_def)
  show ?case
  proof (cases e)
    case (RvcHeard now_ms cid data)
    have "silenced t0 (map rvc_time es) (rvc_sched_rx s now_ms cid data)"
      using Cons.prems(1,2) RvcHeard by (intro silenced_rx) (simp_all add: in_window_def)
    from Cons.IH [OF this w(1)] show ?thesis using Cons.prems(3) RvcHeard by (simp add: rx_charger_view)
  next
    case (RvcTick now_ms ready src t n)
    let ?s = "snd (rvc_sched_tick oor s now_ms ready src t n)" and ?s' = "snd (rvc_sched_tick oor s' now_ms ready src t n)"
    have sl: "silenced t0 (now_ms # map rvc_time es) s" "now_ms - t0 < 1500" using Cons.prems(1) w(2) RvcTick by simp_all
    have "charger_view ?s = charger_view ?s'"
      using charger_same(2) [OF Cons.prems(3)] Cons.prems(3) by (simp add: tick_charger_frames)
    note IH = Cons.IH [OF silenced_tick [OF sl] w(1) this]
    have "fst (rvc_sched_tick oor s now_ms ready src t n) =
        filter (\<lambda>fr. \<not> is_dc_source fr) (fst (rvc_sched_tick oor s' now_ms ready src t n))"
      using charger_same(1) [OF Cons.prems(3)] by (simp add: tick_charger_frames deferred_tick(1) [OF silenced_defer [OF sl]])
    then show ?thesis using IH RvcTick by (simp add: split_beta)
  qed
qed simp

text \<open>C36 (safety). Two nodes of this code with different device priorities that hear each other's DC source
  frames. From the reception of such a frame of the higher node and for 1500 ms, through any number of
  ticks with any arguments and any further received frames at clock readings that do not go back, the lower node hands out exactly the frames
  the same ticks would have handed out had it heard nothing, less the DC source frames: its
  charger frames keep their content and cadence. The higher node is not moved by the lower
  one's frames at all.\<close>

theorem one_dc_speaker:
  assumes "rbm_our_priority (r_rbm a) < rbm_our_priority (r_rbm b)"
    and "fb \<in> set (fst (rvc_sched_tick oor b tb rb src_b t_b n_b))" and "is_dc_source fb"
    and "fa \<in> set (fst (rvc_sched_tick oor a ta ra src_a t_a n_a))"
    and "in_window heard 1500 (map rvc_time es)"
  shows "rvc_play oor (rvc_sched_rx a heard (fr_id fb) (fr_data fb)) es =
      filter (\<lambda>fr. \<not> is_dc_source fr) (rvc_play oor a (filter is_tick es)) \<and>
    rvc_sched_rx b heard (fr_id fa) (fr_data fa) = b"
proof -
  have fb: "2 \<le> length (fr_data fb)" "fr_data fb ! 1 = rbm_our_priority (r_rbm b)"
    using tick_dc_priority [of b oor tb rb src_b t_b n_b] assms(2,3) by (auto simp: list_all_iff dc_by_def)
  have fa: "is_dc_source fa \<longrightarrow> fr_data fa ! 1 = rbm_our_priority (r_rbm a)"
    using tick_dc_priority [of a oor ta ra src_a t_a n_a] assms(4) by (auto simp: list_all_iff dc_by_def)
  have "silenced heard (map rvc_time es) (rvc_sched_rx a heard (fr_id fb) (fr_data fb))"
    using fb assms(1,3) by (auto simp: silenced_def rvc_sched_rx_def rvc_rbm_rx_def is_dc_source_def Let_def list_all_iff)
  from silenced_run [OF this assms(5) rx_charger_view]
  have "rvc_play oor (rvc_sched_rx a heard (fr_id fb) (fr_data fb)) es =
      filter (\<lambda>fr. \<not> is_dc_source fr) (rvc_play oor a (filter is_tick es))" .
  moreover have "rvc_rbm_rx (r_rbm b) heard (fr_id fa) (fr_data fa) = r_rbm b"
    using fa assms(1) by (auto simp: rvc_rbm_rx_def is_dc_source_def Let_def)
  ultimately show ?thesis by (simp add: rvc_sched_rx_def)
qed

text \<open>Priority 80 against a battery monitor at 120.\<close>

lemma boot_tick_dc:
  "\<exists>fr\<in>set (fst (rvc_sched_tick oor (rvc_sched_init p) 0 True src t 4)). is_dc_source fr"
  by (simp add: rvc_sched_tick_def rvc_try_dc_source_def rvc_try_charger_def Let_def sched_try_def rvc_sched_init_def rvc_rbm_init_def
      rvc_rbm_defer_def rvc_encode_charger_status_def rvc_encode_charger_status_2_def rvc_encode_dc_source_status_1_def
      rvc_encode_dc_source_status_2_def rvc_single_def is_dc_source_def rvc_pgns)

theorem one_dc_speaker_witness:
  "\<exists>fb. fb \<in> set (fst (rvc_sched_tick 0 (rvc_sched_init 120) 0 True 60 sample_telemetry 4)) \<and> is_dc_source fb \<and>
    (let es = [RvcTick 1000 True 128 sample_telemetry 32, RvcHeard 1200 0 [], RvcTick 1509 True 128 sample_telemetry 32] in
     rvc_play 0 (rvc_sched_rx (rvc_sched_init 80) 10 (fr_id fb) (fr_data fb)) es =
       filter (\<lambda>fr. \<not> is_dc_source fr) (rvc_play 0 (rvc_sched_init 80) (filter is_tick es)))"
proof -
  obtain fb where fb: "fb \<in> set (fst (rvc_sched_tick 0 (rvc_sched_init 120) 0 True 60 sample_telemetry 4))" "is_dc_source fb"
    using boot_tick_dc by blast
  obtain fa where fa: "fa \<in> set (fst (rvc_sched_tick 0 (rvc_sched_init 80) 0 True 128 sample_telemetry 4))"
    using boot_tick_dc by blast
  let ?es = "[RvcTick 1000 True 128 sample_telemetry 32, RvcHeard 1200 0 [], RvcTick 1509 True 128 sample_telemetry 32]"
  have p: "rbm_our_priority (r_rbm (rvc_sched_init 80)) < rbm_our_priority (r_rbm (rvc_sched_init 120))"
    "in_window 10 1500 (map rvc_time ?es)"
    by (simp_all add: rvc_sched_init_def rvc_rbm_init_def in_window_def)
  show ?thesis unfolding Let_def using one_dc_speaker [OF p(1) fb fa p(2)] fb by blast
qed

text \<open>A node that deferred takes the battery groups up again by itself: at the first tick at least
  1500 ms after the last frame of the higher node (within half the clock range of the last deferred
  tick, and given room for four frames) both DC source groups are in the output.\<close>

theorem dc_source_resumes:
  assumes "rvc_rbm_defer (r_rbm s) now1" and "s1 = snd (rvc_sched_tick oor s now1 True src t1 n1)"
    and "1500 \<le> now2 - rbm_master_last_ms (r_rbm s)" and "unat (now2 - now1) < 2 ^ 31" and "4 \<le> n2"
  shows "let out = set (fst (rvc_sched_tick oor s1 now2 True src t2 n2)); p = rbm_our_priority (r_rbm s) in
    set (the (rvc_encode_dc_source_status_1 oor t2 RVC_INSTANCE_DEFAULT p src)) \<subseteq> out \<and>
    set (the (rvc_encode_dc_source_status_2 oor t2 RVC_INSTANCE_DEFAULT p src)) \<subseteq> out"
proof -
  have s1: "r_rbm s1 = r_rbm s" "r_next_dc1_ms s1 = now1" "r_next_dc2_ms s1 = now1"
    using assms(1) charger_part(2) [of oor now1 src t1 n1 "([], s)"]
    by (simp_all add: assms(2) rvc_sched_tick_def rvc_try_dc_source_def)
  define st where "st = rvc_try_charger oor now2 src t2 n2 ([], s1)"
  have st: "r_rbm (snd st) = r_rbm s" "r_next_dc1_ms (snd st) = now1" "r_next_dc2_ms (snd st) = now1" "length (fst st) \<le> 2"
    using charger_part(2-4) [of oor now2 src t2 n2 "([], s1)"] s1
    by (auto simp: st_def rvc_try_charger_def Let_def sched_try_def rvc_encode_charger_status_def rvc_encode_charger_status_2_def
        rvc_single_def split: if_splits)
  have go: "due now2 now1" "\<not> rvc_rbm_defer (r_rbm s) now2"
    using assms(3,4) by (simp_all add: due_iff rvc_rbm_defer_def RVC_RBM_TIMEOUT_MS_def not_less)
  obtain d1 d2 where d: "rvc_encode_dc_source_status_1 oor t2 RVC_INSTANCE_DEFAULT (rbm_our_priority (r_rbm s)) src = Some [d1]"
    "rvc_encode_dc_source_status_2 oor t2 RVC_INSTANCE_DEFAULT (rbm_our_priority (r_rbm s)) src = Some [d2]"
    by (simp add: rvc_encode_dc_source_status_1_def rvc_encode_dc_source_status_2_def rvc_single_def)
  have "fst (rvc_sched_tick oor s1 now2 True src t2 n2) = fst st @ [d1, d2]"
    using st go d assms(5) by (cases st) (simp add: rvc_sched_tick_def rvc_try_dc_source_def Let_def sched_try_def flip: st_def)
  then show ?thesis by (simp add: d)
qed

theorem dc_source_resumes_witness:
  "let s = (rvc_sched_init 80)\<lparr>r_rbm := \<lparr>rbm_our_priority = 80, rbm_master_seen = True, rbm_master_priority = 120, rbm_master_last_ms = 0xFFFFFF00\<rparr>\<rparr>;
       s1 = snd (rvc_sched_tick 0 s 0 True 128 sample_telemetry 32) in
   set (the (rvc_encode_dc_source_status_1 0 sample_telemetry RVC_INSTANCE_DEFAULT 80 128))
     \<subseteq> set (fst (rvc_sched_tick 0 s1 1500 True 128 sample_telemetry 32))"
proof -
  let ?s = "(rvc_sched_init 80)\<lparr>r_rbm := \<lparr>rbm_our_priority = 80, rbm_master_seen = True, rbm_master_priority = 120, rbm_master_last_ms = 0xFFFFFF00\<rparr>\<rparr>"
  have "rvc_rbm_defer (r_rbm ?s) 0" by (simp add: rvc_rbm_defer_def RVC_RBM_TIMEOUT_MS_def)
  from dc_source_resumes [OF this refl, of 1500 32 0 128 sample_telemetry 32 sample_telemetry] show ?thesis by (simp add: Let_def)
qed

section \<open>Reading the battery current\<close>

definition le32 :: "u8 list \<Rightarrow> nat \<Rightarrow> u32" where
  "le32 bs k = ucast (le16 bs k) OR push_bit 16 (ucast (le16 bs (k + 2)))"

lemma rput_u16_eq: "rput_u16 v = nput_u16 v"
  by (simp add: rput_u16_def nput_u16_def)

lemma le32_halves: "ucast (ucast (v AND 0xFFFF) :: u16) OR push_bit 16 (ucast (ucast (drop_bit 16 v AND 0xFFFF) :: u16)) = (v :: u32)"
proof -
  have m: "(0xFFFF :: u32) = mask 16" by (simp add: mask_eq_exp_minus_1)
  show ?thesis unfolding m by (rule bit_word_eqI) (auto simp: bit_simps dest: bit_imp_le_length)
qed

lemma le32_put: "length pre = k \<Longrightarrow> le32 (pre @ rput_u32 v) k = v"
  using le16_put [of pre k "ucast (v AND 0xFFFF)" "nput_u16 (ucast (drop_bit 16 v AND 0xFFFF))"]
    le16_put [of "pre @ nput_u16 (ucast (v AND 0xFFFF))" "k + 2" "ucast (drop_bit 16 v AND 0xFFFF)" "[]"]
  by (simp add: le32_def rput_u32_def rput_u16_eq nput_lengths le32_halves)

lemma fval_uminus: "isfinite x \<Longrightarrow> isfinite (- x) \<and> fval (- x) = - fval x"
  by (cases "fpv x") (simp_all add: isfinite_def fp_finite_def fval_def fkey_def fp_simps)

text \<open>A listener of DC source status 1 that takes 2 000 000 000 off the current field reads, in
  milliamperes and with discharge positive, the negated battery current within 0.51 mA for currents
  up to 2 000 000 A either way, and the voltage field within 25.5 mV up to 3276 V; a measurement that is not
  finite reads as "not available" and no finite one does.\<close>

theorem dc_source_decodes:
  assumes "rvc_encode_dc_source_status_1 oor t instnce priority src = Some frs"
    and "le16 (fr_data (hd frs)) 2 = rv" and "le32 (fr_data (hd frs)) 4 = ra"
  shows "length frs = 1 \<and> length (fr_data (hd frs)) = 8 \<and>
    (rv = RVC_NA_U16 \<longleftrightarrow> \<not> isfinite (t_vbat_pack_v t)) \<and>
    (isfinite (t_vbat_pack_v t) \<and> 0 \<le> fval (t_vbat_pack_v t) \<and> fval (t_vbat_pack_v t) \<le> 3276 \<longrightarrow>
       \<bar>of_int (uint rv) / 20 - fval (t_vbat_pack_v t)\<bar> \<le> 255 / 10000) \<and>
    (isfinite (t_amps_batt t) \<and> \<bar>fval (t_amps_batt t)\<bar> \<le> 2000000 \<longrightarrow>
       \<bar>of_int (uint ra - 2000000000) / 1000 + fval (t_amps_batt t)\<bar> \<le> 51 / 100000)"
proof -
  have data: "fr_data (hd frs) = [instnce, priority] @ rput_u16 (enc_u16_unsigned oor (t_vbat_pack_v t) (dlit (5 / 100)))
      @ rput_u32 (enc_u32_offset oor (- t_amps_batt t) (dlit (1 / 1000)) 2000000000)" and len: "length frs = 1"
    using assms(1) by (auto simp: rvc_encode_dc_source_status_1_def rvc_single_def rput_u8_def)
  have rv: "rv = enc_u16_unsigned oor (t_vbat_pack_v t) (dlit (5 / 100))"
    unfolding assms(2) [symmetric] data rput_u16_eq by (rule le16_put) simp
  have ra: "ra = enc_u32_offset oor (- t_amps_batt t) (dlit (1 / 1000)) 2000000000"
    unfolding assms(3) [symmetric] data append_assoc [symmetric] by (rule le32_put) (simp add: rput_u16_eq nput_lengths)
  have "\<bar>of_int (uint rv) / 20 - fval (t_vbat_pack_v t)\<bar> \<le> 255 / 10000"
    if "isfinite (t_vbat_pack_v t)" "0 \<le> fval (t_vbat_pack_v t)" "fval (t_vbat_pack_v t) \<le> 3276"
    using that rvc_volts.decodes [of "t_vbat_pack_v t" oor] by (simp add: rv)
  moreover have "\<bar>of_int (uint ra - 2000000000) / 1000 + fval (t_amps_batt t)\<bar> \<le> 51 / 100000"
    if "isfinite (t_amps_batt t)" "\<bar>fval (t_amps_batt t)\<bar> \<le> 2000000"
    using that dc_amps.decodes [of "- t_amps_batt t" oor] fval_uminus [OF that(1)] by (simp add: ra abs_le_iff)
  ultimately show ?thesis using len rvc_volts.na_iff [of oor "t_vbat_pack_v t"]
    by (simp add: data rv rput_u16_eq rput_u32_def nput_lengths)
qed

theorem dc_source_decodes_witness:
  "\<bar>of_int (uint (le32 (fr_data (hd (the (rvc_encode_dc_source_status_1 0 sample_telemetry 1 80 128)))) 4) - 2000000000) / 1000 + 40\<bar>
     \<le> (51 / 100000 :: rat)"
proof -
  have e: "rvc_encode_dc_source_status_1 0 sample_telemetry 1 80 128 = Some (the (rvc_encode_dc_source_status_1 0 sample_telemetry 1 80 128))"
    by (simp add: rvc_encode_dc_source_status_1_def rvc_single_def)
  show ?thesis using dc_source_decodes [OF e refl refl] sample_readings by (simp add: sample_telemetry_def)
qed

end
