(* ===== verification/Ring.thy ===== *)
theory Ring
  imports Prelude
begin

text \<open>
  Ring buffers with a write and a read index: \<open>bounded_queue\<close> is what their users rely on, \<open>ring_size\<close> the arithmetic
  of indices modulo the size, and \<open>byte_ring\<close> the rings of octets of \<open>Core/Src/usb_cdc.c\<close>, whose indices are
  16-bit.
\<close>

section \<open>Bounded queues\<close>

text \<open>What a port relies on in its queue: a full queue refuses, and elements leave in order.\<close>

locale bounded_queue =
  fixes ok :: "'q \<Rightarrow> bool" and contents :: "'q \<Rightarrow> 'a list"
    and put :: "'q \<Rightarrow> 'a \<Rightarrow> 'q" and front :: "'q \<Rightarrow> 'a" and pop :: "'q \<Rightarrow> 'q"
    and empty :: "'q \<Rightarrow> bool" and cap :: nat
  assumes put_ok: "ok q \<Longrightarrow> ok (put q x)"
    and put_contents: "ok q \<Longrightarrow> contents (put q x) = (if length (contents q) < cap then contents q @ [x] else contents q)"
    and pop_ok: "ok q \<Longrightarrow> \<not> empty q \<Longrightarrow> ok (pop q)"
    and pop_contents: "ok q \<Longrightarrow> \<not> empty q \<Longrightarrow> contents q = front q # contents (pop q)"
    and empty_contents: "ok q \<Longrightarrow> empty q \<longleftrightarrow> contents q = []"
    and capacity: "ok q \<Longrightarrow> length (contents q) \<le> cap"
begin

lemma put_all_ok: "ok q \<Longrightarrow> ok (foldl put q xs)"
  by (induction xs arbitrary: q) (auto intro: put_ok)

lemma put_all: "ok q \<Longrightarrow> contents (foldl put q xs) = take cap (contents q @ xs)"
proof (induction xs arbitrary: q)
  case Nil
  then show ?case by (simp add: capacity)
next
  case (Cons x xs)
  then show ?case using capacity [of q] by (auto simp: put_ok put_contents take_Cons' not_less)
qed

end

section \<open>Indices\<close>

locale ring_size =
  fixes n :: nat
  assumes size: "1 < n"
begin

lemma wrap_diff: "w < n \<Longrightarrow> r < n \<Longrightarrow> (w + n - r) mod n = (if r \<le> w then w - r else w + n - r)"
  by (auto simp: le_mod_geq)

lemma wrap_sum: "x < 2 * n \<Longrightarrow> x mod n = (if x < n then x else x - n)"
  by (simp add: le_mod_geq)

lemma count_wraps:
  assumes "w < n" "r < n"
  shows "((w + 1) mod n = r) = ((w + n - r) mod n = n - 1)"
    and "(w + 1) mod n \<noteq> r \<Longrightarrow> ((w + 1) mod n + n - r) mod n = Suc ((w + n - r) mod n)"
    and "w \<noteq> r \<Longrightarrow> (w + n - r) mod n = Suc ((w + n - (r + 1) mod n) mod n)"
    and "((w + n - r) mod n = 0) = (w = r)"
    and "(r + (w + n - r) mod n) mod n = w"
    and "k < (w + n - r) mod n \<Longrightarrow> (r + k) mod n \<noteq> w"
  using assms size by (auto simp: wrap_diff wrap_sum split: if_splits)

lemma count_le: "(w + n - r) mod n \<le> n - 1"
  using size mod_less_divisor [of n "w + n - r"] by linarith

end

section \<open>Rings of octets\<close>

record byte_ring =
  br_slots :: "u8 list"
  br_w :: u16
  br_r :: u16

definition br_next :: "u32 \<Rightarrow> u16 \<Rightarrow> u16" where
  "br_next n i = ucast ((ucast i + 1) mod n)"

definition br_used :: "u32 \<Rightarrow> byte_ring \<Rightarrow> u16" where
  "br_used n q = ucast ((ucast (br_w q) - ucast (br_r q) + n) mod n)"

definition br_free :: "u32 \<Rightarrow> byte_ring \<Rightarrow> u16" where
  "br_free n q = ucast (n - 1 - ucast (br_used n q))"

definition br_store :: "u32 \<Rightarrow> byte_ring \<Rightarrow> u8 \<Rightarrow> byte_ring" where
  "br_store n q c = q\<lparr>br_slots := (br_slots q)[unat (br_w q) := c], br_w := br_next n (br_w q)\<rparr>"

definition br_front :: "byte_ring \<Rightarrow> u8" where
  "br_front q = br_slots q ! unat (br_r q)"

definition br_pop :: "u32 \<Rightarrow> byte_ring \<Rightarrow> byte_ring" where
  "br_pop n q = q\<lparr>br_r := br_next n (br_r q)\<rparr>"

text \<open>A store that a full ring refuses, as in the loop of \<open>usb_cdc_write\<close>.\<close>

definition br_put :: "u32 \<Rightarrow> byte_ring \<Rightarrow> u8 \<Rightarrow> byte_ring" where
  "br_put n q c = (if 0 < br_free n q then br_store n q c else q)"

definition br_ok :: "u32 \<Rightarrow> byte_ring \<Rightarrow> bool" where
  "br_ok n q \<longleftrightarrow> length (br_slots q) = unat n \<and> unat (br_w q) < unat n \<and> unat (br_r q) < unat n"

definition br_count :: "u32 \<Rightarrow> byte_ring \<Rightarrow> nat" where
  "br_count n q = (unat (br_w q) + unat n - unat (br_r q)) mod unat n"

definition br_contents :: "u32 \<Rightarrow> byte_ring \<Rightarrow> u8 list" where
  "br_contents n q = map (\<lambda>k. br_slots q ! ((unat (br_r q) + k) mod unat n)) [0..<br_count n q]"

definition br_empty :: "u32 \<Rightarrow> byte_ring" where
  "br_empty n = \<lparr>br_slots = replicate (unat n) 0, br_w = 0, br_r = 0\<rparr>"

lemma unat_narrow: "unat x < 65536 \<Longrightarrow> unat (ucast (x :: u32) :: u16) = unat x"
  by (simp add: unsigned_ucast_eq take_bit_nat_eq_self)

locale octet_ring =
  fixes n :: u32
  assumes bounds: "1 < unat n" "unat n \<le> 0x8000"
begin

lemma wrap: "ring_size (unat n)"
  by unfold_locales (rule bounds)

lemma next_unat [simp]: "unat i < unat n \<Longrightarrow> unat (br_next n i) = (unat i + 1) mod unat n"
proof -
  assume "unat i < unat n"
  then have "unat (ucast i + 1 :: u32) = unat i + 1" using bounds by (subst unat_add_lem [THEN iffD1]) (simp_all add: unat_ucast_u16)
  then have m: "unat ((ucast i + 1) mod n :: u32) = (unat i + 1) mod unat n" by (simp add: unat_mod_distrib)
  have "(unat i + 1) mod unat n < unat n" using bounds by simp
  then have "(unat i + 1) mod unat n < 65536" using bounds by linarith
  then show ?thesis unfolding br_next_def by (subst unat_narrow) (simp_all only: m)
qed

lemma used_unat: "br_ok n q \<Longrightarrow> unat (br_used n q) = br_count n q"
proof -
  assume ok: "br_ok n q"
  have b: "unat (br_w q) < unat n" "unat (br_r q) < unat n" using ok by (simp_all add: br_ok_def)
  have "(ucast (br_w q) - ucast (br_r q) + n :: u32) = (ucast (br_w q) + n) - ucast (br_r q)" by simp
  moreover have "unat ((ucast (br_w q) + n) - ucast (br_r q) :: u32) = unat (br_w q) + unat n - unat (br_r q)"
  proof -
    have s: "unat (ucast (br_w q) + n :: u32) = unat (br_w q) + unat n"
      using b bounds by (subst unat_add_lem [THEN iffD1]) (simp_all add: unat_ucast_u16)
    have "(ucast (br_r q) :: u32) \<le> ucast (br_w q) + n" using b by (simp add: word_le_nat_alt s unat_ucast_u16)
    then show ?thesis by (simp add: unat_sub s unat_ucast_u16)
  qed
  ultimately have "unat (ucast (br_w q) - ucast (br_r q) + n :: u32) = unat (br_w q) + unat n - unat (br_r q)" by (simp only:)
  then have m: "unat ((ucast (br_w q) - ucast (br_r q) + n) mod n :: u32) = br_count n q" by (simp only: unat_mod_distrib br_count_def)
  have "br_count n q < unat n" using bounds by (simp add: br_count_def)
  then have "br_count n q < 65536" using bounds by linarith
  then show ?thesis unfolding br_used_def by (subst unat_narrow) (simp_all only: m)
qed

lemma count_le: "br_count n q \<le> unat n - 1"
  unfolding br_count_def by (rule ring_size.count_le [OF wrap])

lemma free_unat: "br_ok n q \<Longrightarrow> unat (br_free n q) = unat n - 1 - br_count n q"
proof -
  assume ok: "br_ok n q"
  have o: "unat (n - 1) = unat n - 1" using bounds by (subst unat_sub) (simp_all add: word_le_nat_alt)
  have u: "unat (ucast (br_used n q) :: u32) = br_count n q" by (simp add: unat_ucast_u16 used_unat [OF ok])
  have "(ucast (br_used n q) :: u32) \<le> n - 1" using count_le [of q] by (simp add: word_le_nat_alt o u)
  then have m: "unat (n - 1 - ucast (br_used n q) :: u32) = unat n - 1 - br_count n q" by (simp add: unat_sub o u)
  have "unat n - 1 - br_count n q < 65536" using bounds by linarith
  then show ?thesis unfolding br_free_def by (subst unat_narrow) (simp_all only: m)
qed

lemma contents_length: "length (br_contents n q) = br_count n q"
  by (simp add: br_contents_def)

lemma store_ok: "br_ok n q \<Longrightarrow> br_ok n (br_store n q c)"
  using bounds by (simp add: br_ok_def br_store_def)

lemma store_contents:
  assumes "br_ok n q" "br_count n q < unat n - 1"
  shows "br_contents n (br_store n q c) = br_contents n q @ [c]"
proof -
  let ?w = "unat (br_w q)" and ?r = "unat (br_r q)"
  have b: "?w < unat n" "?r < unat n" "length (br_slots q) = unat n" using assms(1) by (simp_all add: br_ok_def)
  note w = ring_size.count_wraps [OF wrap b(1,2)]
  have "(?w + 1) mod unat n \<noteq> ?r" using w(1) assms(2) by (simp add: br_count_def)
  then have k: "br_count n (br_store n q c) = Suc (br_count n q)" using b w(2) by (simp add: br_store_def br_count_def)
  have "(br_slots q)[?w := c] ! ((?r + k) mod unat n) = br_slots q ! ((?r + k) mod unat n)" if "k < br_count n q" for k
    using w(6) [of k] that by (metis nth_list_update_neq br_count_def)
  moreover have "(br_slots q)[?w := c] ! ((?r + br_count n q) mod unat n) = c" using w(5) b by (simp add: br_count_def)
  ultimately show ?thesis by (simp add: br_contents_def k) (simp add: br_store_def)
qed

lemma put_ok: "br_ok n q \<Longrightarrow> br_ok n (br_put n q c)"
  by (simp add: br_put_def store_ok)

lemma put_contents:
  "br_ok n q \<Longrightarrow> br_contents n (br_put n q c) = (if length (br_contents n q) < unat n - 1 then br_contents n q @ [c] else br_contents n q)"
  using free_unat [of q] by (auto simp: br_put_def contents_length store_contents word_less_nat_alt)

lemma pop_ok: "br_ok n q \<Longrightarrow> br_ok n (br_pop n q)"
  using bounds by (simp add: br_ok_def br_pop_def)

lemma empty_iff: "br_ok n q \<Longrightarrow> br_r q = br_w q \<longleftrightarrow> br_contents n q = []"
proof -
  assume ok: "br_ok n q"
  have "br_contents n q = [] \<longleftrightarrow> br_count n q = 0" by (simp add: br_contents_def)
  also have "\<dots> \<longleftrightarrow> br_r q = br_w q" using ring_size.count_wraps(4) [OF wrap, of "unat (br_w q)" "unat (br_r q)"] ok
    by (auto simp: br_ok_def br_count_def word_unat_eq_iff)
  finally show ?thesis by simp
qed

lemma pop_contents:
  assumes "br_ok n q" "br_r q \<noteq> br_w q"
  shows "br_contents n q = br_front q # br_contents n (br_pop n q)"
proof -
  let ?w = "unat (br_w q)" and ?r = "unat (br_r q)"
  have b: "?w < unat n" "?r < unat n" using assms(1) by (simp_all add: br_ok_def)
  from assms(2) have "?w \<noteq> ?r" by (simp add: word_unat_eq_iff)
  then have k: "br_count n q = Suc (br_count n (br_pop n q))"
    using ring_size.count_wraps(3) [OF wrap b] b by (simp add: br_count_def br_pop_def)
  have "((?r + 1) mod unat n + k) mod unat n = (?r + Suc k) mod unat n" for k by (simp add: mod_add_left_eq)
  then show ?thesis using b
    by (simp add: br_contents_def k br_front_def br_pop_def upt_conv_Cons map_Suc_upt [symmetric] comp_def del: upt_Suc)
qed

lemma empty_ok: "br_ok n (br_empty n)" "br_contents n (br_empty n) = []"
  using bounds by (simp_all add: br_ok_def br_empty_def br_contents_def br_count_def)

sublocale queue: bounded_queue "br_ok n" "br_contents n" "br_put n" br_front "br_pop n" "\<lambda>q. br_r q = br_w q" "unat n - 1"
  by unfold_locales (simp_all add: put_ok put_contents pop_ok pop_contents empty_iff contents_length count_le [simplified])

end

end
