(* ===== verification/Can_Bus.thy ===== *)
theory Can_Bus
  imports Err_Budget N2k_AddrClaim N2k_Sched Rvc_Sched Ring
begin

text \<open>
  The CAN port, \<open>Core/Src/can_n2k.c\<close>: device identities, receive filters, the software transmit
  ring in front of the three mailboxes, and the calls the main loop makes. The static variables
  are the record \<open>can_port\<close>; the HAL is a record of functions on a peripheral state
  \<open>'h\<close>, each call of which may advance that state. The ring is related to the bounded
  queue it implements by the locale \<open>bounded_queue\<close>.
\<close>

section \<open>Transmit ring\<close>

definition N2K_TX_RING :: u16 where "N2K_TX_RING = 64"
definition N2K_SCHED_BATCH :: nat where "N2K_SCHED_BATCH = 32"
definition N2K_AC_BATCH :: nat where "N2K_AC_BATCH = 4"

text \<open>The statics \<open>s_tx_ring\<close>, \<open>s_tx_w\<close>, \<open>s_tx_r\<close> and \<open>s_tx_dropped\<close>.\<close>

record tx_ring =
  tx_slots :: "n2k_frame_t list"
  tx_w :: u16
  tx_r :: u16
  tx_dropped :: u32

definition ring_next :: "u16 \<Rightarrow> u16" where
  "ring_next i = (i + 1) mod N2K_TX_RING"

text \<open>One turn of the loop of \<open>can_tx_enqueue\<close>.\<close>

definition ring_put :: "tx_ring \<Rightarrow> n2k_frame_t \<Rightarrow> tx_ring" where
  "ring_put q fr =
     (if ring_next (tx_w q) = tx_r q then q\<lparr>tx_dropped := tx_dropped q + 1\<rparr>
      else q\<lparr>tx_slots := (tx_slots q)[unat (tx_w q) := fr], tx_w := ring_next (tx_w q)\<rparr>)"

definition ring_front :: "tx_ring \<Rightarrow> n2k_frame_t" where
  "ring_front q = tx_slots q ! unat (tx_r q)"

definition ring_pop :: "tx_ring \<Rightarrow> tx_ring" where
  "ring_pop q = q\<lparr>tx_r := ring_next (tx_r q)\<rparr>"

section \<open>The ring is a bounded queue\<close>

definition ring_ok :: "tx_ring \<Rightarrow> bool" where
  "ring_ok q \<longleftrightarrow> length (tx_slots q) = 64 \<and> unat (tx_w q) < 64 \<and> unat (tx_r q) < 64"

definition ring_count :: "tx_ring \<Rightarrow> nat" where
  "ring_count q = (unat (tx_w q) + 64 - unat (tx_r q)) mod 64"

definition ring_contents :: "tx_ring \<Rightarrow> n2k_frame_t list" where
  "ring_contents q = map (\<lambda>k. tx_slots q ! ((unat (tx_r q) + k) mod 64)) [0..<ring_count q]"

lemma ring_next_unat [simp]: "unat i < 64 \<Longrightarrow> unat (ring_next i) = (unat i + 1) mod 64"
  by (simp add: ring_next_def N2K_TX_RING_def unat_mod_distrib unat_add_lem [THEN iffD1])

interpretation wrap: ring_size 64
  by unfold_locales simp

lemma slot_count_wraps:
  fixes w r :: nat
  assumes "w < 64" "r < 64"
  shows "((w + 1) mod 64 = r) = ((w + 64 - r) mod 64 = 63)"
    and "(w + 1) mod 64 \<noteq> r \<Longrightarrow> ((w + 1) mod 64 + 64 - r) mod 64 = Suc ((w + 64 - r) mod 64)"
    and "w \<noteq> r \<Longrightarrow> (w + 64 - r) mod 64 = Suc ((w + 64 - (r + 1) mod 64) mod 64)"
    and "((w + 64 - r) mod 64 = 0) = (w = r)"
    and "(r + (w + 64 - r) mod 64) mod 64 = w"
    and "k < (w + 64 - r) mod 64 \<Longrightarrow> (r + k) mod 64 \<noteq> w"
  using wrap.count_wraps [OF assms] by simp_all

lemma ring_full:
  assumes "ring_ok q"
  shows "ring_next (tx_w q) = tx_r q \<longleftrightarrow> ring_count q = 63"
proof -
  have "ring_next (tx_w q) = tx_r q \<longleftrightarrow> unat (ring_next (tx_w q)) = unat (tx_r q)" by (simp add: word_unat_eq_iff)
  then show ?thesis using assms slot_count_wraps(1) [of "unat (tx_w q)" "unat (tx_r q)"] by (simp add: ring_ok_def ring_count_def)
qed

lemma ring_count_le: "ring_count q \<le> 63"
  using mod_less_divisor [of 64 "unat (tx_w q) + 64 - unat (tx_r q)"] by (simp add: ring_count_def)

lemma ring_empty: "ring_ok q \<Longrightarrow> tx_r q = tx_w q \<longleftrightarrow> ring_count q = 0"
  by (auto simp: ring_ok_def ring_count_def slot_count_wraps(4) word_unat_eq_iff)

lemma ring_put_ok: "ring_ok q \<Longrightarrow> ring_ok (ring_put q fr)"
  by (simp add: ring_ok_def ring_put_def)

lemma ring_put_contents:
  assumes "ring_ok q"
  shows "ring_contents (ring_put q fr) = (if length (ring_contents q) < 63 then ring_contents q @ [fr] else ring_contents q)"
proof (cases "ring_count q = 63")
  case True
  then show ?thesis using ring_full [OF assms] by (simp add: ring_put_def ring_contents_def ring_count_def)
next
  case False
  let ?w = "unat (tx_w q)" and ?r = "unat (tx_r q)"
  from assms have b: "?w < 64" "?r < 64" "length (tx_slots q) = 64" by (simp_all add: ring_ok_def)
  from False ring_count_le [of q] have lt: "ring_count q < 63" by simp
  from False ring_full [OF assms] have put: "ring_put q fr = q\<lparr>tx_slots := (tx_slots q)[?w := fr], tx_w := ring_next (tx_w q)\<rparr>"
    by (simp add: ring_put_def)
  from False have "(?w + 1) mod 64 \<noteq> ?r" using slot_count_wraps(1) [OF b(1,2)] by (simp add: ring_count_def)
  then have n: "ring_count (ring_put q fr) = Suc (ring_count q)"
    using b slot_count_wraps(2) [OF b(1,2)] by (simp add: put ring_count_def)
  have "(tx_slots q)[?w := fr] ! ((?r + k) mod 64) = tx_slots q ! ((?r + k) mod 64)" if "k < ring_count q" for k
    using slot_count_wraps(6) [OF b(1,2), of k] that by (metis nth_list_update_neq ring_count_def)
  moreover have "(tx_slots q)[?w := fr] ! ((?r + ring_count q) mod 64) = fr"
    using slot_count_wraps(5) [OF b(1,2)] b by (simp add: ring_count_def)
  ultimately show ?thesis using n lt by (simp add: ring_contents_def put)
qed

lemma ring_pop_ok: "ring_ok q \<Longrightarrow> ring_ok (ring_pop q)"
  by (simp add: ring_ok_def ring_pop_def)

lemma ring_pop_contents:
  assumes "ring_ok q" "tx_r q \<noteq> tx_w q"
  shows "ring_contents q = ring_front q # ring_contents (ring_pop q)"
proof -
  let ?w = "unat (tx_w q)" and ?r = "unat (tx_r q)"
  from assms(1) have b: "?w < 64" "?r < 64" by (simp_all add: ring_ok_def)
  from assms(2) have "?w \<noteq> ?r" by (simp add: word_unat_eq_iff)
  then have n: "ring_count q = Suc (ring_count (ring_pop q))"
    using slot_count_wraps(3) [OF b] b by (simp add: ring_count_def ring_pop_def)
  have "((?r + 1) mod 64 + k) mod 64 = (?r + Suc k) mod 64" for k by (simp add: mod_add_left_eq)
  then show ?thesis using b
    by (simp add: ring_contents_def n ring_front_def ring_pop_def upt_conv_Cons map_Suc_upt [symmetric] comp_def del: upt_Suc)
qed

interpretation ring: bounded_queue ring_ok ring_contents ring_put ring_front ring_pop "\<lambda>q. tx_r q = tx_w q" 63
proof unfold_locales
  fix q x
  assume ok: "ring_ok q"
  show "ring_ok (ring_put q x)" using ok by (rule ring_put_ok)
  show "ring_contents (ring_put q x) = (if length (ring_contents q) < 63 then ring_contents q @ [x] else ring_contents q)"
    using ok by (rule ring_put_contents)
  show "tx_r q \<noteq> tx_w q \<Longrightarrow> ring_ok (ring_pop q)" using ok by (simp add: ring_pop_ok)
  show "tx_r q \<noteq> tx_w q \<Longrightarrow> ring_contents q = ring_front q # ring_contents (ring_pop q)" using ok by (rule ring_pop_contents)
  show "(tx_r q = tx_w q) = (ring_contents q = [])" using ring_empty [OF ok] by (simp add: ring_contents_def)
  show "length (ring_contents q) \<le> 63" by (simp add: ring_contents_def ring_count_le)
qed

section \<open>The HAL\<close>

text \<open>
  \<open>hal_get_rx\<close> gives the extended flag, the identifier and the \<open>DLC\<close> data bytes of a
  message, or \<open>None\<close> for an error; \<open>hal_add_tx\<close>, \<open>hal_init\<close>, \<open>hal_filter\<close> and
  \<open>hal_start\<close> give whether they returned \<open>HAL_OK\<close>.
\<close>

record 'h can_hal =
  hal_tick :: "'h \<Rightarrow> u32 \<times> 'h"
  hal_free_level :: "'h \<Rightarrow> u32 \<times> 'h"
  hal_add_tx :: "'h \<Rightarrow> n2k_frame_t \<Rightarrow> bool \<times> 'h"
  hal_fill_level :: "'h \<Rightarrow> u32 \<times> 'h"
  hal_get_rx :: "'h \<Rightarrow> (bool \<times> u32 \<times> u8 list) option \<times> 'h"
  hal_bus_off :: "'h \<Rightarrow> bool \<times> 'h"
  hal_init :: "'h \<Rightarrow> bool \<times> 'h"
  hal_filter :: "'h \<Rightarrow> u8 \<Rightarrow> u16 \<times> u16 \<times> u16 \<times> u16 \<Rightarrow> bool \<times> 'h"
  hal_start :: "'h \<Rightarrow> bool \<times> 'h"

record 'h can_port =
  cb_hw :: 'h
  cb_ok :: bool
  cb_ac :: n2k_ac_t
  cb_sched :: n2k_sched_t
  cb_bus_off_latched :: bool
  cb_bus_off_events :: u32
  cb_n2k_enabled :: bool
  cb_rvc_enabled :: bool
  cb_rvc_inited :: bool
  cb_rvc_ac :: n2k_ac_t
  cb_rvc_sched :: rvc_sched_t
  cb_tx :: tx_ring
  cb_errb :: errb_table

section \<open>Identity\<close>

definition N2K_PREFERRED_ADDR :: u8 where "N2K_PREFERRED_ADDR = 34"
definition N2K_DEVICE_CLASS :: u8 where "N2K_DEVICE_CLASS = 35"
definition N2K_DEVICE_FUNCTION :: u8 where "N2K_DEVICE_FUNCTION = 141"
definition RVC_PREFERRED_ADDR :: u8 where "RVC_PREFERRED_ADDR = 128"
definition RVC_MFG_CODE_SELFASSIGNED :: u16 where "RVC_MFG_CODE_SELFASSIGNED = 2046"
definition RVC_DEVICE_CLASS :: u8 where "RVC_DEVICE_CLASS = 30"
definition RVC_DEVICE_FUNCTION :: u8 where "RVC_DEVICE_FUNCTION = 129"
definition N2K_PROP_INDUSTRY :: u8 where "N2K_PROP_INDUSTRY = 4"
definition RVC_INDUSTRY_GROUP :: u8 where "RVC_INDUSTRY_GROUP = 0"
definition N2K_MFG_INFO :: string where "N2K_MFG_INFO = ''WS500-OpenFW (MIT, open source)''"
definition FW_VERSION_STRING :: string where "FW_VERSION_STRING = ''0.1.0-dev''"

text \<open>The three words of the unique identifier at \<open>UID_BASE\<close> are the argument \<open>uid\<close>.\<close>

definition HEX_DIGITS :: string where "HEX_DIGITS = ''0123456789ABCDEF''"

definition build_serial :: "u32 list \<Rightarrow> string" where
  "build_serial uid =
     concat (map (\<lambda>v. map (\<lambda>nib. HEX_DIGITS ! unat (drop_bit (nib * 4) v AND 0xF)) (rev [0..<8])) uid)"

definition build_product_info :: "u32 list \<Rightarrow> n2k_product_info_t" where
  "build_product_info uid =
     \<lparr>pi_n2k_version = 2100, pi_product_code = 0, pi_model_id = Some (text_bytes ''WS500-OpenFW''),
      pi_sw_version = Some (text_bytes FW_VERSION_STRING), pi_model_version = Some (text_bytes ''WS500''),
      pi_serial = Some (text_bytes (build_serial uid)), pi_cert_level = 0, pi_load_equiv = 1\<rparr>"

definition build_name :: "u32 list \<Rightarrow> u64" where
  "build_name uid = n2k_name_build
     \<lparr>nf_unique_number = uid ! 0 AND 0x1FFFFF, nf_manufacturer_code = 2046, nf_device_instance_lower = 0,
      nf_device_instance_upper = 0, nf_device_function = N2K_DEVICE_FUNCTION, nf_device_class = N2K_DEVICE_CLASS,
      nf_system_instance = 0, nf_industry_group = N2K_PROP_INDUSTRY, nf_arbitrary_addr_capable = True\<rparr>"

definition build_name_rvc :: "u32 list \<Rightarrow> u64" where
  "build_name_rvc uid = n2k_name_build
     \<lparr>nf_unique_number = uid ! 0 AND 0x1FFFFF, nf_manufacturer_code = RVC_MFG_CODE_SELFASSIGNED,
      nf_device_instance_lower = 0, nf_device_instance_upper = 0, nf_device_function = RVC_DEVICE_FUNCTION,
      nf_device_class = RVC_DEVICE_CLASS, nf_system_instance = 0, nf_industry_group = RVC_INDUSTRY_GROUP,
      nf_arbitrary_addr_capable = True\<rparr>"

section \<open>Receive filters\<close>

definition CAN_ID_EXT :: u32 where "CAN_ID_EXT = 4"
definition CAN_RTR_REMOTE :: u32 where "CAN_RTR_REMOTE = 2"
definition N2K_FILTER_PGN_MASK :: u32 where "N2K_FILTER_PGN_MASK = 0x01FF0000"
definition RVC_FILTER_DC_SOURCE_MASK :: u32 where
  "RVC_FILTER_DC_SOURCE_MASK = N2K_FILTER_PGN_MASK OR 0x0000FE00"

definition can_filter_pair :: "u32 \<Rightarrow> u32 \<Rightarrow> u16 \<times> u16 \<times> u16 \<times> u16" where
  "can_filter_pair id29 mask29 =
     (let idr = push_bit 3 id29 OR CAN_ID_EXT;
          mskr = push_bit 3 mask29 OR CAN_ID_EXT OR CAN_RTR_REMOTE
      in (ucast (drop_bit 16 idr), ucast (idr AND 0xFFFF), ucast (drop_bit 16 mskr), ucast (mskr AND 0xFFFF)))"

definition claim_filter :: "u16 \<times> u16 \<times> u16 \<times> u16" where
  "claim_filter = can_filter_pair (n2k_can_id 0 N2K_PGN_ADDR_CLAIM 0 0) N2K_FILTER_PGN_MASK"
definition request_filter :: "u16 \<times> u16 \<times> u16 \<times> u16" where
  "request_filter = can_filter_pair (n2k_can_id 0 N2K_PGN_ISO_REQUEST 0 0) N2K_FILTER_PGN_MASK"
definition dc_source_filter :: "u16 \<times> u16 \<times> u16 \<times> u16" where
  "dc_source_filter = can_filter_pair (n2k_can_id 0 RVC_DGN_DC_SOURCE_STATUS_2 0 0) RVC_FILTER_DC_SOURCE_MASK"

section \<open>The calls of the main loop\<close>

definition can_tx_enqueue :: "n2k_frame_t list \<Rightarrow> 'h can_port \<Rightarrow> 'h can_port" where
  "can_tx_enqueue frames b = (if \<not> cb_ok b \<or> frames = [] then b else b\<lparr>cb_tx := foldl ring_put (cb_tx b) frames\<rparr>)"

text \<open>
  The loop of \<open>can_drain_tx_ring\<close> pops one frame a turn; the fuel is the ring size, and
  \<open>tx_drain_is_fifo\<close> shows that it never runs out before the ring is empty.
\<close>

fun drain_tx :: "'h can_hal \<Rightarrow> nat \<Rightarrow> 'h can_port \<Rightarrow> 'h can_port" where
  "drain_tx hal 0 b = b"
| "drain_tx hal (Suc n) b =
     (if tx_r (cb_tx b) = tx_w (cb_tx b) then b
      else case hal_free_level hal (cb_hw b) of (lvl, h) \<Rightarrow>
        let b = b\<lparr>cb_hw := h\<rparr> in
        if \<not> 0 < lvl then b
        else case hal_add_tx hal (cb_hw b) (ring_front (cb_tx b)) of (sent, h) \<Rightarrow>
          let b = b\<lparr>cb_hw := h\<rparr> in
          if \<not> sent then b
          else drain_tx hal n (b\<lparr>cb_errb := errb_ok_at (cb_errb b) ERRB_CAN, cb_tx := ring_pop (cb_tx b)\<rparr>))"

definition can_drain_tx_ring :: "'h can_hal \<Rightarrow> 'h can_port \<Rightarrow> 'h can_port" where
  "can_drain_tx_ring hal = drain_tx hal (unat N2K_TX_RING)"

text \<open>One received message, offered to every consumer.\<close>

definition can_dispatch :: "'h can_hal \<Rightarrow> u32 \<Rightarrow> u8 list \<Rightarrow> 'h can_port \<Rightarrow> 'h can_port" where
  "can_dispatch hal cid data b =
     (let b = b\<lparr>cb_ac := n2k_ac_rx (cb_ac b) cid data\<rparr> in
      if \<not> cb_rvc_inited b then b
      else let b = b\<lparr>cb_rvc_ac := n2k_ac_rx (cb_rvc_ac b) cid data\<rparr>;
               (now_ms, h) = hal_tick hal (cb_hw b)
           in b\<lparr>cb_hw := h, cb_rvc_sched := rvc_sched_rx (cb_rvc_sched b) now_ms cid data\<rparr>)"

fun drain_rx :: "'h can_hal \<Rightarrow> nat \<Rightarrow> 'h can_port \<Rightarrow> 'h can_port" where
  "drain_rx hal 0 b = b"
| "drain_rx hal (Suc n) b =
     (case hal_fill_level hal (cb_hw b) of (lvl, h) \<Rightarrow>
        let b = b\<lparr>cb_hw := h\<rparr> in
        if \<not> 0 < lvl then b
        else case hal_get_rx hal (cb_hw b) of (msg, h) \<Rightarrow>
          let b = b\<lparr>cb_hw := h\<rparr> in
          drain_rx hal n (case msg of Some (True, cid, data) \<Rightarrow> can_dispatch hal cid data b | _ \<Rightarrow> b))"

definition can_drain_rx :: "'h can_hal \<Rightarrow> 'h can_port \<Rightarrow> 'h can_port" where
  "can_drain_rx hal = drain_rx hal 8"

definition can_n2k_note_bus_off :: "'h can_port \<Rightarrow> 'h can_port" where
  "can_n2k_note_bus_off b =
     b\<lparr>cb_bus_off_events := sat_inc (cb_bus_off_events b), cb_errb := snd (errb_fail_at (cb_errb b) ERRB_CAN)\<rparr>"

definition can_poll_bus_off :: "'h can_hal \<Rightarrow> 'h can_port \<Rightarrow> 'h can_port" where
  "can_poll_bus_off hal b =
     (case hal_bus_off hal (cb_hw b) of (boff, h) \<Rightarrow>
        let b = b\<lparr>cb_hw := h\<rparr> in
        if boff \<and> \<not> cb_bus_off_latched b then (can_n2k_note_bus_off b)\<lparr>cb_bus_off_latched := True\<rparr>
        else if \<not> boff then b\<lparr>cb_bus_off_latched := False\<rparr> else b)"

text \<open>The filter banks in order; the first refusal ends the bring-up.\<close>

fun config_filters :: "'h can_hal \<Rightarrow> (u8 \<times> u16 \<times> u16 \<times> u16 \<times> u16) list \<Rightarrow> 'h \<Rightarrow> bool \<times> 'h" where
  "config_filters hal [] h = (True, h)"
| "config_filters hal ((bank, filt) # fs) h =
     (case hal_filter hal h bank filt of (good, h) \<Rightarrow> if good then config_filters hal fs h else (False, h))"

definition can_bring_up :: "'h can_hal \<Rightarrow> 'h \<Rightarrow> bool \<times> 'h" where
  "can_bring_up hal h =
     (case hal_init hal h of (good, h) \<Rightarrow> if \<not> good then (False, h) else
      case config_filters hal [(0, claim_filter), (1, request_filter), (2, dc_source_filter)] h of (good, h) \<Rightarrow>
        if \<not> good then (False, h) else hal_start hal h)"

definition can_n2k_init :: "'h can_hal \<Rightarrow> bool \<Rightarrow> u32 list \<Rightarrow> 'h can_port \<Rightarrow> 'h can_port" where
  "can_n2k_init hal hse_ok uid b =
     (let b = (if \<not> hse_ok then b\<lparr>cb_n2k_enabled := False, cb_rvc_enabled := False\<rparr> else b) in
      case can_bring_up hal (cb_hw b) of (good, h) \<Rightarrow>
        let b = b\<lparr>cb_hw := h\<rparr> in
        if \<not> good then b\<lparr>cb_ok := False\<rparr>
        else let name = build_name uid
             in b\<lparr>cb_ac := n2k_ac_init name N2K_PREFERRED_ADDR,
                  cb_sched := n2k_sched_init name (Some (build_product_info uid)) None None (Some (text_bytes N2K_MFG_INFO)),
                  cb_ok := True\<rparr>)"

definition ensure_rvc_identity :: "u32 list \<Rightarrow> 'h can_port \<Rightarrow> 'h can_port" where
  "ensure_rvc_identity uid b =
     (if cb_rvc_inited b then b
      else b\<lparr>cb_rvc_ac := n2k_ac_init (build_name_rvc uid) RVC_PREFERRED_ADDR,
             cb_rvc_sched := rvc_sched_init RVC_OUR_DEVICE_PRIORITY, cb_rvc_inited := True\<rparr>)"

text \<open>The two claim steps of the poll.\<close>

definition poll_n2k_claim :: "'h can_hal \<Rightarrow> 'h can_port \<Rightarrow> 'h can_port" where
  "poll_n2k_claim hal b =
     (if \<not> cb_n2k_enabled b then b
      else case hal_tick hal (cb_hw b) of (now_ms, h) \<Rightarrow>
        (case n2k_ac_tick (cb_ac b) now_ms N2K_AC_BATCH of (out, ac) \<Rightarrow>
           can_tx_enqueue out (b\<lparr>cb_hw := h, cb_ac := ac\<rparr>)))"

definition poll_rvc_claim :: "'h can_hal \<Rightarrow> 'h can_port \<Rightarrow> 'h can_port" where
  "poll_rvc_claim hal b =
     (if \<not> (cb_rvc_enabled b \<and> cb_rvc_inited b) then b
      else case hal_tick hal (cb_hw b) of (now_ms, h) \<Rightarrow>
        (case n2k_ac_tick (cb_rvc_ac b) now_ms N2K_AC_BATCH of (out, ac) \<Rightarrow>
           can_tx_enqueue out (b\<lparr>cb_hw := h, cb_rvc_ac := ac\<rparr>)))"

definition can_n2k_poll :: "'h can_hal \<Rightarrow> u32 list \<Rightarrow> 'h can_port \<Rightarrow> 'h can_port" where
  "can_n2k_poll hal uid b =
     (if \<not> cb_ok b then b
      else let b = (if cb_rvc_enabled b then ensure_rvc_identity uid b else b);
               b = can_drain_rx hal b;
               b = poll_n2k_claim hal b;
               b = poll_rvc_claim hal b;
               b = can_drain_tx_ring hal b
           in can_poll_bus_off hal b)"

text \<open>The two dialects of the publication.\<close>

definition publish_n2k :: "'h can_hal \<Rightarrow> int \<Rightarrow> ctrl_telemetry_t \<Rightarrow> 'h can_port \<Rightarrow> 'h can_port" where
  "publish_n2k hal oor t b =
     (if \<not> cb_n2k_enabled b then b
      else case hal_tick hal (cb_hw b) of (now_ms, h) \<Rightarrow>
        (case n2k_sched_tick oor (cb_sched b) now_ms (n2k_ac_ready (cb_ac b)) (n2k_ac_address (cb_ac b)) t N2K_SCHED_BATCH
         of (out, s) \<Rightarrow> can_tx_enqueue out (b\<lparr>cb_hw := h, cb_sched := s\<rparr>)))"

definition publish_rvc :: "'h can_hal \<Rightarrow> int \<Rightarrow> ctrl_telemetry_t \<Rightarrow> 'h can_port \<Rightarrow> 'h can_port" where
  "publish_rvc hal oor t b =
     (if \<not> (cb_rvc_enabled b \<and> cb_rvc_inited b) then b
      else case hal_tick hal (cb_hw b) of (now_ms, h) \<Rightarrow>
        (case rvc_sched_tick oor (cb_rvc_sched b) now_ms (n2k_ac_ready (cb_rvc_ac b)) (n2k_ac_address (cb_rvc_ac b)) t N2K_SCHED_BATCH
         of (out, s) \<Rightarrow> can_tx_enqueue out (b\<lparr>cb_hw := h, cb_rvc_sched := s\<rparr>)))"

definition can_n2k_publish :: "'h can_hal \<Rightarrow> int \<Rightarrow> ctrl_telemetry_t \<Rightarrow> 'h can_port \<Rightarrow> 'h can_port" where
  "can_n2k_publish hal oor t b = (if \<not> cb_ok b then b else publish_rvc hal oor t (publish_n2k hal oor t b))"

definition can_n2k_set_n2k_enabled :: "bool \<Rightarrow> 'h can_port \<Rightarrow> 'h can_port" where
  "can_n2k_set_n2k_enabled en b = b\<lparr>cb_n2k_enabled := en\<rparr>"

definition can_n2k_set_rvc_enabled :: "bool \<Rightarrow> 'h can_port \<Rightarrow> 'h can_port" where
  "can_n2k_set_rvc_enabled en b = b\<lparr>cb_rvc_enabled := en\<rparr>"

section \<open>Enqueue and drain\<close>

lemma put_all_dropped:
  "ring_ok q \<Longrightarrow> tx_dropped (foldl ring_put q frs) = tx_dropped q + of_nat (length (ring_contents q) + length frs - 63)"
proof (induction frs arbitrary: q)
  case Nil
  then show ?case using ring.capacity [OF Nil] by simp
next
  case (Cons fr frs)
  have "tx_dropped (ring_put q fr) = tx_dropped q + (if length (ring_contents q) < 63 then 0 else 1)"
    using ring_full [OF Cons.prems] ring_count_le [of q] by (auto simp: ring_put_def ring_contents_def)
  then show ?case
    using Cons ring.capacity [OF Cons.prems] ring.put_ok [OF Cons.prems, of fr]
    by (auto simp: ring.put_contents [OF Cons.prems] not_less)
qed

text \<open>C21 (refinement). The transmit ring is a queue of at most 63 frames: a batch is appended in
  order as far as it fits, and every frame that does not fit is counted as dropped. Nothing queued earlier is
  overwritten.\<close>

theorem tx_ring_is_bounded_queue:
  assumes "ring_ok (cb_tx b)" and "cb_ok b"
  shows "ring_contents (cb_tx (can_tx_enqueue frs b)) = take 63 (ring_contents (cb_tx b) @ frs) \<and>
    tx_dropped (cb_tx (can_tx_enqueue frs b)) = tx_dropped (cb_tx b) + of_nat (length (ring_contents (cb_tx b)) + length frs - 63) \<and>
    ring_ok (cb_tx (can_tx_enqueue frs b))"
proof (cases "frs = []")
  case True
  then show ?thesis using assms ring.capacity [of "cb_tx b"] by (simp add: can_tx_enqueue_def)
next
  case False
  then show ?thesis using assms
    by (simp add: can_tx_enqueue_def ring.put_all ring.put_all_ok put_all_dropped)
qed

text \<open>The drain on the abstract queue: pop while the peripheral accepts.\<close>

fun drain_queue :: "'h can_hal \<Rightarrow> n2k_frame_t list \<Rightarrow> 'h \<Rightarrow> errb_table \<Rightarrow> n2k_frame_t list \<times> 'h \<times> errb_table" where
  "drain_queue hal [] h e = ([], h, e)"
| "drain_queue hal (fr # frs) h e =
     (case hal_free_level hal h of (lvl, h) \<Rightarrow>
        if lvl = 0 then (fr # frs, h, e)
        else case hal_add_tx hal h fr of (sent, h) \<Rightarrow>
          if \<not> sent then (fr # frs, h, e) else drain_queue hal frs h (errb_ok_at e ERRB_CAN))"

definition abs_port :: "'h can_port \<Rightarrow> n2k_frame_t list \<times> 'h \<times> errb_table" where
  "abs_port b = (ring_contents (cb_tx b), cb_hw b, cb_errb b)"

lemma drain_tx_abs:
  "ring_ok (cb_tx b) \<Longrightarrow> length (ring_contents (cb_tx b)) \<le> n
    \<Longrightarrow> abs_port (drain_tx hal n b) = drain_queue hal (ring_contents (cb_tx b)) (cb_hw b) (cb_errb b)
      \<and> ring_ok (cb_tx (drain_tx hal n b))"
proof (induction n arbitrary: b)
  case 0
  then show ?case by (simp add: abs_port_def)
next
  case (Suc n)
  show ?case
  proof (cases "tx_r (cb_tx b) = tx_w (cb_tx b)")
    case True
    then show ?thesis using Suc.prems ring.empty_contents [of "cb_tx b"] by (simp add: abs_port_def)
  next
    case False
    note pop = ring.pop_contents [OF Suc.prems(1) False] and ok = ring.pop_ok [OF Suc.prems(1) False]
    obtain lvl h where l: "hal_free_level hal (cb_hw b) = (lvl, h)" by (cases "hal_free_level hal (cb_hw b)")
    obtain sent h' where s: "hal_add_tx hal h (ring_front (cb_tx b)) = (sent, h')"
      by (cases "hal_add_tx hal h (ring_front (cb_tx b))")
    let ?b = "b\<lparr>cb_hw := h', cb_errb := errb_ok_at (cb_errb b) ERRB_CAN, cb_tx := ring_pop (cb_tx b)\<rparr>"
    have "length (ring_contents (cb_tx ?b)) \<le> n" using Suc.prems(2) pop by simp
    from Suc.IH [OF _ this] ok
    have "abs_port (drain_tx hal n ?b) = drain_queue hal (ring_contents (ring_pop (cb_tx b))) h' (errb_ok_at (cb_errb b) ERRB_CAN)
        \<and> ring_ok (cb_tx (drain_tx hal n ?b))" by simp
    then show ?thesis using False Suc.prems(1) pop by (auto simp: l s abs_port_def word_neq_0_conv)
  qed
qed

lemma drain_abs:
  "ring_ok (cb_tx b) \<Longrightarrow> abs_port (can_drain_tx_ring hal b) = drain_queue hal (ring_contents (cb_tx b)) (cb_hw b) (cb_errb b)
    \<and> ring_ok (cb_tx (can_drain_tx_ring hal b))"
  using drain_tx_abs [of b "unat N2K_TX_RING"] ring.capacity [of "cb_tx b"]
  by (simp add: can_drain_tx_ring_def N2K_TX_RING_def)

text \<open>The drain of the ring is the drain of the queue it stands for: frames are handed to
  the peripheral in the order they were queued, each at most once, until the queue is empty, no mailbox is
  free or the peripheral refuses; a refused frame stays at the front. The loop always ends.\<close>

theorem tx_drain_is_fifo:
  assumes "ring_ok (cb_tx b)"
  shows "abs_port (can_drain_tx_ring hal b) = drain_queue hal (ring_contents (cb_tx b)) (cb_hw b) (cb_errb b) \<and>
    ring_ok (cb_tx (can_drain_tx_ring hal b))"
  using drain_abs [OF assms] .

section \<open>Without the crystal the port is silent\<close>

text \<open>What the main loop does with the port after the bring-up.\<close>

datatype can_call = Poll | Publish ctrl_telemetry_t

primrec can_step :: "'h can_hal \<Rightarrow> u32 list \<Rightarrow> int \<Rightarrow> 'h can_port \<Rightarrow> can_call \<Rightarrow> 'h can_port" where
  "can_step hal uid oor b Poll = can_n2k_poll hal uid b"
| "can_step hal uid oor b (Publish t) = can_n2k_publish hal oor t b"

definition quiet :: "'h can_port \<Rightarrow> bool" where
  "quiet b \<longleftrightarrow> \<not> cb_n2k_enabled b \<and> \<not> cb_rvc_enabled b \<and> tx_r (cb_tx b) = tx_w (cb_tx b)"

lemma dispatch_quiet: "quiet (can_dispatch hal cid data b) = quiet b"
  by (simp add: can_dispatch_def quiet_def Let_def split: prod.splits)

lemma drain_rx_quiet: "quiet (drain_rx hal n b) = quiet b"
proof (induction n arbitrary: b)
  case 0
  then show ?case by simp
next
  case (Suc n)
  have hw: "quiet (b\<lparr>cb_hw := h\<rparr>) = quiet b" for h by (simp add: quiet_def)
  show ?case
    by (auto simp: Suc.IH hw dispatch_quiet Let_def split: prod.splits option.splits bool.splits)
qed

lemma drain_tx_quiet: "quiet b \<Longrightarrow> drain_tx hal n b = b"
  by (cases n) (simp_all add: quiet_def)

lemma bus_off_quiet: "quiet (can_poll_bus_off hal b) = quiet b"
  by (simp add: can_poll_bus_off_def can_n2k_note_bus_off_def quiet_def Let_def split: prod.splits)

lemma poll_quiet:
  assumes "quiet b"
  shows "can_n2k_poll hal uid b = (if cb_ok b then can_poll_bus_off hal (can_drain_rx hal b) else b)"
proof -
  have q: "quiet (can_drain_rx hal b)" using assms by (simp add: can_drain_rx_def drain_rx_quiet)
  then have "can_drain_tx_ring hal (can_drain_rx hal b) = can_drain_rx hal b"
    by (simp add: can_drain_tx_ring_def drain_tx_quiet)
  then show ?thesis using assms q
    by (simp add: can_n2k_poll_def poll_n2k_claim_def poll_rvc_claim_def quiet_def)
qed

lemma step_quiet: "quiet b \<Longrightarrow> quiet (can_step hal uid oor b c)"
proof (cases c)
  case Poll
  assume "quiet b"
  then show ?thesis using Poll by (simp add: poll_quiet bus_off_quiet can_drain_rx_def drain_rx_quiet)
next
  case (Publish t)
  assume "quiet b"
  then show ?thesis using Publish by (simp add: can_n2k_publish_def publish_n2k_def publish_rvc_def quiet_def)
qed

interpretation quiet_port: machine "can_step hal uid oor" "\<lambda>c. True" quiet for hal uid oor
  by unfold_locales (rule step_quiet)

lemma dispatch_add_tx: "can_dispatch (hal\<lparr>hal_add_tx := f\<rparr>) = can_dispatch hal"
  by (intro ext) (simp add: can_dispatch_def Let_def split: prod.split)

lemma drain_rx_add_tx: "drain_rx (hal\<lparr>hal_add_tx := f\<rparr>) n b = drain_rx hal n b"
  by (induction n arbitrary: b) (auto simp: dispatch_add_tx Let_def split: prod.split option.split bool.split)

lemma step_add_tx: "quiet b \<Longrightarrow> can_step (hal\<lparr>hal_add_tx := f\<rparr>) uid oor b c = can_step hal uid oor b c"
  by (cases c) (simp_all add: poll_quiet can_poll_bus_off_def can_drain_rx_def drain_rx_add_tx
      can_n2k_publish_def publish_n2k_def publish_rvc_def quiet_def)

lemma run_add_tx: "quiet b \<Longrightarrow> foldl (can_step (hal\<lparr>hal_add_tx := f\<rparr>) uid oor) b cs = foldl (can_step hal uid oor) b cs"
  by (induction cs arbitrary: b) (simp_all add: step_add_tx step_quiet)

lemma bring_up_add_tx: "can_bring_up (hal\<lparr>hal_add_tx := f\<rparr>) h = can_bring_up hal h"
  by (simp add: can_bring_up_def split: prod.splits)

lemma init_quiet: "tx_r (cb_tx b) = tx_w (cb_tx b) \<Longrightarrow> quiet (can_n2k_init hal False uid b)"
  by (simp add: can_n2k_init_def quiet_def Let_def split: prod.splits)

text \<open>C20 (safety). When the crystal oscillator did not start, the node never transmits: whatever the
  main loop polls and publishes afterwards and whatever is received, the ring stays empty and the
  outcome is the same for every behaviour of the function that hands a frame to the peripheral.\<close>

theorem quiet_without_hse:
  assumes "tx_r (cb_tx b) = tx_w (cb_tx b)"
  shows "foldl (can_step (hal\<lparr>hal_add_tx := f\<rparr>) uid oor) (can_n2k_init (hal\<lparr>hal_add_tx := f\<rparr>) False uid b) cs
      = foldl (can_step hal uid oor) (can_n2k_init hal False uid b) cs \<and>
    tx_r (cb_tx (foldl (can_step hal uid oor) (can_n2k_init hal False uid b) cs))
      = tx_w (cb_tx (foldl (can_step hal uid oor) (can_n2k_init hal False uid b) cs))"
proof -
  have q: "quiet (can_n2k_init hal False uid b)" using assms by (rule init_quiet)
  have "can_n2k_init (hal\<lparr>hal_add_tx := f\<rparr>) False uid b = can_n2k_init hal False uid b"
    by (simp add: can_n2k_init_def bring_up_add_tx)
  moreover have "quiet (foldl (can_step hal uid oor) (can_n2k_init hal False uid b) cs)"
    using q by (rule quiet_port.inv_run) (simp add: list_all_iff)
  ultimately show ?thesis using q by (simp add: run_add_tx quiet_def)
qed

text \<open>
  A peripheral whose mailboxes stay occupied (nothing on the bus acknowledges) and which receives
  nothing; its state is the clock.
\<close>

definition mute_hal :: "u32 can_hal" where
  "mute_hal = \<lparr>hal_tick = (\<lambda>h. (h, h)), hal_free_level = (\<lambda>h. (0, h)), hal_add_tx = (\<lambda>h fr. (False, h)),
     hal_fill_level = (\<lambda>h. (0, h)), hal_get_rx = (\<lambda>h. (None, h)), hal_bus_off = (\<lambda>h. (False, h)),
     hal_init = (\<lambda>h. (True, h)), hal_filter = (\<lambda>h bank filt. (True, h)), hal_start = (\<lambda>h. (True, h))\<rparr>"

lemma mute [simp]:
  "hal_tick mute_hal h = (h, h)" "hal_free_level mute_hal h = (0, h)" "hal_fill_level mute_hal h = (0, h)"
  "hal_bus_off mute_hal h = (False, h)" "hal_init mute_hal h = (True, h)" "hal_filter mute_hal h bank filt = (True, h)"
  "hal_start mute_hal h = (True, h)"
  by (simp_all add: mute_hal_def)

lemma mute_drains [simp]: "drain_tx mute_hal n b = b" "drain_rx mute_hal n b = b"
  by (cases n; simp)+

lemma mute_bring_up [simp]: "can_bring_up mute_hal h = (True, h)"
  by (simp add: can_bring_up_def)

text \<open>The statics at reset: zero except the default dialect.\<close>

definition can_reset :: "'h \<Rightarrow> 'h can_port" where
  "can_reset h = \<lparr>cb_hw = h, cb_ok = False,
     cb_ac = \<lparr>ac_name = 0, ac_pref_addr = 0, ac_addr = 0, ac_tries = 0, ac_state = N2K_AC_CLAIMING, ac_claim_ms = 0,
       ac_need_claim_tx = False, ac_need_repeat_tx = False\<rparr>,
     cb_sched = n2k_sched_init 0 None None None None, cb_bus_off_latched = False, cb_bus_off_events = 0,
     cb_n2k_enabled = True, cb_rvc_enabled = False, cb_rvc_inited = False,
     cb_rvc_ac = \<lparr>ac_name = 0, ac_pref_addr = 0, ac_addr = 0, ac_tries = 0, ac_state = N2K_AC_CLAIMING, ac_claim_ms = 0,
       ac_need_claim_tx = False, ac_need_repeat_tx = False\<rparr>,
     cb_rvc_sched = rvc_sched_init 0,
     cb_tx = \<lparr>tx_slots = replicate 64 \<lparr>fr_id = 0, fr_dlc = 0, fr_data = replicate 8 0\<rparr>, tx_w = 0, tx_r = 0, tx_dropped = 0\<rparr>,
     cb_errb = errb_table_init\<rparr>"

lemma reset_ring [simp]: "ring_ok (cb_tx (can_reset h))" "ring_contents (cb_tx (can_reset h)) = []"
  "tx_r (cb_tx (can_reset h)) = tx_w (cb_tx (can_reset h))" "tx_dropped (cb_tx (can_reset h)) = 0"
  by (simp_all add: can_reset_def ring_ok_def ring_contents_def ring_count_def)

theorem quiet_without_hse_witness:
  "tx_w (cb_tx (foldl (can_step mute_hal [1, 2, 3] 0) (can_n2k_init mute_hal False [1, 2, 3] (can_reset 0)) [Poll, Publish sample_telemetry, Poll]))
    = tx_r (cb_tx (foldl (can_step mute_hal [1, 2, 3] 0) (can_n2k_init mute_hal False [1, 2, 3] (can_reset 0)) [Poll, Publish sample_telemetry, Poll]))"
  using quiet_without_hse [of "can_reset 0", where hal = mute_hal and f = "\<lambda>h fr. (True, h)" and uid = "[1, 2, 3]"
      and oor = 0 and cs = "[Poll, Publish sample_telemetry, Poll]"]
  by (simp del: foldl.simps can_step.simps)

definition sample_frame :: n2k_frame_t where
  "sample_frame = \<lparr>fr_id = 1, fr_dlc = 8, fr_data = replicate 8 0\<rparr>"

theorem tx_ring_is_bounded_queue_witness:
  "ring_contents (cb_tx (can_tx_enqueue (replicate 70 sample_frame) ((can_reset (0 :: u32))\<lparr>cb_ok := True\<rparr>))) = replicate 63 sample_frame \<and>
    tx_dropped (cb_tx (can_tx_enqueue (replicate 70 sample_frame) ((can_reset (0 :: u32))\<lparr>cb_ok := True\<rparr>))) = 7"
  using tx_ring_is_bounded_queue [of "(can_reset (0 :: u32))\<lparr>cb_ok := True\<rparr>" "replicate 70 sample_frame"]
  by (simp del: replicate.simps)

theorem tx_drain_is_fifo_witness:
  "ring_contents (cb_tx (can_drain_tx_ring mute_hal ((can_reset 0)\<lparr>cb_tx := ring_put (cb_tx (can_reset (0 :: u32))) sample_frame\<rparr>))) = [sample_frame]"
  using tx_drain_is_fifo [of "(can_reset 0)\<lparr>cb_tx := ring_put (cb_tx (can_reset (0 :: u32))) sample_frame\<rparr>" mute_hal]
  by (simp add: ring_put_ok ring_put_contents abs_port_def)

section \<open>The settle time counts from the queue\<close>

definition poll_at :: "u32 list \<Rightarrow> u32 can_port \<Rightarrow> u32 \<Rightarrow> u32 can_port" where
  "poll_at uid b t = can_n2k_poll mute_hal uid (b\<lparr>cb_hw := t\<rparr>)"

text \<open>The port between its first poll at \<open>t0\<close> and the end of the settle time.\<close>

definition settling :: "u32 list \<Rightarrow> u32 \<Rightarrow> u32 can_port \<Rightarrow> bool" where
  "settling uid t0 b \<longleftrightarrow> cb_ok b \<and> cb_n2k_enabled b \<and> \<not> cb_rvc_enabled b \<and>
     cb_ac b = (n2k_ac_init (build_name uid) 34)\<lparr>ac_claim_ms := t0, ac_need_claim_tx := False\<rparr> \<and>
     ring_contents (cb_tx b) = [build_claim_frame (n2k_ac_init (build_name uid) 34)]"

lemma first_poll: "settling uid t0 (poll_at uid (can_n2k_init mute_hal True uid (can_reset t0)) t0)"
proof -
  let ?b0 = "(can_n2k_init mute_hal True uid (can_reset t0))\<lparr>cb_hw := t0\<rparr>"
  have "cb_ok ?b0" "cb_n2k_enabled ?b0" "\<not> cb_rvc_enabled ?b0" "cb_ac ?b0 = n2k_ac_init (build_name uid) 34"
    "cb_tx ?b0 = cb_tx (can_reset t0)" "cb_hw ?b0 = t0"
    by (simp_all add: can_n2k_init_def can_reset_def Let_def N2K_PREFERRED_ADDR_def)
  then show ?thesis
    by (simp add: settling_def poll_at_def can_n2k_poll_def poll_n2k_claim_def poll_rvc_claim_def can_drain_rx_def
        can_drain_tx_ring_def can_poll_bus_off_def n2k_ac_tick_def n2k_ac_init_def N2K_AC_BATCH_def N2K_AC_SETTLE_MS_def
        can_tx_enqueue_def ring_put_contents)
qed

lemma later_poll:
  assumes "settling uid t0 b"
  shows "t - t0 < 250 \<Longrightarrow> settling uid t0 (poll_at uid b t)"
    "ring_contents (cb_tx (poll_at uid b t)) = [build_claim_frame (n2k_ac_init (build_name uid) 34)]"
    "n2k_ac_address (cb_ac (poll_at uid b t)) = 34" "n2k_ac_ready (cb_ac (poll_at uid b t)) \<longleftrightarrow> 250 \<le> t - t0"
  using assms
  by (simp_all add: settling_def poll_at_def can_n2k_poll_def poll_n2k_claim_def poll_rvc_claim_def can_drain_rx_def
      can_drain_tx_ring_def can_poll_bus_off_def n2k_ac_tick_def n2k_ac_init_def N2K_AC_BATCH_def N2K_AC_SETTLE_MS_def
      can_tx_enqueue_def n2k_ac_ready_def n2k_ac_address_def not_less)

text \<open>C22 (error). The settle clock of the address claim starts when the claim enters the ring, not
  when it leaves the node. With all mailboxes occupied and the bus silent, polled first at \<open>t0\<close>, then
  at any times within 250 ms of \<open>t0\<close>, then at \<open>t\<close>: the port counts its address, 34, as claimed
  exactly when 250 ms have passed since \<open>t0\<close>, while the claim is still the only frame in the ring.\<close>

theorem claim_settles_unsent:
  assumes "list_all (\<lambda>s. s - t0 < 250) ts"
  shows "let b = foldl (poll_at uid) (can_n2k_init mute_hal True uid (can_reset t0)) (t0 # ts @ [t])
   in ring_contents (cb_tx b) = [build_claim_frame (n2k_ac_init (build_name uid) 34)] \<and>
      n2k_ac_address (cb_ac b) = 34 \<and> (n2k_ac_ready (cb_ac b) \<longleftrightarrow> 250 \<le> t - t0)"
proof -
  have "settling uid t0 b \<Longrightarrow> settling uid t0 (foldl (poll_at uid) b ts)" for b
    using assms by (induction ts arbitrary: b) (simp_all add: later_poll(1))
  from later_poll(2-4) [OF this [OF first_poll]] show ?thesis by (simp add: Let_def)
qed

theorem claim_settles_unsent_witness:
  "n2k_ac_ready (cb_ac (foldl (poll_at [1, 2, 3]) (can_n2k_init mute_hal True [1, 2, 3] (can_reset 0xFFFFFFF0)) [0xFFFFFFF0, 50, 234])) \<and>
   \<not> n2k_ac_ready (cb_ac (foldl (poll_at [1, 2, 3]) (can_n2k_init mute_hal True [1, 2, 3] (can_reset 0xFFFFFFF0)) [0xFFFFFFF0, 50, 233]))"
  using claim_settles_unsent [of "0xFFFFFFF0" "[50]" "[1, 2, 3]" 234]
    claim_settles_unsent [of "0xFFFFFFF0" "[50]" "[1, 2, 3]" 233]
  by (simp add: Let_def del: foldl.simps)

section \<open>The receive filters\<close>

text \<open>
  The 32-bit mask mode of a filter bank: the identifier register of a received frame (29 bits,
  then the extended and the remote flag) must agree with the bank where the mask has a one.
\<close>

definition id_register :: "u32 \<Rightarrow> bool \<Rightarrow> bool \<Rightarrow> u32" where
  "id_register cid ext rtr = push_bit 3 cid OR (if ext then 4 else 0) OR (if rtr then 2 else 0)"

definition bank_admits :: "u16 \<times> u16 \<times> u16 \<times> u16 \<Rightarrow> u32 \<Rightarrow> bool" where
  "bank_admits f r = (case f of (id_hi, id_lo, mask_hi, mask_lo) \<Rightarrow>
     r AND (push_bit 16 (ucast mask_hi) OR ucast mask_lo)
       = (push_bit 16 (ucast id_hi) OR ucast id_lo) AND (push_bit 16 (ucast mask_hi) OR ucast mask_lo))"

lemma word32_masks:
  "(0xFFFF :: u32) = mask 16" "(0x7 :: u32) = mask 3" "(0x1FF :: u32) = mask 9" "(0x01FF0000 :: u32) = push_bit 16 (mask 9)"
  "(0x01FFFE00 :: u32) = push_bit 9 (mask 16)" "(0xFF :: u32) = mask 8" "(0x1FFFF :: u32) = mask 17"
  "(0x1FF00 :: u32) = push_bit 8 (mask 9)" "(0x1FFFE :: u32) = push_bit 1 (mask 16)"
  by (simp_all add: mask_eq_exp_minus_1)

lemma halves: "push_bit 16 (ucast (ucast (drop_bit 16 x) :: u16)) OR ucast (ucast (x AND 0xFFFF) :: u16) = (x :: u32)"
  unfolding word32_masks by (intro bit_word_eqI) (auto simp: bit_simps dest: bit_imp_le_length)

lemma low_bits: "(push_bit 3 a OR x) AND 7 = x AND (7 :: u32)"
  unfolding word32_masks by (intro bit_word_eqI) (auto simp: bit_simps)

lemma high_bits: "(push_bit 3 a OR (x AND 7)) AND NOT 7 = (push_bit 3 a :: u32)"
  unfolding word32_masks by (intro bit_word_eqI) (auto simp: bit_simps)

lemma split_low:
  assumes "x AND 7 = x" "y AND 7 = (y :: u32)"
  shows "(push_bit 3 a OR x = push_bit 3 b OR y) \<longleftrightarrow> push_bit 3 a = push_bit 3 b \<and> x = y"
  using low_bits [of a x] low_bits [of b y] high_bits [of a x] high_bits [of b y] assms by metis

lemma and_low:
  assumes "x AND 7 = x" "y AND 7 = (y :: u32)"
  shows "(push_bit 3 a OR x) AND (push_bit 3 b OR y) = push_bit 3 (a AND b) OR (x AND y)"
proof -
  have "(push_bit 3 a OR (x AND 7)) AND (push_bit 3 b OR (y AND 7)) = push_bit 3 (a AND b) OR ((x AND 7) AND (y AND 7))"
    unfolding word32_masks by (intro bit_word_eqI) (auto simp: bit_simps)
  then show ?thesis by (simp only: assms)
qed

lemma admits_pair:
  "bank_admits (can_filter_pair i m) (id_register cid ext rtr) \<longleftrightarrow> ext \<and> \<not> rtr \<and> push_bit 3 (cid AND m) = push_bit 3 (i AND m)"
proof -
  have six: "push_bit 3 m OR CAN_ID_EXT OR CAN_RTR_REMOTE = push_bit 3 m OR 6"
    by (simp add: CAN_ID_EXT_def CAN_RTR_REMOTE_def or.assoc)
  have reg: "id_register cid ext rtr = push_bit 3 cid OR ((if ext then 4 else 0) OR (if rtr then 2 else 0))"
    by (simp add: id_register_def or.assoc)
  let ?x = "(if ext then 4 else 0) OR (if rtr then 2 else 0) :: u32"
  have "id_register cid ext rtr AND (push_bit 3 m OR 6) = push_bit 3 (cid AND m) OR (?x AND 6)"
    unfolding reg by (rule and_low) simp_all
  moreover have "(push_bit 3 i OR CAN_ID_EXT) AND (push_bit 3 m OR 6) = push_bit 3 (i AND m) OR (4 AND 6)"
    unfolding CAN_ID_EXT_def by (rule and_low) simp_all
  moreover have "(push_bit 3 (cid AND m) OR (?x AND 6) = push_bit 3 (i AND m) OR (4 AND 6)) \<longleftrightarrow>
      push_bit 3 (cid AND m) = push_bit 3 (i AND m) \<and> ?x AND 6 = 4 AND 6"
    by (rule split_low) simp_all
  ultimately show ?thesis
    unfolding bank_admits_def can_filter_pair_def Let_def split_beta fst_conv snd_conv halves six by auto
qed

lemma inj9:
  assumes "w AND 0x1FF = w" "p AND 0x1FF = (p :: u32)" "k \<le> 23"
  shows "push_bit k w = push_bit k p \<longleftrightarrow> w = p"
proof -
  have "drop_bit k (push_bit k (x AND 0x1FF)) = (x AND 0x1FF :: u32)" for x
    unfolding word32_masks using assms(3) by (intro bit_word_eqI) (auto simp: bit_simps)
  then show ?thesis using assms(1,2) by metis
qed

text \<open>Destination-addressed groups: the upper nine bits of the group number.\<close>

lemma pdu1_admits:
  assumes "p AND 0xFF < 240" "p AND 0x1FF = p"
  shows "push_bit 3 (cid AND 0x01FF0000) = push_bit 19 p \<longleftrightarrow> n2k_can_id_pgn cid = push_bit 8 p"
proof -
  define w where "w = drop_bit 16 cid AND 0x1FF"
  have w9: "w AND 0x1FF = w" by (simp add: w_def and.assoc)
  have f: "push_bit 3 (cid AND 0x01FF0000) = push_bit 19 w"
    "drop_bit 8 (drop_bit 8 cid AND 0x1FFFF) AND 0xFF = w AND 0xFF"
    "(drop_bit 8 cid AND 0x1FFFF) AND 0x1FF00 = push_bit 8 w"
    unfolding w_def word32_masks by (intro bit_word_eqI; auto simp: bit_simps)+
  have "drop_bit 8 (push_bit 8 (p AND 0x1FF)) AND 0xFF = p AND 0xFF"
    unfolding word32_masks by (intro bit_word_eqI) (auto simp: bit_simps)
  then have "\<not> w AND 0xFF < 240 \<Longrightarrow> drop_bit 8 cid AND 0x1FFFF \<noteq> push_bit 8 p"
    using assms f(2) by metis
  then have "n2k_can_id_pgn cid = push_bit 8 p \<longleftrightarrow> w = p"
    using inj9 [OF w9 assms(2), of 8] assms(1) unfolding n2k_can_id_pgn_def Let_def f by auto
  then show ?thesis using f(1) inj9 [OF w9 assms(2), of 19] by simp
qed

text \<open>The two battery groups differ in the lowest bit only.\<close>

lemma dc_admits:
  "push_bit 3 (cid AND 0x01FFFE00) = push_bit 3 0x01FFFC00 \<longleftrightarrow> n2k_can_id_pgn cid \<in> {0x1FFFC, 0x1FFFD}"
proof -
  define v where "v = drop_bit 8 cid AND 0x1FFFF"
  have f: "push_bit 3 (cid AND 0x01FFFE00) = push_bit 12 (drop_bit 1 v)" "drop_bit 12 (push_bit 12 (drop_bit 1 v)) = drop_bit 1 v"
    unfolding v_def word32_masks by (intro bit_word_eqI; auto simp: bit_simps simp del: drop_bit_Suc push_bit_Suc)+
  have "push_bit 3 (0x01FFFC00 :: u32) = push_bit 12 0xFFFE" "drop_bit 12 (push_bit 12 0xFFFE) = (0xFFFE :: u32)" by simp_all
  then have "push_bit 3 (cid AND 0x01FFFE00) = push_bit 3 0x01FFFC00 \<longleftrightarrow> drop_bit 1 v = 0xFFFE" using f by metis
  also have "\<dots> \<longleftrightarrow> unat v div 2 = 65534" by (simp add: word_unat_eq_iff drop_bit_eq_div unat_div)
  also have "\<dots> \<longleftrightarrow> unat v = 131068 \<or> unat v = 131069" by presburger
  also have "\<dots> \<longleftrightarrow> v \<in> {0x1FFFC, 0x1FFFD}" by (simp add: word_unat_eq_iff)
  also have "\<dots> \<longleftrightarrow> n2k_can_id_pgn cid \<in> {0x1FFFC, 0x1FFFD}"
  proof -
    have "drop_bit 8 (0x1FFFC :: u32) AND 0xFF = 255" "drop_bit 8 (0x1FFFD :: u32) AND 0xFF = 255" by simp_all
    moreover have "(v AND 0x1FF00) AND 0xFF = 0" unfolding word32_masks by (intro bit_word_eqI) (auto simp: bit_simps)
    then have "v AND 0x1FF00 \<noteq> 0x1FFFC" "v AND 0x1FF00 \<noteq> 0x1FFFD" by auto
    ultimately show ?thesis by (auto simp: n2k_can_id_pgn_def Let_def v_def [symmetric])
  qed
  finally show ?thesis .
qed

lemma banks_admit:
  "bank_admits claim_filter (id_register cid ext rtr) \<longleftrightarrow> ext \<and> \<not> rtr \<and> n2k_can_id_pgn cid = N2K_PGN_ADDR_CLAIM"
  "bank_admits request_filter (id_register cid ext rtr) \<longleftrightarrow> ext \<and> \<not> rtr \<and> n2k_can_id_pgn cid = N2K_PGN_ISO_REQUEST"
  "bank_admits dc_source_filter (id_register cid ext rtr)
    \<longleftrightarrow> ext \<and> \<not> rtr \<and> n2k_can_id_pgn cid \<in> {RVC_DGN_DC_SOURCE_STATUS_1, RVC_DGN_DC_SOURCE_STATUS_2}"
  using pdu1_admits [of "0xEE" cid] pdu1_admits [of "0xEA" cid] dc_admits [of cid]
  by (auto simp: claim_filter_def request_filter_def dc_source_filter_def admits_pair n2k_can_id_def ac_consts
      N2K_FILTER_PGN_MASK_def RVC_FILTER_DC_SOURCE_MASK_def RVC_DGN_DC_SOURCE_STATUS_1_def RVC_DGN_DC_SOURCE_STATUS_2_def)

text \<open>The three filter banks admit exactly the extended data frames of the four groups
  the software handles, from any sender and to any destination; and a frame no bank admits would have changed
  neither claim state machine nor the battery election, so the filtering loses nothing.\<close>

theorem filters_admit_what_is_handled:
  "((\<exists>f \<in> {claim_filter, request_filter, dc_source_filter}. bank_admits f (id_register cid ext rtr)) \<longleftrightarrow>
      ext \<and> \<not> rtr \<and> n2k_can_id_pgn cid \<in> {N2K_PGN_ADDR_CLAIM, N2K_PGN_ISO_REQUEST,
        RVC_DGN_DC_SOURCE_STATUS_1, RVC_DGN_DC_SOURCE_STATUS_2}) \<and>
   ((\<exists>f \<in> {claim_filter, request_filter, dc_source_filter}. bank_admits f (id_register cid True False)) \<or>
      cb_ac (can_dispatch hal cid data b) = cb_ac b \<and> cb_rvc_ac (can_dispatch hal cid data b) = cb_rvc_ac b \<and>
      cb_rvc_sched (can_dispatch hal cid data b) = cb_rvc_sched b)"
proof -
  have "cb_ac (can_dispatch hal cid data b) = cb_ac b \<and> cb_rvc_ac (can_dispatch hal cid data b) = cb_rvc_ac b \<and>
      cb_rvc_sched (can_dispatch hal cid data b) = cb_rvc_sched b"
    if "n2k_can_id_pgn cid \<notin> {N2K_PGN_ADDR_CLAIM, N2K_PGN_ISO_REQUEST, RVC_DGN_DC_SOURCE_STATUS_1, RVC_DGN_DC_SOURCE_STATUS_2}"
    using that by (simp add: can_dispatch_def n2k_ac_rx_def rvc_sched_rx_def rvc_rbm_rx_def Let_def split: prod.split)
  then show ?thesis by (auto simp: banks_admit)
qed

end
