(* ===== verification/Json_Reader.thy ===== *)
theory Json_Reader
  imports Ctrl_Types
begin

text \<open>
  The reader of \<open>control/Src/config_json.c\<close>: number scanner, cursor, strings, containers, the
  recursive skip and the well-formedness check. The cursor carries the bytes from \<open>pos\<close> to
  \<open>len\<close> as the list \<open>j_rest\<close>, so \<open>pos >= len\<close> is the empty list; pointers are valid. A
  \<open>double\<close> is an \<open>fp\<close> value rounded with \<open>double_fmt\<close>.
\<close>

datatype cfg_json_err_t = CFG_JSON_OK | CFG_JSON_ERR_SYNTAX | CFG_JSON_ERR_DEPTH | CFG_JSON_ERR_TOOLONG
  | CFG_JSON_ERR_TRUNCATED | CFG_JSON_ERR_TRAILING

datatype cfg_json_type_t = CFG_JSON_T_NONE | CFG_JSON_T_OBJ | CFG_JSON_T_ARR | CFG_JSON_T_STR | CFG_JSON_T_NUM
  | CFG_JSON_T_BOOL | CFG_JSON_T_NULL

definition CFG_JSON_DEPTH_MAX :: nat where "CFG_JSON_DEPTH_MAX = 6"
definition CFG_JSON_NUM_CHARS_MAX :: nat where "CFG_JSON_NUM_CHARS_MAX = 40"
definition CFG_JSON_KEY_MAX :: nat where "CFG_JSON_KEY_MAX = 48"

section \<open>Characters\<close>

abbreviation QUOTE :: u8 where "QUOTE \<equiv> 0x22"
abbreviation BACKSLASH :: u8 where "BACKSLASH \<equiv> 0x5C"
abbreviation LBRACE :: u8 where "LBRACE \<equiv> 0x7B"
abbreviation RBRACE :: u8 where "RBRACE \<equiv> 0x7D"
abbreviation LBRACKET :: u8 where "LBRACKET \<equiv> 0x5B"
abbreviation RBRACKET :: u8 where "RBRACKET \<equiv> 0x5D"
abbreviation COMMA :: u8 where "COMMA \<equiv> 0x2C"
abbreviation COLON :: u8 where "COLON \<equiv> 0x3A"
abbreviation MINUS :: u8 where "MINUS \<equiv> 0x2D"
abbreviation PLUS :: u8 where "PLUS \<equiv> 0x2B"
abbreviation DOT :: u8 where "DOT \<equiv> 0x2E"
abbreviation ZERO :: u8 where "ZERO \<equiv> 0x30"

abbreviation TRUE_TXT :: "u8 list" where "TRUE_TXT \<equiv> [0x74, 0x72, 0x75, 0x65]"
abbreviation FALSE_TXT :: "u8 list" where "FALSE_TXT \<equiv> [0x66, 0x61, 0x6C, 0x73, 0x65]"
abbreviation NULL_TXT :: "u8 list" where "NULL_TXT \<equiv> [0x6E, 0x75, 0x6C, 0x6C]"

definition is_ws :: "u8 \<Rightarrow> bool" where
  "is_ws c \<longleftrightarrow> c = 0x20 \<or> c = 0x09 \<or> c = 0x0A \<or> c = 0x0D"

definition is_digit :: "u8 \<Rightarrow> bool" where
  "is_digit c \<longleftrightarrow> ZERO \<le> c \<and> c \<le> 0x39"

definition is_exp :: "u8 \<Rightarrow> bool" where
  "is_exp c \<longleftrightarrow> c = 0x65 \<or> c = 0x45"

definition is_num_char :: "u8 \<Rightarrow> bool" where
  "is_num_char c \<longleftrightarrow> is_digit c \<or> c = MINUS \<or> c = PLUS \<or> c = DOT \<or> is_exp c"

definition hex_val :: "u8 \<Rightarrow> nat option" where
  "hex_val c =
     (if 0x30 \<le> c \<and> c \<le> 0x39 then Some (unat (c - 0x30))
      else if 0x61 \<le> c \<and> c \<le> 0x66 then Some (unat (c - 0x61) + 10)
      else if 0x41 \<le> c \<and> c \<le> 0x46 then Some (unat (c - 0x41) + 10) else None)"

section \<open>Powers of ten\<close>

definition dnat :: "nat \<Rightarrow> fp" where
  "dnat n = FpFin False (of_nat n)"

definition POW10 :: "nat \<Rightarrow> fp" where
  "POW10 n = dnat (10 ^ n)"

function scale_pow10 :: "fp \<Rightarrow> int \<Rightarrow> fp" where
  "scale_pow10 v n =
     (if 22 \<le> n then scale_pow10 (fp_mul double_fmt v (POW10 22)) (n - 22)
      else if n \<le> -22 then scale_pow10 (fp_div double_fmt v (POW10 22)) (n + 22)
      else if 0 < n then fp_mul double_fmt v (POW10 (nat n))
      else if n < 0 then fp_div double_fmt v (POW10 (nat (- n)))
      else v)"
  by pat_completeness auto

termination scale_pow10
  by (relation "measure (\<lambda>(v, n). nat \<bar>n\<bar>)") auto

declare scale_pow10.simps [simp del]

section \<open>Number scanner\<close>

text \<open>The locals \<open>mant\<close>, \<open>sig\<close> and \<open>exp10\<close>.\<close>

type_synonym scan_acc = "u64 \<times> nat \<times> int"

definition digit_u64 :: "u8 \<Rightarrow> u64" where
  "digit_u64 c = ucast (c - ZERO)"

definition int_digit :: "scan_acc \<Rightarrow> u8 \<Rightarrow> scan_acc" where
  "int_digit a c = (case a of (mant, sig, exp10) \<Rightarrow>
     if sig < 19 then (mant * 10 + digit_u64 c, sig + 1, exp10) else (mant, sig, exp10 + 1))"

definition frac_digit :: "scan_acc \<Rightarrow> u8 \<Rightarrow> scan_acc" where
  "frac_digit a c = (case a of (mant, sig, exp10) \<Rightarrow>
     if sig < 19 then (mant * 10 + digit_u64 c, sig + 1, exp10 - 1) else (mant, sig, exp10))"

definition exp_digit :: "int \<Rightarrow> u8 \<Rightarrow> int" where
  "exp_digit ev c = (if ev < 100000 then ev * 10 + int (unat (c - ZERO)) else ev)"

text \<open>\<open>i >= len || !is_digit(s[i])\<close>.\<close>

definition no_digit :: "u8 list \<Rightarrow> bool" where
  "no_digit r \<longleftrightarrow> (case r of [] \<Rightarrow> True | c # r' \<Rightarrow> \<not> is_digit c)"

text \<open>Each part gives what it accumulated and the text after it, or fails.\<close>

definition scan_int :: "u8 list \<Rightarrow> (scan_acc \<times> u8 list) option" where
  "scan_int r =
     (if no_digit r then None
      else if hd r = ZERO then (if no_digit (tl r) then Some ((0, 1, 0), tl r) else None)
      else Some (foldl int_digit (0, 0, 0) (takeWhile is_digit r), dropWhile is_digit r))"

definition scan_frac :: "scan_acc \<Rightarrow> u8 list \<Rightarrow> (scan_acc \<times> u8 list) option" where
  "scan_frac a r =
     (if r \<noteq> [] \<and> hd r = DOT then
        (if no_digit (tl r) then None
         else Some (foldl frac_digit a (takeWhile is_digit (tl r)), dropWhile is_digit (tl r)))
      else Some (a, r))"

definition exp_sign :: "u8 list \<Rightarrow> int \<times> u8 list" where
  "exp_sign r = (if r \<noteq> [] \<and> (hd r = PLUS \<or> hd r = MINUS) then (if hd r = MINUS then -1 else 1, tl r) else (1, r))"

definition scan_exp :: "scan_acc \<Rightarrow> u8 list \<Rightarrow> (scan_acc \<times> u8 list) option" where
  "scan_exp a r = (case a of (mant, sig, exp10) \<Rightarrow>
     if r \<noteq> [] \<and> is_exp (hd r) then
       (case exp_sign (tl r) of (esign, r) \<Rightarrow>
          if no_digit r then None
          else Some ((mant, sig, exp10 + esign * foldl exp_digit 0 (takeWhile is_digit r)), dropWhile is_digit r))
     else Some ((mant, sig, exp10), r))"

definition scan_value :: "scan_acc \<Rightarrow> fp" where
  "scan_value a = (case a of (mant, sig, exp10) \<Rightarrow>
     if mant = 0 then FpFin False 0
     else if 400 < exp10 then FpInf False
     else if exp10 < -400 then FpFin False 0
     else scale_pow10 (fp_round double_fmt False (of_int (uint mant))) exp10)"

text \<open>\<open>*consumed\<close> and \<open>*out\<close>, or \<open>None\<close> for false.\<close>

definition cfg_json_scan_num :: "u8 list \<Rightarrow> (nat \<times> fp) option" where
  "cfg_json_scan_num s =
     (if s = [] then None
      else let neg = (hd s = MINUS); r = (if neg then tl s else s) in
        case scan_int r of None \<Rightarrow> None | Some (a, r) \<Rightarrow>
        case scan_frac a r of None \<Rightarrow> None | Some (a, r) \<Rightarrow>
        case scan_exp a r of None \<Rightarrow> None | Some (a, r) \<Rightarrow>
          Some (length s - length r, if neg then fp_neg (scan_value a) else scan_value a))"

section \<open>Cursor\<close>

record cfg_json_t =
  j_rest :: "u8 list"
  j_depth :: nat
  j_seen :: u32
  j_unknown :: nat
  j_err :: cfg_json_err_t

definition fail :: "cfg_json_t \<Rightarrow> cfg_json_err_t \<Rightarrow> cfg_json_t" where
  "fail j e = (if j_err j = CFG_JSON_OK then j\<lparr>j_err := e\<rparr> else j)"

definition skip_ws :: "cfg_json_t \<Rightarrow> cfg_json_t" where
  "skip_ws j = j\<lparr>j_rest := dropWhile is_ws (j_rest j)\<rparr>"

definition want_more :: "cfg_json_t \<Rightarrow> bool \<times> cfg_json_t" where
  "want_more j = (if j_rest j = [] then (False, fail j CFG_JSON_ERR_TRUNCATED) else (True, j))"

definition lit :: "cfg_json_t \<Rightarrow> u8 list \<Rightarrow> bool \<times> cfg_json_t" where
  "lit j word =
     (if length (j_rest j) < length word then (False, fail j CFG_JSON_ERR_TRUNCATED)
      else if take (length word) (j_rest j) \<noteq> word then (False, fail j CFG_JSON_ERR_SYNTAX)
      else (True, j\<lparr>j_rest := drop (length word) (j_rest j)\<rparr>))"

definition cfg_json_init :: "u8 list \<Rightarrow> cfg_json_t" where
  "cfg_json_init text = \<lparr>j_rest = text, j_depth = 0, j_seen = 0, j_unknown = 0, j_err = CFG_JSON_OK\<rparr>"

definition value_type :: "u8 \<Rightarrow> cfg_json_type_t" where
  "value_type c =
     (if c = LBRACE then CFG_JSON_T_OBJ else if c = LBRACKET then CFG_JSON_T_ARR
      else if c = QUOTE then CFG_JSON_T_STR else if c = MINUS \<or> is_digit c then CFG_JSON_T_NUM
      else if c = 0x74 \<or> c = 0x66 then CFG_JSON_T_BOOL else if c = 0x6E then CFG_JSON_T_NULL
      else CFG_JSON_T_NONE)"

definition cfg_json_peek :: "cfg_json_t \<Rightarrow> cfg_json_type_t \<times> cfg_json_t" where
  "cfg_json_peek j =
     (if j_err j \<noteq> CFG_JSON_OK then (CFG_JSON_T_NONE, j)
      else let j = skip_ws j in
        if j_rest j = [] then (CFG_JSON_T_NONE, j) else (value_type (hd (j_rest j)), j))"

section \<open>Scalars\<close>

text \<open>A false result leaves \<open>*out\<close> alone: \<open>None\<close>.\<close>

definition cfg_json_num :: "cfg_json_t \<Rightarrow> fp option \<times> cfg_json_t" where
  "cfg_json_num j =
     (if j_err j \<noteq> CFG_JSON_OK then (None, j)
      else case want_more (skip_ws j) of (avail, j) \<Rightarrow>
        if \<not> avail then (None, j)
        else let probe = length (takeWhile is_num_char (take (CFG_JSON_NUM_CHARS_MAX + 1) (j_rest j))) in
          if CFG_JSON_NUM_CHARS_MAX < probe then (None, fail j CFG_JSON_ERR_TOOLONG)
          else case cfg_json_scan_num (take probe (j_rest j)) of
              None \<Rightarrow> (None, fail j CFG_JSON_ERR_SYNTAX)
            | Some (used, v) \<Rightarrow>
                if used = 0 \<or> used \<noteq> probe then (None, fail j CFG_JSON_ERR_SYNTAX)
                else (Some v, j\<lparr>j_rest := drop used (j_rest j)\<rparr>))"

definition cfg_json_bool :: "cfg_json_t \<Rightarrow> bool option \<times> cfg_json_t" where
  "cfg_json_bool j =
     (if j_err j \<noteq> CFG_JSON_OK then (None, j)
      else case want_more (skip_ws j) of (avail, j) \<Rightarrow>
        if \<not> avail then (None, j)
        else if hd (j_rest j) = 0x74 then (case lit j TRUE_TXT of (ok, j) \<Rightarrow> (if ok then Some True else None, j))
        else if hd (j_rest j) = 0x66 then (case lit j FALSE_TXT of (ok, j) \<Rightarrow> (if ok then Some False else None, j))
        else (None, fail j CFG_JSON_ERR_SYNTAX))"

definition cfg_json_null :: "cfg_json_t \<Rightarrow> bool \<times> cfg_json_t" where
  "cfg_json_null j = (if j_err j \<noteq> CFG_JSON_OK then (False, j) else lit (skip_ws j) NULL_TXT)"

section \<open>Strings\<close>

text \<open>
  The bytes put into the caller's buffer, and the truncation flag. A null buffer is capacity 0: nothing is
  stored or flagged.
\<close>

type_synonym str_acc = "u8 list \<times> bool"

definition str_put :: "nat \<Rightarrow> str_acc \<Rightarrow> u8 \<Rightarrow> str_acc" where
  "str_put cap a c = (case a of (out, trunc) \<Rightarrow>
     if cap = 0 then (out, trunc) else if length out < cap - 1 then (out @ [c], trunc) else (out, True))"

definition simple_escape :: "u8 \<Rightarrow> u8 option" where
  "simple_escape e =
     (if e = QUOTE \<or> e = BACKSLASH \<or> e = 0x2F then Some e
      else if e = 0x62 then Some 0x08 else if e = 0x66 then Some 0x0C else if e = 0x6E then Some 0x0A
      else if e = 0x72 then Some 0x0D else if e = 0x74 then Some 0x09 else None)"

fun hex_fold :: "nat \<Rightarrow> u8 list \<Rightarrow> nat option" where
  "hex_fold cp [] = Some cp"
| "hex_fold cp (c # cs) = (case hex_val c of None \<Rightarrow> None | Some h \<Rightarrow> hex_fold (cp * 16 + h) cs)"

definition utf8 :: "nat \<Rightarrow> u8 list" where
  "utf8 cp =
     (if cp < 0x80 then [of_nat cp]
      else if cp < 0x800 then [of_nat (0xC0 + cp div 64), of_nat (0x80 + cp mod 64)]
      else [of_nat (0xE0 + cp div 4096), of_nat (0x80 + cp div 64 mod 64), of_nat (0x80 + cp mod 64)])"

text \<open>The loop of \<open>cfg_json_str\<close> after the opening quote: the status, the buffer and the text after it.\<close>

fun str_loop :: "nat \<Rightarrow> str_acc \<Rightarrow> u8 list \<Rightarrow> cfg_json_err_t \<times> str_acc \<times> u8 list" where
  "str_loop cap a [] = (CFG_JSON_ERR_TRUNCATED, a, [])"
| "str_loop cap a (c # r) =
     (if c = QUOTE then (CFG_JSON_OK, a, r)
      else if c = BACKSLASH then
        (case r of [] \<Rightarrow> (CFG_JSON_ERR_TRUNCATED, a, [])
         | e # r' \<Rightarrow>
            (case simple_escape e of Some b \<Rightarrow> str_loop cap (str_put cap a b) r'
             | None \<Rightarrow>
                if e = 0x75 then
                  (if length r' < 4 then (CFG_JSON_ERR_TRUNCATED, a, r')
                   else case hex_fold 0 (take 4 r') of
                       None \<Rightarrow> (CFG_JSON_ERR_SYNTAX, a, r')
                     | Some cp \<Rightarrow> str_loop cap (foldl (str_put cap) a (utf8 cp)) (drop 4 r'))
                else (CFG_JSON_ERR_SYNTAX, a, r')))
      else if c < 0x20 then (CFG_JSON_ERR_SYNTAX, a, r)
      else str_loop cap (str_put cap a c) r)"

text \<open>The string and its truncation flag, or \<open>None\<close> for false.\<close>

definition cfg_json_str :: "nat \<Rightarrow> cfg_json_t \<Rightarrow> str_acc option \<times> cfg_json_t" where
  "cfg_json_str cap j =
     (if j_err j \<noteq> CFG_JSON_OK then (None, j)
      else case want_more (skip_ws j) of (avail, j) \<Rightarrow>
        if \<not> avail then (None, j)
        else if hd (j_rest j) \<noteq> QUOTE then (None, fail j CFG_JSON_ERR_SYNTAX)
        else case str_loop cap ([], False) (tl (j_rest j)) of (status, a, r) \<Rightarrow>
          let j = j\<lparr>j_rest := r\<rparr> in
          if status \<noteq> CFG_JSON_OK then (None, fail j status) else (Some a, j))"

section \<open>Containers\<close>

definition level_bit :: "cfg_json_t \<Rightarrow> u32" where
  "level_bit j = push_bit (j_depth j - 1) 1"

definition container_begin :: "cfg_json_t \<Rightarrow> u8 \<Rightarrow> bool \<times> cfg_json_t" where
  "container_begin j open_c =
     (if j_err j \<noteq> CFG_JSON_OK then (False, j)
      else case want_more (skip_ws j) of (avail, j) \<Rightarrow>
        if \<not> avail then (False, j)
        else if hd (j_rest j) \<noteq> open_c then (False, fail j CFG_JSON_ERR_SYNTAX)
        else if CFG_JSON_DEPTH_MAX \<le> j_depth j then (False, fail j CFG_JSON_ERR_DEPTH)
        else let j = j\<lparr>j_rest := tl (j_rest j), j_depth := j_depth j + 1\<rparr>
             in (True, j\<lparr>j_seen := j_seen j AND NOT (level_bit j)\<rparr>))"

definition cfg_json_obj_begin :: "cfg_json_t \<Rightarrow> bool \<times> cfg_json_t" where
  "cfg_json_obj_begin j = container_begin j LBRACE"

definition cfg_json_arr_begin :: "cfg_json_t \<Rightarrow> bool \<times> cfg_json_t" where
  "cfg_json_arr_begin j = container_begin j LBRACKET"

text \<open>1: an item follows, 0: the container closed, -1: error.\<close>

definition container_step :: "cfg_json_t \<Rightarrow> u8 \<Rightarrow> int \<times> cfg_json_t" where
  "container_step j close_c =
     (if j_err j \<noteq> CFG_JSON_OK then (-1, j)
      else if j_depth j = 0 then (-1, fail j CFG_JSON_ERR_SYNTAX)
      else case want_more (skip_ws j) of (avail, j) \<Rightarrow>
        if \<not> avail then (-1, j)
        else let b = level_bit j in
          if hd (j_rest j) = close_c then (0, j\<lparr>j_rest := tl (j_rest j), j_depth := j_depth j - 1\<rparr>)
          else if j_seen j AND b \<noteq> 0 then
            (if hd (j_rest j) \<noteq> COMMA then (-1, fail j CFG_JSON_ERR_SYNTAX)
             else case want_more (skip_ws (j\<lparr>j_rest := tl (j_rest j)\<rparr>)) of (avail, j) \<Rightarrow>
               if \<not> avail then (-1, j)
               else if hd (j_rest j) = close_c then (-1, fail j CFG_JSON_ERR_SYNTAX)
               else (1, j\<lparr>j_seen := j_seen j OR b\<rparr>))
          else (1, j\<lparr>j_seen := j_seen j OR b\<rparr>))"

text \<open>The member name and its truncation flag, or \<open>None\<close> at the end of the object and on error.\<close>

definition cfg_json_obj_key :: "nat \<Rightarrow> cfg_json_t \<Rightarrow> str_acc option \<times> cfg_json_t" where
  "cfg_json_obj_key cap j =
     (case container_step j RBRACE of (step, j) \<Rightarrow>
        if step \<noteq> 1 then (None, j)
        else case cfg_json_str cap j of
            (None, j) \<Rightarrow> (None, j)
          | (Some a, j) \<Rightarrow>
             (case want_more (skip_ws j) of (avail, j) \<Rightarrow>
                if \<not> avail then (None, j)
                else if hd (j_rest j) \<noteq> COLON then (None, fail j CFG_JSON_ERR_SYNTAX)
                else (Some a, j\<lparr>j_rest := tl (j_rest j)\<rparr>)))"

definition cfg_json_arr_next :: "cfg_json_t \<Rightarrow> bool \<times> cfg_json_t" where
  "cfg_json_arr_next j = (case container_step j RBRACKET of (step, j) \<Rightarrow> (step = 1, j))"

section \<open>Skip and validate\<close>

text \<open>
  The recursion of \<open>cfg_json_skip\<close> and its two loops, with fuel; \<open>skip_unfold\<close> in the theory
  \<open>Json_Walk\<close> shows that the fuel given below is always enough, so that the source's equations hold
  without it.
\<close>

fun skip_n :: "nat \<Rightarrow> cfg_json_t \<Rightarrow> bool \<times> cfg_json_t"
  and skip_members :: "nat \<Rightarrow> cfg_json_t \<Rightarrow> bool \<times> cfg_json_t"
  and skip_elements :: "nat \<Rightarrow> cfg_json_t \<Rightarrow> bool \<times> cfg_json_t" where
  "skip_n 0 j = (False, j)"
| "skip_n (Suc n) j =
     (if j_err j \<noteq> CFG_JSON_OK then (False, j)
      else case cfg_json_peek j of (t, j) \<Rightarrow>
       (case t of
          CFG_JSON_T_OBJ \<Rightarrow> (case cfg_json_obj_begin j of (ok, j) \<Rightarrow> if \<not> ok then (False, j) else skip_members n j)
        | CFG_JSON_T_ARR \<Rightarrow> (case cfg_json_arr_begin j of (ok, j) \<Rightarrow> if \<not> ok then (False, j) else skip_elements n j)
        | CFG_JSON_T_STR \<Rightarrow> (case cfg_json_str 0 j of (r, j) \<Rightarrow> (r \<noteq> None, j))
        | CFG_JSON_T_NUM \<Rightarrow> (case cfg_json_num j of (r, j) \<Rightarrow> (r \<noteq> None, j))
        | CFG_JSON_T_BOOL \<Rightarrow> (case cfg_json_bool j of (r, j) \<Rightarrow> (r \<noteq> None, j))
        | CFG_JSON_T_NULL \<Rightarrow> cfg_json_null j
        | CFG_JSON_T_NONE \<Rightarrow> (False, fail j (if j_rest j = [] then CFG_JSON_ERR_TRUNCATED else CFG_JSON_ERR_SYNTAX))))"
| "skip_members 0 j = (False, j)"
| "skip_members (Suc n) j =
     (case cfg_json_obj_key 4 j of (k, j) \<Rightarrow>
        if k = None then (j_err j = CFG_JSON_OK, j)
        else case skip_n n j of (ok, j) \<Rightarrow> if \<not> ok then (False, j) else skip_members n j)"
| "skip_elements 0 j = (False, j)"
| "skip_elements (Suc n) j =
     (case cfg_json_arr_next j of (avail, j) \<Rightarrow>
        if \<not> avail then (j_err j = CFG_JSON_OK, j)
        else case skip_n n j of (ok, j) \<Rightarrow> if \<not> ok then (False, j) else skip_elements n j)"

definition cfg_json_skip :: "cfg_json_t \<Rightarrow> bool \<times> cfg_json_t" where
  "cfg_json_skip j = skip_n (2 * length (j_rest j) + 1) j"

definition cfg_json_validate :: "u8 list \<Rightarrow> cfg_json_err_t" where
  "cfg_json_validate text =
     (case cfg_json_skip (cfg_json_init text) of (ok, j) \<Rightarrow>
        if \<not> ok then (if j_err j \<noteq> CFG_JSON_OK then j_err j else CFG_JSON_ERR_SYNTAX)
        else if j_rest (skip_ws j) \<noteq> [] then CFG_JSON_ERR_TRAILING else CFG_JSON_OK)"

end
