(* ===== verification/Json_Grammar.thy ===== *)
theory Json_Grammar
  imports Json_Reader
begin

text \<open>
  What the reader accepts. The grammar of \<open>config_json.h\<close> as inductive predicates over byte lists,
  nesting bounded by a depth, and what the scalar readers consume: the number scanner and the string loop by
  cases on the text, then the readers at the cursor. \<open>Json_Walk\<close> and \<open>Json_Decide\<close> follow with the
  containers.
\<close>

section \<open>Grammar\<close>

definition blank :: "u8 list \<Rightarrow> bool" where
  "blank w = list_all is_ws w"

definition digits :: "u8 list \<Rightarrow> bool" where
  "digits ds \<longleftrightarrow> ds \<noteq> [] \<and> list_all is_digit ds"

inductive json_chars :: "u8 list \<Rightarrow> bool" where
  nil: "json_chars []"
| plain: "0x20 \<le> c \<Longrightarrow> c \<noteq> QUOTE \<Longrightarrow> c \<noteq> BACKSLASH \<Longrightarrow> json_chars cs \<Longrightarrow> json_chars (c # cs)"
| escape: "simple_escape e \<noteq> None \<Longrightarrow> json_chars cs \<Longrightarrow> json_chars (BACKSLASH # e # cs)"
| unicode: "length h = 4 \<Longrightarrow> list_all (\<lambda>c. hex_val c \<noteq> None) h \<Longrightarrow> json_chars cs
    \<Longrightarrow> json_chars (BACKSLASH # 0x75 # h @ cs)"

definition json_string :: "u8 list \<Rightarrow> bool" where
  "json_string s \<longleftrightarrow> (\<exists>cs. json_chars cs \<and> s = QUOTE # cs @ [QUOTE])"

definition json_int :: "u8 list \<Rightarrow> bool" where
  "json_int s \<longleftrightarrow> s = [ZERO] \<or> digits s \<and> hd s \<noteq> ZERO"

definition json_frac :: "u8 list \<Rightarrow> bool" where
  "json_frac s \<longleftrightarrow> s = [] \<or> (\<exists>ds. digits ds \<and> s = DOT # ds)"

definition json_exp :: "u8 list \<Rightarrow> bool" where
  "json_exp s \<longleftrightarrow> s = [] \<or> (\<exists>e sg ds. is_exp e \<and> sg \<in> {[], [PLUS], [MINUS]} \<and> digits ds \<and> s = e # sg @ ds)"

definition json_number :: "u8 list \<Rightarrow> bool" where
  "json_number s \<longleftrightarrow> (\<exists>m i f e. m \<in> {[], [MINUS]} \<and> json_int i \<and> json_frac f \<and> json_exp e \<and> s = m @ i @ f @ e)"

inductive json_value :: "nat \<Rightarrow> u8 list \<Rightarrow> bool"
  and json_members :: "nat \<Rightarrow> u8 list \<Rightarrow> bool"
  and json_elements :: "nat \<Rightarrow> u8 list \<Rightarrow> bool" where
  string: "json_string s \<Longrightarrow> json_value d s"
| number: "json_number s \<Longrightarrow> length s \<le> 40 \<Longrightarrow> json_value d s"
| literal: "s \<in> {TRUE_TXT, FALSE_TXT, NULL_TXT} \<Longrightarrow> json_value d s"
| empty_object: "blank w \<Longrightarrow> json_value (Suc d) (LBRACE # w @ [RBRACE])"
| object: "json_members d m \<Longrightarrow> json_value (Suc d) (LBRACE # m @ [RBRACE])"
| empty_array: "blank w \<Longrightarrow> json_value (Suc d) (LBRACKET # w @ [RBRACKET])"
| array: "json_elements d m \<Longrightarrow> json_value (Suc d) (LBRACKET # m @ [RBRACKET])"
| last_member: "blank w1 \<Longrightarrow> json_string k \<Longrightarrow> blank w2 \<Longrightarrow> blank w3 \<Longrightarrow> json_value d v \<Longrightarrow> blank w4
    \<Longrightarrow> json_members d (w1 @ k @ w2 @ COLON # w3 @ v @ w4)"
| more_members: "blank w1 \<Longrightarrow> json_string k \<Longrightarrow> blank w2 \<Longrightarrow> blank w3 \<Longrightarrow> json_value d v \<Longrightarrow> blank w4
    \<Longrightarrow> json_members d m \<Longrightarrow> json_members d (w1 @ k @ w2 @ COLON # w3 @ v @ w4 @ COMMA # m)"
| last_element: "blank w1 \<Longrightarrow> json_value d v \<Longrightarrow> blank w2 \<Longrightarrow> json_elements d (w1 @ v @ w2)"
| more_elements: "blank w1 \<Longrightarrow> json_value d v \<Longrightarrow> blank w2 \<Longrightarrow> json_elements d m
    \<Longrightarrow> json_elements d (w1 @ v @ w2 @ COMMA # m)"

definition json_text :: "nat \<Rightarrow> u8 list \<Rightarrow> bool" where
  "json_text d s \<longleftrightarrow> (\<exists>w1 v w2. blank w1 \<and> json_value d v \<and> blank w2 \<and> s = w1 @ v @ w2)"

section \<open>Characters\<close>

lemma char_classes [simp]:
  "\<not> is_ws QUOTE" "\<not> is_ws LBRACE" "\<not> is_ws RBRACE" "\<not> is_ws LBRACKET" "\<not> is_ws RBRACKET" "\<not> is_ws COMMA" "\<not> is_ws COLON"
  "\<not> is_ws MINUS" "\<not> is_ws 0x74" "\<not> is_ws 0x66" "\<not> is_ws 0x6E"
  "\<not> is_digit DOT" "\<not> is_digit MINUS" "\<not> is_digit PLUS" "is_digit ZERO"
  by (simp_all add: is_ws_def is_digit_def)

lemma digit_classes [simp]: "is_digit c \<Longrightarrow> \<not> is_ws c" "is_digit c \<Longrightarrow> \<not> is_exp c" "is_digit c \<Longrightarrow> is_num_char c"
  by (auto simp: is_digit_def is_ws_def is_exp_def is_num_char_def)

lemma ws_classes: "is_ws c \<Longrightarrow> \<not> is_num_char c"
  by (auto simp: is_digit_def is_ws_def is_exp_def is_num_char_def)

lemma blank_simps [simp]: "blank []" "blank (c # w) \<longleftrightarrow> is_ws c \<and> blank w" "blank (v @ w) \<longleftrightarrow> blank v \<and> blank w"
  by (simp_all add: blank_def)

lemma drop_blank [simp]: "blank w \<Longrightarrow> dropWhile is_ws (w @ s) = dropWhile is_ws s"
  by (induction w) simp_all

lemma split_blank:
  obtains w where "blank w" "s = w @ dropWhile is_ws s"
  using takeWhile_dropWhile_id [of is_ws s] set_takeWhileD [of _ is_ws s] by (metis blank_def list_all_iff)

lemma no_digit_simps [simp]: "no_digit []" "no_digit (c # r) \<longleftrightarrow> \<not> is_digit c"
  by (simp_all add: no_digit_def)

lemma digits_Cons: "digits (c # ds) \<longleftrightarrow> is_digit c \<and> list_all is_digit ds"
  by (simp add: digits_def)

lemma take_digits: "list_all is_digit ds \<Longrightarrow> no_digit r \<Longrightarrow> takeWhile is_digit (ds @ r) = ds \<and> dropWhile is_digit (ds @ r) = r"
  by (induction ds) (cases r; auto)+

lemma split_digits:
  assumes "\<not> no_digit s"
  shows "digits (takeWhile is_digit s)" "s = takeWhile is_digit s @ dropWhile is_digit s" "no_digit (dropWhile is_digit s)"
  using assms set_takeWhileD [of _ is_digit s]
  by (auto simp: digits_def list_all_iff no_digit_def hd_dropWhile split: list.splits) (metis hd_dropWhile list.sel(1) list.simps(3))

section \<open>Numbers\<close>

lemma ex_triple [simp]: "\<exists>a b c. x = (a, b, c)"
  by (cases x) simp

lemma scan_int_sound: "scan_int s = Some (a, r) \<Longrightarrow> \<exists>i. json_int i \<and> s = i @ r \<and> no_digit r"
proof -
  assume h: "scan_int s = Some (a, r)"
  then have n: "\<not> no_digit s" by (simp add: scan_int_def split: if_splits)
  then obtain c s' where s: "s = c # s'" by (cases s) (simp_all add: no_digit_def)
  show ?thesis
  proof (cases "c = ZERO")
    case True
    with h s show ?thesis by (auto simp: scan_int_def json_int_def split: if_splits)
  next
    case False
    from h False s have r: "r = dropWhile is_digit s" by (simp add: scan_int_def split: if_splits)
    have "hd (takeWhile is_digit s) \<noteq> ZERO" using n False s by (simp add: no_digit_def)
    then show ?thesis using split_digits [OF n] r unfolding json_int_def by blast
  qed
qed

lemma scan_int_complete:
  assumes "json_int i" "no_digit r"
  shows "\<exists>a. scan_int (i @ r) = Some (a, r)"
proof (cases "i = [ZERO]")
  case True
  then show ?thesis using assms(2) by (simp add: scan_int_def)
next
  case False
  with assms(1) have d: "digits i" "hd i \<noteq> ZERO" by (simp_all add: json_int_def)
  then obtain c ds where i: "i = c # ds" by (cases i) (simp_all add: digits_def)
  then show ?thesis using d assms(2) take_digits [of i r] by (simp add: scan_int_def digits_Cons)
qed

lemma scan_frac_sound: "scan_frac a s = Some (b, r) \<Longrightarrow> \<exists>f. json_frac f \<and> s = f @ r"
proof (cases "s \<noteq> [] \<and> hd s = DOT")
  case True
  assume h: "scan_frac a s = Some (b, r)"
  with True have n: "\<not> no_digit (tl s)" by (simp add: scan_frac_def split: if_splits)
  with h True have r: "r = dropWhile is_digit (tl s)" by (simp add: scan_frac_def)
  have "json_frac (DOT # takeWhile is_digit (tl s))" using split_digits(1) [OF n] by (auto simp: json_frac_def)
  moreover have "s = (DOT # takeWhile is_digit (tl s)) @ r"
    using True split_digits(2) [OF n] r by (metis append_Cons list.collapse)
  ultimately show ?thesis by blast
next
  case False
  assume "scan_frac a s = Some (b, r)"
  with False show ?thesis by (auto simp: scan_frac_def json_frac_def)
qed

lemma scan_frac_complete:
  assumes "json_frac f" "no_digit r" "r \<noteq> [] \<Longrightarrow> hd r \<noteq> DOT"
  shows "\<exists>b. scan_frac a (f @ r) = Some (b, r)"
proof (cases "f = []")
  case True
  then show ?thesis using assms(3) by (auto simp: scan_frac_def)
next
  case False
  with assms(1) obtain ds where "digits ds" "f = DOT # ds" by (auto simp: json_frac_def)
  then show ?thesis using assms(2) take_digits [of ds r] by (cases ds) (auto simp: scan_frac_def digits_def)
qed

lemma scan_exp_sound: "scan_exp a s = Some (b, r) \<Longrightarrow> \<exists>e. json_exp e \<and> s = e @ r"
proof (cases "s \<noteq> [] \<and> is_exp (hd s)")
  case True
  assume h: "scan_exp a s = Some (b, r)"
  define t where "t = snd (exp_sign (tl s))"
  have sg: "\<exists>sg \<in> {[], [PLUS], [MINUS]}. tl s = sg @ t"
    by (cases "tl s") (auto simp: t_def exp_sign_def)
  from h True have n: "\<not> no_digit t" by (auto simp: scan_exp_def t_def split: prod.splits if_splits)
  with h True have r: "r = dropWhile is_digit t" by (auto simp: scan_exp_def t_def split: prod.splits if_splits)
  from sg obtain sg where "sg \<in> {[], [PLUS], [MINUS]}" "tl s = sg @ t" by blast
  with True split_digits(1,2) [OF n] r
  have "json_exp (hd s # sg @ takeWhile is_digit t)" "s = (hd s # sg @ takeWhile is_digit t) @ r"
    unfolding json_exp_def by (blast, metis append.assoc append_Cons list.collapse)
  then show ?thesis by blast
next
  case False
  assume "scan_exp a s = Some (b, r)"
  with False show ?thesis by (auto simp: scan_exp_def json_exp_def split: prod.splits)
qed

lemma scan_exp_complete:
  assumes "json_exp e" "no_digit r" "r \<noteq> [] \<Longrightarrow> \<not> is_exp (hd r)"
  shows "\<exists>b. scan_exp a (e @ r) = Some (b, r)"
proof (cases "e = []")
  case True
  then show ?thesis using assms(3) by (auto simp: scan_exp_def split: prod.splits)
next
  case False
  with assms(1) obtain x sg ds where e: "is_exp x" "sg \<in> {[], [PLUS], [MINUS]}" "digits ds" "e = x # sg @ ds"
    by (auto simp: json_exp_def)
  then obtain c cs where ds: "ds = c # cs" "is_digit c" by (cases ds) (auto simp: digits_def)
  then have "c \<noteq> PLUS" "c \<noteq> MINUS" by auto
  with e ds have sgn: "snd (exp_sign (sg @ ds @ r)) = ds @ r" by (auto simp: exp_sign_def)
  have "\<not> no_digit (ds @ r)" "dropWhile is_digit (ds @ r) = r"
    using ds e take_digits [of ds r] assms(2) by (simp_all add: digits_def)
  then show ?thesis using e sgn by (auto simp: scan_exp_def split: prod.splits)
qed

lemma exp_starts: "json_exp e \<Longrightarrow> no_digit e \<and> (e \<noteq> [] \<longrightarrow> hd e \<noteq> DOT)"
  by (auto simp: json_exp_def is_exp_def is_digit_def)

lemma frac_starts: "json_frac f \<Longrightarrow> json_exp e \<Longrightarrow> no_digit (f @ e)"
  using exp_starts by (auto simp: json_frac_def)

lemma scan_num_iff: "(\<exists>v. cfg_json_scan_num s = Some (length s, v)) \<longleftrightarrow> json_number s"
proof
  assume "\<exists>v. cfg_json_scan_num s = Some (length s, v)"
  then obtain v where h: "cfg_json_scan_num s = Some (length s, v)" ..
  then have ne: "s \<noteq> []" by (auto simp: cfg_json_scan_num_def)
  define t where "t = (if hd s = MINUS then tl s else s)"
  from h ne obtain a1 r1 a2 r2 a3 r3 where
    st: "scan_int t = Some (a1, r1)" "scan_frac a1 r1 = Some (a2, r2)" "scan_exp a2 r2 = Some (a3, r3)"
      "length s - length r3 = length s"
    by (auto simp: cfg_json_scan_num_def t_def Let_def split: option.splits if_splits)
  obtain i where i: "json_int i" "t = i @ r1" using scan_int_sound [OF st(1)] by blast
  obtain f where f: "json_frac f" "r1 = f @ r2" using scan_frac_sound [OF st(2)] by blast
  obtain e where e: "json_exp e" "r2 = e @ r3" using scan_exp_sound [OF st(3)] by blast
  have "length s > 0" using ne by simp
  with st(4) have "r3 = []" using diff_less [of "length r3" "length s"] by fastforce
  with i f e have t: "t = i @ f @ e" by simp
  define m where "m = (if hd s = MINUS then [MINUS] else [])"
  have "s = m @ i @ f @ e" "m \<in> {[], [MINUS]}" using ne t by (cases s; simp add: t_def m_def split: if_splits)+
  then show "json_number s" using i(1) f(1) e(1) unfolding json_number_def by blast
next
  assume "json_number s"
  then obtain m i f e where p: "m \<in> {[], [MINUS]}" "json_int i" "json_frac f" "json_exp e" "s = m @ i @ f @ e"
    by (auto simp: json_number_def)
  from p(2) obtain c cs where i: "i = c # cs" "is_digit c" by (cases i) (auto simp: json_int_def digits_def)
  then have "c \<noteq> MINUS" by auto
  then have t: "(if hd s = MINUS then tl s else s) = i @ f @ e" "s \<noteq> []" using p i by auto
  obtain a1 where "scan_int (i @ f @ e) = Some (a1, f @ e)" using scan_int_complete [OF p(2) frac_starts [OF p(3,4)]] by blast
  moreover obtain a2 where "scan_frac a1 (f @ e) = Some (a2, e)" using scan_frac_complete [OF p(3), of e a1] exp_starts [OF p(4)] by blast
  moreover obtain a3 where "scan_exp a2 e = Some (a3, [])" using scan_exp_complete [OF p(4), of "[]" a2] by auto
  ultimately show "\<exists>v. cfg_json_scan_num s = Some (length s, v)" using t by (simp add: cfg_json_scan_num_def Let_def)
qed

lemma number_chars: "json_number s \<Longrightarrow> s \<noteq> [] \<and> list_all is_num_char s \<and> (hd s = MINUS \<or> is_digit (hd s))"
proof -
  assume "json_number s"
  then obtain m i f e where p: "m \<in> {[], [MINUS]}" "json_int i" "json_frac f" "json_exp e" "s = m @ i @ f @ e"
    by (auto simp: json_number_def)
  have ds: "list_all is_num_char ds" if "digits ds" for ds using that by (auto simp: digits_def list_all_iff)
  have c: "is_num_char MINUS" "is_num_char PLUS" "is_num_char DOT" "is_exp c \<Longrightarrow> is_num_char c" "is_num_char ZERO" for c
    by (simp_all add: is_num_char_def)
  have i: "list_all is_num_char i" "i \<noteq> []" "is_digit (hd i)" using p(2) ds c by (auto simp: json_int_def digits_def) (cases i; auto)
  have f: "list_all is_num_char f" using p(3) ds c by (auto simp: json_frac_def)
  have e: "list_all is_num_char e" using p(4) ds c by (auto simp: json_exp_def)
  show ?thesis using p(1,5) i f e c(1) by auto
qed

section \<open>Strings\<close>

lemma hex_fold_iff: "hex_fold cp h \<noteq> None \<longleftrightarrow> list_all (\<lambda>c. hex_val c \<noteq> None) h"
  by (induction cp h rule: hex_fold.induct) (auto split: option.splits)

lemma not_simple_u: "simple_escape 0x75 = None"
  by (simp add: simple_escape_def)

lemma str_loop_sound:
  "str_loop cap a s = (CFG_JSON_OK, b, r) \<Longrightarrow> \<exists>cs. json_chars cs \<and> s = cs @ QUOTE # r"
proof (induction cap a s rule: str_loop.induct)
  case (1 cap a)
  then show ?case by simp
next
  case (2 cap a c s)
  consider "c = QUOTE" | "c = BACKSLASH" | "c \<noteq> QUOTE" "c \<noteq> BACKSLASH" by blast
  then show ?case
  proof cases
    case 1
    then show ?thesis using "2.prems" by (intro exI [of _ "[]"]) (simp add: json_chars.nil)
  next
    case 2
    note bs = this
    then obtain e s' where s: "s = e # s'" using "2.prems" by (cases s) simp_all
    show ?thesis
    proof (cases "simple_escape e")
      case (Some x)
      with "2.prems" bs s have "str_loop cap (str_put cap a x) s' = (CFG_JSON_OK, b, r)" by simp
      moreover have "c \<noteq> QUOTE" using bs by simp
      ultimately obtain cs where "json_chars cs" "s' = cs @ QUOTE # r" using "2.IH" bs s Some by blast
      then show ?thesis using Some bs s
        by (intro exI [of _ "BACKSLASH # e # cs"]) (simp add: json_chars.escape)
    next
      case None
      with "2.prems" bs s have u: "e = 0x75" "\<not> length s' < 4" by (auto split: if_splits)
      with "2.prems" bs s None obtain cp where cp: "hex_fold 0 (take 4 s') = Some cp" by (auto split: option.splits)
      with "2.prems" bs s None u have "str_loop cap (foldl (str_put cap) a (utf8 cp)) (drop 4 s') = (CFG_JSON_OK, b, r)" by simp
      moreover have "c \<noteq> QUOTE" using bs by simp
      ultimately obtain cs where cs: "json_chars cs" "drop 4 s' = cs @ QUOTE # r" using "2.IH" bs s None u cp by blast
      have "s' = take 4 s' @ cs @ QUOTE # r" using cs(2) append_take_drop_id [of 4 s'] by simp
      moreover have "json_chars (BACKSLASH # 0x75 # take 4 s' @ cs)"
        using u(2) cs(1) cp hex_fold_iff [of 0 "take 4 s'"] by (intro json_chars.unicode) simp_all
      ultimately show ?thesis using bs s u(1) by (intro exI [of _ "BACKSLASH # 0x75 # take 4 s' @ cs"]) simp
    qed
  next
    case 3
    with "2.prems" have "\<not> c < 0x20" "str_loop cap (str_put cap a c) s = (CFG_JSON_OK, b, r)" by (auto split: if_splits)
    with "2.IH" 3 obtain cs where "json_chars cs" "s = cs @ QUOTE # r" by blast
    then show ?thesis using 3 \<open>\<not> c < 0x20\<close>
      by (intro exI [of _ "c # cs"]) (simp add: json_chars.plain not_less)
  qed
qed

lemma str_loop_complete: "json_chars cs \<Longrightarrow> \<exists>b. str_loop cap a (cs @ QUOTE # r) = (CFG_JSON_OK, b, r)"
proof (induction arbitrary: a rule: json_chars.induct)
  case nil
  then show ?case by simp
next
  case (plain c cs)
  then show ?case by (auto simp: not_less [symmetric])
next
  case (escape e cs)
  then obtain y where "simple_escape e = Some y" by auto
  with escape.IH show ?case by simp
next
  case (unicode h cs)
  then obtain cp where "hex_fold 0 h = Some cp" using hex_fold_iff [of 0 h] by auto
  then show ?case using unicode by (simp add: not_simple_u)
qed

lemma cursor_eq: "(j\<lparr>j_rest := r\<rparr> :: cfg_json_t) = j' \<Longrightarrow> j' = j\<lparr>j_rest := j_rest j'\<rparr>"
  by auto

lemma str_complete:
  assumes "j_err j = CFG_JSON_OK" "j_rest j = w @ s @ r" "blank w" "json_string s"
  shows "\<exists>a. cfg_json_str cap j = (Some a, j\<lparr>j_rest := r\<rparr>)"
proof -
  obtain cs where cs: "json_chars cs" "s = QUOTE # cs @ [QUOTE]" using assms(4) by (auto simp: json_string_def)
  obtain b where "str_loop cap ([], False) (cs @ QUOTE # r) = (CFG_JSON_OK, b, r)" using str_loop_complete [OF cs(1)] by blast
  then show ?thesis using assms(1-3) cs(2)
    by (auto simp: cfg_json_str_def skip_ws_def want_more_def Let_def)
qed

lemma str_sound:
  assumes "cfg_json_str cap j = (Some a, j')"
  shows "\<exists>w s. blank w \<and> json_string s \<and> j_rest j = w @ s @ j_rest j' \<and> j' = j\<lparr>j_rest := j_rest j'\<rparr> \<and> j_err j = CFG_JSON_OK"
proof -
  obtain w where w: "blank w" "j_rest j = w @ dropWhile is_ws (j_rest j)" by (rule split_blank)
  define t where "t = dropWhile is_ws (j_rest j)"
  from assms have ok: "j_err j = CFG_JSON_OK" "t \<noteq> []" "hd t = QUOTE"
    by (auto simp: cfg_json_str_def skip_ws_def want_more_def t_def split: if_splits)
  obtain st b r where l: "str_loop cap ([], False) (tl t) = (st, b, r)" by (cases "str_loop cap ([], False) (tl t)")
  with assms ok have st: "st = CFG_JSON_OK" "j' = j\<lparr>j_rest := r\<rparr>"
    by (auto simp: cfg_json_str_def skip_ws_def want_more_def t_def Let_def split: if_splits)
  with l obtain cs where cs: "json_chars cs" "tl t = cs @ QUOTE # r" using str_loop_sound by blast
  with ok have "t = (QUOTE # cs @ [QUOTE]) @ r" by (cases t) simp_all
  then show ?thesis using w cs(1) st ok(1) unfolding json_string_def t_def by (metis cfg_json_t.select_convs(1) cfg_json_t.surjective cfg_json_t.update_convs(1) append.assoc)
qed

section \<open>Numbers and literals at the cursor\<close>

text \<open>The text after a number must not continue the number token.\<close>

definition ends_token :: "u8 list \<Rightarrow> bool" where
  "ends_token r \<longleftrightarrow> r = [] \<or> \<not> is_num_char (hd r)"

lemma probe_token:
  assumes "list_all is_num_char s" "ends_token r" "length s \<le> 40"
  shows "takeWhile is_num_char (take 41 (s @ r)) = s"
proof -
  have "takeWhile is_num_char (s @ take (41 - length s) r) = s"
    using assms(1,2) by (cases r; cases "41 - length s") (simp_all add: takeWhile_append2 list_all_iff ends_token_def)
  then show ?thesis using assms(3) by simp
qed

lemma num_complete:
  assumes "j_err j = CFG_JSON_OK" "j_rest j = w @ s @ r" "blank w" "json_number s" "length s \<le> 40" "ends_token r"
  shows "\<exists>v. cfg_json_num j = (Some v, j\<lparr>j_rest := r\<rparr>)"
proof -
  from number_chars [OF assms(4)] have c: "s \<noteq> []" "list_all is_num_char s" "\<not> is_ws (hd s)" by auto
  then have d: "dropWhile is_ws (s @ r) = s @ r" by (cases s) simp_all
  obtain v where "cfg_json_scan_num s = Some (length s, v)" using scan_num_iff assms(4) by blast
  then show ?thesis using assms(1-3) c d probe_token [OF c(2) assms(6,5)]
    by (simp add: cfg_json_num_def skip_ws_def want_more_def CFG_JSON_NUM_CHARS_MAX_def Let_def assms(5) not_less)
qed

lemma num_sound:
  assumes "cfg_json_num j = (Some v, j')"
  shows "\<exists>w s. blank w \<and> json_number s \<and> length s \<le> 40 \<and> j_rest j = w @ s @ j_rest j' \<and> j' = j\<lparr>j_rest := j_rest j'\<rparr> \<and> j_err j = CFG_JSON_OK"
proof -
  obtain w where w: "blank w" "j_rest j = w @ dropWhile is_ws (j_rest j)" by (rule split_blank)
  define t where "t = dropWhile is_ws (j_rest j)"
  define n where "n = length (takeWhile is_num_char (take 41 t))"
  from assms have ok: "j_err j = CFG_JSON_OK" "n \<le> 40" "cfg_json_scan_num (take n t) = Some (n, v)" "j' = j\<lparr>j_rest := drop n t\<rparr>"
    by (auto simp: cfg_json_num_def skip_ws_def want_more_def t_def n_def CFG_JSON_NUM_CHARS_MAX_def Let_def not_less
        split: if_splits option.splits)
  have "n \<le> length t" unfolding n_def using length_takeWhile_le [of is_num_char "take 41 t"] by simp
  with ok(3) have "json_number (take n t)" using scan_num_iff [of "take n t"] by auto
  then show ?thesis using w ok append_take_drop_id [of n t] \<open>n \<le> length t\<close> unfolding t_def by (intro exI [of _ w] exI [of _ "take n (dropWhile is_ws (j_rest j))"]) auto
qed

lemma lit_iff:
  "lit j word = (True, j') \<longleftrightarrow> (j_rest j = word @ j_rest j' \<and> j' = j\<lparr>j_rest := j_rest j'\<rparr>)"
proof
  assume "lit j word = (True, j')"
  then show "j_rest j = word @ j_rest j' \<and> j' = j\<lparr>j_rest := j_rest j'\<rparr>"
    using append_take_drop_id [of "length word" "j_rest j"] by (auto simp: lit_def simp del: append_take_drop_id split: if_splits)
next
  assume "j_rest j = word @ j_rest j' \<and> j' = j\<lparr>j_rest := j_rest j'\<rparr>"
  then show "lit j word = (True, j')" by (auto simp: lit_def)
qed

lemma bool_complete:
  assumes "j_err j = CFG_JSON_OK" "j_rest j = w @ s @ r" "blank w" "s \<in> {TRUE_TXT, FALSE_TXT}"
  shows "\<exists>v. cfg_json_bool j = (Some v, j\<lparr>j_rest := r\<rparr>)"
  using assms by (auto simp: cfg_json_bool_def skip_ws_def want_more_def lit_def Let_def)

lemma bool_sound:
  assumes "cfg_json_bool j = (Some v, j')"
  shows "\<exists>w s. blank w \<and> s \<in> {TRUE_TXT, FALSE_TXT} \<and> j_rest j = w @ s @ j_rest j' \<and> j' = j\<lparr>j_rest := j_rest j'\<rparr> \<and> j_err j = CFG_JSON_OK"
proof -
  obtain w where w: "blank w" "j_rest j = w @ dropWhile is_ws (j_rest j)" by (rule split_blank)
  from assms have ok: "j_err j = CFG_JSON_OK" by (auto simp: cfg_json_bool_def split: if_splits)
  with assms have "lit (skip_ws j) TRUE_TXT = (True, j') \<or> lit (skip_ws j) FALSE_TXT = (True, j')"
    by (auto simp: cfg_json_bool_def want_more_def split: if_splits prod.splits)
  then obtain s where "s \<in> {TRUE_TXT, FALSE_TXT}" "dropWhile is_ws (j_rest j) = s @ j_rest j'" "j' = (skip_ws j)\<lparr>j_rest := j_rest j'\<rparr>"
    unfolding lit_iff by (auto simp: skip_ws_def)
  then show ?thesis using w ok by (auto simp: skip_ws_def)
qed

lemma null_complete:
  assumes "j_err j = CFG_JSON_OK" "j_rest j = w @ NULL_TXT @ r" "blank w"
  shows "cfg_json_null j = (True, j\<lparr>j_rest := r\<rparr>)"
  using assms by (auto simp: cfg_json_null_def skip_ws_def lit_def)

lemma null_sound:
  assumes "cfg_json_null j = (True, j')"
  shows "\<exists>w. blank w \<and> j_rest j = w @ NULL_TXT @ j_rest j' \<and> j' = j\<lparr>j_rest := j_rest j'\<rparr> \<and> j_err j = CFG_JSON_OK"
proof -
  obtain w where w: "blank w" "j_rest j = w @ dropWhile is_ws (j_rest j)" by (rule split_blank)
  from assms have ok: "j_err j = CFG_JSON_OK" by (auto simp: cfg_json_null_def split: if_splits)
  with assms have "dropWhile is_ws (j_rest j) = NULL_TXT @ j_rest j'" "j' = (skip_ws j)\<lparr>j_rest := j_rest j'\<rparr>"
    by (simp_all add: cfg_json_null_def lit_iff) (simp_all add: skip_ws_def)
  then show ?thesis using w ok by (auto simp: skip_ws_def)
qed

end
