(* ===== verification/Json_Walk.thy ===== *)
theory Json_Walk
  imports Json_Grammar
begin

text \<open>
  What a successful walk of the reader has consumed: the three outcomes of a container step, the
  member names, and by induction on the fuel that \<open>cfg_json_skip\<close> only succeeds on a value of the grammar.
  Since every success consumes text, the fuel is always enough, and the equations of the source hold
  without it.
\<close>

section \<open>Container steps\<close>

text \<open>A level is marked once it has yielded an item. Levels below the current one are not touched.\<close>

definition marked :: "cfg_json_t \<Rightarrow> bool" where
  "marked j \<longleftrightarrow> bit (j_seen j) (j_depth j - 1)"

definition agree :: "nat \<Rightarrow> u32 \<Rightarrow> u32 \<Rightarrow> bool" where
  "agree k s t \<longleftrightarrow> (\<forall>i<k. bit s i = bit t i)"

lemma agree_refl [simp]: "agree k s s"
  by (simp add: agree_def)

lemma agree_trans: "agree k s t \<Longrightarrow> agree k t u \<Longrightarrow> agree k s u"
  by (simp add: agree_def)

lemma agree_less: "agree k s t \<Longrightarrow> i \<le> k \<Longrightarrow> agree i s t"
  by (simp add: agree_def)

text \<open>The cursor in a container of a legal depth.\<close>

definition inside :: "cfg_json_t \<Rightarrow> bool" where
  "inside j \<longleftrightarrow> j_err j = CFG_JSON_OK \<and> 0 < j_depth j \<and> j_depth j \<le> 6"

lemma level_bit_bit: "inside j \<Longrightarrow> bit (level_bit j) i \<longleftrightarrow> i = j_depth j - 1"
proof -
  assume "inside j"
  then have "j_depth j - 1 < 32" unfolding inside_def by linarith
  then show ?thesis by (auto simp: level_bit_def push_bit_of_1 bit_exp_iff)
qed

lemma level_bit_set: "inside j \<Longrightarrow> j_seen j AND level_bit j \<noteq> 0 \<longleftrightarrow> marked j"
proof -
  assume "inside j"
  then have b: "bit (j_seen j AND level_bit j) n \<longleftrightarrow> n = j_depth j - 1 \<and> marked j" for n
    by (auto simp: marked_def bit_and_iff level_bit_bit)
  show ?thesis
  proof (cases "marked j")
    case True
    then have "bit (j_seen j AND level_bit j) (j_depth j - 1)" using b by simp
    then show ?thesis using True by (metis bit_0_eq bot_apply bot_bool_def)
  next
    case False
    then have "j_seen j AND level_bit j = 0" using b by (intro bit_word_eqI) simp
    then show ?thesis using False by simp
  qed
qed

definition mark :: "cfg_json_t \<Rightarrow> u8 list \<Rightarrow> cfg_json_t" where
  "mark j r = j\<lparr>j_rest := r, j_seen := j_seen j OR level_bit j\<rparr>"

lemma mark_props:
  "inside j \<Longrightarrow> marked (mark j r)" "inside j \<Longrightarrow> inside (mark j r)" "j_rest (mark j r) = r" "j_depth (mark j r) = j_depth j"
  "j_err (mark j r) = j_err j" "inside j \<Longrightarrow> agree (j_depth j - 1) (j_seen (mark j r)) (j_seen j)"
  using level_bit_bit [of j] by (auto simp: mark_def marked_def agree_def bit_or_iff) (auto simp: inside_def)

text \<open>What \<open>container_step\<close> reads, in the three good cases.\<close>

definition item_text :: "cfg_json_t \<Rightarrow> u8 \<Rightarrow> u8 list \<Rightarrow> bool" where
  "item_text j close_c r \<longleftrightarrow> r \<noteq> [] \<and> \<not> is_ws (hd r) \<and> hd r \<noteq> close_c \<and>
     (\<exists>w. blank w \<and> (if marked j then \<exists>w'. blank w' \<and> j_rest j = w @ COMMA # w' @ r else j_rest j = w @ r))"

lemma step_closed:
  assumes "inside j" "blank w" "j_rest j = w @ close_c # r" "\<not> is_ws close_c"
  shows "container_step j close_c = (0, j\<lparr>j_rest := r, j_depth := j_depth j - 1\<rparr>)"
  using assms by (simp add: container_step_def inside_def skip_ws_def want_more_def Let_def)

lemma step_item:
  assumes "inside j" "item_text j close_c r" "close_c \<noteq> COMMA" "\<not> is_ws close_c"
  shows "container_step j close_c = (1, mark j r)"
proof -
  from assms(2) obtain c r' where r: "r = c # r'" "\<not> is_ws c" "c \<noteq> close_c" by (cases r) (auto simp: item_text_def)
  have lb: "level_bit (j\<lparr>j_rest := x\<rparr>) = level_bit j" for x by (simp add: level_bit_def)
  show ?thesis
  proof (cases "marked j")
    case True
    with assms(2) obtain w w' where "blank w" "blank w'" "j_rest j = w @ COMMA # w' @ r" by (auto simp: item_text_def)
    then show ?thesis using assms(1,3) r True level_bit_set [OF assms(1)]
      by (simp add: container_step_def inside_def skip_ws_def want_more_def lb mark_def Let_def)
  next
    case False
    with assms(2) obtain w where "blank w" "j_rest j = w @ r" by (auto simp: item_text_def)
    then show ?thesis using assms(1) r False level_bit_set [OF assms(1)]
      by (simp add: container_step_def inside_def skip_ws_def want_more_def lb mark_def Let_def)
  qed
qed

lemma blank_dropWhile: "dropWhile is_ws s = t \<Longrightarrow> \<exists>w. blank w \<and> s = w @ t"
  using split_blank by metis

lemma step_cases:
  assumes "container_step j close_c = (k, j')" "k \<noteq> -1" "j_depth j \<le> 6" "close_c \<noteq> COMMA"
  shows "inside j \<and>
    ((k = 0 \<and> (\<exists>w. blank w \<and> j_rest j = w @ close_c # j_rest j') \<and> j' = j\<lparr>j_rest := j_rest j', j_depth := j_depth j - 1\<rparr>) \<or>
     (k = 1 \<and> item_text j close_c (j_rest j') \<and> j' = mark j (j_rest j')))"
proof -
  from assms(1-3) have ins: "inside j" by (auto simp: container_step_def inside_def split: if_splits)
  define t where "t = dropWhile is_ws (j_rest j)"
  have lb: "level_bit (j\<lparr>j_rest := x\<rparr>) = level_bit j" for x by (simp add: level_bit_def)
  from ins assms(1,2) have ne: "t \<noteq> []"
    by (auto simp: container_step_def inside_def skip_ws_def want_more_def t_def split: if_splits)
  then obtain c t' where t: "t = c # t'" by (meson neq_Nil_conv)
  have nws: "\<not> is_ws c" using t t_def hd_dropWhile [of is_ws "j_rest j"] ne by auto
  obtain w where w: "blank w" "j_rest j = w @ c # t'" using blank_dropWhile t t_def by metis
  note def = container_step_def inside_def skip_ws_def want_more_def lb Let_def
  show ?thesis
  proof (cases "c = close_c")
    case True
    with assms(1) ins ne t t_def have "k = 0" "j' = j\<lparr>j_rest := t', j_depth := j_depth j - 1\<rparr>"
      by (auto simp: def)
    then show ?thesis using ins w True by auto
  next
    case nclose: False
    show ?thesis
    proof (cases "marked j")
      case False
      with assms(1) ins ne t t_def nclose level_bit_set [OF ins] have "k = 1" "j' = mark j t"
        by (auto simp: def mark_def)
      then show ?thesis using ins w t nws nclose False by (auto simp: item_text_def mark_props(3))
    next
      case True
      define u where "u = dropWhile is_ws t'"
      from True assms(1,2) ins ne t t_def nclose level_bit_set [OF ins] have c: "c = COMMA"
        by (auto simp: def split: if_splits)
      from c True assms(1,2) ins ne t t_def nclose level_bit_set [OF ins] have u: "u \<noteq> []" "hd u \<noteq> close_c"
        by (auto simp: def u_def split: if_splits)
      with c True assms(1,2) ins ne t t_def nclose level_bit_set [OF ins] have "k = 1" "j' = mark j u"
        by (auto simp: def u_def mark_def split: if_splits)
      moreover obtain w' where "blank w'" "t' = w' @ u" using blank_dropWhile u_def by metis
      moreover have "\<not> is_ws (hd u)" using u(1) hd_dropWhile unfolding u_def by blast
      ultimately show ?thesis using ins w c u True by (auto simp: item_text_def mark_props(3))
    qed
  qed
qed

section \<open>Members\<close>

definition member_text :: "u8 list \<Rightarrow> u8 list \<Rightarrow> bool" where
  "member_text s r \<longleftrightarrow> (\<exists>k w. json_string k \<and> blank w \<and> s = k @ w @ COLON # r)"

lemma string_starts: "json_string s \<Longrightarrow> \<exists>t. s = QUOTE # t"
  by (auto simp: json_string_def)

lemma key_item:
  assumes "inside j" "item_text j RBRACE s" "member_text s r"
  shows "\<exists>a. cfg_json_obj_key cap j = (Some a, mark j r)"
proof -
  obtain k w where s: "json_string k" "blank w" "s = k @ w @ COLON # r" using assms(3) by (auto simp: member_text_def)
  have st: "container_step j RBRACE = (1, mark j s)" using step_item [OF assms(1,2)] by simp
  have "j_err (mark j s) = CFG_JSON_OK" using assms(1) by (simp add: mark_props inside_def)
  from str_complete [OF this, of "[]" k "w @ COLON # r" cap] s obtain a where
    "cfg_json_str cap (mark j s) = (Some a, (mark j s)\<lparr>j_rest := w @ COLON # r\<rparr>)" by (auto simp: mark_props)
  then show ?thesis using s(2) by (simp add: cfg_json_obj_key_def st skip_ws_def want_more_def mark_def)
qed

lemma key_closed:
  assumes "inside j" "blank w" "j_rest j = w @ RBRACE # r"
  shows "cfg_json_obj_key cap j = (None, j\<lparr>j_rest := r, j_depth := j_depth j - 1\<rparr>)"
  using step_closed [OF assms] by (simp add: cfg_json_obj_key_def)

lemma key_sound:
  assumes "cfg_json_obj_key cap j = (Some a, j')" "j_depth j \<le> 6"
  shows "inside j \<and> j' = mark j (j_rest j') \<and> (\<exists>s. item_text j RBRACE s \<and> member_text s (j_rest j'))"
proof -
  obtain k j1 where st: "container_step j RBRACE = (k, j1)" by (cases "container_step j RBRACE")
  with assms(1) have k: "k = 1" by (simp add: cfg_json_obj_key_def split: if_splits)
  from step_cases [OF st] k assms(2) have ins: "inside j" "item_text j RBRACE (j_rest j1)" "j1 = mark j (j_rest j1)" by auto
  from assms(1) st k obtain j2 where s2: "cfg_json_str cap j1 = (Some a, j2)"
    by (auto simp: cfg_json_obj_key_def split: prod.splits option.splits if_splits)
  from str_sound [OF s2] obtain w s where ws: "blank w" "json_string s" "j_rest j1 = w @ s @ j_rest j2" "j2 = j1\<lparr>j_rest := j_rest j2\<rparr>" by auto
  have w: "w = []" using ws(1,3) ins(2) by (cases w) (auto simp: item_text_def)
  define t where "t = dropWhile is_ws (j_rest j2)"
  from assms(1) st k s2 have t: "t \<noteq> []" "hd t = COLON" "j' = j2\<lparr>j_rest := tl t\<rparr>"
    by (auto simp: cfg_json_obj_key_def skip_ws_def want_more_def t_def split: if_splits)
  obtain w2 where w2: "blank w2" "j_rest j2 = w2 @ t" using blank_dropWhile t_def by metis
  from t have tt: "t = COLON # j_rest j'" by (cases t) auto
  have "member_text (j_rest j1) (j_rest j')" using ws w w2 tt unfolding member_text_def by auto
  moreover obtain r1 r2 where "j1 = mark j r1" "j2 = j1\<lparr>j_rest := r2\<rparr>" using ins(3) ws(4) by blast
  then have "j' = mark j (j_rest j')" by (simp add: t(3) mark_def)
  ultimately show ?thesis using ins by blast
qed

section \<open>Opening a container\<close>

definition opened :: "cfg_json_t \<Rightarrow> u8 list \<Rightarrow> cfg_json_t" where
  "opened j r = (let j' = j\<lparr>j_rest := r, j_depth := j_depth j + 1\<rparr> in j'\<lparr>j_seen := j_seen j' AND NOT (level_bit j')\<rparr>)"

lemma opened_rest [simp]: "j_rest (opened j r) = r"
  by (simp add: opened_def Let_def)

lemma opened_props:
  assumes "j_err j = CFG_JSON_OK" "j_depth j < 6"
  shows "inside (opened j r)" "\<not> marked (opened j r)" "j_rest (opened j r) = r" "j_depth (opened j r) = Suc (j_depth j)"
    "agree (j_depth j) (j_seen (opened j r)) (j_seen j)"
proof -
  let ?j = "j\<lparr>j_rest := r, j_depth := j_depth j + 1\<rparr>"
  have "inside ?j" using assms by (simp add: inside_def)
  note b = level_bit_bit [OF this]
  show "inside (opened j r)" "j_rest (opened j r) = r" "j_depth (opened j r) = Suc (j_depth j)"
    using assms by (simp_all add: opened_def inside_def Let_def)
  show "\<not> marked (opened j r)" using b assms by (simp add: opened_def marked_def Let_def bit_and_iff bit_not_iff)
  show "agree (j_depth j) (j_seen (opened j r)) (j_seen j)" using b assms
    by (auto simp: opened_def agree_def Let_def bit_and_iff bit_not_iff)
qed

lemma begin_complete:
  "j_err j = CFG_JSON_OK \<Longrightarrow> j_depth j < 6 \<Longrightarrow> blank w \<Longrightarrow> j_rest j = w @ c # r \<Longrightarrow> \<not> is_ws c
    \<Longrightarrow> container_begin j c = (True, opened j r)"
  by (simp add: container_begin_def skip_ws_def want_more_def opened_def CFG_JSON_DEPTH_MAX_def Let_def)

lemma begin_sound:
  assumes "container_begin j c = (True, j')"
  shows "j_err j = CFG_JSON_OK \<and> j_depth j < 6 \<and> j' = opened j (j_rest j') \<and> (\<exists>w. blank w \<and> j_rest j = w @ c # j_rest j')"
proof -
  define t where "t = dropWhile is_ws (j_rest j)"
  from assms have h: "j_err j = CFG_JSON_OK" "j_depth j < 6" "t \<noteq> []" "hd t = c" "j' = opened j (tl t)"
    by (auto simp: container_begin_def skip_ws_def want_more_def opened_def CFG_JSON_DEPTH_MAX_def t_def Let_def not_le split: if_splits)
  then have "t = c # j_rest j'" by (cases t) (simp_all add: opened_def Let_def)
  then show ?thesis using h blank_dropWhile [of "j_rest j" t] t_def by auto
qed

lemma peek_at:
  "j_err j = CFG_JSON_OK \<Longrightarrow> blank w \<Longrightarrow> j_rest j = w @ c # r \<Longrightarrow> \<not> is_ws c
    \<Longrightarrow> cfg_json_peek j = (value_type c, j\<lparr>j_rest := c # r\<rparr>)"
  by (simp add: cfg_json_peek_def skip_ws_def Let_def)

lemma peek_state: "j_err j = CFG_JSON_OK \<Longrightarrow> cfg_json_peek j = (t, j') \<Longrightarrow>
    \<exists>w. blank w \<and> j_rest j = w @ j_rest j' \<and> j' = j\<lparr>j_rest := j_rest j'\<rparr>"
  using blank_dropWhile [of "j_rest j"] by (auto simp: cfg_json_peek_def skip_ws_def Let_def split: if_splits)

section \<open>Soundness\<close>

text \<open>What a consumed value leaves unchanged, and what closing a container does.\<close>

definition kept :: "cfg_json_t \<Rightarrow> cfg_json_t \<Rightarrow> bool" where
  "kept j j' \<longleftrightarrow> (\<exists>r s. agree (j_depth j) s (j_seen j) \<and> j' = j\<lparr>j_rest := r, j_seen := s\<rparr>)"

definition leaves :: "cfg_json_t \<Rightarrow> cfg_json_t \<Rightarrow> bool" where
  "leaves j j' \<longleftrightarrow> (\<exists>r s. agree (j_depth j - 1) s (j_seen j) \<and> j' = j\<lparr>j_rest := r, j_depth := j_depth j - 1, j_seen := s\<rparr>)"

lemma kept_rest: "j' = j\<lparr>j_rest := r\<rparr> \<Longrightarrow> kept j j'"
  by (auto simp: kept_def intro!: exI [of _ r] exI [of _ "j_seen j"])

lemma kept_after: "kept j j' \<Longrightarrow> kept (j\<lparr>j_rest := r\<rparr>) j' "
  by (auto simp: kept_def)

lemma kept_before: "kept (j\<lparr>j_rest := r\<rparr>) j' \<Longrightarrow> kept j j'"
  by (auto simp: kept_def)

lemma kept_marked: "inside j \<Longrightarrow> marked j \<Longrightarrow> kept j j' \<Longrightarrow> inside j' \<and> marked j' \<and> j_depth j' = j_depth j"
  by (auto simp: kept_def marked_def inside_def agree_def)

lemma kept_fields: "kept j j' \<Longrightarrow> j_depth j' = j_depth j \<and> j_err j' = j_err j"
  by (auto simp: kept_def)

lemma opened_closed:
  assumes "j_err j = CFG_JSON_OK" "j_depth j < 6" "leaves (opened j r) j'"
  shows "kept j j'"
proof -
  from assms(3) obtain r' s where s: "agree (j_depth j) s (j_seen (opened j r))"
      "j' = (opened j r)\<lparr>j_rest := r', j_depth := j_depth j, j_seen := s\<rparr>"
    using opened_props(4) [OF assms(1,2), of r] by (auto simp: leaves_def)
  then have "j' = j\<lparr>j_rest := r', j_seen := s\<rparr>" by (simp add: opened_def Let_def)
  then show ?thesis using agree_trans [OF s(1) opened_props(5) [OF assms(1,2)]] unfolding kept_def by blast
qed

lemma mark_kept_closed:
  assumes "inside j" "kept (mark j r) j1" "leaves j1 j'"
  shows "leaves j j'"
proof -
  from assms(2) obtain r1 s where s: "agree (j_depth j) s (j_seen (mark j r))" "j1 = (mark j r)\<lparr>j_rest := r1, j_seen := s\<rparr>"
    by (auto simp: kept_def mark_props)
  then have j1: "j1 = j\<lparr>j_rest := r1, j_seen := s\<rparr>" by (simp add: mark_def)
  from assms(3) obtain r2 t where t: "agree (j_depth j1 - 1) t (j_seen j1)"
      "j' = j1\<lparr>j_rest := r2, j_depth := j_depth j1 - 1, j_seen := t\<rparr>" by (auto simp: leaves_def)
  have "agree (j_depth j - 1) t s" using t(1) j1 by simp
  moreover have "agree (j_depth j - 1) s (j_seen (mark j r))" using s(1) by (rule agree_less) simp
  ultimately have "agree (j_depth j - 1) t (j_seen j)" using mark_props(6) [OF assms(1), of r] agree_trans by blast
  then show ?thesis using t(2) j1 unfolding leaves_def by (intro exI [of _ r2] exI [of _ t]) simp
qed

text \<open>A member or element list may be preceded by further whitespace.\<close>

lemma members_blank:
  assumes "json_members d m" "blank w"
  shows "json_members d (w @ m)"
  using assms(1)
proof (cases rule: json_members.cases)
  case (last_member w1 k w2 w3 v w4)
  with assms(2) show ?thesis using json_value_json_members_json_elements.last_member [of "w @ w1" k w2 w3 d v w4] by simp
next
  case (more_members w1 k w2 w3 v w4 m)
  with assms(2) show ?thesis using json_value_json_members_json_elements.more_members [of "w @ w1" k w2 w3 d v w4 m] by simp
qed

lemma elements_blank:
  assumes "json_elements d m" "blank w"
  shows "json_elements d (w @ m)"
  using assms(1)
proof (cases rule: json_elements.cases)
  case (last_element w1 v w2)
  with assms(2) show ?thesis using json_value_json_members_json_elements.last_element [of "w @ w1" d v w2] by simp
next
  case (more_elements w1 v w2 m)
  with assms(2) show ?thesis using json_value_json_members_json_elements.more_elements [of "w @ w1" d v w2 m] by simp
qed

definition read_value :: "cfg_json_t \<Rightarrow> cfg_json_t \<Rightarrow> bool" where
  "read_value j j' \<longleftrightarrow> j_err j = CFG_JSON_OK \<and> kept j j' \<and>
     (\<exists>w v. blank w \<and> json_value (6 - j_depth j) v \<and> j_rest j = w @ v @ j_rest j')"

definition read_items :: "(nat \<Rightarrow> u8 list \<Rightarrow> bool) \<Rightarrow> u8 \<Rightarrow> cfg_json_t \<Rightarrow> cfg_json_t \<Rightarrow> bool" where
  "read_items items close_c j j' \<longleftrightarrow> inside j \<and> leaves j j' \<and>
     ((\<exists>w. blank w \<and> j_rest j = w @ close_c # j_rest j') \<or>
      (\<exists>m. items (6 - j_depth j) m \<and> item_text j close_c (m @ close_c # j_rest j')))"

lemma read_scalar:
  assumes "j_err j = CFG_JSON_OK" "blank w" "j_rest j = w @ j_rest pj" "pj = j\<lparr>j_rest := j_rest pj\<rparr>"
    and "blank w'" "json_value (6 - j_depth j) v" "j_rest pj = w' @ v @ j_rest j'" "j' = pj\<lparr>j_rest := j_rest j'\<rparr>"
  shows "read_value j j'"
proof -
  have "j' = j\<lparr>j_rest := j_rest j'\<rparr>" using assms(4,8) by (metis cfg_json_t.surjective cfg_json_t.update_convs(1))
  moreover have "j_rest j = (w @ w') @ v @ j_rest j'" "blank (w @ w')" using assms by simp_all
  ultimately show ?thesis using assms(1,6) kept_rest unfolding read_value_def by blast
qed

text \<open>The first item of an opened container, and the item after another.\<close>

lemma items_value:
  assumes "j_err j = CFG_JSON_OK" "j_depth j < 6" "blank w" "j_rest j = w @ c # r" "read_items items e (opened j r) j'"
    and "\<And>w d. blank w \<Longrightarrow> json_value (Suc d) (c # w @ [e])"
    and "\<And>m d. items d m \<Longrightarrow> json_value (Suc d) (c # m @ [e])"
    and "\<And>m d w. items d m \<Longrightarrow> blank w \<Longrightarrow> items d (w @ m)"
  shows "read_value j j'"
proof -
  note op = opened_props [OF assms(1,2), of r]
  have d: "6 - j_depth j = Suc (6 - j_depth (opened j r))" using assms(2) op(4) by simp
  from assms(5) have k: "kept j j'" using opened_closed [OF assms(1,2), of r j'] by (simp add: read_items_def)
  from assms(5) consider w' where "blank w'" "r = w' @ e # j_rest j'"
    | m w' where "items (6 - j_depth (opened j r)) m" "blank w'" "r = w' @ m @ e # j_rest j'"
    using op(2) by (auto simp: read_items_def item_text_def)
  then obtain v where "json_value (6 - j_depth j) v" "c # r = v @ j_rest j'"
  proof cases
    case 1
    then show ?thesis using that [of "c # w' @ [e]"] assms(6) d by simp
  next
    case 2
    then show ?thesis using that [of "c # (w' @ m) @ [e]"] assms(7) [OF assms(8)] d by simp
  qed
  then show ?thesis using assms(1,3,4) k unfolding read_value_def by auto
qed

lemma items_next:
  assumes "inside j" "item_text j e s" "kept (mark j r) j1" "read_items items e j1 j'" "e \<noteq> COMMA"
    and "\<And>w4. blank w4 \<Longrightarrow> j_rest j1 = w4 @ e # j_rest j' \<Longrightarrow> \<exists>m. items (6 - j_depth j) m \<and> s = m @ e # j_rest j'"
    and "\<And>w4 m'. blank w4 \<Longrightarrow> items (6 - j_depth j) m' \<Longrightarrow> j_rest j1 = w4 @ COMMA # m' @ e # j_rest j'
      \<Longrightarrow> \<exists>m. items (6 - j_depth j) m \<and> s = m @ e # j_rest j'"
    and "\<And>m d w. items d m \<Longrightarrow> blank w \<Longrightarrow> items d (w @ m)"
  shows "read_items items e j j'"
proof -
  have c: "leaves j j'" using mark_kept_closed [OF assms(1,3)] assms(4) by (simp add: read_items_def)
  have mk: "marked j1" "j_depth j1 = j_depth j"
    using kept_marked [OF mark_props(2) [OF assms(1)] mark_props(1) [OF assms(1)] assms(3)] mark_props(4) by auto
  from assms(4) consider w4 where "blank w4" "j_rest j1 = w4 @ e # j_rest j'"
    | m w4 w' where "items (6 - j_depth j) m" "blank w4" "blank w'" "j_rest j1 = w4 @ COMMA # (w' @ m) @ e # j_rest j'"
    using mk by (auto simp: read_items_def item_text_def)
  then have "\<exists>m. items (6 - j_depth j) m \<and> s = m @ e # j_rest j'"
  proof cases
    case 1
    then show ?thesis by (rule assms(6))
  next
    case 2
    then show ?thesis using assms(7) [OF 2(2) assms(8) [OF 2(1,3)]] by simp
  qed
  then show ?thesis using assms(1,2) c unfolding read_items_def by blast
qed

lemma read_before:
  "blank w \<Longrightarrow> j_rest j = w @ j_rest pj \<Longrightarrow> pj = j\<lparr>j_rest := j_rest pj\<rparr> \<Longrightarrow> read_value pj j' \<Longrightarrow> read_value j j'"
proof -
  assume h: "blank w" "j_rest j = w @ j_rest pj" "pj = j\<lparr>j_rest := j_rest pj\<rparr>" "read_value pj j'"
  obtain r where pj: "pj = j\<lparr>j_rest := r\<rparr>" using h(3) by blast
  from h(4) obtain w' v where v: "blank w'" "json_value (6 - j_depth pj) v" "j_rest pj = w' @ v @ j_rest j'"
    by (auto simp: read_value_def)
  then have "j_rest j = (w @ w') @ v @ j_rest j'" "blank (w @ w')" using h by simp_all
  then show ?thesis using h(4) v(2) kept_before [where j = j and r = r and j' = j'] pj unfolding read_value_def by fastforce
qed

lemma fail_err: "e \<noteq> CFG_JSON_OK \<Longrightarrow> j_err (fail j e) \<noteq> CFG_JSON_OK"
  by (simp add: fail_def)

lemma step_error: "container_step j c = (-1, j') \<Longrightarrow> j_err j' \<noteq> CFG_JSON_OK"
  by (auto simp: container_step_def want_more_def Let_def fail_err split: if_splits prod.splits)

lemma str_error: "cfg_json_str cap j = (None, j') \<Longrightarrow> j_err j' \<noteq> CFG_JSON_OK"
  by (auto simp: cfg_json_str_def want_more_def Let_def fail_err split: if_splits prod.splits)

lemma step_codes: "fst (container_step j c) \<in> {-1, 0, 1}"
  by (auto simp: container_step_def want_more_def Let_def split: prod.splits)

lemma container_end:
  assumes "container_step j c = (k, j')" "k \<noteq> 1" "j_err j' = CFG_JSON_OK" "j_depth j \<le> 6" "c \<noteq> COMMA"
  shows "read_items items c j j'"
proof -
  have "k \<noteq> -1" using step_error assms(1,3) by metis
  with step_cases [OF assms(1) _ assms(4,5)] assms(2) have
    "inside j" "\<exists>w. blank w \<and> j_rest j = w @ c # j_rest j'" "j' = j\<lparr>j_rest := j_rest j', j_depth := j_depth j - 1\<rparr>" by auto
  moreover from this(3) obtain r where "j' = j\<lparr>j_rest := r, j_depth := j_depth j - 1\<rparr>" by blast
  then have "leaves j j'" unfolding leaves_def by (intro exI [of _ r] exI [of _ "j_seen j"]) simp
  ultimately show ?thesis unfolding read_items_def by blast
qed

lemma key_end:
  assumes "cfg_json_obj_key cap j = (None, j')" "j_err j' = CFG_JSON_OK" "j_depth j \<le> 6"
  shows "read_items items RBRACE j j'"
proof -
  obtain k j1 where st: "container_step j RBRACE = (k, j1)" by (cases "container_step j RBRACE")
  have "k \<noteq> 1 \<and> j1 = j'"
  proof (rule ccontr)
    assume "\<not> (k \<noteq> 1 \<and> j1 = j')"
    with assms(1) st obtain j2 where s: "cfg_json_str cap j1 = (None, j2) \<and> j2 = j' \<or>
        (\<exists>a. cfg_json_str cap j1 = (Some a, j2) \<and> (j_rest (skip_ws j2) = [] \<and> j' = fail (skip_ws j2) CFG_JSON_ERR_TRUNCATED
          \<or> j' = fail (skip_ws j2) CFG_JSON_ERR_SYNTAX))"
      by (auto simp: cfg_json_obj_key_def want_more_def split: prod.splits option.splits if_splits)
    then show False using assms(2) str_error fail_err by (metis cfg_json_err_t.distinct(1) cfg_json_err_t.distinct(7))
  qed
  then show ?thesis using container_end [OF st _ _ assms(3)] assms(2) by auto
qed

lemma skip_sound:
  "(\<forall>j j'. j_depth j \<le> 6 \<longrightarrow> skip_n n j = (True, j') \<longrightarrow> read_value j j') \<and>
   (\<forall>j j'. j_depth j \<le> 6 \<longrightarrow> skip_members n j = (True, j') \<longrightarrow> read_items json_members RBRACE j j') \<and>
   (\<forall>j j'. j_depth j \<le> 6 \<longrightarrow> skip_elements n j = (True, j') \<longrightarrow> read_items json_elements RBRACKET j j')"
proof (induction n)
  case 0
  then show ?case by simp
next
  case (Suc n)
  note rules = json_value_json_members_json_elements.intros
  have val: "read_value j j'" if d: "j_depth j \<le> 6" and s: "skip_n (Suc n) j = (True, j')" for j j'
  proof -
    from s have ok: "j_err j = CFG_JSON_OK" by (auto split: if_splits)
    obtain t pj where pk: "cfg_json_peek j = (t, pj)" by (cases "cfg_json_peek j")
    from peek_state [OF ok pk] obtain w where pj: "blank w" "j_rest j = w @ j_rest pj" "pj = j\<lparr>j_rest := j_rest pj\<rparr>" by auto
    have pd: "j_depth pj = j_depth j" by (subst pj(3)) simp
    show ?thesis
    proof (cases t)
      case CFG_JSON_T_NONE
      then show ?thesis using s ok pk by simp
    next
      case CFG_JSON_T_OBJ
      then obtain j1 where b: "container_begin pj LBRACE = (True, j1)" "skip_members n j1 = (True, j')"
        using s ok pk by (auto simp: cfg_json_obj_begin_def split: prod.splits if_splits)
      from begin_sound [OF b(1)] obtain w1 where o: "j_err pj = CFG_JSON_OK" "j_depth pj < 6" "blank w1"
          "j_rest pj = w1 @ LBRACE # j_rest j1" "opened pj (j_rest j1) = j1" by auto
      have "j_depth j1 \<le> 6" using o(2) opened_props(4) [OF o(1,2), of "j_rest j1"] o(5) by simp
      then have "read_items json_members RBRACE (opened pj (j_rest j1)) j'" using Suc.IH b(2) o(5) by simp
      from items_value [OF o(1-4) this] rules(4,5) members_blank show ?thesis
        using read_before [OF pj] by blast
    next
      case CFG_JSON_T_ARR
      then obtain j1 where b: "container_begin pj LBRACKET = (True, j1)" "skip_elements n j1 = (True, j')"
        using s ok pk by (auto simp: cfg_json_arr_begin_def split: prod.splits if_splits)
      from begin_sound [OF b(1)] obtain w1 where o: "j_err pj = CFG_JSON_OK" "j_depth pj < 6" "blank w1"
          "j_rest pj = w1 @ LBRACKET # j_rest j1" "opened pj (j_rest j1) = j1" by auto
      have "j_depth j1 \<le> 6" using o(2) opened_props(4) [OF o(1,2), of "j_rest j1"] o(5) by simp
      then have "read_items json_elements RBRACKET (opened pj (j_rest j1)) j'" using Suc.IH b(2) o(5) by simp
      from items_value [OF o(1-4) this] rules(6,7) elements_blank show ?thesis
        using read_before [OF pj] by blast
    next
      case CFG_JSON_T_STR
      then obtain a where "cfg_json_str 0 pj = (Some a, j')" using s ok pk by (auto split: prod.splits)
      from str_sound [OF this] show ?thesis using read_scalar [OF ok pj] rules(1) by blast
    next
      case CFG_JSON_T_NUM
      then obtain a where "cfg_json_num pj = (Some a, j')" using s ok pk by (auto split: prod.splits)
      from num_sound [OF this] show ?thesis using read_scalar [OF ok pj] rules(2) by blast
    next
      case CFG_JSON_T_BOOL
      then obtain a where "cfg_json_bool pj = (Some a, j')" using s ok pk by (auto split: prod.splits)
      from bool_sound [OF this] show ?thesis using read_scalar [OF ok pj] rules(3) by blast
    next
      case CFG_JSON_T_NULL
      then have "cfg_json_null pj = (True, j')" using s ok pk by simp
      from null_sound [OF this] show ?thesis using read_scalar [OF ok pj] rules(3) by blast
    qed
  qed
  have mem: "read_items json_members RBRACE j j'" if d: "j_depth j \<le> 6" and s: "skip_members (Suc n) j = (True, j')" for j j'
  proof (cases "cfg_json_obj_key 4 j")
    case (Pair k j1)
    show ?thesis
    proof (cases k)
      case None
      then show ?thesis using s Pair key_end [of 4 j j1 json_members] d by auto
    next
      case (Some a)
      with s Pair obtain j2 where st: "skip_n n j1 = (True, j2)" "skip_members n j2 = (True, j')"
        by (auto split: prod.splits if_splits)
      from key_sound [of 4 j a j1] Pair Some d obtain t where
        key: "inside j" "j1 = mark j (j_rest j1)" "item_text j RBRACE t" "member_text t (j_rest j1)" by auto
      have d1: "j_depth j1 = j_depth j" using key(2) mark_props(4) by metis
      then have rv: "read_value j1 j2" using Suc.IH st(1) d by simp
      then have kp: "kept (mark j (j_rest j1)) j2" using key(2) by (simp add: read_value_def)
      have d2: "j_depth j2 \<le> 6" using rv kept_fields [of j1 j2] d d1 by (simp add: read_value_def)
      then have ri: "read_items json_members RBRACE j2 j'" using Suc.IH st(2) by simp
      from rv obtain w3 v where v: "blank w3" "json_value (6 - j_depth j) v" "j_rest j1 = w3 @ v @ j_rest j2"
        using d1 by (auto simp: read_value_def)
      from key(4) obtain q w2 where q: "json_string q" "blank w2" "t = q @ w2 @ COLON # w3 @ v @ j_rest j2"
        using v(3) by (auto simp: member_text_def)
      show ?thesis
      proof (rule items_next [OF key(1,3) kp ri])
        fix w4 assume "blank w4" "j_rest j2 = w4 @ RBRACE # j_rest j'"
        then show "\<exists>m. json_members (6 - j_depth j) m \<and> t = m @ RBRACE # j_rest j'"
          using rules(8) [OF _ q(1,2) v(1,2), of "[]" w4] q(3) by (intro exI [of _ "q @ w2 @ COLON # w3 @ v @ w4"]) simp
      next
        fix w4 m' assume "blank w4" "json_members (6 - j_depth j) m'" "j_rest j2 = w4 @ COMMA # m' @ RBRACE # j_rest j'"
        then show "\<exists>m. json_members (6 - j_depth j) m \<and> t = m @ RBRACE # j_rest j'"
          using rules(9) [OF _ q(1,2) v(1,2), of "[]" w4 m'] q(3) by (intro exI [of _ "q @ w2 @ COLON # w3 @ v @ w4 @ COMMA # m'"]) simp
      qed (simp_all add: members_blank)
    qed
  qed
  have elem: "read_items json_elements RBRACKET j j'" if d: "j_depth j \<le> 6" and s: "skip_elements (Suc n) j = (True, j')" for j j'
  proof (cases "container_step j RBRACKET")
    case (Pair k j1)
    show ?thesis
    proof (cases "k = 1")
      case False
      then show ?thesis using s Pair container_end [OF Pair False _ d, of json_elements] by (auto simp: cfg_json_arr_next_def)
    next
      case True
      with s Pair obtain j2 where st: "skip_n n j1 = (True, j2)" "skip_elements n j2 = (True, j')"
        by (auto simp: cfg_json_arr_next_def split: prod.splits if_splits)
      from step_cases [OF Pair _ d] True have
        key: "inside j" "j1 = mark j (j_rest j1)" "item_text j RBRACKET (j_rest j1)" by auto
      have d1: "j_depth j1 = j_depth j" using key(2) mark_props(4) by metis
      then have rv: "read_value j1 j2" using Suc.IH st(1) d by simp
      then have kp: "kept (mark j (j_rest j1)) j2" using key(2) by (simp add: read_value_def)
      have d2: "j_depth j2 \<le> 6" using rv kept_fields [of j1 j2] d d1 by (simp add: read_value_def)
      then have ri: "read_items json_elements RBRACKET j2 j'" using Suc.IH st(2) by simp
      from rv obtain w3 v where v: "blank w3" "json_value (6 - j_depth j) v" "j_rest j1 = w3 @ v @ j_rest j2"
        using d1 by (auto simp: read_value_def)
      show ?thesis
      proof (rule items_next [OF key(1,3) kp ri])
        fix w4 assume "blank w4" "j_rest j2 = w4 @ RBRACKET # j_rest j'"
        then show "\<exists>m. json_elements (6 - j_depth j) m \<and> j_rest j1 = m @ RBRACKET # j_rest j'"
          using rules(10) [OF v(1,2), of w4] v(3) by (intro exI [of _ "w3 @ v @ w4"]) simp
      next
        fix w4 m' assume "blank w4" "json_elements (6 - j_depth j) m'" "j_rest j2 = w4 @ COMMA # m' @ RBRACKET # j_rest j'"
        then show "\<exists>m. json_elements (6 - j_depth j) m \<and> j_rest j1 = m @ RBRACKET # j_rest j'"
          using rules(11) [OF v(1,2), of w4 m'] v(3) by (intro exI [of _ "w3 @ v @ w4 @ COMMA # m'"]) simp
      qed (simp_all add: elements_blank)
    qed
  qed
  show ?case using val mem elem by blast
qed

section \<open>The fuel\<close>

lemma read_value_shrinks: "read_value j j' \<Longrightarrow> length (j_rest j') < length (j_rest j)"
proof -
  assume h: "read_value j j'"
  then obtain w v where "json_value (6 - j_depth j) v" "j_rest j = w @ v @ j_rest j'" by (auto simp: read_value_def)
  moreover from this(1) have "v \<noteq> []" by (cases rule: json_value.cases) (auto simp: json_string_def dest: number_chars)
  ultimately show ?thesis by simp
qed

lemma skip_shrinks:
  assumes "skip_n n j = (True, j')" "j_depth j \<le> 6"
  shows "length (j_rest j') < length (j_rest j)" "j_depth j' \<le> 6"
proof -
  have "read_value j j'" using skip_sound assms by blast
  then show "length (j_rest j') < length (j_rest j)" "j_depth j' \<le> 6"
    using read_value_shrinks kept_fields [of j j'] assms(2) by (auto simp: read_value_def)
qed

lemma fuel_irrelevant:
  "(\<forall>j m. j_depth j \<le> 6 \<longrightarrow> 2 * length (j_rest j) + 1 \<le> n \<longrightarrow> 2 * length (j_rest j) + 1 \<le> m \<longrightarrow> skip_n n j = skip_n m j) \<and>
   (\<forall>j m. j_depth j \<le> 6 \<longrightarrow> 2 * length (j_rest j) + 2 \<le> n \<longrightarrow> 2 * length (j_rest j) + 2 \<le> m \<longrightarrow> skip_members n j = skip_members m j) \<and>
   (\<forall>j m. j_depth j \<le> 6 \<longrightarrow> 2 * length (j_rest j) + 2 \<le> n \<longrightarrow> 2 * length (j_rest j) + 2 \<le> m \<longrightarrow> skip_elements n j = skip_elements m j)"
proof (induction n)
  case 0
  then show ?case by simp
next
  case (Suc n)
  have begun: "j_depth j1 \<le> 6 \<and> length (j_rest j1) < length (j_rest j)" if "container_begin pj c = (True, j1)" "j_rest j = w @ j_rest pj" for j pj j1 w c
  proof -
    from begin_sound [OF that(1)] obtain w' where b: "j_err pj = CFG_JSON_OK" "j_depth pj < 6" "j1 = opened pj (j_rest j1)"
        "j_rest pj = w' @ c # j_rest j1" by auto
    then show ?thesis using that(2) opened_props(4) [OF b(1,2)] by (metis Suc_leI add_Suc_right le_add2 length_Cons length_append less_Suc_eq_le trans_le_add2)
  qed
  have val: "skip_n (Suc n) j = skip_n m j"
    if d: "j_depth j \<le> 6" and f: "2 * length (j_rest j) + 1 \<le> Suc n" "2 * length (j_rest j) + 1 \<le> m" for j m
  proof (cases "j_err j = CFG_JSON_OK")
    case False
    then show ?thesis using f(2) by (cases m) simp_all
  next
    case ok: True
    from f(2) obtain m' where m: "m = Suc m'" by (cases m) simp_all
    obtain t pj where pk: "cfg_json_peek j = (t, pj)" by (cases "cfg_json_peek j")
    from peek_state [OF ok pk] obtain w where w: "j_rest j = w @ j_rest pj" by auto
    have "skip_members n j1 = skip_members m' j1" if "container_begin pj LBRACE = (True, j1)" for j1
      using Suc.IH begun [OF that w] f m by simp
    moreover have "skip_elements n j1 = skip_elements m' j1" if "container_begin pj LBRACKET = (True, j1)" for j1
      using Suc.IH begun [OF that w] f m by simp
    ultimately show ?thesis using pk m ok
      by (auto simp: cfg_json_obj_begin_def cfg_json_arr_begin_def split: cfg_json_type_t.split prod.split)
  qed
  have mem: "skip_members (Suc n) j = skip_members m j"
    if d: "j_depth j \<le> 6" and f: "2 * length (j_rest j) + 2 \<le> Suc n" "2 * length (j_rest j) + 2 \<le> m" for j m
  proof -
    from f(2) obtain m' where m: "m = Suc m'" by (cases m) simp_all
    have "skip_n n j1 = skip_n m' j1 \<and> (skip_n m' j1 = (True, j2) \<longrightarrow> skip_members n j2 = skip_members m' j2)"
      if "cfg_json_obj_key 4 j = (Some a, j1)" for a j1 j2
    proof -
      from key_sound [OF that d] have k: "j1 = mark j (j_rest j1)" "\<exists>s. item_text j RBRACE s \<and> member_text s (j_rest j1)" by auto
      then have l: "length (j_rest j1) < length (j_rest j)" "j_depth j1 \<le> 6"
        using mark_props(4) [of j "j_rest j1"] d by (auto simp: item_text_def member_text_def split: if_splits)
      then show ?thesis using Suc.IH f m skip_shrinks [of m' j1 j2] by auto
    qed
    then show ?thesis using m by (auto split: prod.split option.split)
  qed
  have elem: "skip_elements (Suc n) j = skip_elements m j"
    if d: "j_depth j \<le> 6" and f: "2 * length (j_rest j) + 2 \<le> Suc n" "2 * length (j_rest j) + 2 \<le> m" for j m
  proof -
    from f(2) obtain m' where m: "m = Suc m'" by (cases m) simp_all
    have "skip_n n j1 = skip_n m' j1 \<and> (skip_n m' j1 = (True, j2) \<longrightarrow> skip_elements n j2 = skip_elements m' j2)"
      if "container_step j RBRACKET = (1, j1)" for j1 j2
    proof -
      from step_cases [OF that _ d] have k: "j1 = mark j (j_rest j1)" "item_text j RBRACKET (j_rest j1)" by auto
      then have l: "length (j_rest j1) \<le> length (j_rest j)" "j_depth j1 \<le> 6"
        using mark_props(4) [of j "j_rest j1"] d by (auto simp: item_text_def split: if_splits)
      then show ?thesis using Suc.IH f m skip_shrinks [of m' j1 j2] by auto
    qed
    then show ?thesis using m by (auto simp: cfg_json_arr_next_def split: prod.split)
  qed
  show ?case using val mem elem by blast
qed

section \<open>The recursion without fuel\<close>

text \<open>The two loops with the fuel that is always enough.\<close>

definition object_loop :: "cfg_json_t \<Rightarrow> bool \<times> cfg_json_t" where
  "object_loop j = skip_members (2 * length (j_rest j) + 2) j"

definition array_loop :: "cfg_json_t \<Rightarrow> bool \<times> cfg_json_t" where
  "array_loop j = skip_elements (2 * length (j_rest j) + 2) j"

lemma skip_fuel:
  "j_depth j \<le> 6 \<Longrightarrow> 2 * length (j_rest j) + 1 \<le> n \<Longrightarrow> skip_n n j = cfg_json_skip j"
  "j_depth j \<le> 6 \<Longrightarrow> 2 * length (j_rest j) + 2 \<le> n \<Longrightarrow> skip_members n j = object_loop j"
  "j_depth j \<le> 6 \<Longrightarrow> 2 * length (j_rest j) + 2 \<le> n \<Longrightarrow> skip_elements n j = array_loop j"
  unfolding cfg_json_skip_def object_loop_def array_loop_def
  by (rule fuel_irrelevant [THEN conjunct1, rule_format], assumption+, rule order_refl)
     (rule fuel_irrelevant [THEN conjunct2, THEN conjunct1, rule_format], assumption+, rule order_refl,
      rule fuel_irrelevant [THEN conjunct2, THEN conjunct2, rule_format], assumption+, rule order_refl)

lemma begun_bounds:
  assumes "cfg_json_peek j = (t, pj)" "container_begin pj c = (True, j1)"
  shows "j_depth j1 \<le> 6" "length (j_rest j1) < length (j_rest j)"
proof -
  from begin_sound [OF assms(2)] obtain w where b: "j_err pj = CFG_JSON_OK" "j_depth pj < 6" "opened pj (j_rest j1) = j1"
      "j_rest pj = w @ c # j_rest j1" by auto
  have "j_err j = CFG_JSON_OK" using assms(1) b(1) by (auto simp: cfg_json_peek_def split: if_splits)
  from peek_state [OF this assms(1)] b(4) show "length (j_rest j1) < length (j_rest j)" by auto
  show "j_depth j1 \<le> 6" using opened_props(4) [OF b(1,2), of "j_rest j1"] b(2,3) by simp
qed

lemma json_skip_shrinks:
  assumes "cfg_json_skip j = (True, j')" "j_depth j \<le> 6"
  shows "length (j_rest j') < length (j_rest j)" "j_depth j' \<le> 6"
  using skip_shrinks assms unfolding cfg_json_skip_def by blast+

lemma skip_eq:
  assumes "j_depth j \<le> 6"
  shows "cfg_json_skip j =
     (if j_err j \<noteq> CFG_JSON_OK then (False, j)
      else case cfg_json_peek j of (t, j) \<Rightarrow>
       (case t of
          CFG_JSON_T_OBJ \<Rightarrow> (case cfg_json_obj_begin j of (ok, j) \<Rightarrow> if \<not> ok then (False, j) else object_loop j)
        | CFG_JSON_T_ARR \<Rightarrow> (case cfg_json_arr_begin j of (ok, j) \<Rightarrow> if \<not> ok then (False, j) else array_loop j)
        | CFG_JSON_T_STR \<Rightarrow> (case cfg_json_str 0 j of (r, j) \<Rightarrow> (r \<noteq> None, j))
        | CFG_JSON_T_NUM \<Rightarrow> (case cfg_json_num j of (r, j) \<Rightarrow> (r \<noteq> None, j))
        | CFG_JSON_T_BOOL \<Rightarrow> (case cfg_json_bool j of (r, j) \<Rightarrow> (r \<noteq> None, j))
        | CFG_JSON_T_NULL \<Rightarrow> cfg_json_null j
        | CFG_JSON_T_NONE \<Rightarrow> (False, fail j (if j_rest j = [] then CFG_JSON_ERR_TRUNCATED else CFG_JSON_ERR_SYNTAX))))"
proof -
  let ?L = "length (j_rest j)"
  obtain t pj where pk: "cfg_json_peek j = (t, pj)" by (cases "cfg_json_peek j")
  obtain ok j1 where ob: "cfg_json_obj_begin pj = (ok, j1)" by (cases "cfg_json_obj_begin pj")
  obtain ok' j2 where ab: "cfg_json_arr_begin pj = (ok', j2)" by (cases "cfg_json_arr_begin pj")
  have o: "skip_members (2 * ?L) j1 = object_loop j1" if ok
    using skip_fuel(2) begun_bounds [OF pk, of LBRACE j1] ob that by (simp add: cfg_json_obj_begin_def)
  have a: "skip_elements (2 * ?L) j2 = array_loop j2" if ok'
    using skip_fuel(3) begun_bounds [OF pk, of LBRACKET j2] ab that by (simp add: cfg_json_arr_begin_def)
  have "cfg_json_skip j = skip_n (Suc (2 * ?L)) j" by (simp only: cfg_json_skip_def Suc_eq_plus1)
  then show ?thesis
    unfolding skip_n.simps(2) pk prod.case ob ab using o a by (cases ok; cases ok'; cases t) simp_all
qed

lemma object_loop_eq:
  assumes "j_depth j \<le> 6"
  shows "object_loop j =
      (case cfg_json_obj_key 4 j of (k, j) \<Rightarrow>
        if k = None then (j_err j = CFG_JSON_OK, j)
        else case cfg_json_skip j of (ok, j) \<Rightarrow> if \<not> ok then (False, j) else object_loop j)"
proof -
  let ?L = "length (j_rest j)"
  obtain k j1 where key: "cfg_json_obj_key 4 j = (k, j1)" by (cases "cfg_json_obj_key 4 j")
  obtain ok j2 where sk: "cfg_json_skip j1 = (ok, j2)" by (cases "cfg_json_skip j1")
  have e: "object_loop j = skip_members (Suc (2 * ?L + 1)) j" by (simp only: object_loop_def Suc_eq_plus1 add.assoc one_add_one)
  show ?thesis
  proof (cases k)
    case None
    then show ?thesis unfolding e skip_members.simps(2) key by simp
  next
    case (Some a)
    from key_sound [OF key [unfolded Some] assms] have "j1 = mark j (j_rest j1)" "length (j_rest j1) < ?L"
      by (auto simp: item_text_def member_text_def split: if_splits)
    then have b: "j_depth j1 \<le> 6" "2 * length (j_rest j1) + 1 \<le> 2 * ?L + 1" "length (j_rest j1) < ?L"
      using mark_props(4) [of j "j_rest j1"] assms by simp_all
    have l: "skip_members (2 * ?L + 1) j2 = object_loop j2" if ok
      using json_skip_shrinks [of j1 j2] sk that b by (intro skip_fuel(2)) simp_all
    have "skip_n (2 * ?L + 1) j1 = (ok, j2)" using skip_fuel(1) [OF b(1,2)] sk by simp
    then show ?thesis unfolding e skip_members.simps(2) key prod.case sk using Some l by (cases ok) simp_all
  qed
qed

lemma array_loop_eq:
  assumes "j_depth j \<le> 6"
  shows "array_loop j =
      (case cfg_json_arr_next j of (avail, j) \<Rightarrow>
        if \<not> avail then (j_err j = CFG_JSON_OK, j)
        else case cfg_json_skip j of (ok, j) \<Rightarrow> if \<not> ok then (False, j) else array_loop j)"
proof -
  let ?L = "length (j_rest j)"
  obtain av j1 where nxt: "cfg_json_arr_next j = (av, j1)" by (cases "cfg_json_arr_next j")
  obtain ok j2 where sk: "cfg_json_skip j1 = (ok, j2)" by (cases "cfg_json_skip j1")
  have e: "array_loop j = skip_elements (Suc (2 * ?L + 1)) j" by (simp only: array_loop_def Suc_eq_plus1 add.assoc one_add_one)
  show ?thesis
  proof (cases av)
    case False
    then show ?thesis unfolding e skip_elements.simps(2) nxt by simp
  next
    case True
    with nxt have "container_step j RBRACKET = (1, j1)" by (auto simp: cfg_json_arr_next_def split: prod.splits)
    from step_cases [OF this _ assms] have "j1 = mark j (j_rest j1)" "length (j_rest j1) \<le> ?L"
      by (auto simp: item_text_def split: if_splits)
    then have b: "j_depth j1 \<le> 6" "2 * length (j_rest j1) + 1 \<le> 2 * ?L + 1" "length (j_rest j1) \<le> ?L"
      using mark_props(4) [of j "j_rest j1"] assms by simp_all
    have l: "skip_elements (2 * ?L + 1) j2 = array_loop j2" if ok
      using json_skip_shrinks [of j1 j2] sk that b by (intro skip_fuel(3)) simp_all
    have "skip_n (2 * ?L + 1) j1 = (ok, j2)" using skip_fuel(1) [OF b(1,2)] sk by simp
    then show ?thesis unfolding e skip_elements.simps(2) nxt prod.case sk using True l by (cases ok) simp_all
  qed
qed

text \<open>The recursive skip and its two loops end on every input: with the fuel of the model they satisfy
  the equations of the source, in which no fuel occurs, for every cursor of a legal depth.\<close>

theorem skip_unfold:
  assumes "j_depth j \<le> 6"
  shows "cfg_json_skip j =
     (if j_err j \<noteq> CFG_JSON_OK then (False, j)
      else case cfg_json_peek j of (t, j) \<Rightarrow>
       (case t of
          CFG_JSON_T_OBJ \<Rightarrow> (case cfg_json_obj_begin j of (ok, j) \<Rightarrow> if \<not> ok then (False, j) else object_loop j)
        | CFG_JSON_T_ARR \<Rightarrow> (case cfg_json_arr_begin j of (ok, j) \<Rightarrow> if \<not> ok then (False, j) else array_loop j)
        | CFG_JSON_T_STR \<Rightarrow> (case cfg_json_str 0 j of (r, j) \<Rightarrow> (r \<noteq> None, j))
        | CFG_JSON_T_NUM \<Rightarrow> (case cfg_json_num j of (r, j) \<Rightarrow> (r \<noteq> None, j))
        | CFG_JSON_T_BOOL \<Rightarrow> (case cfg_json_bool j of (r, j) \<Rightarrow> (r \<noteq> None, j))
        | CFG_JSON_T_NULL \<Rightarrow> cfg_json_null j
        | CFG_JSON_T_NONE \<Rightarrow> (False, fail j (if j_rest j = [] then CFG_JSON_ERR_TRUNCATED else CFG_JSON_ERR_SYNTAX)))) \<and>
    object_loop j =
      (case cfg_json_obj_key 4 j of (k, j) \<Rightarrow>
        if k = None then (j_err j = CFG_JSON_OK, j)
        else case cfg_json_skip j of (ok, j) \<Rightarrow> if \<not> ok then (False, j) else object_loop j) \<and>
    array_loop j =
      (case cfg_json_arr_next j of (avail, j) \<Rightarrow>
        if \<not> avail then (j_err j = CFG_JSON_OK, j)
        else case cfg_json_skip j of (ok, j) \<Rightarrow> if \<not> ok then (False, j) else array_loop j)"
  using skip_eq [OF assms] object_loop_eq [OF assms] array_loop_eq [OF assms] by blast

theorem skip_unfold_witness:
  "object_loop ((cfg_json_init [RBRACE])\<lparr>j_depth := 1\<rparr>) = (True, cfg_json_init [])"
  using skip_unfold [of "(cfg_json_init [RBRACE])\<lparr>j_depth := 1\<rparr>"]
  by (simp add: cfg_json_init_def cfg_json_obj_key_def container_step_def skip_ws_def want_more_def Let_def)

end
