(* ===== verification/Json_Decide.thy ===== *)
theory Json_Decide
  imports Json_Walk
begin

text \<open>
  The converse of \<open>Json_Walk\<close>, by induction on the grammar: the walk succeeds on every value. Together they
  show that \<open>cfg_json_validate\<close> decides the grammar of \<open>config_json.h\<close>.
\<close>

section \<open>Completeness\<close>

definition consumes :: "nat \<Rightarrow> u8 list \<Rightarrow> bool" where
  "consumes d v \<longleftrightarrow> (\<forall>j w r n. j_err j = CFG_JSON_OK \<longrightarrow> j_depth j + d = 6 \<longrightarrow> blank w \<longrightarrow> j_rest j = w @ v @ r \<longrightarrow>
     ends_token r \<longrightarrow> 2 * length (j_rest j) + 1 \<le> n \<longrightarrow> (\<exists>j'. skip_n n j = (True, j') \<and> kept j j' \<and> j_rest j' = r))"

text \<open>Where a list of items may stand: after the opening, or after a comma.\<close>

definition before :: "cfg_json_t \<Rightarrow> u8 list \<Rightarrow> bool" where
  "before j t \<longleftrightarrow> (if marked j then \<exists>w. blank w \<and> j_rest j = w @ COMMA # t else j_rest j = t)"

definition finishes :: "(nat \<Rightarrow> cfg_json_t \<Rightarrow> bool \<times> cfg_json_t) \<Rightarrow> u8 \<Rightarrow> nat \<Rightarrow> u8 list \<Rightarrow> bool" where
  "finishes loop close_c d m \<longleftrightarrow> (\<forall>j r n. inside j \<longrightarrow> j_depth j + d = 6 \<longrightarrow> before j (m @ close_c # r) \<longrightarrow>
     2 * length (j_rest j) + 2 \<le> n \<longrightarrow> (\<exists>j'. loop n j = (True, j') \<and> leaves j j' \<and> j_rest j' = r))"

lemma before_item:
  "before j (w @ c # t) \<Longrightarrow> blank w \<Longrightarrow> \<not> is_ws c \<Longrightarrow> c \<noteq> close_c \<Longrightarrow> item_text j close_c (c # t)"
  unfolding before_def item_text_def by (auto split: if_splits)

lemma ends_blank: "blank w \<Longrightarrow> \<not> is_num_char c \<Longrightarrow> ends_token (w @ c # t)"
  using ws_classes by (cases w) (auto simp: ends_token_def)

lemma punctuation [simp]: "\<not> is_num_char RBRACE" "\<not> is_num_char RBRACKET" "\<not> is_num_char COMMA"
  by (simp_all add: is_num_char_def is_digit_def is_exp_def)

lemma leaves_now: "leaves j (j\<lparr>j_rest := r, j_depth := j_depth j - 1\<rparr>)"
  unfolding leaves_def by (intro exI [of _ r] exI [of _ "j_seen j"]) simp

lemma value_starts:
  assumes "json_value d v"
  obtains c t where "v = c # t" "\<not> is_ws c" "c \<noteq> RBRACKET"
proof -
  have n: "hd s \<noteq> RBRACKET \<and> \<not> is_ws (hd s)" if "json_number s" for s
    using number_chars [OF that] by (auto simp: is_digit_def is_ws_def)
  from assms show thesis
  proof (cases rule: json_value.cases)
    case number
    with n number_chars that show ?thesis by (metis list.collapse)
  qed (auto simp: json_string_def intro: that)
qed

lemma scalar_consumes:
  assumes "\<And>j r. j_err j = CFG_JSON_OK \<Longrightarrow> j_rest j = v @ r \<Longrightarrow> ends_token r \<Longrightarrow> skip_n 1 j = (True, j\<lparr>j_rest := r\<rparr>)"
    and "v = c # t" "\<not> is_ws c" "value_type c \<notin> {CFG_JSON_T_OBJ, CFG_JSON_T_ARR}"
  shows "consumes d v"
  unfolding consumes_def
proof (intro allI impI)
  fix j :: cfg_json_t and w r n
  assume h: "j_err j = CFG_JSON_OK" "blank w" "j_rest j = w @ v @ r" "ends_token r" "2 * length (j_rest j) + 1 \<le> n"
  let ?p = "j\<lparr>j_rest := v @ r\<rparr>"
  from h(5) obtain m where n: "n = Suc m" by (cases n) simp_all
  have pk: "cfg_json_peek j = (value_type c, ?p)" "cfg_json_peek ?p = (value_type c, ?p)"
    using peek_at [OF h(1,2), of c "t @ r"] peek_at [of ?p "[]" c "t @ r"] h assms(2,3) by simp_all
  have "skip_n n j = skip_n 1 ?p" using pk h(1) assms(4) n by (auto split: cfg_json_type_t.splits)
  then have "skip_n n j = (True, j\<lparr>j_rest := r\<rparr>)" using assms(1) [of ?p r] h by simp
  then show "\<exists>j'. skip_n n j = (True, j') \<and> kept j j' \<and> j_rest j' = r" using kept_rest by auto
qed

lemma loop_end:
  assumes "e = RBRACE \<and> loop = skip_members \<or> e = RBRACKET \<and> loop = skip_elements"
    and "inside j" "blank w" "j_rest j = w @ e # r"
  shows "loop (Suc k) j = (True, j\<lparr>j_rest := r, j_depth := j_depth j - 1\<rparr>)"
proof -
  have "container_step j e = (0, j\<lparr>j_rest := r, j_depth := j_depth j - 1\<rparr>)"
    using step_closed [OF assms(2-4)] assms(1) by auto
  then show ?thesis using assms(1,2) by (auto simp: cfg_json_obj_key_def cfg_json_arr_next_def inside_def)
qed

lemma container_consumes:
  assumes "c = LBRACE \<and> e = RBRACE \<and> loop = skip_members \<or> c = LBRACKET \<and> e = RBRACKET \<and> loop = skip_elements"
    and "blank m \<or> finishes loop e d m"
  shows "consumes (Suc d) (c # m @ [e])"
  unfolding consumes_def
proof (intro allI impI)
  fix j :: cfg_json_t and w r n
  assume h: "j_err j = CFG_JSON_OK" "j_depth j + Suc d = 6" "blank w" "j_rest j = w @ (c # m @ [e]) @ r" "2 * length (j_rest j) + 1 \<le> n"
  let ?p = "j\<lparr>j_rest := c # m @ e # r\<rparr>"
  let ?o = "opened ?p (m @ e # r)"
  from h(5) obtain k where n: "n = Suc k" by (cases n) simp_all
  have c: "\<not> is_ws c" "c \<in> {LBRACE, LBRACKET}" using assms(1) by auto
  have pk: "cfg_json_peek j = (value_type c, ?p)" using peek_at [OF h(1,3), of c "m @ e # r"] h(4) c by simp
  have op: "j_err ?p = CFG_JSON_OK" "j_depth ?p < 6" using h(1,2) by simp_all
  note o = opened_props [OF op, of "m @ e # r"]
  have b: "container_begin ?p c = (True, ?o)" using begin_complete [OF op, of "[]" c "m @ e # r"] c by simp
  have st: "skip_n n j = loop k ?o"
    using assms(1) n pk h(1) b by (auto simp: value_type_def is_digit_def cfg_json_obj_begin_def cfg_json_arr_begin_def)
  have k: "2 * length (j_rest ?o) + 2 \<le> k" using h(4,5) n o(3) by simp
  obtain j' where j': "loop k ?o = (True, j')" "leaves ?o j'" "j_rest j' = r"
  proof (cases "blank m")
    case True
    let ?e = "?o\<lparr>j_rest := r, j_depth := j_depth ?o - 1\<rparr>"
    obtain k' where k': "k = Suc k'" using k by (cases k) simp_all
    have "loop k ?o = (True, ?e)" using loop_end [OF _ o(1) True, of e loop r k'] assms(1) o(3) k' by auto
    then show ?thesis using that [of ?e] leaves_now by simp
  next
    case False
    with assms(2) have "finishes loop e d m" by blast
    moreover have "before ?o (m @ e # r)" using o(2,3) by (simp add: before_def)
    moreover have "j_depth ?o + d = 6" using o(4) h(2) by simp
    ultimately show ?thesis using that o(1) k unfolding finishes_def by blast
  qed
  have "kept ?p j'" using opened_closed [OF op j'(2)] .
  then show "\<exists>j'. skip_n n j = (True, j') \<and> kept j j' \<and> j_rest j' = r" using st j' kept_before by metis
qed

lemma member_step:
  assumes "inside j" "j_depth j + d = 6" "before j (w1 @ q @ w2 @ COLON # w3 @ v @ t)" "blank w1" "json_string q" "blank w2" "blank w3"
    and "consumes d v" "ends_token t" "2 * length (j_rest j) + 2 \<le> n"
  obtains n' j2 where "skip_members n j = skip_members n' j2" "kept (mark j (w3 @ v @ t)) j2" "j_rest j2 = t"
    "inside j2" "marked j2" "j_depth j2 = j_depth j" "2 * length t + 2 \<le> n'" "0 < n'"
proof -
  let ?r = "w3 @ v @ t" and ?j1 = "mark j (w3 @ v @ t)"
  from assms(10) obtain n' where n: "n = Suc n'" by (cases n) simp_all
  obtain qt where qt: "q = QUOTE # qt" using string_starts [OF assms(5)] by blast
  have "item_text j RBRACE (q @ w2 @ COLON # ?r)"
    using before_item [of j w1 QUOTE "qt @ w2 @ COLON # ?r" RBRACE] assms(3,4) qt by simp
  moreover have "member_text (q @ w2 @ COLON # ?r) ?r" using assms(5,6) by (auto simp: member_text_def)
  ultimately obtain a where key: "cfg_json_obj_key 4 j = (Some a, ?j1)" using key_item [OF assms(1)] by blast
  have "length (w1 @ q @ w2 @ COLON # ?r) \<le> length (j_rest j)" using assms(3) by (auto simp: before_def split: if_splits)
  then have l: "length ?r + 1 < length (j_rest j)" using qt by simp
  note mk = mark_props(1,2) [OF assms(1), of ?r] and md = mark_props(3-5) [of j ?r]
  have "j_err ?j1 = CFG_JSON_OK" "j_depth ?j1 + d = 6" "j_rest ?j1 = w3 @ v @ t" "2 * length (j_rest ?j1) + 1 \<le> n'"
    using assms(1,2,10) md l n by (simp_all add: inside_def)
  then obtain j2 where j2: "skip_n n' ?j1 = (True, j2)" "kept ?j1 j2" "j_rest j2 = t"
    using assms(7,8,9) unfolding consumes_def by blast
  have "skip_members n j = skip_members n' j2" using n key j2(1) by simp
  then show thesis using that [OF _ j2(2,3)] kept_marked [OF mk(2,1) j2(2)] md(2) l n assms(10) by simp
qed

lemma element_step:
  assumes "inside j" "j_depth j + d = 6" "before j (w @ v @ t)" "blank w" "json_value d v"
    and "consumes d v" "ends_token t" "2 * length (j_rest j) + 2 \<le> n"
  obtains n' j2 j1 where "skip_elements n j = skip_elements n' j2" "kept (mark j j1) j2" "j_rest j2 = t"
    "inside j2" "marked j2" "j_depth j2 = j_depth j" "2 * length t + 2 \<le> n'" "0 < n'"
proof -
  from assms(8) obtain n' where n: "n = Suc n'" by (cases n) simp_all
  obtain c vt where v: "v = c # vt" "\<not> is_ws c" "c \<noteq> RBRACKET" by (rule value_starts [OF assms(5)])
  let ?r = "v @ t" and ?j1 = "mark j (v @ t)"
  have "item_text j RBRACKET ?r" using before_item [of j w c "vt @ t" RBRACKET] assms(3,4) v by simp
  then have st: "container_step j RBRACKET = (1, ?j1)" using step_item [OF assms(1)] by simp
  have l: "length ?r \<le> length (j_rest j)" using assms(3) by (auto simp: before_def split: if_splits)
  note mk = mark_props(1,2) [OF assms(1), of ?r] and md = mark_props(3-5) [of j ?r]
  have "j_err ?j1 = CFG_JSON_OK" "j_depth ?j1 + d = 6" "j_rest ?j1 = [] @ v @ t" "2 * length (j_rest ?j1) + 1 \<le> n'"
    using assms(1,2,8) md l n by (simp_all add: inside_def)
  then obtain j2 where j2: "skip_n n' ?j1 = (True, j2)" "kept ?j1 j2" "j_rest j2 = t"
    using assms(6,7) blank_simps(1) unfolding consumes_def by blast
  have "skip_elements n j = skip_elements n' j2" using n st j2(1) by (simp add: cfg_json_arr_next_def)
  then show thesis using that [OF _ j2(2,3)] kept_marked [OF mk(2,1) j2(2)] md(2) l n assms(8) v(1) by simp
qed

text \<open>A list whose text ends here, and one that goes on after a comma.\<close>

lemma last_item:
  assumes "e = RBRACE \<and> loop = skip_members \<or> e = RBRACKET \<and> loop = skip_elements"
    and "inside j" "kept (mark j s) j2" "j_rest j2 = w @ e # r" "inside j2" "blank w" "loop n j = loop n' j2" "0 < n'"
  shows "\<exists>j'. loop n j = (True, j') \<and> leaves j j' \<and> j_rest j' = r"
proof -
  from assms(8) obtain k where "n' = Suc k" by (cases n') simp_all
  then have "loop n j = (True, j2\<lparr>j_rest := r, j_depth := j_depth j2 - 1\<rparr>)"
    using loop_end [OF assms(1,5,6,4)] assms(7) by simp
  moreover have "leaves j (j2\<lparr>j_rest := r, j_depth := j_depth j2 - 1\<rparr>)"
    using mark_kept_closed [OF assms(2,3) leaves_now] .
  ultimately show ?thesis by simp
qed

lemma next_item:
  assumes "finishes loop e d m" "inside j" "kept (mark j s) j2" "j_rest j2 = w @ COMMA # m @ e # r" "blank w"
    and "inside j2" "marked j2" "j_depth j2 + d = 6" "2 * length (j_rest j2) + 2 \<le> n'" "loop n j = loop n' j2"
  shows "\<exists>j'. loop n j = (True, j') \<and> leaves j j' \<and> j_rest j' = r"
proof -
  have "before j2 (m @ e # r)" using assms(4,5,7) by (auto simp: before_def)
  then obtain j' where "loop n' j2 = (True, j')" "leaves j2 j'" "j_rest j' = r"
    using assms(1,6,8,9) unfolding finishes_def by blast
  then show ?thesis using mark_kept_closed [OF assms(2,3)] assms(10) by auto
qed

lemma literal_consumes:
  assumes "s \<in> {TRUE_TXT, FALSE_TXT, NULL_TXT}"
  shows "consumes d s"
proof -
  obtain c t where s: "s = c # t" "\<not> is_ws c" "value_type c = (if s = NULL_TXT then CFG_JSON_T_NULL else CFG_JSON_T_BOOL)"
    using assms by (auto simp: value_type_def is_digit_def)
  show ?thesis
  proof (rule scalar_consumes [OF _ s(1,2)])
    fix j :: cfg_json_t and r assume h: "j_err j = CFG_JSON_OK" "j_rest j = s @ r"
    have pk: "cfg_json_peek j = (value_type c, j)" using peek_at [of j "[]" c "t @ r"] h s by simp
    have "\<exists>v. cfg_json_bool j = (Some v, j\<lparr>j_rest := r\<rparr>)" if "s \<noteq> NULL_TXT"
      using bool_complete [of j "[]" s r] h assms that by auto
    moreover have "cfg_json_null j = (True, j\<lparr>j_rest := r\<rparr>)" if "s = NULL_TXT"
      using null_complete [of j "[]" r] h that by simp
    ultimately show "skip_n 1 j = (True, j\<lparr>j_rest := r\<rparr>)" using pk s(3) h(1) by (auto split: if_splits)
  qed (simp add: s(3))
qed

lemma string_consumes:
  assumes "json_string s"
  shows "consumes d s"
proof -
  obtain t where s: "s = QUOTE # t" using string_starts [OF assms] by blast
  show ?thesis
  proof (rule scalar_consumes [OF _ s])
    fix j :: cfg_json_t and r assume h: "j_err j = CFG_JSON_OK" "j_rest j = s @ r"
    have pk: "cfg_json_peek j = (CFG_JSON_T_STR, j)" using peek_at [of j "[]" QUOTE "t @ r"] h s by (simp add: value_type_def)
    then show "skip_n 1 j = (True, j\<lparr>j_rest := r\<rparr>)" using str_complete [of j "[]" s r 0] h assms by auto
  qed (simp_all add: value_type_def)
qed

lemma number_consumes:
  assumes "json_number s" "length s \<le> 40"
  shows "consumes d s"
proof -
  obtain c t where s: "s = c # t" "c = MINUS \<or> is_digit c" using number_chars [OF assms(1)] by (cases s) auto
  then have c: "\<not> is_ws c" "value_type c = CFG_JSON_T_NUM" by (auto simp: value_type_def is_digit_def is_ws_def)
  show ?thesis
  proof (rule scalar_consumes [OF _ s(1) c(1)])
    fix j :: cfg_json_t and r assume h: "j_err j = CFG_JSON_OK" "j_rest j = s @ r" "ends_token r"
    have pk: "cfg_json_peek j = (CFG_JSON_T_NUM, j)" using peek_at [of j "[]" c "t @ r"] h s c by simp
    then show "skip_n 1 j = (True, j\<lparr>j_rest := r\<rparr>)" using num_complete [of j "[]" s r] h assms by auto
  qed (simp add: c(2))
qed

lemma grammar_complete:
  "json_value d v \<Longrightarrow> consumes d v"
  "json_members d m \<Longrightarrow> finishes skip_members RBRACE d m"
  "json_elements d m \<Longrightarrow> finishes skip_elements RBRACKET d m"
proof (induction rule: json_value_json_members_json_elements.inducts)
  case (last_member w1 k w2 w3 d v w4)
  show ?case unfolding finishes_def
  proof (intro allI impI)
    fix j r n
    assume h: "inside j" "j_depth j + d = 6" "before j ((w1 @ k @ w2 @ COLON # w3 @ v @ w4) @ RBRACE # r)" "2 * length (j_rest j) + 2 \<le> n"
    from h(3) have b: "before j (w1 @ k @ w2 @ COLON # w3 @ v @ w4 @ RBRACE # r)" by simp
    have e: "ends_token (w4 @ RBRACE # r)" using ends_blank last_member by simp
    obtain n' j2 where st: "skip_members n j = skip_members n' j2" "kept (mark j (w3 @ v @ w4 @ RBRACE # r)) j2"
        "j_rest j2 = w4 @ RBRACE # r" "inside j2" "0 < n'"
      using member_step [OF h(1,2) b last_member(1-4) last_member.IH e h(4)] by metis
    show "\<exists>j'. skip_members n j = (True, j') \<and> leaves j j' \<and> j_rest j' = r"
      using last_item [OF _ h(1) st(2-4) last_member(6) st(1,5)] by simp
  qed
next
  case (more_members w1 k w2 w3 d v w4 m)
  show ?case unfolding finishes_def
  proof (intro allI impI)
    fix j r n
    assume h: "inside j" "j_depth j + d = 6" "before j ((w1 @ k @ w2 @ COLON # w3 @ v @ w4 @ COMMA # m) @ RBRACE # r)" "2 * length (j_rest j) + 2 \<le> n"
    from h(3) have b: "before j (w1 @ k @ w2 @ COLON # w3 @ v @ w4 @ COMMA # m @ RBRACE # r)" by simp
    have e: "ends_token (w4 @ COMMA # m @ RBRACE # r)" using ends_blank more_members by simp
    obtain n' j2 where st: "skip_members n j = skip_members n' j2" "kept (mark j (w3 @ v @ w4 @ COMMA # m @ RBRACE # r)) j2"
        "j_rest j2 = w4 @ COMMA # m @ RBRACE # r" "inside j2" "marked j2" "j_depth j2 = j_depth j" "2 * length (w4 @ COMMA # m @ RBRACE # r) + 2 \<le> n'"
      using member_step [OF h(1,2) b more_members(1-4) more_members.IH(1) e h(4)] by metis
    show "\<exists>j'. skip_members n j = (True, j') \<and> leaves j j' \<and> j_rest j' = r"
      using next_item [OF more_members.IH(2) h(1) st(2,3) more_members(6) st(4,5)] st h(2) by simp
  qed
next
  case (last_element w1 d v w2)
  show ?case unfolding finishes_def
  proof (intro allI impI)
    fix j r n
    assume h: "inside j" "j_depth j + d = 6" "before j ((w1 @ v @ w2) @ RBRACKET # r)" "2 * length (j_rest j) + 2 \<le> n"
    from h(3) have b: "before j (w1 @ v @ w2 @ RBRACKET # r)" by simp
    have e: "ends_token (w2 @ RBRACKET # r)" using ends_blank last_element by simp
    obtain n' j2 s where st: "skip_elements n j = skip_elements n' j2" "kept (mark j s) j2"
        "j_rest j2 = w2 @ RBRACKET # r" "inside j2" "0 < n'"
      using element_step [OF h(1,2) b last_element(1,2) last_element.IH e h(4)] by metis
    show "\<exists>j'. skip_elements n j = (True, j') \<and> leaves j j' \<and> j_rest j' = r"
      using last_item [OF _ h(1) st(2-4) last_element.hyps(3) st(1,5)] by simp
  qed
next
  case (more_elements w1 d v w2 m)
  show ?case unfolding finishes_def
  proof (intro allI impI)
    fix j r n
    assume h: "inside j" "j_depth j + d = 6" "before j ((w1 @ v @ w2 @ COMMA # m) @ RBRACKET # r)" "2 * length (j_rest j) + 2 \<le> n"
    from h(3) have b: "before j (w1 @ v @ w2 @ COMMA # m @ RBRACKET # r)" by simp
    have e: "ends_token (w2 @ COMMA # m @ RBRACKET # r)" using ends_blank more_elements by simp
    obtain n' j2 s where st: "skip_elements n j = skip_elements n' j2" "kept (mark j s) j2"
        "j_rest j2 = w2 @ COMMA # m @ RBRACKET # r" "inside j2" "marked j2" "j_depth j2 = j_depth j" "2 * length (w2 @ COMMA # m @ RBRACKET # r) + 2 \<le> n'"
      using element_step [OF h(1,2) b more_elements(1,2) more_elements.IH(1) e h(4)] by metis
    show "\<exists>j'. skip_elements n j = (True, j') \<and> leaves j j' \<and> j_rest j' = r"
      using next_item [OF more_elements.IH(2) h(1) st(2,3) more_elements.hyps(3) st(4,5)] st h(2) by simp
  qed
next
  case (string s d)
  then show ?case by (rule string_consumes)
next
  case (number s d)
  then show ?case by (rule number_consumes)
next
  case (literal s d)
  then show ?case by (rule literal_consumes)
next
  case (empty_object w d)
  then show ?case using container_consumes [of LBRACE RBRACE skip_members w d] by simp
next
  case (object d m)
  then show ?case using container_consumes [of LBRACE RBRACE skip_members m d] by simp
next
  case (empty_array w d)
  then show ?case using container_consumes [of LBRACKET RBRACKET skip_elements w d] by simp
next
  case (array d m)
  then show ?case using container_consumes [of LBRACKET RBRACKET skip_elements m d] by simp
qed

section \<open>What the check decides\<close>

lemma validate_iff:
  "cfg_json_validate text = CFG_JSON_OK \<longleftrightarrow> json_text 6 text"
proof
  assume h: "cfg_json_validate text = CFG_JSON_OK"
  obtain ok j' where s: "cfg_json_skip (cfg_json_init text) = (ok, j')" by (cases "cfg_json_skip (cfg_json_init text)")
  with h have ok: ok "dropWhile is_ws (j_rest j') = []" by (auto simp: cfg_json_validate_def skip_ws_def split: if_splits)
  have "skip_n (2 * length (j_rest (cfg_json_init text)) + 1) (cfg_json_init text) = (True, j')" "j_depth (cfg_json_init text) \<le> 6"
    using s ok(1) by (simp_all only: cfg_json_skip_def) (simp add: cfg_json_init_def)
  then have "read_value (cfg_json_init text) j'" using skip_sound by blast
  then obtain w v where "blank w" "json_value 6 v" "text = w @ v @ j_rest j'"
    by (auto simp: read_value_def cfg_json_init_def)
  moreover have "blank (j_rest j')" using blank_dropWhile [OF ok(2)] by auto
  ultimately show "json_text 6 text" unfolding json_text_def by blast
next
  assume "json_text 6 text"
  then obtain w1 v w2 where t: "blank w1" "json_value 6 v" "blank w2" "text = w1 @ v @ w2" by (auto simp: json_text_def)
  have e: "ends_token w2" using t(3) ws_classes by (cases w2) (auto simp: ends_token_def)
  have "\<exists>j'. cfg_json_skip (cfg_json_init text) = (True, j') \<and> kept (cfg_json_init text) j' \<and> j_rest j' = w2"
  proof -
    have "j_err (cfg_json_init text) = CFG_JSON_OK" "j_depth (cfg_json_init text) + 6 = 6" "j_rest (cfg_json_init text) = w1 @ v @ w2"
      using t(4) by (simp_all add: cfg_json_init_def)
    then show ?thesis using grammar_complete(1) [OF t(2)] t(1) e unfolding consumes_def cfg_json_skip_def by blast
  qed
  then show "cfg_json_validate text = CFG_JSON_OK"
    using t(3) by (auto simp: cfg_json_validate_def skip_ws_def blank_def dropWhile_eq_Nil_conv list_all_iff)
qed

text \<open>C23 (equivalence). \<open>cfg_json_validate\<close> decides the grammar: a byte string is accepted if and only
  if it is one JSON value with at most six nested containers, numbers of at most 40
  characters and nothing but white space around it.\<close>

theorem validate_decides_grammar:
  "cfg_json_validate text = CFG_JSON_OK \<longleftrightarrow> json_text 6 text"
  by (rule validate_iff)

end
