(* ===== verification/Json_Writer.thy ===== *)
theory Json_Writer
  imports Json_Reader "HOL-Library.While_Combinator"
begin

text \<open>
  The decimal formatter and the streaming writer of \<open>control/Src/config_json.c\<close>. The sink is a function
  on the caller's context, so the context carries what was sent. \<open>w_buf\<close> holds the bytes
  \<open>buf[0 .. len)\<close>. Two loops of the code do not end on some states: \<open>wr\<close> with an empty chunk and a
  sink, and the exponent estimate at an infinity, which \<open>cfg_json_fmt_g\<close> rejects first. Both are
  modelled with the value \<open>None\<close> for not returning, and shown to return otherwise.
\<close>

section \<open>Decimal formatter\<close>

definition CFG_JSON_SIG_DEFAULT :: nat where "CFG_JSON_SIG_DEFAULT = 4"
definition CFG_JSON_SIG_EXACT :: nat where "CFG_JSON_SIG_EXACT = 9"

definition fp_zero :: fp where
  "fp_zero = FpFin False 0"

primrec pow10u :: "nat \<Rightarrow> u32" where
  "pow10u 0 = 1"
| "pow10u (Suc n) = pow10u n * 10"

definition fmt_zero :: "nat \<Rightarrow> bool \<Rightarrow> u8 list option" where
  "fmt_zero cap neg = (if cap < (if neg then 2 else 1) + 1 then None else Some (if neg then [MINUS, ZERO] else [ZERO]))"

definition round_u32 :: "fp \<Rightarrow> u32" where
  "round_u32 x =
     (if \<not> fp_lt fp_zero x then 0
      else if fp_le (dnat 4000000000) x then 0xFFFFFFFF
      else case fp_add double_fmt x (FpFin False (1 / 2)) of FpFin s v \<Rightarrow> of_int \<lfloor>v\<rfloor> | _ \<Rightarrow> 0)"

text \<open>One \<open>while\<close> loop of the estimate: \<open>t\<close> is scaled and \<open>e10\<close> moved while the test holds.\<close>

definition scale_while :: "(fp \<Rightarrow> bool) \<Rightarrow> (fp \<Rightarrow> fp) \<Rightarrow> int \<Rightarrow> fp \<times> int \<Rightarrow> (fp \<times> int) option" where
  "scale_while again scale k = while_option (\<lambda>(t, e10). again t) (\<lambda>(t, e10). (scale t, e10 + k))"

definition exp10_estimate :: "fp \<Rightarrow> int option" where
  "exp10_estimate a =
     Option.bind (scale_while (\<lambda>t. fp_le (POW10 22) t) (\<lambda>t. fp_div double_fmt t (POW10 22)) 22 (a, 0)) (\<lambda>s.
     Option.bind (scale_while (\<lambda>t. fp_le (POW10 1) t) (\<lambda>t. fp_div double_fmt t (POW10 1)) 1 s) (\<lambda>s.
     Option.bind (scale_while (\<lambda>t. fp_lt t (fp_round double_fmt False (1 / 10 ^ 21))) (\<lambda>t. fp_mul double_fmt t (POW10 22)) (-22) s) (\<lambda>s.
     Option.bind (scale_while (\<lambda>t. fp_lt t (POW10 0)) (\<lambda>t. fp_mul double_fmt t (POW10 1)) (-1) s) (\<lambda>s.
       Some (snd s)))))"

text \<open>The mantissa and exponent after the two adjust steps and the final carry.\<close>

definition mantissa :: "fp \<Rightarrow> nat \<Rightarrow> int \<Rightarrow> u32" where
  "mantissa a sig e10 = round_u32 (scale_pow10 a (int sig - 1 - e10))"

definition decimal :: "fp \<Rightarrow> nat \<Rightarrow> u32 \<times> int" where
  "decimal a sig =
     (let pmax = pow10u sig; pmin = pmax div 10;
          e10 = the (exp10_estimate a);
          m = mantissa a sig e10;
          (m, e10) = (if pmax \<le> m then (mantissa a sig (e10 + 1), e10 + 1)
                      else if m < pmin then (mantissa a sig (e10 - 1), e10 - 1) else (m, e10))
      in if pmax \<le> m then (pmax div 10, e10 + 1) else (m, e10))"

definition digit_chr :: "u32 \<Rightarrow> u8" where
  "digit_chr d = ZERO + ucast d"

primrec digit_run :: "nat \<Rightarrow> u32 \<Rightarrow> u8 list" where
  "digit_run 0 m = []"
| "digit_run (Suc n) m = digit_run n (m div 10) @ [digit_chr (m mod 10)]"

text \<open>\<open>nd\<close>: trailing zeros are stripped, one digit is kept.\<close>

fun strip_zeros :: "nat \<Rightarrow> u8 list \<Rightarrow> nat" where
  "strip_zeros 0 dg = 0"
| "strip_zeros (Suc n) dg = (if 0 < n \<and> dg ! n = ZERO then strip_zeros n dg else Suc n)"

definition exp_text :: "int \<Rightarrow> u8 list" where
  "exp_text e10 =
     (let ex = nat \<bar>e10\<bar>
      in (if e10 < 0 then [MINUS] else [PLUS]) @
         (if 100 \<le> ex then [ZERO + of_nat (ex div 100)] else []) @
         [ZERO + of_nat (ex mod 100 div 10), ZERO + of_nat (ex mod 100 mod 10)])"

definition exp_form :: "u8 list \<Rightarrow> int \<Rightarrow> u8 list" where
  "exp_form ds e10 = hd ds # (if 1 < length ds then DOT # tl ds else []) @ 0x65 # exp_text e10"

definition fixed_form :: "u8 list \<Rightarrow> int \<Rightarrow> u8 list" where
  "fixed_form ds e10 =
     (let ip = nat (e10 + 1)
      in map (\<lambda>i. if i < length ds then ds ! i else ZERO) [0..<ip] @ (if ip < length ds then DOT # drop ip ds else []))"

definition small_form :: "u8 list \<Rightarrow> int \<Rightarrow> u8 list" where
  "small_form ds e10 = ZERO # DOT # replicate (nat (- e10 - 1)) ZERO @ ds"

definition cfg_json_fmt_g :: "nat \<Rightarrow> fp \<Rightarrow> int \<Rightarrow> u8 list option" where
  "cfg_json_fmt_g cap v sig =
     (if cap \<le> 1 then None
      else if \<not> fp_finite v then None
      else let sig = (if sig < 1 then 1 else sig);
               sig = nat (if 9 < sig then 9 else sig);
               neg = fp_lt v fp_zero;
               a = (if neg then fp_neg v else v)
           in if fp_key a = fp_key fp_zero then fmt_zero cap (case v of FpFin s r \<Rightarrow> s | _ \<Rightarrow> False)
              else case decimal a sig of (m, e10) \<Rightarrow>
                if m = 0 then fmt_zero cap neg
                else let dg = digit_run sig m;
                         ds = take (strip_zeros sig dg) dg;
                         tmp = (if neg then [MINUS] else []) @
                           (if e10 < -4 \<or> int sig \<le> e10 then exp_form ds e10
                            else if 0 \<le> e10 then fixed_form ds e10 else small_form ds e10)
                     in if cap < length tmp + 1 then None else Some tmp)"

section \<open>Writer\<close>

record 's cfg_json_w_t =
  w_buf :: "u8 list"
  w_cap :: nat
  w_sink :: "('s \<Rightarrow> u8 list \<Rightarrow> 's) option"
  w_ctx :: 's
  w_comma :: u32
  w_isarr :: u32
  w_depth :: nat
  w_pending :: bool
  w_ovf :: bool

text \<open>The head of the loop of \<open>wr\<close>: a full chunk goes to the sink; without one there is no room.\<close>

definition wr_room :: "'s cfg_json_w_t \<Rightarrow> 's cfg_json_w_t option" where
  "wr_room w =
     (if w_cap w \<le> length (w_buf w) then
        (case w_sink w of None \<Rightarrow> None | Some sink \<Rightarrow> Some (w\<lparr>w_ctx := sink (w_ctx w) (w_buf w), w_buf := []\<rparr>))
      else Some w)"

partial_function (option) wr_loop :: "'s cfg_json_w_t \<Rightarrow> u8 list \<Rightarrow> 's cfg_json_w_t option" where
  "wr_loop w s =
     (if s = [] then Some w
      else case wr_room w of
          None \<Rightarrow> Some (w\<lparr>w_ovf := True\<rparr>)
        | Some w \<Rightarrow>
           let room = w_cap w - length (w_buf w)
           in wr_loop (w\<lparr>w_buf := w_buf w @ take room s\<rparr>) (drop room s))"

definition wr :: "'s cfg_json_w_t \<Rightarrow> u8 list \<Rightarrow> 's cfg_json_w_t" where
  "wr w s = the (wr_loop w s)"

definition comma_bit :: "'s cfg_json_w_t \<Rightarrow> u32" where
  "comma_bit w = push_bit (w_depth w - 1) 1"

definition sep :: "'s cfg_json_w_t \<Rightarrow> 's cfg_json_w_t" where
  "sep w =
     (if w_pending w then w\<lparr>w_pending := False\<rparr>
      else if 0 < w_depth w \<and> w_depth w \<le> 32 then
        (if w_comma w AND comma_bit w \<noteq> 0 then wr w [COMMA] else w\<lparr>w_comma := w_comma w OR comma_bit w\<rparr>)
      else w)"

definition hex_digit :: "u8 \<Rightarrow> u8" where
  "hex_digit n = (if n < 10 then ZERO + n else 0x61 + (n - 10))"

definition escape_chr :: "u8 \<Rightarrow> u8 list" where
  "escape_chr c =
     (if c = QUOTE then [BACKSLASH, QUOTE] else if c = BACKSLASH then [BACKSLASH, BACKSLASH]
      else if c = 0x08 then [BACKSLASH, 0x62] else if c = 0x0C then [BACKSLASH, 0x66]
      else if c = 0x0A then [BACKSLASH, 0x6E] else if c = 0x0D then [BACKSLASH, 0x72]
      else if c = 0x09 then [BACKSLASH, 0x74]
      else if c < 0x20 then [BACKSLASH, 0x75, ZERO, ZERO, hex_digit (drop_bit 4 c AND 0x0F), hex_digit (c AND 0x0F)]
      else [c])"

text \<open>A C string ends at its first NUL.\<close>

definition wr_quoted :: "'s cfg_json_w_t \<Rightarrow> u8 list \<Rightarrow> 's cfg_json_w_t" where
  "wr_quoted w s = wr (foldl (\<lambda>w c. wr w (escape_chr c)) (wr w [QUOTE]) (takeWhile (\<lambda>c. c \<noteq> 0) s)) [QUOTE]"

definition cfg_json_w_init :: "nat \<Rightarrow> ('s \<Rightarrow> u8 list \<Rightarrow> 's) option \<Rightarrow> 's \<Rightarrow> 's cfg_json_w_t" where
  "cfg_json_w_init cap sink ctx =
     \<lparr>w_buf = [], w_cap = cap, w_sink = sink, w_ctx = ctx, w_comma = 0, w_isarr = 0, w_depth = 0, w_pending = False,
      w_ovf = (cap = 0)\<rparr>"

definition cfg_json_w_flush :: "'s cfg_json_w_t \<Rightarrow> bool \<times> 's cfg_json_w_t" where
  "cfg_json_w_flush w =
     (let w = (case w_sink w of None \<Rightarrow> w
               | Some sink \<Rightarrow> if w_buf w \<noteq> [] then w\<lparr>w_ctx := sink (w_ctx w) (w_buf w), w_buf := []\<rparr> else w)
      in (\<not> w_ovf w, w))"

definition container_open :: "'s cfg_json_w_t \<Rightarrow> u8 \<Rightarrow> bool \<Rightarrow> 's cfg_json_w_t" where
  "container_open w c arr =
     (let w = wr (sep w) [c] in
      if 32 \<le> w_depth w then w\<lparr>w_ovf := True\<rparr>
      else let w = w\<lparr>w_depth := w_depth w + 1\<rparr>;
               w = w\<lparr>w_comma := w_comma w AND NOT (comma_bit w)\<rparr>
           in w\<lparr>w_isarr := (if arr then w_isarr w OR comma_bit w else w_isarr w AND NOT (comma_bit w))\<rparr>)"

definition cfg_json_w_obj :: "'s cfg_json_w_t \<Rightarrow> 's cfg_json_w_t" where
  "cfg_json_w_obj w = container_open w LBRACE False"

definition cfg_json_w_arr :: "'s cfg_json_w_t \<Rightarrow> 's cfg_json_w_t" where
  "cfg_json_w_arr w = container_open w LBRACKET True"

definition cfg_json_w_end :: "'s cfg_json_w_t \<Rightarrow> 's cfg_json_w_t" where
  "cfg_json_w_end w =
     (if w_depth w = 0 then w
      else let w = wr w [if w_isarr w AND comma_bit w \<noteq> 0 then RBRACKET else RBRACE]
           in w\<lparr>w_depth := w_depth w - 1, w_pending := False\<rparr>)"

definition cfg_json_w_key :: "'s cfg_json_w_t \<Rightarrow> u8 list \<Rightarrow> 's cfg_json_w_t" where
  "cfg_json_w_key w key = (wr (wr_quoted (sep w) key) [COLON])\<lparr>w_pending := True\<rparr>"

definition cfg_json_w_str :: "'s cfg_json_w_t \<Rightarrow> u8 list \<Rightarrow> 's cfg_json_w_t" where
  "cfg_json_w_str w s = wr_quoted (sep w) s"

definition cfg_json_w_raw :: "'s cfg_json_w_t \<Rightarrow> u8 list \<Rightarrow> 's cfg_json_w_t" where
  "cfg_json_w_raw w s = wr (sep w) s"

definition cfg_json_w_bool :: "'s cfg_json_w_t \<Rightarrow> bool \<Rightarrow> 's cfg_json_w_t" where
  "cfg_json_w_bool w v = wr (sep w) (if v then TRUE_TXT else FALSE_TXT)"

definition cfg_json_w_null :: "'s cfg_json_w_t \<Rightarrow> 's cfg_json_w_t" where
  "cfg_json_w_null w = wr (sep w) NULL_TXT"

text \<open>A \<open>long\<close> is 32 bits on the target. The digits come out last first, at most \<open>k\<close> of them.\<close>

primrec dec_rev :: "nat \<Rightarrow> u32 \<Rightarrow> u8 list" where
  "dec_rev 0 u = []"
| "dec_rev (Suc k) u = digit_chr (u mod 10) # (if u div 10 = 0 then [] else dec_rev k (u div 10))"

definition int_text :: "u32 \<Rightarrow> u8 list" where
  "int_text v =
     (let u = (if v <s 0 then - (v + 1) + 1 else v)
      in (if v <s 0 then [MINUS] else []) @ rev (dec_rev 20 u))"

definition cfg_json_w_int :: "'s cfg_json_w_t \<Rightarrow> u32 \<Rightarrow> 's cfg_json_w_t" where
  "cfg_json_w_int w v = wr (sep w) (int_text v)"

text \<open>The conversion of a \<open>double\<close> to \<open>float\<close>, and the number text of a finite float: short if it reads
  back as the same float.\<close>

definition double_to_single :: "fp \<Rightarrow> fp" where
  "double_to_single d = (case d of FpFin s v \<Rightarrow> fp_round single_fmt s v | _ \<Rightarrow> d)"

definition f32_text :: "f32 \<Rightarrow> u8 list option" where
  "f32_text v =
     (case cfg_json_fmt_g 40 (fpv v) (int CFG_JSON_SIG_DEFAULT) of
        None \<Rightarrow> None
      | Some b \<Rightarrow>
          (case cfg_json_scan_num b of
             None \<Rightarrow> cfg_json_fmt_g 40 (fpv v) (int CFG_JSON_SIG_EXACT)
           | Some (used, back) \<Rightarrow>
               if used \<noteq> length b \<or> fp_key (double_to_single back) \<noteq> fp_key (fpv v)
               then cfg_json_fmt_g 40 (fpv v) (int CFG_JSON_SIG_EXACT) else Some b))"

definition cfg_json_w_f32 :: "'s cfg_json_w_t \<Rightarrow> f32 \<Rightarrow> 's cfg_json_w_t" where
  "cfg_json_w_f32 w v =
     (if \<not> isfinite v then cfg_json_w_null w
      else case f32_text v of None \<Rightarrow> cfg_json_w_null w | Some b \<Rightarrow> wr (sep w) b)"

end
