(* ===== verification/Json_Render.thy ===== *)
theory Json_Render
  imports Json_Writer
begin

text \<open>
  What the writer writes. A write hands full chunks to the sink and keeps the rest; a value or a
  container of nested values goes out as its text, with the separators the level bits ask for.
  \<open>write_doc\<close> drives the writer over a document the way its callers do, and \<open>render\<close> is the text it
  produces, whatever the size of the chunk.
\<close>

section \<open>Streaming\<close>

definition writable :: "'s cfg_json_w_t \<Rightarrow> bool" where
  "writable w \<longleftrightarrow> 0 < w_cap w \<and> w_sink w \<noteq> None \<and> length (w_buf w) \<le> w_cap w"

text \<open>From \<open>w\<close> to \<open>w'\<close> the text \<open>t\<close> was written: chunks \<open>cs\<close> went to the sink.\<close>

definition streams :: "'s cfg_json_w_t \<Rightarrow> u8 list \<Rightarrow> 's cfg_json_w_t \<Rightarrow> bool" where
  "streams w t w' \<longleftrightarrow> (\<exists>cs. list_all (\<lambda>c. length c = w_cap w) cs \<and>
      w_ctx w' = foldl (the (w_sink w)) (w_ctx w) cs \<and> concat cs @ w_buf w' = w_buf w @ t) \<and>
    w_cap w' = w_cap w \<and> w_sink w' = w_sink w \<and> writable w'"

lemma streamsI:
  "list_all (\<lambda>c. length c = w_cap w) cs \<Longrightarrow> w_ctx w' = foldl (the (w_sink w)) (w_ctx w) cs \<Longrightarrow>
   concat cs @ w_buf w' = w_buf w @ t \<Longrightarrow> w_cap w' = w_cap w \<Longrightarrow> w_sink w' = w_sink w \<Longrightarrow> writable w' \<Longrightarrow> streams w t w'"
  unfolding streams_def by blast

lemma writable_marks [simp]:
  "writable (w\<lparr>w_pending := p\<rparr>) = writable w" "writable (w\<lparr>w_depth := d\<rparr>) = writable w"
  "writable (w\<lparr>w_comma := c\<rparr>) = writable w" "writable (w\<lparr>w_isarr := c\<rparr>) = writable w"
  by (simp_all add: writable_def)

lemma streams_marks [simp]:
  "streams w t (v\<lparr>w_pending := p\<rparr>) = streams w t v" "streams w t (v\<lparr>w_depth := d\<rparr>) = streams w t v"
  "streams w t (v\<lparr>w_comma := c\<rparr>) = streams w t v" "streams w t (v\<lparr>w_isarr := c\<rparr>) = streams w t v"
  "streams (w\<lparr>w_pending := p\<rparr>) t v = streams w t v"
  by (simp_all add: streams_def)

lemma streams_writable: "streams w t v \<Longrightarrow> writable v"
  by (simp add: streams_def)

lemma streams_refl: "writable w \<Longrightarrow> streams w [] w"
  by (rule streamsI [of _ "[]"]) simp_all

lemma streams_trans: "streams w s v \<Longrightarrow> streams v t u \<Longrightarrow> streams w (s @ t) u"
proof -
  assume a: "streams w s v" "streams v t u"
  then obtain cs ds where c: "list_all (\<lambda>c. length c = w_cap w) cs" "w_ctx v = foldl (the (w_sink w)) (w_ctx w) cs"
      "concat cs @ w_buf v = w_buf w @ s" "w_cap v = w_cap w" "w_sink v = w_sink w"
    and d: "list_all (\<lambda>c. length c = w_cap v) ds" "w_ctx u = foldl (the (w_sink v)) (w_ctx v) ds" "concat ds @ w_buf u = w_buf v @ t"
      "w_cap u = w_cap v" "w_sink u = w_sink v" "writable u"
    unfolding streams_def by blast
  have "concat (cs @ ds) @ w_buf u = w_buf w @ s @ t"
    using c(3) d(3) by (metis append.assoc concat_append)
  then show ?thesis using c d by (intro streamsI [of _ "cs @ ds"]) simp_all
qed

text \<open>The parts of the state a write leaves alone.\<close>

definition same_marks :: "'s cfg_json_w_t \<Rightarrow> 's cfg_json_w_t \<Rightarrow> bool" where
  "same_marks w v \<longleftrightarrow> w_comma v = w_comma w \<and> w_isarr v = w_isarr w \<and> w_depth v = w_depth w \<and>
     w_pending v = w_pending w \<and> w_ovf v = w_ovf w"

lemma same_marks_refl [simp]: "same_marks w w"
  by (simp add: same_marks_def)

lemma same_marks_trans: "same_marks w v \<Longrightarrow> same_marks v u \<Longrightarrow> same_marks w u"
  by (simp add: same_marks_def)

lemma wr_room_ready:
  assumes "writable w"
  shows "\<exists>v. wr_room w = Some v \<and> streams w [] v \<and> same_marks w v \<and> length (w_buf v) < w_cap v"
proof (cases "w_cap w \<le> length (w_buf w)")
  case True
  then obtain f where f: "w_sink w = Some f" using assms by (auto simp: writable_def)
  let ?v = "w\<lparr>w_ctx := f (w_ctx w) (w_buf w), w_buf := []\<rparr>"
  have "streams w [] ?v"
    using True assms f by (intro streamsI [of _ "[w_buf w]"]) (auto simp: writable_def)
  then show ?thesis using True f assms by (auto simp: wr_room_def same_marks_def writable_def)
next
  case False
  then show ?thesis using assms by (simp add: wr_room_def streams_refl)
qed

lemma wr_loop_streams:
  "writable w \<Longrightarrow> \<exists>v. wr_loop w s = Some v \<and> streams w s v \<and> same_marks w v"
proof (induction "length s" arbitrary: w s rule: less_induct)
  case less
  show ?case
  proof (cases "s = []")
    case True
    then show ?thesis using less.prems by (simp add: wr_loop.simps streams_refl)
  next
    case False
    obtain v where v: "wr_room w = Some v" "streams w [] v" "same_marks w v" "length (w_buf v) < w_cap v"
      using wr_room_ready [OF less.prems] by blast
    define n where "n = w_cap v - length (w_buf v)"
    let ?u = "v\<lparr>w_buf := w_buf v @ take n s\<rparr>"
    have w: "wr_loop w s = wr_loop ?u (drop n s)"
      using False v(1) by (subst wr_loop.simps) (simp add: n_def Let_def)
    have "writable v" using v(2) by (simp add: streams_def)
    then have u: "streams v (take n s) ?u"
      using v(4) by (intro streamsI [of _ "[]"]) (auto simp: writable_def n_def)
    have "length (drop n s) < length s" using v(4) False by (cases s) (auto simp: n_def)
    moreover have "writable ?u" using u by (simp add: streams_def)
    ultimately obtain x where x: "wr_loop ?u (drop n s) = Some x" "streams ?u (drop n s) x" "same_marks ?u x"
      using less.hyps by blast
    have "streams w (take n s @ drop n s) x"
      using streams_trans [OF v(2) streams_trans [OF u x(2)]] by simp
    moreover have "same_marks w x" using v(3) x(3) by (simp add: same_marks_def)
    ultimately show ?thesis using w x(1) by simp
  qed
qed

lemma wr_streams: "writable w \<Longrightarrow> streams w s (wr w s)" and wr_marks: "writable w \<Longrightarrow> same_marks w (wr w s)"
  using wr_loop_streams [of w s] by (auto simp: wr_def)

lemma wr_writable: "writable w \<Longrightarrow> writable (wr w s)"
  using wr_streams [of w s] by (simp add: streams_def)

text \<open>With an empty chunk and a sink the loop of \<open>wr\<close> does not end.\<close>

lemma wr_stuck: "w_cap w = 0 \<Longrightarrow> w_sink w \<noteq> None \<Longrightarrow> s \<noteq> [] \<Longrightarrow> wr_loop w s = None"
proof -
  have "w_cap w = 0 \<longrightarrow> w_sink w \<noteq> None \<longrightarrow> s \<noteq> [] \<longrightarrow> False" if "wr_loop w s = Some v" for v
    using that
  proof (rule wr_loop.raw_induct [rotated])
    fix loop :: "'a cfg_json_w_t \<Rightarrow> u8 list \<Rightarrow> 'a cfg_json_w_t option" and w s v
    assume ih: "\<And>w s v. loop w s = Some v \<Longrightarrow> w_cap w = 0 \<longrightarrow> w_sink w \<noteq> None \<longrightarrow> s \<noteq> [] \<longrightarrow> False"
      and eq: "(if s = [] then Some w
        else case wr_room w of None \<Rightarrow> Some (w\<lparr>w_ovf := True\<rparr>)
          | Some w \<Rightarrow> let room = w_cap w - length (w_buf w)
             in loop (w\<lparr>w_buf := w_buf w @ take room s\<rparr>) (drop room s)) = Some v"
    show "w_cap w = 0 \<longrightarrow> w_sink w \<noteq> None \<longrightarrow> s \<noteq> [] \<longrightarrow> False"
      using eq ih by (auto simp: wr_room_def Let_def split: if_splits option.splits) fastforce+
  qed
  then show "w_cap w = 0 \<Longrightarrow> w_sink w \<noteq> None \<Longrightarrow> s \<noteq> [] \<Longrightarrow> wr_loop w s = None"
    by (cases "wr_loop w s") auto
qed

section \<open>Documents\<close>

datatype jdoc = J_null | J_bool bool | J_int u32 | J_f32 f32 | J_str "u8 list" | J_raw "u8 list"
  | J_obj "(u8 list \<times> jdoc) list" | J_arr "jdoc list"

text \<open>The calls of a writer's client, in its order.\<close>

fun write_doc :: "jdoc \<Rightarrow> 's cfg_json_w_t \<Rightarrow> 's cfg_json_w_t"
  and write_members :: "(u8 list \<times> jdoc) list \<Rightarrow> 's cfg_json_w_t \<Rightarrow> 's cfg_json_w_t"
  and write_elements :: "jdoc list \<Rightarrow> 's cfg_json_w_t \<Rightarrow> 's cfg_json_w_t" where
  "write_doc J_null w = cfg_json_w_null w"
| "write_doc (J_bool b) w = cfg_json_w_bool w b"
| "write_doc (J_int i) w = cfg_json_w_int w i"
| "write_doc (J_f32 v) w = cfg_json_w_f32 w v"
| "write_doc (J_str s) w = cfg_json_w_str w s"
| "write_doc (J_raw s) w = cfg_json_w_raw w s"
| "write_doc (J_obj ms) w = cfg_json_w_end (write_members ms (cfg_json_w_obj w))"
| "write_doc (J_arr ds) w = cfg_json_w_end (write_elements ds (cfg_json_w_arr w))"
| "write_members [] w = w"
| "write_members ((k, d) # ms) w = write_members ms (write_doc d (cfg_json_w_key w k))"
| "write_elements [] w = w"
| "write_elements (d # ds) w = write_elements ds (write_doc d w)"

definition quoted :: "u8 list \<Rightarrow> u8 list" where
  "quoted s = QUOTE # concat (map escape_chr (takeWhile (\<lambda>c. c \<noteq> 0) s)) @ [QUOTE]"

definition f32_item :: "f32 \<Rightarrow> u8 list" where
  "f32_item v = (if \<not> isfinite v then NULL_TXT else case f32_text v of None \<Rightarrow> NULL_TXT | Some b \<Rightarrow> b)"

definition joined :: "bool \<Rightarrow> u8 list list \<Rightarrow> u8 list" where
  "joined m ts = concat (map (\<lambda>(c, t). if c then COMMA # t else t) (zip (m # replicate (length ts) True) ts))"

lemma joined_simps [simp]: "joined m [] = []" "joined m (t # ts) = (if m then [COMMA] else []) @ t @ joined True ts"
  by (simp_all add: joined_def)

fun render :: "jdoc \<Rightarrow> u8 list" where
  "render J_null = NULL_TXT"
| "render (J_bool b) = (if b then TRUE_TXT else FALSE_TXT)"
| "render (J_int i) = int_text i"
| "render (J_f32 v) = f32_item v"
| "render (J_str s) = quoted s"
| "render (J_raw s) = s"
| "render (J_obj ms) = LBRACE # joined False (map (\<lambda>(k, d). quoted k @ COLON # render d) ms) @ [RBRACE]"
| "render (J_arr ds) = LBRACKET # joined False (map render ds) @ [RBRACKET]"

fun height :: "jdoc \<Rightarrow> nat" where
  "height (J_obj ms) = Suc (Max (insert 0 (set (map (\<lambda>(k, d). height d) ms))))"
| "height (J_arr ds) = Suc (Max (insert 0 (set (map height ds))))"
| "height _ = 0"

section \<open>One item\<close>

definition sep_text :: "'s cfg_json_w_t \<Rightarrow> u8 list" where
  "sep_text w = (if \<not> w_pending w \<and> 0 < w_depth w \<and> bit (w_comma w) (w_depth w - 1) then [COMMA] else [])"

text \<open>
  The item \<open>t\<close> was written at \<open>w\<close>: its level has yielded something, outer levels are as before.
\<close>

definition item :: "'s cfg_json_w_t \<Rightarrow> u8 list \<Rightarrow> 's cfg_json_w_t \<Rightarrow> bool" where
  "item w t v \<longleftrightarrow> streams w (sep_text w @ t) v \<and> w_depth v = w_depth w \<and> \<not> w_pending v \<and> w_ovf v = w_ovf w \<and>
     (\<forall>i<w_depth w. bit (w_isarr v) i = bit (w_isarr w) i) \<and>
     (\<forall>i<w_depth w. bit (w_comma v) i = (bit (w_comma w) i \<or> \<not> w_pending w \<and> i = w_depth w - 1))"

lemma comma_bit_bit: "0 < w_depth w \<Longrightarrow> w_depth w \<le> 32 \<Longrightarrow> bit (comma_bit w) i \<longleftrightarrow> i = w_depth w - 1"
  by (auto simp: comma_bit_def push_bit_of_1 bit_exp_iff)

lemma word_and_nonzero: "(x AND y \<noteq> (0 :: u32)) \<longleftrightarrow> (\<exists>i. bit x i \<and> bit y i)"
proof -
  have "x AND y = 0 \<longleftrightarrow> (\<forall>i. \<not> bit (x AND y) i)" by (metis bit_0_eq bot_apply bot_bool_def bit_word_eqI)
  then show ?thesis by (simp add: bit_and_iff)
qed

lemma comma_test: "0 < w_depth w \<Longrightarrow> w_depth w \<le> 32 \<Longrightarrow> x AND comma_bit w \<noteq> 0 \<longleftrightarrow> bit x (w_depth w - 1)"
  by (auto simp: word_and_nonzero comma_bit_bit)

lemma sep_item:
  assumes "writable w" "w_depth w \<le> 32"
  shows "item w [] (sep w)"
proof (cases "w_pending w")
  case True
  then show ?thesis using assms streams_refl [OF assms(1)]
    by (auto simp: item_def sep_def sep_text_def streams_def writable_def)
next
  case False
  show ?thesis
  proof (cases "0 < w_depth w \<and> \<not> bit (w_comma w) (w_depth w - 1)")
    case True
    then have s: "sep w = w\<lparr>w_comma := w_comma w OR comma_bit w\<rparr>" using False assms(2) comma_test [of w "w_comma w"] by (auto simp: sep_def)
    show ?thesis using True False assms streams_refl [OF assms(1)] unfolding s
      by (auto simp: item_def sep_text_def streams_def writable_def bit_or_iff comma_bit_bit)
  next
    case no: False
    show ?thesis
    proof (cases "0 < w_depth w")
      case True
      then have s: "sep w = wr w [COMMA]" using no False assms(2) comma_test [of w "w_comma w"] by (simp add: sep_def)
      show ?thesis using True no False wr_streams [OF assms(1)] wr_marks [OF assms(1)] unfolding s
        by (auto simp: item_def sep_text_def same_marks_def)
    next
      case False
      then show ?thesis using \<open>\<not> w_pending w\<close> streams_refl [OF assms(1)] by (simp add: item_def sep_def sep_text_def)
    qed
  qed
qed

lemma item_writable: "item w t v \<Longrightarrow> writable v"
  by (simp add: item_def streams_def)

lemma item_wr: "item w s v \<Longrightarrow> item w (s @ t) (wr v t)"
  using wr_streams [OF item_writable, of w s v t] wr_marks [OF item_writable, of w s v t]
    streams_trans [of w "sep_text w @ s" v t "wr v t"]
  by (simp add: item_def same_marks_def)

lemma item_text: "writable w \<Longrightarrow> w_depth w \<le> 32 \<Longrightarrow> item w t (wr (sep w) t)"
  using item_wr [OF sep_item, of w t] by simp

lemma quoted_item: "item w s v \<Longrightarrow> item w (s @ quoted q) (wr_quoted v q)"
proof -
  assume "item w s v"
  then have "item w (s @ [QUOTE]) (wr v [QUOTE])" by (rule item_wr)
  then have "item w ((s @ [QUOTE]) @ concat (map escape_chr cs)) (foldl (\<lambda>w c. wr w (escape_chr c)) (wr v [QUOTE]) cs)" for cs
  proof (induction cs rule: rev_induct)
    case (snoc c cs)
    then show ?case using item_wr [OF snoc.IH [OF snoc.prems], of "escape_chr c"] by simp
  qed simp
  then have "item w (((s @ [QUOTE]) @ concat (map escape_chr (takeWhile (\<lambda>c. c \<noteq> 0) q))) @ [QUOTE]) (wr_quoted v q)"
    unfolding wr_quoted_def by (rule item_wr)
  then show ?thesis by (simp add: quoted_def)
qed

section \<open>Containers\<close>

text \<open>The items \<open>ts\<close> were written inside the innermost open container.\<close>

definition inner :: "'s cfg_json_w_t \<Rightarrow> u8 list list \<Rightarrow> 's cfg_json_w_t \<Rightarrow> bool" where
  "inner w ts v \<longleftrightarrow> streams w (joined (bit (w_comma w) (w_depth w - 1)) ts) v \<and> w_depth v = w_depth w \<and> \<not> w_pending v \<and>
     w_ovf v = w_ovf w \<and> (\<forall>i<w_depth w. bit (w_isarr v) i = bit (w_isarr w) i) \<and>
     (\<forall>i<w_depth w - 1. bit (w_comma v) i = bit (w_comma w) i)"

lemma inner_Nil: "writable w \<Longrightarrow> \<not> w_pending w \<Longrightarrow> inner w [] w"
  by (simp add: inner_def streams_refl)

lemma inner_Cons:
  assumes "\<not> w_pending w" "0 < w_depth w" "item w t v" "inner v ts u"
  shows "inner w (t # ts) u"
proof -
  have "bit (w_comma v) (w_depth v - 1)" using assms by (simp add: item_def)
  then have "streams v (joined True ts) u" using assms(4) by (simp add: inner_def)
  moreover have "streams w ((if bit (w_comma w) (w_depth w - 1) then [COMMA] else []) @ t) v"
    using assms(1-3) by (simp add: item_def sep_text_def)
  ultimately have "streams w (joined (bit (w_comma w) (w_depth w - 1)) (t # ts)) u"
    using streams_trans [of w _ v] by fastforce
  then show ?thesis using assms unfolding inner_def item_def by auto
qed

lemma item_key: "item w t v \<Longrightarrow> item (v\<lparr>w_pending := True\<rparr>) s u \<Longrightarrow> item w (t @ s) u"
proof -
  assume a: "item w t v" "item (v\<lparr>w_pending := True\<rparr>) s u"
  then have "streams v s u" unfolding item_def sep_text_def streams_def by simp
  then have "streams w ((sep_text w @ t) @ s) u" using a(1) streams_trans unfolding item_def by blast
  then show ?thesis using a by (simp add: item_def)
qed

lemma member_item: "writable w \<Longrightarrow> w_depth w \<le> 32 \<Longrightarrow> item (cfg_json_w_key w k) s u \<Longrightarrow> item w (quoted k @ COLON # s) u"
proof -
  assume w: "writable w" "w_depth w \<le> 32" and u: "item (cfg_json_w_key w k) s u"
  have "item w (quoted k) (wr_quoted (sep w) k)" using quoted_item [OF sep_item [OF w]] by simp
  then have "item w (quoted k @ [COLON]) (wr (wr_quoted (sep w) k) [COLON])" by (rule item_wr)
  then have "item w ((quoted k @ [COLON]) @ s) u" using u unfolding cfg_json_w_key_def by (rule item_key)
  then show ?thesis by simp
qed

lemma key_state:
  assumes "writable w" "w_depth w \<le> 32"
  shows "writable (cfg_json_w_key w k)" "w_depth (cfg_json_w_key w k) = w_depth w"
proof -
  have "item w (quoted k) (wr_quoted (sep w) k)" using quoted_item [OF sep_item [OF assms]] by simp
  then have "item w (quoted k @ [COLON]) (wr (wr_quoted (sep w) k) [COLON])" by (rule item_wr)
  then show "writable (cfg_json_w_key w k)" "w_depth (cfg_json_w_key w k) = w_depth w"
    by (auto simp: cfg_json_w_key_def item_def dest: streams_writable)
qed

text \<open>What opening a container leaves for its first item.\<close>

lemma container_open_state:
  fixes c :: u8 and arr :: bool
  assumes "writable w" "w_depth w < 32"
  defines "v \<equiv> container_open w c arr"
  shows "writable v" "w_depth v = w_depth w + 1" "\<not> w_pending v" "\<not> bit (w_comma v) (w_depth w)"
    "bit (w_isarr v) (w_depth w) = arr" "\<exists>x. item w [c] x \<and> streams x [] v \<and> w_ovf v = w_ovf x \<and>
       (\<forall>i<w_depth w. bit (w_comma v) i = bit (w_comma x) i \<and> bit (w_isarr v) i = bit (w_isarr x) i)"
proof -
  define x where "x = wr (sep w) [c]"
  have x: "item w [c] x" unfolding x_def using assms by (intro item_text) simp_all
  then have d: "w_depth x = w_depth w" "writable x" "\<not> w_pending x" by (simp_all add: item_def streams_def)
  let ?y = "x\<lparr>w_depth := w_depth x + 1\<rparr>"
  have b: "bit (comma_bit ?y) i \<longleftrightarrow> i = w_depth w" for i
    using comma_bit_bit [of ?y i] d(1) assms(2) by simp
  have cb: "comma_bit (?y\<lparr>w_comma := z\<rparr>) = comma_bit ?y" for z by (simp add: comma_bit_def)
  have v: "v = ?y\<lparr>w_comma := w_comma x AND NOT (comma_bit ?y),
      w_isarr := (if arr then w_isarr x OR comma_bit ?y else w_isarr x AND NOT (comma_bit ?y))\<rparr>"
    using assms(2) d(1) cb by (simp add: v_def container_open_def x_def [symmetric] Let_def)
  have n: "w_depth w < 32" by (rule assms(2))
  show "writable v" "w_depth v = w_depth w + 1" "\<not> w_pending v" using d by (simp_all add: v writable_def)
  show "\<not> bit (w_comma v) (w_depth w)" "bit (w_isarr v) (w_depth w) = arr"
    using b n by (simp_all add: v bit_and_iff bit_or_iff bit_not_iff)
  have "streams x [] v" using streams_refl [OF d(2)] by (simp add: v streams_def writable_def)
  moreover have "bit (w_comma v) i = bit (w_comma x) i \<and> bit (w_isarr v) i = bit (w_isarr x) i" if "i < w_depth w" for i
    using b n that by (simp add: v bit_and_iff bit_or_iff bit_not_iff)
  ultimately show "\<exists>x. item w [c] x \<and> streams x [] v \<and> w_ovf v = w_ovf x \<and>
      (\<forall>i<w_depth w. bit (w_comma v) i = bit (w_comma x) i \<and> bit (w_isarr v) i = bit (w_isarr x) i)"
    using x by (intro exI [of _ x]) (simp add: v)
qed

lemma container_item:
  assumes w: "writable w" "w_depth w < 32"
    and u: "inner (container_open w c arr) ts u"
  shows "item w (c # joined False ts @ [if arr then RBRACKET else RBRACE]) (cfg_json_w_end u)"
proof -
  let ?v = "container_open w c arr"
  note v = container_open_state [OF w, of c arr]
  obtain x where x: "item w [c] x" "streams x [] ?v" "w_ovf ?v = w_ovf x"
      "\<forall>i<w_depth w. bit (w_comma ?v) i = bit (w_comma x) i \<and> bit (w_isarr ?v) i = bit (w_isarr x) i"
    using v(6) by blast
  have s: "streams ?v (joined False ts) u" using u v(2,4) by (simp add: inner_def)
  have du: "w_depth u = w_depth w + 1" using u v(2) by (simp add: inner_def)
  have "bit (w_isarr u) (w_depth w) = arr" using u v(2,5) by (simp add: inner_def)
  then have a: "w_isarr u AND comma_bit u \<noteq> 0 \<longleftrightarrow> arr" using comma_test [of u "w_isarr u"] du w(2) by simp
  let ?close = "[if arr then RBRACKET else RBRACE]"
  have wu: "writable u" using s by (simp add: streams_def)
  have e: "cfg_json_w_end u = (wr u ?close)\<lparr>w_depth := w_depth w, w_pending := False\<rparr>"
    using du a wr_marks [OF wu, of ?close] by (simp add: cfg_json_w_end_def same_marks_def)
  have "streams x ([] @ joined False ts @ ?close) (wr u ?close)"
    by (rule streams_trans [OF x(2) streams_trans [OF s wr_streams [OF wu]]])
  then have "streams w ((sep_text w @ [c]) @ [] @ joined False ts @ ?close) (wr u ?close)"
    using x(1) streams_trans unfolding item_def by blast
  then have "streams w (sep_text w @ c # joined False ts @ ?close) (cfg_json_w_end u)"
    by (simp add: e)
  moreover have "w_comma (cfg_json_w_end u) = w_comma u" "w_isarr (cfg_json_w_end u) = w_isarr u" "w_ovf (cfg_json_w_end u) = w_ovf u"
    using wr_marks [OF wu, of ?close] by (simp_all add: e same_marks_def)
  ultimately show ?thesis
    using x(1,3,4) u v(2) unfolding item_def inner_def by (simp add: e)
qed

lemma f32_call: "cfg_json_w_f32 w v = wr (sep w) (f32_item v)"
  by (simp add: cfg_json_w_f32_def f32_item_def cfg_json_w_null_def split: option.splits)

lemma height_member: "(k, d) \<in> set ms \<Longrightarrow> height d < height (J_obj ms)"
  and height_element: "d \<in> set ds \<Longrightarrow> height d < height (J_arr ds)"
  by (force simp: less_Suc_eq_le intro: Max_ge)+

lemma write_doc_item:
  "writable w \<Longrightarrow> w_depth w + height d \<le> 32 \<Longrightarrow> item w (render d) (write_doc d w)"
  "writable w \<Longrightarrow> 0 < w_depth w \<Longrightarrow> \<not> w_pending w \<Longrightarrow> (\<And>k d. (k, d) \<in> set ms \<Longrightarrow> w_depth w + height d \<le> 32) \<Longrightarrow>
    inner w (map (\<lambda>(k, d). quoted k @ COLON # render d) ms) (write_members ms w)"
  "writable w \<Longrightarrow> 0 < w_depth w \<Longrightarrow> \<not> w_pending w \<Longrightarrow> (\<And>d. d \<in> set ds \<Longrightarrow> w_depth w + height d \<le> 32) \<Longrightarrow>
    inner w (map render ds) (write_elements ds w)"
proof (induction d w and ms w and ds w rule: write_doc_write_members_write_elements.induct)
  case (7 ms w)
  note st = container_open_state [OF 7(2), of LBRACE False]
  have d: "w_depth w < 32" using 7(3) by simp
  have "inner (cfg_json_w_obj w) (map (\<lambda>(k, d). quoted k @ COLON # render d) ms) (write_members ms (cfg_json_w_obj w))"
  proof (rule 7(1))
    show "writable (cfg_json_w_obj w)" "0 < w_depth (cfg_json_w_obj w)" "\<not> w_pending (cfg_json_w_obj w)"
      using st [OF d] by (simp_all add: cfg_json_w_obj_def)
    fix k d' assume "(k, d') \<in> set ms"
    then show "w_depth (cfg_json_w_obj w) + height d' \<le> 32"
      using st(2) [OF d] 7(3) height_member [of k d' ms] by (simp add: cfg_json_w_obj_def del: height.simps)
  qed
  then show ?case using container_item [OF 7(2) d, of LBRACE False] by (simp add: cfg_json_w_obj_def)
next
  case (8 ds w)
  note st = container_open_state [OF 8(2), of LBRACKET True]
  have d: "w_depth w < 32" using 8(3) by simp
  have "inner (cfg_json_w_arr w) (map render ds) (write_elements ds (cfg_json_w_arr w))"
  proof (rule 8(1))
    show "writable (cfg_json_w_arr w)" "0 < w_depth (cfg_json_w_arr w)" "\<not> w_pending (cfg_json_w_arr w)"
      using st [OF d] by (simp_all add: cfg_json_w_arr_def)
    fix d' assume "d' \<in> set ds"
    then show "w_depth (cfg_json_w_arr w) + height d' \<le> 32"
      using st(2) [OF d] 8(3) height_element [of d' ds] by (simp add: cfg_json_w_arr_def del: height.simps)
  qed
  then show ?case using container_item [OF 8(2) d, of LBRACKET True] by (simp add: cfg_json_w_arr_def)
next
  case (10 k d ms w)
  have dw: "w_depth w \<le> 32" using 10(6) [of k d] by simp
  let ?v = "write_doc d (cfg_json_w_key w k)"
  have "item (cfg_json_w_key w k) (render d) ?v"
    using key_state [OF 10(3) dw] 10(6) [of k d] by (intro 10(1)) simp_all
  then have i: "item w (quoted k @ COLON # render d) ?v" using member_item 10(3) dw by blast
  have "inner ?v (map (\<lambda>(k, d). quoted k @ COLON # render d) ms) (write_members ms ?v)"
    using i 10(4) 10(6) by (intro 10(2)) (auto simp: item_def streams_def)
  then show ?case using inner_Cons [OF 10(5,4) i] by simp
next
  case (12 d ds w)
  let ?v = "write_doc d w"
  have i: "item w (render d) ?v" using 12(3,6) by (intro 12(1)) simp_all
  have "inner ?v (map render ds) (write_elements ds ?v)"
    using i 12(4) 12(6) by (intro 12(2)) (auto simp: item_def streams_def)
  then show ?case using inner_Cons [OF 12(5,4) i] by simp
qed (simp_all add: item_text cfg_json_w_null_def cfg_json_w_bool_def cfg_json_w_int_def f32_call cfg_json_w_raw_def
    cfg_json_w_str_def inner_Nil quoted_item [of _ "[]" "sep _", simplified] sep_item)

end
