(* ===== verification/Json_Decimal.thy ===== *)
theory Json_Decimal
  imports Json_Writer Float_Facts
begin

text \<open>
  How exact the decimal conversions of \<open>control/Src/config_json.c\<close> are. Each operation on doubles errs by
  at most \<open>eps\<close>, relatively; the conversions use at most sixty of them. The estimate of the decimal
  exponent ends and is at most one too large or too small, and the digits \<open>cfg_json_fmt_g\<close> prints are within
  0.501 units of the exact decimal expansion of a positive float.
\<close>

section \<open>Relative error\<close>

definition eps :: rat where
  "eps = 1 / 2 ^ 52"

lemma eps_bounds: "0 < eps" "eps < 1"
  by (simp_all add: eps_def)

text \<open>\<open>y\<close> is \<open>z\<close> after \<open>n\<close> roundings.\<close>

definition near :: "nat \<Rightarrow> rat \<Rightarrow> rat \<Rightarrow> bool" where
  "near n y z \<longleftrightarrow> (1 - eps) ^ n * z \<le> y \<and> y \<le> (1 + eps) ^ n * z"

lemma near_refl [simp]: "near 0 z z"
  by (simp add: near_def)

lemma near_trans: "near m y z \<Longrightarrow> near n x y \<Longrightarrow> near (m + n) x z"
proof -
  assume a: "near m y z" "near n x y"
  have "(1 - eps) ^ n * ((1 - eps) ^ m * z) \<le> (1 - eps) ^ n * y" "(1 + eps) ^ n * y \<le> (1 + eps) ^ n * ((1 + eps) ^ m * z)"
    using a(1) eps_bounds by (auto simp: near_def intro!: mult_left_mono)
  then show ?thesis using a(2) by (simp add: near_def power_add mult_ac)
qed

lemma near_scale: "0 \<le> c \<Longrightarrow> near n y z \<Longrightarrow> near n (y * c) (z * c)"
  unfolding near_def using mult_right_mono [of _ _ c] by (simp add: mult.assoc [symmetric])

lemma near_weaken: "near m y z \<Longrightarrow> m \<le> n \<Longrightarrow> 0 \<le> z \<Longrightarrow> near n y z"
proof -
  assume a: "near m y z" "m \<le> n" "0 \<le> z"
  have "(1 - eps) ^ n \<le> (1 - eps) ^ m" "(1 + eps) ^ m \<le> (1 + eps) ^ n"
    using a(2) eps_bounds by (auto intro!: power_decreasing power_increasing)
  then have "(1 - eps) ^ n * z \<le> (1 - eps) ^ m * z" "(1 + eps) ^ m * z \<le> (1 + eps) ^ n * z"
    using a(3) by (auto intro: mult_right_mono)
  then show ?thesis using a(1) by (auto simp: near_def)
qed

lemma near_pos: "near n y z \<Longrightarrow> 0 < z \<Longrightarrow> 0 < y"
proof -
  assume a: "near n y z" "0 < z"
  have "0 < (1 - eps) ^ n * z" using a(2) eps_bounds by (intro mult_pos_pos zero_less_power) simp_all
  then show ?thesis using a(1) by (simp add: near_def)
qed

definition slack :: rat where
  "slack = 1 / 2 ^ 45"

lemma bernoulli: "0 \<le> e \<Longrightarrow> e \<le> 1 \<Longrightarrow> 1 - of_nat n * e \<le> (1 - e :: rat) ^ n"
proof (induction n)
  case (Suc n)
  have "1 - of_nat (Suc n) * e \<le> 1 - of_nat (Suc n) * e + of_nat n * (e * e)" by simp
  also have "\<dots> = (1 - of_nat n * e) * (1 - e)" by (simp add: algebra_simps)
  also have "\<dots> \<le> (1 - e) ^ n * (1 - e)" using Suc by (intro mult_right_mono) simp_all
  finally show ?case by (simp add: mult.commute)
qed simp

lemma slack_powers: "1 - slack \<le> (1 - eps) ^ 60" "(1 + eps) ^ 60 \<le> 1 + slack"
proof -
  have b: "1 - of_nat 60 * eps \<le> (1 - eps) ^ 60" using eps_bounds by (intro bernoulli) simp_all
  then show lo: "1 - slack \<le> (1 - eps) ^ 60" by (simp add: slack_def eps_def)
  have "(1 + eps) ^ 60 * (1 - of_nat 60 * eps) \<le> (1 + eps) ^ 60 * (1 - eps) ^ 60"
    using b eps_bounds by (intro mult_left_mono) simp_all
  also have "\<dots> = (1 - eps * eps) ^ 60" by (simp add: power_mult_distrib [symmetric] algebra_simps)
  also have "\<dots> \<le> 1" using eps_bounds by (intro power_le_one) (simp_all add: mult_le_one)
  finally have "(1 + eps) ^ 60 \<le> 1 / (1 - of_nat 60 * eps)" by (simp add: pos_le_divide_eq eps_def)
  also have "\<dots> \<le> 1 + slack" by (simp add: slack_def eps_def)
  finally show "(1 + eps) ^ 60 \<le> 1 + slack" .
qed

lemma near_slack: "near n y z \<Longrightarrow> n \<le> 60 \<Longrightarrow> 0 \<le> z \<Longrightarrow> (1 - slack) * z \<le> y \<and> y \<le> (1 + slack) * z"
proof -
  assume a: "near n y z" "n \<le> 60" "0 \<le> z"
  have "near 60 y z" by (rule near_weaken [OF a])
  moreover have "(1 - slack) * z \<le> (1 - eps) ^ 60 * z" "(1 + eps) ^ 60 * z \<le> (1 + slack) * z"
    using a(3) by (intro mult_right_mono slack_powers; simp)+
  ultimately show ?thesis unfolding near_def by linarith
qed

section \<open>Double operations on positive values\<close>

definition normal :: "rat \<Rightarrow> bool" where
  "normal z \<longleftrightarrow> 2 powi (-1000) \<le> z \<and> z \<le> 2 powi 1000"

lemma normal_pos: "normal z \<Longrightarrow> 0 < z"
  unfolding normal_def using powi2_pos [of "-1000"] by linarith

lemma round_normal:
  assumes "normal z"
  shows "near 1 (round_rat double_fmt z) z" "fp_round double_fmt s z = FpFin False (round_rat double_fmt z)"
proof -
  have z: "0 < z" using assms by (rule normal_pos)
  have "(2 :: rat) powi (-1075) = 2 powi (-75) * 2 powi (-1000)" by (subst power_int_add [symmetric]) simp_all
  also have "\<dots> \<le> 2 powi (-75) * z" using assms by (intro mult_left_mono) (simp_all add: normal_def)
  finally have "\<bar>round_rat double_fmt z - z\<bar> \<le> 2 powi (-53) * z + 2 powi (-75) * z"
    using round_double_error [of z] z by simp
  also have "\<dots> \<le> eps * z"
  proof -
    have "(2 powi (-53) + 2 powi (-75)) * z \<le> eps * z"
      using z by (intro mult_right_mono) (simp_all add: eps_def power_int_def power_divide)
    then show ?thesis by (simp add: algebra_simps)
  qed
  finally have e: "\<bar>round_rat double_fmt z - z\<bar> \<le> eps * z" .
  then show "near 1 (round_rat double_fmt z) z" by (simp add: near_def abs_le_iff algebra_simps)
  have "\<bar>round_rat double_fmt z\<bar> \<le> 2 * z" using e z eps_bounds mult_right_mono [of eps 1 z] by linarith
  also have "\<dots> \<le> 2 powi 1001" using assms powi2_Suc [of 1000] by (simp add: normal_def)
  also have "\<dots> < 2 powi (fmt_emax double_fmt + 1)" by (subst powi2_less_iff) (simp add: double_fmt_def)
  finally show "fp_round double_fmt s z = FpFin False (round_rat double_fmt z)"
    using z by (simp add: fp_round_def Let_def not_le)
qed

lemma round_normal_bounds:
  "normal z \<Longrightarrow> (1 - eps) * z \<le> round_rat double_fmt z" "normal z \<Longrightarrow> round_rat double_fmt z \<le> (1 + eps) * z"
  using round_normal(1) [of z] by (simp_all add: near_def)

lemma round_double_nat: "n < 2 ^ 53 \<Longrightarrow> round_rat double_fmt (of_nat n) = of_nat n"
proof -
  assume n: "n < 2 ^ 53"
  have "int n < int (2 ^ 53)" using n by (rule iffD2 [OF of_nat_less_iff])
  then have "representable double_fmt (of_nat n)" unfolding representable_def
    by (intro exI [of _ "int n"] exI [of _ 0]) (simp add: double_fmt_def)
  then show ?thesis by (intro round_rat_representable) (simp_all add: double_fmt_def)
qed

lemma POW10_eq: "POW10 n = FpFin False (10 ^ n)"
  by (simp add: POW10_def dnat_def)

lemma mul_POW10: "normal (y * 10 ^ n) \<Longrightarrow> fp_mul double_fmt (FpFin False y) (POW10 n) = FpFin False (round_rat double_fmt (y * 10 ^ n))"
  by (simp add: POW10_eq round_normal)

lemma div_POW10: "normal (y / 10 ^ n) \<Longrightarrow> fp_div double_fmt (FpFin False y) (POW10 n) = FpFin False (round_rat double_fmt (y / 10 ^ n))"
  by (simp add: POW10_eq round_normal)

lemma fp_cmp [simp]: "fp_le (FpFin s x) (FpFin t y) \<longleftrightarrow> x \<le> y" "fp_lt (FpFin s x) (FpFin t y) \<longleftrightarrow> x < y"
  by (auto simp: fp_le_def fp_lt_def)

section \<open>Scaling\<close>

definition p10 :: "int \<Rightarrow> rat" where
  "p10 n = 10 powi n"

lemma p10_pos [simp]: "0 < p10 n" and p10_nonneg [simp]: "0 \<le> p10 n"
  by (simp_all add: p10_def)

lemma p10_add: "p10 (m + n) = p10 m * p10 n"
  by (simp add: p10_def power_int_add)

lemma p10_nat: "p10 (int n) = 10 ^ n"
  by (simp add: p10_def)

lemma p10_neg: "p10 (- int n) = 1 / 10 ^ n"
  by (simp add: p10_def power_int_minus divide_simps)

lemma p10_mono: "m \<le> n \<Longrightarrow> p10 m \<le> p10 n"
  by (simp add: p10_def power_int_increasing)

text \<open>The exact value stays in a range that is safe from underflow and overflow, with room for the errors.\<close>

definition roomy :: "rat \<Rightarrow> bool" where
  "roomy z \<longleftrightarrow> p10 (-100) \<le> z \<and> z \<le> p10 100"

lemma roomy_normal:
  assumes "roomy z" "near n y z" "n \<le> 60"
  shows "normal y"
proof -
  have z: "0 \<le> z" using assms(1) p10_pos [of "-100"] unfolding roomy_def by linarith
  have s: "(1 - slack) * z \<le> y" "y \<le> (1 + slack) * z" using near_slack [OF assms(2,3) z] by simp_all
  have "2 powi (-1000) \<le> (1 - slack) * p10 (-100)" by (simp add: slack_def p10_def power_int_def power_divide)
  also have "\<dots> \<le> (1 - slack) * z" using assms(1) by (intro mult_left_mono) (simp_all add: roomy_def slack_def)
  finally have lo: "2 powi (-1000) \<le> y" using s by linarith
  have "(1 + slack) * z \<le> (1 + slack) * p10 100" using assms(1) by (intro mult_left_mono) (simp_all add: roomy_def slack_def)
  also have "\<dots> \<le> 2 powi 1000" by (simp add: slack_def p10_def power_int_def)
  finally have "y \<le> 2 powi 1000" using s by linarith
  then show ?thesis using lo by (simp add: normal_def)
qed

lemma roomy_between: "roomy a \<Longrightarrow> roomy b \<Longrightarrow> a \<le> z \<and> z \<le> b \<or> b \<le> z \<and> z \<le> a \<Longrightarrow> roomy z"
  by (auto simp: roomy_def)

lemma roomy_pos: "roomy z \<Longrightarrow> 0 < z"
  unfolding roomy_def using p10_pos [of "-100"] by linarith

text \<open>One multiplication or division by a power of ten.\<close>

lemma mul_step:
  assumes "near k y z" "roomy (z * p10 (int p))" "k \<le> 59"
  shows "\<exists>r. fp_mul double_fmt (FpFin False y) (POW10 p) = FpFin False r \<and> near (k + 1) r (z * p10 (int p)) \<and>
    r = round_rat double_fmt (y * 10 ^ p)"
proof -
  have n: "near k (y * 10 ^ p) (z * p10 (int p))" using near_scale [OF _ assms(1), of "10 ^ p"] by (simp add: p10_nat)
  then have "normal (y * 10 ^ p)" using roomy_normal [OF assms(2)] assms(3) by simp
  then show ?thesis using mul_POW10 near_trans [OF n round_normal(1)] by simp
qed

lemma div_step:
  assumes "near k y z" "roomy (z * p10 (- int p))" "k \<le> 59"
  shows "\<exists>r. fp_div double_fmt (FpFin False y) (POW10 p) = FpFin False r \<and> near (k + 1) r (z * p10 (- int p)) \<and>
    r = round_rat double_fmt (y / 10 ^ p)"
proof -
  have n: "near k (y / 10 ^ p) (z * p10 (- int p))" using near_scale [OF _ assms(1), of "1 / 10 ^ p"] by (simp add: p10_neg)
  then have "normal (y / 10 ^ p)" using roomy_normal [OF assms(2)] assms(3) by simp
  then show ?thesis using div_POW10 near_trans [OF n round_normal(1)] by simp
qed

lemma scale_pow10_near:
  "near k y z \<Longrightarrow> roomy z \<Longrightarrow> roomy (z * p10 n) \<Longrightarrow> k + nat \<bar>n\<bar> \<le> 60 \<Longrightarrow>
   \<exists>r. scale_pow10 (FpFin False y) n = FpFin False r \<and> near (k + nat \<bar>n\<bar>) r (z * p10 n)"
proof (induction "nat \<bar>n\<bar>" arbitrary: k y z n rule: less_induct)
  case less
  note z = roomy_pos [OF less.prems(2)]
  have between: "roomy (z * p10 i)" if "0 \<le> i \<and> i \<le> n \<or> n \<le> i \<and> i \<le> 0" for i
  proof (rule roomy_between [OF less.prems(2,3)])
    have "p10 0 \<le> p10 i \<and> p10 i \<le> p10 n \<or> p10 n \<le> p10 i \<and> p10 i \<le> p10 0" using that by (auto intro: p10_mono)
    then show "z \<le> z * p10 i \<and> z * p10 i \<le> z * p10 n \<or> z * p10 n \<le> z * p10 i \<and> z * p10 i \<le> z"
      using z mult_left_mono [of _ _ z] by (auto simp: p10_def)
  qed
  have weaken: "near (k + nat \<bar>n\<bar>) r (z * p10 n)" if "near m r (z * p10 n)" "m \<le> k + nat \<bar>n\<bar>" for m r
    using that z by (intro near_weaken [OF that]) simp
  consider "22 \<le> n" | "n \<le> -22" | "0 < n" "n < 22" | "-22 < n" "n < 0" | "n = 0" by linarith
  then show ?case
  proof cases
    case 1
    then obtain r where r: "fp_mul double_fmt (FpFin False y) (POW10 22) = FpFin False r" "near (k + 1) r (z * p10 22)"
      using mul_step [OF less.prems(1), of 22] between [of 22] less.prems(4) by auto
    have e: "z * p10 22 * p10 (n - 22) = z * p10 n" using p10_add [of 22 "n - 22"] by simp
    have "roomy (z * p10 22)" using between [of 22] 1 by simp
    then have "\<exists>q. scale_pow10 (FpFin False r) (n - 22) = FpFin False q \<and> near (k + 1 + nat \<bar>n - 22\<bar>) q (z * p10 n)"
      using less.hyps [OF _ r(2), of "n - 22"] 1 less.prems(3,4) unfolding e by simp
    then obtain q where q: "scale_pow10 (FpFin False r) (n - 22) = FpFin False q" "near (k + 1 + nat \<bar>n - 22\<bar>) q (z * p10 n)" by blast
    then show ?thesis using weaken [OF q(2)] 1 r(1) by (subst scale_pow10.simps) simp
  next
    case 2
    then obtain r where r: "fp_div double_fmt (FpFin False y) (POW10 22) = FpFin False r" "near (k + 1) r (z * p10 (- 22))"
      using div_step [OF less.prems(1), of 22] between [of "-22"] less.prems(4) by auto
    have e: "z * p10 (- 22) * p10 (n + 22) = z * p10 n" using p10_add [of "-22" "n + 22"] by simp
    have "roomy (z * p10 (- 22))" using between [of "-22"] 2 by simp
    then have "\<exists>q. scale_pow10 (FpFin False r) (n + 22) = FpFin False q \<and> near (k + 1 + nat \<bar>n + 22\<bar>) q (z * p10 n)"
      using less.hyps [OF _ r(2), of "n + 22"] 2 less.prems(3,4) unfolding e by simp
    then obtain q where q: "scale_pow10 (FpFin False r) (n + 22) = FpFin False q" "near (k + 1 + nat \<bar>n + 22\<bar>) q (z * p10 n)" by blast
    then show ?thesis using weaken [OF q(2)] 2 r(1) by (subst scale_pow10.simps) simp
  next
    case 3
    then obtain r where r: "fp_mul double_fmt (FpFin False y) (POW10 (nat n)) = FpFin False r" "near (k + 1) r (z * p10 n)"
      using mul_step [OF less.prems(1), of "nat n"] less.prems(3,4) by auto
    then show ?thesis using weaken [OF r(2)] 3 by (subst scale_pow10.simps) simp
  next
    case 4
    then obtain r where r: "fp_div double_fmt (FpFin False y) (POW10 (nat (- n))) = FpFin False r" "near (k + 1) r (z * p10 n)"
      using div_step [OF less.prems(1), of "nat (- n)"] less.prems(3,4) by auto
    then show ?thesis using weaken [OF r(2)] 4 by (subst scale_pow10.simps) simp
  next
    case 5
    then show ?thesis using less.prems by (subst scale_pow10.simps) (simp add: p10_def)
  qed
qed

section \<open>The estimate of the exponent\<close>

lemma scale_while_exit: "\<not> again t \<Longrightarrow> scale_while again scale k (t, e) = Some (t, e)"
  by (simp add: scale_while_def while_option_unfold)

lemma scale_while_ends:
  assumes "P t e" and step: "\<And>t e. P t e \<Longrightarrow> again t \<Longrightarrow> P (scale t) (e + k) \<and> m (scale t) < (m t :: nat)"
  shows "\<exists>t' e'. scale_while again scale k (t, e) = Some (t', e') \<and> P t' e' \<and> \<not> again t'"
proof -
  let ?b = "\<lambda>(t, e). again t" and ?c = "\<lambda>(t, e). (scale t, e + k)"
  have "\<exists>s. while_option ?b ?c (t, e) = Some s"
    by (rule measure_while_option_Some [where P = "\<lambda>(t, e). P t e" and f = "\<lambda>(t, e). m t"])
      (use step assms(1) in auto)
  then obtain t' e' where w: "while_option ?b ?c (t, e) = Some (t', e')" by auto
  moreover have "(\<lambda>(t, e). P t e) (t', e')"
    by (rule while_option_rule [OF _ w]) (use step assms(1) in auto)
  ultimately show ?thesis using while_option_stop [OF w] by (auto simp: scale_while_def)
qed

lemma floor_half: "10 \<le> y \<Longrightarrow> z \<le> y / 2 \<Longrightarrow> nat \<lfloor>z\<rfloor> < nat \<lfloor>y :: rat\<rfloor>"
proof -
  assume a: "10 \<le> y" "z \<le> y / 2"
  have "of_int \<lfloor>z\<rfloor> \<le> z" "y - 1 < of_int \<lfloor>y\<rfloor>" by linarith+
  then have "(of_int \<lfloor>z\<rfloor> :: rat) < of_int \<lfloor>y\<rfloor>" using a by linarith
  moreover have "10 \<le> \<lfloor>y\<rfloor>" using a(1) by (simp add: le_floor_iff)
  ultimately show ?thesis by simp
qed

lemma floor_inverse: "0 < y \<Longrightarrow> y < 1 \<Longrightarrow> 2 * y \<le> z \<Longrightarrow> nat \<lfloor>1 / z\<rfloor> < nat \<lfloor>1 / y :: rat\<rfloor>"
proof -
  assume a: "0 < y" "y < 1" "2 * y \<le> z"
  have z: "1 / z \<le> 1 / (2 * y)" using a by (intro divide_left_mono) auto
  have y: "1 < 1 / y" using a by simp
  have f: "\<lfloor>1 / z\<rfloor> \<le> \<lfloor>1 / (2 * y)\<rfloor>" by (rule floor_mono [OF z])
  have "\<lfloor>1 / (2 * y)\<rfloor> < \<lfloor>1 / y\<rfloor>"
  proof (cases "2 \<le> 1 / y")
    case True
    have "1 / (2 * y) = 1 / y / 2" by simp
    then have "of_int \<lfloor>1 / (2 * y)\<rfloor> \<le> 1 / y / 2" by (metis of_int_floor_le)
    moreover have "1 / y - 1 < of_int \<lfloor>1 / y\<rfloor>" by linarith
    ultimately have "(of_int \<lfloor>1 / (2 * y)\<rfloor> :: rat) < of_int \<lfloor>1 / y\<rfloor>" using True by linarith
    then show ?thesis by simp
  next
    case False
    then have "1 / (2 * y) < 1" by (simp add: field_simps)
    then have "\<lfloor>1 / (2 * y)\<rfloor> < 1" by (simp add: floor_less_iff)
    moreover have "1 \<le> \<lfloor>1 / y\<rfloor>" using y by (simp add: le_floor_iff)
    ultimately show ?thesis by linarith
  qed
  then have "\<lfloor>1 / z\<rfloor> < \<lfloor>1 / y\<rfloor>" using f by (rule order_le_less_trans [rotated])
  moreover have "1 \<le> \<lfloor>1 / y\<rfloor>" using y by (simp add: le_floor_iff)
  ultimately show ?thesis by (simp add: zless_nat_conj)
qed

definition fp_val :: "fp \<Rightarrow> rat" where
  "fp_val t = snd (fp_key t)"

definition down_inv :: "rat \<Rightarrow> fp \<Rightarrow> int \<Rightarrow> bool" where
  "down_inv x t e \<longleftrightarrow> (\<exists>y. t = FpFin False y \<and> 1 \<le> y \<and> 0 \<le> e \<and> e < 40 \<and> near (nat e) y (x * p10 (- e)))"

lemma down_step:
  assumes x: "1 \<le> x" "x \<le> p10 39" and p: "1 \<le> p" "p \<le> 22" and inv: "down_inv x t e" and again: "fp_le (POW10 p) t"
  defines "t' \<equiv> fp_div double_fmt t (POW10 p)"
  shows "down_inv x t' (e + int p) \<and> nat \<lfloor>fp_val t'\<rfloor> < nat \<lfloor>fp_val t\<rfloor>"
proof -
  obtain y where y: "t = FpFin False y" "0 \<le> e" "e < 40" "near (nat e) y (x * p10 (- e))"
    using inv by (auto simp: down_inv_def)
  have yp: "10 ^ p \<le> y" using again by (simp add: y(1) POW10_eq)
  have p10: "(10 :: rat) \<le> 10 ^ p" using power_increasing [OF p(1), of "10 :: rat"] by simp
  have e': "x * p10 (- e) * p10 (- int p) = x * p10 (- (e + int p))" using p10_add [of "- e" "- int p"] by simp
  have "p10 (-100) \<le> 1 * p10 (- (e + int p))" using y(3) p(2) by (simp add: p10_mono)
  also have "\<dots> \<le> x * p10 (- (e + int p))" using x(1) by (intro mult_right_mono) simp_all
  finally have lo: "p10 (-100) \<le> x * p10 (- (e + int p))" .
  have "x * p10 (- (e + int p)) \<le> p10 39 * p10 0" using x y(2) by (intro mult_mono p10_mono) simp_all
  also have "\<dots> \<le> p10 100" by (simp add: p10_add [symmetric] p10_mono)
  finally have roomy: "roomy (x * p10 (- e) * p10 (- int p))" using lo by (simp add: roomy_def e')
  obtain r where r: "t' = FpFin False r" "near (nat e + 1) r (x * p10 (- (e + int p)))" "r = round_rat double_fmt (y / 10 ^ p)"
    using div_step [OF y(4) roomy] y(3) unfolding t'_def y(1) e' by auto
  have ge: "1 \<le> y / 10 ^ p" using yp p10 by (simp add: pos_le_divide_eq)
  then have r1: "1 \<le> r" unfolding r(3) using round_double_nat [of 1] by (intro r64.fixed_le) simp_all
  have xp: "0 \<le> x * p10 (- (e + int p))" using x(1) by simp
  have e40: "e + int p < 40"
  proof (rule ccontr)
    assume "\<not> e + int p < 40"
    then have "p10 (- (e + int p)) \<le> p10 (- 40)" by (intro p10_mono) simp
    then have "x * p10 (- (e + int p)) \<le> p10 39 * p10 (- 40)" using x by (intro mult_mono) simp_all
    also have "\<dots> = p10 (- 1)" by (simp add: p10_add [symmetric])
    finally have "(1 + slack) * (x * p10 (- (e + int p))) \<le> (1 + slack) * p10 (- 1)" by (intro mult_left_mono) (simp_all add: slack_def)
    moreover have "(1 + slack) * p10 (- 1) < 1" by (simp add: slack_def p10_def)
    moreover have "r \<le> (1 + slack) * (x * p10 (- (e + int p)))" using near_slack [OF r(2)] y(3) xp by simp
    ultimately show False using r1 by linarith
  qed
  have "near (nat (e + int p)) r (x * p10 (- (e + int p)))"
    using near_weaken [OF r(2), of "nat (e + int p)"] p(1) y(2) xp by (simp add: nat_add_distrib)
  then have inv': "down_inv x t' (e + int p)" using r(1) r1 y(2) e40 by (simp add: down_inv_def)
  have "y / 10 ^ p \<le> y / 10" using p10 yp by (intro divide_left_mono) simp_all
  moreover have "normal (y / 10 ^ p)"
  proof -
    have "near (nat e) (y / 10 ^ p) (x * p10 (- (e + int p)))" using near_scale [OF _ y(4), of "1 / 10 ^ p"] e' by (simp add: p10_neg)
    then show ?thesis using roomy_normal [OF roomy [unfolded e']] y(3) by simp
  qed
  then have "r \<le> (1 + eps) * (y / 10 ^ p)" unfolding r(3) by (rule round_normal_bounds)
  moreover have "(1 + eps) * (y / 10 ^ p) \<le> (1 + eps) * (y / 10)" using calculation(1) eps_bounds by (intro mult_left_mono) simp_all
  moreover have "(1 + eps) * (y / 10) \<le> y / 2" using yp p10 by (simp add: eps_def)
  ultimately have "r \<le> y / 2" by linarith
  then show ?thesis using inv' floor_half [of y r] yp p10 r(1) y(1) by (simp add: fp_val_def)
qed

definition up_inv :: "rat \<Rightarrow> fp \<Rightarrow> int \<Rightarrow> bool" where
  "up_inv x t e \<longleftrightarrow> (\<exists>y. t = FpFin False y \<and> y \<le> 11 \<and> e \<le> 0 \<and> - 48 < e \<and> near (nat (- e)) y (x * p10 (- e)))"

lemma up_step:
  assumes x: "p10 (- 45) \<le> x" "x \<le> 1" and p: "1 \<le> p" "p \<le> 22" and inv: "up_inv x t e"
    and again: "fp_lt t (FpFin False l)" and l: "l \<le> 1" "l * 10 ^ p \<le> 21 / 2"
  defines "t' \<equiv> fp_mul double_fmt t (POW10 p)"
  shows "up_inv x t' (e - int p) \<and> nat \<lfloor>1 / fp_val t'\<rfloor> < nat \<lfloor>1 / fp_val t\<rfloor>"
proof -
  obtain y where y: "t = FpFin False y" "e \<le> 0" "- 48 < e" "near (nat (- e)) y (x * p10 (- e))"
    using inv by (auto simp: up_inv_def)
  have x0: "0 < x" using x(1) p10_pos [of "-45"] by linarith
  have y0: "0 < y" using near_pos [OF y(4)] x0 by simp
  have yl: "y < l" using again by (simp add: y(1))
  have p10: "(10 :: rat) \<le> 10 ^ p" using power_increasing [OF p(1), of "10 :: rat"] by simp
  have e': "x * p10 (- e) * p10 (int p) = x * p10 (- (e - int p))" using p10_add [of "- e" "int p"] by simp
  have "p10 (-100) \<le> p10 (- 45) * p10 0" by (simp add: p10_add [symmetric] p10_mono)
  also have "\<dots> \<le> x * p10 (- (e - int p))" using x x0 y(2) by (intro mult_mono p10_mono) simp_all
  finally have lo: "p10 (-100) \<le> x * p10 (- (e - int p))" .
  have "x * p10 (- (e - int p)) \<le> 1 * p10 100" using x y(3) p(2) by (intro mult_mono p10_mono) simp_all
  then have roomy: "roomy (x * p10 (- e) * p10 (int p))" using lo by (simp add: roomy_def e')
  obtain r where r: "t' = FpFin False r" "near (nat (- e) + 1) r (x * p10 (- (e - int p)))" "r = round_rat double_fmt (y * 10 ^ p)"
    using mul_step [OF y(4) roomy] y(3) unfolding t'_def y(1) e' by auto
  have "normal (y * 10 ^ p)"
  proof -
    have "near (nat (- e)) (y * 10 ^ p) (x * p10 (- (e - int p)))" using near_scale [OF _ y(4), of "10 ^ p"] e' unfolding p10_nat by simp
    then show ?thesis using roomy_normal [OF roomy [unfolded e']] y(3) by simp
  qed
  then have b: "(1 - eps) * (y * 10 ^ p) \<le> r" "r \<le> (1 + eps) * (y * 10 ^ p)" unfolding r(3) by (rule round_normal_bounds)+
  have "y * 10 ^ p \<le> l * 10 ^ p" using yl by (intro mult_right_mono) simp_all
  then have "y * 10 ^ p \<le> 21 / 2" using l(2) by linarith
  then have "(1 + eps) * (y * 10 ^ p) \<le> (1 + eps) * (21 / 2)" using eps_bounds by (intro mult_left_mono) simp_all
  then have r11: "r \<le> 11" using b(2) by (simp add: eps_def)
  have xp: "0 \<le> x * p10 (- (e - int p))" using x0 by simp
  have e48: "- 48 < e - int p"
  proof (rule ccontr)
    assume "\<not> - 48 < e - int p"
    then have "p10 48 \<le> p10 (- (e - int p))" by (intro p10_mono) simp
    then have "p10 (- 45) * p10 48 \<le> x * p10 (- (e - int p))" using x x0 by (intro mult_mono) simp_all
    then have "p10 3 \<le> x * p10 (- (e - int p))" by (simp add: p10_add [symmetric])
    then have "(1 - slack) * p10 3 \<le> (1 - slack) * (x * p10 (- (e - int p)))" by (intro mult_left_mono) (simp_all add: slack_def)
    moreover have "11 < (1 - slack) * p10 3" by (simp add: slack_def p10_def)
    moreover have "(1 - slack) * (x * p10 (- (e - int p))) \<le> r" using near_slack [OF r(2)] y(3) xp by simp
    ultimately show False using r11 by linarith
  qed
  have "near (nat (- (e - int p))) r (x * p10 (- (e - int p)))"
    using near_weaken [OF r(2), of "nat (- (e - int p))"] p(1) y(2) xp by simp
  then have inv': "up_inv x t' (e - int p)" using r(1) r11 y(2) e48 by (simp add: up_inv_def)
  have "y * 10 \<le> y * 10 ^ p" using p10 y0 by (intro mult_left_mono) simp_all
  then have "(1 - eps) * (y * 10) \<le> (1 - eps) * (y * 10 ^ p)" by (rule mult_left_mono) (use eps_bounds in simp)
  moreover have "2 * y \<le> (1 - eps) * (y * 10)" using y0 by (simp add: eps_def)
  ultimately have "2 * y \<le> r" using b(1) by linarith
  then show ?thesis using inv' floor_inverse [of y r] y0 yl l(1) r(1) y(1) by (simp add: fp_val_def)
qed

lemma normal_small: "normal (1 / 10 ^ 21)"
  by (simp add: normal_def power_int_def power_divide)

lemma tiny_limit: "fp_round double_fmt False (1 / 10 ^ 21) = FpFin False (round_rat double_fmt (1 / 10 ^ 21))"
  "round_rat double_fmt (1 / 10 ^ 21) \<le> 1" "round_rat double_fmt (1 / 10 ^ 21) * 10 ^ 22 \<le> 21 / 2"
proof -
  have b: "round_rat double_fmt (1 / 10 ^ 21) \<le> (1 + eps) * (1 / 10 ^ 21)" by (rule round_normal_bounds [OF normal_small])
  show "fp_round double_fmt False (1 / 10 ^ 21) = FpFin False (round_rat double_fmt (1 / 10 ^ 21))"
    by (rule round_normal(2) [OF normal_small])
  have "(1 + eps) * (1 / 10 ^ 21) \<le> 1" by (simp add: eps_def)
  with b show "round_rat double_fmt (1 / 10 ^ 21) \<le> 1" by linarith
  have "round_rat double_fmt (1 / 10 ^ 21) * 10 ^ 22 \<le> (1 + eps) * (1 / 10 ^ 21) * 10 ^ 22" using b by (intro mult_right_mono) simp_all
  also have "\<dots> \<le> 21 / 2" by (simp add: eps_def)
  finally show "round_rat double_fmt (1 / 10 ^ 21) * 10 ^ 22 \<le> 21 / 2" .
qed

text \<open>The estimate ends; the value it normalised lies between 1 and 11.\<close>

lemma estimate:
  assumes x: "p10 (- 45) \<le> x" "x \<le> p10 39"
  shows "\<exists>e y. exp10_estimate (FpFin False x) = Some e \<and> - 48 < e \<and> e < 40 \<and> 1 \<le> y \<and> y \<le> 11 \<and> near (nat \<bar>e\<bar>) y (x * p10 (- e))"
proof (cases "1 \<le> x")
  case True
  have i: "down_inv x (FpFin False x) 0" using True by (simp add: down_inv_def p10_def)
  obtain t1 e1 where w1: "scale_while (\<lambda>t. fp_le (POW10 22) t) (\<lambda>t. fp_div double_fmt t (POW10 22)) 22 (FpFin False x, 0) = Some (t1, e1)"
      "down_inv x t1 e1"
    using scale_while_ends [of "down_inv x" _ _ "\<lambda>t. fp_le (POW10 22) t" "\<lambda>t. fp_div double_fmt t (POW10 22)" 22 "\<lambda>t. nat \<lfloor>fp_val t\<rfloor>", OF i]
      down_step [OF True x(2), of 22] by fastforce
  obtain t2 e2 where w2: "scale_while (\<lambda>t. fp_le (POW10 1) t) (\<lambda>t. fp_div double_fmt t (POW10 1)) 1 (t1, e1) = Some (t2, e2)"
      "down_inv x t2 e2" "\<not> fp_le (POW10 1) t2"
    using scale_while_ends [of "down_inv x" _ _ "\<lambda>t. fp_le (POW10 1) t" "\<lambda>t. fp_div double_fmt t (POW10 1)" 1 "\<lambda>t. nat \<lfloor>fp_val t\<rfloor>", OF w1(2)]
      down_step [OF True x(2), of 1] by fastforce
  obtain y where y: "t2 = FpFin False y" "1 \<le> y" "0 \<le> e2" "e2 < 40" "near (nat e2) y (x * p10 (- e2))"
    using w2(2) by (auto simp: down_inv_def)
  have "y < 10" using w2(3) by (simp add: y(1) POW10_eq)
  moreover have "exp10_estimate (FpFin False x) = Some e2"
    using w1(1) w2(1) y(1,2) tiny_limit(1,2) unfolding exp10_estimate_def by (simp add: scale_while_exit POW10_eq)
  ultimately show ?thesis using y by (intro exI [of _ e2] exI [of _ y]) simp
next
  case False
  have i: "up_inv x (FpFin False x) 0" using False by (simp add: up_inv_def p10_def)
  have x1: "x \<le> 1" using False by simp
  let ?l = "fp_round double_fmt False (1 / 10 ^ 21)"
  have s1: "up_inv x t e \<Longrightarrow> fp_lt t ?l \<Longrightarrow> up_inv x (fp_mul double_fmt t (POW10 22)) (e + - 22) \<and>
      nat \<lfloor>1 / fp_val (fp_mul double_fmt t (POW10 22))\<rfloor> < nat \<lfloor>1 / fp_val t\<rfloor>" for t e
    using up_step [OF x(1) x1, of 22 t e] tiny_limit by simp
  obtain t1 e1 where w1: "scale_while (\<lambda>t. fp_lt t ?l) (\<lambda>t. fp_mul double_fmt t (POW10 22)) (- 22) (FpFin False x, 0) = Some (t1, e1)"
      "up_inv x t1 e1"
    using scale_while_ends [of "up_inv x" _ _ "\<lambda>t. fp_lt t ?l" "\<lambda>t. fp_mul double_fmt t (POW10 22)" "- 22" "\<lambda>t. nat \<lfloor>1 / fp_val t\<rfloor>", OF i s1]
    by blast
  have s2: "up_inv x t e \<Longrightarrow> fp_lt t (POW10 0) \<Longrightarrow> up_inv x (fp_mul double_fmt t (POW10 1)) (e + - 1) \<and>
      nat \<lfloor>1 / fp_val (fp_mul double_fmt t (POW10 1))\<rfloor> < nat \<lfloor>1 / fp_val t\<rfloor>" for t e
    using up_step [OF x(1) x1, of 1 t e 1] by (simp add: POW10_eq [of 0])
  obtain t2 e2 where w2: "scale_while (\<lambda>t. fp_lt t (POW10 0)) (\<lambda>t. fp_mul double_fmt t (POW10 1)) (- 1) (t1, e1) = Some (t2, e2)"
      "up_inv x t2 e2" "\<not> fp_lt t2 (POW10 0)"
    using scale_while_ends [of "up_inv x" _ _ "\<lambda>t. fp_lt t (POW10 0)" "\<lambda>t. fp_mul double_fmt t (POW10 1)" "- 1" "\<lambda>t. nat \<lfloor>1 / fp_val t\<rfloor>", OF w1(2) s2]
    by blast
  obtain y where y: "t2 = FpFin False y" "y \<le> 11" "e2 \<le> 0" "- 48 < e2" "near (nat (- e2)) y (x * p10 (- e2))"
    using w2(2) by (auto simp: up_inv_def)
  have "1 \<le> y" using w2(3) by (simp add: y(1) POW10_eq)
  moreover have "exp10_estimate (FpFin False x) = Some e2"
    using w1(1) w2(1) x1 False unfolding exp10_estimate_def by (simp add: scale_while_exit POW10_eq)
  ultimately show ?thesis using y by (intro exI [of _ e2] exI [of _ y]) simp
qed

section \<open>The printed digits\<close>

lemma unat_of_int_u32: "0 \<le> i \<Longrightarrow> i < 2 ^ 32 \<Longrightarrow> unat (of_int i :: u32) = nat i"
  by (simp add: unsigned_of_int take_bit_int_eq_self nat_take_bit_eq)

lemma round_u32_near:
  assumes "0 < r" "r < 2000000000"
  shows "\<bar>rat_of_nat (unat (round_u32 (FpFin False r))) - r\<bar> \<le> 5001 / 10000"
proof -
  have n: "normal (r + 1 / 2)" unfolding normal_def
  proof
    have "2 powi (- 1000) \<le> (1 / 2 :: rat)" by (simp add: power_int_def power_divide)
    then show "2 powi (- 1000) \<le> r + 1 / 2" using assms(1) by linarith
    have "2000000001 \<le> (2 powi 1000 :: rat)" by simp
    then show "r + 1 / 2 \<le> 2 powi 1000" using assms(2) by linarith
  qed
  define q where "q = round_rat double_fmt (r + 1 / 2)"
  have q: "(1 - eps) * (r + 1 / 2) \<le> q" "q \<le> (1 + eps) * (r + 1 / 2)" unfolding q_def by (rule round_normal_bounds [OF n])+
  have e: "eps * (r + 1 / 2) \<le> 1 / 10000"
  proof -
    have "eps * (r + 1 / 2) \<le> eps * 2000000001" using assms eps_bounds by (intro mult_left_mono) simp_all
    also have "\<dots> \<le> 1 / 10000" by (simp add: eps_def)
    finally show ?thesis .
  qed
  have qb: "r + 1 / 2 - 1 / 10000 \<le> q" "q \<le> r + 1 / 2 + 1 / 10000" using q e by (simp_all only: left_diff_distrib distrib_right [of 1 eps] mult_1_left)
  have "round_u32 (FpFin False r) = of_int \<lfloor>q\<rfloor>"
    using assms round_normal(2) [OF n] by (simp add: round_u32_def fp_zero_def dnat_def q_def)
  moreover have "0 \<le> \<lfloor>q\<rfloor>" "\<lfloor>q\<rfloor> < 2 ^ 32" using qb assms by (simp_all add: le_floor_iff floor_less_iff)
  ultimately have u: "rat_of_nat (unat (round_u32 (FpFin False r))) = of_int \<lfloor>q\<rfloor>" by (simp add: unat_of_int_u32)
  have "of_int \<lfloor>q\<rfloor> \<le> q" "q - 1 < of_int \<lfloor>q\<rfloor>" by linarith+
  then show ?thesis using qb unfolding u by linarith
qed

lemma mantissa_near:
  assumes x: "p10 (- 45) \<le> x" "x \<le> p10 39" and n: "\<bar>int sig - 1 - e\<bar> \<le> 60"
    and v: "1 / 100 \<le> x * p10 (int sig - 1 - e)" "x * p10 (int sig - 1 - e) \<le> 1500000000"
  shows "\<bar>rat_of_nat (unat (mantissa (FpFin False x) sig e)) - x * p10 (int sig - 1 - e)\<bar> \<le> 501 / 1000"
proof -
  let ?v = "x * p10 (int sig - 1 - e)"
  have "p10 (- 100) \<le> p10 (- 45)" "p10 39 \<le> p10 100" "p10 (- 100) \<le> 1 / 100" "1500000000 \<le> p10 100"
    by (simp_all add: p10_mono) (simp_all add: p10_def power_int_def power_divide)
  then have roomy: "roomy x" "roomy ?v" using x v unfolding roomy_def by linarith+
  obtain r where r: "scale_pow10 (FpFin False x) (int sig - 1 - e) = FpFin False r" "near (nat \<bar>int sig - 1 - e\<bar>) r ?v"
    using scale_pow10_near [OF near_refl roomy, unfolded add_0] n by fastforce
  have "0 \<le> ?v" using v(1) by linarith
  then have b: "(1 - slack) * ?v \<le> r" "r \<le> (1 + slack) * ?v" using near_slack [OF r(2)] n by simp_all
  have "slack * ?v \<le> slack * 1500000000" using v(2) by (intro mult_left_mono) (simp_all add: slack_def)
  then have s: "slack * ?v \<le> 5 / 10000" by (simp add: slack_def)
  have d: "?v - 5 / 10000 \<le> r" "r \<le> ?v + 5 / 10000" using b s by (simp_all add: algebra_simps)
  have "\<bar>rat_of_nat (unat (round_u32 (FpFin False r))) - r\<bar> \<le> 5001 / 10000" using d v by (intro round_u32_near) linarith+
  then show ?thesis using d unfolding mantissa_def r(1) by linarith
qed

lemma pow10u_unat: "n \<le> 9 \<Longrightarrow> unat (pow10u n) = 10 ^ n"
proof (induction n)
  case (Suc n)
  have "(10 :: nat) ^ n \<le> 10 ^ 8" using Suc.prems by (intro power_increasing) simp_all
  then have "(10 :: nat) ^ n * 10 < 2 ^ 32" by simp
  then show ?case using Suc by (simp add: unat_word_ariths mult.commute)
qed simp

lemma nat_near_less: "rat_of_nat k - 1 < rat_of_nat m \<Longrightarrow> k \<le> m"
proof -
  assume "rat_of_nat k - 1 < rat_of_nat m"
  then have "rat_of_nat k < rat_of_nat (m + 1)" by simp
  then show ?thesis by (simp only: of_nat_less_iff)
qed

text \<open>The mantissa has exactly \<open>sig\<close> digits, and is the closest one up to the errors of the scaling.\<close>

theorem decimal_near:
  assumes x: "p10 (- 45) \<le> x" "x \<le> p10 39" and sig: "1 \<le> sig" "sig \<le> 9"
  shows "\<exists>m E. decimal (FpFin False x) sig = (m, E) \<and> 10 ^ (sig - 1) \<le> unat m \<and> unat m < 10 ^ sig \<and>
    \<bar>rat_of_nat (unat m) - x * p10 (int sig - 1 - E)\<bar> \<le> 501 / 1000 \<and> - 48 < E \<and> E \<le> 40"
proof -
  obtain e y where e: "exp10_estimate (FpFin False x) = Some e" "- 48 < e" "e < 40" "1 \<le> y" "y \<le> 11"
      "near (nat \<bar>e\<bar>) y (x * p10 (- e))" using estimate [OF x] by blast
  have x0: "0 < x" using x(1) p10_pos [of "-45"] by linarith
  define z where "z = x * p10 (- e)"
  have z0: "0 \<le> z" using x0 by (simp add: z_def)
  have zs: "(1 - slack) * z \<le> y" "y \<le> (1 + slack) * z" using near_slack [OF e(6)] e(2,3) z0 by (simp_all add: z_def)
  have z: "1 - slack \<le> z" "z \<le> 23 / 2" using zs e(4,5) by (simp_all add: slack_def)
  define pm where "pm = rat_of_nat (10 ^ (sig - 1))"
  have s: "sig = Suc (sig - 1)" using sig(1) by simp
  have ten: "(10 :: nat) ^ sig = 10 * 10 ^ (sig - 1)" by (subst s) simp
  have "(10 :: nat) ^ (sig - 1) \<le> 10 ^ 8" using sig by (intro power_increasing) simp_all
  then have "rat_of_nat (10 ^ (sig - 1)) \<le> rat_of_nat (10 ^ 8)" by (rule of_nat_mono)
  then have pm: "1 \<le> pm" "pm \<le> 100000000" by (simp_all add: pm_def one_le_power)
  have px: "x * p10 (int sig - 1 - k) = x * p10 (- k) * pm" for k
    using p10_add [of "- k" "int (sig - 1)"] sig(1) p10_nat [of "sig - 1"] by (simp add: pm_def algebra_simps of_nat_diff)
  define V where "V = z * pm"
  have vz: "V = x * p10 (int sig - 1 - e)" by (simp add: V_def z_def px)
  have "(1 - slack) * pm \<le> V" using z(1) pm(1) unfolding V_def by (intro mult_right_mono) simp_all
  moreover have "slack * pm \<le> slack * 100000000" using pm(2) by (intro mult_left_mono) (simp_all add: slack_def)
  ultimately have vlo: "pm - 1 / 10000 \<le> V" by (simp add: slack_def algebra_simps)
  have vhi: "V \<le> 23 / 2 * pm" using z(2) pm(1) unfolding V_def by (intro mult_right_mono) simp_all
  have m1: "\<bar>rat_of_nat (unat (mantissa (FpFin False x) sig e)) - V\<bar> \<le> 501 / 1000"
    unfolding vz using x e(2,3) sig vlo vhi pm unfolding vz by (intro mantissa_near) linarith+
  have pmax: "unat (pow10u sig) = 10 ^ sig" using sig by (intro pow10u_unat) simp
  have pmin: "unat (pow10u sig div 10) = 10 ^ (sig - 1)" by (simp add: unat_div pmax ten)
  let ?m = "unat (mantissa (FpFin False x) sig e)"
  have lo: "10 ^ (sig - 1) \<le> ?m" using m1 vlo by (intro nat_near_less) (fold pm_def, linarith)
  show ?thesis
  proof (cases "10 ^ sig \<le> ?m")
    case True
    then have "rat_of_nat (10 ^ sig) \<le> rat_of_nat ?m" by (rule of_nat_mono)
    then have big: "10 * pm \<le> rat_of_nat ?m" by (simp add: ten pm_def)
    have v': "x * p10 (int sig - 1 - (e + 1)) = V / 10"
      using p10_add [of "int sig - 1 - e" "- 1"] by (simp add: vz p10_def power_int_minus)
    let ?m2 = "unat (mantissa (FpFin False x) sig (e + 1))"
    have "\<bar>int sig - 1 - (e + 1)\<bar> \<le> 60" "1 / 100 \<le> V / 10" "V / 10 \<le> 1500000000"
      using e(2,3) sig vlo vhi pm by linarith+
    then have m2: "\<bar>rat_of_nat ?m2 - V / 10\<bar> \<le> 501 / 1000"
      unfolding v' [symmetric] by (intro mantissa_near x)
    have b: "10 ^ (sig - 1) \<le> ?m2" using m1 m2 big by (intro nat_near_less) (fold pm_def, linarith)
    have "rat_of_nat (10 ^ sig) = 10 * pm" by (simp add: ten pm_def)
    then have "rat_of_nat ?m2 < rat_of_nat (10 ^ sig)" using m2 vhi pm(1) by linarith
    then have c: "?m2 < 10 ^ sig" by (simp only: of_nat_less_iff)
    have "decimal (FpFin False x) sig = (mantissa (FpFin False x) sig (e + 1), e + 1)"
      using True c by (simp add: decimal_def e(1) word_le_nat_alt pmax Let_def)
    moreover have "- 48 < e + 1" "e + 1 \<le> 40" using e(2,3) by simp_all
    ultimately show ?thesis using b c m2 [folded v'] by blast
  next
    case False
    then have "decimal (FpFin False x) sig = (mantissa (FpFin False x) sig e, e)"
      using lo by (simp add: decimal_def e(1) word_le_nat_alt word_less_nat_alt pmax pmin Let_def)
    moreover have "?m < 10 ^ sig" "e \<le> 40" using False e(3) by simp_all
    ultimately show ?thesis using lo m1 [unfolded vz] e(2) by blast
  qed
qed

end
