(* ===== verification/Json_Float.thy ===== *)
theory Json_Float
  imports Json_Grammar Json_Decimal
begin

text \<open>
  The number text of a float. What \<open>cfg_json_fmt_g\<close> prints is a number of the grammar, the scanner reads the
  printed digits and exponent back exactly, and with nine digits the double it makes of them is so close to
  the float that the conversion returns it. \<open>cfg_json_w_f32\<close> therefore loses no bit of a finite float.
\<close>

section \<open>Digit strings\<close>

definition digit_val :: "u8 \<Rightarrow> nat" where
  "digit_val c = unat (c - ZERO)"

definition dec :: "nat \<Rightarrow> u8 list \<Rightarrow> nat" where
  "dec = foldl (\<lambda>a c. a * 10 + digit_val c)"

lemma dec_simps [simp]: "dec k [] = k" "dec k (c # cs) = dec (k * 10 + digit_val c) cs" "dec k (cs @ ds) = dec (dec k cs) ds"
  by (simp_all add: dec_def)

lemma digit_val_less: "is_digit c \<Longrightarrow> digit_val c < 10"
proof -
  assume "is_digit c"
  then have c: "ZERO \<le> c" "c \<le> 0x39" by (simp_all add: is_digit_def)
  then have "unat (c - ZERO) = unat c - 48" using unat_sub [OF c(1)] by simp
  moreover have "unat c \<le> 57" using c(2) by (simp add: word_le_nat_alt)
  ultimately show ?thesis by (simp add: digit_val_def)
qed

lemma digit_of_nat: "d < 10 \<Longrightarrow> is_digit (ZERO + of_nat d) \<and> digit_val (ZERO + of_nat d) = d"
proof -
  assume "d < 10"
  then have "d \<in> {0, 1, 2, 3, 4, 5, 6, 7, 8, 9}" by auto
  then show ?thesis by (auto simp: is_digit_def digit_val_def)
qed

lemma digit_chr_val: "d < 10 \<Longrightarrow> is_digit (digit_chr d) \<and> digit_val (digit_chr d) = unat d"
proof -
  assume "d < 10"
  then have "unat d < 10" by (simp add: word_less_nat_alt)
  moreover have "digit_chr d = ZERO + of_nat (unat d)" by (simp add: digit_chr_def)
  ultimately show ?thesis using digit_of_nat by metis
qed

lemma u32_ten: "unat (m div 10 :: u32) = unat m div 10" "unat (m mod 10 :: u32) = unat m mod 10"
  by (simp_all add: unat_div unat_mod)

lemma u32_digit: "(m mod 10 :: u32) < 10"
  by (simp add: word_less_nat_alt u32_ten)

lemma digit_run_props [simp]: "length (digit_run n m) = n \<and> list_all is_digit (digit_run n m)"
  by (induction n arbitrary: m) (simp_all add: digit_chr_val u32_digit)

lemma dec_digit_run: "dec k (digit_run n m) = k * 10 ^ n + unat m mod 10 ^ n"
proof (induction n arbitrary: m)
  case (Suc n)
  have "unat m mod 10 ^ Suc n = unat m div 10 mod 10 ^ n * 10 + unat m mod 10"
    by (simp add: mod_mult2_eq mult.commute)
  then show ?case using Suc digit_chr_val [OF u32_digit] by (simp add: u32_ten algebra_simps)
qed simp

lemma dec_scale: "dec k ds = k * 10 ^ length ds + dec 0 ds"
proof (induction ds arbitrary: k)
  case (Cons c ds)
  have "dec (k * 10 + digit_val c) ds = (k * 10 + digit_val c) * 10 ^ length ds + dec 0 ds"
    "dec (digit_val c) ds = digit_val c * 10 ^ length ds + dec 0 ds" by (rule Cons.IH)+
  then show ?case by (simp add: algebra_simps)
qed simp

lemma dec_bound: "list_all is_digit ds \<Longrightarrow> dec 0 ds < 10 ^ length ds"
proof (induction ds)
  case (Cons c ds)
  have "dec 0 (c # ds) = digit_val c * 10 ^ length ds + dec 0 ds" using dec_scale [of "digit_val c" ds] by simp
  moreover have "digit_val c * 10 ^ length ds \<le> 9 * 10 ^ length ds" using digit_val_less [of c] Cons.prems by (intro mult_right_mono) simp_all
  moreover have "dec 0 ds < 10 ^ length ds" using Cons by simp
  ultimately have "dec 0 (c # ds) < 10 * 10 ^ length ds" by linarith
  then show ?case by simp
qed simp

lemma digit_val_zero: "is_digit c \<Longrightarrow> digit_val c = 0 \<longleftrightarrow> c = ZERO"
proof -
  have "digit_val c = 0 \<longleftrightarrow> c - ZERO = 0" by (simp add: digit_val_def unat_eq_0)
  then show ?thesis by simp
qed

lemma dec_zeros [simp]: "dec k (replicate n ZERO) = k * 10 ^ n"
  by (induction n arbitrary: k) (simp_all add: digit_val_def)

text \<open>A full-width mantissa has a leading digit that is not zero.\<close>

lemma leading_digit: "list_all is_digit (c # cs) \<Longrightarrow> 10 ^ length cs \<le> dec 0 (c # cs) \<Longrightarrow> c \<noteq> ZERO"
  using dec_bound [of cs] by (auto simp: digit_val_def)

section \<open>Stripping zeros\<close>

lemma strip_zeros_split:
  "n \<le> length dg \<Longrightarrow> take n dg = take (strip_zeros n dg) dg @ replicate (n - strip_zeros n dg) ZERO \<and> strip_zeros n dg \<le> n \<and>
    (0 < n \<longrightarrow> 0 < strip_zeros n dg)"
proof (induction n dg rule: strip_zeros.induct)
  case (2 n dg)
  show ?case
  proof (cases "0 < n \<and> dg ! n = ZERO")
    case True
    let ?k = "strip_zeros n dg"
    have ih: "take n dg = take ?k dg @ replicate (n - ?k) ZERO" "?k \<le> n" "0 < ?k" using 2 True by auto
    have r: "replicate (Suc n - ?k) ZERO = replicate (n - ?k) ZERO @ [ZERO]"
      using ih(2) by (simp add: Suc_diff_le replicate_append_same)
    have "take (Suc n) dg = take n dg @ [ZERO]" using 2(2) True by (simp add: take_Suc_conv_app_nth)
    then show ?thesis using True ih r by simp
  next
    case False
    then have "strip_zeros (Suc n) dg = Suc n" by (simp only: strip_zeros.simps if_False)
    then show ?thesis by simp
  qed
qed simp

lemma stripped:
  assumes "10 ^ (sig - 1) \<le> unat m" "unat m < 10 ^ sig" "1 \<le> sig"
  defines "dg \<equiv> digit_run sig m"
  defines "ds \<equiv> take (strip_zeros sig dg) dg"
  shows "list_all is_digit ds" "ds \<noteq> []" "hd ds \<noteq> ZERO" "length ds \<le> sig" "dec 0 ds * 10 ^ (sig - length ds) = unat m"
proof -
  let ?k = "strip_zeros sig dg"
  have len: "length dg = sig" by (simp add: dg_def)
  have s: "dg = ds @ replicate (sig - ?k) ZERO" "?k \<le> sig" "0 < ?k"
    using strip_zeros_split [of sig dg] assms(3) len by (simp_all add: ds_def)
  have k: "length ds = ?k" using s(2) len by (simp add: ds_def)
  then show ne: "ds \<noteq> []" "length ds \<le> sig" using s(2,3) by auto
  have dig: "list_all is_digit dg" by (simp add: dg_def)
  then show "list_all is_digit ds" using s(1) by (metis list_all_append)
  have v: "dec 0 dg = unat m" using assms(2) by (simp add: dg_def dec_digit_run)
  then show "dec 0 ds * 10 ^ (sig - length ds) = unat m" using s(1) k by (metis dec_simps(3) dec_zeros)
  obtain c cs where c: "dg = c # cs" using len assms(3) by (cases dg) auto
  then have "sig - 1 = length cs" using len by simp
  then have "c \<noteq> ZERO" using leading_digit [of c cs] dig v assms(1) c by (metis (full_types))
  then show "hd ds \<noteq> ZERO" using c s(1) ne(1) by (metis hd_append2 list.sel(1))
qed

section \<open>Scanning digits\<close>

lemma digit_u64_eq: "digit_u64 c = of_nat (digit_val c)"
  by (simp add: digit_u64_def digit_val_def)

lemma scan_int_fold: "s + length ds \<le> 19 \<Longrightarrow> foldl int_digit (of_nat k, s, e) ds = (of_nat (dec k ds), s + length ds, e)"
proof (induction ds arbitrary: k s)
  case (Cons c ds)
  have "int_digit (of_nat k, s, e) c = (of_nat (k * 10 + digit_val c), s + 1, e)"
    using Cons.prems by (simp add: int_digit_def digit_u64_eq)
  moreover have "s + 1 + length ds \<le> 19" using Cons.prems by simp
  ultimately show ?case using Cons.IH [of "s + 1" "k * 10 + digit_val c"] by (simp del: of_nat_add of_nat_mult of_nat_Suc)
qed simp

lemma scan_frac_fold:
  "s + length ds \<le> 19 \<Longrightarrow> foldl frac_digit (of_nat k, s, e) ds = (of_nat (dec k ds), s + length ds, e - int (length ds))"
proof (induction ds arbitrary: k s e)
  case (Cons c ds)
  have "frac_digit (of_nat k, s, e) c = (of_nat (k * 10 + digit_val c), s + 1, e - 1)"
    using Cons.prems by (simp add: frac_digit_def digit_u64_eq)
  moreover have "s + 1 + length ds \<le> 19" using Cons.prems by simp
  ultimately show ?case using Cons.IH [of "s + 1" "k * 10 + digit_val c" "e - 1"] by (simp del: of_nat_add of_nat_mult of_nat_Suc add: algebra_simps)
qed simp

lemma scan_int_digits:
  assumes "list_all is_digit ds" "ds \<noteq> []" "hd ds \<noteq> ZERO" "length ds \<le> 19" "no_digit r"
  shows "scan_int (ds @ r) = Some ((of_nat (dec 0 ds), length ds, 0), r)"
proof -
  have "\<not> no_digit (ds @ r)" using assms(1,2) by (cases ds) auto
  then show ?thesis using assms(2,3) take_digits [OF assms(1,5)] scan_int_fold [of 0 ds 0 0] assms(4)
    by (simp add: scan_int_def)
qed

lemma scan_frac_digits:
  assumes "list_all is_digit ds" "ds \<noteq> []" "s + length ds \<le> 19" "no_digit r"
  shows "scan_frac (of_nat k, s, e) (DOT # ds @ r) = Some ((of_nat (dec k ds), s + length ds, e - int (length ds)), r)"
proof -
  have "\<not> no_digit (ds @ r)" using assms(1,2) by (cases ds) auto
  then show ?thesis using take_digits [OF assms(1,4)] scan_frac_fold [OF assms(3)] by (simp add: scan_frac_def)
qed

lemma scan_exp_text:
  assumes "- 100 < e" "e < 100"
  shows "scan_exp (k, s, x) (0x65 # exp_text e) = Some ((k, s, x + e), [])"
proof -
  define n where "n = nat \<bar>e\<bar>"
  have n: "n < 100" using assms by (simp add: n_def)
  define a b where "a = n div 10" and "b = n mod 10"
  have ab: "a < 10" "b < 10" "a * 10 + b = n" using n by (simp_all add: a_def b_def)
  let ?ds = "[ZERO + of_nat a, ZERO + of_nat b]"
  have t: "exp_text e = (if e < 0 then MINUS else PLUS) # ?ds"
    using n by (simp add: exp_text_def a_def b_def Let_def flip: n_def)
  have d: "list_all is_digit ?ds" using digit_of_nat ab by simp
  have f: "foldl exp_digit 0 ?ds = int n"
    using digit_of_nat [OF ab(1)] digit_of_nat [OF ab(2)] ab by (simp add: exp_digit_def digit_val_def)
  have "takeWhile is_digit ?ds = ?ds" "dropWhile is_digit ?ds = []" using take_digits [OF d, of "[]"] by simp_all
  moreover have "\<not> no_digit ?ds" using d by simp
  ultimately have "scan_exp (k, s, x) (0x65 # (if e < 0 then MINUS else PLUS) # ?ds) = Some ((k, s, x + (if e < 0 then -1 else 1) * int n), [])"
    unfolding f [symmetric] by (auto simp: scan_exp_def is_exp_def exp_sign_def)
  moreover have "x + (if e < 0 then -1 else 1) * int n = x + e" by (simp add: n_def)
  ultimately show ?thesis unfolding t by simp
qed

section \<open>The three printed forms\<close>

text \<open>The text of the digits \<open>ds\<close> and the decimal exponent \<open>e\<close>, as \<open>cfg_json_fmt_g\<close> chooses it.\<close>

definition body :: "nat \<Rightarrow> u8 list \<Rightarrow> int \<Rightarrow> u8 list" where
  "body sig ds e = (if e < -4 \<or> int sig \<le> e then exp_form ds e else if 0 \<le> e then fixed_form ds e else small_form ds e)"

definition reads :: "u8 list \<Rightarrow> nat \<Rightarrow> int \<Rightarrow> bool" where
  "reads t k x \<longleftrightarrow> t \<noteq> [] \<and> hd t \<noteq> MINUS \<and> (\<exists>i r s f u. scan_int t = Some (i, r) \<and> scan_frac i r = Some (f, u) \<and> scan_exp f u = Some ((of_nat k, s, x), []))"

lemma readsI:
  "scan_int t = Some (i, r) \<Longrightarrow> scan_frac i r = Some (f, u) \<Longrightarrow> scan_exp f u = Some ((of_nat k, s, x), []) \<Longrightarrow>
   t \<noteq> [] \<Longrightarrow> hd t \<noteq> MINUS \<Longrightarrow> reads t k x"
  unfolding reads_def by blast

lemma reads_num: "reads t k x \<Longrightarrow> \<exists>s. cfg_json_scan_num t = Some (length t, scan_value (of_nat k, s, x))"
  by (auto simp: reads_def cfg_json_scan_num_def)

lemma reads_neg: "reads t k x \<Longrightarrow> \<exists>s. cfg_json_scan_num (MINUS # t) = Some (length (MINUS # t), fp_neg (scan_value (of_nat k, s, x)))"
  by (auto simp: reads_def cfg_json_scan_num_def)

lemma no_exp_end: "scan_exp a [] = Some (a, [])"
  by (cases a) (simp add: scan_exp_def)

lemma no_frac: "r = [] \<or> hd r \<noteq> DOT \<Longrightarrow> scan_frac a r = Some (a, r)"
  by (auto simp: scan_frac_def)

lemma hd_digit_not_minus: "is_digit c \<Longrightarrow> c \<noteq> MINUS" "is_digit c \<Longrightarrow> c \<noteq> DOT"
  by (auto simp: is_digit_def)

definition sig_digits :: "u8 list \<Rightarrow> bool" where
  "sig_digits ds \<longleftrightarrow> list_all is_digit ds \<and> ds \<noteq> [] \<and> hd ds \<noteq> ZERO \<and> length ds \<le> 9"

lemma sig_digitsD:
  assumes "sig_digits ds"
  shows "list_all is_digit ds" "ds \<noteq> []" "hd ds \<noteq> ZERO" "length ds \<le> 9" "is_digit (hd ds)"
  using assms by (auto simp: sig_digits_def) (cases ds; simp)

lemma sig_digits_nonzero: "sig_digits ds \<Longrightarrow> dec 0 ds \<noteq> 0"
proof -
  assume "sig_digits ds"
  note ds = sig_digitsD [OF this]
  obtain c cs where c: "ds = c # cs" using ds(2) by (cases ds) auto
  then have "digit_val c \<noteq> 0" using ds digit_val_zero by simp
  then show ?thesis using c dec_scale [of "digit_val c" cs] by simp
qed

lemma reads_exp_form:
  assumes "sig_digits ds" "- 100 < e" "e < 100"
  shows "reads (exp_form ds e) (dec 0 ds) (e - int (length ds) + 1)"
proof -
  note ds = sig_digitsD [OF assms(1)]
  obtain c cs where c: "ds = c # cs" using ds(2) by (cases ds) auto
  let ?t = "0x65 # exp_text e"
  define u where "u = (if cs = [] then [] else DOT # cs) @ ?t"
  have nd: "no_digit u" "no_digit ?t" by (simp_all add: is_digit_def u_def)
  have w: "exp_form ds e = [c] @ u" by (simp add: exp_form_def c u_def)
  have i: "scan_int ([c] @ u) = Some ((of_nat (dec 0 [c]), length [c], 0), u)"
    by (rule scan_int_digits) (use ds c nd(1) in simp_all)
  have f: "scan_frac (of_nat (dec 0 [c]), length [c], 0) u = Some ((of_nat (dec 0 ds), length ds, 0 - int (length cs)), ?t)"
    using scan_frac_digits [of cs 1 ?t "digit_val c" 0] ds c nd(2) by (auto simp: no_frac u_def)
  have x: "scan_exp (of_nat (dec 0 ds), length ds, 0 - int (length cs)) ?t = Some ((of_nat (dec 0 ds), length ds, 0 - int (length cs) + e), [])"
    by (rule scan_exp_text [OF assms(2,3)])
  have "0 - int (length cs) + e = e - int (length ds) + 1" by (simp add: c)
  then show ?thesis using x hd_digit_not_minus(1) [OF ds(5)] c unfolding w by (intro readsI [OF i f]) simp_all
qed

lemma reads_fixed_form:
  assumes "sig_digits ds" "0 \<le> e" "e < 9"
  shows "\<exists>k x. reads (fixed_form ds e) k x \<and> k < 10 ^ 9 \<and> - 9 \<le> x \<and> x \<le> 0 \<and> k \<noteq> 0 \<and> of_nat k * p10 x = of_nat (dec 0 ds) * p10 (e - int (length ds) + 1)"
proof -
  note ds = sig_digitsD [OF assms(1)]
  define ip where "ip = nat (e + 1)"
  have ip: "1 \<le> ip" "ip \<le> 9" "int ip = e + 1" using assms by (simp_all add: ip_def)
  define w where "w = map (\<lambda>i. if i < length ds then ds ! i else ZERO) [0..<ip]"
  have w: "w = take ip ds @ replicate (ip - length ds) ZERO"
    by (rule nth_equalityI) (auto simp: w_def nth_append)
  have d: "list_all is_digit w" "w \<noteq> []" "hd w \<noteq> ZERO" "length w = ip"
    using ds ip(1) by (auto simp: w list_all_iff dest: in_set_takeD)
  have t: "fixed_form ds e = w @ (if ip < length ds then DOT # drop ip ds else [])"
    by (simp add: fixed_form_def w_def ip_def Let_def)
  have nz: "dec 0 ds \<noteq> 0" by (rule sig_digits_nonzero [OF assms(1)])
  have hw: "hd (fixed_form ds e) \<noteq> MINUS" "fixed_form ds e \<noteq> []"
    using d hd_digit_not_minus by (cases w; auto simp: t)+
  show ?thesis
  proof (cases "ip < length ds")
    case True
    have i: "scan_int (fixed_form ds e) = Some ((of_nat (dec 0 w), ip, 0), DOT # drop ip ds)"
      using scan_int_digits [of w "DOT # drop ip ds"] d ip True t by simp
    have dr: "list_all is_digit (drop ip ds)" "drop ip ds \<noteq> []" using ds(1) True by (auto simp: list_all_iff dest: in_set_dropD)
    have f: "scan_frac (of_nat (dec 0 w), ip, 0) (DOT # drop ip ds) = Some ((of_nat (dec (dec 0 w) (drop ip ds)), length ds, 0 - int (length ds - ip)), [])"
      using scan_frac_digits [OF dr, of ip "[]" "dec 0 w" 0] ds(4) True by simp
    have v: "dec (dec 0 w) (drop ip ds) = dec 0 ds" using True by (simp add: w flip: dec_simps(3))
    have x: "0 - int (length ds - ip) = e - int (length ds) + 1" using True ip(3) by simp
    have "reads (fixed_form ds e) (dec 0 ds) (e - int (length ds) + 1)"
      using v no_exp_end x by (intro readsI [OF i f _ hw(2,1)]) simp
    moreover have "dec 0 ds < 10 ^ 9" using dec_bound [OF ds(1)] ds(4) power_increasing [of "length ds" 9 "10 :: nat"] by simp
    ultimately show ?thesis using nz ds(4) assms(2) x by (intro exI [of _ "dec 0 ds"] exI [of _ "e - int (length ds) + 1"]) auto
  next
    case False
    have i: "scan_int (fixed_form ds e) = Some ((of_nat (dec 0 w), ip, 0), [])"
      using scan_int_digits [of w "[]"] d ip False t by simp
    have "reads (fixed_form ds e) (dec 0 w) 0" by (rule readsI [OF i no_frac no_exp_end hw(2,1)]) simp
    moreover have v: "dec 0 w = dec 0 ds * 10 ^ (ip - length ds)" using False by (simp add: w)
    moreover have "p10 (int (ip - length ds)) = 10 ^ (ip - length ds)" by (rule p10_nat)
    moreover have "int (ip - length ds) = e - int (length ds) + 1" using False ip(3) by simp
    moreover have "dec 0 w < 10 ^ 9" using dec_bound [OF d(1)] d(4) ip(2) power_increasing [of ip 9 "10 :: nat"] by simp
    ultimately show ?thesis using nz by (intro exI [of _ "dec 0 w"] exI [of _ 0]) (auto simp: p10_def)
  qed
qed

lemma reads_small_form:
  assumes "sig_digits ds" "e < 0" "- 5 < e"
  shows "reads (small_form ds e) (dec 0 ds) (e - int (length ds) + 1)"
proof -
  note ds = sig_digitsD [OF assms(1)]
  define z where "z = nat (- e - 1)"
  have z: "z \<le> 3" "int z = - e - 1" using assms by (simp_all add: z_def)
  let ?f = "replicate z ZERO @ ds"
  have f: "list_all is_digit ?f" "?f \<noteq> []" using ds by (auto simp: list_all_iff)
  have t: "small_form ds e = ZERO # DOT # ?f" by (simp add: small_form_def z_def)
  have i: "scan_int (small_form ds e) = Some ((of_nat 0, 1, 0), DOT # ?f)" by (simp add: t scan_int_def)
  have "scan_frac (of_nat 0, 1, 0) (DOT # ?f @ []) = Some ((of_nat (dec 0 ?f), 1 + length ?f, 0 - int (length ?f)), [])"
    by (rule scan_frac_digits [OF f]) (use z(1) ds(4) in simp_all)
  moreover have "0 - int (length ?f) = e - int (length ds) + 1" using z(2) by simp
  moreover have "dec 0 ?f = dec 0 ds" by simp
  ultimately have "scan_frac (of_nat 0, 1, 0) (DOT # ?f) = Some ((of_nat (dec 0 ds), 1 + length ?f, e - int (length ds) + 1), [])"
    by (simp only: append_Nil2)
  then show ?thesis by (rule readsI [OF i _ no_exp_end]) (simp_all add: t)
qed

lemma body_reads:
  assumes "sig_digits ds" "sig \<le> 9" "- 48 < e" "e \<le> 40"
  shows "\<exists>k x. reads (body sig ds e) k x \<and> k < 10 ^ 9 \<and> \<bar>x\<bar> \<le> 60 \<and> k \<noteq> 0 \<and> of_nat k * p10 x = of_nat (dec 0 ds) * p10 (e - int (length ds) + 1)"
proof -
  note ds = sig_digitsD [OF assms(1)]
  have nz: "dec 0 ds \<noteq> 0" by (rule sig_digits_nonzero [OF assms(1)])
  have big: "dec 0 ds < 10 ^ 9" using dec_bound [OF ds(1)] power_increasing [OF ds(4), of "10 :: nat"] by simp
  have len: "1 \<le> length ds" using ds(2) by (cases ds) simp_all
  have xb: "\<bar>e - int (length ds) + 1\<bar> \<le> 60" using ds(4) assms(3,4) len by linarith
  consider (big) "e < - 4 \<or> int sig \<le> e" | (fixed) "0 \<le> e" "e < int sig" | (small) "- 4 \<le> e" "e < 0" "\<not> int sig \<le> e" by linarith
  then show ?thesis
  proof cases
    case big
    then have "body sig ds e = exp_form ds e" by (simp add: body_def)
    then show ?thesis using reads_exp_form [OF assms(1), of e] assms(3,4) nz big xb \<open>dec 0 ds < 10 ^ 9\<close>
      by (intro exI [of _ "dec 0 ds"] exI [of _ "e - int (length ds) + 1"]) simp
  next
    case fixed
    then have b: "body sig ds e = fixed_form ds e" by (simp add: body_def)
    have "e < 9" using fixed(2) assms(2) by linarith
    then obtain k x where "reads (fixed_form ds e) k x" "k < 10 ^ 9" "- 9 \<le> x" "x \<le> 0" "k \<noteq> 0"
        "of_nat k * p10 x = of_nat (dec 0 ds) * p10 (e - int (length ds) + 1)"
      using reads_fixed_form [OF assms(1) fixed(1)] by blast
    then show ?thesis unfolding b by (intro exI [of _ k] exI [of _ x]) simp
  next
    case small
    then have "body sig ds e = small_form ds e" by (simp add: body_def)
    then show ?thesis using reads_small_form [OF assms(1) small(2)] small(1) nz big xb
      by (intro exI [of _ "dec 0 ds"] exI [of _ "e - int (length ds) + 1"]) simp
  qed
qed

lemma form_length:
  assumes "sig_digits ds" "sig \<le> 9"
  shows "length (body sig ds e) \<le> 15"
proof -
  note ds = sig_digitsD [OF assms(1)]
  have x: "length (exp_text e) \<le> 4" by (simp add: exp_text_def Let_def)
  consider "body sig ds e = exp_form ds e" | "body sig ds e = fixed_form ds e" "0 \<le> e" "e < int sig"
    | "body sig ds e = small_form ds e" "- 4 \<le> e" "e < 0" by (force simp: body_def split: if_splits)
  then show ?thesis
  proof cases
    case 1
    then show ?thesis using x ds(4) by (auto simp: exp_form_def)
  next
    case 2
    moreover have "nat (e + 1) \<le> 9" using 2(2,3) assms(2) by linarith
    ultimately show ?thesis using ds(4) by (auto simp: fixed_form_def Let_def)
  next
    case 3
    then show ?thesis using ds(4) by (simp add: small_form_def)
  qed
qed

section \<open>The value read back\<close>

lemma scan_value_near:
  assumes "k \<noteq> 0" "k < 10 ^ 9" "\<bar>x\<bar> \<le> 60" "roomy (of_nat k * p10 x)"
  shows "\<exists>d. scan_value (of_nat k, s, x) = FpFin False d \<and> (1 - slack) * (of_nat k * p10 x) \<le> d \<and> d \<le> (1 + slack) * (of_nat k * p10 x)"
proof -
  have k: "uint (of_nat k :: u64) = int k" using assms(2) by (simp add: unsigned_of_nat take_bit_nat_eq_self)
  then have nz: "(of_nat k :: u64) \<noteq> 0" using assms(1) by (metis of_nat_eq_0_iff uint_0_iff)
  have "1 \<le> rat_of_nat k" "rat_of_nat k \<le> rat_of_nat (10 ^ 9)" using assms(1,2) by (simp_all only: of_nat_le_iff)
  then have b: "1 \<le> rat_of_nat k" "rat_of_nat k \<le> 10 ^ 9" by simp_all
  have r: "roomy (rat_of_nat k)" unfolding roomy_def
  proof
    have "p10 (- 100) \<le> 1" "10 ^ 9 \<le> p10 100" by (simp_all add: p10_def power_int_def power_divide)
    then show "p10 (- 100) \<le> rat_of_nat k" "rat_of_nat k \<le> p10 100" using b by linarith+
  qed
  have "fp_round double_fmt False (of_int (uint (of_nat k :: u64))) = FpFin False (of_nat k)"
    using round_normal(2) [OF roomy_normal [OF r near_refl]] round_double_nat [of k] assms(2) by (simp add: k)
  moreover obtain d where d: "scale_pow10 (FpFin False (of_nat k)) x = FpFin False d" "near (nat \<bar>x\<bar>) d (of_nat k * p10 x)"
    using scale_pow10_near [OF near_refl r assms(4), unfolded add_0] assms(3) by fastforce
  moreover have "\<not> 400 < x" "\<not> x < - 400" using assms(3) by linarith+
  ultimately have "scan_value (of_nat k, s, x) = FpFin False d" using nz by (simp add: scan_value_def)
  then show ?thesis using near_slack [OF d(2)] assms(3) by auto
qed

text \<open>Printing and scanning a positive value: \<open>n\<close> is its decimal position, \<open>m\<close> the mantissa printed.\<close>

definition signed :: "bool \<Rightarrow> rat \<Rightarrow> rat" where
  "signed neg x = (if neg then - x else x)"

lemma print_scan:
  assumes x: "p10 (- 45) \<le> x" "x \<le> p10 39" and sig: "1 \<le> sig" "sig \<le> 9"
  shows "\<exists>b d m n. cfg_json_fmt_g 40 (FpFin neg (signed neg x)) (int sig) = Some b \<and>
    cfg_json_scan_num b = Some (length b, FpFin neg (signed neg d)) \<and> length b \<le> 16 \<and>
    10 ^ (sig - 1) \<le> m \<and> m < 10 ^ sig \<and> \<bar>rat_of_nat m - x * p10 n\<bar> \<le> 501 / 1000 \<and> \<bar>n\<bar> \<le> 60 \<and>
    (1 - slack) * of_nat m \<le> d * p10 n \<and> d * p10 n \<le> (1 + slack) * of_nat m"
proof -
  have x0: "0 < x" using x(1) p10_pos [of "-45"] by linarith
  obtain m e where m: "decimal (FpFin False x) sig = (m, e)" "10 ^ (sig - 1) \<le> unat m" "unat m < 10 ^ sig"
      "\<bar>rat_of_nat (unat m) - x * p10 (int sig - 1 - e)\<bar> \<le> 501 / 1000" "- 48 < e" "e \<le> 40"
    using decimal_near [OF x sig] by blast
  define ds where "ds = take (strip_zeros sig (digit_run sig m)) (digit_run sig m)"
  note st = stripped [OF m(2,3) sig(1), folded ds_def]
  have sd: "sig_digits ds" using st(1-4) sig(2) by (simp add: sig_digits_def)
  define b where "b = (if neg then [MINUS] else []) @ body sig ds e"
  have lb: "length b \<le> 16" using form_length [OF sd sig(2), of e] by (simp add: b_def)
  have mz: "m \<noteq> 0" using m(2) by auto
  have "cfg_json_fmt_g 40 (FpFin neg (signed neg x)) (int sig) = Some b"
    using x0 sig m(1) mz lb
    by (auto simp: cfg_json_fmt_g_def fp_finite_def fp_zero_def signed_def Let_def b_def body_def ds_def [symmetric])
  moreover
  obtain k y where k: "reads (body sig ds e) k y" "k < 10 ^ 9" "\<bar>y\<bar> \<le> 60" "k \<noteq> 0"
      "of_nat k * p10 y = of_nat (dec 0 ds) * p10 (e - int (length ds) + 1)"
    using body_reads [OF sd sig(2) m(5,6)] by blast
  define n where "n = int sig - 1 - e"
  have z: "of_nat k * p10 y * p10 n = of_nat (unat m)"
  proof -
    have "of_nat k * p10 y * p10 n = of_nat (dec 0 ds) * (p10 (e - int (length ds) + 1) * p10 n)" by (simp add: k(5))
    also have "p10 (e - int (length ds) + 1) * p10 n = p10 (int (sig - length ds))"
      using st(4) by (simp add: n_def p10_add [symmetric] of_nat_diff algebra_simps)
    also have "of_nat (dec 0 ds) * p10 (int (sig - length ds)) = rat_of_nat (dec 0 ds * 10 ^ (sig - length ds))" by (simp add: p10_nat)
    finally show ?thesis by (simp only: st(5))
  qed
  have nb: "\<bar>n\<bar> \<le> 60" using m(5,6) sig by (simp add: n_def)
  have "roomy (of_nat k * p10 y)"
  proof -
    have "of_nat k * p10 y = of_nat (unat m) * p10 (- n)" unfolding z [symmetric] mult.assoc by (simp add: p10_add [symmetric])
    moreover have "1 \<le> rat_of_nat (unat m)" "rat_of_nat (unat m) \<le> 10 ^ 9"
    proof -
      have "(10 :: nat) ^ sig \<le> 10 ^ 9" using sig(2) by (intro power_increasing) simp_all
      then have "unat m \<le> 10 ^ 9" "1 \<le> unat m" using m(2,3) order_trans [OF one_le_power [of "10 :: nat" "sig - 1"] m(2)] by simp_all
      then have "rat_of_nat 1 \<le> rat_of_nat (unat m)" "rat_of_nat (unat m) \<le> rat_of_nat (10 ^ 9)" by (simp_all only: of_nat_le_iff)
      then show "1 \<le> rat_of_nat (unat m)" "rat_of_nat (unat m) \<le> 10 ^ 9" by simp_all
    qed
    moreover have "p10 (- 100) \<le> p10 (- n)" "p10 (- n) \<le> p10 60" using nb by (simp_all add: p10_mono)
    moreover have "1 * p10 (- n) \<le> rat_of_nat (unat m) * p10 (- n)" using calculation(2) by (intro mult_right_mono) simp_all
    moreover have "rat_of_nat (unat m) * p10 (- n) \<le> 10 ^ 9 * p10 60" using calculation(3,5) by (intro mult_mono) simp_all
    moreover have "10 ^ 9 * p10 60 \<le> p10 100" by (simp add: p10_def)
    ultimately show ?thesis unfolding roomy_def by linarith
  qed
  then obtain d where d: "\<And>s. scan_value (of_nat k, s, y) = FpFin False d"
      "(1 - slack) * (of_nat k * p10 y) \<le> d" "d \<le> (1 + slack) * (of_nat k * p10 y)"
    using scan_value_near [OF k(4,2,3)] by (force simp: scan_value_def)
  have "cfg_json_scan_num b = Some (length b, FpFin neg (signed neg d))"
    using reads_num [OF k(1)] reads_neg [OF k(1)] d(1) by (cases neg) (auto simp: b_def signed_def)
  moreover have "(1 - slack) * of_nat (unat m) \<le> d * p10 n" "d * p10 n \<le> (1 + slack) * of_nat (unat m)"
    using mult_right_mono [OF d(2), of "p10 n"] mult_right_mono [OF d(3), of "p10 n"] unfolding z [symmetric] mult.assoc by simp_all
  ultimately show ?thesis using lb m(2,3,4) nb by (intro exI conjI) (assumption | simp add: n_def)+
qed

section \<open>Back to a float\<close>

lemma rne_near: "\<bar>z - of_int k\<bar> < 1 / 2 \<Longrightarrow> rne z = k"
proof -
  assume z: "\<bar>z - of_int k\<bar> < 1 / 2"
  have "\<bar>of_int (rne z) - z\<bar> \<le> 1 / 2" by (rule rne_error)
  then have "\<bar>of_int (rne z) - of_int k :: rat\<bar> < 1" using z by linarith
  then have "\<bar>rne z - k\<bar> < 1" by (metis of_int_abs of_int_diff of_int_less_1_iff)
  then show ?thesis by simp
qed

lemma round_to_multiple: "0 < y \<Longrightarrow> x = of_int k * 2 powi quantum F y \<Longrightarrow> \<bar>y - x\<bar> < 2 powi quantum F y / 2 \<Longrightarrow> round_rat F y = x"
proof -
  assume a: "0 < y" "x = of_int k * 2 powi quantum F y" "\<bar>y - x\<bar> < 2 powi quantum F y / 2"
  define q where "q = (2 :: rat) powi quantum F y"
  have q: "0 < q" by (simp add: q_def)
  have "y - x = (y / q - of_int k) * q" using a(2) q by (simp add: left_diff_distrib flip: q_def)
  then have "\<bar>y / q - of_int k\<bar> * q < q / 2" using a(3) q by (simp add: abs_mult flip: q_def)
  then have "\<bar>y / q - of_int k\<bar> * q < 1 / 2 * q" by simp
  then have "\<bar>y / q - of_int k\<bar> < 1 / 2" using q by (simp only: mult_less_cancel_right_pos)
  then have "rne (y / q) = k" by (rule rne_near)
  then show ?thesis using a(1,2) by (simp add: round_rat_pos flip: q_def)
qed

lemma round_single_close:
  assumes x: "0 < x" "round_rat single_fmt x = x" and y: "\<bar>y - x\<bar> < 2 powi (- 26) * x"
  shows "round_rat single_fmt y = x"
proof -
  define k where "k = flog2 x"
  have k: "2 powi k \<le> x" "x < 2 powi (k + 1)" using flog2_bounds [OF x(1)] by (simp_all add: k_def)
  define q where "q = quantum single_fmt x"
  have q: "q = max (k - 23) (- 149)" using x(1) by (simp add: q_def quantum_def single_fmt_def k_def)
  define M where "M = rne (x / 2 powi q)"
  have M: "x = of_int M * 2 powi q" using x round_rat_pos [OF x(1), of single_fmt] by (simp add: M_def q_def)
  have "2 powi (- 26) * x < 2 powi (- 26) * 2 powi (k + 1)" using k(2) by (intro mult_strict_left_mono) simp_all
  also have "\<dots> = 2 powi (k - 25)" by (subst power_int_add [symmetric]) (simp_all add: algebra_simps)
  finally have d: "\<bar>y - x\<bar> < 2 powi (k - 25)" using y by linarith
  have half: "2 powi (k - 25) \<le> (2 powi (k - 1) :: rat)" by simp
  have two: "(2 :: rat) powi k = 2 * 2 powi (k - 1)" using powi2_Suc [of "k - 1"] by simp
  have y0: "2 powi (k - 1) < y" using d half k(1) two by linarith
  then have ypos: "0 < y" using powi2_pos [of "k - 1"] by linarith
  have "x \<le> 2 powi (k + 1) - 2 powi q" if "q \<le> k + 1"
  proof -
    have e: "(2 :: rat) powi (k + 1) = of_int (2 ^ nat (k + 1 - q)) * 2 powi q" using that by (rule powi2_split)
    then have "of_int M * 2 powi q < of_int (2 ^ nat (k + 1 - q)) * (2 powi q :: rat)" using k(2) M by simp
    then have "of_int M < (of_int (2 ^ nat (k + 1 - q)) :: rat)" by (simp only: mult_less_cancel_right_pos powi2_pos)
    then have "M \<le> 2 ^ nat (k + 1 - q) - 1" by (simp only: of_int_less_iff)
    then have "of_int M \<le> (of_int (2 ^ nat (k + 1 - q) - 1) :: rat)" by (simp only: of_int_le_iff)
    then have "of_int M * 2 powi q \<le> (of_int (2 ^ nat (k + 1 - q) - 1) :: rat) * 2 powi q" by (intro mult_right_mono) simp_all
    then show ?thesis using M e by (simp add: left_diff_distrib)
  qed
  moreover have qk: "q \<le> k"
  proof (rule ccontr)
    assume "\<not> q \<le> k"
    then have "2 powi (k + 1) \<le> (2 powi q :: rat)" by simp
    then have "of_int M * 2 powi q < (1 :: rat) * 2 powi q" using k(2) M by linarith
    then have "of_int M < (1 :: rat)" by (simp only: mult_less_cancel_right_pos powi2_pos)
    then have "M \<le> 0" by simp
    then have "x \<le> 0" using M by (simp add: mult_nonpos_nonneg)
    then show False using x(1) by simp
  qed
  moreover have "2 powi (k - 25) \<le> (2 powi q :: rat)" using q by simp
  ultimately have y1: "y < 2 powi (k + 1)" using d by linarith
  have ky: "flog2 y = k - 1 \<or> flog2 y = k"
  proof (cases "2 powi k \<le> y")
    case True
    then show ?thesis using flog2_unique y1 by blast
  next
    case False
    then have "flog2 y = k - 1" using y0 by (intro flog2_unique) simp_all
    then show ?thesis by simp
  qed
  define p where "p = quantum single_fmt y"
  have p: "p = max (flog2 y - 23) (- 149)" using ypos by (simp add: p_def quantum_def single_fmt_def)
  then have pq: "p \<le> q" "k - 24 \<le> p" using ky q by auto
  have "x = of_int (M * 2 ^ nat (q - p)) * 2 powi p" using M powi2_split [OF pq(1)] by (simp add: mult.assoc)
  moreover have "(2 :: rat) powi (k - 25) \<le> 2 powi p / 2"
  proof -
    have "(2 :: rat) powi (k - 25) \<le> 2 powi (p - 1)" using pq(2) by simp
    also have "\<dots> = 2 powi p / 2" using powi2_Suc [of "p - 1"] by simp
    finally show ?thesis .
  qed
  then have "\<bar>y - x\<bar> < 2 powi p / 2" using d by linarith
  ultimately show ?thesis unfolding p_def by (rule round_to_multiple [OF ypos])
qed

text \<open>The positive finite floats.\<close>

definition FLT_MAX :: rat where
  "FLT_MAX = (2 ^ 24 - 1) * 2 ^ 104"

definition float_pos :: "rat \<Rightarrow> bool" where
  "float_pos x \<longleftrightarrow> representable single_fmt x \<and> 0 < x \<and> x < 2 powi 128"

lemma float_pos_range:
  assumes "float_pos x"
  shows "p10 (- 45) \<le> x" "x \<le> p10 39" "x \<le> FLT_MAX" "round_rat single_fmt x = x"
proof -
  obtain m q where m: "x = of_int m * 2 powi q" "\<bar>m\<bar> < 2 ^ 24" "- 149 \<le> q" "0 < x" "x < 2 powi 128"
    using assms by (auto simp: float_pos_def representable_def single_fmt_def)
  have m1: "1 \<le> m"
  proof (rule ccontr)
    assume "\<not> 1 \<le> m"
    then have "of_int m * 2 powi q \<le> (0 :: rat)" by (intro mult_nonpos_nonneg) simp_all
    then show False using m by simp
  qed
  have "p10 (- 45) \<le> 2 powi (- 149)" by (simp add: p10_def power_int_def power_divide)
  also have "\<dots> \<le> 2 powi q" using m(3) by (rule powi2_mono)
  also have "\<dots> = 1 * 2 powi q" by simp
  also have "\<dots> \<le> of_int m * 2 powi q" using m1 by (intro mult_right_mono) simp_all
  finally show "p10 (- 45) \<le> x" using m(1) by simp
  have "2 powi 128 \<le> p10 39" by (simp add: p10_def)
  then show "x \<le> p10 39" using m(5) by linarith
  show "round_rat single_fmt x = x"
    using assms by (intro round_rat_representable) (simp_all add: float_pos_def single_fmt_def)
  have mb: "of_int m \<le> (2 ^ 24 - 1 :: rat)"
  proof -
    have "m \<le> 2 ^ 24 - 1" using m(2) by simp
    then have "(of_int m :: rat) \<le> of_int (2 ^ 24 - 1)" by (simp only: of_int_le_iff)
    then show ?thesis by simp
  qed
  show "x \<le> FLT_MAX"
  proof (cases "q \<le> 104")
    case True
    then have "(2 :: rat) powi q \<le> 2 powi 104" by (rule powi2_mono)
    then have "of_int m * 2 powi q \<le> (2 ^ 24 - 1) * (2 powi 104 :: rat)" using mb m1 by (intro mult_mono) simp_all
    then show ?thesis using m(1) by (simp add: FLT_MAX_def)
  next
    case False
    then have s: "(2 :: rat) powi q = of_int (2 ^ nat (q - 104)) * 2 powi 104" by (intro powi2_split) simp
    define n where "n = m * 2 ^ nat (q - 104)"
    have xn: "x = of_int n * 2 powi 104" using m(1) s by (simp add: n_def)
    have "(2 :: rat) powi 128 = of_int (2 ^ 24) * 2 powi 104" using powi2_split [of 104 128] by simp
    then have "of_int n * 2 powi 104 < of_int (2 ^ 24) * (2 powi 104 :: rat)" using m(5) xn by simp
    then have "of_int n < (of_int (2 ^ 24) :: rat)" by (simp only: mult_less_cancel_right_pos powi2_pos)
    then have "n \<le> 2 ^ 24 - 1" by (simp only: of_int_less_iff)
    then have "(of_int n :: rat) \<le> of_int (2 ^ 24 - 1)" by (simp only: of_int_le_iff)
    then have "of_int n * 2 powi 104 \<le> (of_int (2 ^ 24 - 1) :: rat) * 2 powi 104" by (intro mult_right_mono) simp_all
    then show ?thesis using xn by (simp add: FLT_MAX_def)
  qed
qed

text \<open>The double that the scanner makes of nine digits rounds back to the float.\<close>

lemma nine_digits_exact:
  assumes x: "float_pos x" and m: "10 ^ 8 \<le> m" "m < 10 ^ 9" "\<bar>rat_of_nat m - x * p10 n\<bar> \<le> 501 / 1000"
    and d: "(1 - slack) * of_nat m \<le> d * p10 n" "d * p10 n \<le> (1 + slack) * of_nat m"
  shows "round_rat single_fmt d = x"
proof -
  have "rat_of_nat (10 ^ 8) \<le> rat_of_nat m" "rat_of_nat m \<le> rat_of_nat (10 ^ 9)" using m by (simp_all only: of_nat_le_iff)
  then have mb: "10 ^ 8 \<le> rat_of_nat m" "rat_of_nat m \<le> 10 ^ 9" by simp_all
  have s: "slack * rat_of_nat m \<le> 1 / 1000"
  proof -
    have "slack * rat_of_nat m \<le> slack * 10 ^ 9" using mb(2) by (intro mult_left_mono) (simp_all add: slack_def)
    also have "\<dots> \<le> 1 / 1000" by (simp add: slack_def)
    finally show ?thesis .
  qed
  have dm: "\<bar>d * p10 n - rat_of_nat m\<bar> \<le> 1 / 1000"
    using d s by (simp only: left_diff_distrib distrib_right [of 1 slack] mult_1_left abs_le_iff) linarith
  then have "\<bar>d * p10 n - x * p10 n\<bar> \<le> 502 / 1000" using m(3) by linarith
  moreover have "10 ^ 8 - 1 \<le> x * p10 n" using m(3) mb(1) by linarith
  then have "2 powi (- 26) * (10 ^ 8 - 1) \<le> 2 powi (- 26) * (x * p10 n)" by (intro mult_left_mono) simp_all
  moreover have "502 / 1000 < 2 powi (- 26) * (10 ^ 8 - 1 :: rat)" by (simp add: power_int_def power_divide)
  ultimately have "\<bar>d * p10 n - x * p10 n\<bar> < 2 powi (- 26) * (x * p10 n)" by linarith
  moreover have "\<bar>d * p10 n - x * p10 n\<bar> = \<bar>d - x\<bar> * p10 n" by (simp add: abs_mult flip: left_diff_distrib)
  ultimately have "\<bar>d - x\<bar> * p10 n < 2 powi (- 26) * x * p10 n" by (simp only: mult.assoc)
  then have "\<bar>d - x\<bar> < 2 powi (- 26) * x" by (simp only: mult_less_cancel_right_pos p10_pos)
  moreover have "0 < x" using x by (simp only: float_pos_def)
  ultimately show ?thesis using float_pos_range(4) [OF x] round_single_close by blast
qed

text \<open>
  A bound for the double, for readers that compare it with the largest float before the conversion.
\<close>

definition READ_MAX :: rat where
  "READ_MAX = 340282349 * 10 ^ 30"

lemma read_back_bound:
  assumes x: "float_pos x" and sig: "sig = 4 \<or> sig = 9" and m: "10 ^ (sig - 1) \<le> m" "m < 10 ^ sig"
    and n: "\<bar>rat_of_nat m - x * p10 n\<bar> \<le> 501 / 1000"
    and d: "(1 - slack) * of_nat m \<le> d * p10 n" "d * p10 n \<le> (1 + slack) * of_nat m"
    and r: "round_rat single_fmt d = x"
  shows "0 < d" "d \<le> READ_MAX"
proof -
  have "1 \<le> m" using m(1) order_trans [OF one_le_power [of "10 :: nat" "sig - 1"] m(1)] by simp
  then have "rat_of_nat 1 \<le> rat_of_nat m" by (simp only: of_nat_le_iff)
  then have "0 < (1 - slack) * rat_of_nat m" by (simp add: slack_def)
  then have "0 < d * p10 n" using d(1) by linarith
  then show "0 < d" by (simp only: zero_less_mult_pos2 [OF _ p10_pos])
  have xm: "x \<le> FLT_MAX" by (rule float_pos_range [OF x])
  have conv: "d \<le> c" if "d * p10 n \<le> c * p10 n" for c using that by (simp only: mult_le_cancel_right_pos p10_pos)
  have top: "x * p10 (- int k) \<le> FLT_MAX / 10 ^ k" for k using xm by (simp add: p10_neg divide_right_mono)
  define k where "k = (if sig = 4 then (35 :: nat) else 30)"
  have "int k = 39 - int sig" using sig by (auto simp: k_def)
  consider "- int k < n" | "n < - int k" | "n = - int k" by linarith
  then show "d \<le> READ_MAX"
  proof cases
    case 1
    have "rat_of_nat m \<le> rat_of_nat (10 ^ sig)" using m(2) by (simp only: of_nat_le_iff)
    then have "(1 + slack) * rat_of_nat m \<le> (1 + slack) * 10 ^ sig" by (intro mult_left_mono) (simp_all add: slack_def)
    also have "10 ^ sig = p10 38 * p10 (1 - int k)" using \<open>int k = 39 - int sig\<close> by (simp add: p10_add [symmetric] p10_nat [symmetric])
    also have "(1 + slack) * (p10 38 * p10 (1 - int k)) \<le> (1 + slack) * (p10 38 * p10 n)"
      using 1 by (intro mult_left_mono p10_mono) (simp_all add: slack_def)
    also have "\<dots> = (1 + slack) * p10 38 * p10 n" by simp
    finally have "d \<le> (1 + slack) * p10 38" using d(2) by (intro conv) linarith
    also have "\<dots> \<le> READ_MAX" by (simp add: slack_def READ_MAX_def p10_def)
    finally show ?thesis .
  next
    case 2
    have "rat_of_nat (10 ^ (sig - 1)) \<le> rat_of_nat m" using m(1) by (simp only: of_nat_le_iff)
    then have "10 ^ (sig - 1) \<le> rat_of_nat m" by (simp only: of_nat_power of_nat_numeral)
    then have "10 ^ (sig - 1) - 1 \<le> x * p10 n" using n by linarith
    also have "\<dots> \<le> FLT_MAX * p10 (- int k - 1)" using 2 xm x by (intro mult_mono p10_mono) (simp_all add: float_pos_def FLT_MAX_def)
    finally have False using sig by (auto simp: k_def FLT_MAX_def p10_def power_int_def power_divide)
    then show ?thesis ..
  next
    case 3
    have xp: "x * p10 n \<le> FLT_MAX / 10 ^ k" using top by (simp add: 3)
    have mx: "rat_of_nat m \<le> FLT_MAX / 10 ^ k + 501 / 1000" using n xp by linarith
    show ?thesis
    proof (cases "sig = 4")
      case True
      then have k: "k = 35" by (simp add: k_def)
      have "rat_of_nat m < rat_of_nat 3404" using mx by (simp add: k FLT_MAX_def)
      then have m3: "m < 3404" by (simp only: of_nat_less_iff)
      show ?thesis
      proof (cases "m = 3403")
        case True
        have "(1 - slack) * 3403 * 10 ^ 35 * p10 n \<le> d * p10 n" using d(1) True by (simp add: 3 k p10_def power_int_def power_divide)
        then have "(1 - slack) * 3403 * 10 ^ 35 \<le> d" by (simp only: mult_le_cancel_right_pos p10_pos)
        moreover have "2 powi 128 \<le> (1 - slack) * 3403 * 10 ^ 35" by (simp add: slack_def)
        ultimately have "2 powi 128 \<le> d" by linarith
        moreover have "representable single_fmt (2 powi 128)"
          unfolding representable_def by (intro exI [of _ 1] exI [of _ 128]) (simp add: single_fmt_def)
        then have "round_rat single_fmt (2 powi 128) = 2 powi 128" by (intro round_rat_representable) (simp_all add: single_fmt_def)
        ultimately have "2 powi 128 \<le> round_rat single_fmt d" by (intro r32.fixed_le)
        then show ?thesis using r x by (simp add: float_pos_def)
      next
        case False
        then have "m \<le> 3402" using m3 by simp
        then have "rat_of_nat m \<le> rat_of_nat 3402" by (simp only: of_nat_le_iff)
        then have "(1 + slack) * rat_of_nat m \<le> (1 + slack) * 3402" by (intro mult_left_mono) (simp_all add: slack_def)
        moreover have "(1 + slack) * 3402 \<le> READ_MAX * p10 n" by (simp add: 3 k p10_def power_int_def power_divide READ_MAX_def slack_def)
        ultimately have "d * p10 n \<le> READ_MAX * p10 n" using d(2) by linarith
        then show ?thesis by (rule conv)
      qed
    next
      case False
      then have k: "k = 30" by (simp add: k_def)
      have "rat_of_nat m < rat_of_nat 340282348" using mx by (simp add: k FLT_MAX_def)
      then have "m \<le> 340282347" by (simp only: of_nat_less_iff)
      then have "rat_of_nat m \<le> rat_of_nat 340282347" by (simp only: of_nat_le_iff)
      then have "(1 + slack) * rat_of_nat m \<le> (1 + slack) * 340282347" by (intro mult_left_mono) (simp_all add: slack_def)
      moreover have "(1 + slack) * 340282347 \<le> READ_MAX * p10 n" by (simp add: 3 k p10_def power_int_def power_divide READ_MAX_def slack_def)
      ultimately have "d * p10 n \<le> READ_MAX * p10 n" using d(2) by linarith
      then show ?thesis by (rule conv)
    qed
  qed
qed

section \<open>The number text of a float\<close>

lemma fp_round_float: "round_rat single_fmt d = x \<Longrightarrow> float_pos x \<Longrightarrow> 0 < d \<Longrightarrow>
  fp_round single_fmt s (signed neg d) = FpFin neg (signed neg x)"
  by (auto simp: fp_round_def signed_def round_rat_minus Let_def single_fmt_def float_pos_def not_le [symmetric])

text \<open>What the scanner makes of the text: a double of the float's sign, within the reader's range, that converts
  to the float.\<close>

definition reads_back :: "u8 list \<Rightarrow> fp \<Rightarrow> bool" where
  "reads_back b v \<longleftrightarrow> (\<exists>s y. cfg_json_scan_num b = Some (length b, FpFin s y) \<and> \<bar>y\<bar> \<le> READ_MAX \<and> double_to_single (FpFin s y) = v)"

lemma print_reads_back:
  assumes x: "float_pos x" and sig: "sig = 4 \<or> sig = 9"
  shows "\<exists>b d. cfg_json_fmt_g 40 (FpFin neg (signed neg x)) (int sig) = Some b \<and> length b \<le> 16 \<and>
    cfg_json_scan_num b = Some (length b, FpFin neg (signed neg d)) \<and> 0 < d \<and>
    (sig = 9 \<longrightarrow> round_rat single_fmt d = x) \<and> (round_rat single_fmt d = x \<longrightarrow> d \<le> READ_MAX)"
proof -
  note r = float_pos_range [OF x]
  have sig2: "1 \<le> sig" "sig \<le> 9" using sig by auto
  obtain b d m n where p: "cfg_json_fmt_g 40 (FpFin neg (signed neg x)) (int sig) = Some b"
      "cfg_json_scan_num b = Some (length b, FpFin neg (signed neg d))" "length b \<le> 16"
      "10 ^ (sig - 1) \<le> m" "m < 10 ^ sig" "\<bar>rat_of_nat m - x * p10 n\<bar> \<le> 501 / 1000"
      "(1 - slack) * of_nat m \<le> d * p10 n" "d * p10 n \<le> (1 + slack) * of_nat m"
    using print_scan [OF r(1,2) sig2] by blast
  have "1 \<le> m" using p(4) order_trans [OF one_le_power [of "10 :: nat" "sig - 1"] p(4)] by simp
  then have "rat_of_nat 1 \<le> rat_of_nat m" by (simp only: of_nat_le_iff)
  then have "0 < (1 - slack) * rat_of_nat m" by (simp add: slack_def)
  then have "0 < d * p10 n" using p(7) by linarith
  then have d0: "0 < d" by (simp only: zero_less_mult_pos2 [OF _ p10_pos])
  have "sig = 9 \<longrightarrow> round_rat single_fmt d = x" using nine_digits_exact [OF x _ _ p(6,7,8)] p(4,5) by auto
  moreover have "round_rat single_fmt d = x \<longrightarrow> d \<le> READ_MAX" using read_back_bound(2) [OF x sig p(4-8)] by blast
  ultimately show ?thesis using p(1-3) d0 by blast
qed

lemma f32_text_reads_back:
  assumes "isfinite v"
  shows "\<exists>b. f32_text v = Some b \<and> reads_back b (fpv v) \<and> length b \<le> 16"
proof -
  obtain s r where v: "fpv v = FpFin s r" using assms by (auto elim: isfinite_obtain)
  show ?thesis
  proof (cases "r = 0")
    case True
    have c: "cfg_json_fmt_g 40 (fpv v) g = Some (if s then [MINUS, ZERO] else [ZERO])" for g
      by (simp add: cfg_json_fmt_g_def v True fp_finite_def fp_zero_def fmt_zero_def Let_def)
    have n: "cfg_json_scan_num (if s then [MINUS, ZERO] else [ZERO]) = Some (length (if s then [MINUS, ZERO] else [ZERO]), FpFin s 0)"
      by (auto simp: cfg_json_scan_num_def scan_int_def scan_frac_def scan_exp_def scan_value_def)
    have d: "double_to_single (FpFin s 0) = fpv v" by (simp add: double_to_single_def fp_round_def v True single_fmt_def)
    then have "f32_text v = Some (if s then [MINUS, ZERO] else [ZERO])" unfolding f32_text_def c option.case n by simp
    then show ?thesis using n d unfolding reads_back_def by (auto simp: READ_MAX_def)
  next
    case False
    define x where "x = \<bar>r\<bar>"
    have sv: "single (FpFin s r)" using single_fpv [of v] by (simp add: v)
    then have neg: "s = (r < 0)" using False by simp
    then have rx: "r = signed s x" by (simp add: signed_def x_def)
    have "representable single_fmt x"
    proof -
      obtain m q where "r = of_int m * 2 powi q" "\<bar>m\<bar> < 2 ^ nat (fmt_prec single_fmt)" "fmt_qmin single_fmt \<le> q"
        using sv by (auto simp: representable_def)
      then show ?thesis unfolding representable_def x_def by (intro exI [of _ "\<bar>m\<bar>"] exI [of _ q]) (simp add: abs_mult)
    qed
    then have x: "float_pos x" using sv False by (simp add: float_pos_def x_def)
    have ex: "reads_back b (fpv v)"
      if "cfg_json_scan_num b = Some (length b, FpFin s (signed s d))" "0 < d" "round_rat single_fmt d = x" "d \<le> READ_MAX" for b d
      using that fp_round_float [OF that(3) x that(2)] unfolding reads_back_def
      by (intro exI [of _ s] exI [of _ "signed s d"]) (simp add: double_to_single_def v rx signed_def)
    obtain b4 d4 where p4: "cfg_json_fmt_g 40 (fpv v) (int 4) = Some b4" "length b4 \<le> 16"
        "cfg_json_scan_num b4 = Some (length b4, FpFin s (signed s d4))" "0 < d4" "round_rat single_fmt d4 = x \<longrightarrow> d4 \<le> READ_MAX"
      using print_reads_back [OF x, of 4 s] by (auto simp: v rx)
    obtain b9 d9 where p9: "cfg_json_fmt_g 40 (fpv v) (int 9) = Some b9" "length b9 \<le> 16"
        "cfg_json_scan_num b9 = Some (length b9, FpFin s (signed s d9))" "0 < d9" "round_rat single_fmt d9 = x" "d9 \<le> READ_MAX"
      using print_reads_back [OF x, of 9 s] by (auto simp: v rx)
    have t: "f32_text v = (if fp_key (double_to_single (FpFin s (signed s d4))) \<noteq> fp_key (fpv v) then Some b9 else Some b4)"
      using p4(1,3) p9(1) by (simp add: f32_text_def CFG_JSON_SIG_DEFAULT_def CFG_JSON_SIG_EXACT_def)
    show ?thesis
    proof (cases "fp_key (double_to_single (FpFin s (signed s d4))) = fp_key (fpv v)")
      case True
      then have "round_rat single_fmt (signed s d4) = signed s x"
        using False by (auto simp: double_to_single_def v rx fp_round_def Let_def split: if_splits)
      then have "round_rat single_fmt d4 = x" by (auto simp: signed_def round_rat_minus split: if_splits)
      then show ?thesis using ex [OF p4(3,4)] p4(2,5) t True by simp
    next
      case no: False
      then show ?thesis using ex [OF p9(3-6)] p9(2) t by simp
    qed
  qed
qed

text \<open>C26 (roundtrip). The number text \<open>C24 (roundtrip). cfg_json_w_f32\<close> writes for a finite float is a number of the wire grammar, short
  enough for the reader's token bound, and reading it with \<open>cfg_json_scan_num\<close> and converting the double
  gives the same float back, sign of zero included: the short form is only used when it loses nothing, and nine digits
  are always enough.\<close>

theorem float_text_round_trip:
  assumes "isfinite v"
  shows "\<exists>b d. f32_text v = Some b \<and> cfg_json_scan_num b = Some (length b, d) \<and> double_to_single d = fpv v \<and>
    json_number b \<and> length b \<le> CFG_JSON_NUM_CHARS_MAX"
proof -
  obtain b where "f32_text v = Some b" "reads_back b (fpv v)" "length b \<le> 16" using f32_text_reads_back [OF assms] by blast
  moreover have "json_number b" using calculation(2) scan_num_iff unfolding reads_back_def by blast
  ultimately show ?thesis unfolding reads_back_def CFG_JSON_NUM_CHARS_MAX_def by fastforce
qed

theorem float_text_round_trip_witness:
  "\<exists>b d. f32_text 1 = Some b \<and> cfg_json_scan_num b = Some (length b, d) \<and> double_to_single d = fpv 1 \<and>
    json_number b \<and> length b \<le> CFG_JSON_NUM_CHARS_MAX"
  by (rule float_text_round_trip) simp

end
