(* ===== verification/Json_Print.thy ===== *)
theory Json_Print
  imports Json_Decide Json_Render Json_Float
begin

text \<open>
  The writer against the reader of \<open>control/Src/config_json.c\<close>: integers and strings come back unchanged, and
  every document the writer is driven over, whatever the chunk size, is one text that
  \<open>cfg_json_validate\<close> accepts.
\<close>

section \<open>Integers\<close>

lemma dec_snoc: "dec k (ds @ [c]) = dec k ds * 10 + digit_val c"
  by simp

lemma dec_rev_props:
  "unat u < 10 ^ k \<Longrightarrow> 0 < k \<Longrightarrow> list_all is_digit (dec_rev k u) \<and> dec_rev k u \<noteq> [] \<and> dec 0 (rev (dec_rev k u)) = unat u \<and>
    (u \<noteq> 0 \<longrightarrow> last (dec_rev k u) \<noteq> ZERO)"
proof (induction k arbitrary: u)
  case (Suc k)
  note d = digit_chr_val [OF u32_digit [of u]]
  have q: "unat (u div 10) = unat u div 10" by (rule u32_ten)
  show ?case
  proof (cases "u div 10 = 0")
    case True
    then have z: "unat u div 10 = 0" using q by simp
    then have "unat u mod 10 = unat u" by (simp add: div_eq_0_iff)
    moreover have "u \<noteq> 0 \<Longrightarrow> digit_chr (u mod 10) \<noteq> ZERO"
    proof
      assume "u \<noteq> 0" "digit_chr (u mod 10) = ZERO"
      then have "unat u mod 10 = 0" using d by (simp add: digit_val_def u32_ten)
      then show False using \<open>u \<noteq> 0\<close> calculation by (simp add: unat_eq_0)
    qed
    ultimately show ?thesis using True d by (simp add: u32_ten)
  next
    case False
    have "unat u div 10 < 10 ^ k" using Suc.prems(1) by (simp add: less_mult_imp_div_less mult.commute)
    moreover have "0 < k"
    proof (rule ccontr)
      assume "\<not> 0 < k"
      then have "unat u div 10 = 0" using Suc.prems(1) by simp
      then show False using False q by (metis unat_eq_0)
    qed
    ultimately have ih: "list_all is_digit (dec_rev k (u div 10)) \<and> dec_rev k (u div 10) \<noteq> [] \<and>
        dec 0 (rev (dec_rev k (u div 10))) = unat u div 10 \<and> last (dec_rev k (u div 10)) \<noteq> ZERO"
      using Suc.IH [of "u div 10"] False q by simp
    then show ?thesis using False d by (simp add: u32_ten)
  qed
qed simp

lemma u32_below: "unat (u :: u32) < 10 ^ 20"
  using unat_lt2p [of u] by simp

lemma dec_rev_length: "length (dec_rev 20 u) \<le> 10"
proof (cases "u = 0")
  case False
  note p = dec_rev_props [OF u32_below, of u, simplified]
  obtain c cs where c: "rev (dec_rev 20 u) = c # cs" using p by (cases "rev (dec_rev 20 u)") auto
  have "c \<noteq> ZERO" using p False c by (metis hd_rev list.sel(1))
  moreover have dig: "is_digit c" using p c by (metis list_all_rev list.pred_inject(2))
  ultimately have "1 \<le> digit_val c" using digit_val_zero by fastforce
  then have "10 ^ length cs \<le> dec 0 (c # cs)" using dec_scale [of "digit_val c" cs] by (simp add: trans_le_add1)
  also have "\<dots> = unat u" using p c by metis
  also have "\<dots> < 2 ^ 32" using unat_lt2p [of u] by simp
  also have "\<dots> < (10 :: nat) ^ 10" by simp
  finally have "length cs < 10" using power_less_imp_less_exp [of "10 :: nat" "length cs" 10] by simp
  then show ?thesis using c by (metis Suc_leI length_Cons length_rev)
qed (simp add: numeral_eq_Suc)

lemma int_magnitude: "unat (if v <s 0 then - (v + 1) + 1 else v :: u32) = nat \<bar>sint v\<bar>"
proof (cases "v <s 0")
  case True
  then have s: "sint v < 0" by (simp add: word_sless_alt)
  have e: "- (v + 1) + 1 = of_int (- sint v)" by simp
  have "- sint v \<le> 2 ^ 31" using sint_ge [of v] by simp
  then have "unat (of_int (- sint v) :: u32) = nat (- sint v)" using s by (intro unat_of_int_u32) simp_all
  then show ?thesis using True s unfolding e by simp
next
  case False
  then have s: "0 \<le> sint v" by (simp add: word_sless_alt)
  have "sint v < 2 ^ 31" using sint_lt [of v] by simp
  then have "unat (of_int (sint v) :: u32) = nat (sint v)" using s by (intro unat_of_int_u32) simp_all
  then show ?thesis using False s by simp
qed

lemma scan_value_nat: "k < 2 ^ 53 \<Longrightarrow> scan_value (of_nat k, s, 0) = FpFin False (of_nat k)"
proof (cases "k = 0")
  case False
  assume k: "k < 2 ^ 53"
  then have u: "uint (of_nat k :: u64) = int k" by (simp add: unsigned_of_nat take_bit_nat_eq_self)
  then have nz: "(of_nat k :: u64) \<noteq> 0" using False by (metis of_nat_eq_0_iff uint_0_iff)
  have "normal (of_nat k)" unfolding normal_def
  proof
    have "2 powi (- 1000) \<le> (1 :: rat)" by simp
    moreover have "1 \<le> rat_of_nat k" using False by simp
    ultimately show "2 powi (- 1000) \<le> rat_of_nat k" by linarith
    have "rat_of_nat k < rat_of_nat (2 ^ 53)" using k by (simp only: of_nat_less_iff)
    also have "\<dots> \<le> 2 powi 1000" by simp
    finally show "rat_of_nat k \<le> 2 powi 1000" by simp
  qed
  then have "fp_round double_fmt False (of_int (uint (of_nat k :: u64))) = FpFin False (of_nat k)"
    using round_normal(2) round_double_nat [OF k] by (simp add: u)
  then show ?thesis using nz by (simp add: scan_value_def scale_pow10.simps [of _ 0])
qed (simp add: scan_value_def)

lemma nat_reads: "reads (rev (dec_rev 20 u)) (unat u) 0"
proof (cases "u = 0")
  case True
  have "rev (dec_rev 20 0) = [ZERO]" by (simp add: numeral_eq_Suc digit_chr_def)
  then show ?thesis by (auto simp: True reads_def scan_int_def scan_frac_def scan_exp_def)
next
  case False
  note p = dec_rev_props [OF u32_below, of u, simplified]
  let ?t = "rev (dec_rev 20 u)"
  have t: "list_all is_digit ?t" "?t \<noteq> []" "hd ?t \<noteq> ZERO" "length ?t \<le> 19"
    using p False dec_rev_length [of u] by (auto simp: hd_rev)
  have i: "scan_int ?t = Some ((of_nat (dec 0 ?t), length ?t, 0), [])" using scan_int_digits [OF t, of "[]"] by simp
  have "hd ?t \<noteq> MINUS" using t(1,2) hd_digit_not_minus by (cases ?t) auto
  then have "reads ?t (dec 0 ?t) 0" by (intro readsI [OF i no_frac no_exp_end t(2)]) simp_all
  then show ?thesis using p by simp
qed

text \<open>The text of a \<open>long\<close> is scanned as exactly its value.\<close>

lemma int_text_scan: "cfg_json_scan_num (int_text v) = Some (length (int_text v), FpFin (v <s 0) (of_int (sint v)))"
proof -
  define u where "u = (if v <s 0 then - (v + 1) + 1 else v)"
  have m: "unat u = nat \<bar>sint v\<bar>" unfolding u_def by (rule int_magnitude)
  have "unat u < 2 ^ 53" using unat_lt2p [of u] by simp
  then have val: "scan_value (of_nat (unat u), s, 0) = FpFin False (of_nat (unat u))" for s by (rule scan_value_nat)
  have n: "(v <s 0) = (sint v < 0)" by (simp add: word_sless_alt)
  have t: "int_text v = (if v <s 0 then [MINUS] else []) @ rev (dec_rev 20 u)" by (simp add: int_text_def u_def Let_def)
  have r: "rat_of_nat (unat u) = of_int \<bar>sint v\<bar>" unfolding m by simp
  show ?thesis
  proof (cases "v <s 0")
    case True
    then have "- rat_of_nat (unat u) = of_int (sint v)" unfolding r using n by simp
    then show ?thesis using reads_neg [OF nat_reads, of u] True unfolding t val by auto
  next
    case False
    then have "rat_of_nat (unat u) = of_int (sint v)" unfolding r using n by simp
    then show ?thesis using reads_num [OF nat_reads, of u] False unfolding t val by auto
  qed
qed

lemma int_text_length: "length (int_text v) \<le> 11"
  using dec_rev_length le_SucI [OF dec_rev_length] by (simp add: int_text_def Let_def)

lemma int_text_number: "json_number (int_text v)"
  using int_text_scan scan_num_iff by blast

section \<open>Strings\<close>

lemma str_put_fits: "length out + 1 < cap \<Longrightarrow> str_put cap (out, False) c = (out @ [c], False)"
  by (simp add: str_put_def)

text \<open>The string loop undoes one escaped byte.\<close>

lemma control_cases: "c < 0x20 \<Longrightarrow> c \<in> {0, 1, 2, 3, 4, 5, 6, 7, 8, 9, 10, 11, 12, 13, 14, 15, 16, 17, 18, 19, 20, 21, 22, 23, 24, 25, 26,
    27, 28, 29, 30, 31 :: u8}"
proof -
  assume "c < 0x20"
  then have "unat c < 32" by (simp add: word_less_nat_alt)
  then have "unat c \<in> {..<32}" by simp
  then have "of_nat (unat c) \<in> (of_nat :: nat \<Rightarrow> u8) ` {..<32}" by (rule imageI)
  also have "{..<32 :: nat} = set [0..<32]" by auto
  finally have "c \<in> set (map of_nat [0..<32])" by simp
  also have "map of_nat [0..<32] = [0, 1, 2, 3, 4, 5, 6, 7, 8, 9, 10, 11, 12, 13, 14, 15, 16, 17, 18, 19, 20, 21, 22, 23, 24, 25, 26,
    27, 28, 29, 30, 31 :: u8]" by (simp add: upt_rec)
  finally show ?thesis by (simp only: list.set)
qed

lemma escape_read: "str_loop cap a (escape_chr c @ r) = str_loop cap (str_put cap a c) r"
proof (cases "c < 0x20")
  case True
  then show ?thesis using control_cases [OF True]
    by (elim insertE emptyE) (simp_all add: escape_chr_def simple_escape_def hex_val_def utf8_def hex_digit_def)
next
  case False
  then show ?thesis by (auto simp: escape_chr_def simple_escape_def)
qed

lemma quoted_read:
  "length out + length s < cap \<Longrightarrow> str_loop cap (out, False) (concat (map escape_chr s) @ QUOTE # r) = (CFG_JSON_OK, (out @ s, False), r)"
proof (induction s arbitrary: out)
  case (Cons c s)
  then have "str_put cap (out, False) c = (out @ [c], False)" by (intro str_put_fits) simp
  then show ?case using Cons.IH [of "out @ [c]"] Cons.prems by (simp add: escape_read)
qed simp

lemma quoted_string: "json_string (quoted s)"
proof -
  let ?s = "takeWhile (\<lambda>c. c \<noteq> 0) s"
  have "str_loop (length ?s + 1) ([], False) (concat (map escape_chr ?s) @ QUOTE # []) = (CFG_JSON_OK, ([] @ ?s, False), [])"
    by (rule quoted_read) simp
  then obtain cs where "json_chars cs" "concat (map escape_chr ?s) @ [QUOTE] = cs @ [QUOTE]" using str_loop_sound by fastforce
  then show ?thesis by (auto simp: json_string_def quoted_def)
qed

text \<open>A string that was written with the escapes of \<open>wr_quoted\<close> is read back by \<open>cfg_json_str\<close> as the
  bytes of the C string, whatever follows it, when the caller's buffer holds them with their NUL.\<close>

theorem string_round_trip:
  assumes "length (takeWhile (\<lambda>c. c \<noteq> 0) s) < cap" "j_err j = CFG_JSON_OK"
  shows "cfg_json_str cap (j\<lparr>j_rest := quoted s @ r\<rparr>) = (Some (takeWhile (\<lambda>c. c \<noteq> 0) s, False), j\<lparr>j_rest := r\<rparr>)"
  using quoted_read [of "[]" "takeWhile (\<lambda>c. c \<noteq> 0) s" cap r] assms
  by (simp add: cfg_json_str_def skip_ws_def want_more_def quoted_def)

theorem string_round_trip_witness:
  "cfg_json_str 48 ((cfg_json_init [])\<lparr>j_rest := quoted [0x61, QUOTE, 0x01, 0, 0x62] @ [COMMA]\<rparr>) =
     (Some ([0x61, QUOTE, 0x01], False), (cfg_json_init [])\<lparr>j_rest := [COMMA]\<rparr>)"
  using string_round_trip [of "[0x61, QUOTE, 0x01, 0, 0x62]" 48 "cfg_json_init []" "[COMMA]"] by (simp add: cfg_json_init_def)

lemma str_quoted:
  "length (takeWhile (\<lambda>c. c \<noteq> 0) s) < cap \<Longrightarrow> j_err j = CFG_JSON_OK \<Longrightarrow> j_rest j = quoted s @ r \<Longrightarrow>
   cfg_json_str cap j = (Some (takeWhile (\<lambda>c. c \<noteq> 0) s, False), j\<lparr>j_rest := r\<rparr>)"
  using quoted_read [of "[]" "takeWhile (\<lambda>c. c \<noteq> 0) s" cap r]
  by (simp add: cfg_json_str_def skip_ws_def want_more_def quoted_def)

section \<open>Documents\<close>

text \<open>Raw fragments are numbers of the wire grammar, as the callers of \<open>cfg_json_w_raw\<close> make them.\<close>

fun legal :: "jdoc \<Rightarrow> bool" where
  "legal (J_raw s) \<longleftrightarrow> json_number s \<and> length s \<le> 40"
| "legal (J_obj ms) \<longleftrightarrow> list_all (\<lambda>(k, d). legal d) ms"
| "legal (J_arr ds) \<longleftrightarrow> list_all legal ds"
| "legal _ \<longleftrightarrow> True"

lemma f32_item_value: "json_value n (f32_item v)"
proof (cases "isfinite v")
  case True
  then obtain b where b: "f32_text v = Some b" "reads_back b (fpv v)" "length b \<le> 16" using f32_text_reads_back by blast
  then have "json_number b" using scan_num_iff unfolding reads_back_def by blast
  then show ?thesis using True b(1,3) by (simp add: f32_item_def json_value_json_members_json_elements.number)
next
  case False
  then show ?thesis by (simp add: f32_item_def json_value_json_members_json_elements.literal)
qed

lemma blank_Nil: "blank []"
  by (simp add: blank_def)

lemma joined_members:
  "ts \<noteq> [] \<Longrightarrow> (\<And>k v. (k, v) \<in> set ts \<Longrightarrow> json_string k \<and> json_value n v) \<Longrightarrow>
   json_members n (joined False (map (\<lambda>(k, v). k @ COLON # v) ts))"
proof (induction ts rule: list_nonempty_induct)
  case (single t)
  obtain k v where t: "t = (k, v)" by (cases t)
  then show ?case using last_member [OF blank_Nil _ blank_Nil blank_Nil _ blank_Nil, of k n v] single by simp
next
  case (cons t ts)
  obtain k v where t: "t = (k, v)" by (cases t)
  obtain k' v' ts' where ts: "ts = (k', v') # ts'" using cons.hyps by (cases ts) auto
  have "json_members n (joined False (map (\<lambda>(k, v). k @ COLON # v) ts))"
    by (rule cons.IH) (rule cons.prems, simp)
  moreover have "json_string k" "json_value n v" using cons.prems [of k v] t by simp_all
  ultimately show ?case using more_members [OF blank_Nil _ blank_Nil blank_Nil _ blank_Nil, of k n v] t ts by simp
qed

lemma joined_elements:
  "ts \<noteq> [] \<Longrightarrow> (\<And>v. v \<in> set ts \<Longrightarrow> json_value n v) \<Longrightarrow> json_elements n (joined False ts)"
proof (induction ts rule: list_nonempty_induct)
  case (single t)
  then show ?case using last_element [OF blank_Nil _ blank_Nil, of n t] by simp
next
  case (cons t ts)
  obtain v' ts' where ts: "ts = v' # ts'" using cons.hyps by (cases ts) auto
  have "json_elements n (joined False ts)" using cons by simp
  then show ?case using more_elements [OF blank_Nil _ blank_Nil, of n t] cons.prems ts by simp
qed

lemma render_value: "legal d \<Longrightarrow> height d \<le> n \<Longrightarrow> json_value n (render d)"
proof (induction d arbitrary: n)
  case (J_obj ms)
  obtain k where n: "n = Suc k" using J_obj.prems(2) by (cases n) simp_all
  have v: "json_string (quoted key) \<and> json_value k (render d)" if "(key, d) \<in> set ms" for key d
  proof -
    have "height d \<le> k" using less_le_trans [OF height_member [OF that] J_obj.prems(2)] n by (simp only: less_Suc_eq_le)
    moreover have "legal d" using J_obj.prems(1) that by (auto simp: list_all_iff)
    ultimately show ?thesis using J_obj.IH [OF that, of d] quoted_string by (simp add: snds.intros)
  qed
  show ?case
  proof (cases "ms = []")
    case True
    then show ?thesis using empty_object [OF blank_Nil, of k] n by simp
  next
    case False
    have "json_members k (joined False (map (\<lambda>(a, v). a @ COLON # v) (map (\<lambda>(a, d). (quoted a, render d)) ms)))"
      using False v by (intro joined_members) auto
    then show ?thesis using object [of k] n by (simp add: comp_def case_prod_unfold)
  qed
next
  case (J_arr ds)
  obtain k where n: "n = Suc k" using J_arr.prems(2) by (cases n) simp_all
  have v: "json_value k (render d)" if "d \<in> set ds" for d
    using J_arr.IH [OF that] height_element [OF that] J_arr.prems that n by (auto simp: list_all_iff)
  show ?case
  proof (cases "ds = []")
    case True
    then show ?thesis using empty_array [OF blank_Nil, of k] n by simp
  next
    case False
    have "json_elements k (joined False (map render ds))" using False v by (intro joined_elements) auto
    then show ?thesis using array [of k] n by simp
  qed
next
  case (J_int i)
  then show ?case using int_text_number [of i] le_trans [OF int_text_length [of i]]
    by (simp add: json_value_json_members_json_elements.number)
next
  case (J_str s)
  then show ?case using quoted_string by (simp add: json_value_json_members_json_elements.string)
next
  case (J_raw s)
  then show ?case by (simp add: json_value_json_members_json_elements.number)
qed (auto intro: json_value_json_members_json_elements.literal f32_item_value)

lemma render_accepted: "legal d \<Longrightarrow> height d \<le> 6 \<Longrightarrow> cfg_json_validate (render d) = CFG_JSON_OK"
proof -
  assume "legal d" "height d \<le> 6"
  then have "json_text 6 (render d)" using render_value blank_Nil unfolding json_text_def by (metis append_Nil append_Nil2)
  then show ?thesis using validate_iff by simp
qed

section \<open>Writer and reader together\<close>

text \<open>What the sink of a fresh writer has received when the document is flushed.\<close>

lemma flushed_document:
  assumes "0 < cap" "height d \<le> 32"
  shows "\<exists>cs w. cfg_json_w_flush (write_doc d (cfg_json_w_init cap (Some sink) ctx)) = (True, w) \<and> w_ctx w = foldl sink ctx cs \<and>
    concat cs = render d \<and> list_all (\<lambda>c. c \<noteq> [] \<and> length c \<le> cap) cs"
proof -
  let ?w = "cfg_json_w_init cap (Some sink) ctx"
  have w: "writable ?w" "w_depth ?w + height d \<le> 32" "sep_text ?w = []" "\<not> w_ovf ?w" "w_sink ?w = Some sink" "w_ctx ?w = ctx" "w_cap ?w = cap" "w_buf ?w = []"
    using assms by (simp_all add: cfg_json_w_init_def writable_def sep_text_def)
  let ?v = "write_doc d ?w"
  have v: "item ?w (render d) ?v" by (rule write_doc_item(1) [OF w(1,2)])
  then have ovf: "\<not> w_ovf ?v" using w(4) by (simp add: item_def)
  have s: "streams ?w (render d) ?v" using v w(3) by (simp add: item_def)
  then obtain cs where cs: "list_all (\<lambda>c. length c = cap) cs" "w_ctx ?v = foldl sink ctx cs" "concat cs @ w_buf ?v = render d"
    unfolding streams_def w(5-8) by auto
  have sv: "w_sink ?v = Some sink" "length (w_buf ?v) \<le> cap" using s w(5,7) by (auto simp: streams_def writable_def)
  have full: "list_all (\<lambda>c. c \<noteq> [] \<and> length c \<le> cap) cs" using cs(1) assms(1) by (auto simp: list_all_iff)
  show ?thesis
  proof (cases "w_buf ?v = []")
    case True
    then show ?thesis using cs full ovf sv(1) by (intro exI [of _ cs] exI [of _ ?v]) (simp add: cfg_json_w_flush_def)
  next
    case False
    then show ?thesis using cs full ovf sv
      by (intro exI [of _ "cs @ [w_buf ?v]"] exI [of _ "?v\<lparr>w_ctx := sink (w_ctx ?v) (w_buf ?v), w_buf := []\<rparr>"])
        (simp add: cfg_json_w_flush_def)
  qed
qed

text \<open>C25 (refinement). The streaming writer refines a plain printer: a document whose numbers are legal and whose nesting is within the reader's
  depth, written through a chunk of any positive size, reaches the sink as non-empty pieces no longer than
  the chunk that together are exactly its text, no overflow is reported, and the reader accepts that
  text.\<close>

theorem written_text_accepted:
  assumes "0 < cap" "legal d" "height d \<le> 6"
  shows "\<exists>cs w. cfg_json_w_flush (write_doc d (cfg_json_w_init cap (Some sink) ctx)) = (True, w) \<and> w_ctx w = foldl sink ctx cs \<and>
    concat cs = render d \<and> list_all (\<lambda>c. c \<noteq> [] \<and> length c \<le> cap) cs \<and> cfg_json_validate (concat cs) = CFG_JSON_OK"
proof -
  have "height d \<le> 32" using assms(3) by simp
  from flushed_document [OF assms(1) this, of sink ctx] obtain cs w
    where f: "cfg_json_w_flush (write_doc d (cfg_json_w_init cap (Some sink) ctx)) = (True, w)" "w_ctx w = foldl sink ctx cs"
      "concat cs = render d" "list_all (\<lambda>c. c \<noteq> [] \<and> length c \<le> cap) cs" by blast
  have "cfg_json_validate (concat cs) = CFG_JSON_OK" unfolding f(3) by (rule render_accepted [OF assms(2,3)])
  with f show ?thesis by (intro exI [of _ cs] exI [of _ w] conjI)
qed

theorem written_text_accepted_witness:
  "\<exists>cs w. cfg_json_w_flush (write_doc (J_obj [([0x61], J_arr [J_int 5, J_bool True])]) (cfg_json_w_init 3 (Some (@)) [])) = (True, w) \<and>
    w_ctx w = foldl (@) [] cs \<and> concat cs = render (J_obj [([0x61], J_arr [J_int 5, J_bool True])]) \<and>
    list_all (\<lambda>c. c \<noteq> [] \<and> length c \<le> 3) cs \<and> cfg_json_validate (concat cs) = CFG_JSON_OK"
  by (rule written_text_accepted) simp_all

end
