(* ===== verification/Config_Doc.thy ===== *)
theory Config_Doc
  imports Config_Owner Json_Print
begin

text \<open>
  The schema layer of the wire, \<open>control/Src/config_doc.c\<close>: a configuration as a JSON document and back. A key
  buffer is the C string it holds. A pointer into the configuration that a read is given is the update it
  performs, so a handler is a function of the parser state \<open>dc_t\<close>; the chains of \<open>strcmp\<close> are tables, searched from the
  front. The two loops over the members take fuel that \<open>Doc_Walk\<close> shows to be enough.
\<close>

datatype cfg_doc_err_t = CFG_DOC_OK | CFG_DOC_ERR_JSON | CFG_DOC_ERR_TYPE | CFG_DOC_ERR_SCHEMA

record cfg_doc_info_t =
  info_unknown_keys :: nat
  info_schema_version :: int
  info_bad_key :: "u8 list"

section \<open>Names\<close>

definition PROFILE_NAMES :: "u8 list list" where
  "PROFILE_NAMES = map text_bytes [''Bulk, Float Norm'', ''Bulk, Float Low (Solar Priority)'', ''Bulk, Solar Finish'',
     ''Bulk Conservative, Float Low'', ''Bulk, Off'', ''Limp Home'', ''Fast Charge'']"

text \<open>Slot 0 is the null pointer of the source and is never read.\<close>

definition PRIM_NAMES :: "u8 list list" where
  "PRIM_NAMES = map text_bytes ['''', ''v_bulk'', ''v_bulk_cons'', ''v_float'', ''v_float_cons'', ''v_limp'']"

definition BATT_TEMP_SRC_NAMES :: "u8 list list" where
  "BATT_TEMP_SRC_NAMES = map text_bytes [''none'', ''adc_a'', ''adc_b'']"

definition cfg_doc_profile_name :: "u8 \<Rightarrow> u8 list" where
  "cfg_doc_profile_name i = (if i < 1 \<or> CFG_PROFILE_COUNT < unat i then [] else PROFILE_NAMES ! (unat i - 1))"

section \<open>Emit\<close>

type_synonym 's call = "'s cfg_json_w_t \<Rightarrow> 's cfg_json_w_t"

definition calls :: "'s call list \<Rightarrow> 's call" where
  "calls fs w = foldl (\<lambda>w f. f w) w fs"

definition emit_i8 :: "'s cfg_json_w_t \<Rightarrow> i8 \<Rightarrow> 's cfg_json_w_t" where
  "emit_i8 w v = (if sint v = -1 then cfg_json_w_null w else cfg_json_w_int w (scast v))"

definition emit_vref :: "'s cfg_json_w_t \<Rightarrow> cfg_prim_ref_t \<Rightarrow> f32 \<Rightarrow> 's cfg_json_w_t" where
  "emit_vref w ref lit_v =
     (if CFG_PRIM_V_BULK \<le> ref \<and> ref \<le> CFG_PRIM_V_LIMP then cfg_json_w_str w (PRIM_NAMES ! unat ref)
      else cfg_json_w_f32 w lit_v)"

text \<open>A key followed by its value.\<close>

definition kkey :: "string \<Rightarrow> 's call" where
  "kkey k w = cfg_json_w_key w (text_bytes k)"

definition kf32 :: "string \<Rightarrow> f32 \<Rightarrow> 's call" where
  "kf32 k v w = cfg_json_w_f32 (kkey k w) v"

definition kint :: "string \<Rightarrow> u32 \<Rightarrow> 's call" where
  "kint k v w = cfg_json_w_int (kkey k w) v"

definition kstr :: "string \<Rightarrow> u8 list \<Rightarrow> 's call" where
  "kstr k s w = cfg_json_w_str (kkey k w) s"

definition kbool :: "string \<Rightarrow> bool \<Rightarrow> 's call" where
  "kbool k b w = cfg_json_w_bool (kkey k w) b"

definition ki8 :: "string \<Rightarrow> i8 \<Rightarrow> 's call" where
  "ki8 k v w = emit_i8 (kkey k w) v"

definition kvref :: "string \<Rightarrow> cfg_prim_ref_t \<Rightarrow> f32 \<Rightarrow> 's call" where
  "kvref k ref v w = emit_vref (kkey k w) ref v"

definition emit_primitives :: "cfg_primitives_t \<Rightarrow> 's call" where
  "emit_primitives p = calls
     [cfg_json_w_obj, kf32 ''v_bulk'' (pr_v_bulk p), kf32 ''v_bulk_cons'' (pr_v_bulk_cons p), kf32 ''v_float'' (pr_v_float p),
      kf32 ''v_float_cons'' (pr_v_float_cons p), kf32 ''v_limp'' (pr_v_limp p), cfg_json_w_end]"

definition emit_limits :: "ctrl_limits_t \<Rightarrow> ctrl_globals_t \<Rightarrow> 's call" where
  "emit_limits l g = calls
     [cfg_json_w_obj, kf32 ''battery_c_limit'' (lim_battery_c_limit l), kf32 ''wiring_limit_a'' (lim_wiring_limit_a l),
      kf32 ''alternator_limit_a'' (lim_alternator_limit_a l), kkey ''field'', cfg_json_w_obj,
      kf32 ''rotor_rated_v'' (g_rotor_rated_v g), kf32 ''rotor_v_max'' (g_rotor_v_max g),
      kbool ''allow_full_field_48v'' (g_allow_full_field_48v g), cfg_json_w_end, cfg_json_w_end]"

definition batt_temp_src_name :: "ctrl_batt_temp_src_t \<Rightarrow> u8 list" where
  "batt_temp_src_name s = (if s \<le> CTRL_BATT_TEMP_ADC_B then BATT_TEMP_SRC_NAMES ! unat s else text_bytes ''none'')"

definition emit_global :: "ctrl_globals_t \<Rightarrow> 's call" where
  "emit_global g = calls
     [cfg_json_w_obj, kint ''cells_series'' (ucast (g_cells_series g)), kf32 ''bank_capacity_ah'' (g_bank_capacity_ah g),
      kf32 ''max_charge_power_w'' (g_max_charge_power_w g), kf32 ''ramp_w_per_s'' (g_ramp_w_per_s g),
      kf32 ''p_tail_w'' (g_p_tail_w g), kint ''t_tail_hold_s'' (ucast (g_t_tail_hold_s g)),
      kint ''t_vclamp_s'' (ucast (g_t_vclamp_s g)), kint ''cv_hold_exit_min'' (ucast (g_cv_hold_exit_min g)),
      kint ''t_charge_max_min'' (ucast (g_t_charge_max_min g)), kint ''warmup_time_s'' (ucast (g_warmup_time_s g)),
      kf32 ''warmup_coolant_c'' (g_warmup_coolant_c g), ki8 ''soc_target_pct'' (g_soc_target_pct g),
      kf32 ''skip_bulk_vcell'' (g_skip_bulk_vcell g), ki8 ''skip_bulk_soc_pct'' (g_skip_bulk_soc_pct g),
      kf32 ''limp_vcell'' (g_limp_vcell g), kf32 ''limp_power_cap_w'' (g_limp_power_cap_w g),
      kstr ''batt_temp_src'' (batt_temp_src_name (g_batt_temp_src g)), kbool ''require_batt_temp'' (g_require_batt_temp g),
      cfg_json_w_end]"

text \<open>The body of the loop over the profiles.\<close>

definition emit_profile :: "cfg_profile_t \<Rightarrow> 's call" where
  "emit_profile pr = (let p = cp_p pr in calls
     [cfg_json_w_obj, kint ''id'' (ucast (p_id p)), kstr ''name'' (cfg_doc_profile_name (p_id p)),
      kbool ''reserved'' (cp_flags pr AND CFG_PROF_FLAG_RESERVED \<noteq> 0),
      kvref ''cv_target'' (cp_cv_target_ref pr) (p_cv_target_vcell p), kbool ''exit_at_cv_entry'' (p_exit_at_cv_entry p),
      kkey ''rest'', cfg_json_w_obj,
      kstr ''mode'' (if p_rest_mode p = CTRL_REST_ZERO then text_bytes ''zero'' else text_bytes ''hold''),
      kvref ''voltage'' (cp_rest_voltage_ref pr) (p_rest_voltage_vcell p), kf32 ''power_cap_w'' (p_rest_power_cap_w p), cfg_json_w_end,
      kkey ''revert'', cfg_json_w_obj,
      kf32 ''v_cell'' (p_v_revert_vcell p), kint ''hold_s'' (ucast (p_t_revert_hold_s p)), ki8 ''soc_pct'' (p_soc_revert_pct p),
      kf32 ''ah'' (p_ah_revert p), cfg_json_w_end, cfg_json_w_end])"

definition cfg_doc_emit :: "'s cfg_json_w_t \<Rightarrow> ctrl_config_t \<Rightarrow> cstr \<Rightarrow> bool \<times> 's cfg_json_w_t" where
  "cfg_doc_emit w cfg fw =
     (let w = calls ([cfg_json_w_obj, kint ''schema_version'' (ucast CFG_SCHEMA_VERSION)] @
                (case fw of None \<Rightarrow> [] | Some s \<Rightarrow> [kstr ''fw'' s]) @
                [kkey ''primitives'', emit_primitives (cfg_prim cfg), kkey ''limits'', emit_limits (cfg_limits cfg) (cfg_globals cfg),
                 kkey ''global'', emit_global (cfg_globals cfg), kkey ''profiles'', cfg_json_w_arr,
                 calls (map emit_profile (cfg_profiles cfg)), cfg_json_w_end,
                 kint ''active_profile'' (ucast (cfg_active_profile cfg)), cfg_json_w_end]) w
      in (\<not> w_ovf w, w))"

section \<open>Parser state\<close>

record dc_t =
  d_j :: cfg_json_t
  d_cfg :: ctrl_config_t
  d_schema_version :: int
  d_bad_key :: "u8 list"
  d_err :: cfg_doc_err_t
  d_saw_v_limp :: bool
  d_saw_limp_vcell :: bool

type_synonym handler = "u8 list \<Rightarrow> dc_t \<Rightarrow> bool \<times> dc_t"
type_synonym 'a dst = "'a \<Rightarrow> ctrl_config_t \<Rightarrow> ctrl_config_t"

definition c_string :: "u8 list \<Rightarrow> u8 list" where
  "c_string s = takeWhile (\<lambda>c. c \<noteq> 0) s"

definition dc_fail :: "dc_t \<Rightarrow> cfg_doc_err_t \<Rightarrow> cstr \<Rightarrow> dc_t" where
  "dc_fail d e key =
     (if d_err d = CFG_DOC_OK
      then (case key of None \<Rightarrow> d\<lparr>d_err := e\<rparr> | Some k \<Rightarrow> d\<lparr>d_err := e, d_bad_key := take (CFG_JSON_KEY_MAX - 1) k\<rparr>)
      else d)"

definition dc_json :: "dc_t \<Rightarrow> dc_t" where
  "dc_json d = dc_fail d CFG_DOC_ERR_JSON None"

definition dc_unknown :: "dc_t \<Rightarrow> bool \<times> dc_t" where
  "dc_unknown d =
     (case cfg_json_skip ((d_j d)\<lparr>j_unknown := j_unknown (d_j d) + 1\<rparr>) of (ok, j) \<Rightarrow>
        if \<not> ok then (False, dc_json (d\<lparr>d_j := j\<rparr>)) else (True, d\<lparr>d_j := j\<rparr>))"

section \<open>Reads\<close>

text \<open>The double constant \<open>3.4028235e38\<close>.\<close>

definition F32_BOUND :: fp where
  "F32_BOUND = fp_round double_fmt False (34028235 * 10 ^ 31)"

definition to_f32 :: "fp \<Rightarrow> f32" where
  "to_f32 v = (if fp_lt F32_BOUND v then INFINITY else if fp_lt v (fp_neg F32_BOUND) then - INFINITY
               else f32_of (double_to_single v))"

text \<open>\<open>None\<close> is false, \<open>Some None\<close> a null.\<close>

definition rd_num :: "u8 list \<Rightarrow> dc_t \<Rightarrow> fp option option \<times> dc_t" where
  "rd_num key d =
     (case cfg_json_peek (d_j d) of (t, j) \<Rightarrow>
        let d = d\<lparr>d_j := j\<rparr> in
        if t = CFG_JSON_T_NULL then
          (case cfg_json_null j of (ok, j) \<Rightarrow> if ok then (Some None, d\<lparr>d_j := j\<rparr>) else (None, dc_json (d\<lparr>d_j := j\<rparr>)))
        else if t \<noteq> CFG_JSON_T_NUM then (None, dc_fail d CFG_DOC_ERR_TYPE (Some key))
        else (case cfg_json_num j of
                (None, j) \<Rightarrow> (None, dc_json (d\<lparr>d_j := j\<rparr>))
              | (Some v, j) \<Rightarrow> (Some (Some v), d\<lparr>d_j := j\<rparr>)))"

text \<open>The value goes where the pointer says if the read succeeded.\<close>

definition into :: "'a option \<times> dc_t \<Rightarrow> 'a dst \<Rightarrow> bool \<times> dc_t" where
  "into r dst = (case r of (None, d) \<Rightarrow> (False, d) | (Some v, d) \<Rightarrow> (True, d\<lparr>d_cfg := dst v (d_cfg d)\<rparr>))"

definition rd_f32 :: "f32 dst \<Rightarrow> handler" where
  "rd_f32 dst key d =
     (case rd_num key d of (r, d) \<Rightarrow> into (map_option (\<lambda>v. case v of None \<Rightarrow> NAN | Some x \<Rightarrow> to_f32 x) r, d) dst)"

definition fits_int :: "int \<Rightarrow> int \<Rightarrow> fp \<Rightarrow> int option" where
  "fits_int lo hi v =
     (case v of FpFin s r \<Rightarrow> if r \<noteq> of_int \<lfloor>r\<rfloor> \<or> r < of_int lo \<or> of_int hi < r then None else Some \<lfloor>r\<rfloor> | _ \<Rightarrow> None)"

definition rd_int :: "int \<Rightarrow> int \<Rightarrow> u8 list \<Rightarrow> dc_t \<Rightarrow> int option \<times> dc_t" where
  "rd_int lo hi key d =
     (case rd_num key d of
        (None, d) \<Rightarrow> (None, d)
      | (Some v, d) \<Rightarrow>
          (case Option.bind v (fits_int lo hi) of
             None \<Rightarrow> (None, dc_fail d CFG_DOC_ERR_TYPE (Some key))
           | Some i \<Rightarrow> (Some i, d)))"

definition rd_u8 :: "u8 dst \<Rightarrow> handler" where
  "rd_u8 dst key d = (case rd_int 0 255 key d of (r, d) \<Rightarrow> into (map_option of_int r, d) dst)"

definition rd_u16 :: "u16 dst \<Rightarrow> handler" where
  "rd_u16 dst key d = (case rd_int 0 65535 key d of (r, d) \<Rightarrow> into (map_option of_int r, d) dst)"

definition rd_i8 :: "i8 dst \<Rightarrow> handler" where
  "rd_i8 dst key d =
     (case cfg_json_peek (d_j d) of (t, j) \<Rightarrow>
        let d = d\<lparr>d_j := j\<rparr> in
        if t = CFG_JSON_T_NULL then
          (case cfg_json_null j of (ok, j) \<Rightarrow> if ok then into (Some (-1), d\<lparr>d_j := j\<rparr>) dst else (False, dc_json (d\<lparr>d_j := j\<rparr>)))
        else (case rd_int (-128) 127 key d of (r, d) \<Rightarrow> into (map_option of_int r, d) dst))"

definition rd_bool :: "bool dst \<Rightarrow> handler" where
  "rd_bool dst key d =
     (case cfg_json_peek (d_j d) of (t, j) \<Rightarrow>
        let d = d\<lparr>d_j := j\<rparr> in
        if t \<noteq> CFG_JSON_T_BOOL then (False, dc_fail d CFG_DOC_ERR_TYPE (Some key))
        else (case cfg_json_bool j of
                (None, j) \<Rightarrow> (False, dc_json (d\<lparr>d_j := j\<rparr>))
              | (Some b, j) \<Rightarrow> into (Some b, d\<lparr>d_j := j\<rparr>) dst))"

text \<open>A string read into a buffer of the key's size: the C string and whether it was cut.\<close>

definition rd_str :: "dc_t \<Rightarrow> str_acc option \<times> dc_t" where
  "rd_str d =
     (case cfg_json_str CFG_JSON_KEY_MAX (d_j d) of
        (None, j) \<Rightarrow> (None, dc_json (d\<lparr>d_j := j\<rparr>))
      | (Some (s, tr), j) \<Rightarrow> (Some (c_string s, tr), d\<lparr>d_j := j\<rparr>))"

definition prim_named :: "u8 list \<Rightarrow> nat option" where
  "prim_named s = find (\<lambda>i. s = PRIM_NAMES ! i) [unat CFG_PRIM_V_BULK..<Suc (unat CFG_PRIM_V_LIMP)]"

definition rd_vref :: "cfg_prim_ref_t dst \<Rightarrow> f32 dst \<Rightarrow> handler" where
  "rd_vref ref dst key d =
     (case cfg_json_peek (d_j d) of (t, j) \<Rightarrow>
        let d = d\<lparr>d_j := j\<rparr> in
        if t = CFG_JSON_T_STR then
          (case rd_str d of
             (None, d) \<Rightarrow> (False, d)
           | (Some (s, tr), d) \<Rightarrow>
               if tr then (False, dc_fail d CFG_DOC_ERR_TYPE (Some key))
               else (case prim_named s of
                       None \<Rightarrow> (False, dc_fail d CFG_DOC_ERR_TYPE (Some key))
                     | Some i \<Rightarrow> into (Some (of_nat i), d) ref))
        else if t = CFG_JSON_T_NUM \<or> t = CFG_JSON_T_NULL then
          rd_f32 dst key (d\<lparr>d_cfg := ref CFG_PRIM_NONE (d_cfg d)\<rparr>)
        else (False, dc_fail d CFG_DOC_ERR_TYPE (Some key)))"

text \<open>
  The two string enumerations. Any other spelling, a cut one included, is stored as \<open>other\<close>, which is outside the
  enumeration.
\<close>

definition rd_enum :: "(u8 list \<times> u8) list \<Rightarrow> u8 \<Rightarrow> u8 dst \<Rightarrow> handler" where
  "rd_enum names other dst key d =
     (case cfg_json_peek (d_j d) of (t, j) \<Rightarrow>
        let d = d\<lparr>d_j := j\<rparr> in
        if t \<noteq> CFG_JSON_T_STR then (False, dc_fail d CFG_DOC_ERR_TYPE (Some key))
        else (case rd_str d of
                (None, d) \<Rightarrow> (False, d)
              | (Some (s, tr), d) \<Rightarrow> into (Some (case map_of names s of Some v \<Rightarrow> v | None \<Rightarrow> other), d) dst))"

text \<open>A known member that is not stored.\<close>

definition rd_skip :: handler where
  "rd_skip key d = (case cfg_json_skip (d_j d) of (ok, j) \<Rightarrow> if ok then (True, d\<lparr>d_j := j\<rparr>) else (False, dc_json (d\<lparr>d_j := j\<rparr>)))"

section \<open>Loops\<close>

fun next_key_n :: "nat \<Rightarrow> dc_t \<Rightarrow> u8 list option \<times> dc_t" where
  "next_key_n 0 d = (None, d)"
| "next_key_n (Suc n) d =
     (case cfg_json_obj_key CFG_JSON_KEY_MAX (d_j d) of
        (None, j) \<Rightarrow> (None, if j_err j \<noteq> CFG_JSON_OK then dc_json (d\<lparr>d_j := j\<rparr>) else d\<lparr>d_j := j\<rparr>)
      | (Some (k, tr), j) \<Rightarrow>
          if \<not> tr then (Some (c_string k), d\<lparr>d_j := j\<rparr>)
          else (case dc_unknown (d\<lparr>d_j := j\<rparr>) of (ok, d) \<Rightarrow> if \<not> ok then (None, d) else next_key_n n d))"

definition next_key :: "dc_t \<Rightarrow> u8 list option \<times> dc_t" where
  "next_key d = next_key_n (length (j_rest (d_j d)) + 1) d"

definition dispatch :: "(u8 list \<times> handler) list \<Rightarrow> handler" where
  "dispatch table k d = (case map_of table k of Some h \<Rightarrow> h k d | None \<Rightarrow> dc_unknown d)"

fun doc_foreach :: "nat \<Rightarrow> handler \<Rightarrow> dc_t \<Rightarrow> bool \<times> dc_t" where
  "doc_foreach 0 h d = (False, d)"
| "doc_foreach (Suc n) h d =
     (case next_key d of
        (None, d) \<Rightarrow> (d_err d = CFG_DOC_OK, d)
      | (Some k, d) \<Rightarrow> (case h k d of (ok, d) \<Rightarrow> if \<not> ok then (False, d) else doc_foreach n h d))"

definition parse_members :: "(u8 list \<times> handler) list \<Rightarrow> dc_t \<Rightarrow> bool \<times> dc_t" where
  "parse_members table d = doc_foreach (length (j_rest (d_j d)) + 1) (dispatch table) d"

definition parse_object :: "(u8 list \<times> handler) list \<Rightarrow> handler" where
  "parse_object table k d =
     (case cfg_json_obj_begin (d_j d) of (ok, j) \<Rightarrow>
        let d = d\<lparr>d_j := j\<rparr> in if \<not> ok then (False, dc_json d) else parse_members table d)"

section \<open>Members\<close>

definition prim_dst :: "((f32 \<Rightarrow> f32) \<Rightarrow> cfg_primitives_t \<Rightarrow> cfg_primitives_t) \<Rightarrow> f32 dst" where
  "prim_dst field v = cfg_prim_update (field (\<lambda>_. v))"

definition glob_dst :: "(('a \<Rightarrow> 'a) \<Rightarrow> ctrl_globals_t \<Rightarrow> ctrl_globals_t) \<Rightarrow> 'a dst" where
  "glob_dst field v = cfg_globals_update (field (\<lambda>_. v))"

definition lim_dst :: "((f32 \<Rightarrow> f32) \<Rightarrow> ctrl_limits_t \<Rightarrow> ctrl_limits_t) \<Rightarrow> f32 dst" where
  "lim_dst field v = cfg_limits_update (field (\<lambda>_. v))"

definition slot_dst :: "nat \<Rightarrow> (('a \<Rightarrow> 'a) \<Rightarrow> cfg_profile_t \<Rightarrow> cfg_profile_t) \<Rightarrow> 'a dst" where
  "slot_dst i field v = cfg_profiles_update (\<lambda>ps. ps[i := field (\<lambda>_. v) (ps ! i)])"

definition prof_dst :: "nat \<Rightarrow> (('a \<Rightarrow> 'a) \<Rightarrow> ctrl_profile_t \<Rightarrow> ctrl_profile_t) \<Rightarrow> 'a dst" where
  "prof_dst i field v = slot_dst i (\<lambda>f. cp_p_update (field f)) v"

definition saw_limp :: "((bool \<Rightarrow> bool) \<Rightarrow> dc_t \<Rightarrow> dc_t) \<Rightarrow> handler \<Rightarrow> handler" where
  "saw_limp flag h k d = (case h k d of (ok, d) \<Rightarrow> (ok, flag (\<lambda>_. ok) d))"

definition primitives_table :: "(u8 list \<times> handler) list" where
  "primitives_table =
     [(text_bytes ''v_bulk'', rd_f32 (prim_dst pr_v_bulk_update)),
      (text_bytes ''v_bulk_cons'', rd_f32 (prim_dst pr_v_bulk_cons_update)),
      (text_bytes ''v_float'', rd_f32 (prim_dst pr_v_float_update)),
      (text_bytes ''v_float_cons'', rd_f32 (prim_dst pr_v_float_cons_update)),
      (text_bytes ''v_limp'', saw_limp d_saw_v_limp_update (rd_f32 (prim_dst pr_v_limp_update)))]"

definition parse_primitives :: handler where
  "parse_primitives = parse_object primitives_table"

definition field_table :: "(u8 list \<times> handler) list" where
  "field_table =
     [(text_bytes ''rotor_rated_v'', rd_f32 (glob_dst g_rotor_rated_v_update)),
      (text_bytes ''rotor_v_max'', rd_f32 (glob_dst g_rotor_v_max_update)),
      (text_bytes ''allow_full_field_48v'', rd_bool (glob_dst g_allow_full_field_48v_update))]"

definition parse_field :: handler where
  "parse_field = parse_object field_table"

definition limits_table :: "(u8 list \<times> handler) list" where
  "limits_table =
     [(text_bytes ''battery_c_limit'', rd_f32 (lim_dst lim_battery_c_limit_update)),
      (text_bytes ''wiring_limit_a'', rd_f32 (lim_dst lim_wiring_limit_a_update)),
      (text_bytes ''alternator_limit_a'', rd_f32 (lim_dst lim_alternator_limit_a_update)),
      (text_bytes ''field'', parse_field)]"

definition parse_limits :: handler where
  "parse_limits = parse_object limits_table"

definition global_table :: "(u8 list \<times> handler) list" where
  "global_table =
     [(text_bytes ''cells_series'', rd_u8 (glob_dst g_cells_series_update)),
      (text_bytes ''bank_capacity_ah'', rd_f32 (glob_dst g_bank_capacity_ah_update)),
      (text_bytes ''max_charge_power_w'', rd_f32 (glob_dst g_max_charge_power_w_update)),
      (text_bytes ''ramp_w_per_s'', rd_f32 (glob_dst g_ramp_w_per_s_update)),
      (text_bytes ''p_tail_w'', rd_f32 (glob_dst g_p_tail_w_update)),
      (text_bytes ''t_tail_hold_s'', rd_u16 (glob_dst g_t_tail_hold_s_update)),
      (text_bytes ''t_vclamp_s'', rd_u16 (glob_dst g_t_vclamp_s_update)),
      (text_bytes ''cv_hold_exit_min'', rd_u16 (glob_dst g_cv_hold_exit_min_update)),
      (text_bytes ''t_charge_max_min'', rd_u16 (glob_dst g_t_charge_max_min_update)),
      (text_bytes ''warmup_time_s'', rd_u16 (glob_dst g_warmup_time_s_update)),
      (text_bytes ''warmup_coolant_c'', rd_f32 (glob_dst g_warmup_coolant_c_update)),
      (text_bytes ''soc_target_pct'', rd_i8 (glob_dst g_soc_target_pct_update)),
      (text_bytes ''skip_bulk_vcell'', rd_f32 (glob_dst g_skip_bulk_vcell_update)),
      (text_bytes ''skip_bulk_soc_pct'', rd_i8 (glob_dst g_skip_bulk_soc_pct_update)),
      (text_bytes ''limp_power_cap_w'', rd_f32 (glob_dst g_limp_power_cap_w_update)),
      (text_bytes ''limp_vcell'', saw_limp d_saw_limp_vcell_update (rd_f32 (glob_dst g_limp_vcell_update))),
      (text_bytes ''batt_temp_src'', rd_enum [(text_bytes ''none'', CTRL_BATT_TEMP_NONE), (text_bytes ''adc_a'', CTRL_BATT_TEMP_ADC_A),
         (text_bytes ''adc_b'', CTRL_BATT_TEMP_ADC_B)] 0xFF (glob_dst g_batt_temp_src_update)),
      (text_bytes ''require_batt_temp'', rd_bool (glob_dst g_require_batt_temp_update))]"

definition parse_global :: handler where
  "parse_global = parse_object global_table"

definition rest_table :: "nat \<Rightarrow> (u8 list \<times> handler) list" where
  "rest_table i =
     [(text_bytes ''mode'', rd_enum [(text_bytes ''hold'', CTRL_REST_HOLD), (text_bytes ''zero'', CTRL_REST_ZERO)]
         (CTRL_REST_ZERO + 1) (prof_dst i p_rest_mode_update)),
      (text_bytes ''voltage'', rd_vref (slot_dst i cp_rest_voltage_ref_update) (prof_dst i p_rest_voltage_vcell_update)),
      (text_bytes ''power_cap_w'', rd_f32 (prof_dst i p_rest_power_cap_w_update))]"

definition parse_rest :: "nat \<Rightarrow> handler" where
  "parse_rest i = parse_object (rest_table i)"

definition revert_table :: "nat \<Rightarrow> (u8 list \<times> handler) list" where
  "revert_table i =
     [(text_bytes ''v_cell'', rd_f32 (prof_dst i p_v_revert_vcell_update)),
      (text_bytes ''hold_s'', rd_u16 (prof_dst i p_t_revert_hold_s_update)),
      (text_bytes ''soc_pct'', rd_i8 (prof_dst i p_soc_revert_pct_update)),
      (text_bytes ''ah'', rd_f32 (prof_dst i p_ah_revert_update))]"

definition parse_revert :: "nat \<Rightarrow> handler" where
  "parse_revert i = parse_object (revert_table i)"

definition set_reserved :: "bool \<Rightarrow> u8 \<Rightarrow> u8" where
  "set_reserved res flags = (if res then flags OR CFG_PROF_FLAG_RESERVED else flags AND NOT CFG_PROF_FLAG_RESERVED)"

definition reserved_dst :: "nat \<Rightarrow> bool dst" where
  "reserved_dst i res = cfg_profiles_update (\<lambda>ps. ps[i := cp_flags_update (set_reserved res) (ps ! i)])"

definition profile_table :: "nat \<Rightarrow> (u8 list \<times> handler) list" where
  "profile_table i =
     [(text_bytes ''id'', rd_u8 (prof_dst i p_id_update)),
      (text_bytes ''name'', rd_skip),
      (text_bytes ''reserved'', rd_bool (reserved_dst i)),
      (text_bytes ''cv_target'', rd_vref (slot_dst i cp_cv_target_ref_update) (prof_dst i p_cv_target_vcell_update)),
      (text_bytes ''exit_at_cv_entry'', rd_bool (prof_dst i p_exit_at_cv_entry_update)),
      (text_bytes ''rest'', parse_rest i),
      (text_bytes ''revert'', parse_revert i)]"

definition parse_profile :: "nat \<Rightarrow> handler" where
  "parse_profile i = parse_object (profile_table i)"

text \<open>The loop over the array from slot \<open>i\<close>; it stops at the eighth element, so it needs no more than eight rounds.\<close>

function profiles_loop :: "nat \<Rightarrow> dc_t \<Rightarrow> bool \<times> dc_t" where
  "profiles_loop i d =
     (case cfg_json_arr_next (d_j d) of (avail, j) \<Rightarrow>
        let d = d\<lparr>d_j := j\<rparr> in
        if \<not> avail then (if j_err j \<noteq> CFG_JSON_OK then (False, dc_json d) else (True, d))
        else if CFG_PROFILE_COUNT \<le> i then (False, dc_fail d CFG_DOC_ERR_TYPE (Some (text_bytes ''profiles'')))
        else (case parse_profile i [] d of (ok, d) \<Rightarrow> if \<not> ok then (False, d) else profiles_loop (i + 1) d))"
  by pat_completeness auto

termination profiles_loop
  by (relation "measure (\<lambda>(i, d). CFG_PROFILE_COUNT + 1 - i)") auto

declare profiles_loop.simps [simp del]

definition parse_profiles :: handler where
  "parse_profiles k d =
     (case cfg_json_arr_begin (d_j d) of (ok, j) \<Rightarrow>
        let d = d\<lparr>d_j := j\<rparr> in if \<not> ok then (False, dc_json d) else profiles_loop 0 d)"

section \<open>Document\<close>

definition parse_schema :: handler where
  "parse_schema k d =
     (case rd_int 0 65535 k d of
        (None, d) \<Rightarrow> (False, d)
      | (Some v, d) \<Rightarrow>
          let d = d\<lparr>d_schema_version := v\<rparr> in
          if v \<noteq> uint CFG_SCHEMA_VERSION then (False, dc_fail d CFG_DOC_ERR_SCHEMA (Some k)) else (True, d))"

definition doc_table :: "(u8 list \<times> handler) list" where
  "doc_table =
     [(text_bytes ''schema_version'', parse_schema), (text_bytes ''primitives'', parse_primitives), (text_bytes ''limits'', parse_limits),
      (text_bytes ''global'', parse_global), (text_bytes ''profiles'', parse_profiles),
      (text_bytes ''active_profile'', rd_u8 (\<lambda>v. cfg_active_profile_update (\<lambda>_. v))), (text_bytes ''fw'', rd_skip)]"

definition resolve_after_parse :: "dc_t \<Rightarrow> dc_t" where
  "resolve_after_parse d =
     (let c = d_cfg d; c = c\<lparr>cfg_profiles := map (resolve_profile (cfg_prim c)) (cfg_profiles c)\<rparr>
      in d\<lparr>d_cfg := (if d_saw_v_limp d \<and> \<not> d_saw_limp_vcell d
                     then c\<lparr>cfg_globals := (cfg_globals c)\<lparr>g_limp_vcell := pr_v_limp (cfg_prim c)\<rparr>\<rparr> else c)\<rparr>)"

definition dc_init :: "cfg_json_t \<Rightarrow> ctrl_config_t \<Rightarrow> dc_t" where
  "dc_init j cfg = \<lparr>d_j = j, d_cfg = cfg, d_schema_version = -1, d_bad_key = [], d_err = CFG_DOC_OK, d_saw_v_limp = False,
     d_saw_limp_vcell = False\<rparr>"

definition dc_run :: "cfg_json_t \<Rightarrow> ctrl_config_t \<Rightarrow> dc_t" where
  "dc_run j cfg =
     (case parse_object doc_table [] (dc_init j cfg) of (ok, d) \<Rightarrow> if ok then resolve_after_parse d else d)"

definition cfg_doc_parse :: "cfg_json_t \<Rightarrow> ctrl_config_t \<Rightarrow> cfg_doc_err_t \<times> cfg_json_t \<times> ctrl_config_t \<times> cfg_doc_info_t" where
  "cfg_doc_parse j cfg =
     (let d = dc_run j cfg in
      (d_err d, d_j d, d_cfg d, \<lparr>info_unknown_keys = j_unknown (d_j d), info_schema_version = d_schema_version d, info_bad_key = d_bad_key d\<rparr>))"

end
