(* ===== verification/Doc_Walk.thy ===== *)
theory Doc_Walk
  imports Config_Doc
begin

text \<open>
  What holds of the document walk of \<open>config_doc.c\<close> on every input. \<open>doc_invariant\<close> is the contract of a property of
  the parser state that moving the cursor, reporting an error and storing a value keep; its client shows that the
  whole walk keeps it. The handlers never move the cursor back, so the loops over the members end.
\<close>

section \<open>Invariants of the walk\<close>

locale doc_invariant =
  fixes P :: "dc_t \<Rightarrow> bool"
  assumes moved: "P d \<Longrightarrow> P (d\<lparr>d_j := j\<rparr>)"
    and failed: "P d \<Longrightarrow> e \<noteq> CFG_DOC_OK \<Longrightarrow> P (dc_fail d e k)"
    and stored: "P d \<Longrightarrow> length (cfg_profiles c) = length (cfg_profiles (d_cfg d)) \<Longrightarrow> P (d\<lparr>d_cfg := c\<rparr>)"
    and seen: "P d \<Longrightarrow> P (d\<lparr>d_saw_v_limp := b\<rparr>) \<and> P (d\<lparr>d_saw_limp_vcell := b\<rparr>)"
    and stamped: "P d \<Longrightarrow> v \<noteq> 2 \<Longrightarrow> P (dc_fail (d\<lparr>d_schema_version := v\<rparr>) CFG_DOC_ERR_SCHEMA k)" "P d \<Longrightarrow> P (d\<lparr>d_schema_version := 2\<rparr>)"
begin

definition keeps :: "handler \<Rightarrow> bool" where
  "keeps h \<longleftrightarrow> (\<forall>k d. P d \<longrightarrow> P (snd (h k d)))"

lemma keepsD: "keeps h \<Longrightarrow> P d \<Longrightarrow> h k d = (ok, d') \<Longrightarrow> P d'"
  unfolding keeps_def by (metis snd_conv)

lemma failed_json: "P d \<Longrightarrow> P (dc_json d)"
  by (simp add: dc_json_def failed)

lemma unknown_keeps: "P d \<Longrightarrow> dc_unknown d = (ok, d') \<Longrightarrow> P d'"
  by (auto simp: dc_unknown_def intro!: failed_json moved split: prod.splits if_splits)

lemma num_keeps: "P d \<Longrightarrow> rd_num k d = (v, d') \<Longrightarrow> P d'"
  by (auto simp: rd_num_def Let_def intro!: failed_json failed moved split: prod.splits if_splits option.splits)

lemma int_keeps: "P d \<Longrightarrow> rd_int lo hi k d = (v, d') \<Longrightarrow> P d'"
  using num_keeps by (auto simp: rd_int_def intro!: failed split: prod.splits option.splits)

lemma str_keeps: "P d \<Longrightarrow> rd_str d = (v, d') \<Longrightarrow> P d'"
  by (auto simp: rd_str_def intro!: failed_json moved split: prod.splits option.splits)

definition sized :: "'a dst \<Rightarrow> bool" where
  "sized dst \<longleftrightarrow> (\<forall>v c. length (cfg_profiles (dst v c)) = length (cfg_profiles c))"

lemma into_keeps: "sized dst \<Longrightarrow> P (snd r) \<Longrightarrow> P (snd (into r dst))"
  by (cases r) (auto simp: into_def sized_def intro!: stored split: option.splits)

lemma rd_keeps:
  "sized f \<Longrightarrow> keeps (rd_f32 f)" "sized b \<Longrightarrow> keeps (rd_u8 b)" "sized w \<Longrightarrow> keeps (rd_u16 w)" "keeps rd_skip" "keeps parse_schema"
  unfolding keeps_def rd_f32_def rd_u8_def rd_u16_def rd_skip_def parse_schema_def Let_def
  by (auto intro!: into_keeps failed_json moved stamped dest: num_keeps int_keeps simp: CFG_SCHEMA_VERSION_def split: prod.splits option.splits)

lemma rd_i8_keeps: "sized dst \<Longrightarrow> keeps (rd_i8 dst)"
  unfolding keeps_def rd_i8_def Let_def
  by (auto intro!: into_keeps failed_json moved dest: int_keeps [OF moved] split: prod.splits if_splits)

lemma rd_bool_keeps: "sized dst \<Longrightarrow> keeps (rd_bool dst)"
  unfolding keeps_def rd_bool_def Let_def
  by (auto intro!: into_keeps failed_json failed moved split: prod.splits if_splits option.splits)

lemma rd_enum_keeps: "sized dst \<Longrightarrow> keeps (rd_enum names other dst)"
  unfolding keeps_def rd_enum_def Let_def
  by (auto intro!: into_keeps failed moved dest: str_keeps [OF moved] split: prod.splits if_splits option.splits)

lemma rd_vref_keeps: "sized ref \<Longrightarrow> sized dst \<Longrightarrow> keeps (rd_vref ref dst)"
proof -
  assume s: "sized ref" "sized dst"
  have "P (snd (rd_f32 dst k (d\<lparr>d_j := j, d_cfg := ref v (d_cfg d)\<rparr>)))" if "P d" for k d j v
  proof -
    have "P (d\<lparr>d_j := j, d_cfg := ref v (d_cfg d)\<rparr>)" using that s(1) by (intro stored moved) (simp_all add: sized_def)
    then show ?thesis using rd_keeps(1) [OF s(2)] unfolding keeps_def by blast
  qed
  then show ?thesis unfolding keeps_def rd_vref_def Let_def
    by (auto intro!: into_keeps [OF s(1)] failed moved dest: str_keeps [OF moved] split: prod.splits if_splits option.splits)
qed

lemma saw_keeps: "keeps h \<Longrightarrow> keeps (saw_limp d_saw_v_limp_update h)" "keeps h \<Longrightarrow> keeps (saw_limp d_saw_limp_vcell_update h)"
proof -
  have "P (d_saw_v_limp_update (\<lambda>_. b) d) \<and> P (d_saw_limp_vcell_update (\<lambda>_. b) d)" if "P d" for b d using seen [OF that, of b] by simp
  then show "keeps h \<Longrightarrow> keeps (saw_limp d_saw_v_limp_update h)" "keeps h \<Longrightarrow> keeps (saw_limp d_saw_limp_vcell_update h)"
    by (auto simp: keeps_def saw_limp_def split: prod.splits) (metis snd_conv)+
qed

lemma next_key_keeps: "P d \<Longrightarrow> next_key_n n d = (k, d') \<Longrightarrow> P d'"
proof (induction n arbitrary: d)
  case (Suc n)
  have "P e" if "dc_unknown (d\<lparr>d_j := j\<rparr>) = (ok, e)" for j ok e using unknown_keeps moved that Suc.prems(1) by blast
  then show ?case using Suc
    by (auto intro!: failed_json moved split: prod.splits option.splits if_splits)
qed simp

lemma foreach_keeps: "keeps h \<Longrightarrow> P d \<Longrightarrow> P (snd (doc_foreach n h d))"
proof (induction n arbitrary: d)
  case (Suc n)
  have "P e" if "next_key d = (k, e)" for k e using next_key_keeps that Suc.prems(2) unfolding next_key_def by blast
  then show ?case using Suc keepsD [OF Suc.prems(1)] by (auto split: prod.splits option.splits)
qed simp

lemma object_keeps: "list_all (\<lambda>(k, h). keeps h) table \<Longrightarrow> keeps (parse_object table)"
proof -
  assume t: "list_all (\<lambda>(k, h). keeps h) table"
  have "keeps (dispatch table)"
    using t unfolding keeps_def dispatch_def
    by (auto simp: list_all_iff dest!: map_of_SomeD split: option.splits intro: unknown_keeps [OF _ prod.collapse [symmetric]])
  then have m: "P d \<Longrightarrow> P (snd (parse_members table d))" for d unfolding parse_members_def by (rule foreach_keeps)
  then show ?thesis unfolding keeps_def [of "parse_object table"] parse_object_def Let_def
    by (auto intro!: m failed_json moved split: prod.splits)
qed

lemma sized_dst:
  "sized (prim_dst a)" "sized (glob_dst b)" "sized (lim_dst c)" "sized (slot_dst i e)" "sized (prof_dst i f)" "sized (reserved_dst i)"
  by (simp_all add: sized_def prim_dst_def glob_dst_def lim_dst_def slot_dst_def prof_dst_def reserved_dst_def)

lemmas scalar_keeps = rd_keeps rd_i8_keeps rd_bool_keeps rd_enum_keeps rd_vref_keeps saw_keeps sized_dst

lemma block_keeps: "keeps parse_primitives" "keeps parse_field" "keeps parse_global" "keeps (parse_rest i)" "keeps (parse_revert i)"
  unfolding parse_primitives_def primitives_table_def parse_field_def field_table_def parse_global_def global_table_def parse_rest_def rest_table_def parse_revert_def revert_table_def
  by (intro object_keeps, simp add: scalar_keeps)+

lemma nested_keeps: "keeps parse_limits" "keeps (parse_profile i)"
  unfolding parse_limits_def limits_table_def parse_profile_def profile_table_def by (intro object_keeps, simp add: scalar_keeps block_keeps)+

lemma profiles_keep: "P d \<Longrightarrow> P (snd (profiles_loop i d))"
proof (induction i d rule: profiles_loop.induct)
  case (1 i d)
  obtain av j where n: "cfg_json_arr_next (d_j d) = (av, j)" by (cases "cfg_json_arr_next (d_j d)")
  obtain ok e where p: "parse_profile i [] (d\<lparr>d_j := j\<rparr>) = (ok, e)" by (cases "parse_profile i [] (d\<lparr>d_j := j\<rparr>)")
  have "P e" using keepsD [OF nested_keeps(2) moved [OF 1(2)] p] .
  then show ?case using 1 n p by (auto simp: profiles_loop.simps [of i d] Let_def intro!: failed_json failed moved)
qed

lemma doc_keeps: "keeps (parse_object doc_table)"
proof -
  have "keeps parse_profiles" unfolding keeps_def parse_profiles_def Let_def
    by (auto intro!: profiles_keep failed_json moved split: prod.splits)
  moreover have "sized (\<lambda>v. cfg_active_profile_update (\<lambda>_. v))" by (simp add: sized_def)
  ultimately show ?thesis unfolding doc_table_def by (intro object_keeps) (simp add: scalar_keeps block_keeps nested_keeps)
qed

lemma run_keeps:
  assumes "P (dc_init j cfg)"
  shows "P (dc_run j cfg)"
proof -
  obtain ok d where d: "parse_object doc_table [] (dc_init j cfg) = (ok, d)" by (cases "parse_object doc_table [] (dc_init j cfg)")
  have p: "P d" using keepsD [OF doc_keeps assms d] .
  then have "P (resolve_after_parse d)" unfolding resolve_after_parse_def Let_def by (intro stored) simp_all
  then show ?thesis using p d by (simp add: dc_run_def)
qed

end

section \<open>What every walk keeps\<close>

definition slots_kept :: "nat \<Rightarrow> dc_t \<Rightarrow> bool" where
  "slots_kept n d \<longleftrightarrow> length (cfg_profiles (d_cfg d)) = n \<and> length (d_bad_key d) < CFG_JSON_KEY_MAX"

lemma fail_sel [simp]: "d_cfg (dc_fail d e k) = d_cfg d" "d_schema_version (dc_fail d e k) = d_schema_version d"
  "d_j (dc_fail d e k) = d_j d"
  by (simp_all add: dc_fail_def split: option.split)

lemma fail_err_set: "e \<noteq> CFG_DOC_OK \<Longrightarrow> d_err (dc_fail d e k) \<noteq> CFG_DOC_OK"
  by (simp add: dc_fail_def split: option.split)

lemma fail_key: "length (d_bad_key d) < CFG_JSON_KEY_MAX \<Longrightarrow> length (d_bad_key (dc_fail d e k)) < CFG_JSON_KEY_MAX"
  by (auto simp: dc_fail_def CFG_JSON_KEY_MAX_def min_def split: option.split)

interpretation slots: doc_invariant "slots_kept n"
  by unfold_locales (simp_all add: slots_kept_def fail_key)

text \<open>As long as no error is reported, the stamp is absent or the firmware's own.\<close>

definition stamp_ok :: "dc_t \<Rightarrow> bool" where
  "stamp_ok d \<longleftrightarrow> (d_err d = CFG_DOC_OK \<longrightarrow> d_schema_version d = -1 \<or> d_schema_version d = 2)"

interpretation stamp: doc_invariant stamp_ok
proof
  show "stamp_ok (dc_fail d e k)" if "e \<noteq> CFG_DOC_OK" for d e k using fail_err_set [OF that] by (simp add: stamp_ok_def)
  show "stamp_ok (dc_fail (d\<lparr>d_schema_version := v\<rparr>) CFG_DOC_ERR_SCHEMA k)" for d v k
    using fail_err_set [of CFG_DOC_ERR_SCHEMA] by (simp add: stamp_ok_def)
qed (auto simp: stamp_ok_def)

text \<open>Whatever bytes a client sends, the document walk gives back a configuration with as many profile slots
  as it was given, and the name of the failing key that it reports, cut where it has to be, fits its 48-byte
  buffer with the NUL.\<close>

theorem parse_keeps_shape:
  "case cfg_doc_parse j cfg of (e, j', cfg', info) \<Rightarrow>
     length (cfg_profiles cfg') = length (cfg_profiles cfg) \<and> length (info_bad_key info) < CFG_JSON_KEY_MAX"
  using slots.run_keeps [of "length (cfg_profiles cfg)" j cfg]
  by (simp add: cfg_doc_parse_def Let_def slots_kept_def dc_init_def CFG_JSON_KEY_MAX_def)

lemma stamp_run: "stamp_ok (dc_run j cfg)"
  by (rule stamp.run_keeps) (simp add: stamp_ok_def dc_init_def)

section \<open>The loops end\<close>

text \<open>At a legal depth a handler that succeeds leaves a legal depth and no more text than there was.\<close>

definition onward :: "cfg_json_t \<Rightarrow> cfg_json_t \<Rightarrow> bool" where
  "onward j j' \<longleftrightarrow> j_depth j \<le> 6 \<longrightarrow> j_depth j' \<le> 6 \<and> length (j_rest j') \<le> length (j_rest j)"

definition tame :: "handler \<Rightarrow> bool" where
  "tame h \<longleftrightarrow> (\<forall>k d d'. h k d = (True, d') \<longrightarrow> onward (d_j d) (d_j d'))"

lemma onward_refl [simp]: "onward j j"
  by (simp add: onward_def)

lemma onward_trans: "onward i j \<Longrightarrow> onward j k \<Longrightarrow> onward i k"
  by (auto simp: onward_def)

lemma onward_more [simp]: "onward (j\<lparr>j_unknown := n\<rparr>) k = onward j k"
  by (simp add: onward_def)

lemma onward_rest: "length r \<le> length (j_rest j) \<Longrightarrow> onward j (j\<lparr>j_rest := r\<rparr>)"
  by (simp add: onward_def)

lemma ws_onward: "onward j (skip_ws j)"
  by (simp add: skip_ws_def onward_rest length_dropWhile_le)

lemma fail_onward: "onward i j \<Longrightarrow> onward i (fail j e)"
  by (simp add: fail_def onward_def)

lemma peek_onward: "cfg_json_peek j = (t, j') \<Longrightarrow> onward j j'"
  using ws_onward by (auto simp: cfg_json_peek_def Let_def split: if_splits)

lemma num_onward: "cfg_json_num j = (Some v, j') \<Longrightarrow> onward j j'"
proof -
  assume "cfg_json_num j = (Some v, j')"
  from num_sound [OF this] obtain w s where "j_rest j = w @ s @ j_rest j'" "j' = j\<lparr>j_rest := j_rest j'\<rparr>" by blast
  then show ?thesis using onward_rest [of "j_rest j'" j] by simp
qed

lemma str_onward: "cfg_json_str cap j = (Some a, j') \<Longrightarrow> onward j j'"
proof -
  assume "cfg_json_str cap j = (Some a, j')"
  from str_sound [OF this] obtain w s where "j_rest j = w @ s @ j_rest j'" "j' = j\<lparr>j_rest := j_rest j'\<rparr>" by blast
  then show ?thesis using onward_rest [of "j_rest j'" j] by simp
qed

lemma lit_onward: "lit j word = (ok, j') \<Longrightarrow> onward j j'"
  by (auto simp: lit_def fail_onward onward_rest split: if_splits)

lemma null_onward: "cfg_json_null j = (ok, j') \<Longrightarrow> onward j j'"
  using onward_trans [OF ws_onward lit_onward] by (auto simp: cfg_json_null_def split: if_splits)

lemma bool_onward: "cfg_json_bool j = (Some b, j') \<Longrightarrow> onward j j'"
  using onward_trans [OF ws_onward lit_onward]
  by (auto simp: cfg_json_bool_def want_more_def split: if_splits prod.splits)

lemma skip_onward: "cfg_json_skip j = (True, j') \<Longrightarrow> onward j j'"
  using json_skip_shrinks less_imp_le unfolding onward_def by blast

lemma into_onward: "into (v, d) dst = (True, d') \<Longrightarrow> d_j d' = d_j d"
  by (auto simp: into_def split: option.splits)

lemma rd_num_onward: "rd_num k d = (Some v, d') \<Longrightarrow> onward (d_j d) (d_j d')"
  by (auto simp: rd_num_def Let_def dest!: peek_onward null_onward num_onward intro: onward_trans split: prod.splits if_splits option.splits)

lemma rd_int_onward: "rd_int lo hi k d = (Some v, d') \<Longrightarrow> onward (d_j d) (d_j d')"
  by (auto simp: rd_int_def dest!: rd_num_onward split: prod.splits option.splits)

lemma rd_str_onward: "rd_str d = (Some v, d') \<Longrightarrow> onward (d_j d) (d_j d')"
  by (auto simp: rd_str_def dest!: str_onward split: prod.splits option.splits)

lemma into_some: "into r dst = (True, d') \<Longrightarrow> \<exists>v d. r = (Some v, d) \<and> d_j d' = d_j d"
  by (cases r) (auto simp: into_def split: option.splits)

lemma rd_tame: "tame (rd_f32 f)" "tame (rd_u8 b)" "tame (rd_u16 w)" "tame rd_skip" "tame parse_schema"
  unfolding tame_def rd_f32_def rd_u8_def rd_u16_def rd_skip_def parse_schema_def Let_def
  by (auto dest!: into_some rd_num_onward rd_int_onward skip_onward split: prod.splits option.splits if_splits)

lemma rd_i8_tame: "tame (rd_i8 dst)"
  unfolding tame_def rd_i8_def Let_def
  by (auto dest!: into_some rd_int_onward peek_onward null_onward intro: onward_trans split: prod.splits if_splits)

lemma rd_bool_tame: "tame (rd_bool dst)"
  unfolding tame_def rd_bool_def Let_def
  by (auto dest!: into_some peek_onward bool_onward intro: onward_trans split: prod.splits if_splits option.splits)

lemma rd_enum_tame: "tame (rd_enum names other dst)"
  unfolding tame_def rd_enum_def Let_def
  by (auto dest!: into_some peek_onward rd_str_onward intro: onward_trans split: prod.splits if_splits option.splits)

lemma rd_vref_tame: "tame (rd_vref ref dst)"
proof -
  have f: "onward (d_j d) (d_j d')" if "rd_f32 dst k d = (True, d')" for k d d' using rd_tame(1) that unfolding tame_def by blast
  show ?thesis unfolding tame_def rd_vref_def Let_def
    by (auto dest!: into_some peek_onward rd_str_onward f intro: onward_trans split: prod.splits if_splits option.splits)
qed

lemma saw_tame: "tame h \<Longrightarrow> tame (saw_limp d_saw_v_limp_update h)" "tame h \<Longrightarrow> tame (saw_limp d_saw_limp_vcell_update h)"
  by (auto simp: tame_def saw_limp_def split: prod.splits)

lemma unknown_onward: "dc_unknown d = (True, d') \<Longrightarrow> onward (d_j d) (d_j d')"
  by (auto simp: dc_unknown_def dest!: skip_onward split: prod.splits if_splits)

lemma dispatch_tame: "list_all (\<lambda>(k, h). tame h) table \<Longrightarrow> tame (dispatch table)"
  by (auto simp: tame_def dispatch_def list_all_iff dest!: map_of_SomeD unknown_onward split: option.splits)

lemma key_onward:
  assumes "cfg_json_obj_key cap j = (Some a, j')" "j_depth j \<le> 6"
  shows "onward j j'" "length (j_rest j') < length (j_rest j)"
proof -
  from key_sound [OF assms] obtain s where k: "j' = mark j (j_rest j')" "item_text j RBRACE s" "member_text s (j_rest j')" by blast
  then show l: "length (j_rest j') < length (j_rest j)" by (auto simp: item_text_def member_text_def split: if_splits)
  have "j_depth j' = j_depth j" using k(1) mark_props(4) by metis
  then show "onward j j'" using l by (simp add: onward_def)
qed

lemma end_onward: "cfg_json_obj_key cap j = (None, j') \<Longrightarrow> j_err j' = CFG_JSON_OK \<Longrightarrow> onward j j'"
proof (cases "j_depth j \<le> 6")
  case True
  assume "cfg_json_obj_key cap j = (None, j')" "j_err j' = CFG_JSON_OK"
  from key_end [OF this True, of json_members] show ?thesis
    by (auto simp: read_items_def leaves_def onward_def item_text_def split: if_splits)
qed (simp add: onward_def)

text \<open>The loop of \<open>next_key\<close> without fuel.\<close>

lemma next_key_fuel:
  "j_depth (d_j d) \<le> 6 \<Longrightarrow> length (j_rest (d_j d)) < n \<Longrightarrow> length (j_rest (d_j d)) < m \<Longrightarrow> next_key_n n d = next_key_n m d"
proof (induction n arbitrary: d m)
  case (Suc n)
  obtain m' where m: "m = Suc m'" using Suc.prems(3) by (cases m) simp_all
  have "next_key_n n e = next_key_n m' e"
    if k: "cfg_json_obj_key CFG_JSON_KEY_MAX (d_j d) = (Some a, j)" and u: "dc_unknown (d\<lparr>d_j := j\<rparr>) = (True, e)" for a j e
  proof -
    have "j_depth (d_j e) \<le> 6 \<and> length (j_rest (d_j e)) < length (j_rest (d_j d))"
      using key_onward [OF k Suc.prems(1)] unknown_onward [OF u] Suc.prems(1) by (auto simp: onward_def)
    then show ?thesis using Suc.IH [of e m'] Suc.prems(2,3) m by simp
  qed
  then show ?case unfolding m by (auto split: prod.split option.split)
qed simp

lemma next_key_eq:
  assumes "j_depth (d_j d) \<le> 6"
  shows "next_key d =
     (case cfg_json_obj_key CFG_JSON_KEY_MAX (d_j d) of
        (None, j) \<Rightarrow> (None, if j_err j \<noteq> CFG_JSON_OK then dc_json (d\<lparr>d_j := j\<rparr>) else d\<lparr>d_j := j\<rparr>)
      | (Some (k, tr), j) \<Rightarrow>
          if \<not> tr then (Some (c_string k), d\<lparr>d_j := j\<rparr>)
          else (case dc_unknown (d\<lparr>d_j := j\<rparr>) of (ok, d) \<Rightarrow> if \<not> ok then (None, d) else next_key d))"
proof -
  have "next_key_n (length (j_rest (d_j d))) e = next_key e"
    if k: "cfg_json_obj_key CFG_JSON_KEY_MAX (d_j d) = (Some a, j)" and u: "dc_unknown (d\<lparr>d_j := j\<rparr>) = (True, e)" for a j e
  proof -
    have "j_depth (d_j e) \<le> 6 \<and> length (j_rest (d_j e)) < length (j_rest (d_j d))"
      using key_onward [OF k assms] unknown_onward [OF u] assms by (auto simp: onward_def)
    then show ?thesis unfolding next_key_def by (intro next_key_fuel) simp_all
  qed
  then show ?thesis unfolding next_key_def [of d] Suc_eq_plus1 [symmetric] next_key_n.simps
    by (auto split: prod.split option.split)
qed

lemma next_key_onward:
  "j_depth (d_j d) \<le> 6 \<Longrightarrow> next_key_n n d = (Some k, d') \<Longrightarrow> j_depth (d_j d') \<le> 6 \<and> length (j_rest (d_j d')) < length (j_rest (d_j d))"
proof (induction n arbitrary: d)
  case (Suc n)
  obtain a j where k: "cfg_json_obj_key CFG_JSON_KEY_MAX (d_j d) = (Some a, j)" using Suc.prems(2) by (auto split: prod.splits option.splits)
  have j: "j_depth j \<le> 6" "length (j_rest j) < length (j_rest (d_j d))"
    using key_onward [OF k Suc.prems(1)] Suc.prems(1) by (auto simp: onward_def)
  show ?case
  proof (cases "snd a")
    case False
    then show ?thesis using Suc.prems(2) k j by (cases a) auto
  next
    case True
    then obtain e where u: "dc_unknown (d\<lparr>d_j := j\<rparr>) = (True, e)" "next_key_n n e = (Some k, d')"
      using Suc.prems(2) k by (cases a) (auto split: prod.splits if_splits)
    have "j_depth (d_j e) \<le> 6 \<and> length (j_rest (d_j e)) \<le> length (j_rest j)" using unknown_onward [OF u(1)] j by (simp add: onward_def)
    then show ?thesis using Suc.IH [OF _ u(2)] j by auto
  qed
qed simp

lemma json_failed: "d_err (dc_json d) \<noteq> CFG_DOC_OK"
  by (simp add: dc_json_def fail_err_set)

lemma unknown_failed: "dc_unknown d = (False, d') \<Longrightarrow> d_err d' \<noteq> CFG_DOC_OK"
  by (auto simp: dc_unknown_def json_failed split: prod.splits if_splits)

lemma next_key_end:
  "j_depth (d_j d) \<le> 6 \<Longrightarrow> next_key_n n d = (None, d') \<Longrightarrow> d_err d' = CFG_DOC_OK \<Longrightarrow> onward (d_j d) (d_j d')"
proof (induction n arbitrary: d)
  case (Suc n)
  obtain a j where k: "cfg_json_obj_key CFG_JSON_KEY_MAX (d_j d) = (a, j)" by (cases "cfg_json_obj_key CFG_JSON_KEY_MAX (d_j d)")
  show ?case
  proof (cases a)
    case None
    then show ?thesis using Suc.prems k json_failed end_onward by (auto split: if_splits)
  next
    case (Some b)
    then obtain e where e: "dc_unknown (d\<lparr>d_j := j\<rparr>) = (True, e)" "next_key_n n e = (None, d')"
      using Suc.prems k unknown_failed by (cases b) (auto split: prod.splits if_splits)
    have "onward (d_j d) j" using key_onward [OF k [unfolded Some] Suc.prems(1)] by simp
    moreover have "onward j (d_j e)" using unknown_onward [OF e(1)] by simp
    ultimately have o: "onward (d_j d) (d_j e)" by (rule onward_trans)
    then have "j_depth (d_j e) \<le> 6" using Suc.prems(1) by (simp add: onward_def)
    from onward_trans [OF o Suc.IH [OF this e(2) Suc.prems(3)]] show ?thesis .
  qed
qed simp

lemma foreach_onward:
  "tame h \<Longrightarrow> j_depth (d_j d) \<le> 6 \<Longrightarrow> doc_foreach n h d = (True, d') \<Longrightarrow> onward (d_j d) (d_j d')"
proof (induction n arbitrary: d)
  case (Suc n)
  obtain k e where k: "next_key d = (k, e)" by (cases "next_key d")
  show ?case
  proof (cases k)
    case None
    then have "e = d'" "d_err d' = CFG_DOC_OK" using Suc.prems(3) k by auto
    then have "next_key_n (length (j_rest (d_j d)) + 1) d = (None, d')" "d_err d' = CFG_DOC_OK"
      using k None unfolding next_key_def by blast+
    then show ?thesis by (rule next_key_end [OF Suc.prems(2)])
  next
    case (Some b)
    obtain f where h: "h b e = (True, f)" "doc_foreach n h f = (True, d')"
      using Suc.prems(3) k Some by (auto split: prod.splits if_splits)
    have e: "j_depth (d_j e) \<le> 6 \<and> length (j_rest (d_j e)) < length (j_rest (d_j d))"
      using next_key_onward [OF Suc.prems(2)] k Some unfolding next_key_def by blast
    then have "onward (d_j d) (d_j e)" by (simp add: onward_def)
    moreover have "onward (d_j e) (d_j f)" using Suc.prems(1) h(1) unfolding tame_def by blast
    ultimately have o: "onward (d_j d) (d_j f)" by (rule onward_trans)
    then have "j_depth (d_j f) \<le> 6" using Suc.prems(2) by (simp add: onward_def)
    from onward_trans [OF o Suc.IH [OF Suc.prems(1) this h(2)]] show ?thesis .
  qed
qed simp

lemma object_tame: "list_all (\<lambda>(k, h). tame h) table \<Longrightarrow> tame (parse_object table)"
proof -
  assume t: "list_all (\<lambda>(k, h). tame h) table"
  show ?thesis unfolding tame_def
  proof (intro allI impI)
    fix k d d' assume p: "parse_object table k d = (True, d')"
    then obtain j where j: "cfg_json_obj_begin (d_j d) = (True, j)" "parse_members table (d\<lparr>d_j := j\<rparr>) = (True, d')"
      by (auto simp: parse_object_def Let_def split: prod.splits if_splits)
    from begin_sound [OF j(1) [unfolded cfg_json_obj_begin_def]] obtain w where
      b: "j_err (d_j d) = CFG_JSON_OK" "j_depth (d_j d) < 6" "j = opened (d_j d) (j_rest j)" "j_rest (d_j d) = w @ LBRACE # j_rest j" by blast
    then have d: "j_depth j \<le> 6" using opened_props(4) [OF b(1,2), of "j_rest j"] by simp
    then have "onward (d_j d) j" using b(4) by (simp add: onward_def)
    moreover have "onward (d_j (d\<lparr>d_j := j\<rparr>)) (d_j d')"
      by (rule foreach_onward [OF dispatch_tame [OF t] _ j(2) [unfolded parse_members_def]]) (simp add: d)
    then have "onward j (d_j d')" by simp
    ultimately show "onward (d_j d) (d_j d')" by (rule onward_trans)
  qed
qed

lemmas scalar_tame = rd_tame rd_i8_tame rd_bool_tame rd_enum_tame rd_vref_tame saw_tame

abbreviation tame_table :: "(u8 list \<times> handler) list \<Rightarrow> bool" where
  "tame_table \<equiv> list_all (\<lambda>(k, h). tame h)"

lemma leaf_tables: "tame_table primitives_table" "tame_table field_table" "tame_table global_table"
  "tame_table (rest_table i)" "tame_table (revert_table i)"
  by (simp_all add: primitives_table_def field_table_def global_table_def rest_table_def revert_table_def scalar_tame)

lemma block_tame: "tame parse_primitives" "tame parse_field" "tame parse_global" "tame (parse_rest i)" "tame (parse_revert i)"
  unfolding parse_primitives_def parse_field_def parse_global_def parse_rest_def parse_revert_def
  by (intro object_tame leaf_tables)+

lemma nested_tables: "tame_table limits_table" "tame_table (profile_table i)"
  by (simp_all add: limits_table_def profile_table_def scalar_tame block_tame)

lemma nested_tame: "tame parse_limits" "tame (parse_profile i)"
  unfolding parse_limits_def parse_profile_def by (intro object_tame nested_tables)+

lemma next_onward: "cfg_json_arr_next j = (av, j') \<Longrightarrow> j_err j' = CFG_JSON_OK \<or> av \<Longrightarrow> onward j j'"
proof (cases "j_depth j \<le> 6")
  case True
  assume h: "cfg_json_arr_next j = (av, j')" "j_err j' = CFG_JSON_OK \<or> av"
  then obtain k where k: "container_step j RBRACKET = (k, j')" "av = (k = 1)" by (auto simp: cfg_json_arr_next_def split: prod.splits)
  then have "k \<noteq> -1" using h(2) step_error by fastforce
  then have c: "(k = 0 \<and> (\<exists>w. blank w \<and> j_rest j = w @ RBRACKET # j_rest j') \<and> j' = j\<lparr>j_rest := j_rest j', j_depth := j_depth j - 1\<rparr>) \<or>
      (k = 1 \<and> item_text j RBRACKET (j_rest j') \<and> j' = mark j (j_rest j'))"
    using step_cases [OF k(1) _ True] by simp
  have "j_depth j' \<le> j_depth j" using c mark_props(4) [of j "j_rest j'"] by (metis cfg_json_t.simps(7) diff_le_self le_refl cfg_json_t.select_convs(2) cfg_json_t.surjective cfg_json_t.update_convs(1,2))
  moreover have "length (j_rest j') \<le> length (j_rest j)" using c by (auto simp: item_text_def split: if_splits)
  ultimately show ?thesis using True by (simp add: onward_def)
qed (simp add: onward_def)

lemma profiles_onward: "profiles_loop i d = (True, d') \<Longrightarrow> onward (d_j d) (d_j d')"
proof (induction i d arbitrary: d' rule: profiles_loop.induct)
  case (1 i d)
  obtain av j where n: "cfg_json_arr_next (d_j d) = (av, j)" by (cases "cfg_json_arr_next (d_j d)")
  obtain ok e where p: "parse_profile i [] (d\<lparr>d_j := j\<rparr>) = (ok, e)" by (cases "parse_profile i [] (d\<lparr>d_j := j\<rparr>)")
  show ?case
  proof (cases av)
    case False
    then show ?thesis using 1(2) n next_onward by (auto simp: profiles_loop.simps [of i d] Let_def split: if_splits)
  next
    case True
    then have ok: "ok = True" "i < CFG_PROFILE_COUNT" "profiles_loop (i + 1) e = (True, d')"
      using 1(2) n p by (auto simp: profiles_loop.simps [of i d] Let_def split: if_splits)
    have "onward (d_j (d\<lparr>d_j := j\<rparr>)) (d_j e)" using nested_tame(2) [of i] p ok(1) unfolding tame_def ok(1) by blast
    then have "onward j (d_j e)" by simp
    moreover have "onward (d_j d) j" using next_onward [OF n] True by simp
    moreover have "onward (d_j e) (d_j d')" using 1(1) n p ok True by simp
    ultimately show ?thesis by (blast intro: onward_trans)
  qed
qed

lemma doc_tame: "list_all (\<lambda>(k, h). tame h) doc_table"
proof -
  have "tame parse_profiles" unfolding tame_def
  proof (intro allI impI)
    fix k d d' assume "parse_profiles k d = (True, d')"
    then obtain j where j: "cfg_json_arr_begin (d_j d) = (True, j)" "profiles_loop 0 (d\<lparr>d_j := j\<rparr>) = (True, d')"
      by (auto simp: parse_profiles_def Let_def split: prod.splits if_splits)
    from begin_sound [OF j(1) [unfolded cfg_json_arr_begin_def]] obtain w where
      b: "j_err (d_j d) = CFG_JSON_OK" "j_depth (d_j d) < 6" "j = opened (d_j d) (j_rest j)" "j_rest (d_j d) = w @ LBRACKET # j_rest j" by blast
    then have "j_depth j \<le> 6" using opened_props(4) [OF b(1,2), of "j_rest j"] by simp
    then have "onward (d_j d) j" using b(4) by (simp add: onward_def)
    moreover have "onward j (d_j d')" using profiles_onward [OF j(2)] by simp
    ultimately show "onward (d_j d) (d_j d')" by (rule onward_trans)
  qed
  then show ?thesis by (simp add: doc_table_def scalar_tame block_tame nested_tame)
qed

text \<open>The loop over the members without fuel.\<close>

lemma foreach_fuel:
  "tame h \<Longrightarrow> j_depth (d_j d) \<le> 6 \<Longrightarrow> length (j_rest (d_j d)) < n \<Longrightarrow> length (j_rest (d_j d)) < m \<Longrightarrow>
   doc_foreach n h d = doc_foreach m h d"
proof (induction n arbitrary: d m)
  case (Suc n)
  obtain m' where m: "m = Suc m'" using Suc.prems(4) by (cases m) simp_all
  have "doc_foreach n h f = doc_foreach m' h f" if k: "next_key d = (Some k, e)" and f: "h k e = (True, f)" for k e f
  proof -
    have "j_depth (d_j e) \<le> 6 \<and> length (j_rest (d_j e)) < length (j_rest (d_j d))"
      using next_key_onward [OF Suc.prems(2)] k unfolding next_key_def by blast
    moreover have "onward (d_j e) (d_j f)" using Suc.prems(1) f unfolding tame_def by blast
    ultimately show ?thesis using Suc.IH [of f m'] Suc.prems(1,3,4) m by (simp add: onward_def)
  qed
  then show ?case unfolding m by (auto split: prod.split option.split)
qed simp

lemma members_eq:
  assumes "list_all (\<lambda>(k, h). tame h) table" "j_depth (d_j d) \<le> 6"
  shows "parse_members table d =
     (case next_key d of
        (None, d) \<Rightarrow> (d_err d = CFG_DOC_OK, d)
      | (Some k, d) \<Rightarrow> (case dispatch table k d of (ok, d) \<Rightarrow> if \<not> ok then (False, d) else parse_members table d))"
proof -
  note t = dispatch_tame [OF assms(1)]
  have "doc_foreach (length (j_rest (d_j d))) (dispatch table) f = parse_members table f"
    if k: "next_key d = (Some k, e)" and f: "dispatch table k e = (True, f)" for k e f
  proof -
    have "j_depth (d_j e) \<le> 6 \<and> length (j_rest (d_j e)) < length (j_rest (d_j d))"
      using next_key_onward [OF assms(2)] k unfolding next_key_def by blast
    moreover have "onward (d_j e) (d_j f)" using t f unfolding tame_def by blast
    ultimately show ?thesis unfolding parse_members_def by (intro foreach_fuel t) (simp_all add: onward_def)
  qed
  then show ?thesis unfolding parse_members_def [of table d] Suc_eq_plus1 [symmetric] doc_foreach.simps
    by (auto split: prod.split option.split)
qed

section \<open>The rounds of the loops\<close>

text \<open>\<open>rounds f n\<close> is \<open>n\<close> rounds of a loop whose round \<open>f\<close> goes on or leaves. A loop ends if every \<open>n\<close> rounds
  take at least \<open>n\<close> bytes of the text and some number of them reaches the round that leaves, whose
  answer is the loop's.\<close>

fun rounds :: "('a \<Rightarrow> 'a option) \<Rightarrow> nat \<Rightarrow> 'a \<Rightarrow> 'a option" where
  "rounds f 0 x = Some x"
| "rounds f (Suc n) x = (case f x of None \<Rightarrow> None | Some y \<Rightarrow> rounds f n y)"

definition text_left :: "dc_t \<Rightarrow> nat" where
  "text_left d = length (j_rest (d_j d))"

definition ends_in :: "(dc_t \<Rightarrow> dc_t option) \<Rightarrow> (dc_t \<Rightarrow> 'r) \<Rightarrow> dc_t \<Rightarrow> 'r \<Rightarrow> bool" where
  "ends_in f leave d r \<longleftrightarrow>
     (\<forall>n e. rounds f n d = Some e \<longrightarrow> n + text_left e \<le> text_left d) \<and>
     (\<exists>n e. rounds f n d = Some e \<and> f e = None \<and> r = leave e)"

lemma rounds_take:
  assumes step: "\<And>d e. P d \<Longrightarrow> f d = Some e \<Longrightarrow> P e \<and> m e < (m d :: nat)"
  shows "P d \<Longrightarrow> rounds f n d = Some e \<Longrightarrow> n + m e \<le> m d"
proof (induction n arbitrary: d)
  case (Suc n)
  then obtain d1 where d1: "f d = Some d1" "rounds f n d1 = Some e" by (auto split: option.splits)
  with step [OF Suc.prems(1) d1(1)] Suc.IH [of d1] show ?case by simp
qed simp

lemma rounds_reach:
  assumes step: "\<And>d e. P d \<Longrightarrow> f d = Some e \<Longrightarrow> P e \<and> m e < (m d :: nat)"
    and more: "\<And>d e. P d \<Longrightarrow> f d = Some e \<Longrightarrow> loop d = loop e"
    and leave: "\<And>d. P d \<Longrightarrow> f d = None \<Longrightarrow> loop d = leave d"
  shows "P d \<Longrightarrow> \<exists>n e. rounds f n d = Some e \<and> f e = None \<and> loop d = leave e"
proof (induction "m d" arbitrary: d rule: less_induct)
  case less
  show ?case
  proof (cases "f d")
    case None
    then show ?thesis using leave [OF less.prems] by (intro exI [of _ 0] exI [of _ d]) simp
  next
    case (Some d1)
    then obtain n e where "rounds f n d1 = Some e" "f e = None" "loop d1 = leave e"
      using less.hyps [of d1] step [OF less.prems Some] by blast
    then show ?thesis using Some more [OF less.prems Some] by (intro exI [of _ "Suc n"] exI [of _ e]) simp
  qed
qed

lemma ends_inI:
  assumes "\<And>d e. j_depth (d_j d) \<le> 6 \<Longrightarrow> f d = Some e \<Longrightarrow> j_depth (d_j e) \<le> 6 \<and> text_left e < text_left d"
    and "\<And>d e. j_depth (d_j d) \<le> 6 \<Longrightarrow> f d = Some e \<Longrightarrow> loop d = loop e"
    and "\<And>d. j_depth (d_j d) \<le> 6 \<Longrightarrow> f d = None \<Longrightarrow> loop d = leave d" and d: "j_depth (d_j d) \<le> 6"
  shows "ends_in f leave d (loop d)"
  unfolding ends_in_def
proof (intro conjI allI impI)
  fix n e assume "rounds f n d = Some e"
  with assms(1) d show "n + text_left e \<le> text_left d"
    by (rule rounds_take [where P = "\<lambda>d. j_depth (d_j d) \<le> 6" and m = text_left])
next
  show "\<exists>n e. rounds f n d = Some e \<and> f e = None \<and> loop d = leave e"
    using assms by (rule rounds_reach [where P = "\<lambda>d. j_depth (d_j d) \<le> 6" and m = text_left])
qed

text \<open>A round of \<open>next_key\<close>: a name too long to be known is consumed with its value. A round of the
  loop over the members: a name is read and its handler run. A round of the loop over the profiles.\<close>

definition key_round :: "dc_t \<Rightarrow> dc_t option" where
  "key_round d = (case cfg_json_obj_key CFG_JSON_KEY_MAX (d_j d) of
     (Some (k, True), j) \<Rightarrow> (case dc_unknown (d\<lparr>d_j := j\<rparr>) of (ok, e) \<Rightarrow> if ok then Some e else None)
   | _ \<Rightarrow> None)"

definition key_leave :: "dc_t \<Rightarrow> u8 list option \<times> dc_t" where
  "key_leave d = (case cfg_json_obj_key CFG_JSON_KEY_MAX (d_j d) of
     (None, j) \<Rightarrow> (None, if j_err j \<noteq> CFG_JSON_OK then dc_json (d\<lparr>d_j := j\<rparr>) else d\<lparr>d_j := j\<rparr>)
   | (Some (k, tr), j) \<Rightarrow> if \<not> tr then (Some (c_string k), d\<lparr>d_j := j\<rparr>) else (None, snd (dc_unknown (d\<lparr>d_j := j\<rparr>))))"

definition member_round :: "(u8 list \<times> handler) list \<Rightarrow> dc_t \<Rightarrow> dc_t option" where
  "member_round table d = (case next_key d of
     (None, e) \<Rightarrow> None
   | (Some k, e) \<Rightarrow> (case dispatch table k e of (ok, e) \<Rightarrow> if ok then Some e else None))"

definition member_leave :: "(u8 list \<times> handler) list \<Rightarrow> dc_t \<Rightarrow> bool \<times> dc_t" where
  "member_leave table d = (case next_key d of
     (None, e) \<Rightarrow> (d_err e = CFG_DOC_OK, e)
   | (Some k, e) \<Rightarrow> (False, snd (dispatch table k e)))"

definition profile_round :: "nat \<times> dc_t \<Rightarrow> (nat \<times> dc_t) option" where
  "profile_round x = (case x of (i, d) \<Rightarrow> case cfg_json_arr_next (d_j d) of (avail, j) \<Rightarrow>
     if avail \<and> i < 7 then (case parse_profile i [] (d\<lparr>d_j := j\<rparr>) of (ok, e) \<Rightarrow> if ok then Some (i + 1, e) else None)
     else None)"

definition profile_leave :: "nat \<times> dc_t \<Rightarrow> bool \<times> dc_t" where
  "profile_leave x = (case x of (i, d) \<Rightarrow> case cfg_json_arr_next (d_j d) of (avail, j) \<Rightarrow>
     let d = d\<lparr>d_j := j\<rparr> in
     if \<not> avail then (if j_err j \<noteq> CFG_JSON_OK then (False, dc_json d) else (True, d))
     else if 7 \<le> i then (False, dc_fail d CFG_DOC_ERR_TYPE (Some (text_bytes ''profiles'')))
     else (False, snd (parse_profile i [] d)))"

lemma key_steps:
  assumes "j_depth (d_j d) \<le> 6" "key_round d = Some e"
  shows "j_depth (d_j e) \<le> 6 \<and> text_left e < text_left d" "next_key d = next_key e"
proof -
  obtain k j where k: "cfg_json_obj_key CFG_JSON_KEY_MAX (d_j d) = (Some (k, True), j)" "dc_unknown (d\<lparr>d_j := j\<rparr>) = (True, e)"
    using assms(2) by (auto simp: key_round_def split: prod.splits option.splits bool.splits if_splits)
  show "j_depth (d_j e) \<le> 6 \<and> text_left e < text_left d"
    using key_onward [OF k(1) assms(1)] unknown_onward [OF k(2)] assms(1) by (auto simp: onward_def text_left_def)
  show "next_key d = next_key e" using k by (simp add: next_key_eq [OF assms(1)])
qed

lemma key_leaves: "j_depth (d_j d) \<le> 6 \<Longrightarrow> key_round d = None \<Longrightarrow> next_key d = key_leave d"
  by (auto simp: next_key_eq key_round_def key_leave_def split: prod.splits option.splits bool.splits if_splits)

lemma member_steps:
  assumes t: "tame_table table" and "j_depth (d_j d) \<le> 6" "member_round table d = Some e"
  shows "j_depth (d_j e) \<le> 6 \<and> text_left e < text_left d" "parse_members table d = parse_members table e"
proof -
  obtain k d1 where k: "next_key d = (Some k, d1)" "dispatch table k d1 = (True, e)"
    using assms(3) by (auto simp: member_round_def split: prod.splits option.splits if_splits)
  have "j_depth (d_j d1) \<le> 6 \<and> length (j_rest (d_j d1)) < length (j_rest (d_j d))"
    using next_key_onward [OF assms(2)] k(1) unfolding next_key_def by blast
  moreover have "onward (d_j d1) (d_j e)" using dispatch_tame [OF t] k(2) unfolding tame_def by blast
  ultimately show "j_depth (d_j e) \<le> 6 \<and> text_left e < text_left d" by (simp add: onward_def text_left_def)
  show "parse_members table d = parse_members table e" using k by (simp add: members_eq [OF t assms(2)])
qed

lemma member_leaves:
  "tame_table table \<Longrightarrow> j_depth (d_j d) \<le> 6 \<Longrightarrow> member_round table d = None \<Longrightarrow> parse_members table d = member_leave table d"
  by (auto simp: members_eq member_round_def member_leave_def split: prod.splits option.splits if_splits)

lemma profile_steps:
  "profile_round (i, d) = Some e \<Longrightarrow> fst e = i + 1 \<and> i < 7 \<and> profiles_loop i d = profiles_loop (fst e) (snd e)"
  by (auto simp: profile_round_def profiles_loop.simps [of i d] CFG_PROFILE_COUNT_def Let_def split: prod.splits if_splits)

lemma profile_leaves: "profile_round (i, d) = None \<Longrightarrow> profiles_loop i d = profile_leave (i, d)"
  by (auto simp: profile_round_def profile_leave_def profiles_loop.simps [of i d] CFG_PROFILE_COUNT_def Let_def
      split: prod.splits if_splits)

lemma profiles_reach:
  "\<exists>n e. rounds profile_round n (i, d) = Some e \<and> profile_round e = None \<and> profiles_loop i d = profile_leave e"
proof -
  have "\<exists>n e. rounds profile_round n x = Some e \<and> profile_round e = None \<and> profiles_loop (fst x) (snd x) = profile_leave e" for x
  proof (rule rounds_reach [where P = "\<lambda>_. True" and m = "\<lambda>x. 7 - fst x"])
    fix x e assume "profile_round x = Some e"
    then show "True \<and> 7 - fst e < 7 - fst x" "profiles_loop (fst x) (snd x) = profiles_loop (fst e) (snd e)"
      using profile_steps [of "fst x" "snd x" e] by auto
  next
    fix x assume "profile_round x = None"
    then show "profiles_loop (fst x) (snd x) = profile_leave x" using profile_leaves [of "fst x" "snd x"] by simp
  qed simp
  from this [of "(i, d)"] show ?thesis by simp
qed

lemma profiles_few: "rounds profile_round n x = Some e \<Longrightarrow> fst x \<le> 7 \<Longrightarrow> n \<le> 7 - fst x"
proof (induction n arbitrary: x)
  case (Suc n)
  obtain y where y: "profile_round x = Some y" "rounds profile_round n y = Some e"
    using Suc.prems(1) by (auto split: option.splits)
  then have "fst y = fst x + 1" "fst x < 7" using profile_steps [of "fst x" "snd x" y] by simp_all
  then show ?case using Suc.IH [OF y(2)] by simp
qed simp

text \<open>The tables of the document and of all its nested objects.\<close>

definition doc_tables :: "(u8 list \<times> handler) list set" where
  "doc_tables = {doc_table, primitives_table, limits_table, field_table, global_table} \<union>
     range profile_table \<union> range rest_table \<union> range revert_table"

lemma doc_tables_tame: "table \<in> doc_tables \<Longrightarrow> tame_table table"
  using doc_tame by (auto simp: doc_tables_def leaf_tables nested_tables)

text \<open>C27 (termination). Every loop of \<open>config_doc.c\<close> ends on every text at a legal depth: the loop of
  \<open>next_key\<close> over names too long to be known and the loop over the members of the document and of each
  of its nested objects take at least one byte per round, so no more rounds than bytes are left, and
  reach the round that leaves the loop with the loop's answer; the loop over the profiles takes at
  most seven rounds; an object that is read with success has not moved the cursor back.\<close>

theorem document_walk_ends:
  assumes "j_depth (d_j d) \<le> 6" "table \<in> doc_tables"
  shows "ends_in key_round key_leave d (next_key d) \<and>
    ends_in (member_round table) (member_leave table) d (parse_members table d) \<and>
    (\<exists>n e. n \<le> 7 \<and> rounds profile_round n (0, d) = Some e \<and> profile_round e = None \<and> profiles_loop 0 d = profile_leave e) \<and>
    (\<forall>k d'. parse_object table k d = (True, d') \<longrightarrow> j_depth (d_j d') \<le> 6 \<and> text_left d' \<le> text_left d)"
proof (intro conjI)
  note t = doc_tables_tame [OF assms(2)]
  show "ends_in key_round key_leave d (next_key d)"
    using key_steps key_leaves assms(1) by (rule ends_inI)
  show "ends_in (member_round table) (member_leave table) d (parse_members table d)"
    using member_steps [OF t] member_leaves [OF t] assms(1) by (rule ends_inI)
  obtain n e where "rounds profile_round n (0, d) = Some e" "profile_round e = None" "profiles_loop 0 d = profile_leave e"
    using profiles_reach by blast
  then show "\<exists>n e. n \<le> 7 \<and> rounds profile_round n (0, d) = Some e \<and> profile_round e = None \<and> profiles_loop 0 d = profile_leave e"
    using profiles_few [of n "(0, d)" e] by (intro exI [of _ n] exI [of _ e]) simp
  show "\<forall>k d'. parse_object table k d = (True, d') \<longrightarrow> j_depth (d_j d') \<le> 6 \<and> text_left d' \<le> text_left d"
    using object_tame [OF t] assms(1) unfolding tame_def onward_def text_left_def by blast
qed

definition sample_walk :: "u8 list \<Rightarrow> dc_t" where
  "sample_walk bs = dc_init ((cfg_json_init bs)\<lparr>j_depth := 1\<rparr>) config_defaults"

theorem document_walk_ends_witness:
  "ends_in (member_round (rest_table 3)) (member_leave (rest_table 3)) (sample_walk (text_bytes ''{}}''))
     (parse_members (rest_table 3) (sample_walk (text_bytes ''{}}''))) \<and>
   next_key (sample_walk [RBRACE]) = (None, dc_init (cfg_json_init []) config_defaults)"
proof -
  have d: "j_depth (d_j (sample_walk bs)) \<le> 6" for bs by (simp add: sample_walk_def dc_init_def cfg_json_init_def)
  have t: "rest_table 3 \<in> doc_tables" by (simp add: doc_tables_def)
  have r: "key_round (sample_walk [RBRACE]) = None" "key_leave (sample_walk [RBRACE]) = (None, dc_init (cfg_json_init []) config_defaults)"
    by (simp_all add: sample_walk_def key_round_def key_leave_def dc_init_def cfg_json_init_def cfg_json_obj_key_def
        container_step_def skip_ws_def want_more_def Let_def)
  obtain n e where n: "rounds key_round n (sample_walk [RBRACE]) = Some e" "next_key (sample_walk [RBRACE]) = key_leave e"
    using document_walk_ends [OF d [of "[RBRACE]"] t] unfolding ends_in_def by blast
  then have "e = sample_walk [RBRACE]" using r(1) by (cases n) simp_all
  then show ?thesis using document_walk_ends [OF d t] n(2) r(2) by simp
qed

end
