(* ===== verification/Doc_Print.thy ===== *)
theory Doc_Print
  imports Doc_Walk
begin

text \<open>
  A written document is read back. \<open>reads_as\<close> says that a handler takes a text off the cursor and has a given effect
  on the parser state; objects and the profile array are composed from their members, and the composition is the
  configuration that was written.
\<close>

section \<open>The text that is written\<close>

definition i8_doc :: "i8 \<Rightarrow> jdoc" where
  "i8_doc v = (if sint v = -1 then J_null else J_int (scast v))"

definition vref_doc :: "cfg_prim_ref_t \<Rightarrow> f32 \<Rightarrow> jdoc" where
  "vref_doc ref v = (if CFG_PRIM_V_BULK \<le> ref \<and> ref \<le> CFG_PRIM_V_LIMP then J_str (PRIM_NAMES ! unat ref) else J_f32 v)"

abbreviation named :: "(string \<times> jdoc) list \<Rightarrow> jdoc" where
  "named ms \<equiv> J_obj (map (\<lambda>(k, d). (text_bytes k, d)) ms)"

definition primitives_doc :: "cfg_primitives_t \<Rightarrow> jdoc" where
  "primitives_doc p = named [(''v_bulk'', J_f32 (pr_v_bulk p)), (''v_bulk_cons'', J_f32 (pr_v_bulk_cons p)), (''v_float'', J_f32 (pr_v_float p)),
     (''v_float_cons'', J_f32 (pr_v_float_cons p)), (''v_limp'', J_f32 (pr_v_limp p))]"

definition field_doc :: "ctrl_globals_t \<Rightarrow> jdoc" where
  "field_doc g = named [(''rotor_rated_v'', J_f32 (g_rotor_rated_v g)), (''rotor_v_max'', J_f32 (g_rotor_v_max g)),
     (''allow_full_field_48v'', J_bool (g_allow_full_field_48v g))]"

definition limits_doc :: "ctrl_limits_t \<Rightarrow> ctrl_globals_t \<Rightarrow> jdoc" where
  "limits_doc l g = named [(''battery_c_limit'', J_f32 (lim_battery_c_limit l)), (''wiring_limit_a'', J_f32 (lim_wiring_limit_a l)),
     (''alternator_limit_a'', J_f32 (lim_alternator_limit_a l)), (''field'', field_doc g)]"

definition global_doc :: "ctrl_globals_t \<Rightarrow> jdoc" where
  "global_doc g = named
     [(''cells_series'', J_int (ucast (g_cells_series g))), (''bank_capacity_ah'', J_f32 (g_bank_capacity_ah g)),
      (''max_charge_power_w'', J_f32 (g_max_charge_power_w g)), (''ramp_w_per_s'', J_f32 (g_ramp_w_per_s g)), (''p_tail_w'', J_f32 (g_p_tail_w g)),
      (''t_tail_hold_s'', J_int (ucast (g_t_tail_hold_s g))), (''t_vclamp_s'', J_int (ucast (g_t_vclamp_s g))),
      (''cv_hold_exit_min'', J_int (ucast (g_cv_hold_exit_min g))), (''t_charge_max_min'', J_int (ucast (g_t_charge_max_min g))),
      (''warmup_time_s'', J_int (ucast (g_warmup_time_s g))), (''warmup_coolant_c'', J_f32 (g_warmup_coolant_c g)),
      (''soc_target_pct'', i8_doc (g_soc_target_pct g)), (''skip_bulk_vcell'', J_f32 (g_skip_bulk_vcell g)),
      (''skip_bulk_soc_pct'', i8_doc (g_skip_bulk_soc_pct g)), (''limp_vcell'', J_f32 (g_limp_vcell g)),
      (''limp_power_cap_w'', J_f32 (g_limp_power_cap_w g)), (''batt_temp_src'', J_str (batt_temp_src_name (g_batt_temp_src g))),
      (''require_batt_temp'', J_bool (g_require_batt_temp g))]"

definition rest_doc :: "cfg_profile_t \<Rightarrow> jdoc" where
  "rest_doc pr = named
     [(''mode'', J_str (if p_rest_mode (cp_p pr) = CTRL_REST_ZERO then text_bytes ''zero'' else text_bytes ''hold'')),
      (''voltage'', vref_doc (cp_rest_voltage_ref pr) (p_rest_voltage_vcell (cp_p pr))), (''power_cap_w'', J_f32 (p_rest_power_cap_w (cp_p pr)))]"

definition revert_doc :: "ctrl_profile_t \<Rightarrow> jdoc" where
  "revert_doc p = named [(''v_cell'', J_f32 (p_v_revert_vcell p)), (''hold_s'', J_int (ucast (p_t_revert_hold_s p))),
     (''soc_pct'', i8_doc (p_soc_revert_pct p)), (''ah'', J_f32 (p_ah_revert p))]"

definition profile_doc :: "cfg_profile_t \<Rightarrow> jdoc" where
  "profile_doc pr = named
     [(''id'', J_int (ucast (p_id (cp_p pr)))), (''name'', J_str (cfg_doc_profile_name (p_id (cp_p pr)))),
      (''reserved'', J_bool (cp_flags pr AND CFG_PROF_FLAG_RESERVED \<noteq> 0)),
      (''cv_target'', vref_doc (cp_cv_target_ref pr) (p_cv_target_vcell (cp_p pr))),
      (''exit_at_cv_entry'', J_bool (p_exit_at_cv_entry (cp_p pr))), (''rest'', rest_doc pr), (''revert'', revert_doc (cp_p pr))]"

definition config_doc :: "ctrl_config_t \<Rightarrow> cstr \<Rightarrow> jdoc" where
  "config_doc cfg fw = named
     ((''schema_version'', J_int (ucast CFG_SCHEMA_VERSION)) # (case fw of None \<Rightarrow> [] | Some s \<Rightarrow> [(''fw'', J_str s)]) @
      [(''primitives'', primitives_doc (cfg_prim cfg)), (''limits'', limits_doc (cfg_limits cfg) (cfg_globals cfg)),
       (''global'', global_doc (cfg_globals cfg)), (''profiles'', J_arr (map profile_doc (cfg_profiles cfg))),
       (''active_profile'', J_int (ucast (cfg_active_profile cfg)))])"

lemmas call_defs = calls_def kkey_def kf32_def kint_def kstr_def kbool_def ki8_def kvref_def

lemma emit_i8_doc: "emit_i8 w v = write_doc (i8_doc v) w"
  by (simp add: emit_i8_def i8_doc_def)

lemma emit_vref_doc: "emit_vref w ref v = write_doc (vref_doc ref v) w"
  by (simp add: emit_vref_def vref_doc_def)

lemma calls_append: "calls (fs @ gs) w = calls gs (calls fs w)"
  by (simp add: calls_def)

lemma emit_blocks:
  "emit_primitives p w = write_doc (primitives_doc p) w" "emit_limits l g w = write_doc (limits_doc l g) w"
  "emit_global g w = write_doc (global_doc g) w" "emit_profile pr w = write_doc (profile_doc pr) w"
  by (simp_all add: emit_primitives_def primitives_doc_def emit_limits_def limits_doc_def field_doc_def emit_global_def global_doc_def
      emit_profile_def profile_doc_def rest_doc_def revert_doc_def Let_def call_defs emit_i8_doc emit_vref_doc)

lemma emit_profiles: "calls (map emit_profile ps) w = write_elements (map profile_doc ps) w"
  by (induction ps arbitrary: w) (simp_all add: calls_def emit_blocks)

lemma emit_is_document: "cfg_doc_emit w cfg fw = (\<not> w_ovf (write_doc (config_doc cfg fw) w), write_doc (config_doc cfg fw) w)"
proof -
  have e: "foldl (\<lambda>w f. f w) v (map emit_profile ps) = write_elements (map profile_doc ps) v" for v :: "'a cfg_json_w_t" and ps
    using emit_profiles unfolding calls_def .
  show ?thesis unfolding cfg_doc_emit_def config_doc_def calls_append Let_def
    by (cases fw) (simp_all add: call_defs emit_blocks e)
qed

lemma doc_legal: "legal (config_doc cfg fw)"
  by (cases fw)
    (simp_all add: config_doc_def primitives_doc_def limits_doc_def field_doc_def global_doc_def profile_doc_def rest_doc_def revert_doc_def
      i8_doc_def vref_doc_def list_all_iff)

lemma height_simps [simp]: "height (i8_doc v) = 0" "height (vref_doc r x) = 0"
  by (simp_all add: i8_doc_def vref_doc_def)

lemma doc_height: "height (config_doc cfg fw) \<le> 4"
proof -
  have "height (profile_doc pr) \<le> 2" for pr by (simp add: profile_doc_def rest_doc_def revert_doc_def)
  then have "height (J_arr (map profile_doc (cfg_profiles cfg))) \<le> 3" by auto
  then show ?thesis by (cases fw) (simp_all add: config_doc_def primitives_doc_def limits_doc_def field_doc_def global_doc_def del: height.simps(2))
qed

end
