(* ===== verification/Doc_Read.thy ===== *)
theory Doc_Read
  imports Doc_Walk
begin

text \<open>
  Completeness of the document walk: \<open>reads_as\<close> says that a handler takes a text off the cursor and has a given effect
  on the parser state. The scalars the writer prints are read as the values they stand for; objects and arrays
  compose the effects of their members in order.
\<close>

section \<open>Effects\<close>

text \<open>An effect does not look at the cursor.\<close>

definition blind :: "(dc_t \<Rightarrow> dc_t) \<Rightarrow> bool" where
  "blind u \<longleftrightarrow> (\<forall>d j. u (d\<lparr>d_j := j\<rparr>) = (u d)\<lparr>d_j := j\<rparr> \<and> d_err (u d) = d_err d)"

definition store :: "(ctrl_config_t \<Rightarrow> ctrl_config_t) \<Rightarrow> dc_t \<Rightarrow> dc_t" where
  "store f d = d\<lparr>d_cfg := f (d_cfg d)\<rparr>"

lemma blindD: "blind u \<Longrightarrow> u (d\<lparr>d_j := j\<rparr>) = (u d)\<lparr>d_j := j\<rparr>" "blind u \<Longrightarrow> d_err (u d) = d_err d"
  by (simp_all add: blind_def)

lemma blind_j: "blind u \<Longrightarrow> d_j (u d) = d_j d"
proof -
  assume "blind u"
  from blindD(1) [OF this, where d = d and j = "d_j d"] have "u d = (u d)\<lparr>d_j := d_j d\<rparr>" by simp
  then show ?thesis by (metis dc_t.select_convs(1) dc_t.surjective dc_t.update_convs(1))
qed

lemma blind_store [simp]: "blind (store f)"
  by (simp add: blind_def store_def)

lemma blind_flags [simp]: "blind (d_saw_v_limp_update f)" "blind (d_saw_limp_vcell_update f)" "blind (d_schema_version_update g)" "blind id" "blind (\<lambda>d. d)"
  by (simp_all add: blind_def)

lemma blind_comp: "blind u \<Longrightarrow> blind v \<Longrightarrow> blind (\<lambda>d. v (u d))"
  by (simp add: blind_def)

lemma blind_fold: "list_all blind us \<Longrightarrow> blind (fold (\<lambda>u d. u d) us)"
proof (induction us)
  case (Cons u us)
  then show ?case using blind_comp [of u "fold (\<lambda>u d. u d) us"] by (simp add: comp_def)
qed (simp add: blind_def)

section \<open>Reading a text\<close>

definition reads_as :: "nat \<Rightarrow> handler \<Rightarrow> u8 list \<Rightarrow> u8 list \<Rightarrow> (dc_t \<Rightarrow> dc_t) \<Rightarrow> bool" where
  "reads_as n h k t u \<longleftrightarrow> blind u \<and> t \<noteq> [] \<and> (\<forall>d r. d_err d = CFG_DOC_OK \<longrightarrow> j_err (d_j d) = CFG_JSON_OK \<longrightarrow> j_depth (d_j d) + n \<le> 6 \<longrightarrow>
     j_rest (d_j d) = t @ r \<longrightarrow> ends_token r \<longrightarrow>
     (\<exists>j'. kept (d_j d) j' \<and> j_rest j' = r \<and> h k d = (True, u (d\<lparr>d_j := j'\<rparr>))))"

lemma reads_more: "reads_as n h k t u \<Longrightarrow> n \<le> m \<Longrightarrow> reads_as m h k t u"
  unfolding reads_as_def by (meson add_left_mono le_trans)

text \<open>A scalar is consumed without touching the levels.\<close>

lemma scalar_reads:
  assumes "blind u" "t \<noteq> []"
    and "\<And>d r. d_err d = CFG_DOC_OK \<Longrightarrow> j_err (d_j d) = CFG_JSON_OK \<Longrightarrow> j_rest (d_j d) = t @ r \<Longrightarrow> ends_token r \<Longrightarrow>
        h k d = (True, u (d\<lparr>d_j := (d_j d)\<lparr>j_rest := r\<rparr>\<rparr>))"
  shows "reads_as n h k t u"
  unfolding reads_as_def using assms by (auto intro!: exI kept_rest)

lemma peek_char:
  "j_err j = CFG_JSON_OK \<Longrightarrow> j_rest j = c # s \<Longrightarrow> \<not> is_ws c \<Longrightarrow> cfg_json_peek j = (value_type c, j)"
  using peek_at [of j "[]" c s] by simp

lemma null_type: "value_type 0x6E = CFG_JSON_T_NULL"
  by (simp add: value_type_def is_digit_def)

lemma read_null:
  assumes "j_err j = CFG_JSON_OK" "j_rest j = NULL_TXT @ r"
  shows "cfg_json_peek j = (CFG_JSON_T_NULL, j)" "cfg_json_null j = (True, j\<lparr>j_rest := r\<rparr>)"
  using assms peek_char [where c = "0x6E" and j = j] null_complete [of j "[]" r] by (simp_all add: null_type)

lemma num_read:
  assumes "cfg_json_scan_num t = Some (length t, v)" "length t \<le> 40" "j_err j = CFG_JSON_OK" "j_rest j = t @ r" "ends_token r"
  shows "cfg_json_peek j = (CFG_JSON_T_NUM, j)" "cfg_json_num j = (Some v, j\<lparr>j_rest := r\<rparr>)"
proof -
  have "json_number t" using assms(1) scan_num_iff by blast
  from number_chars [OF this] obtain c s where t: "t = c # s" "list_all is_num_char t" "c = MINUS \<or> is_digit c" by (cases t) auto
  then have c: "\<not> is_ws c" "value_type c = CFG_JSON_T_NUM" by (auto simp: value_type_def is_digit_def is_ws_def)
  then show "cfg_json_peek j = (CFG_JSON_T_NUM, j)" using peek_char [of j c "s @ r"] assms(3,4) t(1) by simp
  show "cfg_json_num j = (Some v, j\<lparr>j_rest := r\<rparr>)"
    using assms c t probe_token [OF t(2) assms(5,2)]
    by (simp add: cfg_json_num_def skip_ws_def want_more_def CFG_JSON_NUM_CHARS_MAX_def Let_def not_less)
qed

lemma rd_num_null:
  assumes "j_err (d_j d) = CFG_JSON_OK" "j_rest (d_j d) = NULL_TXT @ r"
  shows "rd_num k d = (Some None, d\<lparr>d_j := (d_j d)\<lparr>j_rest := r\<rparr>\<rparr>)"
  using read_null [OF assms] by (simp add: rd_num_def)

lemma rd_num_value:
  assumes "cfg_json_scan_num t = Some (length t, v)" "length t \<le> 40" "j_err (d_j d) = CFG_JSON_OK" "j_rest (d_j d) = t @ r" "ends_token r"
  shows "rd_num k d = (Some (Some v), d\<lparr>d_j := (d_j d)\<lparr>j_rest := r\<rparr>\<rparr>)"
  using num_read [OF assms] by (simp add: rd_num_def)

section \<open>Floats\<close>

text \<open>A finite pattern is determined by its value.\<close>

definition mag :: "int \<Rightarrow> int \<Rightarrow> rat" where
  "mag e m = (if e = 0 then of_int m * 2 powi (-149) else of_int (2 ^ 23 + m) * 2 powi (e - 150))"

lemma mag_less:
  assumes "0 \<le> e" "e < e'" "m < 2 ^ 23" "0 \<le> m'"
  shows "mag e m < mag e' m'"
proof -
  define q where "q = (if e = 0 then -149 else e - 149)"
  have p: "(0 :: rat) < 2 powi x" for x by simp
  have "mag e m < of_int (2 ^ 23) * 2 powi q"
  proof (cases "e = 0")
    case True
    have "(of_int m :: rat) < of_int (2 ^ 23)" using assms(3) by (simp only: of_int_less_iff)
    then show ?thesis using True p by (simp add: mag_def q_def)
  next
    case False
    have "2 powi q = (2 :: rat) * 2 powi (e - 150)" using powi2_Suc [of "e - 150"] False by (simp add: q_def)
    moreover have "(of_int (2 ^ 23 + m) :: rat) < of_int (2 ^ 24)" using assms(3) unfolding of_int_less_iff by simp
    then have "(of_int (2 ^ 23 + m) :: rat) * 2 powi (e - 150) < of_int (2 ^ 24) * 2 powi (e - 150)" by (rule mult_strict_right_mono) (rule p)
    ultimately show ?thesis using False by (simp add: mag_def)
  qed
  also have "\<dots> \<le> of_int (2 ^ 23 + m') * 2 powi (e' - 150)"
  proof (rule mult_mono)
    show "(of_int (2 ^ 23) :: rat) \<le> of_int (2 ^ 23 + m')" using assms(4) unfolding of_int_le_iff by simp
    show "(2 :: rat) powi q \<le> 2 powi (e' - 150)" using assms(1,2) by (intro power_int_increasing) (auto simp: q_def)
  qed (use assms(4) p in \<open>auto intro: less_imp_le\<close>)
  also have "\<dots> = mag e' m'" using assms(1,2) by (simp add: mag_def)
  finally show ?thesis .
qed

lemma mag_inj:
  assumes "mag e m = mag e' m'" "0 \<le> e" "0 \<le> e'" "0 \<le> m" "m < 2 ^ 23" "0 \<le> m'" "m' < 2 ^ 23"
  shows "e = e' \<and> m = m'"
proof -
  have "\<not> e < e'" "\<not> e' < e" using mag_less [of e e' m m'] mag_less [of e' e m' m] assms by auto
  then have e: "e = e'" by simp
  then show ?thesis using assms(1) by (auto simp: mag_def split: if_splits)
qed

lemma fpv_inj: "fpv a = fpv b \<Longrightarrow> isfinite a \<Longrightarrow> a = b"
proof -
  assume h: "fpv a = fpv b" "isfinite a"
  obtain s e m where a: "uint (f32_bits a) = (if s then 2 ^ 31 else 0) + (e * 2 ^ 23 + m)" "0 \<le> e" "e < 256" "0 \<le> m" "m < 2 ^ 23"
      "fpv a = fp_unpack s e m" by (rule f32_fields)
  obtain t f k where b: "uint (f32_bits b) = (if t then 2 ^ 31 else 0) + (f * 2 ^ 23 + k)" "0 \<le> f" "f < 256" "0 \<le> k" "k < 2 ^ 23"
      "fpv b = fp_unpack t f k" by (rule f32_fields)
  have fin: "fp_unpack r x y = FpFin r (if r then - mag x y else mag x y) \<and> x \<noteq> 255" if "fp_finite (fp_unpack r x y)" for r x y
    using that by (cases "x = 255") (auto simp: fp_unpack_def mag_def Let_def fp_finite_def split: if_splits)
  have u: "fp_unpack s e m = FpFin s (if s then - mag e m else mag e m)" "fp_unpack t f k = FpFin t (if t then - mag f k else mag f k)"
    using fin [THEN conjunct1] h(2) h(2) [unfolded isfinite_def h(1)] unfolding isfinite_def a(6) b(6) by blast+
  have "FpFin s (if s then - mag e m else mag e m) = FpFin t (if t then - mag f k else mag f k)"
    using h(1) unfolding a(6) b(6) u .
  then have "s = t" "mag e m = mag f k" by (cases t; simp)+
  then have "uint (f32_bits a) = uint (f32_bits b)" using mag_inj [of e m f k] a(1-5) b(1-5) by simp
  then have "f32_bits a = f32_bits b" by (simp only: word_uint_eq_iff)
  then show "a = b" by (cases a; cases b) simp
qed

lemma f32_of_fpv: "isfinite v \<Longrightarrow> f32_of (fpv v) = v"
  using fpv_inj [of v "f32_of (fpv v)"] by simp

text \<open>What a float becomes on the wire and back: no infinity, one NaN.\<close>

definition wire_f32 :: "f32 \<Rightarrow> f32" where
  "wire_f32 v = (if isfinite v then v else NAN)"

lemma to_f32_read: "\<bar>y\<bar> \<le> READ_MAX \<Longrightarrow> to_f32 (FpFin s y) = f32_of (double_to_single (FpFin s y))"
proof -
  have n: "normal (34028235 * 10 ^ 31)"
  proof -
    have "(34028235 * 10 ^ 31 :: rat) \<le> 2 ^ 1000" by (rule order_trans [of _ "2 ^ 200"]) simp_all
    moreover have "2 powi (-1000) \<le> (1 :: rat)" by (simp add: power_int_def power_le_one)
    then have "2 powi (-1000) \<le> (34028235 * 10 ^ 31 :: rat)" by (rule order_trans) simp
    ultimately show ?thesis by (simp add: normal_def power_int_def)
  qed
  have b: "F32_BOUND = FpFin False (round_rat double_fmt (34028235 * 10 ^ 31))"
    unfolding F32_BOUND_def by (rule round_normal(2) [OF n])
  have "READ_MAX \<le> (1 - eps) * (34028235 * 10 ^ 31)" by (simp add: READ_MAX_def eps_def)
  also have "\<dots> \<le> round_rat double_fmt (34028235 * 10 ^ 31)" by (rule round_normal_bounds(1) [OF n])
  finally have m: "READ_MAX \<le> round_rat double_fmt (34028235 * 10 ^ 31)" .
  assume "\<bar>y\<bar> \<le> READ_MAX"
  with m have "\<not> round_rat double_fmt (34028235 * 10 ^ 31) < y" "\<not> y < - round_rat double_fmt (34028235 * 10 ^ 31)" by linarith+
  then show ?thesis unfolding to_f32_def b fp_neg.simps fp_lt_def fp_key.simps by simp
qed

lemma f32_reads: "reads_as n (rd_f32 dst) k (f32_item v) (store (dst (wire_f32 v)))"
proof (cases "isfinite v")
  case True
  then obtain b where b: "f32_text v = Some b" "reads_back b (fpv v)" "length b \<le> 16" using f32_text_reads_back by blast
  from b(2) obtain s y where y: "cfg_json_scan_num b = Some (length b, FpFin s y)" "\<bar>y\<bar> \<le> READ_MAX" "double_to_single (FpFin s y) = fpv v"
    unfolding reads_back_def by blast
  have "to_f32 (FpFin s y) = v" unfolding to_f32_read [OF y(2)] y(3) using True by (simp add: f32_of_fpv isfinite_not_nan)
  moreover have "json_number b" using y(1) scan_num_iff by blast
  then have "b \<noteq> []" using number_chars by blast
  ultimately show ?thesis using b y(1) True
    by (intro scalar_reads) (simp_all add: f32_item_def wire_f32_def rd_f32_def rd_num_value into_def store_def)
next
  case False
  then show ?thesis by (intro scalar_reads) (simp_all add: f32_item_def wire_f32_def rd_f32_def rd_num_null into_def store_def)
qed

section \<open>Other scalars\<close>

lemma int_text_ne: "int_text v \<noteq> []"
  using int_text_number number_chars by blast

lemma fits_int_value: "lo \<le> i \<Longrightarrow> i \<le> hi \<Longrightarrow> fits_int lo hi (FpFin s (of_int i)) = Some i"
  by (simp add: fits_int_def)

lemma rd_int_value:
  assumes "lo \<le> sint v" "sint v \<le> hi" "j_err (d_j d) = CFG_JSON_OK" "j_rest (d_j d) = int_text v @ r" "ends_token r"
  shows "rd_int lo hi k d = (Some (sint v), d\<lparr>d_j := (d_j d)\<lparr>j_rest := r\<rparr>\<rparr>)"
proof -
  have "length (int_text v) \<le> 40" using int_text_length [of v] by simp
  note n = rd_num_value [OF int_text_scan this assms(3-5), of k]
  show ?thesis unfolding rd_int_def n by (simp only: prod.case option.case bind.bind_lunit fits_int_value [OF assms(1,2)])
qed

lemma wide_sint:
  "sint (ucast (x :: u8) :: u32) = uint x" "sint (ucast (y :: u16) :: u32) = uint y" "sint (scast (z :: i8) :: u32) = sint z"
proof -
  have "uint (ucast x :: u32) = uint x" "uint (ucast y :: u32) = uint y" by (simp_all add: uint_up_ucast is_up)
  then show "sint (ucast x :: u32) = uint x" "sint (ucast y :: u32) = uint y"
    using uint_lt2p [of x] uint_lt2p [of y] unfolding sint_u32 by simp_all
  show "sint (scast z :: u32) = sint z" by (simp add: sint_up_scast is_up)
qed

lemma rd_int_narrow:
  assumes "j_err (d_j d) = CFG_JSON_OK" "ends_token r"
  shows "j_rest (d_j d) = int_text (ucast (x :: u8)) @ r \<Longrightarrow> rd_int 0 255 k d = (Some (uint x), d\<lparr>d_j := (d_j d)\<lparr>j_rest := r\<rparr>\<rparr>)"
    "j_rest (d_j d) = int_text (ucast (y :: u16)) @ r \<Longrightarrow> rd_int 0 65535 k d = (Some (uint y), d\<lparr>d_j := (d_j d)\<lparr>j_rest := r\<rparr>\<rparr>)"
    "j_rest (d_j d) = int_text (scast (z :: i8)) @ r \<Longrightarrow> rd_int (-128) 127 k d = (Some (sint z), d\<lparr>d_j := (d_j d)\<lparr>j_rest := r\<rparr>\<rparr>)"
proof -
  have "0 \<le> uint x" "uint x \<le> 255" "0 \<le> uint y" "uint y \<le> 65535" using uint_lt2p [of x] uint_lt2p [of y] by simp_all
  moreover have "-128 \<le> sint z" "sint z \<le> 127" using sint_ge [of z] sint_less [of z] by simp_all
  ultimately show "j_rest (d_j d) = int_text (ucast (x :: u8)) @ r \<Longrightarrow> rd_int 0 255 k d = (Some (uint x), d\<lparr>d_j := (d_j d)\<lparr>j_rest := r\<rparr>\<rparr>)"
    "j_rest (d_j d) = int_text (ucast (y :: u16)) @ r \<Longrightarrow> rd_int 0 65535 k d = (Some (uint y), d\<lparr>d_j := (d_j d)\<lparr>j_rest := r\<rparr>\<rparr>)"
    "j_rest (d_j d) = int_text (scast (z :: i8)) @ r \<Longrightarrow> rd_int (-128) 127 k d = (Some (sint z), d\<lparr>d_j := (d_j d)\<lparr>j_rest := r\<rparr>\<rparr>)"
    using rd_int_value [of 0 "ucast x" 255 d r k] rd_int_value [of 0 "ucast y" 65535 d r k] rd_int_value [of "-128" "scast z" 127 d r k] assms
    unfolding wide_sint by blast+
qed

lemma u8_reads: "reads_as n (rd_u8 dst) k (int_text (ucast x)) (store (dst x))"
proof (rule scalar_reads)
  fix d :: dc_t and r assume "j_err (d_j d) = CFG_JSON_OK" "j_rest (d_j d) = int_text (ucast x) @ r" "ends_token r"
  from rd_int_narrow(1) [OF this(1,3,2), of k] show "rd_u8 dst k d = (True, store (dst x) (d\<lparr>d_j := (d_j d)\<lparr>j_rest := r\<rparr>\<rparr>))"
    by (simp add: rd_u8_def into_def store_def)
qed (simp_all add: int_text_ne)

lemma u16_reads: "reads_as n (rd_u16 dst) k (int_text (ucast x)) (store (dst x))"
proof (rule scalar_reads)
  fix d :: dc_t and r assume "j_err (d_j d) = CFG_JSON_OK" "j_rest (d_j d) = int_text (ucast x) @ r" "ends_token r"
  from rd_int_narrow(2) [OF this(1,3,2), of k] show "rd_u16 dst k d = (True, store (dst x) (d\<lparr>d_j := (d_j d)\<lparr>j_rest := r\<rparr>\<rparr>))"
    by (simp add: rd_u16_def into_def store_def)
qed (simp_all add: int_text_ne)

lemma schema_reads: "reads_as n parse_schema k (int_text (ucast CFG_SCHEMA_VERSION)) (d_schema_version_update (\<lambda>_. 2))"
proof (rule scalar_reads)
  fix d :: dc_t and r assume "j_err (d_j d) = CFG_JSON_OK" "j_rest (d_j d) = int_text (ucast CFG_SCHEMA_VERSION) @ r" "ends_token r"
  from rd_int_narrow(2) [OF this(1,3,2), of k]
  show "parse_schema k d = (True, d_schema_version_update (\<lambda>_. 2) (d\<lparr>d_j := (d_j d)\<lparr>j_rest := r\<rparr>\<rparr>))"
    by (simp add: parse_schema_def CFG_SCHEMA_VERSION_def)
qed (simp_all add: int_text_ne)

lemma i8_reads: "reads_as n (rd_i8 dst) k (render (if sint v = -1 then J_null else J_int (scast v))) (store (dst v))"
proof (cases "sint v = -1")
  case True
  then have "v = -1" by (metis signed_minus_1 signed_word_eqI)
  then show ?thesis using True
    by (intro scalar_reads) (simp_all add: rd_i8_def read_null into_def store_def)
next
  case False
  have "reads_as n (rd_i8 dst) k (int_text (scast v)) (store (dst v))"
  proof (rule scalar_reads)
    fix d :: dc_t and r assume h: "j_err (d_j d) = CFG_JSON_OK" "j_rest (d_j d) = int_text (scast v) @ r" "ends_token r"
    have "length (int_text (scast v)) \<le> 40" using int_text_length [of "scast v"] by simp
    from num_read(1) [OF int_text_scan this h] rd_int_narrow(3) [OF h(1,3,2), of k]
    show "rd_i8 dst k d = (True, store (dst v) (d\<lparr>d_j := (d_j d)\<lparr>j_rest := r\<rparr>\<rparr>))"
      by (simp add: rd_i8_def into_def store_def)
  qed (simp_all add: int_text_ne)
  then show ?thesis using False by simp
qed

lemma bool_reads: "reads_as n (rd_bool dst) k (if b then TRUE_TXT else FALSE_TXT) (store (dst b))"
proof (rule scalar_reads)
  fix d :: dc_t and r assume h: "j_err (d_j d) = CFG_JSON_OK" "j_rest (d_j d) = (if b then TRUE_TXT else FALSE_TXT) @ r"
  have "cfg_json_peek (d_j d) = (CFG_JSON_T_BOOL, d_j d)"
    using h peek_char [where j = "d_j d"] by (cases b) (simp_all add: value_type_def is_digit_def is_ws_def)
  moreover have "cfg_json_bool (d_j d) = (Some b, (d_j d)\<lparr>j_rest := r\<rparr>)"
    using h by (cases b) (simp_all add: cfg_json_bool_def skip_ws_def want_more_def lit_def is_ws_def)
  ultimately show "rd_bool dst k d = (True, store (dst b) (d\<lparr>d_j := (d_j d)\<lparr>j_rest := r\<rparr>\<rparr>))"
    by (simp add: rd_bool_def into_def store_def)
qed simp_all

definition short :: "u8 list \<Rightarrow> bool" where
  "short s \<longleftrightarrow> takeWhile (\<lambda>c. c \<noteq> 0) s = s \<and> length s < 48"

lemma short_text: "list_all (\<lambda>c. c \<noteq> CHR 0x00) s \<Longrightarrow> length s < 48 \<Longrightarrow> short (text_bytes s)"
  by (simp add: short_def text_bytes_c_string) (simp add: text_bytes_def)

lemma quoted_read_short:
  assumes "short s" "j_err j = CFG_JSON_OK" "j_rest j = quoted s @ r"
  shows "cfg_json_peek j = (CFG_JSON_T_STR, j)" "cfg_json_str CFG_JSON_KEY_MAX j = (Some (s, False), j\<lparr>j_rest := r\<rparr>)"
proof -
  show "cfg_json_peek j = (CFG_JSON_T_STR, j)" using peek_char [where j = j] assms by (simp add: quoted_def value_type_def)
  show "cfg_json_str CFG_JSON_KEY_MAX j = (Some (s, False), j\<lparr>j_rest := r\<rparr>)"
  proof -
    have s: "takeWhile (\<lambda>c. c \<noteq> 0) s = s" "length s < CFG_JSON_KEY_MAX" using assms(1) by (simp_all only: short_def CFG_JSON_KEY_MAX_def)
    show ?thesis using str_quoted [of s CFG_JSON_KEY_MAX j r] s(2) assms(2,3) unfolding s(1) by blast
  qed
qed

lemma rd_str_value:
  "short s \<Longrightarrow> j_err (d_j d) = CFG_JSON_OK \<Longrightarrow> j_rest (d_j d) = quoted s @ r \<Longrightarrow>
   rd_str d = (Some (s, False), d\<lparr>d_j := (d_j d)\<lparr>j_rest := r\<rparr>\<rparr>)"
  using quoted_read_short(2) [of s "d_j d" r] by (simp add: rd_str_def c_string_def short_def)

lemma quoted_ne: "quoted s \<noteq> []"
  by (simp add: quoted_def)

lemma enum_reads:
  "short s \<Longrightarrow> map_of names s = Some v \<Longrightarrow> reads_as n (rd_enum names other dst) k (quoted s) (store (dst v))"
  by (intro scalar_reads) (simp_all add: rd_enum_def quoted_read_short rd_str_value into_def store_def quoted_ne)

lemma name_reads:
  "short s \<Longrightarrow> prim_named s = Some i \<Longrightarrow> reads_as n (rd_vref ref dst) k (quoted s) (store (ref (of_nat i)))"
  by (intro scalar_reads) (simp_all add: rd_vref_def quoted_read_short rd_str_value into_def store_def quoted_ne)

lemma f32_peek:
  assumes "j_err j = CFG_JSON_OK" "j_rest j = f32_item v @ r" "ends_token r"
  shows "\<exists>t. cfg_json_peek j = (t, j) \<and> (t = CFG_JSON_T_NUM \<or> t = CFG_JSON_T_NULL)"
proof (cases "isfinite v")
  case True
  then obtain b where b: "f32_text v = Some b" "reads_back b (fpv v)" "length b \<le> 16" using f32_text_reads_back by blast
  then obtain x where x: "cfg_json_scan_num b = Some (length b, x)" unfolding reads_back_def by blast
  have "length b \<le> 40" "j_rest j = b @ r" using b(1,3) assms(2) True by (simp_all add: f32_item_def)
  from num_read(1) [OF x this(1) assms(1) this(2) assms(3)] show ?thesis by blast
next
  case False
  then have "j_rest j = NULL_TXT @ r" using assms(2) by (simp add: f32_item_def)
  from read_null(1) [OF assms(1) this] show ?thesis by blast
qed

lemma literal_reads: "reads_as n (rd_vref ref dst) k (f32_item v) (\<lambda>d. store (dst (wire_f32 v)) (store (ref CFG_PRIM_NONE) d))"
  unfolding reads_as_def
proof (intro conjI allI impI)
  note f = f32_reads [of n dst k v, unfolded reads_as_def]
  show "blind (\<lambda>d. store (dst (wire_f32 v)) (store (ref CFG_PRIM_NONE) d))" by (rule blind_comp) simp_all
  show "f32_item v \<noteq> []" using f by blast
  fix d :: dc_t and r
  assume h: "d_err d = CFG_DOC_OK" "j_err (d_j d) = CFG_JSON_OK" "j_depth (d_j d) + n \<le> 6" "j_rest (d_j d) = f32_item v @ r" "ends_token r"
  let ?e = "d\<lparr>d_cfg := ref CFG_PRIM_NONE (d_cfg d)\<rparr>"
  have "d_err ?e = CFG_DOC_OK" "j_err (d_j ?e) = CFG_JSON_OK" "j_depth (d_j ?e) + n \<le> 6" "j_rest (d_j ?e) = f32_item v @ r" using h by simp_all
  then obtain j' where j: "kept (d_j ?e) j'" "j_rest j' = r" "rd_f32 dst k ?e = (True, store (dst (wire_f32 v)) (?e\<lparr>d_j := j'\<rparr>))"
    using f h(5) by blast
  have "rd_vref ref dst k d = rd_f32 dst k ?e" using f32_peek [OF h(2,4,5)] by (auto simp: rd_vref_def)
  then show "\<exists>j'. kept (d_j d) j' \<and> j_rest j' = r \<and>
      rd_vref ref dst k d = (True, store (dst (wire_f32 v)) (store (ref CFG_PRIM_NONE) (d\<lparr>d_j := j'\<rparr>)))"
    using j by (intro exI [of _ j']) (simp add: store_def)
qed

lemma skip_reads: "reads_as n rd_skip k (quoted s) (\<lambda>d. d)"
  unfolding reads_as_def
proof (intro conjI allI impI)
  fix d :: dc_t and r
  assume h: "j_err (d_j d) = CFG_JSON_OK" "j_depth (d_j d) + n \<le> 6" "j_rest (d_j d) = quoted s @ r" "ends_token r"
  have "consumes (6 - j_depth (d_j d)) (quoted s)" by (rule string_consumes) (rule quoted_string)
  from this [unfolded consumes_def, rule_format, of "d_j d" "[]" r "2 * length (j_rest (d_j d)) + 1"]
  have "\<exists>j'. skip_n (2 * length (j_rest (d_j d)) + 1) (d_j d) = (True, j') \<and> kept (d_j d) j' \<and> j_rest j' = r"
    using h by simp
  then obtain j' where "cfg_json_skip (d_j d) = (True, j')" "kept (d_j d) j'" "j_rest j' = r"
    unfolding cfg_json_skip_def by blast
  then show "\<exists>j'. kept (d_j d) j' \<and> j_rest j' = r \<and> rd_skip k d = (True, d\<lparr>d_j := j'\<rparr>)"
    by (auto simp: rd_skip_def)
qed (simp_all add: quoted_ne)

lemma saw_reads:
  assumes "reads_as n h k t u" "blind (flag (\<lambda>_. True))"
  shows "reads_as n (saw_limp flag h) k t (\<lambda>d. flag (\<lambda>_. True) (u d))"
  unfolding reads_as_def
proof (intro conjI allI impI)
  show "blind (\<lambda>d. flag (\<lambda>_. True) (u d))" "t \<noteq> []" using assms blind_comp unfolding reads_as_def by blast+
  fix d :: dc_t and r
  assume "d_err d = CFG_DOC_OK" "j_err (d_j d) = CFG_JSON_OK" "j_depth (d_j d) + n \<le> 6" "j_rest (d_j d) = t @ r" "ends_token r"
  then obtain j' where "kept (d_j d) j'" "j_rest j' = r" "h k d = (True, u (d\<lparr>d_j := j'\<rparr>))" using assms(1) unfolding reads_as_def by blast
  then show "\<exists>j'. kept (d_j d) j' \<and> j_rest j' = r \<and> saw_limp flag h k d = (True, flag (\<lambda>_. True) (u (d\<lparr>d_j := j'\<rparr>)))"
    by (intro exI [of _ j']) (simp add: saw_limp_def)
qed

section \<open>Objects\<close>

type_synonym 'u text_member = "u8 list \<times> u8 list \<times> 'u"

definition member_texts :: "'u text_member list \<Rightarrow> u8 list list" where
  "member_texts ms = map (\<lambda>(k, t, u). quoted k @ COLON # t) ms"

definition run_effects :: "(dc_t \<Rightarrow> dc_t) text_member list \<Rightarrow> dc_t \<Rightarrow> dc_t" where
  "run_effects ms = fold (\<lambda>(k, t, u). u) ms"

definition good_member :: "nat \<Rightarrow> (u8 list \<times> handler) list \<Rightarrow> (dc_t \<Rightarrow> dc_t) text_member \<Rightarrow> bool" where
  "good_member n table m = (case m of (k, t, u) \<Rightarrow> short k \<and> (case map_of table k of None \<Rightarrow> False | Some h \<Rightarrow> reads_as n h k t u))"

lemma run_effects_simps [simp]: "run_effects [] d = d" "run_effects ((k, t, u) # ms) d = run_effects ms (u d)"
  by (simp_all add: run_effects_def)

lemma member_texts_simps [simp]: "member_texts [] = []" "member_texts ((k, t, u) # ms) = (quoted k @ COLON # t) # member_texts ms"
  by (simp_all add: member_texts_def)

lemma good_blind: "list_all (good_member n table) ms \<Longrightarrow> blind (run_effects ms)"
proof (induction ms)
  case (Cons m ms)
  obtain k t u where m: "m = (k, t, u)" by (cases m) auto
  from Cons.prems m obtain h where "reads_as n h k t u" by (auto simp: good_member_def split: option.splits)
  then have "blind u" unfolding reads_as_def by blast
  moreover have "blind (run_effects ms)" using Cons by simp
  ultimately have "blind (\<lambda>d. run_effects ms (u d))" by (rule blind_comp)
  moreover have "run_effects (m # ms) = (\<lambda>d. run_effects ms (u d))" using m by auto
  ultimately show ?case by simp
qed (simp add: blind_def)

lemma key_read:
  assumes "inside j" "short k" "j_rest j = (if marked j then [COMMA] else []) @ quoted k @ COLON # t"
  shows "cfg_json_obj_key CFG_JSON_KEY_MAX j = (Some (k, False), mark j t)"
proof -
  have i: "item_text j RBRACE (quoted k @ COLON # t)" unfolding item_text_def
    using assms(3) by (auto simp: quoted_def intro!: exI [of _ "[]"])
  have st: "container_step j RBRACE = (1, mark j (quoted k @ COLON # t))" using step_item [OF assms(1) i] by simp
  have e: "j_err (mark j (quoted k @ COLON # t)) = CFG_JSON_OK" using assms(1) by (simp add: mark_props inside_def)
  note s = quoted_read_short(2) [OF assms(2) e mark_props(3)]
  have "j_err (mark j x) = CFG_JSON_OK" "j_rest (mark j x) = x" for x using assms(1) by (simp_all add: mark_props inside_def)
  then show ?thesis unfolding cfg_json_obj_key_def st prod.case s by (simp add: skip_ws_def want_more_def mark_def)
qed

lemma next_key_read:
  assumes "inside (d_j d)" "short k" "j_rest (d_j d) = (if marked (d_j d) then [COMMA] else []) @ quoted k @ COLON # t"
  shows "next_key d = (Some k, d\<lparr>d_j := mark (d_j d) t\<rparr>)"
  using key_read [OF assms] assms(2) by (simp add: next_key_def c_string_def short_def)

lemma next_key_closed:
  assumes "inside (d_j d)" "j_rest (d_j d) = RBRACE # r"
  shows "next_key d = (None, d\<lparr>d_j := (d_j d)\<lparr>j_rest := r, j_depth := j_depth (d_j d) - 1\<rparr>\<rparr>)"
  using key_closed [OF assms(1), of "[]" r CFG_JSON_KEY_MAX] assms by (simp add: next_key_def inside_def)

lemma ends_joined: "ends_token (joined True ts @ RBRACE # r)" "ends_token (joined True ts @ RBRACKET # r)"
  by (cases ts; simp add: ends_token_def)+

lemma members_read:
  assumes "list_all (good_member n table) ms" "inside (d_j d)" "j_depth (d_j d) + n \<le> 6" "d_err d = CFG_DOC_OK"
    and "j_rest (d_j d) = joined (marked (d_j d)) (member_texts ms) @ RBRACE # r" "length ms < N"
  shows "\<exists>j'. leaves (d_j d) j' \<and> j_rest j' = r \<and> doc_foreach N (dispatch table) d = (True, run_effects ms (d\<lparr>d_j := j'\<rparr>))"
  using assms
proof (induction ms arbitrary: d N)
  case Nil
  obtain N' where N: "N = Suc N'" using Nil.prems(6) by (cases N) simp_all
  show ?case using next_key_closed [OF Nil.prems(2), of r] Nil.prems(4,5) unfolding N
    by (intro exI [of _ "(d_j d)\<lparr>j_rest := r, j_depth := j_depth (d_j d) - 1\<rparr>"] conjI leaves_now) simp_all
next
  case (Cons m ms)
  obtain k t u where m: "m = (k, t, u)" by (cases m) auto
  obtain N' where N: "N = Suc N'" using Cons.prems(6) by (cases N) simp_all
  from Cons.prems(1) m obtain h where h: "short k" "map_of table k = Some h" "reads_as n h k t u"
    by (auto simp: good_member_def split: option.splits)
  let ?rest = "joined True (member_texts ms) @ RBRACE # r"
  let ?d1 = "d\<lparr>d_j := mark (d_j d) (t @ ?rest)\<rparr>"
  have nk: "next_key d = (Some k, ?d1)" using Cons.prems(5) m by (intro next_key_read Cons.prems(2) h(1)) simp
  have "d_err ?d1 = CFG_DOC_OK" "j_err (d_j ?d1) = CFG_JSON_OK" "j_depth (d_j ?d1) + n \<le> 6" "j_rest (d_j ?d1) = t @ ?rest"
    using Cons.prems(2-4) by (simp_all add: mark_props inside_def)
  then obtain j1 where j1: "kept (d_j ?d1) j1" "j_rest j1 = ?rest" "h k ?d1 = (True, u (?d1\<lparr>d_j := j1\<rparr>))"
    using h(3) ends_joined(1) unfolding reads_as_def by blast
  define d2 where "d2 = u (d\<lparr>d_j := j1\<rparr>)"
  have bu: "blind u" using h(3) by (simp add: reads_as_def)
  have d2: "d_j d2 = j1" "d_err d2 = CFG_DOC_OK" unfolding d2_def blind_j [OF bu] blindD(2) [OF bu] using Cons.prems(4) by simp_all
  have k1: "kept (mark (d_j d) (t @ ?rest)) j1" using j1(1) by simp
  have i1: "inside j1" "marked j1" "j_depth j1 = j_depth (d_j d)"
    using kept_marked [OF mark_props(2,1) k1] Cons.prems(2) by (simp_all add: mark_props)
  have "\<exists>j'. leaves (d_j d2) j' \<and> j_rest j' = r \<and> doc_foreach N' (dispatch table) d2 = (True, run_effects ms (d2\<lparr>d_j := j'\<rparr>))"
    using Cons.prems(1,3,6) m N i1 j1(2) d2 by (intro Cons.IH) simp_all
  then obtain j' where j': "leaves j1 j'" "j_rest j' = r" "doc_foreach N' (dispatch table) d2 = (True, run_effects ms (d2\<lparr>d_j := j'\<rparr>))"
    using d2(1) by auto
  have "doc_foreach N (dispatch table) d = doc_foreach N' (dispatch table) d2"
    using nk j1(3) h(2) unfolding N d2_def by (simp add: dispatch_def)
  moreover have "d2\<lparr>d_j := j'\<rparr> = u (d\<lparr>d_j := j'\<rparr>)" unfolding d2_def blindD(1) [OF bu] by simp
  ultimately show ?case using j' mark_kept_closed [OF Cons.prems(2) k1 j'(1)] m by (intro exI [of _ j']) simp
qed

lemma joined_length: "length ts \<le> length (joined m (member_texts ts))"
proof (induction ts arbitrary: m)
  case (Cons t ts)
  then have "length ts \<le> length (joined True (member_texts ts))" .
  then show ?case by (cases t) (simp add: quoted_def)
qed simp

lemma object_reads:
  assumes "list_all (good_member n table) ms"
  shows "reads_as (Suc n) (parse_object table) k (LBRACE # joined False (member_texts ms) @ [RBRACE]) (run_effects ms)"
  unfolding reads_as_def
proof (intro conjI allI impI)
  show "blind (run_effects ms)" by (rule good_blind [OF assms])
  fix d :: dc_t and r
  assume h: "d_err d = CFG_DOC_OK" "j_err (d_j d) = CFG_JSON_OK" "j_depth (d_j d) + Suc n \<le> 6"
    "j_rest (d_j d) = (LBRACE # joined False (member_texts ms) @ [RBRACE]) @ r"
  let ?t = "joined False (member_texts ms) @ RBRACE # r"
  let ?j = "opened (d_j d) ?t"
  have b: "cfg_json_obj_begin (d_j d) = (True, ?j)"
    using begin_complete [OF h(2), of "[]" LBRACE ?t] h(3,4) by (simp add: cfg_json_obj_begin_def)
  have d: "j_depth (d_j d) < 6" using h(3) by simp
  note o = opened_props [OF h(2) d, of ?t]
  have "\<exists>j'. leaves (d_j (d\<lparr>d_j := ?j\<rparr>)) j' \<and> j_rest j' = r \<and>
      doc_foreach (length (j_rest ?j) + 1) (dispatch table) (d\<lparr>d_j := ?j\<rparr>) = (True, run_effects ms (d\<lparr>d_j := ?j\<rparr>\<lparr>d_j := j'\<rparr>))"
    using o h(1,3) joined_length [of ms False] by (intro members_read [OF assms]) simp_all
  then obtain j' where j': "leaves ?j j'" "j_rest j' = r" "parse_members table (d\<lparr>d_j := ?j\<rparr>) = (True, run_effects ms (d\<lparr>d_j := j'\<rparr>))"
    by (auto simp: parse_members_def)
  then show "\<exists>j'. kept (d_j d) j' \<and> j_rest j' = r \<and> parse_object table k d = (True, run_effects ms (d\<lparr>d_j := j'\<rparr>))"
    using opened_closed [OF h(2) d j'(1)] b by (intro exI [of _ j']) (simp add: parse_object_def)
qed simp

section \<open>The profile array\<close>

fun good_slots :: "nat \<Rightarrow> nat \<Rightarrow> (u8 list \<times> (dc_t \<Rightarrow> dc_t)) list \<Rightarrow> bool" where
  "good_slots n i [] \<longleftrightarrow> True"
| "good_slots n i ((t, u) # ts) \<longleftrightarrow> reads_as n (parse_profile i) [] t u \<and> hd t = LBRACE \<and> good_slots n (Suc i) ts"

definition run_slots :: "(u8 list \<times> (dc_t \<Rightarrow> dc_t)) list \<Rightarrow> dc_t \<Rightarrow> dc_t" where
  "run_slots ts = fold snd ts"

lemma run_slots_simps [simp]: "run_slots [] d = d" "run_slots ((t, u) # ts) d = run_slots ts (u d)"
  by (simp_all add: run_slots_def)

lemma slots_blind: "good_slots n i ts \<Longrightarrow> blind (run_slots ts)"
proof (induction ts arbitrary: i)
  case (Cons t ts)
  obtain v u where t: "t = (v, u)" by (cases t)
  have "blind u" using Cons.prems t by (simp add: reads_as_def)
  moreover have "blind (run_slots ts)" using Cons t by auto
  ultimately have "blind (\<lambda>d. run_slots ts (u d))" by (rule blind_comp)
  moreover have "run_slots (t # ts) = (\<lambda>d. run_slots ts (u d))" using t by auto
  ultimately show ?case by simp
qed (simp add: blind_def)

lemma slots_read:
  assumes "good_slots n i ts" "inside (d_j d)" "j_depth (d_j d) + n \<le> 6" "d_err d = CFG_DOC_OK" "i + length ts \<le> CFG_PROFILE_COUNT"
    and "j_rest (d_j d) = joined (marked (d_j d)) (map fst ts) @ RBRACKET # r"
  shows "\<exists>j'. leaves (d_j d) j' \<and> j_rest j' = r \<and> profiles_loop i d = (True, run_slots ts (d\<lparr>d_j := j'\<rparr>))"
  using assms
proof (induction ts arbitrary: i d)
  case Nil
  let ?j = "(d_j d)\<lparr>j_rest := r, j_depth := j_depth (d_j d) - 1\<rparr>"
  have "container_step (d_j d) RBRACKET = (0, ?j)" using step_closed [OF Nil.prems(2), of "[]" RBRACKET r] Nil.prems(6) by simp
  then have "cfg_json_arr_next (d_j d) = (False, ?j)" "j_err ?j = CFG_JSON_OK" using Nil.prems(2) by (simp_all add: cfg_json_arr_next_def inside_def)
  then show ?case by (intro exI [of _ ?j] conjI leaves_now) (simp_all add: profiles_loop.simps [of i d])
next
  case (Cons t ts)
  obtain v u where t: "t = (v, u)" by (cases t)
  from Cons.prems(1) t have h: "reads_as n (parse_profile i) [] v u" "hd v = LBRACE" "good_slots n (Suc i) ts" by simp_all
  have v: "v \<noteq> []" "blind u" using h(1) by (simp_all add: reads_as_def)
  let ?rest = "joined True (map fst ts) @ RBRACKET # r"
  let ?d1 = "d\<lparr>d_j := mark (d_j d) (v @ ?rest)\<rparr>"
  have "item_text (d_j d) RBRACKET (v @ ?rest)" unfolding item_text_def
    using Cons.prems(6) v(1) h(2) t by (auto simp: hd_append intro!: exI [of _ "[]"])
  then have st: "cfg_json_arr_next (d_j d) = (True, mark (d_j d) (v @ ?rest))"
    using step_item [OF Cons.prems(2)] by (simp add: cfg_json_arr_next_def)
  have "d_err ?d1 = CFG_DOC_OK" "j_err (d_j ?d1) = CFG_JSON_OK" "j_depth (d_j ?d1) + n \<le> 6" "j_rest (d_j ?d1) = v @ ?rest"
    using Cons.prems(2-4) by (simp_all add: mark_props inside_def)
  moreover have "ends_token ?rest" by (cases ts) (simp_all add: ends_token_def)
  ultimately obtain j1 where j1: "kept (d_j ?d1) j1" "j_rest j1 = ?rest" "parse_profile i [] ?d1 = (True, u (?d1\<lparr>d_j := j1\<rparr>))"
    using h(1) unfolding reads_as_def by blast
  define d2 where "d2 = u (d\<lparr>d_j := j1\<rparr>)"
  have d2: "d_j d2 = j1" "d_err d2 = CFG_DOC_OK" unfolding d2_def blind_j [OF v(2)] blindD(2) [OF v(2)] using Cons.prems(4) by simp_all
  have k1: "kept (mark (d_j d) (v @ ?rest)) j1" using j1(1) by simp
  have i1: "inside j1" "marked j1" "j_depth j1 = j_depth (d_j d)"
    using kept_marked [OF mark_props(2,1) k1] Cons.prems(2) by (simp_all add: mark_props)
  have "\<exists>j'. leaves (d_j d2) j' \<and> j_rest j' = r \<and> profiles_loop (Suc i) d2 = (True, run_slots ts (d2\<lparr>d_j := j'\<rparr>))"
    using Cons.prems(3,5) h(3) i1 j1(2) d2 by (intro Cons.IH) simp_all
  then obtain j' where j': "leaves j1 j'" "j_rest j' = r" "profiles_loop (Suc i) d2 = (True, run_slots ts (d2\<lparr>d_j := j'\<rparr>))"
    using d2(1) by auto
  have "profiles_loop i d = profiles_loop (Suc i) d2"
    using st j1(3) Cons.prems(5) unfolding d2_def by (subst profiles_loop.simps) simp
  moreover have "d2\<lparr>d_j := j'\<rparr> = u (d\<lparr>d_j := j'\<rparr>)" unfolding d2_def blindD(1) [OF v(2)] by simp
  ultimately show ?case using j' mark_kept_closed [OF Cons.prems(2) k1 j'(1)] t by (intro exI [of _ j']) simp
qed

lemma array_reads:
  assumes "good_slots n 0 ts" "length ts \<le> CFG_PROFILE_COUNT"
  shows "reads_as (Suc n) parse_profiles k (LBRACKET # joined False (map fst ts) @ [RBRACKET]) (run_slots ts)"
  unfolding reads_as_def
proof (intro conjI allI impI)
  show "blind (run_slots ts)" by (rule slots_blind [OF assms(1)])
  fix d :: dc_t and r
  assume h: "d_err d = CFG_DOC_OK" "j_err (d_j d) = CFG_JSON_OK" "j_depth (d_j d) + Suc n \<le> 6"
    "j_rest (d_j d) = (LBRACKET # joined False (map fst ts) @ [RBRACKET]) @ r"
  let ?t = "joined False (map fst ts) @ RBRACKET # r"
  let ?j = "opened (d_j d) ?t"
  have b: "cfg_json_arr_begin (d_j d) = (True, ?j)"
    using begin_complete [OF h(2), of "[]" LBRACKET ?t] h(3,4) by (simp add: cfg_json_arr_begin_def)
  have d: "j_depth (d_j d) < 6" using h(3) by simp
  note o = opened_props [OF h(2) d, of ?t]
  have "\<exists>j'. leaves (d_j (d\<lparr>d_j := ?j\<rparr>)) j' \<and> j_rest j' = r \<and>
      profiles_loop 0 (d\<lparr>d_j := ?j\<rparr>) = (True, run_slots ts (d\<lparr>d_j := ?j\<rparr>\<lparr>d_j := j'\<rparr>))"
    using o h(1,3) assms(2) by (intro slots_read [OF assms(1)]) simp_all
  then obtain j' where j': "leaves ?j j'" "j_rest j' = r" "profiles_loop 0 (d\<lparr>d_j := ?j\<rparr>) = (True, run_slots ts (d\<lparr>d_j := j'\<rparr>))"
    by auto
  then show "\<exists>j'. kept (d_j d) j' \<and> j_rest j' = r \<and> parse_profiles k d = (True, run_slots ts (d\<lparr>d_j := j'\<rparr>))"
    using opened_closed [OF h(2) d j'(1)] b by (intro exI [of _ j']) (simp add: parse_profiles_def)
qed simp

end
