(* ===== verification/Doc_Round.thy ===== *)
theory Doc_Round
  imports Doc_Print Doc_Read
begin

text \<open>
  The document of a configuration is read back as that configuration, over whatever configuration it is applied to:
  the effect of each block of \<open>config_doc\<close>, their composition, and the resolution of the references at the end.
\<close>

section \<open>Named members\<close>

lemma named_reads:
  assumes "list_all (\<lambda>(k, x, u). short (text_bytes k) \<and>
     (case map_of table (text_bytes k) of None \<Rightarrow> False | Some h \<Rightarrow> reads_as n h (text_bytes k) (render x) u)) ms"
  shows "reads_as (Suc n) (parse_object table) key (render (named (map (\<lambda>(k, x, u). (k, x)) ms))) (fold (\<lambda>(k, x, u). u) ms)"
proof -
  let ?ms = "map (\<lambda>(k, x, u). (text_bytes k, render x, u)) ms"
  have "list_all (good_member n table) ?ms" using assms by (induction ms) (auto simp: good_member_def)
  from object_reads [OF this, of key] have "reads_as (Suc n) (parse_object table) key (LBRACE # joined False (member_texts ?ms) @ [RBRACE]) (run_effects ?ms)" .
  moreover have "member_texts ?ms = map (\<lambda>(k, d). quoted k @ COLON # render d) (map (\<lambda>(k, d). (text_bytes k, d)) (map (\<lambda>(k, x, u). (k, x)) ms))"
    by (simp add: member_texts_def case_prod_unfold comp_def)
  moreover have "run_effects ?ms = fold (\<lambda>(k, x, u). u) ms"
    by (simp add: run_effects_def fold_map case_prod_unfold comp_def)
  ultimately show ?thesis by simp
qed

lemma prim_cases: "ref \<le> CFG_PRIM_V_LIMP \<Longrightarrow> ref \<in> {0, 1, 2, 3, 4, 5}"
proof -
  assume "ref \<le> CFG_PRIM_V_LIMP"
  then have "unat ref \<le> 5" by (simp add: cfg_prims word_le_nat_alt)
  then have "unat ref \<in> {..<6}" by simp
  then have "of_nat (unat ref) \<in> (of_nat :: nat \<Rightarrow> u8) ` {..<6}" by (rule imageI)
  also have "{..<6 :: nat} = {0, 1, 2, 3, 4, 5}" by auto
  finally show ?thesis by simp
qed

definition is_named :: "cfg_prim_ref_t \<Rightarrow> bool" where
  "is_named ref \<longleftrightarrow> CFG_PRIM_V_BULK \<le> ref \<and> ref \<le> CFG_PRIM_V_LIMP"

definition vref_effect :: "cfg_prim_ref_t dst \<Rightarrow> f32 dst \<Rightarrow> cfg_prim_ref_t \<Rightarrow> f32 \<Rightarrow> ctrl_config_t \<Rightarrow> ctrl_config_t" where
  "vref_effect rdst dst ref v c = (if is_named ref then rdst ref c else dst (wire_f32 v) (rdst ref c))"

lemma vref_reads:
  assumes "ref \<le> CFG_PRIM_V_LIMP"
  shows "reads_as n (rd_vref rdst dst) k (render (vref_doc ref v)) (store (vref_effect rdst dst ref v))"
proof (cases "is_named ref")
  case True
  have "ref \<in> {1, 2, 3, 4, 5}" using prim_cases [OF assms] True by (auto simp: is_named_def cfg_prims)
  then have "short (PRIM_NAMES ! unat ref) \<and> prim_named (PRIM_NAMES ! unat ref) = Some (unat ref)"
    by (elim insertE emptyE) (simp_all add: PRIM_NAMES_def short_text prim_named_def cfg_prims upt_rec)
  then have "reads_as n (rd_vref rdst dst) k (quoted (PRIM_NAMES ! unat ref)) (store (rdst (of_nat (unat ref))))" using name_reads by blast
  moreover have "store (vref_effect rdst dst ref v) = store (rdst (of_nat (unat ref)))" using True by (simp add: vref_effect_def store_def fun_eq_iff)
  ultimately show ?thesis using True by (simp add: vref_doc_def is_named_def)
next
  case False
  then have "ref = CFG_PRIM_NONE" using prim_cases [OF assms] by (auto simp: is_named_def cfg_prims)
  then have "store (vref_effect rdst dst ref v) = (\<lambda>d. store (dst (wire_f32 v)) (store (rdst CFG_PRIM_NONE) d))"
    using False by (simp add: vref_effect_def store_def fun_eq_iff)
  then show ?thesis using literal_reads [of n rdst dst k v] False by (auto simp: vref_doc_def is_named_def)
qed

lemma i8_doc_reads: "reads_as n (rd_i8 dst) k (render (i8_doc v)) (store (dst v))"
  using i8_reads by (simp add: i8_doc_def)

lemmas value_reads = f32_reads u8_reads u16_reads bool_reads i8_doc_reads

section \<open>Blocks\<close>

definition wire_ok :: "f32 \<Rightarrow> bool" where
  "wire_ok v \<longleftrightarrow> isfinite v \<or> v = NAN"

lemma wire_f32_id [simp]: "wire_ok v \<Longrightarrow> wire_f32 v = v"
  by (auto simp: wire_ok_def wire_f32_def)

definition prim_ok :: "cfg_primitives_t \<Rightarrow> bool" where
  "prim_ok p \<longleftrightarrow> isfinite (pr_v_bulk p) \<and> isfinite (pr_v_bulk_cons p) \<and> isfinite (pr_v_float p) \<and> isfinite (pr_v_float_cons p) \<and>
     isfinite (pr_v_limp p)"

definition limits_ok :: "ctrl_limits_t \<Rightarrow> bool" where
  "limits_ok l \<longleftrightarrow> wire_ok (lim_battery_c_limit l) \<and> wire_ok (lim_wiring_limit_a l) \<and> wire_ok (lim_alternator_limit_a l)"

definition globals_ok :: "ctrl_globals_t \<Rightarrow> bool" where
  "globals_ok g \<longleftrightarrow> list_all wire_ok [g_bank_capacity_ah g, g_max_charge_power_w g, g_ramp_w_per_s g, g_p_tail_w g, g_warmup_coolant_c g,
       g_skip_bulk_vcell g, g_rotor_rated_v g, g_rotor_v_max g, g_limp_vcell g, g_limp_power_cap_w g] \<and>
     g_batt_temp_src g \<le> CTRL_BATT_TEMP_ADC_B"

definition profile_ok :: "cfg_profile_t \<Rightarrow> bool" where
  "profile_ok pr \<longleftrightarrow> list_all wire_ok [p_cv_target_vcell (cp_p pr), p_rest_voltage_vcell (cp_p pr), p_rest_power_cap_w (cp_p pr),
       p_v_revert_vcell (cp_p pr), p_ah_revert (cp_p pr)] \<and> p_rest_mode (cp_p pr) \<le> CTRL_REST_ZERO \<and>
     cp_cv_target_ref pr \<le> CFG_PRIM_V_LIMP \<and> cp_rest_voltage_ref pr \<le> CFG_PRIM_V_LIMP"

lemma primitives_read:
  assumes "prim_ok p"
  shows "reads_as 1 parse_primitives k (render (primitives_doc p)) (\<lambda>d. d_saw_v_limp_update (\<lambda>_. True) (store (cfg_prim_update (\<lambda>_. p)) d))"
proof -
  let ?ms = "[(''v_bulk'', J_f32 (pr_v_bulk p), store (prim_dst pr_v_bulk_update (wire_f32 (pr_v_bulk p)))),
    (''v_bulk_cons'', J_f32 (pr_v_bulk_cons p), store (prim_dst pr_v_bulk_cons_update (wire_f32 (pr_v_bulk_cons p)))),
    (''v_float'', J_f32 (pr_v_float p), store (prim_dst pr_v_float_update (wire_f32 (pr_v_float p)))),
    (''v_float_cons'', J_f32 (pr_v_float_cons p), store (prim_dst pr_v_float_cons_update (wire_f32 (pr_v_float_cons p)))),
    (''v_limp'', J_f32 (pr_v_limp p), \<lambda>d. d_saw_v_limp_update (\<lambda>_. True) (store (prim_dst pr_v_limp_update (wire_f32 (pr_v_limp p))) d))]"
  have e: "fold (\<lambda>(k, x, u). u) ?ms = (\<lambda>d. d_saw_v_limp_update (\<lambda>_. True) (store (cfg_prim_update (\<lambda>_. p)) d))"
    using assms by (auto simp: fun_eq_iff store_def prim_dst_def wire_f32_def prim_ok_def)
  have "reads_as (Suc 0) parse_primitives k (render (named (map (\<lambda>(k, x, u). (k, x)) ?ms))) (fold (\<lambda>(k, x, u). u) ?ms)"
    unfolding parse_primitives_def primitives_table_def by (rule named_reads) (simp add: short_text value_reads saw_reads)
  then show ?thesis unfolding e primitives_doc_def by simp
qed

definition field_effect :: "ctrl_globals_t \<Rightarrow> ctrl_globals_t \<Rightarrow> ctrl_globals_t" where
  "field_effect g h = h\<lparr>g_rotor_rated_v := g_rotor_rated_v g, g_rotor_v_max := g_rotor_v_max g, g_allow_full_field_48v := g_allow_full_field_48v g\<rparr>"

lemma field_read:
  assumes "globals_ok g"
  shows "reads_as 1 parse_field k (render (field_doc g)) (store (cfg_globals_update (field_effect g)))"
proof -
  let ?ms = "[(''rotor_rated_v'', J_f32 (g_rotor_rated_v g), store (glob_dst g_rotor_rated_v_update (wire_f32 (g_rotor_rated_v g)))),
    (''rotor_v_max'', J_f32 (g_rotor_v_max g), store (glob_dst g_rotor_v_max_update (wire_f32 (g_rotor_v_max g)))),
    (''allow_full_field_48v'', J_bool (g_allow_full_field_48v g), store (glob_dst g_allow_full_field_48v_update (g_allow_full_field_48v g)))]"
  have e: "fold (\<lambda>(k, x, u). u) ?ms = store (cfg_globals_update (field_effect g))"
    using assms by (auto simp: fun_eq_iff store_def glob_dst_def field_effect_def globals_ok_def)
  have "reads_as (Suc 0) parse_field k (render (named (map (\<lambda>(k, x, u). (k, x)) ?ms))) (fold (\<lambda>(k, x, u). u) ?ms)"
    unfolding parse_field_def field_table_def by (rule named_reads) (simp add: short_text value_reads)
  then show ?thesis unfolding e field_doc_def by simp
qed

lemma limits_read:
  assumes "limits_ok l" "globals_ok g"
  shows "reads_as 2 parse_limits k (render (limits_doc l g)) (store (\<lambda>c. cfg_globals_update (field_effect g) (cfg_limits_update (\<lambda>_. l) c)))"
proof -
  let ?ms = "[(''battery_c_limit'', J_f32 (lim_battery_c_limit l), store (lim_dst lim_battery_c_limit_update (wire_f32 (lim_battery_c_limit l)))),
    (''wiring_limit_a'', J_f32 (lim_wiring_limit_a l), store (lim_dst lim_wiring_limit_a_update (wire_f32 (lim_wiring_limit_a l)))),
    (''alternator_limit_a'', J_f32 (lim_alternator_limit_a l), store (lim_dst lim_alternator_limit_a_update (wire_f32 (lim_alternator_limit_a l)))),
    (''field'', field_doc g, store (cfg_globals_update (field_effect g)))]"
  have e: "fold (\<lambda>(k, x, u). u) ?ms = store (\<lambda>c. cfg_globals_update (field_effect g) (cfg_limits_update (\<lambda>_. l) c))"
    using assms(1) by (auto simp: fun_eq_iff store_def lim_dst_def limits_ok_def)
  have "reads_as (Suc 1) parse_limits k (render (named (map (\<lambda>(k, x, u). (k, x)) ?ms))) (fold (\<lambda>(k, x, u). u) ?ms)"
    unfolding parse_limits_def limits_table_def by (rule named_reads) (simp add: short_text value_reads field_read [OF assms(2), unfolded One_nat_def])
  then show ?thesis unfolding e limits_doc_def by (simp add: numeral_2_eq_2)
qed

lemma batt_reads:
  assumes "s \<le> CTRL_BATT_TEMP_ADC_B"
  shows "reads_as n (rd_enum [(text_bytes ''none'', CTRL_BATT_TEMP_NONE), (text_bytes ''adc_a'', CTRL_BATT_TEMP_ADC_A),
     (text_bytes ''adc_b'', CTRL_BATT_TEMP_ADC_B)] x dst) k (quoted (batt_temp_src_name s)) (store (dst s))"
proof -
  have "unat s \<le> 2" using assms by (simp add: CTRL_BATT_TEMP_ADC_B_def word_le_nat_alt)
  then have "unat s \<in> {..<3}" by simp
  then have "of_nat (unat s) \<in> (of_nat :: nat \<Rightarrow> u8) ` {..<3}" by (rule imageI)
  also have "{..<3 :: nat} = {0, 1, 2}" by auto
  finally have "s \<in> {0, 1, 2}" by simp
  then show ?thesis
    by (elim insertE emptyE; intro enum_reads)
      (simp_all add: batt_temp_src_name_def BATT_TEMP_SRC_NAMES_def CTRL_BATT_TEMP_NONE_def CTRL_BATT_TEMP_ADC_A_def CTRL_BATT_TEMP_ADC_B_def short_text)
qed

definition global_effect :: "ctrl_globals_t \<Rightarrow> ctrl_globals_t \<Rightarrow> ctrl_globals_t" where
  "global_effect g h = g\<lparr>g_rotor_rated_v := g_rotor_rated_v h, g_rotor_v_max := g_rotor_v_max h, g_allow_full_field_48v := g_allow_full_field_48v h\<rparr>"

lemma global_read:
  assumes "globals_ok g"
  shows "reads_as 1 parse_global k (render (global_doc g))
    (\<lambda>d. d_saw_limp_vcell_update (\<lambda>_. True) (store (cfg_globals_update (global_effect g)) d))"
proof -
  let ?ms = "[(''cells_series'', J_int (ucast (g_cells_series g)), store (glob_dst g_cells_series_update (g_cells_series g))),
    (''bank_capacity_ah'', J_f32 (g_bank_capacity_ah g), store (glob_dst g_bank_capacity_ah_update (wire_f32 (g_bank_capacity_ah g)))),
    (''max_charge_power_w'', J_f32 (g_max_charge_power_w g), store (glob_dst g_max_charge_power_w_update (wire_f32 (g_max_charge_power_w g)))),
    (''ramp_w_per_s'', J_f32 (g_ramp_w_per_s g), store (glob_dst g_ramp_w_per_s_update (wire_f32 (g_ramp_w_per_s g)))),
    (''p_tail_w'', J_f32 (g_p_tail_w g), store (glob_dst g_p_tail_w_update (wire_f32 (g_p_tail_w g)))),
    (''t_tail_hold_s'', J_int (ucast (g_t_tail_hold_s g)), store (glob_dst g_t_tail_hold_s_update (g_t_tail_hold_s g))),
    (''t_vclamp_s'', J_int (ucast (g_t_vclamp_s g)), store (glob_dst g_t_vclamp_s_update (g_t_vclamp_s g))),
    (''cv_hold_exit_min'', J_int (ucast (g_cv_hold_exit_min g)), store (glob_dst g_cv_hold_exit_min_update (g_cv_hold_exit_min g))),
    (''t_charge_max_min'', J_int (ucast (g_t_charge_max_min g)), store (glob_dst g_t_charge_max_min_update (g_t_charge_max_min g))),
    (''warmup_time_s'', J_int (ucast (g_warmup_time_s g)), store (glob_dst g_warmup_time_s_update (g_warmup_time_s g))),
    (''warmup_coolant_c'', J_f32 (g_warmup_coolant_c g), store (glob_dst g_warmup_coolant_c_update (wire_f32 (g_warmup_coolant_c g)))),
    (''soc_target_pct'', i8_doc (g_soc_target_pct g), store (glob_dst g_soc_target_pct_update (g_soc_target_pct g))),
    (''skip_bulk_vcell'', J_f32 (g_skip_bulk_vcell g), store (glob_dst g_skip_bulk_vcell_update (wire_f32 (g_skip_bulk_vcell g)))),
    (''skip_bulk_soc_pct'', i8_doc (g_skip_bulk_soc_pct g), store (glob_dst g_skip_bulk_soc_pct_update (g_skip_bulk_soc_pct g))),
    (''limp_vcell'', J_f32 (g_limp_vcell g), \<lambda>d. d_saw_limp_vcell_update (\<lambda>_. True) (store (glob_dst g_limp_vcell_update (wire_f32 (g_limp_vcell g))) d)),
    (''limp_power_cap_w'', J_f32 (g_limp_power_cap_w g), store (glob_dst g_limp_power_cap_w_update (wire_f32 (g_limp_power_cap_w g)))),
    (''batt_temp_src'', J_str (batt_temp_src_name (g_batt_temp_src g)), store (glob_dst g_batt_temp_src_update (g_batt_temp_src g))),
    (''require_batt_temp'', J_bool (g_require_batt_temp g), store (glob_dst g_require_batt_temp_update (g_require_batt_temp g)))]"
  have e: "fold (\<lambda>(k, x, u). u) ?ms = (\<lambda>d. d_saw_limp_vcell_update (\<lambda>_. True) (store (cfg_globals_update (global_effect g)) d))"
    using assms by (auto simp: fun_eq_iff store_def glob_dst_def global_effect_def globals_ok_def)
  have b: "g_batt_temp_src g \<le> CTRL_BATT_TEMP_ADC_B" using assms by (simp add: globals_ok_def)
  have "reads_as (Suc 0) parse_global k (render (named (map (\<lambda>(k, x, u). (k, x)) ?ms))) (fold (\<lambda>(k, x, u). u) ?ms)"
    unfolding parse_global_def global_table_def by (rule named_reads) (simp add: short_text value_reads saw_reads batt_reads [OF b])
  then show ?thesis unfolding e global_doc_def by simp
qed

section \<open>Profiles\<close>

definition slot_effect :: "nat \<Rightarrow> (cfg_profile_t \<Rightarrow> cfg_profile_t) \<Rightarrow> ctrl_config_t \<Rightarrow> ctrl_config_t" where
  "slot_effect i f = cfg_profiles_update (\<lambda>qs. qs[i := f (qs ! i)])"

lemma slot_effect_comp: "slot_effect i f (slot_effect i h c) = slot_effect i (\<lambda>q. f (h q)) c"
  by (cases c; cases "i < length (cfg_profiles c)") (simp_all add: slot_effect_def not_less list_update_beyond)

lemma slot_dsts:
  "slot_dst i sfield v = slot_effect i (sfield (\<lambda>_. v))"
  "prof_dst i pfield w = slot_effect i (cp_p_update (pfield (\<lambda>_. w)))"
  "reserved_dst i b = slot_effect i (cp_flags_update (set_reserved b))"
  by (simp_all add: slot_dst_def prof_dst_def reserved_dst_def slot_effect_def)

lemma vref_slot:
  "vref_effect (slot_dst i sfield) (prof_dst i pfield) ref v =
     slot_effect i (\<lambda>q. if is_named ref then sfield (\<lambda>_. ref) q else cp_p_update (pfield (\<lambda>_. wire_f32 v)) (sfield (\<lambda>_. ref) q))"
  by (cases "is_named ref") (simp_all add: fun_eq_iff vref_effect_def slot_dsts slot_effect_comp)

lemma store_comp: "store f (store g d) = store (\<lambda>c. f (g c)) d"
  by (simp add: store_def)

lemma store_slot_cong: "(\<And>q. f q = g q) \<Longrightarrow> store (slot_effect i f) d = store (slot_effect i g) d"
proof -
  assume "\<And>q. f q = g q"
  then have "f = g" by (rule ext)
  then show ?thesis by simp
qed

lemmas slot_intros = store_slot_cong cfg_profile_t.equality ctrl_profile_t.equality

definition rest_effect :: "cfg_profile_t \<Rightarrow> cfg_profile_t \<Rightarrow> cfg_profile_t" where
  "rest_effect pr q = q\<lparr>cp_rest_voltage_ref := cp_rest_voltage_ref pr,
     cp_p := (cp_p q)\<lparr>p_rest_mode := p_rest_mode (cp_p pr), p_rest_power_cap_w := p_rest_power_cap_w (cp_p pr),
       p_rest_voltage_vcell := p_rest_voltage_vcell (cp_p (if is_named (cp_rest_voltage_ref pr) then q else pr))\<rparr>\<rparr>"

lemma mode_reads:
  assumes "m \<le> CTRL_REST_ZERO"
  shows "reads_as n (rd_enum [(text_bytes ''hold'', CTRL_REST_HOLD), (text_bytes ''zero'', CTRL_REST_ZERO)] x dst) k
    (quoted (if m = CTRL_REST_ZERO then text_bytes ''zero'' else text_bytes ''hold'')) (store (dst m))"
proof -
  have "unat m \<le> 1" using assms by (simp add: CTRL_REST_ZERO_def word_le_nat_alt)
  then have "unat m = 0 \<or> unat m = 1" by linarith
  then have "(of_nat (unat m) :: u8) = 0 \<or> (of_nat (unat m) :: u8) = 1" by fastforce
  then have "m = 0 \<or> m = 1" by simp
  then show ?thesis
    by (elim disjE; intro enum_reads) (simp_all add: CTRL_REST_ZERO_def CTRL_REST_HOLD_def short_text)
qed

lemma rest_read:
  assumes "profile_ok pr"
  shows "reads_as 1 (parse_rest i) k (render (rest_doc pr)) (store (slot_effect i (rest_effect pr)))"
proof -
  let ?p = "cp_p pr"
  let ?ms = "[(''mode'', J_str (if p_rest_mode ?p = CTRL_REST_ZERO then text_bytes ''zero'' else text_bytes ''hold''),
      store (prof_dst i p_rest_mode_update (p_rest_mode ?p))),
    (''voltage'', vref_doc (cp_rest_voltage_ref pr) (p_rest_voltage_vcell ?p),
      store (vref_effect (slot_dst i cp_rest_voltage_ref_update) (prof_dst i p_rest_voltage_vcell_update) (cp_rest_voltage_ref pr) (p_rest_voltage_vcell ?p))),
    (''power_cap_w'', J_f32 (p_rest_power_cap_w ?p), store (prof_dst i p_rest_power_cap_w_update (wire_f32 (p_rest_power_cap_w ?p))))]"
  have h: "p_rest_mode ?p \<le> CTRL_REST_ZERO" "cp_rest_voltage_ref pr \<le> CFG_PRIM_V_LIMP" "wire_ok (p_rest_voltage_vcell ?p)"
    "wire_ok (p_rest_power_cap_w ?p)" using assms by (simp_all add: profile_ok_def)
  have e: "fold (\<lambda>(k, x, u). u) ?ms = store (slot_effect i (rest_effect pr))"
    using h by (cases "is_named (cp_rest_voltage_ref pr)")
      (auto simp: fun_eq_iff store_comp vref_slot slot_dsts slot_effect_comp rest_effect_def intro!: slot_intros)
  have "reads_as (Suc 0) (parse_rest i) k (render (named (map (\<lambda>(k, x, u). (k, x)) ?ms))) (fold (\<lambda>(k, x, u). u) ?ms)"
    unfolding parse_rest_def rest_table_def by (rule named_reads) (simp add: short_text value_reads mode_reads [OF h(1), simplified] vref_reads [OF h(2)] del: if_image_distrib)
  then show ?thesis unfolding e rest_doc_def by simp
qed

definition revert_effect :: "ctrl_profile_t \<Rightarrow> cfg_profile_t \<Rightarrow> cfg_profile_t" where
  "revert_effect p q = q\<lparr>cp_p := (cp_p q)\<lparr>p_v_revert_vcell := p_v_revert_vcell p, p_t_revert_hold_s := p_t_revert_hold_s p,
     p_soc_revert_pct := p_soc_revert_pct p, p_ah_revert := p_ah_revert p\<rparr>\<rparr>"

lemma revert_read:
  assumes "wire_ok (p_v_revert_vcell p)" "wire_ok (p_ah_revert p)"
  shows "reads_as 1 (parse_revert i) k (render (revert_doc p)) (store (slot_effect i (revert_effect p)))"
proof -
  let ?ms = "[(''v_cell'', J_f32 (p_v_revert_vcell p), store (prof_dst i p_v_revert_vcell_update (wire_f32 (p_v_revert_vcell p)))),
    (''hold_s'', J_int (ucast (p_t_revert_hold_s p)), store (prof_dst i p_t_revert_hold_s_update (p_t_revert_hold_s p))),
    (''soc_pct'', i8_doc (p_soc_revert_pct p), store (prof_dst i p_soc_revert_pct_update (p_soc_revert_pct p))),
    (''ah'', J_f32 (p_ah_revert p), store (prof_dst i p_ah_revert_update (wire_f32 (p_ah_revert p))))]"
  have e: "fold (\<lambda>(k, x, u). u) ?ms = store (slot_effect i (revert_effect p))"
    using assms by (auto simp: fun_eq_iff store_comp slot_dsts slot_effect_comp revert_effect_def intro!: slot_intros)
  have "reads_as (Suc 0) (parse_revert i) k (render (named (map (\<lambda>(k, x, u). (k, x)) ?ms))) (fold (\<lambda>(k, x, u). u) ?ms)"
    unfolding parse_revert_def revert_table_def by (rule named_reads) (simp add: short_text value_reads)
  then show ?thesis unfolding e revert_doc_def by simp
qed

text \<open>A document profile over the slot \<open>q\<close>: what a reference names and the other flags are the slot's.\<close>

definition overlay :: "cfg_profile_t \<Rightarrow> cfg_profile_t \<Rightarrow> cfg_profile_t" where
  "overlay pr q = pr\<lparr>cp_flags := set_reserved (cp_flags pr AND CFG_PROF_FLAG_RESERVED \<noteq> 0) (cp_flags q),
     cp_p := (cp_p pr)\<lparr>p_cv_target_vcell := p_cv_target_vcell (cp_p (if is_named (cp_cv_target_ref pr) then q else pr)),
       p_rest_voltage_vcell := p_rest_voltage_vcell (cp_p (if is_named (cp_rest_voltage_ref pr) then q else pr))\<rparr>\<rparr>"

lemma profile_read:
  assumes "profile_ok pr"
  shows "reads_as 2 (parse_profile i) k (render (profile_doc pr)) (store (slot_effect i (overlay pr)))"
proof -
  let ?p = "cp_p pr"
  let ?ms = "[(''id'', J_int (ucast (p_id ?p)), store (prof_dst i p_id_update (p_id ?p))),
    (''name'', J_str (cfg_doc_profile_name (p_id ?p)), \<lambda>d. d),
    (''reserved'', J_bool (cp_flags pr AND CFG_PROF_FLAG_RESERVED \<noteq> 0), store (reserved_dst i (cp_flags pr AND CFG_PROF_FLAG_RESERVED \<noteq> 0))),
    (''cv_target'', vref_doc (cp_cv_target_ref pr) (p_cv_target_vcell ?p),
      store (vref_effect (slot_dst i cp_cv_target_ref_update) (prof_dst i p_cv_target_vcell_update) (cp_cv_target_ref pr) (p_cv_target_vcell ?p))),
    (''exit_at_cv_entry'', J_bool (p_exit_at_cv_entry ?p), store (prof_dst i p_exit_at_cv_entry_update (p_exit_at_cv_entry ?p))),
    (''rest'', rest_doc pr, store (slot_effect i (rest_effect pr))),
    (''revert'', revert_doc ?p, store (slot_effect i (revert_effect ?p)))]"
  have h: "cp_cv_target_ref pr \<le> CFG_PRIM_V_LIMP" "wire_ok (p_cv_target_vcell ?p)" "wire_ok (p_v_revert_vcell ?p)" "wire_ok (p_ah_revert ?p)"
    using assms by (simp_all add: profile_ok_def)
  have e: "fold (\<lambda>(k, x, u). u) ?ms = store (slot_effect i (overlay pr))"
    using h(2) by (cases "is_named (cp_rest_voltage_ref pr)"; cases "is_named (cp_cv_target_ref pr)")
      (auto simp: fun_eq_iff store_comp vref_slot slot_dsts slot_effect_comp rest_effect_def revert_effect_def overlay_def
        intro!: slot_intros)
  have "reads_as (Suc 1) (parse_profile i) k (render (named (map (\<lambda>(k, x, u). (k, x)) ?ms))) (fold (\<lambda>(k, x, u). u) ?ms)"
    unfolding parse_profile_def profile_table_def
    by (rule named_reads) (simp add: short_text value_reads vref_reads [OF h(1)] skip_reads rest_read [OF assms, unfolded One_nat_def]
        revert_read [OF h(3,4), unfolded One_nat_def])
  then show ?thesis unfolding e profile_doc_def by (simp add: numeral_2_eq_2)
qed

fun slot_reads :: "nat \<Rightarrow> cfg_profile_t list \<Rightarrow> (u8 list \<times> (dc_t \<Rightarrow> dc_t)) list" where
  "slot_reads i [] = []"
| "slot_reads i (pr # prs) = (render (profile_doc pr), store (slot_effect i (overlay pr))) # slot_reads (Suc i) prs"

lemma profile_text: "hd (render (profile_doc pr)) = LBRACE"
  by (simp add: profile_doc_def)

lemma slot_reads_good: "list_all profile_ok prs \<Longrightarrow> good_slots 2 i (slot_reads i prs)"
  by (induction prs arbitrary: i) (simp_all add: profile_read profile_text)

lemma slot_reads_texts: "map fst (slot_reads i prs) = map render (map profile_doc prs)" "length (slot_reads i prs) = length prs"
  by (induction prs arbitrary: i) simp_all

lemma slot_reads_run:
  "length (cfg_profiles (d_cfg d)) = i + length prs \<Longrightarrow>
   run_slots (slot_reads i prs) d =
     store (cfg_profiles_update (\<lambda>qs. take i (cfg_profiles (d_cfg d)) @ map2 overlay prs (drop i (cfg_profiles (d_cfg d))))) d"
proof (induction prs arbitrary: i d)
  case (Cons pr prs)
  let ?qs = "cfg_profiles (d_cfg d)"
  let ?d = "store (slot_effect i (overlay pr)) d"
  have i: "i < length ?qs" using Cons.prems by simp
  have qs: "cfg_profiles (d_cfg ?d) = ?qs[i := overlay pr (?qs ! i)]" by (simp add: store_def slot_effect_def)
  have "length (cfg_profiles (d_cfg ?d)) = Suc i + length prs" using Cons.prems by (simp add: qs)
  note ih = Cons.IH [OF this, unfolded qs]
  have "take (Suc i) (?qs[i := overlay pr (?qs ! i)]) = take i ?qs @ [overlay pr (?qs ! i)]"
    using i by (simp add: take_Suc_conv_app_nth)
  moreover have "drop (Suc i) (?qs[i := overlay pr (?qs ! i)]) = drop (Suc i) ?qs" by simp
  moreover have "drop i ?qs = ?qs ! i # drop (Suc i) ?qs" using i by (rule Cons_nth_drop_Suc [symmetric])
  ultimately show ?case using ih by (simp add: store_def slot_effect_def)
qed (simp add: store_def)

section \<open>The whole document\<close>

text \<open>What the wire carries without loss: floats finite or the NaN, enumerators in range, references resolved.\<close>

definition doc_exact :: "ctrl_config_t \<Rightarrow> bool" where
  "doc_exact cfg \<longleftrightarrow> cfg_wf cfg \<and> prim_ok (cfg_prim cfg) \<and> limits_ok (cfg_limits cfg) \<and> globals_ok (cfg_globals cfg) \<and>
     list_all profile_ok (cfg_profiles cfg) \<and> map (resolve_profile (cfg_prim cfg)) (cfg_profiles cfg) = cfg_profiles cfg"

text \<open>Flags other than RESERVED are not in the document; they stay as they are.\<close>

definition same_flags :: "cfg_profile_t \<Rightarrow> cfg_profile_t \<Rightarrow> bool" where
  "same_flags pr q \<longleftrightarrow> cp_flags pr AND NOT CFG_PROF_FLAG_RESERVED = cp_flags q AND NOT CFG_PROF_FLAG_RESERVED"

lemma set_reserved_same: "a AND NOT CFG_PROF_FLAG_RESERVED = b AND NOT CFG_PROF_FLAG_RESERVED \<Longrightarrow>
   set_reserved (a AND CFG_PROF_FLAG_RESERVED \<noteq> 0) b = a"
proof -
  assume h: "a AND NOT CFG_PROF_FLAG_RESERVED = b AND NOT CFG_PROF_FLAG_RESERVED"
  have r: "a AND CFG_PROF_FLAG_RESERVED \<noteq> 0 \<longleftrightarrow> bit a 0"
    by (simp add: CFG_PROF_FLAG_RESERVED_def and_one_eq mod_2_eq_odd bit_0)
  have e: "bit b n = bit a n" if "n \<noteq> 0" for n
  proof -
    have "bit (a AND NOT CFG_PROF_FLAG_RESERVED) n = bit (b AND NOT CFG_PROF_FLAG_RESERVED) n" unfolding h ..
    then show ?thesis using that
      by (cases "n < 8") (auto simp: CFG_PROF_FLAG_RESERVED_def bit_and_iff bit_not_iff bit_1_iff dest: bit_imp_le_length)
  qed
  show ?thesis unfolding r set_reserved_def
  proof (rule bit_word_eqI)
    fix n assume "n < LENGTH(8)"
    then show "bit (if bit a 0 then b OR CFG_PROF_FLAG_RESERVED else b AND NOT CFG_PROF_FLAG_RESERVED) n = bit a n"
      using e [of n] by (cases "n = 0") (auto simp: CFG_PROF_FLAG_RESERVED_def bit_and_iff bit_or_iff bit_not_iff bit_1_iff)
  qed
qed

lemma named_value: "prim_ok p \<Longrightarrow> is_named ref \<Longrightarrow> \<not> isnan (cfg_primitive_value p ref)"
proof -
  assume h: "prim_ok p" "is_named ref"
  then have "ref \<in> {1, 2, 3, 4, 5}" using prim_cases [of ref] by (auto simp: is_named_def cfg_prims)
  then show ?thesis using h(1)
    by (elim insertE emptyE) (simp_all add: prim_ok_def cfg_primitive_value_def cfg_prims isfinite_not_nan)
qed

lemma unnamed_value: "ref \<le> CFG_PRIM_V_LIMP \<Longrightarrow> \<not> is_named ref \<Longrightarrow> cfg_primitive_value p ref = NAN"
  using prim_cases [of ref] by (auto simp: is_named_def cfg_prims cfg_primitive_value_def)

lemma overlay_resolved:
  assumes "prim_ok p" "profile_ok pr" "resolve_profile p pr = pr" "same_flags pr q"
  shows "resolve_profile p (overlay pr q) = pr"
proof -
  have f: "set_reserved (cp_flags pr AND CFG_PROF_FLAG_RESERVED \<noteq> 0) (cp_flags q) = cp_flags pr"
    using assms(4) unfolding same_flags_def by (rule set_reserved_same)
  have r: "cp_cv_target_ref pr \<le> CFG_PRIM_V_LIMP" "cp_rest_voltage_ref pr \<le> CFG_PRIM_V_LIMP" using assms(2) by (simp_all add: profile_ok_def)
  have c: "p_cv_target_vcell (cp_p pr) = cfg_primitive_value p (cp_cv_target_ref pr)" if "is_named (cp_cv_target_ref pr)"
  proof -
    have "p_cv_target_vcell (cp_p (resolve_profile p pr)) = cfg_primitive_value p (cp_cv_target_ref pr)"
      using named_value [OF assms(1) that] by (simp add: resolve_profile_def Let_def)
    then show ?thesis by (simp only: assms(3))
  qed
  have v: "p_rest_voltage_vcell (cp_p pr) = cfg_primitive_value p (cp_rest_voltage_ref pr)" if "is_named (cp_rest_voltage_ref pr)"
  proof -
    have "p_rest_voltage_vcell (cp_p (resolve_profile p pr)) = cfg_primitive_value p (cp_rest_voltage_ref pr)"
      using named_value [OF assms(1) that] by (simp add: resolve_profile_def Let_def)
    then show ?thesis by (simp only: assms(3))
  qed
  show ?thesis using c v named_value [OF assms(1)] unnamed_value [OF r(1)] unnamed_value [OF r(2)]
    by (cases "is_named (cp_cv_target_ref pr)"; cases "is_named (cp_rest_voltage_ref pr)")
      (auto simp: resolve_profile_def overlay_def f Let_def intro!: cfg_profile_t.equality ctrl_profile_t.equality)
qed

definition doc_effect :: "ctrl_config_t \<Rightarrow> dc_t \<Rightarrow> dc_t" where
  "doc_effect cfg d =
     store (cfg_active_profile_update (\<lambda>_. cfg_active_profile cfg)) (run_slots (slot_reads 0 (cfg_profiles cfg))
       (d_saw_limp_vcell_update (\<lambda>_. True) (store (cfg_globals_update (global_effect (cfg_globals cfg)))
         (store (\<lambda>c. cfg_globals_update (field_effect (cfg_globals cfg)) (cfg_limits_update (\<lambda>_. cfg_limits cfg) c))
           (d_saw_v_limp_update (\<lambda>_. True) (store (cfg_prim_update (\<lambda>_. cfg_prim cfg)) (d_schema_version_update (\<lambda>_. 2) d)))))))"

lemma profiles_read:
  assumes "list_all profile_ok prs" "length prs \<le> CFG_PROFILE_COUNT"
  shows "reads_as 3 parse_profiles k (render (J_arr (map profile_doc prs))) (run_slots (slot_reads 0 prs))"
  using array_reads [OF slot_reads_good [OF assms(1)], where k = k] assms(2) by (simp add: slot_reads_texts comp_def)

lemma document_read:
  assumes "doc_exact cfg"
  shows "reads_as 4 (parse_object doc_table) [] (render (config_doc cfg fw)) (doc_effect cfg)"
proof -
  have ok: "prim_ok (cfg_prim cfg)" "limits_ok (cfg_limits cfg)" "globals_ok (cfg_globals cfg)" "list_all profile_ok (cfg_profiles cfg)"
    "length (cfg_profiles cfg) \<le> CFG_PROFILE_COUNT" using assms by (simp_all add: doc_exact_def cfg_wf_def)
  let ?ms = "(''schema_version'', J_int (ucast CFG_SCHEMA_VERSION), d_schema_version_update (\<lambda>_. 2)) #
    (case fw of None \<Rightarrow> [] | Some s \<Rightarrow> [(''fw'', J_str s, \<lambda>d. d)]) @
    [(''primitives'', primitives_doc (cfg_prim cfg), \<lambda>d. d_saw_v_limp_update (\<lambda>_. True) (store (cfg_prim_update (\<lambda>_. cfg_prim cfg)) d)),
     (''limits'', limits_doc (cfg_limits cfg) (cfg_globals cfg),
       store (\<lambda>c. cfg_globals_update (field_effect (cfg_globals cfg)) (cfg_limits_update (\<lambda>_. cfg_limits cfg) c))),
     (''global'', global_doc (cfg_globals cfg),
       \<lambda>d. d_saw_limp_vcell_update (\<lambda>_. True) (store (cfg_globals_update (global_effect (cfg_globals cfg))) d)),
     (''profiles'', J_arr (map profile_doc (cfg_profiles cfg)), run_slots (slot_reads 0 (cfg_profiles cfg))),
     (''active_profile'', J_int (ucast (cfg_active_profile cfg)), store (cfg_active_profile_update (\<lambda>_. cfg_active_profile cfg)))]"
  have e: "fold (\<lambda>(k, x, u). u) ?ms = doc_effect cfg" by (cases fw) (simp_all add: fun_eq_iff doc_effect_def)
  have d: "config_doc cfg fw = named (map (\<lambda>(k, x, u). (k, x)) ?ms)" by (cases fw) (simp_all add: config_doc_def)
  have b: "reads_as 3 parse_primitives k (render (primitives_doc (cfg_prim cfg)))
      (\<lambda>d. d_saw_v_limp_update (\<lambda>_. True) (store (cfg_prim_update (\<lambda>_. cfg_prim cfg)) d))"
    "reads_as 3 parse_limits k (render (limits_doc (cfg_limits cfg) (cfg_globals cfg)))
      (store (\<lambda>c. cfg_globals_update (field_effect (cfg_globals cfg)) (cfg_limits_update (\<lambda>_. cfg_limits cfg) c)))"
    "reads_as 3 parse_global k (render (global_doc (cfg_globals cfg)))
      (\<lambda>d. d_saw_limp_vcell_update (\<lambda>_. True) (store (cfg_globals_update (global_effect (cfg_globals cfg))) d))" for k
    by (rule reads_more [OF primitives_read [OF ok(1)]], simp) (rule reads_more [OF limits_read [OF ok(2,3)]], simp,
      rule reads_more [OF global_read [OF ok(3)]], simp)
  have a: "reads_as 3 (rd_u8 (\<lambda>v. cfg_active_profile_update (\<lambda>_. v))) k (int_text (ucast (cfg_active_profile cfg)))
      (store (cfg_active_profile_update (\<lambda>_. cfg_active_profile cfg)))" for k
    by (rule u8_reads)
  have "reads_as (Suc 3) (parse_object doc_table) [] (render (named (map (\<lambda>(k, x, u). (k, x)) ?ms))) (fold (\<lambda>(k, x, u). u) ?ms)"
    unfolding doc_table_def
    by (rule named_reads; cases fw)
      (simp_all add: short_text schema_reads skip_reads b profiles_read [OF ok(4,5)] a del: render.simps(8))
  then show ?thesis unfolding e d by simp
qed

lemma doc_effect_state:
  assumes "doc_exact cfg" "cfg_wf base" "list_all2 same_flags (cfg_profiles cfg) (cfg_profiles base)" "d_cfg d = base"
  shows "d_cfg (resolve_after_parse (doc_effect cfg d)) = cfg" "d_schema_version (doc_effect cfg d) = 2" "d_err (doc_effect cfg d) = d_err d"
    "d_bad_key (doc_effect cfg d) = d_bad_key d" "d_j (doc_effect cfg d) = d_j d"
proof -
  let ?ps = "cfg_profiles cfg" and ?qs = "cfg_profiles base"
  have l: "length ?qs = length ?ps" using assms(1,2) by (simp add: doc_exact_def cfg_wf_def)
  have g: "global_effect (cfg_globals cfg) (field_effect (cfg_globals cfg) h) = cfg_globals cfg" for h
    by (simp add: global_effect_def field_effect_def)
  have r: "run_slots (slot_reads 0 ?ps) e = store (cfg_profiles_update (\<lambda>_. map2 overlay ?ps ?qs)) e" if "cfg_profiles (d_cfg e) = ?qs" for e
    using slot_reads_run [of e 0 ?ps] that l by simp
  have m: "map (resolve_profile (cfg_prim cfg)) (map2 overlay ?ps ?qs) = ?ps"
  proof (rule nth_equalityI)
    fix i assume "i < length (map (resolve_profile (cfg_prim cfg)) (map2 overlay ?ps ?qs))"
    then have i: "i < length ?ps" using l by simp
    have "same_flags (?ps ! i) (?qs ! i)" using assms(3) i by (simp add: list_all2_nthD)
    moreover have "resolve_profile (cfg_prim cfg) (?ps ! i) = ?ps ! i" using assms(1) i unfolding doc_exact_def by (metis nth_map)
    moreover have "profile_ok (?ps ! i)" "prim_ok (cfg_prim cfg)" using assms(1) i by (simp_all add: doc_exact_def list_all_length)
    ultimately show "map (resolve_profile (cfg_prim cfg)) (map2 overlay ?ps ?qs) ! i = ?ps ! i"
      using overlay_resolved i l by simp
  qed (use l in simp)
  have "doc_effect cfg d = d\<lparr>d_cfg := cfg\<lparr>cfg_profiles := map2 overlay ?ps ?qs\<rparr>, d_schema_version := 2, d_saw_v_limp := True, d_saw_limp_vcell := True\<rparr>"
    unfolding doc_effect_def using assms(4) by (subst r) (simp_all add: store_def g)
  then show "d_cfg (resolve_after_parse (doc_effect cfg d)) = cfg" "d_schema_version (doc_effect cfg d) = 2" "d_err (doc_effect cfg d) = d_err d"
    "d_bad_key (doc_effect cfg d) = d_bad_key d" "d_j (doc_effect cfg d) = d_j d"
    by (simp_all only:) (simp_all add: resolve_after_parse_def Let_def m del: map_map)
qed

lemma parse_document:
  assumes "doc_exact cfg" "cfg_wf base" "list_all2 same_flags (cfg_profiles cfg) (cfg_profiles base)"
  shows "\<exists>j. cfg_doc_parse (cfg_json_init (render (config_doc cfg fw))) base =
      (CFG_DOC_OK, j, cfg, \<lparr>info_unknown_keys = 0, info_schema_version = 2, info_bad_key = []\<rparr>) \<and> j_rest j = []"
proof -
  let ?j = "cfg_json_init (render (config_doc cfg fw))"
  let ?d = "dc_init ?j base"
  have "d_err ?d = CFG_DOC_OK" "j_err (d_j ?d) = CFG_JSON_OK" "j_depth (d_j ?d) + 4 \<le> 6" "j_rest (d_j ?d) = render (config_doc cfg fw) @ []" "ends_token []"
    by (simp_all add: dc_init_def cfg_json_init_def ends_token_def)
  then obtain j where j: "kept (d_j ?d) j" "j_rest j = []" "parse_object doc_table [] ?d = (True, doc_effect cfg (?d\<lparr>d_j := j\<rparr>))"
    using document_read [OF assms(1), of fw] unfolding reads_as_def by blast
  have "j_unknown j = 0" using j(1) by (auto simp: kept_def dc_init_def cfg_json_init_def)
  moreover have "d_cfg (?d\<lparr>d_j := j\<rparr>) = base" by (simp add: dc_init_def)
  note e = doc_effect_state [OF assms this]
  have r: "d_err (resolve_after_parse d) = d_err d" "d_j (resolve_after_parse d) = d_j d"
    "d_bad_key (resolve_after_parse d) = d_bad_key d" "d_schema_version (resolve_after_parse d) = d_schema_version d" for d
    by (simp_all add: resolve_after_parse_def Let_def)
  ultimately show ?thesis using j(2,3) e r by (intro exI [of _ j]) (simp add: cfg_doc_parse_def dc_run_def Let_def dc_init_def)
qed

text \<open>C26 (roundtrip). What \<open>cfg_doc_emit\<close> writes is a configuration: the document of a configuration whose
  primitives are finite, whose other floats are finite or the one NaN, whose enumerators and references
  are in range and whose referenced voltages are the primitives they name, written through a chunk of
  any positive size, is accepted by the validator, and \<open>cfg_doc_parse\<close> applied to it over any
  configuration of seven slots gives exactly that configuration, with no unknown key, stamp 2 and
  nothing left over; only the flags the document does not carry must agree.\<close>

theorem config_document_round_trip:
  assumes "doc_exact cfg" "cfg_wf base" "list_all2 same_flags (cfg_profiles cfg) (cfg_profiles base)" "0 < cap"
  shows "\<exists>cs w. cfg_json_w_flush (snd (cfg_doc_emit (cfg_json_w_init cap (Some sink) ctx) cfg fw)) = (True, w) \<and>
    w_ctx w = foldl sink ctx cs \<and> cfg_json_validate (concat cs) = CFG_JSON_OK \<and>
    (case cfg_doc_parse (cfg_json_init (concat cs)) base of (e, j, cfg', info) \<Rightarrow>
       e = CFG_DOC_OK \<and> j_rest j = [] \<and> cfg' = cfg \<and> info = \<lparr>info_unknown_keys = 0, info_schema_version = 2, info_bad_key = []\<rparr>)"
proof -
  have h: "height (config_doc cfg fw) \<le> 32" "height (config_doc cfg fw) \<le> 6" using doc_height [of cfg fw] by simp_all
  from flushed_document [OF assms(4) h(1), of sink ctx] obtain cs w
    where w: "cfg_json_w_flush (write_doc (config_doc cfg fw) (cfg_json_w_init cap (Some sink) ctx)) = (True, w)" "w_ctx w = foldl sink ctx cs"
      "concat cs = render (config_doc cfg fw)" by blast
  moreover have "cfg_json_validate (concat cs) = CFG_JSON_OK" unfolding w(3) by (rule render_accepted [OF doc_legal h(2)])
  moreover obtain j where "cfg_doc_parse (cfg_json_init (concat cs)) base =
      (CFG_DOC_OK, j, cfg, \<lparr>info_unknown_keys = 0, info_schema_version = 2, info_bad_key = []\<rparr>)" "j_rest j = []"
    unfolding w(3) using parse_document [OF assms(1-3)] by blast
  ultimately show ?thesis by (intro exI [of _ cs] exI [of _ w]) (simp add: emit_is_document)
qed

lemma sample_exact: "doc_exact sample_cfg"
  by (simp add: doc_exact_def cfg_wf_def CFG_PROFILE_COUNT_def prim_ok_def limits_ok_def globals_ok_def profile_ok_def wire_ok_def
      sample_cfg_def sample_prim_def sample_slot_def sample_defs flit_finite resolve_profile_def cfg_primitive_value_def cfg_prims
      CTRL_BATT_TEMP_NONE_def CTRL_BATT_TEMP_ADC_B_def CTRL_REST_HOLD_def CTRL_REST_ZERO_def)

lemma sample_base: "cfg_wf config_defaults" "list_all2 same_flags (cfg_profiles sample_cfg) (cfg_profiles config_defaults)"
  by (simp_all add: cfg_wf_def CFG_PROFILE_COUNT_def config_defaults_def cfg_resolve_primitives_def default_profiles_def
      config_default_profile_def sample_cfg_def sample_slot_def same_flags_def CFG_PROF_FLAG_RESERVED_def resolve_profile_def Let_def)

theorem config_document_round_trip_witness:
  "\<exists>cs w. cfg_json_w_flush (snd (cfg_doc_emit (cfg_json_w_init 128 (Some (@)) []) sample_cfg (Some (text_bytes ''1.0'')))) = (True, w) \<and>
    w_ctx w = foldl (@) [] cs \<and> cfg_json_validate (concat cs) = CFG_JSON_OK \<and>
    (case cfg_doc_parse (cfg_json_init (concat cs)) config_defaults of (e, j, cfg', info) \<Rightarrow>
       e = CFG_DOC_OK \<and> j_rest j = [] \<and> cfg' = sample_cfg \<and>
       info = \<lparr>info_unknown_keys = 0, info_schema_version = 2, info_bad_key = []\<rparr>)"
  by (rule config_document_round_trip [OF sample_exact sample_base]) simp

text \<open>The firmware takes a document only in its own schema: if the walk reports success, every stamp in the document
  was 2 or there was none, whatever the order of the members, their number and what else they hold.\<close>

theorem foreign_schema_rejected:
  "case cfg_doc_parse j cfg of (e, j', cfg', info) \<Rightarrow>
     e = CFG_DOC_OK \<longrightarrow> info_schema_version info = -1 \<or> info_schema_version info = int (unat CFG_SCHEMA_VERSION)"
  using stamp_run [of j cfg] by (simp add: cfg_doc_parse_def Let_def stamp_ok_def CFG_SCHEMA_VERSION_def)

theorem foreign_schema_rejected_witness:
  "case cfg_doc_parse (cfg_json_init (render (config_doc sample_cfg None))) config_defaults of (e, j', cfg', info) \<Rightarrow>
     e = CFG_DOC_OK \<and> (info_schema_version info = -1 \<or> info_schema_version info = int (unat CFG_SCHEMA_VERSION))"
  using parse_document [OF sample_exact sample_base, of None]
    foreign_schema_rejected [of "cfg_json_init (render (config_doc sample_cfg None))" config_defaults]
  by auto

end
