(* ===== verification/Config_Msg.thy ===== *)
theory Config_Msg
  imports Doc_Round
begin

text \<open>
  The message layer, \<open>control/Src/config_msg.c\<close>: request lines in, reply lines out. The host is a record of the
  functions it injects, acting on its own state \<open>'h\<close>, which a null pointer leaves out (\<open>None\<close>); \<open>ctx\<close>, \<open>tx_ctx\<close> and
  \<open>telem_ctx\<close> are parts of that state. \<open>cfg_msg_t\<close> carries the state of the host beside its own. The two
  envelope walks take fuel, which \<open>Msg_Props\<close> shows to be enough.
\<close>

definition CFG_PROTO_VERSION :: nat where "CFG_PROTO_VERSION = 1"
definition CFG_CAP_CFG :: string where "CFG_CAP_CFG = ''cfg''"
definition CFG_CAP_TELEM :: string where "CFG_CAP_TELEM = ''telem''"
definition CFG_MSG_LINE_MAX :: nat where "CFG_MSG_LINE_MAX = 3072"
definition CFG_MSG_CHUNK :: nat where "CFG_MSG_CHUNK = 128"

text \<open>\<open>save\<close> gives its result, the generation if it wrote one, and the new state.\<close>

record 'h cfg_msg_host_t =
  ho_get :: "('h \<Rightarrow> ctrl_config_t option) option"
  ho_save :: "('h \<Rightarrow> ctrl_config_t \<Rightarrow> bool \<times> u32 option \<times> 'h) option"
  ho_tx :: "('h \<Rightarrow> u8 list \<Rightarrow> 'h) option"
  ho_fw :: cstr
  ho_git :: cstr
  ho_telem :: "('h \<Rightarrow> 'h) option"

record 'h cfg_msg_t =
  ms_host :: "'h cfg_msg_host_t"
  ms_line :: "u8 list"
  ms_overflow :: bool
  ms_scratch :: ctrl_config_t
  ms_world :: 'h

section \<open>Replies\<close>

definition tx_raw :: "'h cfg_msg_t \<Rightarrow> u8 list \<Rightarrow> 'h cfg_msg_t" where
  "tx_raw m s = (case ho_tx (ms_host m) of None \<Rightarrow> m | Some tx \<Rightarrow> m\<lparr>ms_world := tx (ms_world m) s\<rparr>)"

definition reply_open :: "'h cfg_msg_t \<Rightarrow> 'h cfg_json_w_t" where
  "reply_open m = cfg_json_w_obj (cfg_json_w_init CFG_MSG_CHUNK (ho_tx (ms_host m)) (ms_world m))"

definition reply_close :: "'h cfg_msg_t \<Rightarrow> 'h cfg_json_w_t \<Rightarrow> 'h cfg_msg_t" where
  "reply_close m w = (let w = snd (cfg_json_w_flush (cfg_json_w_end w)) in tx_raw (m\<lparr>ms_world := w_ctx w\<rparr>) [0x0A])"

definition reply_err :: "'h cfg_msg_t \<Rightarrow> string \<Rightarrow> string option \<Rightarrow> cstr \<Rightarrow> int \<Rightarrow> int \<Rightarrow> 'h cfg_msg_t" where
  "reply_err m code detail key profile_id unknown = reply_close m (calls
     ([kstr ''t'' (text_bytes ''err''), kstr ''code'' (text_bytes code)] @
      (case detail of None \<Rightarrow> [] | Some s \<Rightarrow> [kstr ''detail'' (text_bytes s)]) @
      (case key of None \<Rightarrow> [] | Some k \<Rightarrow> if k \<noteq> [] \<and> hd k \<noteq> 0 then [kstr ''key'' k] else []) @
      (if 0 < profile_id then [kint ''profile'' (of_int profile_id)] else []) @
      (if 0 \<le> unknown then [kint ''unknown_keys'' (of_int unknown)] else [])) (reply_open m))"

primrec json_err_detail :: "cfg_json_err_t \<Rightarrow> string" where
  "json_err_detail CFG_JSON_OK = ''ok''"
| "json_err_detail CFG_JSON_ERR_SYNTAX = ''malformed JSON''"
| "json_err_detail CFG_JSON_ERR_DEPTH = ''nesting deeper than the parser allows''"
| "json_err_detail CFG_JSON_ERR_TOOLONG = ''token longer than the parser allows''"
| "json_err_detail CFG_JSON_ERR_TRUNCATED = ''JSON ended inside a value''"
| "json_err_detail CFG_JSON_ERR_TRAILING = ''trailing data after the JSON object''"

definition in_quotes :: "string \<Rightarrow> string" where
  "in_quotes s = [CHR 0x22] @ s @ [CHR 0x22]"

section \<open>Handlers\<close>

definition do_hello :: "'h cfg_msg_t \<Rightarrow> 'h cfg_msg_t" where
  "do_hello m = reply_close m (calls
     ([kstr ''t'' (text_bytes ''hello'')] @
      (case ho_fw (ms_host m) of None \<Rightarrow> [] | Some s \<Rightarrow> [kstr ''fw'' s]) @
      (case ho_git (ms_host m) of None \<Rightarrow> [] | Some s \<Rightarrow> if s \<noteq> [] \<and> hd s \<noteq> 0 then [kstr ''git'' s] else []) @
      [kint ''proto'' (of_nat CFG_PROTO_VERSION), kint ''schema'' (ucast CFG_SCHEMA_VERSION), kkey ''caps'', cfg_json_w_arr,
       \<lambda>w. cfg_json_w_str w (text_bytes CFG_CAP_CFG)] @
      (if ho_telem (ms_host m) \<noteq> None then [\<lambda>w. cfg_json_w_str w (text_bytes CFG_CAP_TELEM)] else []) @
      [cfg_json_w_end]) (reply_open m))"

definition host_get :: "'h cfg_msg_t \<Rightarrow> ctrl_config_t option" where
  "host_get m = (case ho_get (ms_host m) of None \<Rightarrow> None | Some get \<Rightarrow> get (ms_world m))"

definition no_config :: "'h cfg_msg_t \<Rightarrow> 'h cfg_msg_t" where
  "no_config m = reply_err m ''CFG_ERR_STORE'' (Some ''no config available'') None 0 (-1)"

definition do_cfg_get :: "'h cfg_msg_t \<Rightarrow> 'h cfg_msg_t" where
  "do_cfg_get m =
     (case host_get m of
        None \<Rightarrow> no_config m
      | Some cfg \<Rightarrow> reply_close m (calls [kstr ''t'' (text_bytes ''cfg''), kkey ''cfg'', \<lambda>w. snd (cfg_doc_emit w cfg (ho_fw (ms_host m)))] (reply_open m)))"

text \<open>The locals of \<open>do_cfg_set\<close> while it walks the members; \<open>es_not_object\<close> is its early return.\<close>

record set_t =
  es_j :: cfg_json_t
  es_scratch :: ctrl_config_t
  es_info :: cfg_doc_info_t
  es_de :: cfg_doc_err_t
  es_have_cfg :: bool
  es_not_object :: bool

fun set_walk :: "nat \<Rightarrow> set_t \<Rightarrow> set_t" where
  "set_walk 0 s = s"
| "set_walk (Suc n) s =
     (case cfg_json_obj_key CFG_JSON_KEY_MAX (es_j s) of
        (None, j) \<Rightarrow> s\<lparr>es_j := j\<rparr>
      | (Some (k, tr), j) \<Rightarrow>
          if \<not> tr \<and> c_string k = text_bytes ''cfg'' then
            (case cfg_json_peek j of (t, j) \<Rightarrow>
               if t \<noteq> CFG_JSON_T_OBJ then s\<lparr>es_j := j, es_not_object := True\<rparr>
               else (case cfg_doc_parse j (es_scratch s) of (de, j, cfg, info) \<Rightarrow>
                 let s = s\<lparr>es_j := j, es_scratch := cfg, es_info := info, es_de := de, es_have_cfg := True\<rparr>
                 in if de \<noteq> CFG_DOC_OK then s else set_walk n s))
          else
            (let j = (if \<not> tr \<and> c_string k = text_bytes ''t'' then j else j\<lparr>j_unknown := j_unknown j + 1\<rparr>)
             in case cfg_json_skip j of (ok, j) \<Rightarrow> let s = s\<lparr>es_j := j\<rparr> in if \<not> ok then s else set_walk n s))"

definition set_start :: "ctrl_config_t \<Rightarrow> cfg_json_t \<Rightarrow> set_t" where
  "set_start live j = \<lparr>es_j = j, es_scratch = live, es_info = \<lparr>info_unknown_keys = 0, info_schema_version = 0, info_bad_key = []\<rparr>,
     es_de = CFG_DOC_OK, es_have_cfg = False, es_not_object = False\<rparr>"

definition save_scratch :: "'h cfg_msg_t \<Rightarrow> int \<Rightarrow> 'h cfg_msg_t" where
  "save_scratch m unknown =
     (case (case ho_save (ms_host m) of None \<Rightarrow> (False, None, ms_world m) | Some save \<Rightarrow> save (ms_world m) (ms_scratch m)) of (ok, gen, h) \<Rightarrow>
        let m = m\<lparr>ms_world := h\<rparr> in
        if \<not> ok then reply_err m ''CFG_ERR_STORE'' (Some ''config store write or verify failed'') None 0 unknown
        else reply_close m (calls
          [kstr ''t'' (text_bytes ''ok''), kint ''generation'' (case gen of None \<Rightarrow> 0 | Some g \<Rightarrow> g),
           kint ''unknown_keys'' (of_int unknown)] (reply_open m)))"

definition set_verdict :: "'h cfg_msg_t \<Rightarrow> set_t \<Rightarrow> 'h cfg_msg_t" where
  "set_verdict m s =
     (let unknown = int (j_unknown (es_j s)); bad = Some (info_bad_key (es_info s));
          json = reply_err m ''CFG_ERR_JSON'' (Some (json_err_detail (j_err (es_j s)))) None 0 unknown
      in if j_err (es_j s) \<noteq> CFG_JSON_OK then json
         else (case es_de s of
             CFG_DOC_ERR_SCHEMA \<Rightarrow> reply_err m ''CFG_ERR_SCHEMA'' (Some ''config schema_version is not the one this firmware speaks'') bad 0 unknown
           | CFG_DOC_ERR_TYPE \<Rightarrow> reply_err m ''CFG_ERR_TYPE'' (Some ''value is not usable for this key'') bad 0 unknown
           | CFG_DOC_ERR_JSON \<Rightarrow> json
           | CFG_DOC_OK \<Rightarrow>
               if \<not> es_have_cfg s then reply_err m ''CFG_ERR_MSG'' (Some (''cfg-set carries no '' @ in_quotes ''cfg'' @ '' object'')) None 0 unknown
               else (case ctrl_config_validate (ms_scratch m) of (verdict, bad_profile) \<Rightarrow>
                 if verdict \<noteq> CFG_OK then
                   reply_err m (cfg_err_name verdict) (Some (cfg_err_str verdict)) None (if 0 \<le> bad_profile then bad_profile + 1 else 0) unknown
                 else save_scratch m unknown)))"

definition do_cfg_set :: "'h cfg_msg_t \<Rightarrow> u8 list \<Rightarrow> 'h cfg_msg_t" where
  "do_cfg_set m line =
     (case host_get m of
        None \<Rightarrow> no_config m
      | Some live \<Rightarrow>
         (case cfg_json_obj_begin (cfg_json_init line) of (ok, j) \<Rightarrow>
            if \<not> ok then reply_err (m\<lparr>ms_scratch := live\<rparr>) ''CFG_ERR_JSON'' (Some (json_err_detail (j_err j))) None 0 (-1)
            else let s = set_walk (length line) (set_start live j); m = m\<lparr>ms_scratch := es_scratch s\<rparr> in
              if es_not_object s then reply_err m ''CFG_ERR_MSG'' (Some (in_quotes ''cfg'' @ '' must be an object'')) (Some (text_bytes ''cfg'')) 0 (-1)
              else set_verdict m s))"

section \<open>Dispatch\<close>

text \<open>The string of the \<open>t\<close> member, or \<open>None\<close> for false.\<close>

fun type_walk :: "nat \<Rightarrow> cfg_json_t \<Rightarrow> u8 list option" where
  "type_walk 0 j = None"
| "type_walk (Suc n) j =
     (case cfg_json_obj_key CFG_JSON_KEY_MAX j of
        (None, j) \<Rightarrow> None
      | (Some (k, tr), j) \<Rightarrow>
          if \<not> tr \<and> c_string k = text_bytes ''t'' then
            (case cfg_json_peek j of (t, j) \<Rightarrow>
               if t \<noteq> CFG_JSON_T_STR then None
               else (case cfg_json_str CFG_JSON_KEY_MAX j of
                   (None, j) \<Rightarrow> None
                 | (Some (s, tr2), j) \<Rightarrow> if tr2 then None else Some (c_string s)))
          else (case cfg_json_skip j of (ok, j) \<Rightarrow> if \<not> ok then None else type_walk n j))"

definition find_type :: "u8 list \<Rightarrow> u8 list option" where
  "find_type line = (case cfg_json_obj_begin (cfg_json_init line) of (ok, j) \<Rightarrow> if \<not> ok then None else type_walk (length line) j)"

definition cfg_msg_init :: "'h cfg_msg_host_t \<Rightarrow> ctrl_config_t \<Rightarrow> 'h \<Rightarrow> 'h cfg_msg_t" where
  "cfg_msg_init host zero h = \<lparr>ms_host = host, ms_line = [], ms_overflow = False, ms_scratch = zero, ms_world = h\<rparr>"

definition trim :: "u8 list \<Rightarrow> u8 list" where
  "trim line = dropWhile (\<lambda>c. c = 0x20 \<or> c = 0x09 \<or> c = 0x0D) (rev (dropWhile (\<lambda>c. c = 0x0D \<or> c = 0x0A) (rev line)))"

definition cfg_msg_line :: "'h cfg_msg_t \<Rightarrow> u8 list \<Rightarrow> 'h cfg_msg_t" where
  "cfg_msg_line m line =
     (let line = trim line in
      if line = [] then m
      else let je = cfg_json_validate line in
        if je \<noteq> CFG_JSON_OK then reply_err m ''CFG_ERR_JSON'' (Some (json_err_detail je)) None 0 (-1)
        else (case find_type line of
            None \<Rightarrow> reply_err m ''CFG_ERR_MSG'' (Some (''message has no string '' @ in_quotes ''t'' @ '' member'')) None 0 (-1)
          | Some t \<Rightarrow>
              if t = text_bytes ''hello'' then do_hello m
              else if t = text_bytes ''cfg-get'' then do_cfg_get m
              else if t = text_bytes ''cfg-set'' then do_cfg_set m line
              else if t = text_bytes ''telem-get'' \<and> ho_telem (ms_host m) \<noteq> None then m\<lparr>ms_world := the (ho_telem (ms_host m)) (ms_world m)\<rparr>
              else reply_err m ''CFG_ERR_MSG'' (Some ''unknown message type'') None 0 (-1)))"

definition rx_byte :: "'h cfg_msg_t \<Rightarrow> u8 \<Rightarrow> 'h cfg_msg_t" where
  "rx_byte m c =
     (if c = 0x0A then
        (if ms_overflow m
         then reply_err (m\<lparr>ms_overflow := False, ms_line := []\<rparr>) ''CFG_ERR_JSON'' (Some ''line longer than the protocol allows'') None 0 (-1)
         else (cfg_msg_line m (ms_line m))\<lparr>ms_line := []\<rparr>)
      else if ms_overflow m then m
      else if CFG_MSG_LINE_MAX \<le> length (ms_line m) then m\<lparr>ms_overflow := True, ms_line := []\<rparr>
      else m\<lparr>ms_line := ms_line m @ [c]\<rparr>)"

definition cfg_msg_rx :: "'h cfg_msg_t \<Rightarrow> u8 list \<Rightarrow> 'h cfg_msg_t" where
  "cfg_msg_rx m data = foldl rx_byte m data"

end
