(* ===== verification/Telemetry_Json.thy ===== *)
theory Telemetry_Json
  imports Telemetry Doc_Print
begin

text \<open>
  The telemetry line, \<open>control/Src/telemetry_json.c\<close>: the snapshot and the diagnostics block as one JSON object through
  the streaming writer. Nothing the writer prints is a control character, so what reaches the transport is one
  line whatever the values are.
\<close>

section \<open>The line\<close>

definition TELEM_RESET_COUNT :: nat where "TELEM_RESET_COUNT = 7"
definition TELEM_ERRB_COUNT :: nat where "TELEM_ERRB_COUNT = 3"

definition TELEM_CRC_OK :: u8 where "TELEM_CRC_OK = 0"
definition TELEM_CRC_MISMATCH :: u8 where "TELEM_CRC_MISMATCH = 1"
definition TELEM_CRC_UNPATCHED :: u8 where "TELEM_CRC_UNPATCHED = 2"

record telem_diag_t =
  di_uptime_ms :: u32
  di_reset_counts :: "u32 list"
  di_reset_cause_bits :: u32
  di_boot_count :: u32
  di_crash_count :: u8
  di_last_crash_kind :: u16
  di_last_crash_pc :: u32
  di_crc_status :: u8
  di_stack_used_max :: u32
  di_stack_free_min :: u32
  di_errb_fault_mask :: u32
  di_errb_reinits :: "u32 list"
  di_safe_state_entries :: u32
  di_can_bus_off_count :: u32
  di_can_tx_dropped_count :: u32
  di_clk_hse_fail :: bool

text \<open>The digits come out last first into a buffer of ten.\<close>

definition u32_text :: "u32 \<Rightarrow> u8 list" where
  "u32_text v = rev (dec_rev 10 v)"

definition w_u32 :: "'s cfg_json_w_t \<Rightarrow> u32 \<Rightarrow> 's cfg_json_w_t" where
  "w_u32 w v = cfg_json_w_raw w (u32_text v)"

definition crc_str :: "u8 \<Rightarrow> u8 list" where
  "crc_str s = text_bytes (if s = TELEM_CRC_OK then ''ok'' else if s = TELEM_CRC_MISMATCH then ''mismatch''
     else if s = TELEM_CRC_UNPATCHED then ''unpatched'' else ''unavail'')"

definition ku32 :: "string \<Rightarrow> u32 \<Rightarrow> 's call" where
  "ku32 k v w = w_u32 (kkey k w) v"

definition emit_state :: "ctrl_telemetry_t \<Rightarrow> 's call list" where
  "emit_state t =
     [kint ''state'' (of_nat (state_num (t_state t))), kint ''standby'' (of_nat (standby_num (t_standby_reason t))),
      kint ''profile'' (ucast (t_active_profile_id t)), kf32 ''field'' (t_field_effort t), kint ''bind'' (of_nat (bind_num (t_binding t))),
      kf32 ''bind_w'' (t_binding_w t), ku32 ''faults'' (t_faults t), kint ''sev'' (of_nat (severity_num (t_severity t))),
      kint ''cells'' (ucast (t_cells_series t)), kf32 ''vbat'' (t_vbat_pack_v t), kf32 ''vcell'' (t_v_cell t), kf32 ''amps'' (t_amps_batt t),
      kf32 ''watts'' (t_watts_batt t), kf32 ''alt_c'' (t_alt_temp_c t), kf32 ''batt_c'' (t_batt_temp_c t), kbool ''batt_armed'' (t_batt_temp_armed t),
      kf32 ''rpm'' (t_rpm t), kint ''rpm_st'' (of_nat (rpm_state_num (t_rpm_state t)))]"

definition emit_diag :: "telem_diag_t \<Rightarrow> 's call list" where
  "emit_diag d =
     [kkey ''diag'', cfg_json_w_obj, kkey ''resets'', cfg_json_w_arr,
      calls (map (\<lambda>i w. w_u32 w (di_reset_counts d ! i)) [0..<TELEM_RESET_COUNT]), cfg_json_w_end,
      ku32 ''cause'' (di_reset_cause_bits d), ku32 ''boots'' (di_boot_count d), kint ''crashes'' (ucast (di_crash_count d)),
      kint ''crash_kind'' (ucast (di_last_crash_kind d)), ku32 ''crash_pc'' (di_last_crash_pc d), kstr ''crc'' (crc_str (di_crc_status d)),
      ku32 ''stack_used'' (di_stack_used_max d), ku32 ''stack_free'' (di_stack_free_min d), ku32 ''errb'' (di_errb_fault_mask d),
      kkey ''errb_reinit'', cfg_json_w_arr, calls (map (\<lambda>i w. w_u32 w (di_errb_reinits d ! i)) [0..<TELEM_ERRB_COUNT]), cfg_json_w_end,
      ku32 ''safe'' (di_safe_state_entries d), ku32 ''can_boff'' (di_can_bus_off_count d), ku32 ''can_txdrop'' (di_can_tx_dropped_count d),
      kbool ''clk_hse_fail'' (di_clk_hse_fail d), cfg_json_w_end]"

definition telem_json_line ::
    "nat \<Rightarrow> ('s \<Rightarrow> u8 list \<Rightarrow> 's) option \<Rightarrow> 's \<Rightarrow> ctrl_telemetry_t \<Rightarrow> telem_diag_t \<Rightarrow> bool \<times> 's" where
  "telem_json_line cap sink ctx t d =
     (let w = calls ([cfg_json_w_obj, kstr ''t'' (text_bytes ''telem''), ku32 ''up_ms'' (di_uptime_ms d)] @ emit_state t @ emit_diag d @
            [cfg_json_w_end]) (cfg_json_w_init cap sink ctx)
      in case cfg_json_w_flush w of (ok, w) \<Rightarrow>
           (ok, case sink of None \<Rightarrow> w_ctx w | Some tx \<Rightarrow> tx (w_ctx w) [0x0A]))"

section \<open>Decimal text of an unsigned word\<close>

lemma dec_rev_more: "unat u < 10 ^ k \<Longrightarrow> 0 < k \<Longrightarrow> k \<le> m \<Longrightarrow> dec_rev k u = dec_rev m u"
proof (induction k arbitrary: u m)
  case (Suc k)
  obtain m' where m: "m = Suc m'" using Suc.prems(3) by (cases m) simp_all
  have "dec_rev k (u div 10) = dec_rev m' (u div 10)" if "u div 10 \<noteq> 0"
  proof -
    have q: "unat (u div 10) = unat u div 10" by (rule u32_ten)
    have "unat (u div 10) < 10 ^ k" using Suc.prems(1) unfolding q by (simp add: less_mult_imp_div_less mult.commute)
    moreover have "0 < k"
    proof (rule ccontr)
      assume "\<not> 0 < k"
      then have "unat (u div 10) = 0" using Suc.prems(1) unfolding q by simp
      then show False using that by (simp add: unat_eq_0)
    qed
    ultimately show ?thesis using Suc.IH Suc.prems(3) m by simp
  qed
  then show ?case by (simp add: m)
qed simp

lemma u32_text_reads: "cfg_json_scan_num (u32_text v) = Some (length (u32_text v), FpFin False (of_nat (unat v)))"
proof -
  have "unat v < 10 ^ 10" using unat_lt2p [of v] by simp
  then have t: "u32_text v = rev (dec_rev 20 v)" using dec_rev_more [of v 10 20] by (simp add: u32_text_def)
  have "unat v < 2 ^ 53" using unat_lt2p [of v] by simp
  then have val: "scan_value (of_nat (unat v), s, 0) = FpFin False (of_nat (unat v))" for s by (rule scan_value_nat)
  show ?thesis using reads_num [OF nat_reads, of v] unfolding t val by auto
qed

lemma u32_text_legal: "json_number (u32_text v) \<and> length (u32_text v) \<le> 40"
proof -
  have "unat v < 10 ^ 10" using unat_lt2p [of v] by simp
  then have t: "u32_text v = rev (dec_rev 20 v)" using dec_rev_more [of v 10 20] by (simp add: u32_text_def)
  have "length (u32_text v) \<le> 40" using dec_rev_length [of v] unfolding t by simp
  then show ?thesis using u32_text_reads scan_num_iff by blast
qed

section \<open>One line\<close>

definition printing :: "u8 list \<Rightarrow> bool" where
  "printing t \<longleftrightarrow> list_all (\<lambda>c. \<not> c < 0x20) t"

lemma printing_simps [simp]: "printing []" "printing (c # t) \<longleftrightarrow> \<not> c < 0x20 \<and> printing t" "printing (s @ t) \<longleftrightarrow> printing s \<and> printing t"
  by (simp_all add: printing_def)

lemma number_printing: "json_number s \<Longrightarrow> printing s"
proof -
  have "\<not> c < 0x20" if "is_num_char c" for c
    using that by (auto simp: is_num_char_def is_digit_def is_exp_def not_less intro: order_trans [of _ "0x30"])
  then show "json_number s \<Longrightarrow> printing s" using number_chars by (auto simp: printing_def list_all_iff)
qed

lemma escape_printing: "printing (escape_chr c)"
proof (cases "c < 0x20")
  case True
  then show ?thesis using control_cases [OF True]
    by (elim insertE emptyE) (simp_all add: escape_chr_def hex_digit_def)
qed (simp add: escape_chr_def)

lemma quoted_printing: "printing (quoted s)"
proof -
  have "printing (concat (map escape_chr cs))" for cs by (induction cs) (simp_all add: escape_printing)
  then show ?thesis by (simp add: quoted_def)
qed

lemma f32_printing: "printing (f32_item v)"
proof (cases "isfinite v")
  case True
  then obtain b where b: "f32_text v = Some b" "reads_back b (fpv v)" using f32_text_reads_back by blast
  then have "json_number b" using scan_num_iff unfolding reads_back_def by blast
  then show ?thesis using True b(1) by (simp add: f32_item_def number_printing)
qed (simp add: f32_item_def)

lemma joined_printing: "list_all printing ts \<Longrightarrow> printing (joined m ts)"
  by (induction ts arbitrary: m) simp_all

lemma render_printing: "legal d \<Longrightarrow> printing (render d)"
proof (induction d)
  case (J_obj ms)
  have "list_all printing (map (\<lambda>(k, d). quoted k @ COLON # render d) ms)"
    using J_obj by (auto simp: list_all_iff quoted_printing snds.simps)
  then show ?case by (simp add: joined_printing)
next
  case (J_arr ds)
  then have "list_all printing (map render ds)" by (auto simp: list_all_iff)
  then show ?case by (simp add: joined_printing)
qed (auto simp: number_printing int_text_number quoted_printing f32_printing)

section \<open>The line as a document\<close>

definition state_doc :: "ctrl_telemetry_t \<Rightarrow> (string \<times> jdoc) list" where
  "state_doc t =
     [(''state'', J_int (of_nat (state_num (t_state t)))), (''standby'', J_int (of_nat (standby_num (t_standby_reason t)))),
      (''profile'', J_int (ucast (t_active_profile_id t))), (''field'', J_f32 (t_field_effort t)), (''bind'', J_int (of_nat (bind_num (t_binding t)))),
      (''bind_w'', J_f32 (t_binding_w t)), (''faults'', J_raw (u32_text (t_faults t))), (''sev'', J_int (of_nat (severity_num (t_severity t)))),
      (''cells'', J_int (ucast (t_cells_series t))), (''vbat'', J_f32 (t_vbat_pack_v t)), (''vcell'', J_f32 (t_v_cell t)), (''amps'', J_f32 (t_amps_batt t)),
      (''watts'', J_f32 (t_watts_batt t)), (''alt_c'', J_f32 (t_alt_temp_c t)), (''batt_c'', J_f32 (t_batt_temp_c t)), (''batt_armed'', J_bool (t_batt_temp_armed t)),
      (''rpm'', J_f32 (t_rpm t)), (''rpm_st'', J_int (of_nat (rpm_state_num (t_rpm_state t))))]"

definition counters :: "nat \<Rightarrow> u32 list \<Rightarrow> jdoc" where
  "counters n vs = J_arr (map (\<lambda>i. J_raw (u32_text (vs ! i))) [0..<n])"

definition diag_doc :: "telem_diag_t \<Rightarrow> jdoc" where
  "diag_doc d = named
     [(''resets'', counters TELEM_RESET_COUNT (di_reset_counts d)), (''cause'', J_raw (u32_text (di_reset_cause_bits d))),
      (''boots'', J_raw (u32_text (di_boot_count d))), (''crashes'', J_int (ucast (di_crash_count d))),
      (''crash_kind'', J_int (ucast (di_last_crash_kind d))), (''crash_pc'', J_raw (u32_text (di_last_crash_pc d))),
      (''crc'', J_str (crc_str (di_crc_status d))), (''stack_used'', J_raw (u32_text (di_stack_used_max d))),
      (''stack_free'', J_raw (u32_text (di_stack_free_min d))), (''errb'', J_raw (u32_text (di_errb_fault_mask d))),
      (''errb_reinit'', counters TELEM_ERRB_COUNT (di_errb_reinits d)), (''safe'', J_raw (u32_text (di_safe_state_entries d))),
      (''can_boff'', J_raw (u32_text (di_can_bus_off_count d))), (''can_txdrop'', J_raw (u32_text (di_can_tx_dropped_count d))),
      (''clk_hse_fail'', J_bool (di_clk_hse_fail d))]"

definition telem_doc :: "ctrl_telemetry_t \<Rightarrow> telem_diag_t \<Rightarrow> jdoc" where
  "telem_doc t d = named ([(''t'', J_str (text_bytes ''telem'')), (''up_ms'', J_raw (u32_text (di_uptime_ms d)))] @ state_doc t @ [(''diag'', diag_doc d)])"

lemma counters_emitted: "foldl (\<lambda>w f. f w) w (map (\<lambda>i w. cfg_json_w_raw w (u32_text (vs ! i))) is) = write_elements (map (\<lambda>i. J_raw (u32_text (vs ! i))) is) w"
  by (induction "is" arbitrary: w) simp_all

lemma write_members_append: "write_members (ms @ ns) w = write_members ns (write_members ms w)"
  by (induction ms arbitrary: w) auto

lemma state_emitted: "calls (emit_state t) w = write_members (map (\<lambda>(k, d). (text_bytes k, d)) (state_doc t)) w"
  by (simp add: emit_state_def state_doc_def call_defs ku32_def w_u32_def)

lemma diag_emitted: "calls (emit_diag d) w = write_doc (diag_doc d) (cfg_json_w_key w (text_bytes ''diag''))"
  by (simp add: emit_diag_def diag_doc_def call_defs ku32_def w_u32_def counters_def counters_emitted del: upt_Suc)

lemma line_document:
  "telem_json_line cap sink ctx t d =
     (case cfg_json_w_flush (write_doc (telem_doc t d) (cfg_json_w_init cap sink ctx)) of (ok, w) \<Rightarrow>
        (ok, case sink of None \<Rightarrow> w_ctx w | Some tx \<Rightarrow> tx (w_ctx w) [0x0A]))"
  unfolding telem_json_line_def Let_def calls_append state_emitted diag_emitted telem_doc_def
  by (simp add: call_defs ku32_def w_u32_def write_members_append)

lemma telem_legal: "legal (telem_doc t d)"
  by (simp add: telem_doc_def state_doc_def diag_doc_def counters_def u32_text_legal list_all_iff)

lemma telem_height: "height (telem_doc t d) \<le> 3"
  by (simp add: telem_doc_def state_doc_def diag_doc_def counters_def image_constant_conv del: upt_Suc)

text \<open>C32 (safety). Telemetry is one line, whatever the snapshot and the counters hold: through a chunk of any positive size the transport gets
  non-empty pieces that together are one JSON object the reader accepts, which holds no control character,
  followed by one newline; no overflow is reported. The unsigned counters, fault words and addresses among them are texts that are
  scanned as their values, also from \<open>0x80000000\<close> up.\<close>

theorem telemetry_is_one_line:
  assumes "0 < cap"
  shows "(\<exists>cs. telem_json_line cap (Some tx) ctx t d = (True, tx (foldl tx ctx cs) [0x0A]) \<and> list_all (\<lambda>c. c \<noteq> []) cs \<and>
      concat cs = render (telem_doc t d) \<and> cfg_json_validate (concat cs) = CFG_JSON_OK \<and> list_all (\<lambda>c. \<not> c < 0x20) (concat cs)) \<and>
    cfg_json_scan_num (u32_text v) = Some (length (u32_text v), FpFin False (of_nat (unat v)))"
proof -
  have h: "height (telem_doc t d) \<le> 32" "height (telem_doc t d) \<le> 6" using telem_height [of t d] by simp_all
  from flushed_document [OF assms h(1), of tx ctx] obtain cs w
    where w: "cfg_json_w_flush (write_doc (telem_doc t d) (cfg_json_w_init cap (Some tx) ctx)) = (True, w)" "w_ctx w = foldl tx ctx cs"
      "concat cs = render (telem_doc t d)" "list_all (\<lambda>c. c \<noteq> [] \<and> length c \<le> cap) cs" by blast
  have "list_all (\<lambda>c. c \<noteq> []) cs" using w(4) by (simp add: list_all_iff)
  moreover have "cfg_json_validate (concat cs) = CFG_JSON_OK" unfolding w(3) by (rule render_accepted [OF telem_legal h(2)])
  moreover have "list_all (\<lambda>c. \<not> c < 0x20) (concat cs)" using render_printing [OF telem_legal, of t d] unfolding w(3) printing_def .
  ultimately show ?thesis using w(1-3) u32_text_reads by (intro conjI exI [of _ cs]) (simp_all add: line_document)
qed

definition sample_telem :: ctrl_telemetry_t where
  "sample_telem = ctrl_build_telemetry sample_m (snd (ctrl_tick ctrl_init sample_m sample_ceil sample_prof sample_g 10)) sample_g sample_prof"

definition sample_diag :: telem_diag_t where
  "sample_diag = \<lparr>di_uptime_ms = 1000, di_reset_counts = [1, 0, 0, 0, 0, 0, 0], di_reset_cause_bits = 1, di_boot_count = 1, di_crash_count = 0,
     di_last_crash_kind = 0, di_last_crash_pc = 0, di_crc_status = TELEM_CRC_UNPATCHED, di_stack_used_max = 900, di_stack_free_min = 100,
     di_errb_fault_mask = 0, di_errb_reinits = [0, 0, 0], di_safe_state_entries = 0, di_can_bus_off_count = 0, di_can_tx_dropped_count = 0,
     di_clk_hse_fail = False\<rparr>"

theorem telemetry_is_one_line_witness:
  "(\<exists>cs. telem_json_line 64 (Some (@)) [] sample_telem sample_diag = (True, (foldl (@) [] cs) @ [0x0A]) \<and> list_all (\<lambda>c. c \<noteq> []) cs \<and>
      concat cs = render (telem_doc sample_telem sample_diag) \<and> cfg_json_validate (concat cs) = CFG_JSON_OK \<and>
      list_all (\<lambda>c. \<not> c < 0x20) (concat cs)) \<and>
    cfg_json_scan_num (u32_text 0x80000001) = Some (length (u32_text 0x80000001), FpFin False (of_nat (unat (0x80000001 :: u32))))"
  by (rule telemetry_is_one_line) simp

end
