(* ===== verification/Doc_Report.thy ===== *)
theory Doc_Report
  imports Doc_Walk
begin

text \<open>
  Every handler of \<open>config_doc.c\<close> that returns false has reported an error, so the status of a parse is
  \<open>CFG_DOC_OK\<close> exactly when the whole document was walked.
\<close>

definition reports :: "handler \<Rightarrow> bool" where
  "reports h \<longleftrightarrow> (\<forall>k d d'. h k d = (False, d') \<longrightarrow> d_err d' \<noteq> CFG_DOC_OK)"

lemma type_failed: "d_err (dc_fail d CFG_DOC_ERR_TYPE k) \<noteq> CFG_DOC_OK" "d_err (dc_fail d CFG_DOC_ERR_SCHEMA k) \<noteq> CFG_DOC_OK"
  by (simp_all add: fail_err_set)

lemma into_failed: "into r dst = (False, d') \<Longrightarrow> r = (None, d')"
  by (cases r) (auto simp: into_def split: option.splits)

lemma num_failed: "rd_num k d = (None, d') \<Longrightarrow> d_err d' \<noteq> CFG_DOC_OK"
  by (auto simp: rd_num_def Let_def json_failed type_failed split: prod.splits if_splits option.splits)

lemma int_failed: "rd_int lo hi k d = (None, d') \<Longrightarrow> d_err d' \<noteq> CFG_DOC_OK"
  by (auto simp: rd_int_def type_failed dest: num_failed split: prod.splits option.splits)

lemma str_failed: "rd_str d = (None, d') \<Longrightarrow> d_err d' \<noteq> CFG_DOC_OK"
  by (auto simp: rd_str_def json_failed split: prod.splits option.splits)

lemma rd_reports: "reports (rd_f32 f)" "reports (rd_u8 b)" "reports (rd_u16 w)" "reports rd_skip" "reports parse_schema"
  unfolding reports_def rd_f32_def rd_u8_def rd_u16_def rd_skip_def parse_schema_def Let_def
  by (auto dest!: into_failed num_failed int_failed simp: json_failed type_failed split: prod.splits option.splits if_splits)

lemma rd_i8_reports: "reports (rd_i8 dst)"
  unfolding reports_def rd_i8_def Let_def
  by (auto dest!: into_failed int_failed simp: json_failed split: prod.splits if_splits)

lemma rd_bool_reports: "reports (rd_bool dst)"
  unfolding reports_def rd_bool_def Let_def
  by (auto dest!: into_failed simp: json_failed type_failed split: prod.splits if_splits option.splits)

lemma rd_enum_reports: "reports (rd_enum names other dst)"
  unfolding reports_def rd_enum_def Let_def
  by (auto dest!: into_failed str_failed simp: type_failed split: prod.splits if_splits option.splits)

lemma rd_vref_reports: "reports (rd_vref ref dst)"
proof -
  have f: "d_err d' \<noteq> CFG_DOC_OK" if "rd_f32 dst k d = (False, d')" for k d d' using rd_reports(1) that unfolding reports_def by blast
  show ?thesis unfolding reports_def rd_vref_def Let_def
    by (auto dest!: into_failed str_failed f simp: type_failed split: prod.splits if_splits option.splits)
qed

lemma saw_reports: "reports h \<Longrightarrow> reports (saw_limp d_saw_v_limp_update h)" "reports h \<Longrightarrow> reports (saw_limp d_saw_limp_vcell_update h)"
  by (auto simp: reports_def saw_limp_def split: prod.splits)

lemma dispatch_reports: "list_all (\<lambda>(k, h). reports h) table \<Longrightarrow> reports (dispatch table)"
  by (auto simp: reports_def dispatch_def list_all_iff dest!: map_of_SomeD unknown_failed split: option.splits)

lemma foreach_reports:
  "tame h \<Longrightarrow> reports h \<Longrightarrow> j_depth (d_j d) \<le> 6 \<Longrightarrow> length (j_rest (d_j d)) < n \<Longrightarrow> doc_foreach n h d = (False, d') \<Longrightarrow> d_err d' \<noteq> CFG_DOC_OK"
proof (induction n arbitrary: d)
  case (Suc n)
  obtain k e where k: "next_key d = (k, e)" by (cases "next_key d")
  show ?case
  proof (cases k)
    case None
    then show ?thesis using Suc.prems(5) k by auto
  next
    case (Some b)
    obtain ok f where h: "h b e = (ok, f)" by (cases "h b e")
    show ?thesis
    proof (cases ok)
      case False
      then show ?thesis using Suc.prems(2,5) h k Some unfolding reports_def by auto
    next
      case True
      have "j_depth (d_j e) \<le> 6 \<and> length (j_rest (d_j e)) < length (j_rest (d_j d))"
        using next_key_onward [OF Suc.prems(3)] k Some unfolding next_key_def by blast
      moreover have "onward (d_j e) (d_j f)" using Suc.prems(1) h True by (simp add: tame_def)
      moreover have "doc_foreach n h f = (False, d')" using Suc.prems(5) h k Some True by simp
      ultimately show ?thesis using Suc.IH [of f] Suc.prems(1,2,4) by (simp add: onward_def)
    qed
  qed
qed simp

lemma object_reports:
  assumes "list_all (\<lambda>(k, h). tame h \<and> reports h) table"
  shows "reports (parse_object table)"
  unfolding reports_def
proof (intro allI impI)
  fix k d d' assume p: "parse_object table k d = (False, d')"
  have t: "tame (dispatch table)" "reports (dispatch table)"
    using assms by (auto intro!: dispatch_tame dispatch_reports simp: list_all_iff)
  obtain ok j where j: "cfg_json_obj_begin (d_j d) = (ok, j)" by (cases "cfg_json_obj_begin (d_j d)")
  show "d_err d' \<noteq> CFG_DOC_OK"
  proof (cases ok)
    case False
    then show ?thesis using p j json_failed by (auto simp: parse_object_def Let_def)
  next
    case True
    then have "container_begin (d_j d) LBRACE = (True, j)" using j by (simp add: cfg_json_obj_begin_def)
    from begin_sound [OF this] obtain w where
      b: "j_err (d_j d) = CFG_JSON_OK" "j_depth (d_j d) < 6" "j = opened (d_j d) (j_rest j)" by blast
    then have "j_depth j \<le> 6" using opened_props(4) [OF b(1,2), of "j_rest j"] by simp
    moreover have "doc_foreach (length (j_rest j) + 1) (dispatch table) (d\<lparr>d_j := j\<rparr>) = (False, d')"
      using p j True by (simp add: parse_object_def parse_members_def Let_def)
    ultimately show ?thesis using foreach_reports [OF t, of "d\<lparr>d_j := j\<rparr>" "length (j_rest j) + 1" d'] by (simp del: doc_foreach.simps)
  qed
qed

lemmas scalar_reports = rd_reports rd_i8_reports rd_bool_reports rd_enum_reports rd_vref_reports saw_reports

lemma block_reports: "reports parse_primitives" "reports parse_field" "reports parse_global" "reports (parse_rest i)" "reports (parse_revert i)"
  unfolding parse_primitives_def primitives_table_def parse_field_def field_table_def parse_global_def global_table_def parse_rest_def rest_table_def parse_revert_def revert_table_def
  by (intro object_reports, simp add: scalar_tame scalar_reports)+

lemma nested_reports: "reports parse_limits" "reports (parse_profile i)"
  unfolding parse_limits_def limits_table_def parse_profile_def profile_table_def
  by (intro object_reports, simp add: scalar_tame block_tame scalar_reports block_reports)+

lemma profiles_reports: "profiles_loop i d = (False, d') \<Longrightarrow> d_err d' \<noteq> CFG_DOC_OK"
proof (induction i d arbitrary: d' rule: profiles_loop.induct)
  case (1 i d)
  obtain av j where n: "cfg_json_arr_next (d_j d) = (av, j)" by (cases "cfg_json_arr_next (d_j d)")
  obtain ok e where p: "parse_profile i [] (d\<lparr>d_j := j\<rparr>) = (ok, e)" by (cases "parse_profile i [] (d\<lparr>d_j := j\<rparr>)")
  have r: "\<not> ok \<Longrightarrow> d_err e \<noteq> CFG_DOC_OK" using nested_reports(2) [of i] p by (simp add: reports_def)
  show ?case
    using 1(2) 1(1) [OF n [symmetric] refl _ _ p [symmetric]] n p r
    by (auto simp: profiles_loop.simps [of i d] Let_def json_failed type_failed split: if_splits)
qed

lemma doc_reports: "list_all (\<lambda>(k, h). tame h \<and> reports h) doc_table"
proof -
  have "reports parse_profiles" unfolding reports_def
    by (auto simp: parse_profiles_def Let_def json_failed dest: profiles_reports split: prod.splits if_splits)
  then have "list_all (\<lambda>(k, h). reports h) doc_table"
    by (simp add: doc_table_def scalar_reports block_reports nested_reports)
  then show ?thesis using doc_tame by (auto simp: list_all_iff)
qed

lemma resolve_sel [simp]:
  "d_err (resolve_after_parse d) = d_err d" "d_j (resolve_after_parse d) = d_j d" "d_bad_key (resolve_after_parse d) = d_bad_key d"
  "d_schema_version (resolve_after_parse d) = d_schema_version d"
  by (simp_all add: resolve_after_parse_def Let_def)

text \<open>A parse that ends well walked the whole object, and has not moved the cursor back.\<close>

lemma parse_ok:
  assumes "cfg_doc_parse j cfg = (CFG_DOC_OK, j', cfg', info)"
  shows "\<exists>d. parse_object doc_table [] (dc_init j cfg) = (True, d) \<and> cfg' = d_cfg (resolve_after_parse d) \<and> j' = d_j d \<and> onward j j'"
proof -
  obtain ok d where p: "parse_object doc_table [] (dc_init j cfg) = (ok, d)" by (metis prod.exhaust)
  have "d_err d = CFG_DOC_OK" "j' = d_j d" using assms p by (auto simp: cfg_doc_parse_def dc_run_def Let_def split: if_splits)
  then have ok using object_reports [OF doc_reports] p by (cases ok) (auto simp: reports_def)
  then have "onward (d_j (dc_init j cfg)) (d_j d)" using object_tame [OF doc_tame] p by (simp add: tame_def)
  then show ?thesis using assms p \<open>ok\<close> by (auto simp: cfg_doc_parse_def dc_run_def dc_init_def Let_def)
qed

end
