(* ===== verification/Msg_Props.thy ===== *)
theory Msg_Props
  imports Config_Msg Telemetry_Json Doc_Report
begin

text \<open>
  The message layer of \<open>config_msg.c\<close>: every reply is one line, the loops over the envelope end, and what a line
  can do to the host. \<open>msg_host\<close> is what the layer relies on in its host; the binding to the real one is in
  \<open>Msg_Host\<close>.
\<close>

section \<open>Replies\<close>

text \<open>A reply is one document, flushed and ended with a newline.\<close>

definition send :: "'h cfg_msg_host_t \<Rightarrow> 'h \<Rightarrow> jdoc \<Rightarrow> 'h" where
  "send host h d =
     (let h = w_ctx (snd (cfg_json_w_flush (write_doc d (cfg_json_w_init CFG_MSG_CHUNK (ho_tx host) h))))
      in case ho_tx host of None \<Rightarrow> h | Some tx \<Rightarrow> tx h [0x0A])"

definition reply :: "'h cfg_msg_t \<Rightarrow> jdoc \<Rightarrow> 'h cfg_msg_t" where
  "reply m d = m\<lparr>ms_world := send (ms_host m) (ms_world m) d\<rparr>"

definition err_doc :: "string \<Rightarrow> string option \<Rightarrow> cstr \<Rightarrow> int \<Rightarrow> int \<Rightarrow> jdoc" where
  "err_doc code detail key profile_id unknown = named
     ([(''t'', J_str (text_bytes ''err'')), (''code'', J_str (text_bytes code))] @
      (case detail of None \<Rightarrow> [] | Some s \<Rightarrow> [(''detail'', J_str (text_bytes s))]) @
      (case key of None \<Rightarrow> [] | Some k \<Rightarrow> if k \<noteq> [] \<and> hd k \<noteq> 0 then [(''key'', J_str k)] else []) @
      (if 0 < profile_id then [(''profile'', J_int (of_int profile_id))] else []) @
      (if 0 \<le> unknown then [(''unknown_keys'', J_int (of_int unknown))] else []))"

definition hello_doc :: "'h cfg_msg_host_t \<Rightarrow> jdoc" where
  "hello_doc host = named
     ([(''t'', J_str (text_bytes ''hello''))] @
      (case ho_fw host of None \<Rightarrow> [] | Some s \<Rightarrow> [(''fw'', J_str s)]) @
      (case ho_git host of None \<Rightarrow> [] | Some s \<Rightarrow> if s \<noteq> [] \<and> hd s \<noteq> 0 then [(''git'', J_str s)] else []) @
      [(''proto'', J_int (of_nat CFG_PROTO_VERSION)), (''schema'', J_int (ucast CFG_SCHEMA_VERSION)),
       (''caps'', J_arr (map (\<lambda>c. J_str (text_bytes c)) ([CFG_CAP_CFG] @ (if ho_telem host \<noteq> None then [CFG_CAP_TELEM] else []))))])"

definition cfg_reply_doc :: "ctrl_config_t \<Rightarrow> cstr \<Rightarrow> jdoc" where
  "cfg_reply_doc cfg fw = named [(''t'', J_str (text_bytes ''cfg'')), (''cfg'', config_doc cfg fw)]"

definition ok_doc :: "u32 option \<Rightarrow> int \<Rightarrow> jdoc" where
  "ok_doc gen unknown = named [(''t'', J_str (text_bytes ''ok'')), (''generation'', J_int (case gen of None \<Rightarrow> 0 | Some g \<Rightarrow> g)),
     (''unknown_keys'', J_int (of_int unknown))]"

lemma reply_close_doc: "reply_close m (calls fs (reply_open m)) = reply m d"
  if "\<And>w. cfg_json_w_end (calls fs (cfg_json_w_obj w)) = write_doc d w" for fs :: "'h call list"
  by (simp add: reply_close_def reply_open_def reply_def send_def tx_raw_def that Let_def split: option.splits)

lemma reply_err_doc: "reply_err m code detail key p u = reply m (err_doc code detail key p u)"
  unfolding reply_err_def
  by (rule reply_close_doc) (simp add: err_doc_def call_defs split: option.splits)

lemma do_hello_doc: "do_hello m = reply m (hello_doc (ms_host m))"
  unfolding do_hello_def
  by (rule reply_close_doc) (simp add: hello_doc_def call_defs split: option.splits)

lemma do_cfg_get_doc:
  "do_cfg_get m = (case host_get m of None \<Rightarrow> no_config m | Some cfg \<Rightarrow> reply m (cfg_reply_doc cfg (ho_fw (ms_host m))))"
proof (cases "host_get m")
  case (Some cfg)
  have "reply_close m (calls [kstr ''t'' (text_bytes ''cfg''), kkey ''cfg'', \<lambda>w. snd (cfg_doc_emit w cfg (ho_fw (ms_host m)))] (reply_open m)) =
      reply m (cfg_reply_doc cfg (ho_fw (ms_host m)))"
    by (rule reply_close_doc) (simp add: cfg_reply_doc_def call_defs emit_is_document)
  then show ?thesis by (simp add: do_cfg_get_def Some)
qed (simp add: do_cfg_get_def)

lemma ok_reply_doc:
  "reply_close m (calls [kstr ''t'' (text_bytes ''ok''), kint ''generation'' (case gen of None \<Rightarrow> 0 | Some g \<Rightarrow> g), kint ''unknown_keys'' (of_int u)]
     (reply_open m)) = reply m (ok_doc gen u)"
  by (rule reply_close_doc) (simp add: ok_doc_def call_defs)

lemmas reply_docs = reply_err_doc do_hello_doc do_cfg_get_doc ok_reply_doc

lemma reply_sel [simp]: "ms_host (reply m d) = ms_host m" "ms_line (reply m d) = ms_line m" "ms_overflow (reply m d) = ms_overflow m"
  "ms_scratch (reply m d) = ms_scratch m" "ms_world (reply m d) = send (ms_host m) (ms_world m) d"
  by (simp_all add: reply_def)

lemma reply_updates:
  "reply (m\<lparr>ms_line := l\<rparr>) d = (reply m d)\<lparr>ms_line := l\<rparr>" "reply (m\<lparr>ms_overflow := b\<rparr>) d = (reply m d)\<lparr>ms_overflow := b\<rparr>"
  by (simp_all add: reply_def)

text \<open>With a transport, a reply is the pieces of one JSON text without control characters, and one newline.\<close>

definition sends_line :: "('h \<Rightarrow> u8 list \<Rightarrow> 'h) \<Rightarrow> 'h \<Rightarrow> 'h \<Rightarrow> bool" where
  "sends_line tx h h' \<longleftrightarrow>
     (\<exists>cs. h' = tx (foldl tx h cs) [0x0A] \<and> list_all (\<lambda>c. c \<noteq> [] \<and> length c \<le> CFG_MSG_CHUNK) cs \<and>
        cfg_json_validate (concat cs) = CFG_JSON_OK \<and> list_all (\<lambda>c. \<not> c < 0x20) (concat cs))"

lemma send_line:
  assumes "ho_tx host = Some tx" "legal d" "height d \<le> 6"
  shows "\<exists>cs. send host h d = tx (foldl tx h cs) [0x0A] \<and> concat cs = render d \<and> list_all (\<lambda>c. c \<noteq> [] \<and> length c \<le> CFG_MSG_CHUNK) cs"
proof -
  have "0 < CFG_MSG_CHUNK" "height d \<le> 32" using assms(3) by (simp_all add: CFG_MSG_CHUNK_def)
  from flushed_document [OF this, of tx h] obtain cs w
    where "cfg_json_w_flush (write_doc d (cfg_json_w_init CFG_MSG_CHUNK (Some tx) h)) = (True, w)" "w_ctx w = foldl tx h cs"
      "concat cs = render d" "list_all (\<lambda>c. c \<noteq> [] \<and> length c \<le> CFG_MSG_CHUNK) cs" by blast
  then show ?thesis by (intro exI [of _ cs]) (simp add: send_def assms(1))
qed

lemma sends_line:
  assumes "ho_tx host = Some tx" "legal d" "height d \<le> 6"
  shows "sends_line tx h (send host h d)"
proof -
  obtain cs where "send host h d = tx (foldl tx h cs) [0x0A]" "concat cs = render d" "list_all (\<lambda>c. c \<noteq> [] \<and> length c \<le> CFG_MSG_CHUNK) cs"
    using send_line [OF assms(1-3)] by blast
  moreover have "cfg_json_validate (render d) = CFG_JSON_OK" using render_accepted assms(2,3) by blast
  moreover have "list_all (\<lambda>c. \<not> c < 0x20) (render d)" using render_printing [OF assms(2)] unfolding printing_def .
  ultimately show ?thesis unfolding sends_line_def by (intro exI [of _ cs]) simp
qed

lemma height_named: "list_all (\<lambda>(k, d). height d \<le> n) ms \<Longrightarrow> height (named ms) \<le> Suc n"
  by (auto simp: list_all_iff)

lemma reply_docs_legal: "legal (err_doc code detail key p u)" "legal (hello_doc host)" "legal (cfg_reply_doc cfg fw)" "legal (ok_doc gen u)"
  by (auto simp: err_doc_def hello_doc_def cfg_reply_doc_def ok_doc_def doc_legal list_all_iff split: option.splits)

lemma reply_docs_height:
  "height (err_doc code detail key p u) \<le> 6" "height (hello_doc host) \<le> 6" "height (cfg_reply_doc cfg fw) \<le> 6" "height (ok_doc gen u) \<le> 6"
proof -
  have "height (err_doc code detail key p u) \<le> 1" "height (ok_doc gen u) \<le> 1" unfolding err_doc_def ok_doc_def
    by (rule order_trans [OF height_named [of 0]]; simp split: option.splits)+
  moreover have "height (hello_doc host) \<le> 2" unfolding hello_doc_def
    by (cases "ho_telem host") (intro order_trans [OF height_named [of 1]]; simp split: option.splits)+
  moreover have "height (cfg_reply_doc cfg fw) \<le> 5" unfolding cfg_reply_doc_def using doc_height
    by (intro order_trans [OF height_named [of 4]]) simp_all
  ultimately show "height (err_doc code detail key p u) \<le> 6" "height (hello_doc host) \<le> 6" "height (cfg_reply_doc cfg fw) \<le> 6"
      "height (ok_doc gen u) \<le> 6"
    by simp_all
qed

section \<open>What a line does to the host\<close>

text \<open>
  The contract of the protocol as a step relation on the state of the host: one answer to each request. A
  configuration reaches the save hook only if the guard rails accept it and it has the slots of the running one.
\<close>

inductive served :: "'h cfg_msg_host_t \<Rightarrow> 'h \<Rightarrow> 'h \<Rightarrow> bool" for host :: "'h cfg_msg_host_t" where
  refused: "served host h (send host h (err_doc code detail key p u))"
| greeted: "served host h (send host h (hello_doc host))"
| exported: "ho_get host = Some get \<Longrightarrow> get h = Some cfg \<Longrightarrow> served host h (send host h (cfg_reply_doc cfg (ho_fw host)))"
| snapshot: "ho_telem host = Some telem \<Longrightarrow> served host h (telem h)"
| saved: "ho_get host = Some get \<Longrightarrow> get h = Some live \<Longrightarrow> length (cfg_profiles cfg) = length (cfg_profiles live) \<Longrightarrow>
    fst (ctrl_config_validate cfg) = CFG_OK \<Longrightarrow> ho_save host = Some save \<Longrightarrow> save h cfg = (True, gen, h') \<Longrightarrow>
    served host h (send host h' (ok_doc gen u))"
| not_saved: "ho_get host = Some get \<Longrightarrow> get h = Some live \<Longrightarrow> length (cfg_profiles cfg) = length (cfg_profiles live) \<Longrightarrow>
    fst (ctrl_config_validate cfg) = CFG_OK \<Longrightarrow> ho_save host = Some save \<Longrightarrow> save h cfg = (False, gen, h') \<Longrightarrow>
    served host h (send host h' (err_doc ''CFG_ERR_STORE'' detail None 0 u))"

lemma set_walk_shape: "length (cfg_profiles (es_scratch (set_walk n s))) = length (cfg_profiles (es_scratch s))"
proof (induction n arbitrary: s)
  case (Suc n)
  have d: "length (cfg_profiles cfg') = length (cfg_profiles cfg)" if "cfg_doc_parse j cfg = (e, j', cfg', info)" for j cfg e j' cfg' info
    using slots.run_keeps [of "length (cfg_profiles cfg)" j cfg] that
    by (auto simp: cfg_doc_parse_def Let_def slots_kept_def dc_init_def CFG_JSON_KEY_MAX_def)
  show ?case using Suc.IH d by (auto simp: Let_def split: prod.splits option.splits)
qed simp

lemma save_scratch_world:
  "ms_world (save_scratch m u) =
     (case (case ho_save (ms_host m) of None \<Rightarrow> (False, None, ms_world m) | Some save \<Rightarrow> save (ms_world m) (ms_scratch m)) of (ok, gen, h) \<Rightarrow>
        send (ms_host m) h (if ok then ok_doc gen u else err_doc ''CFG_ERR_STORE'' (Some ''config store write or verify failed'') None 0 u))"
  by (simp add: save_scratch_def reply_docs Let_def split: prod.splits)

lemma save_scratch_served:
  assumes "host_get m = Some live" "length (cfg_profiles (ms_scratch m)) = length (cfg_profiles live)"
    "fst (ctrl_config_validate (ms_scratch m)) = CFG_OK"
  shows "served (ms_host m) (ms_world m) (ms_world (save_scratch m u))"
proof (cases "ho_save (ms_host m)")
  case None
  then show ?thesis by (simp add: save_scratch_world served.refused)
next
  case (Some save)
  obtain ok gen h where s: "save (ms_world m) (ms_scratch m) = (ok, gen, h)" by (metis prod.exhaust)
  obtain get where g: "ho_get (ms_host m) = Some get" "get (ms_world m) = Some live"
    using assms(1) by (auto simp: host_get_def split: option.splits)
  show ?thesis
  proof (cases ok)
    case True
    then show ?thesis using served.saved [OF g assms(2,3) Some, of gen h u] s by (simp add: save_scratch_world Some)
  next
    case False
    then show ?thesis using served.not_saved [OF g assms(2,3) Some, of gen h _ u] s by (simp add: save_scratch_world Some)
  qed
qed

lemma set_verdict_served:
  assumes "host_get m = Some live" "length (cfg_profiles (ms_scratch m)) = length (cfg_profiles live)"
  shows "served (ms_host m) (ms_world m) (ms_world (set_verdict m s))"
  using save_scratch_served [OF assms]
  by (auto simp: set_verdict_def Let_def reply_docs intro: served.refused split: cfg_doc_err_t.splits prod.splits)

lemma do_cfg_set_served: "served (ms_host m) (ms_world m) (ms_world (do_cfg_set m line))"
proof (cases "host_get m")
  case None
  then show ?thesis by (simp add: do_cfg_set_def no_config_def reply_docs served.refused)
next
  case (Some live)
  obtain ok j where j: "cfg_json_obj_begin (cfg_json_init line) = (ok, j)" by (metis prod.exhaust)
  let ?s = "set_walk (length line) (set_start live j)"
  let ?m = "m\<lparr>ms_scratch := es_scratch ?s\<rparr>"
  have "host_get ?m = Some live" using Some by (simp add: host_get_def split: option.splits)
  moreover have "length (cfg_profiles (ms_scratch ?m)) = length (cfg_profiles live)" by (simp add: set_walk_shape set_start_def)
  ultimately have v: "served (ms_host ?m) (ms_world ?m) (ms_world (set_verdict ?m ?s))" by (rule set_verdict_served)
  show ?thesis using v by (simp add: do_cfg_set_def Some j Let_def reply_docs served.refused)
qed

lemma line_served:
  "ms_world (cfg_msg_line m line) = ms_world m \<and> trim line = [] \<or> served (ms_host m) (ms_world m) (ms_world (cfg_msg_line m line)) \<and> trim line \<noteq> []"
proof (cases "trim line = []")
  case True
  then show ?thesis by (simp add: cfg_msg_line_def)
next
  case False
  have g: "served (ms_host m) (ms_world m) (ms_world (do_cfg_get m))"
    by (auto simp: reply_docs no_config_def host_get_def intro: served.intros split: option.splits)
  show ?thesis using False g do_cfg_set_served [of m "trim line"]
    by (auto simp: cfg_msg_line_def Let_def reply_docs intro: served.intros split: option.splits)
qed

section \<open>The envelope walks end\<close>

lemma legal_onward: "onward j j' \<Longrightarrow> j_depth j \<le> 6 \<Longrightarrow> j_depth j' \<le> 6 \<and> length (j_rest j') \<le> length (j_rest j)"
  by (simp add: onward_def)

lemma key_shorter:
  "cfg_json_obj_key cap j = (Some a, j') \<Longrightarrow> j_depth j \<le> 6 \<Longrightarrow> j_depth j' \<le> 6 \<and> length (j_rest j') < length (j_rest j)"
  using key_onward [of cap j a j'] by (simp add: onward_def)

lemma type_walk_fuel:
  "j_depth j \<le> 6 \<Longrightarrow> length (j_rest j) < n \<Longrightarrow> length (j_rest j) < m \<Longrightarrow> type_walk n j = type_walk m j"
proof (induction n arbitrary: j m)
  case (Suc n)
  obtain m' where m: "m = Suc m'" using Suc.prems(3) by (cases m) simp_all
  have "type_walk n i = type_walk m' i"
    if k: "cfg_json_obj_key CFG_JSON_KEY_MAX j = (Some a, j')" and s: "cfg_json_skip j' = (True, i)" for a j' i
    using key_shorter [OF k Suc.prems(1)] legal_onward [OF skip_onward [OF s]] Suc.IH [of i m'] Suc.prems m by simp
  then show ?case unfolding m by (auto split: prod.split option.split)
qed simp

lemma set_walk_fuel:
  "j_depth (es_j s) \<le> 6 \<Longrightarrow> length (j_rest (es_j s)) < n \<Longrightarrow> length (j_rest (es_j s)) < m \<Longrightarrow> set_walk n s = set_walk m s"
proof (induction n arbitrary: s m)
  case (Suc n)
  obtain m' where m: "m = Suc m'" using Suc.prems(3) by (cases m) simp_all
  have skip: "set_walk n (s\<lparr>es_j := i\<rparr>) = set_walk m' (s\<lparr>es_j := i\<rparr>)"
    if k: "cfg_json_obj_key CFG_JSON_KEY_MAX (es_j s) = (Some a, j')" and i: "cfg_json_skip (j'\<lparr>j_unknown := u\<rparr>) = (True, i)" for a j' i u
  proof -
    have "onward j' i" using skip_onward [OF i] by simp
    then show ?thesis using key_shorter [OF k Suc.prems(1)] legal_onward [of j' i] Suc.IH [of "s\<lparr>es_j := i\<rparr>" m'] Suc.prems m by simp
  qed
  have known: "set_walk n (s\<lparr>es_j := i\<rparr>) = set_walk m' (s\<lparr>es_j := i\<rparr>)"
    if k: "cfg_json_obj_key CFG_JSON_KEY_MAX (es_j s) = (Some a, j')" and i: "cfg_json_skip j' = (True, i)" for a j' i
    using key_shorter [OF k Suc.prems(1)] legal_onward [OF skip_onward [OF i]] Suc.IH [of "s\<lparr>es_j := i\<rparr>" m'] Suc.prems m by simp
  have doc: "set_walk n (s\<lparr>es_j := i, es_scratch := c, es_info := f, es_de := CFG_DOC_OK, es_have_cfg := True\<rparr>) =
      set_walk m' (s\<lparr>es_j := i, es_scratch := c, es_info := f, es_de := CFG_DOC_OK, es_have_cfg := True\<rparr>)"
    if k: "cfg_json_obj_key CFG_JSON_KEY_MAX (es_j s) = (Some a, j')" and t: "cfg_json_peek j' = (t, j'')"
      and i: "cfg_doc_parse j'' (es_scratch s) = (CFG_DOC_OK, i, c, f)" for a j' t j'' i c f
  proof -
    have "onward j'' i" using parse_ok [OF i] by blast
    then show ?thesis using key_shorter [OF k Suc.prems(1)] legal_onward [OF peek_onward [OF t]] legal_onward [of j'' i] Suc.prems m
      by (intro Suc.IH) simp_all
  qed
  show ?case unfolding m using skip known doc by (auto simp: Let_def split: prod.split option.split)
qed simp

text \<open>With the fuel the two callers give, the equations of the source hold, in which no fuel occurs.\<close>

lemma type_walk_eq:
  assumes "j_depth j \<le> 6" "length (j_rest j) < n"
  shows "type_walk n j =
     (case cfg_json_obj_key CFG_JSON_KEY_MAX j of
        (None, j) \<Rightarrow> None
      | (Some (k, tr), j) \<Rightarrow>
          if \<not> tr \<and> c_string k = text_bytes ''t'' then
            (case cfg_json_peek j of (t, j) \<Rightarrow>
               if t \<noteq> CFG_JSON_T_STR then None
               else (case cfg_json_str CFG_JSON_KEY_MAX j of
                   (None, j) \<Rightarrow> None
                 | (Some (s, tr2), j) \<Rightarrow> if tr2 then None else Some (c_string s)))
          else (case cfg_json_skip j of (ok, j) \<Rightarrow> if \<not> ok then None else type_walk n j))"
  using type_walk_fuel [OF assms, of "Suc n"] assms(2) by simp

lemma set_walk_eq:
  assumes "j_depth (es_j s) \<le> 6" "length (j_rest (es_j s)) < n"
  shows "set_walk n s =
     (case cfg_json_obj_key CFG_JSON_KEY_MAX (es_j s) of
        (None, j) \<Rightarrow> s\<lparr>es_j := j\<rparr>
      | (Some (k, tr), j) \<Rightarrow>
          if \<not> tr \<and> c_string k = text_bytes ''cfg'' then
            (case cfg_json_peek j of (t, j) \<Rightarrow>
               if t \<noteq> CFG_JSON_T_OBJ then s\<lparr>es_j := j, es_not_object := True\<rparr>
               else (case cfg_doc_parse j (es_scratch s) of (de, j, cfg, info) \<Rightarrow>
                 let s = s\<lparr>es_j := j, es_scratch := cfg, es_info := info, es_de := de, es_have_cfg := True\<rparr>
                 in if de \<noteq> CFG_DOC_OK then s else set_walk n s))
          else
            (let j = (if \<not> tr \<and> c_string k = text_bytes ''t'' then j else j\<lparr>j_unknown := j_unknown j + 1\<rparr>)
             in case cfg_json_skip j of (ok, j) \<Rightarrow> let s = s\<lparr>es_j := j\<rparr> in if \<not> ok then s else set_walk n s))"
  using set_walk_fuel [OF assms, of "Suc n"] assms(2) by simp

lemma opened_line:
  assumes "cfg_json_obj_begin (cfg_json_init line) = (True, j)"
  shows "j_depth j \<le> 6" "length (j_rest j) < length line"
proof -
  have "container_begin (cfg_json_init line) LBRACE = (True, j)" using assms by (simp add: cfg_json_obj_begin_def)
  from begin_sound [OF this] obtain w where
    b: "j_err (cfg_json_init line) = CFG_JSON_OK" "j_depth (cfg_json_init line) < 6" "j = opened (cfg_json_init line) (j_rest j)"
      "line = w @ LBRACE # j_rest j" by (auto simp: cfg_json_init_def)
  show "j_depth j \<le> 6" using b(3) opened_props(4) [OF b(1,2), of "j_rest j"] by (simp add: cfg_json_init_def)
  have "length line = length w + Suc (length (j_rest j))" by (subst b(4)) simp
  then show "length (j_rest j) < length line" by simp
qed

section \<open>Line assembly\<close>

lemma save_scratch_sel [simp]:
  "ms_host (save_scratch m u) = ms_host m" "ms_line (save_scratch m u) = ms_line m" "ms_overflow (save_scratch m u) = ms_overflow m"
  "save_scratch (m\<lparr>ms_line := l\<rparr>) u = (save_scratch m u)\<lparr>ms_line := l\<rparr>"
  by (simp_all add: save_scratch_def reply_docs reply_updates Let_def split: prod.splits option.splits)

lemma set_verdict_sel [simp]:
  "ms_host (set_verdict m s) = ms_host m" "ms_line (set_verdict m s) = ms_line m" "ms_overflow (set_verdict m s) = ms_overflow m"
  "set_verdict (m\<lparr>ms_line := l\<rparr>) s = (set_verdict m s)\<lparr>ms_line := l\<rparr>"
proof -
  obtain v b where v: "ctrl_config_validate (ms_scratch m) = (v, b)" by (metis prod.exhaust)
  note d = set_verdict_def reply_err_doc Let_def v
  show "ms_host (set_verdict m s) = ms_host m" "ms_line (set_verdict m s) = ms_line m" "ms_overflow (set_verdict m s) = ms_overflow m"
    by (cases "es_de s"; simp add: d)+
  show "set_verdict (m\<lparr>ms_line := l\<rparr>) s = (set_verdict m s)\<lparr>ms_line := l\<rparr>"
    by (cases "es_de s") (simp_all add: d reply_updates)
qed

lemma host_get_line [simp]: "host_get (m\<lparr>ms_line := l\<rparr>) = host_get m"
  by (simp add: host_get_def split: option.splits)

lemma do_cfg_set_sel [simp]:
  "ms_host (do_cfg_set m x) = ms_host m" "ms_line (do_cfg_set m x) = ms_line m" "ms_overflow (do_cfg_set m x) = ms_overflow m"
  "do_cfg_set (m\<lparr>ms_line := l\<rparr>) x = (do_cfg_set m x)\<lparr>ms_line := l\<rparr>"
proof -
  obtain ok j where j: "cfg_json_obj_begin (cfg_json_init x) = (ok, j)" by (metis prod.exhaust)
  have c: "(m\<lparr>ms_line := l\<rparr>)\<lparr>ms_scratch := g\<rparr> = (m\<lparr>ms_scratch := g\<rparr>)\<lparr>ms_line := l\<rparr>" for g by simp
  note d = do_cfg_set_def no_config_def reply_err_doc Let_def j
  show "ms_host (do_cfg_set m x) = ms_host m" "ms_line (do_cfg_set m x) = ms_line m" "ms_overflow (do_cfg_set m x) = ms_overflow m"
    by (cases "host_get m"; simp add: d)+
  show "do_cfg_set (m\<lparr>ms_line := l\<rparr>) x = (do_cfg_set m x)\<lparr>ms_line := l\<rparr>"
    unfolding do_cfg_set_def Let_def c by (cases "host_get m") (simp_all add: no_config_def reply_err_doc j reply_updates)
qed

lemma do_cfg_get_sel [simp]:
  "ms_host (do_cfg_get m) = ms_host m" "ms_line (do_cfg_get m) = ms_line m" "ms_overflow (do_cfg_get m) = ms_overflow m"
  "do_cfg_get (m\<lparr>ms_line := l\<rparr>) = (do_cfg_get m)\<lparr>ms_line := l\<rparr>"
  by (cases "host_get m"; simp add: do_cfg_get_doc no_config_def reply_err_doc reply_updates)+

text \<open>The answer to a line that passed the validator, by the type of the message.\<close>

definition answer :: "'h cfg_msg_t \<Rightarrow> u8 list \<Rightarrow> u8 list option \<Rightarrow> 'h cfg_msg_t" where
  "answer m line ty =
     (if ty = None then reply m (err_doc ''CFG_ERR_MSG'' (Some (''message has no string '' @ in_quotes ''t'' @ '' member'')) None 0 (-1))
      else if ty = Some (text_bytes ''hello'') then do_hello m
      else if ty = Some (text_bytes ''cfg-get'') then do_cfg_get m
      else if ty = Some (text_bytes ''cfg-set'') then do_cfg_set m line
      else if ty = Some (text_bytes ''telem-get'') \<and> ho_telem (ms_host m) \<noteq> None then m\<lparr>ms_world := the (ho_telem (ms_host m)) (ms_world m)\<rparr>
      else reply m (err_doc ''CFG_ERR_MSG'' (Some ''unknown message type'') None 0 (-1)))"

lemma line_answer:
  "cfg_msg_line m line = (if trim line = [] then m
     else if cfg_json_validate (trim line) \<noteq> CFG_JSON_OK
       then reply m (err_doc ''CFG_ERR_JSON'' (Some (json_err_detail (cfg_json_validate (trim line)))) None 0 (-1))
     else answer m (trim line) (find_type (trim line)))"
  unfolding cfg_msg_line_def answer_def reply_err_doc Let_def by (cases "find_type (trim line)") (simp_all only: option.simps simp_thms if_True if_False)

lemma hello_sel [simp]:
  "ms_host (do_hello m) = ms_host m" "ms_line (do_hello m) = ms_line m" "ms_overflow (do_hello m) = ms_overflow m"
  "do_hello (m\<lparr>ms_line := l\<rparr>) = (do_hello m)\<lparr>ms_line := l\<rparr>"
  by (simp_all add: do_hello_doc reply_updates)

lemma msg_updates:
  "ms_host (m\<lparr>ms_world := w\<rparr>) = ms_host m" "ms_line (m\<lparr>ms_world := w\<rparr>) = ms_line m" "ms_overflow (m\<lparr>ms_world := w\<rparr>) = ms_overflow m"
  "ms_host (m\<lparr>ms_line := l\<rparr>) = ms_host m" "ms_world (m\<lparr>ms_line := l\<rparr>) = ms_world m"
  "(m\<lparr>ms_line := l\<rparr>)\<lparr>ms_world := w\<rparr> = (m\<lparr>ms_world := w\<rparr>)\<lparr>ms_line := l\<rparr>" for m :: "'h cfg_msg_t"
  by simp_all

lemma answer_sel [simp]:
  "ms_host (answer m x t) = ms_host m" "ms_line (answer m x t) = ms_line m" "ms_overflow (answer m x t) = ms_overflow m"
  "answer (m\<lparr>ms_line := l\<rparr>) x t = (answer m x t)\<lparr>ms_line := l\<rparr>"
  unfolding answer_def
  by (simp_all only: if_distrib [of ms_host] if_distrib [of ms_line] if_distrib [of ms_overflow] if_distrib [of "\<lambda>m. m\<lparr>ms_line := l\<rparr>"]
    reply_updates hello_sel do_cfg_get_sel do_cfg_set_sel reply_sel msg_updates if_cancel)

lemma line_sel [simp]:
  "ms_host (cfg_msg_line m x) = ms_host m" "ms_line (cfg_msg_line m x) = ms_line m" "ms_overflow (cfg_msg_line m x) = ms_overflow m"
  "cfg_msg_line (m\<lparr>ms_line := l\<rparr>) x = (cfg_msg_line m x)\<lparr>ms_line := l\<rparr>"
  by (simp_all add: line_answer reply_updates)

text \<open>What becomes of one line, given without its newline.\<close>

definition take_line :: "'h cfg_msg_t \<Rightarrow> u8 list \<Rightarrow> 'h cfg_msg_t" where
  "take_line m l = (if length l \<le> CFG_MSG_LINE_MAX then cfg_msg_line m l
     else reply m (err_doc ''CFG_ERR_JSON'' (Some ''line longer than the protocol allows'') None 0 (-1)))"

definition held :: "u8 list \<Rightarrow> 'h cfg_msg_t \<Rightarrow> 'h cfg_msg_t" where
  "held r m = m\<lparr>ms_line := if length r \<le> CFG_MSG_LINE_MAX then r else [], ms_overflow := CFG_MSG_LINE_MAX < length r\<rparr>"

lemma rx_text: "0x0A \<notin> set l \<Longrightarrow> foldl rx_byte (held [] m) l = held l m"
proof (induction l rule: rev_induct)
  case (snoc c l)
  then have "foldl rx_byte (held [] m) (l @ [c]) = rx_byte (held l m) c" by simp
  also have "\<dots> = held (l @ [c]) m" using snoc.prems by (auto simp: rx_byte_def held_def)
  finally show ?case .
qed simp

lemma take_line_sel [simp]: "ms_host (take_line m l) = ms_host m" "ms_line (take_line m l) = ms_line m" "ms_overflow (take_line m l) = ms_overflow m"
  by (simp_all add: take_line_def)

lemma held_Nil: "ms_line m = [] \<Longrightarrow> \<not> ms_overflow m \<Longrightarrow> held [] m = m"
  by (simp add: held_def CFG_MSG_LINE_MAX_def)

lemma rx_newline: "ms_line m = [] \<Longrightarrow> \<not> ms_overflow m \<Longrightarrow> rx_byte (held l m) 0x0A = take_line m l"
proof -
  assume m: "ms_line m = []" "\<not> ms_overflow m"
  show ?thesis
  proof (cases "length l \<le> CFG_MSG_LINE_MAX")
    case True
    then have "held l m = m\<lparr>ms_line := l\<rparr>" using m by (simp add: held_def)
    moreover have "(cfg_msg_line m l)\<lparr>ms_line := []\<rparr> = cfg_msg_line m l" using m line_sel(2) [of m l] by simp
    ultimately show ?thesis using True m by (simp add: rx_byte_def take_line_def)
  next
    case False
    then have "held l m = m\<lparr>ms_overflow := True\<rparr>" using m by (simp add: held_def)
    moreover have "m\<lparr>ms_overflow := False, ms_line := []\<rparr> = m" using m by simp
    ultimately show ?thesis using False m by (simp add: rx_byte_def take_line_def reply_docs)
  qed
qed

lemma rx_lines:
  assumes "ms_line m = []" "\<not> ms_overflow m" "\<And>l. l \<in> set ls \<Longrightarrow> 0x0A \<notin> set l"
  shows "foldl rx_byte m (concat (map (\<lambda>l. l @ [0x0A]) ls)) = foldl take_line m ls \<and> ms_line (foldl take_line m ls) = [] \<and> \<not> ms_overflow (foldl take_line m ls)"
  using assms
proof (induction ls arbitrary: m)
  case (Cons l ls)
  have "foldl rx_byte m l = held l m" using rx_text [of l m] held_Nil [OF Cons.prems(1,2)] Cons.prems(3) [of l] by simp
  then have "foldl rx_byte m (l @ [0x0A]) = take_line m l" using rx_newline Cons.prems by simp
  then show ?case using Cons.IH [of "take_line m l"] Cons.prems by simp
qed simp

lemma rx_chunks: "foldl cfg_msg_rx m chunks = foldl rx_byte m (concat chunks)"
  by (induction chunks arbitrary: m) (simp_all add: cfg_msg_rx_def)

text \<open>C28 (refinement). The byte stream is a stream of lines: however the transport cuts it into chunks, the lines that end in it are taken one
  by one, each answered on its own, and what follows the last newline is held. A line of up to
  3072 bytes is taken whole; a longer one is dropped, takes nothing of the next one with it and is answered with
  one error.\<close>

theorem stream_is_lines:
  assumes "concat chunks = concat (map (\<lambda>l. l @ [0x0A]) ls) @ rest" "\<And>l. l \<in> set ls \<Longrightarrow> 0x0A \<notin> set l" "0x0A \<notin> set rest"
    and "ms_line m = []" "\<not> ms_overflow m"
  shows "foldl cfg_msg_rx m chunks = held rest (foldl take_line m ls)"
proof -
  note r = rx_lines [OF assms(4,5,2)]
  have "foldl cfg_msg_rx m chunks = foldl rx_byte (foldl rx_byte m (concat (map (\<lambda>l. l @ [0x0A]) ls))) rest"
    by (simp add: rx_chunks assms(1))
  also have "\<dots> = foldl rx_byte (foldl take_line m ls) rest" using r by (simp only:)
  also have "\<dots> = held rest (foldl take_line m ls)" using rx_text [OF assms(3), of "foldl take_line m ls"] held_Nil [of "foldl take_line m ls"] r by simp
  finally show ?thesis .
qed

text \<open>A host in memory: the configuration, the generation and what was sent.\<close>

definition ram_save :: "ctrl_config_t \<times> u32 \<times> u8 list \<Rightarrow> ctrl_config_t \<Rightarrow> bool \<times> u32 option \<times> ctrl_config_t \<times> u32 \<times> u8 list" where
  "ram_save = (\<lambda>(c, g, out) cfg. (True, Some (g + 1), cfg, g + 1, out))"

definition ram_tx :: "ctrl_config_t \<times> u32 \<times> u8 list \<Rightarrow> u8 list \<Rightarrow> ctrl_config_t \<times> u32 \<times> u8 list" where
  "ram_tx = (\<lambda>(c, g, out) s. (c, g, out @ s))"

definition ram_host :: "(ctrl_config_t \<times> u32 \<times> u8 list) cfg_msg_host_t" where
  "ram_host = \<lparr>ho_get = Some (\<lambda>(c, g, out). Some c), ho_save = Some ram_save, ho_tx = Some ram_tx, ho_fw = Some (text_bytes ''1.0''),
     ho_git = None, ho_telem = None\<rparr>"

definition ram_msg :: "(ctrl_config_t \<times> u32 \<times> u8 list) cfg_msg_t" where
  "ram_msg = cfg_msg_init ram_host config_defaults (config_defaults, 4, [])"

theorem stream_is_lines_witness:
  "foldl cfg_msg_rx ram_msg [[0x0D], [0x0A, 0x20]] = held [0x20] ram_msg"
  using stream_is_lines [of "[[0x0D], [0x0A, 0x20]]" "[[0x0D]]" "[0x20]" ram_msg]
  by (simp add: ram_msg_def cfg_msg_init_def take_line_def CFG_MSG_LINE_MAX_def line_answer trim_def)

text \<open>C29 (liveness). A client is never left without an answer and never gets two: a line that is not blank either runs the host's
  telemetry hook once or is answered with exactly one line, pieces of at most 128 bytes that together are one
  JSON text the reader accepts, without control characters, and one newline. Before the answer the host is untouched,
  except that its save hook may have run once on a configuration the guard rails accept; the answer then says
  \<open>ok\<close> exactly when the hook reported success.\<close>

theorem every_line_answered:
  assumes "ho_tx (ms_host m) = Some tx" "trim line \<noteq> []"
  shows "(\<exists>telem. ho_telem (ms_host m) = Some telem \<and> ms_world (cfg_msg_line m line) = telem (ms_world m)) \<or>
    sends_line tx (ms_world m) (ms_world (cfg_msg_line m line)) \<or>
    (\<exists>save cfg ok gen h detail u. ho_save (ms_host m) = Some save \<and> fst (ctrl_config_validate cfg) = CFG_OK \<and> save (ms_world m) cfg = (ok, gen, h) \<and>
       ms_world (cfg_msg_line m line) = send (ms_host m) h (if ok then ok_doc gen u else err_doc ''CFG_ERR_STORE'' detail None 0 u) \<and>
       sends_line tx h (ms_world (cfg_msg_line m line)))"
proof -
  have s: "served (ms_host m) (ms_world m) (ms_world (cfg_msg_line m line))" using line_served [of m line] assms(2) by simp
  note l = sends_line [OF assms(1) reply_docs_legal(1) reply_docs_height(1)] sends_line [OF assms(1) reply_docs_legal(2) reply_docs_height(2)]
    sends_line [OF assms(1) reply_docs_legal(3) reply_docs_height(3)] sends_line [OF assms(1) reply_docs_legal(4) reply_docs_height(4)]
  from s show ?thesis
  proof cases
    case (saved get live cfg save gen h u)
    then show ?thesis using l(4) [of h gen u]
      by (intro disjI2 exI [of _ save] exI [of _ cfg] exI [of _ True] exI [of _ gen] exI [of _ h] exI [of _ None] exI [of _ u]) simp
  next
    case (not_saved get live cfg save gen h detail u)
    then show ?thesis using l(1) [of h "''CFG_ERR_STORE''" detail None 0 u]
      by (intro disjI2 exI [of _ save] exI [of _ cfg] exI [of _ False] exI [of _ gen] exI [of _ h] exI [of _ detail] exI [of _ u]) simp
  qed (simp_all add: l)
qed

theorem every_line_answered_witness:
  "sends_line ram_tx (config_defaults, 4, []) (ms_world (cfg_msg_line ram_msg [0x78])) \<or>
    (\<exists>cfg ok gen h detail u. fst (ctrl_config_validate cfg) = CFG_OK \<and> ram_save (config_defaults, 4, []) cfg = (ok, gen, h) \<and>
       ms_world (cfg_msg_line ram_msg [0x78]) = send ram_host h (if ok then ok_doc gen u else err_doc ''CFG_ERR_STORE'' detail None 0 u) \<and>
       sends_line ram_tx h (ms_world (cfg_msg_line ram_msg [0x78])))"
proof -
  have "ho_tx (ms_host ram_msg) = Some ram_tx" "trim [0x78] \<noteq> []" "ho_telem (ms_host ram_msg) = None" "ho_save (ms_host ram_msg) = Some ram_save"
    "ms_host ram_msg = ram_host" "ms_world ram_msg = (config_defaults, 4, [])"
    by (simp_all add: ram_msg_def cfg_msg_init_def ram_host_def trim_def)
  then show ?thesis using every_line_answered [of ram_msg ram_tx "[0x78]"] by simp
qed

section \<open>The host\<close>

text \<open>
  What the layer relies on in its host: an invariant \<open>P\<close> of its state that sending, a telemetry line and the save of an
  accepted configuration of seven slots keep, with the running configuration well formed under it.
\<close>

locale msg_host =
  fixes host :: "'h cfg_msg_host_t" and get :: "'h \<Rightarrow> ctrl_config_t option" and save :: "'h \<Rightarrow> ctrl_config_t \<Rightarrow> bool \<times> u32 option \<times> 'h"
    and tx :: "'h \<Rightarrow> u8 list \<Rightarrow> 'h" and telem :: "'h \<Rightarrow> 'h" and P :: "'h \<Rightarrow> bool"
  assumes bound: "ho_get host = Some get" "ho_save host = Some save" "ho_tx host = Some tx" "ho_telem host = Some telem"
    and tx_keeps: "P h \<Longrightarrow> P (tx h s)"
    and telem_keeps: "P h \<Longrightarrow> P (telem h)"
    and live_shape: "P h \<Longrightarrow> get h = Some live \<Longrightarrow> length (cfg_profiles live) = CFG_PROFILE_COUNT"
    and save_keeps: "P h \<Longrightarrow> length (cfg_profiles cfg) = CFG_PROFILE_COUNT \<Longrightarrow> fst (ctrl_config_validate cfg) = CFG_OK \<Longrightarrow> P (snd (snd (save h cfg)))"
begin

lemma pieces_keep: "P h \<Longrightarrow> P (foldl tx h cs)"
  by (induction cs arbitrary: h) (simp_all add: tx_keeps)

lemma send_keeps: "legal d \<Longrightarrow> height d \<le> 6 \<Longrightarrow> P h \<Longrightarrow> P (send host h d)"
  using send_line [OF bound(3), of d h] tx_keeps pieces_keep by fastforce

lemma served_keeps: "served host h h' \<Longrightarrow> P h \<Longrightarrow> P h'"
proof (induction rule: served.induct)
  case (saved get' h live cfg save' gen h' u)
  then have "save h cfg = (True, gen, h')" "length (cfg_profiles cfg) = CFG_PROFILE_COUNT" using bound live_shape by simp_all
  then have "P h'" using save_keeps [of h cfg] saved by simp
  then show ?case by (simp add: send_keeps reply_docs_legal reply_docs_height)
next
  case (not_saved get' h live cfg save' gen h' detail u)
  then have "save h cfg = (False, gen, h')" "length (cfg_profiles cfg) = CFG_PROFILE_COUNT" using bound live_shape by simp_all
  then have "P h'" using save_keeps [of h cfg] not_saved by simp
  then show ?case by (simp add: send_keeps reply_docs_legal reply_docs_height)
qed (use bound telem_keeps in \<open>simp_all add: send_keeps reply_docs_legal reply_docs_height\<close>)

lemma line_keeps: "ms_host m = host \<Longrightarrow> P (ms_world m) \<Longrightarrow> P (ms_world (cfg_msg_line m line))"
  using line_served [of m line] served_keeps by auto

lemma byte_keeps: "ms_host m = host \<Longrightarrow> P (ms_world m) \<Longrightarrow> ms_host (rx_byte m c) = host \<and> P (ms_world (rx_byte m c))"
  using line_keeps [of m "ms_line m"] by (simp add: rx_byte_def reply_err_doc send_keeps reply_docs_legal reply_docs_height)

lemma rx_keeps: "ms_host m = host \<Longrightarrow> P (ms_world m) \<Longrightarrow> ms_host (cfg_msg_rx m data) = host \<and> P (ms_world (cfg_msg_rx m data))"
  unfolding cfg_msg_rx_def by (induction data arbitrary: m) (simp_all add: byte_keeps)

end

end
