(* ===== verification/Doc_Size.thy ===== *)
theory Doc_Size
  imports Doc_Round Telemetry_Json
begin

text \<open>
  How long the document of \<open>config_doc.c\<close> can get: \<open>room\<close> bounds the text of a document field by field, and a whole
  configuration of seven slots leaves room for its request in the line buffer of the protocol.
\<close>

section \<open>Scalars\<close>

lemma dec_rev_length_le: "length (dec_rev k u) \<le> k"
  by (induction k arbitrary: u) simp_all

lemma dec_rev_small: "unat u < 10 ^ k \<Longrightarrow> 0 < k \<Longrightarrow> k \<le> 20 \<Longrightarrow> length (dec_rev 20 u) \<le> k"
  using dec_rev_more [of u k 20] dec_rev_length_le [of k u] by simp

lemma int_text_digits: "unat (if v <s 0 then - (v + 1) + 1 else v :: u32) < 10 ^ k \<Longrightarrow> 0 < k \<Longrightarrow> k \<le> 20 \<Longrightarrow>
    length (int_text v) \<le> (if v <s 0 then k + 1 else k)"
  using dec_rev_small [of "if v <s 0 then - (v + 1) + 1 else v" k] by (cases "v <s 0") (simp_all add: int_text_def Let_def)

lemma int_text_small: "\<bar>sint v\<bar> < 10 ^ k \<Longrightarrow> 0 < k \<Longrightarrow> k \<le> 20 \<Longrightarrow> length (int_text v) \<le> (if v <s 0 then k + 1 else k)"
proof -
  assume a: "\<bar>sint v\<bar> < 10 ^ k" "0 < k" "k \<le> 20"
  have "nat \<bar>sint v\<bar> < 10 ^ k" using a(1) by (simp add: nat_less_iff)
  then show ?thesis using int_text_digits [of v k] a(2,3) unfolding int_magnitude by simp
qed

lemma int_text_u8: "length (int_text (ucast (x :: u8))) \<le> 4" and int_text_u16: "length (int_text (ucast (y :: u16))) \<le> 5"
proof -
  have "uint x < 256" "uint y < 65536" using uint_lt2p [of x] uint_lt2p [of y] by simp_all
  moreover have s: "sint (ucast x :: u32) = uint x" "sint (ucast y :: u32) = uint y" by (simp_all add: wide_sint)
  moreover have "\<not> (ucast x :: u32) <s 0" "\<not> (ucast y :: u32) <s 0" by (simp_all add: word_sless_alt s)
  ultimately show "length (int_text (ucast (x :: u8))) \<le> 4" "length (int_text (ucast (y :: u16))) \<le> 5"
    using int_text_small [of "ucast x" 4] int_text_small [of "ucast y" 5] by simp_all
qed

lemma int_text_i8: "length (int_text (scast (z :: i8))) \<le> 4"
proof -
  have "-128 \<le> sint z" "sint z \<le> 127" using sint_ge [of z] sint_less [of z] by simp_all
  then have "\<bar>sint z\<bar> < 1000" by linarith
  moreover have "sint (scast z :: u32) = sint z" by (simp add: wide_sint)
  ultimately show ?thesis using int_text_small [of "scast z" 3] by (simp split: if_splits)
qed

lemma f32_item_length: "length (f32_item v) \<le> 16"
proof (cases "isfinite v")
  case True
  then show ?thesis using f32_text_reads_back [OF True] by (auto simp: f32_item_def)
qed (simp add: f32_item_def)

text \<open>Strings without escapes.\<close>

definition plain :: "string \<Rightarrow> bool" where
  "plain s \<longleftrightarrow> list_all (\<lambda>c. 32 \<le> (of_char c :: nat) \<and> of_char c \<noteq> (0x22 :: nat) \<and> of_char c \<noteq> (0x5C :: nat)) s"

lemma escape_plain: "32 \<le> unat c \<Longrightarrow> unat c \<noteq> 0x22 \<Longrightarrow> unat c \<noteq> 0x5C \<Longrightarrow> escape_chr c = [c] \<and> c \<noteq> 0"
  by (auto simp: escape_chr_def word_less_nat_alt)

lemma quoted_plain: "plain s \<Longrightarrow> length (quoted (text_bytes s)) = length s + 2"
proof -
  have "concat (map escape_chr (takeWhile (\<lambda>c. c \<noteq> 0) (text_bytes s))) = text_bytes s" if "plain s"
    using that by (induction s) (simp_all add: plain_def text_bytes_def escape_plain unat_char)
  moreover have "length (text_bytes s) = length s" by (simp add: text_bytes_def)
  ultimately show "plain s \<Longrightarrow> length (quoted (text_bytes s)) = length s + 2" by (simp add: quoted_def)
qed

section \<open>Documents\<close>

fun room :: "jdoc \<Rightarrow> nat" where
  "room J_null = 4"
| "room (J_bool b) = 5"
| "room (J_int i) = length (int_text i)"
| "room (J_f32 v) = 16"
| "room (J_str s) = length (quoted s)"
| "room (J_raw s) = length s"
| "room (J_obj ms) = (if ms = [] then 2 else 1 + sum_list (map (\<lambda>(k, d). length (quoted k) + 2 + room d) ms))"
| "room (J_arr ds) = (if ds = [] then 2 else 1 + sum_list (map (\<lambda>d. room d + 1) ds))"

lemma joined_length_le:
  "(\<And>t. t \<in> set ts \<Longrightarrow> length (f t) \<le> g t) \<Longrightarrow> length (joined True (map f ts)) \<le> sum_list (map (\<lambda>t. g t + 1) ts)"
proof (induction ts)
  case (Cons t ts)
  have "length (joined True (map f ts)) \<le> sum_list (map (\<lambda>t. g t + 1) ts)" by (rule Cons.IH) (simp add: Cons.prems)
  moreover have "length (f t) \<le> g t" by (simp add: Cons.prems)
  ultimately show ?case by simp
qed simp

lemma joined_first: "ts \<noteq> [] \<Longrightarrow> length (joined True ts) = length (joined False ts) + 1"
  by (cases ts) simp_all

lemma render_room: "length (render d) \<le> room d"
proof (induction d)
  case (J_obj ms)
  show ?case
  proof (cases "ms = []")
    case False
    have "length (joined True (map (\<lambda>(k, d). quoted k @ COLON # render d) ms)) \<le> sum_list (map (\<lambda>m. (case m of (k, d) \<Rightarrow> length (quoted k) + 1 + room d) + 1) ms)"
      by (rule joined_length_le) (auto simp: J_obj snds.simps)
    also have "\<dots> = sum_list (map (\<lambda>(k, d). length (quoted k) + 2 + room d) ms)" by (simp add: case_prod_unfold)
    finally show ?thesis using False joined_first [of "map (\<lambda>(k, d). quoted k @ COLON # render d) ms"] by simp
  qed simp
next
  case (J_arr ds)
  show ?case
  proof (cases "ds = []")
    case False
    have "length (joined True (map render ds)) \<le> sum_list (map (\<lambda>d. room d + 1) ds)" by (rule joined_length_le) (rule J_arr)
    then show ?thesis using False joined_first [of "map render ds"] by simp
  qed simp
qed (simp_all add: f32_item_length)

lemma i8_room: "room (i8_doc v) \<le> 4"
  using int_text_i8 by (simp add: i8_doc_def)

lemma name_plain:
  "list_all plain [''none'', ''adc_a'', ''adc_b'', ''v_bulk'', ''v_bulk_cons'', ''v_float'', ''v_float_cons'', ''v_limp'', ''zero'', ''hold'']"
  "list_all plain [''Bulk, Float Norm'', ''Bulk, Float Low (Solar Priority)'', ''Bulk, Solar Finish'', ''Bulk Conservative, Float Low'',
     ''Bulk, Off'', ''Limp Home'', ''Fast Charge'', []]"
  by (simp_all add: plain_def)

lemma vref_room: "room (vref_doc r v) \<le> 16"
proof (cases "CFG_PRIM_V_BULK \<le> r \<and> r \<le> CFG_PRIM_V_LIMP")
  case True
  then have "r \<in> {1, 2, 3, 4, 5}" using prim_cases [of r] by (auto simp: cfg_prims)
  then have "length (quoted (PRIM_NAMES ! unat r)) \<le> 16"
    by (elim insertE emptyE) (simp_all add: PRIM_NAMES_def quoted_plain plain_def)
  then show ?thesis using True by (simp add: vref_doc_def)
qed (auto simp: vref_doc_def)

lemma temp_src_room: "length (quoted (batt_temp_src_name t)) \<le> 7"
proof -
  have "t \<le> 2 \<Longrightarrow> t \<in> {0, 1, 2}"
  proof -
    assume "t \<le> 2"
    then have "unat t \<le> 2" by (simp add: word_le_nat_alt)
    then have "unat t = 0 \<or> unat t = 1 \<or> unat t = 2" by linarith
    then show ?thesis by (simp add: word_unat_eq_iff)
  qed
  then show ?thesis
    by (auto simp: batt_temp_src_name_def BATT_TEMP_SRC_NAMES_def CTRL_BATT_TEMP_ADC_B_def quoted_plain plain_def)
qed

lemma profile_name_room: "length (quoted (cfg_doc_profile_name i)) \<le> 34"
proof (cases "i < 1 \<or> CFG_PROFILE_COUNT < unat i")
  case True
  then show ?thesis by (simp add: cfg_doc_profile_name_def quoted_def)
next
  case False
  then have "1 \<le> unat i" "unat i \<le> 7" by (simp_all add: not_less CFG_PROFILE_COUNT_def Suc_le_eq unat_gt_0)
  then have "unat i - 1 < length PROFILE_NAMES" by (simp add: PROFILE_NAMES_def)
  moreover have "list_all (\<lambda>n. length (quoted n) \<le> 34) PROFILE_NAMES" by (simp add: PROFILE_NAMES_def quoted_plain plain_def)
  ultimately have "length (quoted (PROFILE_NAMES ! (unat i - 1))) \<le> 34" by (simp add: list_all_length)
  then show ?thesis using False by (simp add: cfg_doc_profile_name_def)
qed

lemmas room_defs = primitives_doc_def field_doc_def limits_doc_def global_doc_def rest_doc_def revert_doc_def profile_doc_def

lemma primitives_room: "room (primitives_doc p) \<le> 143" and limits_room: "room (limits_doc l g) \<le> 211"
  by (simp_all add: room_defs quoted_plain plain_def)

lemma global_room: "room (global_doc g) \<le> 502"
  using int_text_u8 [of "g_cells_series g"] int_text_u16 [of "g_t_tail_hold_s g"] int_text_u16 [of "g_t_vclamp_s g"]
    int_text_u16 [of "g_cv_hold_exit_min g"] int_text_u16 [of "g_t_charge_max_min g"] int_text_u16 [of "g_warmup_time_s g"]
    i8_room [of "g_soc_target_pct g"] i8_room [of "g_skip_bulk_soc_pct g"] temp_src_room [of "g_batt_temp_src g"]
  by (simp add: room_defs quoted_plain plain_def)

lemma profile_room: "room (profile_doc pr) \<le> 294"
  using int_text_u8 [of "p_id (cp_p pr)"] profile_name_room [of "p_id (cp_p pr)"] vref_room [of "cp_cv_target_ref pr" "p_cv_target_vcell (cp_p pr)"]
    vref_room [of "cp_rest_voltage_ref pr" "p_rest_voltage_vcell (cp_p pr)"] int_text_u16 [of "p_t_revert_hold_s (cp_p pr)"]
    i8_room [of "p_soc_revert_pct (cp_p pr)"]
  by (simp add: room_defs quoted_plain plain_def)

lemma document_room:
  assumes "length (cfg_profiles cfg) = CFG_PROFILE_COUNT"
  shows "length (render (config_doc cfg fw)) \<le> 3020 + (case fw of None \<Rightarrow> 0 | Some s \<Rightarrow> length (quoted s))"
proof -
  have l: "length (cfg_profiles cfg) = 7" using assms by (simp add: CFG_PROFILE_COUNT_def)
  have "sum_list (map (\<lambda>d. room d + 1) (map profile_doc prs)) \<le> 295 * length prs" for prs
  proof (induction prs)
    case (Cons pr prs)
    then show ?case using profile_room [of pr] by simp
  qed simp
  from this [of "cfg_profiles cfg"] have "room (J_arr (map profile_doc (cfg_profiles cfg))) \<le> 2066" using l by simp
  then have "room (config_doc cfg fw) \<le> 3020 + (case fw of None \<Rightarrow> 0 | Some s \<Rightarrow> length (quoted s))"
    using primitives_room [of "cfg_prim cfg"] limits_room [of "cfg_limits cfg" "cfg_globals cfg"] global_room [of "cfg_globals cfg"] int_text_u8 [of "cfg_active_profile cfg"]
      int_text_u16 [of CFG_SCHEMA_VERSION]
    by (cases fw) (simp_all add: config_doc_def quoted_plain plain_def del: room.simps(8))
  then show ?thesis using render_room [of "config_doc cfg fw"] by simp
qed

end
