(* ===== verification/Msg_Export.thy ===== *)
theory Msg_Export
  imports Msg_Props Doc_Size
begin

text \<open>
  An exported configuration is a request: the document of a \<open>cfg-get\<close> reply, sent back in a \<open>cfg-set\<close>, reaches the save
  hook as the configuration it was exported from, and it fits the line buffer of \<open>config_msg.c\<close>.
\<close>

definition request_doc :: "ctrl_config_t \<Rightarrow> cstr \<Rightarrow> jdoc" where
  "request_doc cfg fw = named [(''t'', J_str (text_bytes ''cfg-set'')), (''cfg'', config_doc cfg fw)]"

definition request :: "ctrl_config_t \<Rightarrow> cstr \<Rightarrow> u8 list" where
  "request cfg fw = render (request_doc cfg fw)"

lemma request_text:
  "request cfg fw = LBRACE # quoted (text_bytes ''t'') @ COLON # quoted (text_bytes ''cfg-set'') @
     COMMA # quoted (text_bytes ''cfg'') @ COLON # render (config_doc cfg fw) @ [RBRACE]"
  by (simp add: request_def request_doc_def)

lemma request_accepted: "cfg_json_validate (request cfg fw) = CFG_JSON_OK"
proof -
  have "height (request_doc cfg fw) \<le> 5" unfolding request_doc_def using doc_height
    by (intro order_trans [OF height_named [of 4]]) simp_all
  then have "height (request_doc cfg fw) \<le> 6" by simp
  moreover have "legal (request_doc cfg fw)" by (simp add: request_doc_def doc_legal)
  ultimately show ?thesis unfolding request_def by (intro render_accepted)
qed

lemma trim_braces: "trim (LBRACE # s @ [RBRACE]) = LBRACE # s @ [RBRACE]"
  by (simp add: trim_def)

lemma request_trim: "trim (request cfg fw) = request cfg fw" "request cfg fw \<noteq> []"
  using trim_braces [of "quoted (text_bytes ''t'') @ COLON # quoted (text_bytes ''cfg-set'') @
     COMMA # quoted (text_bytes ''cfg'') @ COLON # render (config_doc cfg fw)"] unfolding request_text by simp_all

section \<open>Reading the envelope\<close>

definition after_t :: "ctrl_config_t \<Rightarrow> cstr \<Rightarrow> u8 list" where
  "after_t cfg fw = COMMA # quoted (text_bytes ''cfg'') @ COLON # render (config_doc cfg fw) @ [RBRACE]"

lemma envelope_open:
  obtains j where "cfg_json_obj_begin (cfg_json_init (request cfg fw)) = (True, j)" "inside j" "\<not> marked j" "j_depth j = 1" "j_unknown j = 0"
    "j_rest j = quoted (text_bytes ''t'') @ COLON # quoted (text_bytes ''cfg-set'') @ after_t cfg fw"
proof -
  let ?j = "cfg_json_init (request cfg fw)"
  let ?t = "quoted (text_bytes ''t'') @ COLON # quoted (text_bytes ''cfg-set'') @ after_t cfg fw"
  have e: "j_err ?j = CFG_JSON_OK" "j_depth ?j < 6" by (simp_all add: cfg_json_init_def)
  have "j_rest ?j = [] @ LBRACE # ?t" by (simp add: cfg_json_init_def request_text after_t_def)
  from begin_complete [OF e blank_Nil this] have "cfg_json_obj_begin ?j = (True, opened ?j ?t)" by (simp add: cfg_json_obj_begin_def)
  moreover have "j_unknown (opened ?j ?t) = 0" by (simp add: opened_def cfg_json_init_def Let_def)
  ultimately show thesis using that opened_props [OF e, of ?t] by (simp add: cfg_json_init_def)
qed

lemma short_names: "short (text_bytes ''t'')" "short (text_bytes ''cfg'')" "short (text_bytes ''cfg-set'')"
  by (simp_all add: short_text)

lemma request_type: "find_type (request cfg fw) = Some (text_bytes ''cfg-set'')"
proof -
  obtain j where j: "cfg_json_obj_begin (cfg_json_init (request cfg fw)) = (True, j)" "inside j" "\<not> marked j"
    "j_rest j = quoted (text_bytes ''t'') @ COLON # quoted (text_bytes ''cfg-set'') @ after_t cfg fw" by (rule envelope_open)
  let ?k = "mark j (quoted (text_bytes ''cfg-set'') @ after_t cfg fw)"
  have k: "cfg_json_obj_key CFG_JSON_KEY_MAX j = (Some (text_bytes ''t'', False), ?k)"
    by (rule key_read [OF j(2) short_names(1)]) (simp add: j(3,4))
  have "j_err ?k = CFG_JSON_OK" "j_rest ?k = quoted (text_bytes ''cfg-set'') @ after_t cfg fw" using j(2) by (simp_all add: mark_props inside_def)
  note s = quoted_read_short [OF short_names(3) this]
  have c: "c_string (text_bytes ''t'') = text_bytes ''t''" "c_string (text_bytes ''cfg-set'') = text_bytes ''cfg-set''"
    using short_names by (simp_all add: c_string_def short_def)
  obtain n where "length (request cfg fw) = Suc n" by (simp add: request_text)
  then show ?thesis by (simp add: find_type_def j(1) k s c)
qed

lemma parse_inside:
  assumes "doc_exact cfg" "cfg_wf base" "list_all2 same_flags (cfg_profiles cfg) (cfg_profiles base)"
    and "j_err j = CFG_JSON_OK" "j_depth j \<le> 2" "j_rest j = render (config_doc cfg fw) @ r" "ends_token r"
  obtains j' info where "cfg_doc_parse j base = (CFG_DOC_OK, j', cfg, info)" "kept j j'" "j_rest j' = r"
proof -
  let ?d = "dc_init j base"
  have "d_err ?d = CFG_DOC_OK" "j_err (d_j ?d) = CFG_JSON_OK" "j_depth (d_j ?d) + 4 \<le> 6" "j_rest (d_j ?d) = render (config_doc cfg fw) @ r"
    using assms(4-6) by (simp_all add: dc_init_def)
  then obtain j' where j: "kept (d_j ?d) j'" "j_rest j' = r" "parse_object doc_table [] ?d = (True, doc_effect cfg (?d\<lparr>d_j := j'\<rparr>))"
    using document_read [OF assms(1), of fw] assms(7) unfolding reads_as_def by blast
  have "d_cfg (?d\<lparr>d_j := j'\<rparr>) = base" "d_err (?d\<lparr>d_j := j'\<rparr>) = CFG_DOC_OK" by (simp_all add: dc_init_def)
  note e = doc_effect_state [OF assms(1-3) this(1)] this(2)
  have "cfg_doc_parse j base = (CFG_DOC_OK, j', cfg, \<lparr>info_unknown_keys = j_unknown j', info_schema_version = 2, info_bad_key = []\<rparr>)"
    using e j(3) by (simp add: cfg_doc_parse_def dc_run_def Let_def dc_init_def)
  moreover have "kept j j'" using j(1) by (simp add: dc_init_def)
  ultimately show thesis using that j(2) by blast
qed

lemma skip_quoted:
  assumes "j_err j = CFG_JSON_OK" "j_depth j \<le> 6" "j_rest j = quoted s @ r" "ends_token r"
  obtains j' where "cfg_json_skip j = (True, j')" "kept j j'" "j_rest j' = r"
proof -
  have "consumes (6 - j_depth j) (quoted s)" by (rule string_consumes) (rule quoted_string)
  from this [unfolded consumes_def, rule_format, of j "[]" r "2 * length (j_rest j) + 1"]
  have "\<exists>j'. skip_n (2 * length (j_rest j) + 1) j = (True, j') \<and> kept j j' \<and> j_rest j' = r" using assms by simp
  then show thesis using that unfolding cfg_json_skip_def by blast
qed

lemma kept_unknown: "kept j j' \<Longrightarrow> j_unknown j' = j_unknown j"
  by (auto simp: kept_def)

lemma render_opens: "\<exists>t. render (config_doc cfg fw) = LBRACE # t"
  by (cases fw) (simp_all add: config_doc_def)

lemma request_walk:
  assumes "doc_exact cfg" "cfg_wf live" "list_all2 same_flags (cfg_profiles cfg) (cfg_profiles live)"
    and b: "cfg_json_obj_begin (cfg_json_init (request cfg fw)) = (True, j)"
  shows "\<exists>s. set_walk (length (request cfg fw)) (set_start live j) = s \<and> es_scratch s = cfg \<and> es_de s = CFG_DOC_OK \<and> es_have_cfg s \<and>
    \<not> es_not_object s \<and> j_err (es_j s) = CFG_JSON_OK \<and> j_unknown (es_j s) = 0"
proof -
  have j: "inside j" "\<not> marked j" "j_depth j = 1" "j_unknown j = 0"
    "j_rest j = quoted (text_bytes ''t'') @ COLON # quoted (text_bytes ''cfg-set'') @ after_t cfg fw"
    using b by (metis envelope_open prod.inject)+
  let ?j1 = "mark j (quoted (text_bytes ''cfg-set'') @ after_t cfg fw)"
  have k1: "cfg_json_obj_key CFG_JSON_KEY_MAX j = (Some (text_bytes ''t'', False), ?j1)"
    by (rule key_read [OF j(1) short_names(1)]) (simp add: j(2,5))
  have i1: "inside ?j1" "marked ?j1" using j(1) by (simp_all add: mark_props)
  have e1: "j_err ?j1 = CFG_JSON_OK" "j_depth ?j1 \<le> 6" "j_rest ?j1 = quoted (text_bytes ''cfg-set'') @ after_t cfg fw" "ends_token (after_t cfg fw)"
    using j(1) by (simp_all add: mark_props inside_def after_t_def ends_token_def)
  obtain j2 where j2: "cfg_json_skip ?j1 = (True, j2)" "kept ?j1 j2" "j_rest j2 = after_t cfg fw" by (rule skip_quoted [OF e1])
  have i2: "inside j2" "marked j2" "j_depth j2 = 1" using kept_marked [OF i1 j2(2)] j(3) by (simp_all add: mark_props)
  let ?j3 = "mark j2 (render (config_doc cfg fw) @ [RBRACE])"
  have k2: "cfg_json_obj_key CFG_JSON_KEY_MAX j2 = (Some (text_bytes ''cfg'', False), ?j3)"
    by (rule key_read [OF i2(1) short_names(2)]) (simp add: i2(2) j2(3) after_t_def)
  have i3: "inside ?j3" "marked ?j3" using i2(1) by (simp_all add: mark_props)
  have e3: "j_err ?j3 = CFG_JSON_OK" "j_depth ?j3 \<le> 2" "j_rest ?j3 = render (config_doc cfg fw) @ [RBRACE]" "ends_token [RBRACE]"
    using i2 by (simp_all add: mark_props inside_def ends_token_def)
  obtain t where t: "render (config_doc cfg fw) = LBRACE # t" using render_opens by blast
  have p: "cfg_json_peek ?j3 = (CFG_JSON_T_OBJ, ?j3)" using peek_char [OF e3(1), of LBRACE "t @ [RBRACE]"] e3(3) t by (simp add: value_type_def is_ws_def)
  obtain j4 info where d: "cfg_doc_parse ?j3 live = (CFG_DOC_OK, j4, cfg, info)" "kept ?j3 j4" "j_rest j4 = [RBRACE]"
    by (rule parse_inside [OF assms(1-3) e3])
  have i4: "inside j4" "j_depth j4 = 1" using kept_marked [OF i3 d(2)] i2(3) by (simp_all add: mark_props)
  have k3: "cfg_json_obj_key CFG_JSON_KEY_MAX j4 = (None, j4\<lparr>j_rest := [], j_depth := j_depth j4 - 1\<rparr>)"
    by (rule key_closed [OF i4(1) blank_Nil]) (simp add: d(3))
  have u: "j_unknown j4 = 0" using kept_unknown [OF d(2)] kept_unknown [OF j2(2)] j(4) by (simp add: mark_def)
  have c: "c_string (text_bytes ''t'') = text_bytes ''t''" "c_string (text_bytes ''cfg'') = text_bytes ''cfg''"
    using short_names by (simp_all add: c_string_def short_def)
  have o: "onward j j" by simp
  have "Suc (Suc (Suc 0)) \<le> length (request cfg fw)" by (simp add: request_text)
  then obtain n where n: "length (request cfg fw) = Suc (Suc (Suc n))"
    by (intro that [of "length (request cfg fw) - 3"]) simp
  show ?thesis unfolding n
    using i4(1) u by (simp add: set_start_def k1 c j2(1) k2 p d(1) k3 inside_def)
qed

lemma export_line:
  assumes "doc_exact cfg" "fst (ctrl_config_validate cfg) = CFG_OK"
    and "ho_get (ms_host m) = Some get" "get (ms_world m) = Some live" "cfg_wf live" "list_all2 same_flags (cfg_profiles cfg) (cfg_profiles live)"
    and "ho_save (ms_host m) = Some save" "save (ms_world m) cfg = (ok, gen, h)"
  shows "cfg_msg_line m (request cfg fw) = m\<lparr>ms_scratch := cfg, ms_world := send (ms_host m) h
    (if ok then ok_doc gen 0 else err_doc ''CFG_ERR_STORE'' (Some ''config store write or verify failed'') None 0 0)\<rparr>"
proof -
  obtain j where b: "cfg_json_obj_begin (cfg_json_init (request cfg fw)) = (True, j)" using envelope_open by metis
  obtain s where s: "set_walk (length (request cfg fw)) (set_start live j) = s" "es_scratch s = cfg" "es_de s = CFG_DOC_OK" "es_have_cfg s"
    "\<not> es_not_object s" "j_err (es_j s) = CFG_JSON_OK" "j_unknown (es_j s) = 0"
    using request_walk [OF assms(1,5,6) b] by blast
  obtain bad where v: "ctrl_config_validate cfg = (CFG_OK, bad)" using assms(2) by (metis prod.collapse)
  have g: "host_get m = Some live" using assms(3,4) by (simp add: host_get_def)
  have "cfg_msg_line m (request cfg fw) = do_cfg_set m (request cfg fw)"
    by (simp add: line_answer request_trim request_accepted request_type answer_def)
  also have "\<dots> = set_verdict (m\<lparr>ms_scratch := cfg\<rparr>) s" by (simp add: do_cfg_set_def g b s(1,2,5) Let_def)
  also have "\<dots> = save_scratch (m\<lparr>ms_scratch := cfg\<rparr>) 0" by (simp add: set_verdict_def s v Let_def)
  also have "\<dots> = m\<lparr>ms_scratch := cfg, ms_world := send (ms_host m) h
      (if ok then ok_doc gen 0 else err_doc ''CFG_ERR_STORE'' (Some ''config store write or verify failed'') None 0 0)\<rparr>"
    by (simp add: save_scratch_def assms(7,8) reply_err_doc ok_reply_doc [of _ _ 0, simplified] reply_def Let_def)
  finally show ?thesis .
qed

section \<open>The request fits\<close>

lemma request_length:
  assumes "length (cfg_profiles cfg) = CFG_PROFILE_COUNT"
  shows "length (request cfg fw) \<le> 3042 + (case fw of None \<Rightarrow> 0 | Some s \<Rightarrow> length (quoted s))"
  using document_room [OF assms, of fw] by (simp add: request_text quoted_plain plain_def split: option.splits)

lemma printing_no_newline: "printing t \<Longrightarrow> 0x0A \<notin> set t"
  by (auto simp: printing_def list_all_iff)

lemma request_no_newline: "0x0A \<notin> set (request cfg fw)"
  unfolding request_def by (rule printing_no_newline) (rule render_printing, simp add: request_doc_def doc_legal)

text \<open>C30 (functional). What a client was given it can send back. Conditions on the configuration: seven
  slots, accepted by the guard rails, and \<open>doc_exact\<close>, in every slot, checked by the guard rails or
  not: finite primitives, every other float finite or the one NaN, rest mode, temperature source and
  references inside their enumerations, and each referenced voltage equal to the primitive it names.
  Condition on the host: it runs some configuration of seven slots whose profile flags outside
  RESERVED, which the document does not carry, are those of the configuration sent. Then the
  request that carries the document as \<open>cfg-get\<close> writes it, with a version string that takes up to 30
  bytes, fits the line buffer of 3072 bytes; sent in chunks of any size, it reaches the save hook once
  with exactly that configuration and no unknown key, and the answer is the hook's.\<close>

theorem export_sets_back:
  assumes "doc_exact cfg" "fst (ctrl_config_validate cfg) = CFG_OK" "case fw of None \<Rightarrow> True | Some s \<Rightarrow> length (quoted s) \<le> 30"
    and "concat chunks = request cfg fw @ [0x0A]" "ms_line m = []" "\<not> ms_overflow m"
    and "ho_get (ms_host m) = Some get" "get (ms_world m) = Some live" "cfg_wf live" "list_all2 same_flags (cfg_profiles cfg) (cfg_profiles live)"
    and "ho_save (ms_host m) = Some save" "save (ms_world m) cfg = (ok, gen, h)"
  shows "foldl cfg_msg_rx m chunks = m\<lparr>ms_scratch := cfg, ms_world := send (ms_host m) h
    (if ok then ok_doc gen 0 else err_doc ''CFG_ERR_STORE'' (Some ''config store write or verify failed'') None 0 0)\<rparr>"
proof -
  have "length (cfg_profiles cfg) = CFG_PROFILE_COUNT" using assms(1) by (simp add: doc_exact_def cfg_wf_def)
  then have l: "length (request cfg fw) \<le> CFG_MSG_LINE_MAX" using request_length [of cfg fw] assms(3)
    by (cases fw) (simp_all add: CFG_MSG_LINE_MAX_def)
  have "foldl cfg_msg_rx m chunks = take_line m (request cfg fw)"
    using rx_lines [OF assms(5,6), of "[request cfg fw]"] request_no_newline by (simp add: rx_chunks assms(4))
  also have "\<dots> = cfg_msg_line m (request cfg fw)" using l by (simp add: take_line_def)
  also have "\<dots> = m\<lparr>ms_scratch := cfg, ms_world := send (ms_host m) h
      (if ok then ok_doc gen 0 else err_doc ''CFG_ERR_STORE'' (Some ''config store write or verify failed'') None 0 0)\<rparr>"
    by (rule export_line [OF assms(1,2,7-12)])
  finally show ?thesis .
qed

theorem export_sets_back_witness:
  "foldl cfg_msg_rx ram_msg [request sample_cfg None @ [0x0A]] =
     ram_msg\<lparr>ms_scratch := sample_cfg, ms_world := send ram_host (sample_cfg, 5, []) (ok_doc (Some 5) 0)\<rparr>"
  using export_sets_back [OF sample_exact sample_cfg_fst, of None "[request sample_cfg None @ [0x0A]]" ram_msg
      "\<lambda>(c, g, out). Some c" config_defaults ram_save True "Some 5" "(sample_cfg, 5, [])"] sample_base
  by (simp add: ram_msg_def cfg_msg_init_def ram_host_def ram_save_def)

end
