(* ===== verification/Usb_Cdc.thy ===== *)
theory Usb_Cdc
  imports Ring
begin

unbundle bit_operations_syntax

text \<open>
  The USB port, \<open>Core/Src/usb_cdc.c\<close>: the control endpoint, the two rings and the bulk endpoints. The static variables are
  the record \<open>usb_port\<close>. The calls to the HAL's PCD driver, whose results the code ignores but for those of
  \<open>HAL_PCD_Init\<close> and \<open>HAL_PCD_Start\<close>, are the trace \<open>us_calls\<close>, the latest last. What the host sends arrives with the callback
  that reports it, so the packet buffers are arguments of the callbacks. A callback and a call of the main loop are
  each one step: an interrupt in the middle of a call of the main loop is not modelled.
\<close>

section \<open>State\<close>

definition CDC_EP_MPS :: u16 where "CDC_EP_MPS = 64"
definition CDC_EP_OUT :: u8 where "CDC_EP_OUT = 0x01"
definition CDC_EP_IN :: u8 where "CDC_EP_IN = 0x81"
definition CDC_EP_CMD :: u8 where "CDC_EP_CMD = 0x82"
definition CDC_CMD_MPS :: u16 where "CDC_CMD_MPS = 8"
definition CDC_RX_RING :: u32 where "CDC_RX_RING = 256"
definition CDC_TX_RING :: u32 where "CDC_TX_RING = 3072"

datatype ep0_state_t = EP0_IDLE | EP0_DATA_IN | EP0_DATA_OUT | EP0_STATUS_IN | EP0_STATUS_OUT

text \<open>Types of the HAL: the kind of an endpoint, and the calls.\<close>

datatype ep_type = EP_TYPE_CTRL | EP_TYPE_BULK | EP_TYPE_INTR

datatype pcd_call = EP_Open u8 u16 ep_type | EP_Close u8 | EP_SetStall u8 | EP_ClrStall u8 | EP_Transmit u8 "u8 list"
  | EP_Receive u8 u16 | SetAddress u8 | PMAConfig u8 u16

text \<open>
  \<open>us_ep0_rest\<close> is \<open>s_ep0_ptr\<close> with \<open>s_ep0_rem\<close>: the bytes that are left to send. Only transfers from flash are longer than
  one packet, so the bytes behind the pointer do not change while some are left.
\<close>

record usb_port =
  us_calls :: "pcd_call list"
  us_ok :: bool
  us_configured :: bool
  us_dtr :: bool
  us_ep0_state :: ep0_state_t
  us_ep0_rest :: "u8 list"
  us_ep0_buf :: "u8 list"
  us_line_coding :: "u8 list"
  us_rx :: byte_ring
  us_rx_paused :: bool
  us_tx :: byte_ring
  us_tx_busy :: bool
  us_tx_last_len :: u16
  us_tx_dropped :: u32

definition usb_reset_state :: usb_port where
  "usb_reset_state = \<lparr>us_calls = [], us_ok = False, us_configured = False, us_dtr = False, us_ep0_state = EP0_IDLE, us_ep0_rest = [],
     us_ep0_buf = replicate 64 0, us_line_coding = [0x00, 0xC2, 0x01, 0x00, 0x00, 0x00, 0x08], us_rx = br_empty CDC_RX_RING,
     us_rx_paused = False, us_tx = br_empty CDC_TX_RING, us_tx_busy = False, us_tx_last_len = 0, us_tx_dropped = 0\<rparr>"

definition pcd :: "pcd_call \<Rightarrow> usb_port \<Rightarrow> usb_port" where
  "pcd c s = s\<lparr>us_calls := us_calls s @ [c]\<rparr>"

definition rx_used :: "usb_port \<Rightarrow> u16" where "rx_used s = br_used CDC_RX_RING (us_rx s)"
definition rx_free :: "usb_port \<Rightarrow> u16" where "rx_free s = br_free CDC_RX_RING (us_rx s)"
definition tx_used :: "usb_port \<Rightarrow> u16" where "tx_used s = br_used CDC_TX_RING (us_tx s)"
definition tx_free :: "usb_port \<Rightarrow> u16" where "tx_free s = br_free CDC_TX_RING (us_tx s)"

section \<open>Descriptors\<close>

definition CDC_VID :: u16 where "CDC_VID = 0x1209"
definition CDC_PID :: u16 where "CDC_PID = 0x0001"

definition DESC_DEVICE :: "u8 list" where
  "DESC_DEVICE = [18, 0x01, 0x00, 0x02, 0x02, 0x00, 0x00, 64, ucast (CDC_VID AND 0xFF), ucast (drop_bit 8 CDC_VID),
     ucast (CDC_PID AND 0xFF), ucast (drop_bit 8 CDC_PID), 0x00, 0x01, 1, 2, 3, 1]"

definition DESC_CONFIG :: "u8 list" where
  "DESC_CONFIG =
     [9, 0x02, 67, 0, 2, 1, 0, 0xC0, 1] @
     [9, 0x04, 0, 0, 1, 0x02, 0x02, 0x01, 0] @
     [5, 0x24, 0x00, 0x10, 0x01] @
     [5, 0x24, 0x01, 0x00, 0x01] @
     [4, 0x24, 0x02, 0x02] @
     [5, 0x24, 0x06, 0x00, 0x01] @
     [7, 0x05, CDC_EP_CMD, 0x03, ucast CDC_CMD_MPS, 0x00, 0x10] @
     [9, 0x04, 1, 0, 2, 0x0A, 0x00, 0x00, 0] @
     [7, 0x05, CDC_EP_OUT, 0x02, ucast CDC_EP_MPS, 0x00, 0x00] @
     [7, 0x05, CDC_EP_IN, 0x02, ucast CDC_EP_MPS, 0x00, 0x00]"

definition DESC_LANGID :: "u8 list" where "DESC_LANGID = [4, 0x03, 0x09, 0x04]"
definition STR_MANUFACTURER :: "u8 list" where "STR_MANUFACTURER = text_bytes ''WS500-OpenFW''"
definition STR_PRODUCT :: "u8 list" where "STR_PRODUCT = text_bytes ''WS500 Regulator''"

text \<open>The loop of \<open>str_desc_ascii\<close> over the bytes before the NUL.\<close>

fun str_fill :: "nat \<Rightarrow> u8 list \<Rightarrow> u8 list \<Rightarrow> nat \<times> u8 list" where
  "str_fill n [] buf = (n, buf)"
| "str_fill n (c # cs) buf = (if c \<noteq> 0 \<and> n + 2 \<le> length buf then str_fill (n + 2) cs (buf[n := c, n + 1 := 0]) else (n, buf))"

definition str_desc_ascii :: "u8 list \<Rightarrow> usb_port \<Rightarrow> nat \<times> usb_port" where
  "str_desc_ascii str s = (case str_fill 2 str (us_ep0_buf s) of (n, buf) \<Rightarrow> (n, s\<lparr>us_ep0_buf := buf[0 := of_nat n, 1 := 0x03]\<rparr>))"

definition serial_digit :: "u32 \<Rightarrow> nat \<Rightarrow> u8" where
  "serial_digit v nib = text_bytes ''0123456789ABCDEF'' ! unat (drop_bit (nib * 4) v AND 0xF)"

text \<open>\<open>uid\<close> is the three words at \<open>UID_BASE\<close>.\<close>

definition str_desc_serial :: "u32 list \<Rightarrow> usb_port \<Rightarrow> nat \<times> usb_port" where
  "str_desc_serial uid s =
     (let text = concat (map (\<lambda>w. concat (map (\<lambda>nib. [serial_digit (uid ! w) nib, 0]) [7, 6, 5, 4, 3, 2, 1, 0])) [0, 1, 2]); n = 2 + length text
      in (n, s\<lparr>us_ep0_buf := [of_nat n, 0x03] @ text @ drop n (us_ep0_buf s)\<rparr>))"

section \<open>The control endpoint\<close>

definition ep0_stall :: "usb_port \<Rightarrow> usb_port" where
  "ep0_stall s = (pcd (EP_SetStall 0x00) (pcd (EP_SetStall 0x80) s))\<lparr>us_ep0_state := EP0_IDLE\<rparr>"

text \<open>\<open>src\<close> is the bytes from the pointer, \<open>len\<close> of which are the data.\<close>

definition ep0_send :: "u8 list \<Rightarrow> nat \<Rightarrow> u16 \<Rightarrow> usb_port \<Rightarrow> usb_port" where
  "ep0_send src len wlength s =
     (let data = take (if unat wlength < len then unat wlength else len) src;
          chunk = (if unat CDC_EP_MPS < length data then unat CDC_EP_MPS else length data)
      in pcd (EP_Transmit 0x80 (take chunk data)) (s\<lparr>us_ep0_rest := drop chunk data, us_ep0_state := EP0_DATA_IN\<rparr>))"

definition ep0_status_in :: "usb_port \<Rightarrow> usb_port" where
  "ep0_status_in s = pcd (EP_Transmit 0x80 []) (s\<lparr>us_ep0_state := EP0_STATUS_IN\<rparr>)"

definition ep0_status_out :: "usb_port \<Rightarrow> usb_port" where
  "ep0_status_out s = pcd (EP_Receive 0x00 0) (s\<lparr>us_ep0_state := EP0_STATUS_OUT\<rparr>)"

section \<open>Bulk data\<close>

fun br_take :: "u32 \<Rightarrow> nat \<Rightarrow> byte_ring \<Rightarrow> u8 list \<times> byte_ring" where
  "br_take n 0 q = ([], q)"
| "br_take n (Suc k) q = (case br_take n k (br_pop n q) of (cs, q') \<Rightarrow> (br_front q # cs, q'))"

definition tx_kick :: "usb_port \<Rightarrow> usb_port" where
  "tx_kick s =
     (if \<not> us_configured s \<or> us_tx_busy s then s
      else let n = tx_used s in
        if n = 0 then
          (if us_tx_last_len s = CDC_EP_MPS then pcd (EP_Transmit CDC_EP_IN []) (s\<lparr>us_tx_last_len := 0, us_tx_busy := True\<rparr>) else s)
        else let n = (if CDC_EP_MPS < n then CDC_EP_MPS else n) in
          (case br_take CDC_TX_RING (unat n) (us_tx s) of (pkt, q) \<Rightarrow>
             pcd (EP_Transmit CDC_EP_IN pkt) (s\<lparr>us_tx := q, us_tx_last_len := n, us_tx_busy := True\<rparr>)))"

definition rx_arm :: "usb_port \<Rightarrow> usb_port" where
  "rx_arm s = (if CDC_EP_MPS \<le> rx_free s then pcd (EP_Receive CDC_EP_OUT CDC_EP_MPS) (s\<lparr>us_rx_paused := False\<rparr>) else s\<lparr>us_rx_paused := True\<rparr>)"

section \<open>SETUP\<close>

definition setup_get_descriptor :: "u32 list \<Rightarrow> u16 \<Rightarrow> u16 \<Rightarrow> usb_port \<Rightarrow> usb_port" where
  "setup_get_descriptor uid wvalue wlength s =
     (let type = ucast (drop_bit 8 wvalue) :: u8; idx = ucast (wvalue AND 0xFF) :: u8;
          send_str = (\<lambda>(n, s). ep0_send (us_ep0_buf s) n wlength s) in
      if type = 0x01 then ep0_send DESC_DEVICE (length DESC_DEVICE) wlength s
      else if type = 0x02 then ep0_send DESC_CONFIG (length DESC_CONFIG) wlength s
      else if type = 0x03 \<and> idx = 0 then ep0_send DESC_LANGID (length DESC_LANGID) wlength s
      else if type = 0x03 \<and> idx = 1 then send_str (str_desc_ascii STR_MANUFACTURER s)
      else if type = 0x03 \<and> idx = 2 then send_str (str_desc_ascii STR_PRODUCT s)
      else if type = 0x03 \<and> idx = 3 then send_str (str_desc_serial uid s)
      else ep0_stall s)"

definition setup_set_configuration :: "u16 \<Rightarrow> usb_port \<Rightarrow> usb_port" where
  "setup_set_configuration wvalue s =
     (if wvalue AND 0xFF = 1 then
        (let s = pcd (EP_Open CDC_EP_OUT CDC_EP_MPS EP_TYPE_BULK) s;
             s = pcd (EP_Open CDC_EP_IN CDC_EP_MPS EP_TYPE_BULK) s;
             s = pcd (EP_Open CDC_EP_CMD CDC_CMD_MPS EP_TYPE_INTR) s
         in ep0_status_in (tx_kick (rx_arm (s\<lparr>us_configured := True, us_tx_busy := False, us_tx_last_len := 0\<rparr>))))
      else if wvalue AND 0xFF = 0 then
        ep0_status_in (pcd (EP_Close CDC_EP_CMD) (pcd (EP_Close CDC_EP_IN) (pcd (EP_Close CDC_EP_OUT)
          (s\<lparr>us_configured := False, us_dtr := False\<rparr>))))
      else ep0_stall s)"

text \<open>A reply of \<open>n\<close> bytes put at the head of the buffer.\<close>

definition reply_bytes :: "u8 list \<Rightarrow> u16 \<Rightarrow> usb_port \<Rightarrow> usb_port" where
  "reply_bytes bs wlength s = (let s = s\<lparr>us_ep0_buf := bs @ drop (length bs) (us_ep0_buf s)\<rparr> in ep0_send (us_ep0_buf s) (length bs) wlength s)"

definition setup_standard :: "u32 list \<Rightarrow> u8 \<Rightarrow> u8 \<Rightarrow> u16 \<Rightarrow> u16 \<Rightarrow> u16 \<Rightarrow> usb_port \<Rightarrow> usb_port" where
  "setup_standard uid bm req wvalue windex wlength s =
     (if req = 0x06 then (if bm AND 0x1F = 0 then setup_get_descriptor uid wvalue wlength s else ep0_stall s)
      else if req = 0x05 then ep0_status_in (pcd (SetAddress (ucast (wvalue AND 0x7F))) s)
      else if req = 0x09 then setup_set_configuration wvalue s
      else if req = 0x08 then reply_bytes [if us_configured s then 1 else 0] wlength s
      else if req = 0x00 then reply_bytes [if bm AND 0x1F = 0 then 0x01 else 0x00, 0] wlength s
      else if req = 0x01 then ep0_status_in (if bm AND 0x1F = 2 then pcd (EP_ClrStall (ucast windex)) s else s)
      else if req = 0x03 then ep0_status_in s
      else if req = 0x0A then reply_bytes [0] wlength s
      else if req = 0x0B then (if wvalue = 0 then ep0_status_in s else ep0_stall s)
      else ep0_stall s)"

definition setup_class :: "u8 \<Rightarrow> u8 \<Rightarrow> u16 \<Rightarrow> u16 \<Rightarrow> usb_port \<Rightarrow> usb_port" where
  "setup_class bm req wvalue wlength s =
     (if req = 0x20 \<and> bm AND 0x80 = 0 \<and> wlength = 7 then pcd (EP_Receive 0x00 7) (s\<lparr>us_ep0_state := EP0_DATA_OUT\<rparr>)
      else if req = 0x21 \<and> bm AND 0x80 \<noteq> 0 then reply_bytes (us_line_coding s) wlength s
      else if req = 0x22 \<and> bm AND 0x80 = 0 then ep0_status_in (s\<lparr>us_dtr := wvalue AND 0x0001 \<noteq> 0\<rparr>)
      else ep0_stall s)"

section \<open>Callbacks\<close>

definition le16 :: "u8 list \<Rightarrow> nat \<Rightarrow> u16" where
  "le16 s i = ucast (s ! i) OR push_bit 8 (ucast (s ! (i + 1)))"

definition HAL_PCD_SetupStageCallback :: "u32 list \<Rightarrow> u8 list \<Rightarrow> usb_port \<Rightarrow> usb_port" where
  "HAL_PCD_SetupStageCallback uid setup s =
     (let bm = setup ! 0; req = setup ! 1; wvalue = le16 setup 2; windex = le16 setup 4; wlength = le16 setup 6 in
      if bm AND 0x60 = 0x00 then setup_standard uid bm req wvalue windex wlength s
      else if bm AND 0x60 = 0x20 then setup_class bm req wvalue wlength s
      else ep0_stall s)"

definition HAL_PCD_DataInStageCallback :: "u8 \<Rightarrow> usb_port \<Rightarrow> usb_port" where
  "HAL_PCD_DataInStageCallback epnum s =
     (if epnum = 0 then
        (if us_ep0_state s = EP0_DATA_IN \<and> us_ep0_rest s \<noteq> [] then
           (let rest = us_ep0_rest s; chunk = (if unat CDC_EP_MPS < length rest then unat CDC_EP_MPS else length rest)
            in pcd (EP_Transmit 0x80 (take chunk rest)) (s\<lparr>us_ep0_rest := drop chunk rest\<rparr>))
         else if us_ep0_state s = EP0_DATA_IN then ep0_status_out s
         else s)
      else if epnum AND 0x7F = CDC_EP_IN AND 0x7F then tx_kick (s\<lparr>us_tx_busy := False\<rparr>)
      else s)"

text \<open>\<open>data\<close> is what the host sent: the content of \<open>s_ep0_buf\<close>, or of \<open>s_rx_pkt\<close> up to the count the HAL reports.\<close>

definition HAL_PCD_DataOutStageCallback :: "u8 \<Rightarrow> u8 list \<Rightarrow> usb_port \<Rightarrow> usb_port" where
  "HAL_PCD_DataOutStageCallback epnum data s =
     (if epnum = 0 then
        (let buf = data @ drop (length data) (us_ep0_buf s); s = s\<lparr>us_ep0_buf := buf\<rparr>
         in if us_ep0_state s = EP0_DATA_OUT then ep0_status_in (s\<lparr>us_line_coding := take 7 buf\<rparr>) else s)
      else if epnum = CDC_EP_OUT AND 0x7F then
        rx_arm (s\<lparr>us_rx := foldl (br_store CDC_RX_RING) (us_rx s) (take (unat CDC_EP_MPS) data)\<rparr>)
      else s)"

definition HAL_PCD_ResetCallback :: "usb_port \<Rightarrow> usb_port" where
  "HAL_PCD_ResetCallback s =
     pcd (EP_Open 0x80 64 EP_TYPE_CTRL) (pcd (EP_Open 0x00 64 EP_TYPE_CTRL)
       (s\<lparr>us_configured := False, us_dtr := False, us_tx_busy := False, us_rx_paused := False, us_tx_last_len := 0, us_ep0_state := EP0_IDLE\<rparr>))"

definition HAL_PCD_SuspendCallback :: "usb_port \<Rightarrow> usb_port" where
  "HAL_PCD_SuspendCallback s = s\<lparr>us_dtr := False\<rparr>"

section \<open>The interface of the port\<close>

text \<open>\<open>init_ok\<close> and \<open>start_ok\<close> say what \<open>HAL_PCD_Init\<close> and \<open>HAL_PCD_Start\<close> return.\<close>

definition usb_cdc_init :: "bool \<Rightarrow> bool \<Rightarrow> usb_port \<Rightarrow> usb_port" where
  "usb_cdc_init init_ok start_ok s =
     (if \<not> init_ok then s\<lparr>us_ok := False\<rparr>
      else (foldl (\<lambda>s (ep, addr). pcd (PMAConfig ep addr) s) s
        [(0x00, 0x040), (0x80, 0x080), (CDC_EP_IN, 0x0C0), (CDC_EP_OUT, 0x100), (CDC_EP_CMD, 0x140)])\<lparr>us_ok := start_ok\<rparr>)"

definition usb_cdc_link_up :: "usb_port \<Rightarrow> bool" where
  "usb_cdc_link_up s \<longleftrightarrow> us_configured s \<and> us_dtr s"

fun br_drain :: "u32 \<Rightarrow> nat \<Rightarrow> byte_ring \<Rightarrow> u8 list \<times> byte_ring" where
  "br_drain n 0 q = ([], q)"
| "br_drain n (Suc cap) q = (if br_r q = br_w q then ([], q) else case br_drain n cap (br_pop n q) of (cs, q') \<Rightarrow> (br_front q # cs, q'))"

definition usb_cdc_read :: "nat \<Rightarrow> usb_port \<Rightarrow> u8 list \<times> usb_port" where
  "usb_cdc_read cap s =
     (case br_drain CDC_RX_RING cap (us_rx s) of (data, q) \<Rightarrow>
        let s = (if cap = 0 then s else s\<lparr>us_rx := q\<rparr>)
        in (data, if cap \<noteq> 0 \<and> us_rx_paused s \<and> us_ok s then rx_arm s else s))"

text \<open>The loop of \<open>usb_cdc_write\<close>: how many bytes were accepted.\<close>

fun write_bytes :: "u8 list \<Rightarrow> usb_port \<Rightarrow> nat \<times> usb_port" where
  "write_bytes [] s = (0, s)"
| "write_bytes (c # cs) s =
     (if 0 < tx_free s then (case write_bytes cs (s\<lparr>us_tx := br_store CDC_TX_RING (us_tx s) c\<rparr>) of (n, s) \<Rightarrow> (Suc n, s)) else (0, s))"

definition usb_cdc_write :: "u8 list \<Rightarrow> usb_port \<Rightarrow> nat \<times> usb_port" where
  "usb_cdc_write buf s =
     (if buf = [] then (0, s)
      else if \<not> us_ok s \<or> \<not> us_configured s then (0, s\<lparr>us_tx_dropped := us_tx_dropped s + of_nat (length buf)\<rparr>)
      else case write_bytes buf s of (n, s) \<Rightarrow>
        let s = (if n < length buf then s\<lparr>us_tx_dropped := us_tx_dropped s + of_nat (length buf - n)\<rparr> else s)
        in (n, if 0 < n then tx_kick s else s))"

end
