(* ===== verification/Usb_Props.thy ===== *)
theory Usb_Props
  imports Usb_Cdc
begin

text \<open>
  The port as two queues. The world of the port is its state with what passed through it: the bytes the host sent, those the main
  loop read and those it wrote. \<open>usb_step\<close> is one callback or one call of the main loop.

  Whether the peripheral accepts a packet on the bulk OUT endpoint follows from the calls of the ST driver the firmware is built with
  (STM32CubeF0 1.11.6, not part of the repository): \<open>HAL_PCD_EP_Receive\<close> and \<open>HAL_PCD_EP_ClrStall\<close> on it set the
  endpoint valid, \<open>HAL_PCD_EP_Close\<close> disables it, \<open>HAL_PCD_EP_Open\<close> leaves it at NAK. Older releases of the driver leave it
  valid there; that choice is the parameter \<open>ov\<close>, and everything below holds for both.
\<close>

section \<open>The rings\<close>

interpretation rx: octet_ring CDC_RX_RING
  by unfold_locales (simp_all add: CDC_RX_RING_def)

interpretation tx: octet_ring CDC_TX_RING
  by unfold_locales (simp_all add: CDC_TX_RING_def)

abbreviation rx_bytes :: "usb_port \<Rightarrow> u8 list" where "rx_bytes s \<equiv> br_contents CDC_RX_RING (us_rx s)"
abbreviation tx_bytes :: "usb_port \<Rightarrow> u8 list" where "tx_bytes s \<equiv> br_contents CDC_TX_RING (us_tx s)"

lemma ring_sizes: "unat CDC_RX_RING = 256" "unat CDC_TX_RING = 3072"
  by (simp_all add: CDC_RX_RING_def CDC_TX_RING_def)

lemma rx_free_unat: "br_ok CDC_RX_RING (us_rx s) \<Longrightarrow> unat (rx_free s) = 255 - length (rx_bytes s)"
  using rx.free_unat [of "us_rx s"] by (simp add: rx_free_def rx.contents_length ring_sizes)

lemma tx_free_unat: "br_ok CDC_TX_RING (us_tx s) \<Longrightarrow> unat (tx_free s) = 3071 - length (tx_bytes s)"
  using tx.free_unat [of "us_tx s"] by (simp add: tx_free_def tx.contents_length ring_sizes)

lemma tx_used_unat: "br_ok CDC_TX_RING (us_tx s) \<Longrightarrow> unat (tx_used s) = length (tx_bytes s)"
  using tx.used_unat [of "us_tx s"] by (simp add: tx_used_def tx.contents_length)

context octet_ring
begin

lemma take_front:
  "br_ok n q \<Longrightarrow> k \<le> length (br_contents n q) \<Longrightarrow> br_take n k q = (cs, q') \<Longrightarrow>
   br_ok n q' \<and> length cs = k \<and> br_contents n q = cs @ br_contents n q'"
proof (induction k arbitrary: q cs)
  case (Suc k)
  then have "br_contents n q \<noteq> []" by auto
  then have ne: "br_r q \<noteq> br_w q" using empty_iff [OF Suc.prems(1)] by simp
  obtain ds where d: "br_take n k (br_pop n q) = (ds, q')" "cs = br_front q # ds" using Suc.prems(3) by (auto split: prod.splits)
  show ?case using Suc.IH [OF pop_ok [OF Suc.prems(1)] _ d(1)] Suc.prems(2) pop_contents [OF Suc.prems(1) ne] d(2) by simp
qed simp

lemma drain_front:
  "br_ok n q \<Longrightarrow> br_drain n k q = (cs, q') \<Longrightarrow> br_ok n q' \<and> br_contents n q = cs @ br_contents n q'"
proof (induction k arbitrary: q cs)
  case (Suc k)
  show ?case
  proof (cases "br_r q = br_w q")
    case False
    then obtain ds where d: "br_drain n k (br_pop n q) = (ds, q')" "cs = br_front q # ds" using Suc.prems(2) by (auto split: prod.splits)
    show ?thesis using Suc.IH [OF pop_ok [OF Suc.prems(1)] d(1)] pop_contents [OF Suc.prems(1) False] d(2) by simp
  qed (use Suc.prems in simp)
qed simp

lemma store_all:
  "br_ok n q \<Longrightarrow> length (br_contents n q) + length cs \<le> unat n - 1 \<Longrightarrow>
   br_ok n (foldl (br_store n) q cs) \<and> br_contents n (foldl (br_store n) q cs) = br_contents n q @ cs"
proof (induction cs arbitrary: q)
  case (Cons c cs)
  have "br_contents n (br_store n q c) = br_contents n q @ [c]"
    using store_contents [OF Cons.prems(1)] Cons.prems(2) by (simp add: contents_length)
  then show ?case using Cons.IH [OF store_ok [OF Cons.prems(1)]] Cons.prems(2) by simp
qed simp

lemma stores_ok: "br_ok n q \<Longrightarrow> br_ok n (foldl (br_store n) q cs)"
  by (induction cs arbitrary: q) (simp_all add: store_ok)

end

section \<open>What a call leaves alone\<close>

text \<open>The payloads of the bulk packets that were handed to the peripheral, and whether a call makes it accept another one.\<close>

definition payloads :: "pcd_call list \<Rightarrow> u8 list list" where
  "payloads cs = concat (map (\<lambda>c. case c of EP_Transmit ep d \<Rightarrow> if ep = CDC_EP_IN then [d] else [] | _ \<Rightarrow> []) cs)"

definition arming :: "bool \<Rightarrow> pcd_call \<Rightarrow> bool" where
  "arming ov c \<longleftrightarrow> (case c of EP_Receive ep n \<Rightarrow> ep = CDC_EP_OUT | EP_ClrStall ep \<Rightarrow> ep AND 0x8F = CDC_EP_OUT
     | EP_Open ep m t \<Rightarrow> ov \<and> ep = CDC_EP_OUT | _ \<Rightarrow> False)"

definition arms :: "bool \<Rightarrow> pcd_call list \<Rightarrow> bool" where
  "arms ov cs \<longleftrightarrow> list_ex (arming ov) cs"

lemma payloads_append [simp]: "payloads (a @ b) = payloads a @ payloads b" "payloads [] = []"
  by (simp_all add: payloads_def)

lemma arms_append [simp]: "arms ov (a @ b) \<longleftrightarrow> arms ov a \<or> arms ov b" "\<not> arms ov []"
  by (auto simp: arms_def)

text \<open>
  \<open>smooth k ov s s'\<close>: from \<open>s\<close> to \<open>s'\<close> the reception ring and the count of dropped bytes stay; bytes leave the transmission
  ring only in order and as packets; and, if \<open>k\<close>, the peripheral is armed only with room for a packet.
\<close>

definition roomy :: "usb_port \<Rightarrow> bool" where
  "roomy s \<longleftrightarrow> length (rx_bytes s) \<le> 191"

definition smooth :: "bool \<Rightarrow> bool \<Rightarrow> usb_port \<Rightarrow> usb_port \<Rightarrow> bool" where
  "smooth k ov s s' \<longleftrightarrow> us_rx s' = us_rx s \<and> us_tx_dropped s' = us_tx_dropped s \<and>
     (br_ok CDC_RX_RING (us_rx s) \<and> br_ok CDC_TX_RING (us_tx s) \<longrightarrow>
        br_ok CDC_TX_RING (us_tx s') \<and>
        (\<exists>cs. us_calls s' = us_calls s @ cs \<and> (k \<and> arms ov cs \<longrightarrow> roomy s) \<and> list_all (\<lambda>p. length p \<le> 64) (payloads cs) \<and>
          tx_bytes s = concat (payloads cs) @ tx_bytes s'))"

lemma smooth_refl [simp]: "smooth k ov s s"
  by (auto simp: smooth_def intro: exI [of _ "[]"])

lemma smoothE:
  assumes "smooth k ov s t" "br_ok CDC_RX_RING (us_rx s)" "br_ok CDC_TX_RING (us_tx s)"
  obtains cs where "br_ok CDC_TX_RING (us_tx t)" "us_calls t = us_calls s @ cs" "k \<and> arms ov cs \<longrightarrow> roomy s"
    "list_all (\<lambda>p. length p \<le> 64) (payloads cs)" "tx_bytes s = concat (payloads cs) @ tx_bytes t"
  using assms unfolding smooth_def by blast

lemma smooth_sel: "smooth k ov s t \<Longrightarrow> us_rx t = us_rx s \<and> us_tx_dropped t = us_tx_dropped s"
  by (simp add: smooth_def)

lemma smooth_trans [trans]:
  assumes st: "smooth k ov s t" and tu: "smooth k ov t u"
  shows "smooth k ov s u"
proof -
  have e: "us_rx t = us_rx s" using smooth_sel [OF st] by simp
  have "br_ok CDC_TX_RING (us_tx u) \<and>
        (\<exists>cs. us_calls u = us_calls s @ cs \<and> (k \<and> arms ov cs \<longrightarrow> roomy s) \<and> list_all (\<lambda>p. length p \<le> 64) (payloads cs) \<and>
          tx_bytes s = concat (payloads cs) @ tx_bytes u)" if ok: "br_ok CDC_RX_RING (us_rx s)" "br_ok CDC_TX_RING (us_tx s)"
  proof -
    obtain cs where c: "br_ok CDC_TX_RING (us_tx t)" "us_calls t = us_calls s @ cs" "k \<and> arms ov cs \<longrightarrow> roomy s"
      "list_all (\<lambda>p. length p \<le> 64) (payloads cs)" "tx_bytes s = concat (payloads cs) @ tx_bytes t" using st ok by (rule smoothE)
    obtain ds where d: "br_ok CDC_TX_RING (us_tx u)" "us_calls u = us_calls t @ ds" "k \<and> arms ov ds \<longrightarrow> roomy t"
      "list_all (\<lambda>p. length p \<le> 64) (payloads ds)" "tx_bytes t = concat (payloads ds) @ tx_bytes u"
      using tu ok(1) [folded e] c(1) by (rule smoothE)
    have "roomy t = roomy s" by (simp add: roomy_def e)
    then show ?thesis using c d by (intro conjI exI [of _ "cs @ ds"]) auto
  qed
  then show ?thesis using smooth_sel [OF st] smooth_sel [OF tu] unfolding smooth_def by simp
qed

lemma smooth_frame [simp]:
  "smooth k ov s (t\<lparr>us_ok := b\<rparr>) = smooth k ov s t" "smooth k ov s (t\<lparr>us_configured := b\<rparr>) = smooth k ov s t"
  "smooth k ov s (t\<lparr>us_dtr := b\<rparr>) = smooth k ov s t" "smooth k ov s (t\<lparr>us_ep0_state := e\<rparr>) = smooth k ov s t"
  "smooth k ov s (t\<lparr>us_ep0_rest := l\<rparr>) = smooth k ov s t" "smooth k ov s (t\<lparr>us_ep0_buf := l\<rparr>) = smooth k ov s t"
  "smooth k ov s (t\<lparr>us_line_coding := l\<rparr>) = smooth k ov s t" "smooth k ov s (t\<lparr>us_rx_paused := b\<rparr>) = smooth k ov s t"
  "smooth k ov s (t\<lparr>us_tx_busy := b\<rparr>) = smooth k ov s t" "smooth k ov s (t\<lparr>us_tx_last_len := n\<rparr>) = smooth k ov s t"
  by (simp_all add: smooth_def)

definition control_call :: "pcd_call \<Rightarrow> bool" where
  "control_call c \<longleftrightarrow> \<not> arming True c \<and> payloads [c] = []"

lemma control_calls [simp]:
  "e \<noteq> CDC_EP_OUT \<Longrightarrow> control_call (EP_Open e m t)" "control_call (EP_Close e)" "control_call (EP_SetStall e)"
  "control_call (EP_Transmit 0x80 d)" "control_call (EP_Receive 0x00 n)" "control_call (SetAddress a)" "control_call (PMAConfig e p)"
  by (simp_all add: control_call_def arming_def payloads_def CDC_EP_OUT_def CDC_EP_IN_def)

text \<open>A call that may arm the endpoint needs room when \<open>k\<close> is asked for.\<close>

lemma smooth_call:
  assumes "payloads [c] = []" "k \<Longrightarrow> arming ov c \<Longrightarrow> roomy s" and st: "smooth k ov s t"
  shows "smooth k ov s (pcd c t)"
proof -
  have "smooth k ov t (pcd c t)"
    using assms(1,2) smooth_sel [OF st]
    by (auto simp: smooth_def pcd_def arms_def roomy_def intro!: exI [of _ "[c]"])
  with st show ?thesis by (rule smooth_trans)
qed

lemma smooth_pcd [simp]: "control_call c \<Longrightarrow> smooth k ov s t \<Longrightarrow> smooth k ov s (pcd c t)"
  by (rule smooth_call) (auto simp: control_call_def arming_def split: pcd_call.splits)

lemma out_calls: "payloads [EP_Open e m t] = []" "payloads [EP_ClrStall e] = []" "payloads [EP_Receive e n] = []"
  by (simp_all add: payloads_def)

lemma out_endpoints [simp]: "CDC_EP_IN \<noteq> CDC_EP_OUT" "CDC_EP_CMD \<noteq> CDC_EP_OUT" "(0x00 :: u8) \<noteq> CDC_EP_OUT" "(0x80 :: u8) \<noteq> CDC_EP_OUT"
  by (simp_all add: CDC_EP_IN_def CDC_EP_CMD_def CDC_EP_OUT_def)

lemma smooth_kick: "smooth k ov s (tx_kick s)"
proof -
  let ?k = "if CDC_EP_MPS < tx_used s then CDC_EP_MPS else tx_used s"
  obtain pkt q where t: "br_take CDC_TX_RING (unat ?k) (us_tx s) = (pkt, q)" by (metis prod.exhaust)
  have k: "unat ?k \<le> 64" by (auto simp: CDC_EP_MPS_def word_less_nat_alt)
  have "br_ok CDC_TX_RING (us_tx s) \<Longrightarrow> unat ?k \<le> length (tx_bytes s)" using tx_used_unat [of s] by (auto simp: word_less_nat_alt)
  note f = tx.take_front [OF _ this t]
  have p: "payloads [EP_Transmit CDC_EP_IN d] = [d]" "\<not> arms ov [EP_Transmit CDC_EP_IN d]" for d
    by (simp_all add: payloads_def arms_def arming_def)
  show ?thesis using f k
    by (auto simp: tx_kick_def Let_def t smooth_def pcd_def p simp del: br_take.simps
        intro: exI [of _ "[]"] exI [of _ "[EP_Transmit CDC_EP_IN []]"] exI [of _ "[EP_Transmit CDC_EP_IN pkt]"])
qed

lemma smooth_arm: "smooth k ov s (rx_arm s)"
proof -
  have "br_ok CDC_RX_RING (us_rx s) \<Longrightarrow> CDC_EP_MPS \<le> rx_free s \<Longrightarrow> roomy s"
    using rx_free_unat [of s] by (auto simp: CDC_EP_MPS_def word_le_nat_alt roomy_def)
  then show ?thesis
    by (auto simp: rx_arm_def smooth_def pcd_def out_calls intro: exI [of _ "[]"] exI [of _ "[EP_Receive CDC_EP_OUT CDC_EP_MPS]"])
qed

lemma smooth_steps [simp]: "smooth k ov s t \<Longrightarrow> smooth k ov s (tx_kick t)" "smooth k ov s t \<Longrightarrow> smooth k ov s (rx_arm t)"
  using smooth_kick smooth_arm smooth_trans by blast+

lemma smooth_ep0 [simp]:
  assumes "smooth k ov s t"
  shows "smooth k ov s (ep0_stall t)" "smooth k ov s (ep0_send src len wl t)" "smooth k ov s (ep0_status_in t)"
    "smooth k ov s (ep0_status_out t)" "smooth k ov s (reply_bytes bs wl t)"
  using assms by (simp_all add: ep0_stall_def ep0_send_def ep0_status_in_def ep0_status_out_def reply_bytes_def Let_def)

lemma smooth_text [simp]:
  assumes "smooth k ov s t"
  shows "smooth k ov s (snd (str_desc_ascii str t))" "smooth k ov s (snd (str_desc_serial uid t))"
  using assms by (simp_all add: str_desc_ascii_def str_desc_serial_def Let_def split: prod.split)

text \<open>The two control requests that may arm the endpoint without \<open>rx_arm\<close>: \<open>CLEAR_FEATURE(ENDPOINT_HALT)\<close> on it, and
  \<open>SET_CONFIGURATION(1)\<close> with a driver whose open leaves it valid.\<close>

definition clears_out :: "u8 list \<Rightarrow> bool" where
  "clears_out p \<longleftrightarrow> p ! 0 AND 0x60 = 0 \<and> p ! 1 = 0x01 \<and> p ! 0 AND 0x1F = 2 \<and> (ucast (le16 p 4) :: u8) AND 0x8F = CDC_EP_OUT"

definition opens_out :: "u8 list \<Rightarrow> bool" where
  "opens_out p \<longleftrightarrow> p ! 0 AND 0x60 = 0 \<and> p ! 1 = 0x09 \<and> le16 p 2 AND 0xFF = 1"

lemma smooth_setup:
  assumes "k \<Longrightarrow> clears_out packet \<or> ov \<and> opens_out packet \<Longrightarrow> roomy s"
  shows "smooth k ov s (HAL_PCD_SetupStageCallback uid packet s)"
proof -
  let ?bm = "packet ! 0" and ?req = "packet ! 1" and ?wv = "le16 packet 2" and ?wi = "le16 packet 4" and ?wl = "le16 packet 6"
  have c: "smooth k ov s (setup_set_configuration ?wv s)" if "?bm AND 0x60 = 0" "?req = 0x09"
  proof (cases "?wv AND 0xFF = 1")
    case True
    have "smooth k ov s (pcd (EP_Open CDC_EP_OUT CDC_EP_MPS EP_TYPE_BULK) s)"
      using assms that True by (intro smooth_call out_calls) (simp_all add: arming_def opens_out_def)
    then show ?thesis using True by (simp add: setup_set_configuration_def Let_def)
  qed (simp add: setup_set_configuration_def Let_def)
  have h: "smooth k ov s (pcd (EP_ClrStall (ucast ?wi)) s)" if "?bm AND 0x60 = 0" "?req = 0x01" "?bm AND 0x1F = 2"
    using assms that by (intro smooth_call out_calls) (simp_all add: arming_def clears_out_def)
  have d: "smooth k ov s (setup_get_descriptor uid wv wl s)" for wv wl by (simp add: setup_get_descriptor_def Let_def split_beta)
  have "smooth k ov s (setup_standard uid ?bm ?req ?wv ?wi ?wl s)" if "?bm AND 0x60 = 0"
    using c [OF that] h [OF that] by (simp add: setup_standard_def d)
  moreover have "smooth k ov s (setup_class bm req wv wl s)" for bm req wv wl by (simp add: setup_class_def)
  ultimately show ?thesis by (simp add: HAL_PCD_SetupStageCallback_def Let_def)
qed

lemma smooth_callbacks:
  "smooth k ov s (HAL_PCD_DataInStageCallback ep s)" "smooth k ov s (HAL_PCD_DataOutStageCallback 0 data s)"
  "smooth k ov s (HAL_PCD_ResetCallback s)" "smooth k ov s (HAL_PCD_SuspendCallback s)" "smooth k ov s (usb_cdc_init a b s)"
  by (simp_all add: HAL_PCD_DataInStageCallback_def HAL_PCD_DataOutStageCallback_def HAL_PCD_ResetCallback_def
      HAL_PCD_SuspendCallback_def usb_cdc_init_def Let_def)

section \<open>Whether the port listens\<close>

text \<open>Whether the endpoint accepts a packet, after some calls.\<close>

definition armed_after :: "bool \<Rightarrow> pcd_call list \<Rightarrow> bool \<Rightarrow> bool" where
  "armed_after ov cs a = foldl (\<lambda>a c. case c of EP_Receive ep n \<Rightarrow> a \<or> ep = CDC_EP_OUT
     | EP_ClrStall ep \<Rightarrow> a \<or> ep AND 0x8F = CDC_EP_OUT
     | EP_Open ep m t \<Rightarrow> if ep = CDC_EP_OUT then ov else a
     | EP_Close ep \<Rightarrow> a \<and> ep \<noteq> CDC_EP_OUT | _ \<Rightarrow> a) a cs"

lemma armed_append [simp]: "armed_after ov (cs @ ds) a = armed_after ov ds (armed_after ov cs a)" "armed_after ov [] a = a"
  by (simp_all add: armed_after_def)

lemma armed_arms: "armed_after ov cs a \<Longrightarrow> a \<or> arms ov cs"
proof (induction cs rule: rev_induct)
  case (snoc c cs)
  then show ?case by (cases c) (auto simp: armed_after_def arms_def arming_def split: if_splits)
qed simp

definition extends :: "usb_port \<Rightarrow> usb_port \<Rightarrow> bool" where
  "extends s t \<longleftrightarrow> (\<exists>cs. us_calls t = us_calls s @ cs)"

definition listens :: "bool \<Rightarrow> usb_port \<Rightarrow> bool" where
  "listens a s \<longleftrightarrow> us_configured s \<longrightarrow> us_rx_paused s \<or> a"

definition flows :: "bool \<Rightarrow> usb_port \<Rightarrow> usb_port \<Rightarrow> bool" where
  "flows ov s t \<longleftrightarrow> (\<exists>cs. us_calls t = us_calls s @ cs \<and> (\<forall>a. listens a s \<longrightarrow> listens (armed_after ov cs a) t))"

lemma extends_refl [simp]: "extends s s" and flows_refl [simp]: "flows ov s s"
  by (auto simp: extends_def flows_def intro: exI [of _ "[]"])

lemma flows_extends: "flows ov s t \<Longrightarrow> extends s t"
  by (auto simp: flows_def extends_def)

lemma extends_trans [trans]: "extends s t \<Longrightarrow> extends t u \<Longrightarrow> extends s u"
  by (auto simp: extends_def)

lemma flows_trans [trans]: "flows ov s t \<Longrightarrow> flows ov t u \<Longrightarrow> flows ov s u"
  unfolding flows_def
proof (elim exE conjE)
  fix cs ds
  assume "us_calls t = us_calls s @ cs" "\<forall>a. listens a s \<longrightarrow> listens (armed_after ov cs a) t"
    "us_calls u = us_calls t @ ds" "\<forall>a. listens a t \<longrightarrow> listens (armed_after ov ds a) u"
  then show "\<exists>cs. us_calls u = us_calls s @ cs \<and> (\<forall>a. listens a s \<longrightarrow> listens (armed_after ov cs a) u)"
    by (intro exI [of _ "cs @ ds"]) simp
qed

lemma flows_frame [simp]:
  "flows ov s (t\<lparr>us_ok := b\<rparr>) = flows ov s t" "flows ov s (t\<lparr>us_dtr := b\<rparr>) = flows ov s t"
  "flows ov s (t\<lparr>us_ep0_state := e\<rparr>) = flows ov s t" "flows ov s (t\<lparr>us_ep0_rest := l\<rparr>) = flows ov s t" "flows ov s (t\<lparr>us_ep0_buf := l\<rparr>) = flows ov s t"
  "flows ov s (t\<lparr>us_line_coding := l\<rparr>) = flows ov s t" "flows ov s (t\<lparr>us_tx_busy := b\<rparr>) = flows ov s t" "flows ov s (t\<lparr>us_tx_last_len := n\<rparr>) = flows ov s t"
  "flows ov s (t\<lparr>us_tx := q\<rparr>) = flows ov s t" "flows ov s (t\<lparr>us_rx := q\<rparr>) = flows ov s t" "flows ov s (t\<lparr>us_tx_dropped := d\<rparr>) = flows ov s t"
  by (simp_all add: flows_def listens_def)

lemma extends_frame [simp]:
  "extends s (t\<lparr>us_configured := b\<rparr>) = extends s t" "extends s (t\<lparr>us_tx_busy := b\<rparr>) = extends s t" "extends s (t\<lparr>us_tx_last_len := n\<rparr>) = extends s t"
  "extends s (t\<lparr>us_dtr := b\<rparr>) = extends s t" "extends s (t\<lparr>us_rx := q\<rparr>) = extends s t" "extends s (t\<lparr>us_rx_paused := b\<rparr>) = extends s t"
  "extends s (t\<lparr>us_ep0_state := e\<rparr>) = extends s t"
  by (simp_all add: extends_def)

lemma extends_pcd [simp]: "extends s t \<Longrightarrow> extends s (pcd c t)"
  by (auto simp: extends_def pcd_def)

lemma flows_pcd [simp]: "(\<And>e. c \<noteq> EP_Close e) \<Longrightarrow> (\<And>m ty. c \<noteq> EP_Open CDC_EP_OUT m ty) \<Longrightarrow> flows ov s t \<Longrightarrow> flows ov s (pcd c t)"
  by (rule flows_trans, assumption, cases c)
    (auto simp: flows_def listens_def pcd_def armed_after_def intro: exI [of _ "[c]"])

text \<open>An armed port listens, whatever came before; a port without a configuration need not.\<close>

lemma flows_arm [simp]: "extends s t \<Longrightarrow> flows ov s (rx_arm t)"
proof -
  assume "extends s t"
  then obtain cs where "us_calls t = us_calls s @ cs" by (auto simp: extends_def)
  then show ?thesis
    by (auto simp: rx_arm_def flows_def listens_def pcd_def armed_after_def
        intro: exI [of _ "cs @ [EP_Receive CDC_EP_OUT CDC_EP_MPS]"] exI [of _ cs])
qed

lemma flows_unconfigured: "extends s t \<Longrightarrow> \<not> us_configured t \<Longrightarrow> flows ov s t"
  by (auto simp: extends_def flows_def listens_def)

lemma flows_kick [simp]: "flows ov s t \<Longrightarrow> flows ov s (tx_kick t)"
  by (rule flows_trans, assumption) (simp add: tx_kick_def Let_def split: prod.split)

lemma flows_ep0 [simp]:
  assumes "flows ov s t"
  shows "flows ov s (ep0_stall t)" "flows ov s (ep0_send src len wl t)" "flows ov s (ep0_status_in t)" "flows ov s (ep0_status_out t)"
    "flows ov s (reply_bytes bs wl t)"
  using assms by (simp_all add: ep0_stall_def ep0_send_def ep0_status_in_def ep0_status_out_def reply_bytes_def Let_def)

lemma flows_text [simp]:
  assumes "flows ov s t"
  shows "flows ov s (snd (str_desc_ascii str t))" "flows ov s (snd (str_desc_serial uid t))"
  using assms by (simp_all add: str_desc_ascii_def str_desc_serial_def Let_def split: prod.split)

lemma flows_setup: "flows ov s (HAL_PCD_SetupStageCallback uid setup s)"
proof -
  have "flows ov s (pcd (EP_Close CDC_EP_CMD) (pcd (EP_Close CDC_EP_IN) (pcd (EP_Close CDC_EP_OUT) (s\<lparr>us_configured := False, us_dtr := False\<rparr>))))"
    by (rule flows_unconfigured) (simp_all add: pcd_def extends_def)
  then have c: "flows ov s (setup_set_configuration wv s)" for wv by (simp add: setup_set_configuration_def Let_def)
  have d: "flows ov s (setup_get_descriptor uid wv wl s)" for wv wl by (simp add: setup_get_descriptor_def Let_def split_beta)
  have "flows ov s (setup_standard uid bm req wv wi wl s)" for bm req wv wi wl by (simp add: setup_standard_def c d)
  moreover have "flows ov s (setup_class bm req wv wl s)" for bm req wv wl by (simp add: setup_class_def)
  ultimately show ?thesis by (simp add: HAL_PCD_SetupStageCallback_def Let_def)
qed

lemma flows_callbacks:
  "flows ov s (HAL_PCD_DataInStageCallback ep s)" "flows ov s (HAL_PCD_DataOutStageCallback 0 data s)"
  "flows ov s (HAL_PCD_ResetCallback s)" "flows ov s (HAL_PCD_SuspendCallback s)"
  by (simp_all add: HAL_PCD_DataInStageCallback_def HAL_PCD_DataOutStageCallback_def HAL_PCD_ResetCallback_def
      HAL_PCD_SuspendCallback_def Let_def flows_unconfigured)

section \<open>Data\<close>

lemma data_out_port:
  "HAL_PCD_DataOutStageCallback (CDC_EP_OUT AND 0x7F) data s =
     rx_arm (s\<lparr>us_rx := foldl (br_store CDC_RX_RING) (us_rx s) (take 64 data)\<rparr>)"
  by (simp add: HAL_PCD_DataOutStageCallback_def CDC_EP_OUT_def CDC_EP_MPS_def)

lemma data_out_stored:
  assumes "br_ok CDC_RX_RING (us_rx s)" "length (rx_bytes s) \<le> 191" "length data \<le> 64"
    and "t = s\<lparr>us_rx := foldl (br_store CDC_RX_RING) (us_rx s) (take 64 data)\<rparr>"
  shows "br_ok CDC_RX_RING (us_rx t)" "rx_bytes t = rx_bytes s @ data"
  using rx.store_all [OF assms(1), of data] assms(2,3) by (simp_all add: assms(4) ring_sizes)

lemma data_out_flows: "flows ov s (rx_arm (s\<lparr>us_rx := q\<rparr>))"
  by simp

lemma read_port:
  assumes "usb_cdc_read cap s = (data, u)" "br_ok CDC_RX_RING (us_rx s)"
  obtains t where "u = (if cap \<noteq> 0 \<and> us_rx_paused s \<and> us_ok s then rx_arm t else t)" "\<exists>q. t = s\<lparr>us_rx := q\<rparr>"
    "br_ok CDC_RX_RING (us_rx t)" "rx_bytes s = data @ rx_bytes t"
proof -
  obtain cs q where d: "br_drain CDC_RX_RING cap (us_rx s) = (cs, q)" by (metis prod.exhaust)
  note f = rx.drain_front [OF assms(2) d]
  show thesis
  proof (cases "cap = 0")
    case True
    then show thesis using assms d by (intro that [of s]) (auto simp: usb_cdc_read_def intro: exI [of _ "us_rx s"])
  next
    case False
    then show thesis using assms d f by (intro that [of "s\<lparr>us_rx := q\<rparr>"]) (auto simp: usb_cdc_read_def Let_def)
  qed
qed

lemma drain_length: "br_ok CDC_RX_RING q \<Longrightarrow> br_drain CDC_RX_RING cap q = (cs, q') \<Longrightarrow>
    length (br_contents CDC_RX_RING q') = length (br_contents CDC_RX_RING q) - cap"
proof (induction cap arbitrary: q cs)
  case (Suc k)
  show ?case
  proof (cases "br_r q = br_w q")
    case True
    then show ?thesis using Suc.prems rx.empty_iff [OF Suc.prems(1)] by simp
  next
    case False
    then obtain ds where d: "br_drain CDC_RX_RING k (br_pop CDC_RX_RING q) = (ds, q')" using Suc.prems(2) by (auto split: prod.splits)
    show ?thesis using Suc.IH [OF rx.pop_ok [OF Suc.prems(1)] d] rx.pop_contents [OF Suc.prems(1) False] by simp
  qed
qed simp

lemma write_stored:
  "br_ok CDC_TX_RING (us_tx s) \<Longrightarrow> write_bytes buf s = (n, t) \<Longrightarrow>
   (\<exists>q. t = s\<lparr>us_tx := q\<rparr>) \<and> br_ok CDC_TX_RING (us_tx t) \<and> tx_bytes t = tx_bytes s @ take n buf \<and> n \<le> length buf \<and>
   n = min (length buf) (3071 - length (tx_bytes s))"
proof (induction buf arbitrary: s n)
  case Nil
  then show ?case by (auto intro: exI [of _ "us_tx s"])
next
  case (Cons c cs)
  note u = tx_free_unat [OF Cons.prems(1)]
  show ?case
  proof (cases "0 < tx_free s")
    case False
    then have "unat (tx_free s) = 0" by (simp add: word_gt_0)
    then show ?thesis using False Cons.prems u by (auto intro: exI [of _ "us_tx s"])
  next
    case True
    then have f: "length (tx_bytes s) < 3071" using u by (simp add: word_less_nat_alt)
    let ?s = "s\<lparr>us_tx := br_store CDC_TX_RING (us_tx s) c\<rparr>"
    have ok: "br_ok CDC_TX_RING (us_tx ?s)" using tx.store_ok [OF Cons.prems(1)] by simp
    have b: "tx_bytes ?s = tx_bytes s @ [c]" using tx.store_contents [OF Cons.prems(1)] f by (simp add: tx.contents_length ring_sizes)
    obtain k where k: "write_bytes cs ?s = (k, t)" "n = Suc k" using True Cons.prems(2) by (auto split: prod.splits)
    show ?thesis using Cons.IH [OF ok k(1)] b f k(2) by auto
  qed
qed

text \<open>While there is room a write is taken whole. \<open>tx_stream\<close> is all that was taken since the port started.\<close>

definition tx_stream :: "usb_port \<Rightarrow> u8 list" where
  "tx_stream s = concat (payloads (us_calls s)) @ tx_bytes s"

definition tx_ready :: "usb_port \<Rightarrow> nat \<Rightarrow> bool" where
  "tx_ready s n \<longleftrightarrow> br_ok CDC_RX_RING (us_rx s) \<and> br_ok CDC_TX_RING (us_tx s) \<and> us_ok s \<and> us_configured s \<and> length (tx_bytes s) + n \<le> 3071"

lemma kick_sel [simp]: "us_ok (tx_kick s) = us_ok s" "us_configured (tx_kick s) = us_configured s"
  by (simp_all add: tx_kick_def Let_def pcd_def split: prod.split)

lemma write_whole:
  assumes "tx_ready s (length buf + m)"
  shows "tx_ready (snd (usb_cdc_write buf s)) m \<and> tx_stream (snd (usb_cdc_write buf s)) = tx_stream s @ buf \<and>
    us_tx_dropped (snd (usb_cdc_write buf s)) = us_tx_dropped s"
proof (cases "buf = []")
  case True
  then show ?thesis using assms by (simp add: usb_cdc_write_def)
next
  case False
  obtain n t where b: "write_bytes buf s = (n, t)" by (metis prod.exhaust)
  have r: "br_ok CDC_TX_RING (us_tx s)" "us_ok s" "us_configured s" "length (tx_bytes s) + length buf + m \<le> 3071"
    using assms by (simp_all add: tx_ready_def)
  note w = write_stored [OF r(1) b]
  have n: "n = length buf" using w r(4) by simp
  then have u: "snd (usb_cdc_write buf s) = tx_kick t" using False b r by (simp add: usb_cdc_write_def Let_def)
  obtain q where t: "t = s\<lparr>us_tx := q\<rparr>" using w by blast
  have k: "br_ok CDC_RX_RING (us_rx t)" "br_ok CDC_TX_RING (us_tx t)" "tx_bytes t = tx_bytes s @ buf" "us_calls t = us_calls s"
    using w t n assms by (simp_all add: tx_ready_def)
  have m: "smooth False False t (tx_kick t)" by simp
  then obtain cs where "br_ok CDC_TX_RING (us_tx (tx_kick t))" "us_calls (tx_kick t) = us_calls s @ cs"
    "tx_bytes s @ buf = concat (payloads cs) @ tx_bytes (tx_kick t)" "us_rx (tx_kick t) = us_rx t" "us_tx_dropped (tx_kick t) = us_tx_dropped t"
    using k unfolding smooth_def by auto
  note c = this
  have "length (tx_bytes (tx_kick t)) \<le> length (tx_bytes s @ buf)" unfolding c(3) by simp
  then have "length (tx_bytes (tx_kick t)) + m \<le> 3071" using r(4) by simp
  then have "tx_ready (tx_kick t) m" using c(1,4) r k(1) t by (simp add: tx_ready_def)
  moreover have "tx_stream (tx_kick t) = tx_stream s @ buf" using c(2,3) by (simp add: tx_stream_def)
  moreover have "us_tx_dropped (tx_kick t) = us_tx_dropped s" using c(5) t by simp
  ultimately show ?thesis by (simp add: u)
qed

lemma writes_whole:
  "tx_ready s (length (concat bufs)) \<Longrightarrow> us_tx_dropped (foldl (\<lambda>s buf. snd (usb_cdc_write buf s)) s bufs) = us_tx_dropped s \<and>
    tx_stream (foldl (\<lambda>s buf. snd (usb_cdc_write buf s)) s bufs) = tx_stream s @ concat bufs"
proof (induction bufs arbitrary: s)
  case (Cons b bufs)
  then show ?case using write_whole [of s b "length (concat bufs)"] by simp
qed simp

section \<open>The world of the port\<close>

text \<open>
  \<open>uw_armed\<close> is whether the peripheral accepts a packet, which a USB reset may end. \<open>uw_received\<close> is what the host sent,
  \<open>uw_read\<close> and \<open>uw_written\<close> what the main loop got and what it could store of what it wrote, \<open>uw_offered\<close> how much it wrote.
\<close>

record usb_world =
  uw_port :: usb_port
  uw_armed :: bool
  uw_received :: "u8 list"
  uw_read :: "u8 list"
  uw_offered :: nat
  uw_written :: "u8 list"

definition becomes :: "bool \<Rightarrow> usb_world \<Rightarrow> usb_port \<Rightarrow> usb_world" where
  "becomes ov w s = w\<lparr>uw_port := s, uw_armed := armed_after ov (drop (length (us_calls (uw_port w))) (us_calls s)) (uw_armed w)\<rparr>"

text \<open>A host is polite if it does not send the two requests that arm the endpoint without a test for room
  while the ring has no room for a packet.\<close>

definition polite_setup :: "bool \<Rightarrow> u8 list \<Rightarrow> usb_port \<Rightarrow> bool" where
  "polite_setup ov packet s \<longleftrightarrow> (clears_out packet \<or> ov \<and> opens_out packet \<longrightarrow> 64 \<le> unat (rx_free s))"

inductive usb_step :: "bool \<Rightarrow> bool \<Rightarrow> u32 list \<Rightarrow> usb_world \<Rightarrow> usb_world \<Rightarrow> bool" for ov polite :: bool and uid :: "u32 list" where
  control_setup: "(polite \<longrightarrow> polite_setup ov packet (uw_port w)) \<Longrightarrow>
    usb_step ov polite uid w (becomes ov w (HAL_PCD_SetupStageCallback uid packet (uw_port w)))"
| data_in: "usb_step ov polite uid w (becomes ov w (HAL_PCD_DataInStageCallback ep (uw_port w)))"
| control_out: "usb_step ov polite uid w (becomes ov w (HAL_PCD_DataOutStageCallback 0 data (uw_port w)))"
| data_out: "uw_armed w \<Longrightarrow> length data \<le> 64 \<Longrightarrow>
    usb_step ov polite uid w (becomes ov (w\<lparr>uw_armed := False, uw_received := uw_received w @ data\<rparr>)
      (HAL_PCD_DataOutStageCallback (CDC_EP_OUT AND 0x7F) data (uw_port w)))"
| reset: "armed \<longrightarrow> uw_armed w \<Longrightarrow>
    usb_step ov polite uid w (becomes ov (w\<lparr>uw_armed := armed\<rparr>) (HAL_PCD_ResetCallback (uw_port w)))"
| suspend: "usb_step ov polite uid w (becomes ov w (HAL_PCD_SuspendCallback (uw_port w)))"
| read: "usb_cdc_read cap (uw_port w) = (data, s) \<Longrightarrow> usb_step ov polite uid w ((becomes ov w s)\<lparr>uw_read := uw_read w @ data\<rparr>)"
| written: "usb_cdc_write buf (uw_port w) = (n, s) \<Longrightarrow>
    usb_step ov polite uid w ((becomes ov w s)\<lparr>uw_offered := uw_offered w + length buf, uw_written := uw_written w @ take n buf\<rparr>)"

definition usb_start :: "bool \<Rightarrow> bool \<Rightarrow> usb_world" where
  "usb_start init_ok start_ok = \<lparr>uw_port = usb_cdc_init init_ok start_ok usb_reset_state, uw_armed = False, uw_received = [], uw_read = [],
     uw_offered = 0, uw_written = []\<rparr>"

text \<open>What every step keeps; the order of reception and the room behind an armed endpoint if the host is polite.\<close>

definition port_sound :: "bool \<Rightarrow> usb_world \<Rightarrow> bool" where
  "port_sound polite w \<longleftrightarrow> (let s = uw_port w in
     br_ok CDC_RX_RING (us_rx s) \<and> br_ok CDC_TX_RING (us_tx s) \<and> listens (uw_armed w) s \<and>
     (polite \<longrightarrow> (uw_armed w \<longrightarrow> roomy s) \<and> uw_received w = uw_read w @ rx_bytes s) \<and>
     uw_written w = concat (payloads (us_calls s)) @ tx_bytes s \<and>
     list_all (\<lambda>p. length p \<le> 64) (payloads (us_calls s)) \<and>
     us_tx_dropped s + of_nat (length (uw_written w)) = of_nat (uw_offered w))"

lemma becomes_sel [simp]: "uw_port (becomes ov w s) = s" "uw_received (becomes ov w s) = uw_received w" "uw_read (becomes ov w s) = uw_read w"
  "uw_written (becomes ov w s) = uw_written w" "uw_offered (becomes ov w s) = uw_offered w"
  by (simp_all add: becomes_def)

lemma armed_room:
  assumes "smooth True ov s t" "br_ok CDC_RX_RING (us_rx s)" "br_ok CDC_TX_RING (us_tx s)" "uw_armed w \<longrightarrow> roomy s"
    "us_calls (uw_port w) = us_calls s" "uw_armed (becomes ov w t)"
  shows "roomy t"
proof -
  obtain cs where cs: "us_calls t = us_calls s @ cs" "arms ov cs \<longrightarrow> roomy s" "us_rx t = us_rx s" using assms(1-3) by (auto simp: smooth_def)
  have "armed_after ov cs (uw_armed w)" using assms(5,6) cs(1) by (simp add: becomes_def)
  from armed_arms [OF this] show ?thesis using assms(4) cs(2,3) by (auto simp: roomy_def)
qed

lemma armed_listens:
  assumes "flows ov s t" "listens (uw_armed w) s" "us_calls (uw_port w) = us_calls s"
  shows "listens (uw_armed (becomes ov w t)) t"
  using assms by (auto simp: flows_def becomes_def)

text \<open>A step that changes the rings and then calls the peripheral: \<open>v\<close> is the state in between.\<close>

lemma sound_via:
  assumes "smooth polite ov v s" "listens (uw_armed (becomes ov w s)) s" "us_calls (uw_port w) = us_calls v"
    and "br_ok CDC_RX_RING (us_rx v)" "br_ok CDC_TX_RING (us_tx v)" "polite \<Longrightarrow> uw_armed w \<longrightarrow> roomy v"
    and "uw_port x = s" "uw_armed x = uw_armed (becomes ov w s)" "polite \<Longrightarrow> uw_received x = uw_read x @ rx_bytes v"
      "uw_written x = concat (payloads (us_calls v)) @ tx_bytes v" "list_all (\<lambda>p. length p \<le> 64) (payloads (us_calls v))"
      "us_tx_dropped v + of_nat (length (uw_written x)) = of_nat (uw_offered x)"
  shows "port_sound polite x"
proof -
  have s: "us_rx s = us_rx v" "us_tx_dropped s = us_tx_dropped v" using assms(1) by (simp_all add: smooth_def)
  obtain cs where c: "br_ok CDC_TX_RING (us_tx s)" "us_calls s = us_calls v @ cs" "list_all (\<lambda>p. length p \<le> 64) (payloads cs)"
    "tx_bytes v = concat (payloads cs) @ tx_bytes s" using assms(1,4,5) by (auto simp: smooth_def)
  have "uw_armed x \<longrightarrow> roomy s" if polite
    using armed_room [of ov v s w] assms(1,3,4,5,6,8) that by simp
  moreover have "uw_written x = concat (payloads (us_calls s)) @ tx_bytes s" using assms(10) c by simp
  moreover have "listens (uw_armed x) s" using assms(2,8) by simp
  ultimately show ?thesis unfolding port_sound_def Let_def assms(7) s using assms(4,9,11,12) c by simp
qed

lemma sound_parts:
  assumes "port_sound polite w"
  shows "br_ok CDC_RX_RING (us_rx (uw_port w))" "br_ok CDC_TX_RING (us_tx (uw_port w))" "listens (uw_armed w) (uw_port w)"
    "polite \<Longrightarrow> uw_armed w \<longrightarrow> roomy (uw_port w)" "polite \<Longrightarrow> uw_received w = uw_read w @ rx_bytes (uw_port w)"
    "uw_written w = concat (payloads (us_calls (uw_port w))) @ tx_bytes (uw_port w)"
    "list_all (\<lambda>p. length p \<le> 64) (payloads (us_calls (uw_port w)))"
    "us_tx_dropped (uw_port w) + of_nat (length (uw_written w)) = of_nat (uw_offered w)"
  using assms unfolding port_sound_def Let_def by blast+

lemma smooth_sound:
  "port_sound polite w \<Longrightarrow> smooth polite ov (uw_port w) s \<Longrightarrow> flows ov (uw_port w) s \<Longrightarrow> port_sound polite (becomes ov w s)"
  using sound_parts [of polite w] armed_listens [of ov "uw_port w" s w]
  by (intro sound_via [of polite ov "uw_port w" s w]) simp_all

lemma arm_listens: "us_calls (uw_port w) = us_calls t \<Longrightarrow> listens (uw_armed (becomes ov w (rx_arm t))) (rx_arm t)"
  by (simp add: becomes_def listens_def rx_arm_def pcd_def armed_after_def)

lemma setup_sound:
  assumes "port_sound polite w" "polite \<longrightarrow> polite_setup ov packet (uw_port w)"
  shows "port_sound polite (becomes ov w (HAL_PCD_SetupStageCallback uid packet (uw_port w)))"
proof -
  have "roomy (uw_port w)" if "64 \<le> unat (rx_free (uw_port w))"
    using that rx_free_unat [OF sound_parts(1) [OF assms(1)]] by (simp add: roomy_def)
  then have "smooth polite ov (uw_port w) (HAL_PCD_SetupStageCallback uid packet (uw_port w))"
    using assms(2) by (intro smooth_setup) (simp add: polite_setup_def)
  then show ?thesis using assms(1) by (simp add: smooth_sound flows_setup)
qed

lemma data_out_sound:
  assumes "port_sound polite w" "uw_armed w" "length data \<le> 64"
  shows "port_sound polite (becomes ov (w\<lparr>uw_armed := False, uw_received := uw_received w @ data\<rparr>)
    (HAL_PCD_DataOutStageCallback (CDC_EP_OUT AND 0x7F) data (uw_port w)))"
proof -
  let ?s = "uw_port w" and ?w = "w\<lparr>uw_armed := False, uw_received := uw_received w @ data\<rparr>"
  define t where "t = ?s\<lparr>us_rx := foldl (br_store CDC_RX_RING) (us_rx ?s) (take 64 data)\<rparr>"
  note i = sound_parts [OF assms(1)]
  have ok: "br_ok CDC_RX_RING (us_rx t)" using rx.stores_ok [OF i(1)] by (simp add: t_def)
  have d: "rx_bytes t = rx_bytes ?s @ data" if polite
    using data_out_stored [OF i(1) _ assms(3) t_def] i(4) assms(2) that by (simp add: roomy_def)
  have f: "us_tx t = us_tx ?s" "us_calls t = us_calls ?s" "us_tx_dropped t = us_tx_dropped ?s" by (simp_all add: t_def)
  show ?thesis unfolding data_out_port t_def [symmetric]
    by (rule sound_via [OF smooth_arm [of polite ov t] arm_listens [of ?w t]]) (use i ok d f in simp_all)
qed

lemma read_sound:
  assumes "port_sound polite w" "usb_cdc_read cap (uw_port w) = (data, s)"
  shows "port_sound polite ((becomes ov w s)\<lparr>uw_read := uw_read w @ data\<rparr>)"
proof -
  let ?s = "uw_port w"
  note i = sound_parts [OF assms(1)]
  obtain t where t: "s = (if cap \<noteq> 0 \<and> us_rx_paused ?s \<and> us_ok ?s then rx_arm t else t)" "\<exists>q. t = ?s\<lparr>us_rx := q\<rparr>"
    "br_ok CDC_RX_RING (us_rx t)" "rx_bytes ?s = data @ rx_bytes t" by (rule read_port [OF assms(2) i(1)])
  have f: "us_tx t = us_tx ?s" "us_calls t = us_calls ?s" "us_tx_dropped t = us_tx_dropped ?s" "flows ov ?s t" "extends ?s t"
    using t(2) by auto
  have m: "smooth polite ov t s" "flows ov ?s s" using t(1) f(4,5) smooth_arm by auto
  have "length (rx_bytes t) \<le> length (rx_bytes ?s)" by (simp add: t(4))
  then have r: "uw_armed w \<longrightarrow> roomy t" if polite using i(4) that by (auto simp: roomy_def)
  have l: "listens (uw_armed (becomes ov w s)) s" using armed_listens [OF m(2)] i(3) by simp
  show ?thesis by (rule sound_via [OF m(1) l]) (use i t(3,4) f r in simp_all)
qed

lemma written_sound:
  assumes "port_sound polite w" "usb_cdc_write buf (uw_port w) = (n, s)"
  shows "port_sound polite ((becomes ov w s)\<lparr>uw_offered := uw_offered w + length buf, uw_written := uw_written w @ take n buf\<rparr>)"
proof -
  let ?s = "uw_port w"
  note i = sound_parts [OF assms(1)]
  obtain k t where b: "write_bytes buf ?s = (k, t)" by (metis prod.exhaust)
  note k = write_stored [OF i(2) b]
  then obtain q where q: "t = ?s\<lparr>us_tx := q\<rparr>" by blast
  have u: "\<exists>v. n \<le> length buf \<and> smooth polite ov v s \<and> flows ov ?s s \<and> us_rx v = us_rx ?s \<and> us_calls v = us_calls ?s \<and>
      br_ok CDC_TX_RING (us_tx v) \<and> tx_bytes v = tx_bytes ?s @ take n buf \<and> us_tx_dropped v = us_tx_dropped ?s + of_nat (length buf - n)"
  proof (cases "buf = [] \<or> \<not> us_ok ?s \<or> \<not> us_configured ?s")
    case True
    then show ?thesis using assms(2) i(2)
      by (intro exI [of _ "?s\<lparr>us_tx_dropped := us_tx_dropped ?s + of_nat (length buf - n)\<rparr>"])
        (auto simp: usb_cdc_write_def split: if_splits)
  next
    case False
    then show ?thesis using assms(2) k b q
      by (intro exI [of _ "t\<lparr>us_tx_dropped := us_tx_dropped ?s + of_nat (length buf - k)\<rparr>"])
        (auto simp: usb_cdc_write_def Let_def smooth_kick split: if_splits)
  qed
  then obtain v where v: "n \<le> length buf" "smooth polite ov v s" "flows ov ?s s" "us_rx v = us_rx ?s" "us_calls v = us_calls ?s"
    "br_ok CDC_TX_RING (us_tx v)" "tx_bytes v = tx_bytes ?s @ take n buf" "us_tx_dropped v = us_tx_dropped ?s + of_nat (length buf - n)"
    by blast
  have "of_nat (length buf - n) + of_nat n = (of_nat (length buf) :: u32)" using v(1) by (metis le_add_diff_inverse2 of_nat_add)
  then have d: "us_tx_dropped v + of_nat (length (uw_written w @ take n buf)) = (us_tx_dropped ?s + of_nat (length (uw_written w))) + of_nat (length buf)"
    using v(1,8) by (simp add: algebra_simps)
  have l: "listens (uw_armed (becomes ov w s)) s" using armed_listens [OF v(3)] i(3) by simp
  have r: "uw_armed w \<longrightarrow> roomy v" if polite using i(4) that v(4) by (simp add: roomy_def)
  show ?thesis
    by (rule sound_via [OF v(2) l]) (use i v d r in simp_all)
qed

lemma step_port_sound: "usb_step ov polite uid w w' \<Longrightarrow> port_sound polite w \<Longrightarrow> port_sound polite w'"
proof (induction rule: usb_step.induct)
  case (reset armed w)
  have "listens a (HAL_PCD_ResetCallback t)" for a t by (simp add: listens_def HAL_PCD_ResetCallback_def pcd_def)
  then show ?case using sound_parts [OF reset.prems] reset.hyps
    by (intro sound_via [OF smooth_callbacks(3)]) (simp_all del: length_concat)
qed (simp_all add: setup_sound smooth_sound smooth_callbacks flows_callbacks data_out_sound read_sound written_sound)

lemma start_sound: "port_sound polite (usb_start init_ok start_ok)"
proof -
  have z: "br_ok CDC_RX_RING (us_rx usb_reset_state)" "br_ok CDC_TX_RING (us_tx usb_reset_state)" "rx_bytes usb_reset_state = []"
    "tx_bytes usb_reset_state = []" "us_calls usb_reset_state = []" "us_tx_dropped usb_reset_state = 0"
    by (simp_all add: usb_reset_state_def rx.empty_ok tx.empty_ok)
  let ?w = "(usb_start init_ok start_ok)\<lparr>uw_port := usb_reset_state\<rparr>"
  have "\<not> us_configured (usb_cdc_init init_ok start_ok usb_reset_state)" by (simp add: usb_cdc_init_def usb_reset_state_def pcd_def)
  then have l: "listens a (usb_cdc_init init_ok start_ok usb_reset_state)" for a by (simp add: listens_def)
  have "\<not> uw_armed (becomes ov ?w (usb_cdc_init init_ok start_ok usb_reset_state))" for ov
    by (simp add: becomes_def usb_start_def usb_cdc_init_def z pcd_def armed_after_def)
  then show ?thesis using z
    by (intro sound_via [where ov = False, OF smooth_callbacks(5) l, where w = ?w]) (simp_all add: usb_start_def)
qed

lemma runs_sound: "(usb_step ov polite uid)\<^sup>*\<^sup>* (usb_start init_ok start_ok) w \<Longrightarrow> port_sound polite w"
  by (induction rule: rtranclp_induct) (simp_all add: start_sound step_port_sound)

section \<open>Properties\<close>

text \<open>C33 (safety). With a polite host, one that does not clear the halt of endpoint 0x01 while the ring has no room for a packet
  (nor, if the driver's open leaves the endpoint valid, selects the configuration then), the port loses, repeats and reorders
  nothing of what the host sends: after any sequence of SETUP packets, transfers, resets, suspensions, reads and
  writes, the bytes received are the bytes read followed by those in the ring, though the interrupt stores a
  packet without a test for room; and the endpoint is armed only while the ring has room for a packet of 64 bytes.\<close>

theorem usb_receives_in_order:
  assumes "(usb_step ov True uid)\<^sup>*\<^sup>* (usb_start init_ok start_ok) w"
  shows "uw_received w = uw_read w @ br_contents CDC_RX_RING (us_rx (uw_port w)) \<and>
    (uw_armed w \<longrightarrow> 64 \<le> unat (rx_free (uw_port w)))"
proof -
  note p = sound_parts [OF runs_sound [OF assms]]
  show ?thesis using p(4,5) rx_free_unat [OF p(1)] by (auto simp: roomy_def)
qed

text \<open>C34 (safety). What the main loop writes leaves in order, once: the bytes the ring took are the payloads of the bulk packets handed to
  the peripheral, each of at most 64 bytes, followed by the content of the ring; every byte it did not take
  is counted in \<open>s_tx_dropped\<close> (modulo \<open>2^32\<close>). The host need not be polite.\<close>

theorem usb_sends_in_order:
  assumes "(usb_step ov polite uid)\<^sup>*\<^sup>* (usb_start init_ok start_ok) w"
  shows "uw_written w = concat (payloads (us_calls (uw_port w))) @ br_contents CDC_TX_RING (us_tx (uw_port w)) \<and>
    list_all (\<lambda>p. length p \<le> 64) (payloads (us_calls (uw_port w))) \<and>
    us_tx_dropped (uw_port w) + of_nat (length (uw_written w)) = of_nat (uw_offered w)"
  using sound_parts(6-8) [OF runs_sound [OF assms]] by (intro conjI)

text \<open>C35 (liveness). Reception never stalls: while the port is configured, one read of at least 64 bytes, the size \<open>config_poll\<close> uses, leaves
  the endpoint armed, whatever came before: if a full ring had paused reception, the read makes room for a
  packet and resumes it. The host need not be polite.\<close>

theorem usb_reception_resumes:
  assumes "(usb_step ov polite uid)\<^sup>*\<^sup>* (usb_start init_ok start_ok) w" "us_configured (uw_port w)" "us_ok (uw_port w)"
    and "64 \<le> cap" "usb_cdc_read cap (uw_port w) = (data, s)"
  shows "uw_armed (becomes ov w s)"
proof -
  let ?s = "uw_port w"
  note p = sound_parts [OF runs_sound [OF assms(1)]]
  obtain cs q where d: "br_drain CDC_RX_RING cap (us_rx ?s) = (cs, q)" by (metis prod.exhaust)
  have s: "s = (if us_rx_paused ?s then rx_arm (?s\<lparr>us_rx := q\<rparr>) else ?s\<lparr>us_rx := q\<rparr>)"
    using assms(3-5) d by (auto simp: usb_cdc_read_def Let_def)
  show ?thesis
  proof (cases "us_rx_paused ?s")
    case True
    have "br_ok CDC_RX_RING q" using rx.drain_front [OF p(1) d] by blast
    then have "unat (rx_free (?s\<lparr>us_rx := q\<rparr>)) = 255 - length (br_contents CDC_RX_RING q)" using rx_free_unat [of "?s\<lparr>us_rx := q\<rparr>"] by simp
    moreover have "length (br_contents CDC_RX_RING (us_rx ?s)) \<le> 255" using rx.count_le by (simp add: rx.contents_length ring_sizes)
    ultimately have "CDC_EP_MPS \<le> rx_free (?s\<lparr>us_rx := q\<rparr>)"
      using drain_length [OF p(1) d] assms(4) by (simp add: word_le_nat_alt CDC_EP_MPS_def)
    then show ?thesis using True by (simp add: s becomes_def rx_arm_def pcd_def armed_after_def)
  next
    case False
    then show ?thesis using p(3) assms(2) by (simp add: s becomes_def listens_def)
  qed
qed

section \<open>A host that connects\<close>

text \<open>\<open>SET_CONFIGURATION(1)\<close> on the port as it starts.\<close>

definition sample_configured :: usb_world where
  "sample_configured = becomes False (usb_start True True) (HAL_PCD_SetupStageCallback [] [0, 9, 1, 0, 0, 0, 0, 0] (uw_port (usb_start True True)))"

lemma configured_run: "(usb_step False polite [])\<^sup>*\<^sup>* (usb_start True True) sample_configured"
  unfolding sample_configured_def by (rule r_into_rtranclp, rule usb_step.control_setup) (simp add: polite_setup_def clears_out_def)

lemma configured_state:
  "us_configured (uw_port sample_configured)" "us_ok (uw_port sample_configured)" "uw_armed sample_configured"
  "uw_received sample_configured = []" "uw_read sample_configured = []" "uw_written sample_configured = []"
  "rx_bytes (uw_port sample_configured) = []" "tx_bytes (uw_port sample_configured) = []"
proof -
  note d = sample_configured_def becomes_def usb_start_def HAL_PCD_SetupStageCallback_def setup_standard_def setup_set_configuration_def le16_def
    ep0_status_in_def tx_kick_def rx_arm_def pcd_def usb_cdc_init_def usb_reset_state_def tx_used_def rx_free_def br_free_def br_used_def br_empty_def
    Let_def CDC_RX_RING_def CDC_TX_RING_def CDC_EP_MPS_def armed_after_def CDC_EP_OUT_def CDC_EP_IN_def CDC_EP_CMD_def CDC_CMD_MPS_def
  show "us_configured (uw_port sample_configured)" "us_ok (uw_port sample_configured)" "uw_armed sample_configured"
    "uw_received sample_configured = []" "uw_read sample_configured = []" "uw_written sample_configured = []"
    by (simp_all add: d)
  have p: "port_sound True sample_configured" by (rule runs_sound [OF configured_run])
  show "rx_bytes (uw_port sample_configured) = []" "tx_bytes (uw_port sample_configured) = []"
    using sound_parts(5,6) [OF p] \<open>uw_received sample_configured = []\<close> \<open>uw_written sample_configured = []\<close> by simp_all
qed

theorem usb_receives_in_order_witness:
  "\<exists>w. (usb_step False True [])\<^sup>*\<^sup>* (usb_start True True) w \<and> uw_received w = [65, 66] \<and>
    uw_read w @ br_contents CDC_RX_RING (us_rx (uw_port w)) = [65, 66]"
proof -
  let ?w = "becomes False (sample_configured\<lparr>uw_armed := False, uw_received := uw_received sample_configured @ [65, 66]\<rparr>)
    (HAL_PCD_DataOutStageCallback (CDC_EP_OUT AND 0x7F) [65, 66] (uw_port sample_configured))"
  have r: "(usb_step False True [])\<^sup>*\<^sup>* (usb_start True True) ?w"
    by (rule rtranclp.rtrancl_into_rtrancl [OF configured_run], rule usb_step.data_out) (simp_all add: configured_state)
  have "uw_received ?w = [65, 66]" by (simp add: configured_state)
  then show ?thesis using r usb_receives_in_order [OF r] by (intro exI [of _ ?w]) simp
qed

theorem usb_sends_in_order_witness:
  "\<exists>w. (usb_step False True [])\<^sup>*\<^sup>* (usb_start True True) w \<and> uw_written w = [65] \<and>
    concat (payloads (us_calls (uw_port w))) @ br_contents CDC_TX_RING (us_tx (uw_port w)) = [65]"
proof -
  let ?c = sample_configured
  obtain n s where u: "usb_cdc_write [65] (uw_port ?c) = (n, s)" by (metis prod.exhaust)
  obtain k t where b: "write_bytes [65] (uw_port ?c) = (k, t)" by (metis prod.exhaust)
  have "k = 1" using write_stored [OF sound_parts(2) [OF runs_sound [OF configured_run [of True]]] b] by (simp add: configured_state)
  then have n: "n = 1" using u b by (simp add: usb_cdc_write_def configured_state Let_def del: write_bytes.simps)
  define w where "w = (becomes False ?c s)\<lparr>uw_offered := uw_offered ?c + length [65 :: u8], uw_written := uw_written ?c @ take n [65]\<rparr>"
  have r: "(usb_step False True [])\<^sup>*\<^sup>* (usb_start True True) w" unfolding w_def
    by (rule rtranclp.rtrancl_into_rtrancl [OF configured_run], rule usb_step.written [OF u])
  have e: "uw_written w = [65]" by (simp add: w_def configured_state n)
  have "concat (payloads (us_calls (uw_port w))) @ br_contents CDC_TX_RING (us_tx (uw_port w)) = [65]"
    using usb_sends_in_order [OF r] by (simp only: e)
  then show ?thesis using r e by blast
qed

theorem usb_reception_resumes_witness: "uw_armed (becomes False sample_configured (snd (usb_cdc_read 64 (uw_port sample_configured))))"
  by (rule usb_reception_resumes [OF configured_run [of True] configured_state(1,2) order_refl surjective_pairing])

section \<open>A host that is not polite\<close>

text \<open>One full packet from the host.\<close>

definition feed :: "usb_world \<Rightarrow> usb_world" where
  "feed w = becomes False (w\<lparr>uw_armed := False, uw_received := uw_received w @ replicate 64 65\<rparr>)
     (HAL_PCD_DataOutStageCallback (CDC_EP_OUT AND 0x7F) (replicate 64 65) (uw_port w))"

lemma feed_step: "uw_armed w \<Longrightarrow> usb_step False polite uid w (feed w)"
  unfolding feed_def by (rule usb_step.data_out) simp_all

lemma arm_rx [simp]: "us_rx (rx_arm s) = us_rx s"
  by (simp add: rx_arm_def pcd_def)

lemma feed_read [simp]: "uw_read (feed w) = uw_read w" "uw_received (feed w) = uw_received w @ replicate 64 65"
  by (simp_all add: feed_def)

lemma feed_room:
  assumes "br_ok CDC_RX_RING (us_rx (uw_port w))" "length (rx_bytes (uw_port w)) \<le> 191"
  shows "br_ok CDC_RX_RING (us_rx (uw_port (feed w)))" "length (rx_bytes (uw_port (feed w))) = length (rx_bytes (uw_port w)) + 64"
    "uw_armed (feed w) \<longleftrightarrow> length (rx_bytes (uw_port w)) \<le> 127"
proof -
  define t where "t = (uw_port w)\<lparr>us_rx := foldl (br_store CDC_RX_RING) (us_rx (uw_port w)) (take 64 (replicate 64 65))\<rparr>"
  note d = data_out_stored [OF assms _ t_def]
  have f: "uw_port (feed w) = rx_arm t" by (simp add: feed_def data_out_port t_def)
  show "br_ok CDC_RX_RING (us_rx (uw_port (feed w)))" "length (rx_bytes (uw_port (feed w))) = length (rx_bytes (uw_port w)) + 64"
    using d by (simp_all add: f)
  have "CDC_EP_MPS \<le> rx_free t \<longleftrightarrow> length (rx_bytes (uw_port w)) \<le> 127"
    using rx_free_unat [of t] d assms(2) by (auto simp: word_le_nat_alt CDC_EP_MPS_def)
  moreover have "uw_armed (feed w) \<longleftrightarrow> CDC_EP_MPS \<le> rx_free t"
    by (simp add: feed_def data_out_port t_def [symmetric] becomes_def rx_arm_def pcd_def armed_after_def) (simp add: t_def)
  ultimately show "uw_armed (feed w) \<longleftrightarrow> length (rx_bytes (uw_port w)) \<le> 127" by simp
qed

definition halt_cleared :: "usb_world \<Rightarrow> usb_world" where
  "halt_cleared w = becomes False w (HAL_PCD_SetupStageCallback [] [0x02, 0x01, 0, 0, 0x01, 0, 0, 0] (uw_port w))"

lemma halt_cleared_effect: "uw_armed (halt_cleared w)" "us_rx (uw_port (halt_cleared w)) = us_rx (uw_port w)"
  "uw_read (halt_cleared w) = uw_read w" "uw_received (halt_cleared w) = uw_received w"
  by (simp_all add: halt_cleared_def becomes_def HAL_PCD_SetupStageCallback_def setup_standard_def le16_def ep0_status_in_def
      pcd_def armed_after_def CDC_EP_OUT_def Let_def)

text \<open>Three full packets pause the reception with 63 bytes of room; \<open>CLEAR_FEATURE(ENDPOINT_HALT)\<close> on endpoint 0x01
  arms it all the same, and the next packet overruns the ring and received bytes are lost.\<close>

theorem clear_halt_overruns:
  "\<exists>w w'. (usb_step False False [])\<^sup>*\<^sup>* (usb_start True True) w \<and> uw_armed w \<and> unat (rx_free (uw_port w)) < 64 \<and>
     usb_step False False [] w w' \<and> uw_received w' \<noteq> uw_read w' @ br_contents CDC_RX_RING (us_rx (uw_port w'))"
proof -
  let ?c = sample_configured
  let ?w3 = "feed (feed (feed ?c))"
  note c = sound_parts(1) [OF runs_sound [OF configured_run [of True]]] configured_state(3,4,5,7)
  have r1: "br_ok CDC_RX_RING (us_rx (uw_port (feed ?c)))" "length (rx_bytes (uw_port (feed ?c))) = 64" "uw_armed (feed ?c)"
    using feed_room [of ?c] c by simp_all
  have r2: "br_ok CDC_RX_RING (us_rx (uw_port (feed (feed ?c))))" "length (rx_bytes (uw_port (feed (feed ?c)))) = 128" "uw_armed (feed (feed ?c))"
    using feed_room [of "feed ?c"] r1 by simp_all
  have r3: "br_ok CDC_RX_RING (us_rx (uw_port ?w3))" "length (rx_bytes (uw_port ?w3)) = 192"
    using feed_room [of "feed (feed ?c)"] r2 by simp_all
  have run3: "(usb_step False False [])\<^sup>*\<^sup>* (usb_start True True) ?w3"
    using rtranclp.rtrancl_into_rtrancl [OF rtranclp.rtrancl_into_rtrancl [OF rtranclp.rtrancl_into_rtrancl
      [OF configured_run feed_step [OF c(2)]] feed_step [OF r1(3)]] feed_step [OF r2(3)]] .
  moreover have "usb_step False False [] ?w3 (halt_cleared ?w3)" unfolding halt_cleared_def by (rule usb_step.control_setup) simp
  ultimately have run: "(usb_step False False [])\<^sup>*\<^sup>* (usb_start True True) (halt_cleared ?w3)" by (rule rtranclp.rtrancl_into_rtrancl)
  have a: "uw_armed (halt_cleared ?w3)" by (rule halt_cleared_effect)
  have f: "unat (rx_free (uw_port (halt_cleared ?w3))) < 64"
    using rx_free_unat [of "uw_port (halt_cleared ?w3)"] r3 by (simp add: halt_cleared_effect)
  let ?w4 = "feed (halt_cleared ?w3)"
  have "length (br_contents CDC_RX_RING (us_rx (uw_port ?w4))) \<le> 255" using rx.count_le by (simp add: rx.contents_length ring_sizes)
  moreover have "length (uw_received ?w4) = 256" "uw_read ?w4 = []" using c by (simp_all add: halt_cleared_effect)
  moreover have "xs \<noteq> rs @ ys" if "length ys \<le> 255" "length xs = 256" "rs = []" for xs rs ys :: "u8 list" using that by auto
  ultimately have "uw_received ?w4 \<noteq> uw_read ?w4 @ br_contents CDC_RX_RING (us_rx (uw_port ?w4))" by blast
  then show ?thesis using run a f feed_step [OF a] by blast
qed

end
