(* ===== verification/Msg_Host.thy ===== *)
theory Msg_Host
  imports Msg_Export Usb_Props Err_Budget
begin

text \<open>
  The message layer bound to the firmware: the host of \<open>Core/Src/config_protocol.c\<close>, the byte stream of
  \<open>cfg_stream.c\<close> over the USB port, and the telemetry pump of \<open>telem_stream.c\<close>. The state of the application is what these
  files share: the configuration owner, the port, the two statics of the pump, and the values the diagnostic getters of
  the other modules read (\<open>diag_src\<close>), with the tick of the HAL among them.
\<close>

section \<open>State\<close>

datatype reset_cause_t = RESET_CAUSE_POR | RESET_CAUSE_PIN | RESET_CAUSE_SOFTWARE | RESET_CAUSE_IWDG | RESET_CAUSE_WWDG
  | RESET_CAUSE_LOWPOWER | RESET_CAUSE_OBL

datatype integrity_crc_status_t = INTEGRITY_CRC_OK | INTEGRITY_CRC_MISMATCH | INTEGRITY_CRC_UNPATCHED | INTEGRITY_CRC_UNAVAILABLE

record diag_src =
  ds_tick :: u32
  ds_reset_cause_count :: "reset_cause_t \<Rightarrow> u32"
  ds_reset_cause :: u32
  ds_boot_count :: u32
  ds_record_count :: u8
  ds_newest_record :: "(u16 \<times> u32) option"
  ds_crc_status :: integrity_crc_status_t
  ds_stack_used_max :: u32
  ds_stack_free_min :: u32
  ds_errb :: errb_table
  ds_safe_state_entries :: u32
  ds_bus_off_count :: u32
  ds_can_tx_dropped :: u32
  ds_running_on_hse :: bool

record 'd app =
  ap_owner :: "'d owner"
  ap_usb :: usb_port
  ap_tlm :: ctrl_telemetry_t
  ap_next_ms :: u32
  ap_diag :: diag_src

section \<open>The byte stream\<close>

definition cfg_proto_rx :: "nat \<Rightarrow> usb_port \<Rightarrow> u8 list \<times> usb_port" where
  "cfg_proto_rx cap u = usb_cdc_read cap u"

definition cfg_proto_tx :: "usb_port \<Rightarrow> u8 list \<Rightarrow> usb_port" where
  "cfg_proto_tx u buf = snd (usb_cdc_write buf u)"

section \<open>The telemetry pump\<close>

definition TELEM_PERIOD_MS :: u32 where "TELEM_PERIOD_MS = 1000"
definition TELEM_CRC_UNAVAILABLE :: u8 where "TELEM_CRC_UNAVAILABLE = 3"

primrec crc_to_wire :: "integrity_crc_status_t \<Rightarrow> u8" where
  "crc_to_wire INTEGRITY_CRC_OK = TELEM_CRC_OK"
| "crc_to_wire INTEGRITY_CRC_MISMATCH = TELEM_CRC_MISMATCH"
| "crc_to_wire INTEGRITY_CRC_UNPATCHED = TELEM_CRC_UNPATCHED"
| "crc_to_wire INTEGRITY_CRC_UNAVAILABLE = TELEM_CRC_UNAVAILABLE"

definition CAUSES :: "reset_cause_t list" where
  "CAUSES = [RESET_CAUSE_POR, RESET_CAUSE_PIN, RESET_CAUSE_SOFTWARE, RESET_CAUSE_IWDG, RESET_CAUSE_WWDG, RESET_CAUSE_LOWPOWER, RESET_CAUSE_OBL]"

definition telem_diag :: "diag_src \<Rightarrow> telem_diag_t" where
  "telem_diag s =
     \<lparr>di_uptime_ms = ds_tick s, di_reset_counts = map (ds_reset_cause_count s) CAUSES, di_reset_cause_bits = ds_reset_cause s,
      di_boot_count = ds_boot_count s, di_crash_count = ds_record_count s,
      di_last_crash_kind = (case ds_newest_record s of None \<Rightarrow> 0 | Some (kind, pc) \<Rightarrow> kind),
      di_last_crash_pc = (case ds_newest_record s of None \<Rightarrow> 0 | Some (kind, pc) \<Rightarrow> pc),
      di_crc_status = crc_to_wire (ds_crc_status s), di_stack_used_max = ds_stack_used_max s, di_stack_free_min = ds_stack_free_min s,
      di_errb_fault_mask = errb_fault_mask (ds_errb s), di_errb_reinits = map (\<lambda>i. eb_reinits (ds_errb s ! i)) [0..<TELEM_ERRB_COUNT],
      di_safe_state_entries = ds_safe_state_entries s, di_can_bus_off_count = ds_bus_off_count s,
      di_can_tx_dropped_count = ds_can_tx_dropped s, di_clk_hse_fail = (\<not> ds_running_on_hse s)\<rparr>"

definition telem_emit :: "'d app \<Rightarrow> 'd app" where
  "telem_emit a = a\<lparr>ap_usb := snd (telem_json_line 128 (Some cfg_proto_tx) (ap_usb a) (ap_tlm a) (telem_diag (ap_diag a)))\<rparr>"

definition telem_stream_update :: "ctrl_telemetry_t \<Rightarrow> 'd app \<Rightarrow> 'd app" where
  "telem_stream_update t a = a\<lparr>ap_tlm := t\<rparr>"

definition telem_stream_poll :: "'d app \<Rightarrow> 'd app" where
  "telem_stream_poll a =
     (let now = ds_tick (ap_diag a) in
      if \<not> usb_cdc_link_up (ap_usb a) then a\<lparr>ap_next_ms := now + TELEM_PERIOD_MS\<rparr>
      else if 0 \<le> sint (now - ap_next_ms a) then telem_emit (a\<lparr>ap_next_ms := now + TELEM_PERIOD_MS\<rparr>)
      else a)"

definition telem_stream_send_now :: "'d app \<Rightarrow> 'd app" where
  "telem_stream_send_now a = telem_emit a"

section \<open>The host of the protocol\<close>

definition FW_VERSION_STRING :: "u8 list" where "FW_VERSION_STRING = text_bytes ''0.1.0-dev''"

definition config_host_get :: "'d app \<Rightarrow> ctrl_config_t option" where
  "config_host_get a = Some (ow_cfg (ap_owner a))"

definition host_save :: "'d store_read \<Rightarrow> 'd store_write \<Rightarrow> 'd app \<Rightarrow> ctrl_config_t \<Rightarrow> bool \<times> u32 option \<times> 'd app" where
  "host_save rd wt a cfg = (case config_host_save rd wt (ap_owner a) cfg of (ok, gen, w) \<Rightarrow> (ok, gen, a\<lparr>ap_owner := w\<rparr>))"

definition config_host_tx :: "'d app \<Rightarrow> u8 list \<Rightarrow> 'd app" where
  "config_host_tx a data = a\<lparr>ap_usb := cfg_proto_tx (ap_usb a) data\<rparr>"

definition config_host_telem :: "'d app \<Rightarrow> 'd app" where
  "config_host_telem a = telem_stream_send_now a"

text \<open>\<open>git\<close> is \<open>FW_GIT_HASH\<close>, which the build supplies.\<close>

definition config_host :: "u8 list \<Rightarrow> 'd store_read \<Rightarrow> 'd store_write \<Rightarrow> 'd app cfg_msg_host_t" where
  "config_host git rd wt = \<lparr>ho_get = Some config_host_get, ho_save = Some (host_save rd wt), ho_tx = Some config_host_tx,
     ho_fw = Some FW_VERSION_STRING, ho_git = Some git, ho_telem = Some config_host_telem\<rparr>"

text \<open>The configuration part of the boot: \<open>config_init\<close> to its end. \<open>zero\<close> is the zeroed scratch.\<close>

definition config_boot :: "u8 list \<Rightarrow> 'd store_read \<Rightarrow> 'd store_write \<Rightarrow> ctrl_config_t \<Rightarrow> ctrl_config_t \<Rightarrow> 'd app \<Rightarrow> 'd app cfg_msg_t" where
  "config_boot git rd wt zero stored0 a = cfg_msg_init (config_host git rd wt) zero (a\<lparr>ap_owner := config_init rd stored0 (ap_owner a)\<rparr>)"

definition CONFIG_POLL_CHUNKS :: nat where "CONFIG_POLL_CHUNKS = 4"
definition CONFIG_POLL_BYTES :: nat where "CONFIG_POLL_BYTES = 64"

fun poll_chunks :: "nat \<Rightarrow> 'd app cfg_msg_t \<Rightarrow> 'd app cfg_msg_t" where
  "poll_chunks 0 m = m"
| "poll_chunks (Suc i) m =
     (case cfg_proto_rx CONFIG_POLL_BYTES (ap_usb (ms_world m)) of (data, u) \<Rightarrow>
        let m = m\<lparr>ms_world := (ms_world m)\<lparr>ap_usb := u\<rparr>\<rparr> in
        if data = [] then m else poll_chunks i (cfg_msg_rx m data))"

definition config_poll :: "'d app cfg_msg_t \<Rightarrow> 'd app cfg_msg_t" where
  "config_poll m = poll_chunks CONFIG_POLL_CHUNKS m"

section \<open>The running configuration\<close>

definition config_sound :: "'d app \<Rightarrow> bool" where
  "config_sound a \<longleftrightarrow> owner_ok (ap_owner a) \<and> cfg_wf (ow_cfg (ap_owner a))"

lemma sound_frame [simp]:
  "config_sound (a\<lparr>ap_usb := u\<rparr>) = config_sound a" "config_sound (a\<lparr>ap_tlm := t\<rparr>) = config_sound a"
  "config_sound (a\<lparr>ap_next_ms := n\<rparr>) = config_sound a" "config_sound (a\<lparr>ap_diag := d\<rparr>) = config_sound a"
  by (simp_all add: config_sound_def)

lemma emit_sound [simp]: "config_sound (telem_emit a) = config_sound a"
  by (simp add: telem_emit_def)

lemma save_sound:
  assumes "config_sound a" "length (cfg_profiles cfg) = CFG_PROFILE_COUNT" "fst (ctrl_config_validate cfg) = CFG_OK"
  shows "config_sound (snd (snd (host_save rd wt a cfg)))"
proof -
  obtain ok gen w where s: "config_host_save rd wt (ap_owner a) cfg = (ok, gen, w)" by (metis prod.exhaust)
  show ?thesis using save_cases [OF s] assms
    by (cases ok) (simp_all add: host_save_def s config_sound_def owner_ok_def cfg_wf_def)
qed

interpretation app: msg_host "config_host git rd wt" config_host_get "host_save rd wt" config_host_tx config_host_telem config_sound
  for git rd wt
proof
  show "ho_get (config_host git rd wt) = Some config_host_get" "ho_save (config_host git rd wt) = Some (host_save rd wt)"
    "ho_tx (config_host git rd wt) = Some config_host_tx" "ho_telem (config_host git rd wt) = Some config_host_telem"
    by (simp_all add: config_host_def)
  fix h :: "'a app"
  assume h: "config_sound h"
  show "config_sound (config_host_tx h s)" for s using h by (simp add: config_host_tx_def)
  show "config_sound (config_host_telem h)" using h by (simp add: config_host_telem_def telem_stream_send_now_def)
  show "length (cfg_profiles live) = CFG_PROFILE_COUNT" if "config_host_get h = Some live" for live
    using that h by (auto simp: config_host_get_def config_sound_def cfg_wf_def)
  show "config_sound (snd (snd (host_save rd wt h cfg)))"
    if "length (cfg_profiles cfg) = CFG_PROFILE_COUNT" "fst (ctrl_config_validate cfg) = CFG_OK" for cfg
    using save_sound [OF h that] .
qed

lemma decode_profiles_length: "length (fst (decode_profiles n r)) = n"
  by (induction n arbitrary: r) (auto simp: Let_def split_beta)

lemma decode_wf: "cfg_decode buf out g = (CFG_DEC_OK, c, g') \<Longrightarrow> cfg_wf c"
  using decode_profiles_length [of CFG_PROFILE_COUNT]
  by (auto simp: cfg_decode_def decode_payload_def cfg_wf_def split_beta Let_def split: if_splits)

lemma load_slot_wf: "(la_found (fst acc) \<longrightarrow> cfg_wf (la_out (fst acc))) \<Longrightarrow>
    la_found (fst (load_slot rd acc slot)) \<longrightarrow> cfg_wf (la_out (fst (load_slot rd acc slot)))"
  by (auto simp: load_slot_def Let_def split: prod.splits option.splits if_splits dest: decode_wf)

lemma load_wf: "cfg_store_load rd st out d = (CFG_STORE_OK, st', c, d') \<Longrightarrow> cfg_wf c"
proof -
  let ?z = "(\<lparr>la_any_read = False, la_found = False, la_best_gen = 0, la_best_slot = 0, la_out = out\<rparr>, d)"
  assume "cfg_store_load rd st out d = (CFG_STORE_OK, st', c, d')"
  then have "la_found (fst (foldl (load_slot rd) ?z [0, 1]))" "c = la_out (fst (foldl (load_slot rd) ?z [0, 1]))"
    by (auto simp: cfg_store_load_def split: prod.splits if_splits)
  moreover have "la_found (fst (foldl (load_slot rd) ?z [0, 1])) \<longrightarrow> cfg_wf (la_out (fst (foldl (load_slot rd) ?z [0, 1])))"
    by (simp del: load_acc.simps) (intro load_slot_wf, simp)
  ultimately show ?thesis by simp
qed

lemma boot_wf: "cfg_wf (ow_cfg (config_init rd s0 w))"
  using sample_base(1) by (auto simp: config_init_def config_load_persisted_def Let_def dest: load_wf split: prod.splits if_splits)

lemma boot_sound: "config_sound (ms_world (config_boot git rd wt zero s0 a))"
  by (simp add: config_boot_def cfg_msg_init_def config_sound_def init_ok boot_wf)

lemma poll_sound:
  "ms_host m = config_host git rd wt \<Longrightarrow> config_sound (ms_world m) \<Longrightarrow>
   ms_host (poll_chunks n m) = config_host git rd wt \<and> config_sound (ms_world (poll_chunks n m))"
proof (induction n arbitrary: m)
  case (Suc n)
  obtain data u where r: "cfg_proto_rx CONFIG_POLL_BYTES (ap_usb (ms_world m)) = (data, u)" by (metis prod.exhaust)
  let ?m = "m\<lparr>ms_world := (ms_world m)\<lparr>ap_usb := u\<rparr>\<rparr>"
  have "ms_host (cfg_msg_rx ?m data) = config_host git rd wt \<and> config_sound (ms_world (cfg_msg_rx ?m data))"
    using app.rx_keeps [of ?m git rd wt data] Suc.prems by simp
  then show ?case using Suc.IH [of "cfg_msg_rx ?m data"] Suc.prems r by (simp add: Let_def)
qed simp

text \<open>
  What the main loop and the interrupts do to this state: polls of the protocol and of the pump, a new snapshot, anything the
  USB interrupt makes of the port, and any change of what the getters read.
\<close>

inductive app_step :: "'d app cfg_msg_t \<Rightarrow> 'd app cfg_msg_t \<Rightarrow> bool" where
  polled: "app_step m (config_poll m)"
| pumped: "app_step m (m\<lparr>ms_world := telem_stream_poll (ms_world m)\<rparr>)"
| updated: "app_step m (m\<lparr>ms_world := telem_stream_update t (ms_world m)\<rparr>)"
| interrupted: "app_step m (m\<lparr>ms_world := (ms_world m)\<lparr>ap_usb := u\<rparr>\<rparr>)"
| elapsed: "app_step m (m\<lparr>ms_world := (ms_world m)\<lparr>ap_diag := d\<rparr>\<rparr>)"

lemma step_sound:
  "app_step m m' \<Longrightarrow> ms_host m = config_host git rd wt \<Longrightarrow> config_sound (ms_world m) \<Longrightarrow>
   ms_host m' = config_host git rd wt \<and> config_sound (ms_world m')"
proof (induction rule: app_step.induct)
  case (polled m)
  then show ?case using poll_sound unfolding config_poll_def by blast
qed (simp_all add: telem_stream_poll_def telem_stream_update_def Let_def)

text \<open>C12 (invariant). No byte stream can make the regulator run a configuration that was not checked: from boot on, whatever the store
  held and answers, whatever the host sends over USB in whatever pieces, and in whatever order the main loop
  polls, the running configuration is the compiled defaults or one the guard rails accept, has its seven slots, and the
  globals, limits and profile of the engine are its views.\<close>

theorem no_stream_breaks_config:
  assumes "app_step\<^sup>*\<^sup>* (config_boot git rd wt zero stored0 a) m"
  shows "owner_ok (ap_owner (ms_world m)) \<and> cfg_wf (ow_cfg (ap_owner (ms_world m)))"
proof -
  have "ms_host m = config_host git rd wt \<and> config_sound (ms_world m)"
    using assms
  proof (induction rule: rtranclp_induct)
    case base
    then show ?case using boot_sound by (simp add: config_boot_def cfg_msg_init_def)
  next
    case (step m m')
    then show ?case using step_sound by blast
  qed
  then show ?thesis by (simp add: config_sound_def)
qed

section \<open>The reply that is largest\<close>

lemma host_pieces: "foldl config_host_tx a cs = a\<lparr>ap_usb := foldl (\<lambda>s buf. snd (usb_cdc_write buf s)) (ap_usb a) cs\<rparr>"
  by (induction cs arbitrary: a) (simp_all add: config_host_tx_def cfg_proto_tx_def)

lemma version_length: "length (quoted FW_VERSION_STRING) = 11"
  by (simp add: FW_VERSION_STRING_def quoted_plain plain_def)

lemma cfg_reply_length:
  assumes "length (cfg_profiles cfg) = CFG_PROFILE_COUNT"
  shows "length (render (cfg_reply_doc cfg (Some FW_VERSION_STRING))) \<le> 3060"
  using document_room [OF assms, of "Some FW_VERSION_STRING"]
  by (simp add: cfg_reply_doc_def version_length quoted_plain plain_def)

lemma reply_whole:
  assumes "legal d" "height d \<le> 6" "tx_ready (ap_usb a) (length (render d) + 1)"
  shows "\<exists>u. send (config_host git rd wt) a d = a\<lparr>ap_usb := u\<rparr> \<and> tx_stream u = tx_stream (ap_usb a) @ render d @ [0x0A] \<and>
    us_tx_dropped u = us_tx_dropped (ap_usb a)"
proof -
  obtain cs where c: "send (config_host git rd wt) a d = config_host_tx (foldl config_host_tx a cs) [0x0A]" "concat cs = render d"
    using send_line [OF _ assms(1,2), of "config_host git rd wt" config_host_tx a] by (auto simp: config_host_def)
  then have "send (config_host git rd wt) a d = foldl config_host_tx a (cs @ [[0x0A]])" by simp
  then show ?thesis using writes_whole [of "ap_usb a" "cs @ [[0x0A]]"] assms(3) c(2) unfolding host_pieces
    by (intro exI [of _ "foldl (\<lambda>s buf. snd (usb_cdc_write buf s)) (ap_usb a) (cs @ [[0x0A]])"]) simp
qed

text \<open>C31 (bounds). The largest reply is never cut: on a configured port whose transmission ring is empty, the answer to a \<open>cfg-get\<close>, produced in
  one call and faster than the interrupt can drain it, is taken whole, whatever seven-slot configuration runs and
  whatever its numbers, and not a byte is dropped; nothing else of the application changes.\<close>

theorem configuration_reply_fits:
  assumes "ms_host m = config_host git rd wt" "cfg_wf (ow_cfg (ap_owner (ms_world m)))" "tx_ready (ap_usb (ms_world m)) 3061"
  shows "\<exists>u. do_cfg_get m = m\<lparr>ms_world := (ms_world m)\<lparr>ap_usb := u\<rparr>\<rparr> \<and>
    tx_stream u = tx_stream (ap_usb (ms_world m)) @ render (cfg_reply_doc (ow_cfg (ap_owner (ms_world m))) (Some FW_VERSION_STRING)) @ [0x0A] \<and>
    us_tx_dropped u = us_tx_dropped (ap_usb (ms_world m))"
proof -
  let ?cfg = "ow_cfg (ap_owner (ms_world m))" let ?d = "cfg_reply_doc ?cfg (Some FW_VERSION_STRING)"
  have "length (render ?d) \<le> 3060" using assms(2) by (intro cfg_reply_length) (simp add: cfg_wf_def)
  then have r: "tx_ready (ap_usb (ms_world m)) (length (render ?d) + 1)" using assms(3) by (simp add: tx_ready_def)
  have g: "do_cfg_get m = m\<lparr>ms_world := send (config_host git rd wt) (ms_world m) ?d\<rparr>"
    using assms(1) by (simp add: do_cfg_get_doc host_get_def config_host_def config_host_get_def reply_def)
  show ?thesis using reply_whole [OF reply_docs_legal(3) reply_docs_height(3) r, of git rd wt] unfolding g by auto
qed

section \<open>A sample application\<close>

definition sample_src :: diag_src where
  "sample_src = \<lparr>ds_tick = 5, ds_reset_cause_count = (\<lambda>c. if c = RESET_CAUSE_POR then 1 else 0), ds_reset_cause = 0, ds_boot_count = 1,
     ds_record_count = 0, ds_newest_record = None, ds_crc_status = INTEGRITY_CRC_OK, ds_stack_used_max = 600, ds_stack_free_min = 400,
     ds_errb = errb_table_init, ds_safe_state_entries = 0, ds_bus_off_count = 0, ds_can_tx_dropped = 0, ds_running_on_hse = True\<rparr>"

definition sample_app :: "ram app" where
  "sample_app = \<lparr>ap_owner = sample_owner, ap_usb = uw_port sample_configured, ap_tlm = sample_telem, ap_next_ms = 0, ap_diag = sample_src\<rparr>"

definition sample_boot :: "ram app cfg_msg_t" where
  "sample_boot = config_boot [] ram_rd ram_wr sample_cfg sample_cfg sample_app"

theorem no_stream_breaks_config_witness: "owner_ok (ap_owner (ms_world (config_poll sample_boot)))"
  using no_stream_breaks_config [of "[]" ram_rd ram_wr sample_cfg sample_cfg sample_app "config_poll sample_boot"]
    r_into_rtranclp [of app_step, OF app_step.polled [of sample_boot]]
  by (simp add: sample_boot_def)

lemma sample_boot_state:
  "ms_host sample_boot = config_host [] ram_rd ram_wr" "cfg_wf (ow_cfg (ap_owner (ms_world sample_boot)))"
  "ap_usb (ms_world sample_boot) = uw_port sample_configured" "tx_ready (uw_port sample_configured) 3061"
  using boot_sound [of "[]" ram_rd ram_wr sample_cfg sample_cfg sample_app] configured_state sound_parts [OF runs_sound [OF configured_run]]
  by (simp_all add: sample_boot_def config_boot_def cfg_msg_init_def config_sound_def sample_app_def tx_ready_def)

theorem configuration_reply_fits_witness:
  "\<exists>u. do_cfg_get sample_boot = sample_boot\<lparr>ms_world := (ms_world sample_boot)\<lparr>ap_usb := u\<rparr>\<rparr> \<and> us_tx_dropped u = us_tx_dropped (uw_port sample_configured)"
  using configuration_reply_fits [OF sample_boot_state(1,2)] sample_boot_state(3,4) by auto

end
