(* ===== verification/Spec2Isabelle.thy ===== *)
theory Spec2Isabelle
  imports Engine_Fsm Annunc Config_Owner Eeprom Can_Bus Msg_Host
begin

text \<open>
  WS500-OpenFW: alternator regulator firmware. The development models the decision code of the
  firmware, everything between the measurements of one 10 ms tick and the duty it commands, the
  configuration it runs on from EEPROM bytes to engine parameters, what it says about itself on the
  lamp and on CAN, and the JSON protocol by which a client reads and changes it over USB.

  How the parts interact. \<open>main.c\<close> gathers measurements and ceilings and calls \<open>ctrl_tick\<close>
  (\<open>control/Src/control.c\<close>); the command that comes back drives the field and is turned into the
  snapshot of \<open>telemetry.c\<close>, which the lamp encoder and the two CAN dialects read. The globals,
  profile and limits the tick is given are published by \<open>Core/Src/config_protocol.c\<close> from one
  configuration, which is the compiled default, or a record of the two-slot store that decoded and
  validated, or one a client sent that was stored first. A client's bytes come through the rings of
  \<open>usb_cdc.c\<close> to \<open>config_poll\<close>, which hands them to the message layer of \<open>config_msg.c\<close>; that reads the document with
  \<open>config_doc.c\<close>, asks the guard rails, and calls the host's save hook; replies and the telemetry line go back
  through the writer of \<open>config_json.c\<close> in pieces of 128 bytes.

  Theories, and the code they model:
    \<^item> \<open>Prelude\<close>, \<open>Ieee\<close>, \<open>Float_Facts\<close>, \<open>Samples\<close>: shared types and lemmas; C's \<open>float\<close> and \<open>double\<close> as
      exactly rounded values, a \<open>float\<close> being its bit pattern.
    \<^item> \<open>Ctrl_Types\<close> (\<open>control.h\<close>), \<open>Faults\<close> (\<open>faults.c\<close>), \<open>Arbitration\<close> (\<open>arbitration.c\<close>,
      \<open>limits.c\<close>), \<open>Field\<close> (\<open>field.c\<close>), \<open>Thermal\<close> (\<open>thermal.c\<close>), \<open>Engine\<close>
      (\<open>control.c\<close>: one definition per block of \<open>ctrl_tick\<close>, composed in its order).
      \<open>Engine_Props\<close> shows what every tick and every run from power-up keeps: latching of critical
      faults, range of effort and duty, the voltage the rotor can see, the charge interlocks, the
      power bound, the stationary-rotor budget, recovery from lost measurements. \<open>Engine_Fsm\<close> relates
      the tick to the abstract charge machine \<open>charge_tr\<close> and bounds the time in BULK.
    \<^item> \<open>Annunc\<close> (\<open>annunc.c\<close>): the lamp encoder refines a timeline of flashes; its phase walk ends.
    \<^item> \<open>Telemetry\<close> (\<open>telemetry.c\<close>): the snapshot.
    \<^item> \<open>Wire\<close>, \<open>Config_Codec\<close>, \<open>Config_Record\<close> (\<open>config_codec.c\<close>): fields and records as bytes,
      round trip and single-byte corruption. \<open>Config_Validate\<close>, \<open>Config_Rules\<close>
      (\<open>config_validate.c\<close>): the rules and what an accepted configuration satisfies.
      \<open>Config_Store\<close> (\<open>config_store.c\<close>): two slots over a device, as the choice of the newest record.
      \<open>Err_Budget\<close> (\<open>err_budget.c\<close>), \<open>Eeprom\<close> (\<open>eeprom24c16.c\<close>): the driver is a flat memory behind
      a part that stores nothing while /WP is high and promises nothing across pages and blocks. \<open>Config_Owner\<close> (\<open>config_protocol.c\<close>): the running
      configuration.
    \<^item> \<open>Can_Frame\<close>, \<open>Scaled_Field\<close>, \<open>N2k_Encode\<close>, \<open>N2k_Props\<close> (\<open>n2k_encode.c\<close>), \<open>Rvc_Encode\<close>
      (\<open>rvc_encode.c\<close>): frames, fast packets, scaled fields and what a listener decodes.
      \<open>N2k_AddrClaim\<close> (\<open>n2k_addrclaim.c\<close>): the claim state machine over any order of ticks and
      received frames. \<open>Sched_Core\<close>, \<open>N2k_Sched\<close> (\<open>n2k_sched.c\<close>), \<open>Rvc_Sched\<close> (\<open>rvc_sched.c\<close>): the
      cadence engines and the battery-master election.
    \<^item> \<open>Can_Bus\<close> (\<open>can_n2k.c\<close>): the CAN port over the HAL as a record of functions: filters, transmit ring,
      receive dispatch, poll and publish.
    \<^item> \<open>Json_Reader\<close> (\<open>config_json.c\<close>): number scanner, cursor, strings, containers, skip, validate.
      \<open>Json_Grammar\<close>, \<open>Json_Walk\<close>, \<open>Json_Decide\<close>: the wire grammar, and that the walk ends and decides it.
      \<open>Json_Writer\<close> (the same file): the decimal formatter and the streaming writer. \<open>Json_Render\<close> shows what it
      streams, \<open>Json_Decimal\<close> bounds the error of the formatter, \<open>Json_Float\<close> shows that a float reads back
      bit for bit, \<open>Json_Print\<close> that strings do and that every written document is accepted.
    \<^item> \<open>Config_Doc\<close> (\<open>config_doc.c\<close>): emission and overlay of the document, one definition per function and block.
      \<open>Doc_Walk\<close>: the walk keeps the cursor legal and the seven slots, and every round of its loops takes text, so they end; \<open>Doc_Report\<close>: a failing handler reports an error;
      \<open>Doc_Print\<close>: what is emitted is the rendering of a document tree; \<open>Doc_Read\<close>, \<open>Doc_Round\<close>: reading it back gives
      the configuration; \<open>Doc_Size\<close>: its length for any numbers. \<open>Telemetry_Json\<close> (\<open>telemetry_json.c\<close>): the telemetry line.
    \<^item> \<open>Config_Msg\<close> (\<open>config_msg.c\<close>): line assembly, dispatch, the four requests. \<open>Msg_Props\<close>: the stream is a stream of
      lines, each line has one answer, and what a line can do to the host (\<open>served\<close>). \<open>Msg_Export\<close>: an
      exported configuration can be sent back.
    \<^item> \<open>Ring\<close>: the octet rings of \<open>usb_cdc.c\<close> as queues. \<open>Usb_Cdc\<close> (\<open>usb_cdc.c\<close>): descriptors, control requests, rings and bulk endpoints,
      with the calls of the HAL's PCD driver as a trace. \<open>Usb_Props\<close>: over any sequence of callbacks and calls, what the main loop writes leaves in order and
      reception resumes; what the host sends is kept in order if it does not clear the halt of the OUT endpoint while the ring is full,
      and \<open>clear_halt_overruns\<close> shows the loss if it does. When the ST driver arms the endpoint is stated there.
    \<^item> \<open>Msg_Host\<close> (\<open>cfg_stream.c\<close>, \<open>telem_stream.c\<close>, the host of \<open>config_protocol.c\<close>): the layers joined; no byte stream makes the
      engine run a configuration that was not checked, and the largest reply fits the ring.

  Interfaces. Each locale states what one part relies on in another and is interpreted on the
  model of the code that provides it: \<open>rounding\<close> (both float formats), \<open>wire_field\<close> and
  \<open>wire_exact\<close> (each field type of the record), \<open>store_io\<close> (the device the store needs; a 24C16
  behind the driver is one, by a sublocale of \<open>i2c_chip\<close>), \<open>scaled_field\<close> (each quantised field
  of both dialects), \<open>tx_group\<close> (each message group of both schedulers), \<open>bounded_queue\<close> with \<open>ring_size\<close> and
  \<open>octet_ring\<close> (the transmit ring of CAN and both rings of USB), \<open>doc_invariant\<close> (what the parser of the document
  keeps: the slots and the stamps), \<open>msg_host\<close> (the message layer over its host, interpreted on the
  application), and the step machines of the engine, the guard, the governor, the lamp, the configuration
  owner and the silent CAN port.

  Choices. Machine integers keep their width and wrap; a C \<open>enum\<close> is a datatype, except where the
  code decodes any byte into it; errors are values; pointers are valid, so the tests for NULL at the head of a
  function are not modelled. HAL calls, the EEPROM part and the result \<open>llround\<close> gives out of
  range are parameters. A callback of the USB interrupt and a call of the main loop are each one step: an interrupt
  in the middle of a call, which the source guards by masking it or by single-writer indices, is not
  modelled.

  Loops. Most are structural or have their termination proved by a measure. The skip of the JSON reader takes
  fuel \<open>2 * length + 1\<close>, and \<open>skip_unfold\<close> shows that the source's equations hold with it; the
  drain of the transmit ring takes the ring's size, which bounds what it can hold. The loops over the names and
  members of the document and of its nested objects take a byte or more per round and the array of profiles takes seven rounds at most
  (\<open>document_walk_ends\<close>). The two walks over the envelope of a message take the length of the line, which \<open>set_walk_eq\<close> and
  \<open>type_walk_eq\<close> show to be enough; \<open>config_poll\<close> makes the source's four reads. \<open>wr_loop\<close> and the exponent
  estimate of the formatter are partial functions, as the C loops do not end on every state; they are shown to
  return for a chunk of positive size and for a finite positive number.

  Not modelled: sensor acquisition, watchdog, memory integrity, crash records and board set-up, which are register access
  with no result to state (the diagnostic getters are fields of \<open>diag_src\<close>); the clock and interrupt set-up of the
  USB port; the simulator and the test firmware.
\<close>

end
